(* ===== verification/Prelude.thy ===== *)
theory Prelude
  imports Main "HOL-Library.Word" "HOL-Library.Signed_Division" "HOL-Library.List_Lexorder"
    "HOL-Library.Char_ord"
begin

text \<open>
  Shared vocabulary of the development.

  The C++ sources are translated into total functions.  What a C++ expression can do beyond
  returning a value is written out in the type \<open>outcome\<close>: it returns, it throws an
  exception, or its behaviour is undefined by the language (a read or write outside an array, a
  signed overflow, a division by zero, an assertion of a library that fails).  A statement that
  also reads and changes state is a \<open>prog\<close>: a function from the state to an outcome and
  the state it leaves behind, so that the changes made before an exception are kept, as they are
  in the code.

  The theory also holds the machine integers the driver computes with (\<open>int\<close> with the
  32-bit range checked) and the generic lemmas on lists, strings and maps that several
  components use.
\<close>

section \<open>Outcomes\<close>

text \<open>The error codes of \<open>JsonRPCException\<close>.\<close>

datatype error_code = BAD_RESPONSE | JSONRPC_ERROR | NETWORK_EXCEPTION

text \<open>
  The exception types the sources throw or let through: \<open>std::runtime_error\<close>, the
  exceptions of the JSON library with their numeric id, \<open>JsonRPCException\<close>, and the
  \<open>std::invalid_argument\<close> and \<open>std::out_of_range\<close> of \<open>std::stoi\<close>,
  \<open>substr\<close> and \<open>map::at\<close>.
\<close>

datatype cxx_exn =
    Runtime_error string
  | Json_exception nat
  | JsonRPCException error_code string
  | Invalid_argument
  | Out_of_range
  | Length_error

datatype 'a outcome = Ret 'a | Throw cxx_exn | Undef

named_theorems prog_simps "rewrite rules that run a program step by step"

primrec obind :: "'a outcome \<Rightarrow> ('a \<Rightarrow> 'b outcome) \<Rightarrow> 'b outcome" where
  "obind (Ret a) f = f a"
| "obind (Throw e) f = Throw e"
| "obind Undef f = Undef"

primrec omap :: "('a \<Rightarrow> 'b outcome) \<Rightarrow> 'a list \<Rightarrow> 'b list outcome" where
  "omap f [] = Ret []"
| "omap f (x # xs) = obind (f x) (\<lambda>y. obind (omap f xs) (\<lambda>ys. Ret (y # ys)))"

lemma obind_assoc: "obind (obind m f) g = obind m (\<lambda>x. obind (f x) g)"
  by (cases m) simp_all

lemma obind_Ret_right [simp]: "obind m Ret = m"
  by (cases m) simp_all

lemma obind_eq_Ret: "obind m f = Ret b \<longleftrightarrow> (\<exists>a. m = Ret a \<and> f a = Ret b)"
  by (cases m) simp_all

lemma omap_Ret: "(\<And>x. x \<in> set xs \<Longrightarrow> f x = Ret (g x)) \<Longrightarrow> omap f xs = Ret (map g xs)"
  by (induction xs) simp_all

lemma obind_cong [fundef_cong]:
  "m = m' \<Longrightarrow> (\<And>x. m' = Ret x \<Longrightarrow> f x = f' x) \<Longrightarrow> obind m f = obind m' f'"
  by (cases m') simp_all

text \<open>An assertion before a result.\<close>

definition asserted :: "bool \<Rightarrow> 'a outcome \<Rightarrow> 'a outcome" where
  "asserted b r = (if b then r else Undef)"

lemma asserted_True [simp]: "b \<Longrightarrow> asserted b r = r"
  by (simp add: asserted_def)

lemma asserted_eq_Ret: "asserted b r = Ret x \<longleftrightarrow> b \<and> r = Ret x"
  by (simp add: asserted_def)

lemma asserted_cong [fundef_cong]:
  "b = b' \<Longrightarrow> (b' \<Longrightarrow> r = r') \<Longrightarrow> asserted b r = asserted b' r'"
  by (simp add: asserted_def)

lemma omap_length: "omap f xs = Ret ys \<Longrightarrow> length ys = length xs"
  by (induction xs arbitrary: ys) (auto simp: obind_eq_Ret)

section \<open>Programs over a state\<close>

text \<open>
  The result of a program is an option: \<open>None\<close> is a program that does not return, which a loop
  over a connection or a wait for an event can be.
\<close>

type_synonym ('s, 'a) prog = "'s \<Rightarrow> ('a outcome \<times> 's) option"

definition retp :: "'a \<Rightarrow> ('s, 'a) prog" where
  "retp a = (\<lambda>s. Some (Ret a, s))"

definition bnd :: "('s, 'a) prog \<Rightarrow> ('a \<Rightarrow> ('s, 'b) prog) \<Rightarrow> ('s, 'b) prog" where
  "bnd m f = (\<lambda>s. Option.bind (m s) (\<lambda>(r, s'). case r of
       Ret a \<Rightarrow> f a s'
     | Throw e \<Rightarrow> Some (Throw e, s')
     | Undef \<Rightarrow> Some (Undef, s')))"

definition sq :: "('s, 'a) prog \<Rightarrow> ('s, 'b) prog \<Rightarrow> ('s, 'b) prog" where
  "sq m n = bnd m (\<lambda>_. n)"

definition throwp :: "cxx_exn \<Rightarrow> ('s, 'a) prog" where
  "throwp e = (\<lambda>s. Some (Throw e, s))"

definition undefp :: "('s, 'a) prog" where
  "undefp = (\<lambda>s. Some (Undef, s))"

definition liftp :: "'a outcome \<Rightarrow> ('s, 'a) prog" where
  "liftp r = (\<lambda>s. Some (r, s))"

definition getsp :: "('s \<Rightarrow> 'a) \<Rightarrow> ('s, 'a) prog" where
  "getsp f = (\<lambda>s. Some (Ret (f s), s))"

definition modp :: "('s \<Rightarrow> 's) \<Rightarrow> ('s, unit) prog" where
  "modp f = (\<lambda>s. Some (Ret (), f s))"

definition try_catch :: "('s, 'a) prog \<Rightarrow> (cxx_exn \<Rightarrow> ('s, 'a) prog) \<Rightarrow> ('s, 'a) prog" where
  "try_catch m h = (\<lambda>s. Option.bind (m s) (\<lambda>(r, s'). case r of
       Ret a \<Rightarrow> Some (Ret a, s')
     | Throw e \<Rightarrow> h e s'
     | Undef \<Rightarrow> Some (Undef, s')))"

definition whenp :: "bool \<Rightarrow> ('s, unit) prog \<Rightarrow> ('s, unit) prog" where
  "whenp b m = (if b then m else retp ())"

primrec forp :: "('a \<Rightarrow> ('s, unit) prog) \<Rightarrow> 'a list \<Rightarrow> ('s, unit) prog" where
  "forp f [] = retp ()"
| "forp f (x # xs) = sq (f x) (forp f xs)"

text \<open>A program on a component of a larger state.\<close>

definition zoom :: "('s \<Rightarrow> 't) \<Rightarrow> ('t \<Rightarrow> 's \<Rightarrow> 's) \<Rightarrow> ('t, 'a) prog \<Rightarrow> ('s, 'a) prog" where
  "zoom get put m = (\<lambda>s. Option.bind (m (get s)) (\<lambda>(r, t). Some (r, put t s)))"

lemma bnd_retp [simp, prog_simps]: "bnd (retp a) f = f a"
  by (simp add: bnd_def retp_def)

lemma bnd_throwp [simp, prog_simps]: "bnd (throwp e) f = throwp e"
  by (simp add: bnd_def throwp_def)

lemma bnd_undefp [simp, prog_simps]: "bnd undefp f = undefp"
  by (simp add: bnd_def undefp_def)

lemma bnd_liftp_run [simp, prog_simps]:
  "bnd (liftp (Ret a)) f = f a" "bnd (liftp (Throw e)) f = throwp e" "bnd (liftp Undef) f = undefp"
  by (simp_all add: bnd_def liftp_def throwp_def undefp_def)

lemma bnd_getsp_run [simp, prog_simps]: "bnd (getsp g) f s = f (g s) s"
  by (simp add: bnd_def getsp_def)

lemma bnd_modp_run [simp, prog_simps]: "bnd (modp g) f s = f () (g s)"
  by (simp add: bnd_def modp_def)

lemma bnd_assoc [simp, prog_simps]: "bnd (bnd m f) g = bnd m (\<lambda>x. bnd (f x) g)"
proof (rule ext)
  fix s
  show "bnd (bnd m f) g s = bnd m (\<lambda>x. bnd (f x) g) s"
    by (cases "m s") (auto simp: bnd_def split: outcome.splits)
qed

lemma sq_retp [simp, prog_simps]: "sq (retp a) n = n"
  by (simp add: sq_def)

lemma sq_throwp [simp, prog_simps]: "sq (throwp e) n = throwp e"
  by (simp add: sq_def)

lemma sq_undefp [simp, prog_simps]: "sq undefp n = undefp"
  by (simp add: sq_def)

lemma sq_modp_run [simp, prog_simps]: "sq (modp g) n s = n (g s)"
  by (simp add: sq_def)

lemma sq_liftp_run [simp, prog_simps]:
  "sq (liftp (Ret a)) n = n" "sq (liftp (Throw e)) n = throwp e" "sq (liftp Undef) n = undefp"
  by (simp_all add: sq_def)

lemma whenp_simps [simp, prog_simps]: "whenp True m = m" "whenp False m = retp ()"
  by (simp_all add: whenp_def)

lemma retp_run [simp, prog_simps]: "retp a s = Some (Ret a, s)"
  by (simp add: retp_def)

lemma throwp_run [simp, prog_simps]: "throwp e s = Some (Throw e, s)"
  by (simp add: throwp_def)

lemma undefp_run [simp, prog_simps]: "undefp s = Some (Undef, s)"
  by (simp add: undefp_def)

lemma liftp_run [simp, prog_simps]: "liftp r s = Some (r, s)"
  by (simp add: liftp_def)

lemma getsp_run [simp, prog_simps]: "getsp g s = Some (Ret (g s), s)"
  by (simp add: getsp_def)

lemma modp_run [simp, prog_simps]: "modp g s = Some (Ret (), g s)"
  by (simp add: modp_def)

text \<open>Running a bind whose first part is known.\<close>

lemma bnd_run_Ret: "m s = Some (Ret a, s') \<Longrightarrow> bnd m f s = f a s'"
  by (simp add: bnd_def)

lemma bnd_run_Throw: "m s = Some (Throw e, s') \<Longrightarrow> bnd m f s = Some (Throw e, s')"
  by (simp add: bnd_def)

lemma bnd_run_Undef: "m s = Some (Undef, s') \<Longrightarrow> bnd m f s = Some (Undef, s')"
  by (simp add: bnd_def)

lemma bnd_run_None: "m s = None \<Longrightarrow> bnd m f s = None"
  by (simp add: bnd_def)

lemma sq_run_Ret: "m s = Some (Ret a, s') \<Longrightarrow> sq m n s = n s'"
  by (simp add: sq_def bnd_def)

lemma sq_run_Throw: "m s = Some (Throw e, s') \<Longrightarrow> sq m n s = Some (Throw e, s')"
  by (simp add: sq_def bnd_def)

lemma sq_run_Undef: "m s = Some (Undef, s') \<Longrightarrow> sq m n s = Some (Undef, s')"
  by (simp add: sq_def bnd_def)

lemmas prog_runs = bnd_run_Ret bnd_run_Throw bnd_run_Undef bnd_run_None
  sq_run_Ret sq_run_Throw sq_run_Undef

lemma try_catch_run_Ret: "m s = Some (Ret a, s') \<Longrightarrow> try_catch m h s = Some (Ret a, s')"
  by (simp add: try_catch_def)

lemma try_catch_run_Throw: "m s = Some (Throw e, s') \<Longrightarrow> try_catch m h s = h e s'"
  by (simp add: try_catch_def)

lemma try_catch_run_Undef: "m s = Some (Undef, s') \<Longrightarrow> try_catch m h s = Some (Undef, s')"
  by (simp add: try_catch_def)

lemmas try_runs = try_catch_run_Ret try_catch_run_Throw try_catch_run_Undef

lemma try_catch_throwp [simp, prog_simps]: "try_catch (throwp e) h = h e"
  by (simp add: try_catch_def throwp_def)

lemma try_catch_retp [simp, prog_simps]: "try_catch (retp a) h = retp a"
  by (simp add: try_catch_def retp_def)

lemma zoom_run: "m (get s) = Some (r, t) \<Longrightarrow> zoom get put m s = Some (r, put t s)"
  by (simp add: zoom_def)

text \<open>A result of a bind comes from the results of its parts.\<close>

lemma bnd_SomeE:
  assumes "bnd m f s = Some (r, s')"
  obtains (ret) a t where "m s = Some (Ret a, t)" "f a t = Some (r, s')"
  | (throw) e where "m s = Some (Throw e, s')" "r = Throw e"
  | (undef) "m s = Some (Undef, s')" "r = Undef"
proof -
  obtain r0 t where m: "m s = Some (r0, t)"
    using assms by (cases "m s") (auto simp: bnd_def)
  then show ?thesis
    using assms that by (cases r0) (auto simp: bnd_def)
qed

text \<open>Recursive programs: the combinators are monotone in the recursive call.\<close>

lemma bnd_partial_mono [partial_function_mono]:
  assumes "\<And>s. mono_option (\<lambda>f. m f s)" and "\<And>a s. mono_option (\<lambda>f. k f a s)"
  shows "mono_option (\<lambda>f. bnd (m f) (k f) s)"
proof -
  have "mono_option (\<lambda>f. case r of Ret a \<Rightarrow> k f a t | Throw e \<Rightarrow> Some (Throw e, t) | Undef \<Rightarrow> Some (Undef, t))"
    for r t
    using assms(2) by (cases r) (auto intro: partial_function_mono option.const_mono)
  then have "mono_option (\<lambda>f. case p of (r, t) \<Rightarrow>
      (case r of Ret a \<Rightarrow> k f a t | Throw e \<Rightarrow> Some (Throw e, t) | Undef \<Rightarrow> Some (Undef, t)))" for p
    by (cases p) simp
  with assms(1) show ?thesis
    unfolding bnd_def by (rule bind_mono)
qed

lemma sq_partial_mono [partial_function_mono]:
  assumes "\<And>s. mono_option (\<lambda>f. m f s)" and "\<And>s. mono_option (\<lambda>f. n f s)"
  shows "mono_option (\<lambda>f. sq (m f) (n f) s)"
  unfolding sq_def using assms by (intro bnd_partial_mono)

lemma if_app_partial_mono [partial_function_mono]:
  "mono_option (\<lambda>f. m f s) \<Longrightarrow> mono_option (\<lambda>f. n f s) \<Longrightarrow>
    mono_option (\<lambda>f. (if b then m f else n f) s)"
  by (cases b) simp_all

lemma let_app_partial_mono [partial_function_mono]:
  "mono_option (\<lambda>f. m f v s) \<Longrightarrow> mono_option (\<lambda>f. (let x = v in m f x) s)"
  by (simp add: Let_def)

lemma prod_app_partial_mono [partial_function_mono]:
  "(\<And>x y. mono_option (\<lambda>f. m f x y s)) \<Longrightarrow> mono_option (\<lambda>f. (case p of (x, y) \<Rightarrow> m f x y) s)"
  by (cases p) simp

text \<open>
  A predicate on the state that a program keeps, whatever its outcome.  The rules below are the
  closure of such predicates under the program combinators, so that an operation's invariant is
  proved from those of its calls.
\<close>

definition keeps :: "('s \<Rightarrow> bool) \<Rightarrow> ('s, 'a) prog \<Rightarrow> bool" where
  "keeps P m \<longleftrightarrow> (\<forall>s r s'. P s \<longrightarrow> m s = Some (r, s') \<longrightarrow> P s')"

named_theorems keeps_intros "programs that keep a predicate on the state"

lemma keepsD: "keeps P m \<Longrightarrow> P s \<Longrightarrow> m s = Some (r, s') \<Longrightarrow> P s'"
  by (auto simp: keeps_def)

lemma keeps_bnd [keeps_intros]:
  assumes "keeps P m" and "\<And>a. keeps P (f a)"
  shows "keeps P (bnd m f)"
proof -
  have "P s'" if "P s" "bnd m f s = Some (r, s')" for s r s'
    using that(2) by (cases rule: bnd_SomeE) (use assms that(1) in \<open>auto dest: keepsD\<close>)
  then show ?thesis by (auto simp: keeps_def)
qed

lemma keeps_sq [keeps_intros]: "keeps P m \<Longrightarrow> keeps P n \<Longrightarrow> keeps P (sq m n)"
  by (simp add: sq_def keeps_bnd)

lemma keeps_simple [keeps_intros]:
  "keeps P (retp a)" "keeps P (throwp e)" "keeps P undefp" "keeps P (liftp r)" "keeps P (getsp g)"
  by (simp_all add: keeps_def)

lemma keeps_modp: "(\<And>s. P s \<Longrightarrow> P (g s)) \<Longrightarrow> keeps P (modp g)"
  by (simp add: keeps_def)

lemma keeps_whenp [keeps_intros]: "keeps P m \<Longrightarrow> keeps P (whenp b m)"
  by (simp add: whenp_def keeps_simple)

lemma keeps_if [keeps_intros]: "keeps P m \<Longrightarrow> keeps P n \<Longrightarrow> keeps P (if b then m else n)"
  by simp

lemma keeps_try_catch [keeps_intros]:
  assumes "keeps P m" and "\<And>e. keeps P (h e)"
  shows "keeps P (try_catch m h)"
proof -
  have "P s'" if s: "P s" "try_catch m h s = Some (r, s')" for s r s'
  proof -
    obtain r0 t where m: "m s = Some (r0, t)"
      using s(2) by (cases "m s") (auto simp: try_catch_def)
    with assms(1) s(1) have "P t" by (auto dest: keepsD)
    with m s(2) assms(2) show ?thesis
      by (cases r0) (auto simp: try_catch_def dest: keepsD)
  qed
  then show ?thesis by (auto simp: keeps_def)
qed

lemma keeps_option [keeps_intros]:
  "keeps P m \<Longrightarrow> (\<And>a. keeps P (n a)) \<Longrightarrow> keeps P (case x of None \<Rightarrow> m | Some a \<Rightarrow> n a)"
  by (cases x) simp_all

lemma keeps_prod [keeps_intros]: "(\<And>a b. keeps P (m a b)) \<Longrightarrow> keeps P (case p of (a, b) \<Rightarrow> m a b)"
  by (cases p) simp

lemma keeps_let [keeps_intros]: "keeps P (m v) \<Longrightarrow> keeps P (let x = v in m x)"
  by simp

lemma keeps_forp [keeps_intros]: "(\<And>x. keeps P (f x)) \<Longrightarrow> keeps P (forp f xs)"
  by (induction xs) (auto intro: keeps_intros)

text \<open>A program that does not wait for ever: it has an outcome in every state.\<close>

definition ends :: "('s, 'a) prog \<Rightarrow> bool" where
  "ends m \<longleftrightarrow> (\<forall>s. m s \<noteq> None)"

named_theorems ends_intros "programs that have an outcome"

lemma endsE: "ends m \<Longrightarrow> \<exists>r s'. m s = Some (r, s')"
  by (metis ends_def not_Some_eq old.prod.exhaust)

lemma endsI: "(\<And>s. \<exists>r s'. m s = Some (r, s')) \<Longrightarrow> ends m"
  unfolding ends_def by (metis option.distinct(1))

lemma ends_bnd [ends_intros]:
  assumes "ends m" and "\<And>a. ends (f a)"
  shows "ends (bnd m f)"
proof (rule endsI)
  fix s
  obtain r t where m: "m s = Some (r, t)" using endsE [OF assms(1)] by blast
  show "\<exists>r s'. bnd m f s = Some (r, s')"
    using m endsE [OF assms(2)] by (cases r) (simp_all add: bnd_def)
qed

lemma ends_sq [ends_intros]: "ends m \<Longrightarrow> ends n \<Longrightarrow> ends (sq m n)"
  by (simp add: sq_def ends_bnd)

lemma ends_simple [ends_intros]:
  "ends (retp a)" "ends (throwp e)" "ends undefp" "ends (liftp r)" "ends (getsp g)" "ends (modp h)"
  by (simp_all add: ends_def)

lemma ends_if [ends_intros]: "(b \<Longrightarrow> ends m) \<Longrightarrow> (\<not> b \<Longrightarrow> ends n) \<Longrightarrow> ends (if b then m else n)"
  by simp

lemma ends_whenp [ends_intros]: "ends m \<Longrightarrow> ends (whenp b m)"
  by (simp add: whenp_def ends_simple)

lemma ends_option [ends_intros]:
  "(x = None \<Longrightarrow> ends m) \<Longrightarrow> (\<And>a. x = Some a \<Longrightarrow> ends (n a)) \<Longrightarrow>
    ends (case x of None \<Rightarrow> m | Some a \<Rightarrow> n a)"
  by (cases x) simp_all

lemma ends_prod [ends_intros]: "(\<And>a b. ends (m a b)) \<Longrightarrow> ends (case p of (a, b) \<Rightarrow> m a b)"
  by (cases p) simp

lemma ends_forp [ends_intros]: "(\<And>x. ends (f x)) \<Longrightarrow> ends (forp f xs)"
  by (induction xs) (auto intro: ends_intros)

lemma ends_zoom [ends_intros]: "ends m \<Longrightarrow> ends (zoom g p m)"
  by (metis (mono_tags, lifting) endsE endsI zoom_run)

lemma ends_try_catch [ends_intros]:
  assumes "ends m" and "\<And>e. ends (h e)"
  shows "ends (try_catch m h)"
proof (rule endsI)
  fix s
  obtain r t where m: "m s = Some (r, t)" using endsE [OF assms(1)] by blast
  show "\<exists>r s'. try_catch m h s = Some (r, s')"
    using m endsE [OF assms(2)] by (cases r) (simp_all add: try_catch_def)
qed

section \<open>Machine integers\<close>

text \<open>
  \<open>int\<close> of the sources is a 32-bit two's complement integer whose arithmetic has
  undefined behaviour on overflow and on division by zero; division truncates towards zero.
\<close>

definition in_i32 :: "int \<Rightarrow> bool" where
  "in_i32 x \<longleftrightarrow> - 2147483648 \<le> x \<and> x \<le> 2147483647"

definition i32 :: "int \<Rightarrow> int outcome" where
  "i32 x = (if in_i32 x then Ret x else Undef)"

definition c_add :: "int \<Rightarrow> int \<Rightarrow> int outcome" where
  "c_add a b = i32 (a + b)"

definition c_sub :: "int \<Rightarrow> int \<Rightarrow> int outcome" where
  "c_sub a b = i32 (a - b)"

definition c_mul :: "int \<Rightarrow> int \<Rightarrow> int outcome" where
  "c_mul a b = i32 (a * b)"

definition c_div :: "int \<Rightarrow> int \<Rightarrow> int outcome" where
  "c_div a b = (if b = 0 then Undef else i32 (a sdiv b))"

definition c_mod :: "int \<Rightarrow> int \<Rightarrow> int outcome" where
  "c_mod a b = (if b = 0 then Undef else i32 (a smod b))"

lemma i32_Ret [simp]: "in_i32 x \<Longrightarrow> i32 x = Ret x"
  by (simp add: i32_def)

lemma i32_eq_Ret: "i32 x = Ret y \<longleftrightarrow> in_i32 x \<and> y = x"
  by (auto simp: i32_def)

lemma int_sdiv_nonneg: "0 \<le> a \<Longrightarrow> 0 < b \<Longrightarrow> (a :: int) sdiv b = a div b"
  by (simp add: signed_divide_int_def sgn_if)

lemma int_smod_nonneg: "0 \<le> a \<Longrightarrow> 0 < b \<Longrightarrow> (a :: int) smod b = a mod b"
  by (metis int_sdiv_nonneg minus_div_mult_eq_mod minus_sdiv_mult_eq_smod)

section \<open>Vectors with checked access\<close>

text \<open>\<open>std::vector::operator[]\<close>: an index outside the vector is undefined behaviour.\<close>

definition vec_nth :: "'a list \<Rightarrow> int \<Rightarrow> 'a outcome" where
  "vec_nth xs i = (if 0 \<le> i \<and> i < int (length xs) then Ret (xs ! nat i) else Undef)"

lemma vec_nth_Ret [simp]: "0 \<le> i \<Longrightarrow> i < int (length xs) \<Longrightarrow> vec_nth xs i = Ret (xs ! nat i)"
  by (simp add: vec_nth_def)

lemma vec_nth_neg [simp]: "i < 0 \<Longrightarrow> vec_nth xs i = Undef"
  by (simp add: vec_nth_def)

text \<open>\<open>std::find_if\<close> with the distance of the found element from the beginning.\<close>

fun find_index :: "('a \<Rightarrow> bool) \<Rightarrow> 'a list \<Rightarrow> nat option" where
  "find_index P [] = None"
| "find_index P (x # xs) = (if P x then Some 0 else map_option Suc (find_index P xs))"

lemma find_index_Some:
  "find_index P xs = Some i \<Longrightarrow> i < length xs \<and> P (xs ! i) \<and> (\<forall>j<i. \<not> P (xs ! j))"
proof (induction xs arbitrary: i)
  case Nil
  then show ?case by simp
next
  case (Cons x xs)
  show ?case
  proof (cases "P x")
    case True
    with Cons.prems show ?thesis by simp
  next
    case False
    with Cons.prems obtain k where k: "find_index P xs = Some k" "i = Suc k" by auto
    from Cons.IH [OF k(1)] k(2) False show ?thesis by (auto simp: less_Suc_eq_0_disj)
  qed
qed

lemma find_index_None: "find_index P xs = None \<longleftrightarrow> (\<forall>x \<in> set xs. \<not> P x)"
  by (induction xs) auto

section \<open>Strings\<close>

text \<open>
  \<open>std::string\<close> is a list of characters.  The positions returned by the \<open>find\<close>
  family are options, \<open>None\<close> for \<open>npos\<close>.
\<close>

definition str_find_char_from :: "char \<Rightarrow> string \<Rightarrow> nat \<Rightarrow> nat option" where
  "str_find_char_from c s pos = map_option (\<lambda>i. pos + i) (find_index (\<lambda>x. x = c) (drop pos s))"

fun str_find :: "string \<Rightarrow> string \<Rightarrow> nat option" where
  "str_find pat [] = (if pat = [] then Some 0 else None)"
| "str_find pat (c # cs) =
     (if take (length pat) (c # cs) = pat then Some 0 else map_option Suc (str_find pat cs))"

text \<open>The last occurrence, \<open>rfind\<close>.\<close>

fun str_rfind :: "string \<Rightarrow> string \<Rightarrow> nat option" where
  "str_rfind pat [] = (if pat = [] then Some 0 else None)"
| "str_rfind pat (c # cs) =
     (case str_rfind pat cs of
        Some i \<Rightarrow> Some (Suc i)
      | None \<Rightarrow> if take (length pat) (c # cs) = pat then Some 0 else None)"

definition str_substr :: "string \<Rightarrow> nat \<Rightarrow> nat \<Rightarrow> string outcome" where
  "str_substr s pos n = (if pos \<le> length s then Ret (take n (drop pos s)) else Throw Out_of_range)"

lemma str_find_Some:
  "str_find pat s = Some i \<Longrightarrow> i \<le> length s \<and> take (length pat) (drop i s) = pat"
proof (induction s arbitrary: i)
  case Nil
  then show ?case by (simp split: if_splits)
next
  case (Cons c cs)
  then show ?case by (auto split: if_splits)
qed

lemma str_find_prefix [simp]: "str_find pat (pat @ s) = Some 0"
  by (cases "pat @ s") (auto simp: append_eq_Cons_conv)

lemma str_rfind_Some:
  "str_rfind pat s = Some i \<Longrightarrow> i \<le> length s \<and> take (length pat) (drop i s) = pat"
proof (induction s arbitrary: i)
  case Nil
  then show ?case by (simp split: if_splits)
next
  case (Cons c cs)
  then show ?case by (auto split: if_splits option.splits)
qed

lemma find_index_append_notin:
  "\<forall>x \<in> set xs. \<not> P x \<Longrightarrow> find_index P (xs @ ys) = map_option (\<lambda>i. length xs + i) (find_index P ys)"
  by (induction xs) (cases "find_index P ys"; simp)+

text \<open>\<open>std::to_string\<close> of an integer.\<close>

definition digit_char :: "nat \<Rightarrow> char" where
  "digit_char d = char_of (48 + d)"

fun nat_to_string :: "nat \<Rightarrow> string" where
  "nat_to_string n =
     (if n < 10 then [digit_char n] else nat_to_string (n div 10) @ [digit_char (n mod 10)])"

declare nat_to_string.simps [simp del]

lemma digit_char_eval [simp]:
  "digit_char 0 = CHR ''0''" "digit_char (Suc 0) = CHR ''1''" "digit_char 1 = CHR ''1''"
  "digit_char 2 = CHR ''2''" "digit_char 3 = CHR ''3''" "digit_char 4 = CHR ''4''"
  "digit_char 5 = CHR ''5''" "digit_char 6 = CHR ''6''" "digit_char 7 = CHR ''7''"
  "digit_char 8 = CHR ''8''" "digit_char 9 = CHR ''9''"
  by code_simp+

definition int_to_string :: "int \<Rightarrow> string" where
  "int_to_string i = (if i < 0 then CHR ''-'' # nat_to_string (nat (- i)) else nat_to_string (nat i))"

definition char_digit :: "char \<Rightarrow> nat option" where
  "char_digit c = (let k = of_char c in if 48 \<le> k \<and> k \<le> 57 then Some (k - 48) else None)"

definition is_digit :: "char \<Rightarrow> bool" where
  "is_digit c \<longleftrightarrow> char_digit c \<noteq> None"

fun digits_value :: "nat \<Rightarrow> string \<Rightarrow> nat" where
  "digits_value acc [] = acc"
| "digits_value acc (c # cs) =
     (case char_digit c of Some d \<Rightarrow> digits_value (10 * acc + d) cs | None \<Rightarrow> acc)"

lemma char_digit_digit_char [simp]: "d < 10 \<Longrightarrow> char_digit (digit_char d) = Some d"
  by (simp add: char_digit_def digit_char_def)

lemma digits_value_append:
  "\<forall>c \<in> set cs. char_digit c \<noteq> None \<Longrightarrow>
    digits_value acc (cs @ ds) = digits_value (digits_value acc cs) ds"
  by (induction cs arbitrary: acc) (auto split: option.splits)

lemma nat_to_string_digits: "\<forall>c \<in> set (nat_to_string n). char_digit c \<noteq> None"
proof (induction n rule: nat_to_string.induct)
  case (1 n)
  then show ?case by (cases "n < 10") (auto simp: nat_to_string.simps [of n])
qed

lemma digits_value_nat_to_string: "digits_value 0 (nat_to_string n) = n"
proof (induction n rule: nat_to_string.induct)
  case (1 n)
  show ?case
  proof (cases "n < 10")
    case True
    then show ?thesis by (simp add: nat_to_string.simps [of n])
  next
    case False
    then have "digits_value 0 (nat_to_string n) =
        digits_value (digits_value 0 (nat_to_string (n div 10))) [digit_char (n mod 10)]"
      by (simp add: nat_to_string.simps [of n] digits_value_append nat_to_string_digits)
    with False "1.IH" show ?thesis by simp
  qed
qed

lemma nat_to_string_inject [simp]: "nat_to_string m = nat_to_string n \<longleftrightarrow> m = n"
  by (metis digits_value_nat_to_string)

lemma nat_to_string_nonempty [simp]: "nat_to_string n \<noteq> []"
  by (subst nat_to_string.simps) simp

section \<open>Association lists kept sorted by key\<close>

text \<open>
  \<open>std::map\<close> with string keys, as the list of its entries in iteration order.
\<close>

fun smap_put :: "'k::linorder \<Rightarrow> 'v \<Rightarrow> ('k \<times> 'v) list \<Rightarrow> ('k \<times> 'v) list" where
  "smap_put k v [] = [(k, v)]"
| "smap_put k v ((k', v') # m) =
     (if k < k' then (k, v) # (k', v') # m
      else if k = k' then (k, v) # m
      else (k', v') # smap_put k v m)"

definition smap_del :: "'k \<Rightarrow> ('k \<times> 'v) list \<Rightarrow> ('k \<times> 'v) list" where
  "smap_del k m = filter (\<lambda>e. fst e \<noteq> k) m"

definition smap_ok :: "('k::linorder \<times> 'v) list \<Rightarrow> bool" where
  "smap_ok m \<longleftrightarrow> sorted_wrt (<) (map fst m)"

lemma smap_ok_Nil [simp]: "smap_ok []"
  by (simp add: smap_ok_def)

lemma map_of_smap_put_same [simp]: "map_of (smap_put k v m) k = Some v"
  by (induction k v m rule: smap_put.induct) auto

lemma map_of_smap_put: "smap_ok m \<Longrightarrow> map_of (smap_put k v m) = (map_of m)(k \<mapsto> v)"
proof (induction m)
  case Nil
  then show ?case by simp
next
  case (Cons e m)
  obtain k' v' where e: "e = (k', v')" by fastforce
  from Cons.prems have ok: "smap_ok m" by (simp add: smap_ok_def e)
  show ?case
    using Cons.IH [OF ok] by (auto simp: e fun_eq_iff)
qed

lemma fst_set_smap_put: "fst ` set (smap_put k v m) = insert k (fst ` set m)"
  by (induction k v m rule: smap_put.induct) auto

lemma smap_ok_put: "smap_ok m \<Longrightarrow> smap_ok (smap_put k v m)"
proof (induction k v m rule: smap_put.induct)
  case (1 k v)
  then show ?case by (simp add: smap_ok_def)
next
  case (2 k v k' v' m)
  from "2.prems" have ok: "smap_ok m" and lt: "\<forall>x \<in> fst ` set m. k' < x"
    by (auto simp: smap_ok_def)
  consider "k < k'" | "k = k'" | "k' < k" by fastforce
  then show ?case
  proof cases
    case 1
    with "2.prems" show ?thesis by (auto simp: smap_ok_def)
  next
    case 2
    with "2.prems" show ?thesis by (auto simp: smap_ok_def)
  next
    case 3
    then have "smap_ok (smap_put k v m)" using "2.IH" ok by auto
    moreover have "\<forall>x \<in> fst ` set (smap_put k v m). k' < x"
      using lt 3 by (simp add: fst_set_smap_put)
    ultimately show ?thesis using 3 by (auto simp: smap_ok_def)
  qed
qed

lemma map_of_smap_del: "map_of (smap_del k m) = (map_of m)(k := None)"
  by (induction m) (auto simp: smap_del_def fun_eq_iff)

lemma smap_ok_del: "smap_ok m \<Longrightarrow> smap_ok (smap_del k m)"
  by (induction m) (auto simp: smap_ok_def smap_del_def)

end
