(* ===== verification/Base64.thy ===== *)
theory Base64
  imports Prelude
begin

text \<open>
  The base64 decoder of \<open>base64.cpp\<close>, which turns the inline value of a spectrum
  attachment into the bytes of the sample buffer.

  The encoded text is a byte list; the output buffer is the memory region the caller passes, as
  the list of its bytes.  A read beyond the terminating zero of the string and a write beyond the
  region are undefined behaviour.  The decoder is compared with an encoder written from the
  definition of base64: it inverts it whenever the buffer has room for whole groups of three
  bytes, and writes outside the buffer otherwise.
\<close>

unbundle bit_operations_syntax

section \<open>The decoder\<close>

text \<open>The first 128 entries of the table are initialised, the other 128 are zero.\<close>

definition base64_lut :: "8 word list" where
  "base64_lut =
     [0,  0,  0,  0,  0,  0,  0,  0,  0,  0,  0,  0, 0,  0,  0,  0,
      0,  0,  0,  0,  0,  0,  0,  0,  0,  0,  0,  0, 0,  0,  0,  0,
      0,  0,  0,  0,  0,  0,  0,  0,  0,  0,  0, 62, 63, 62, 62, 63,
      52,53, 54, 55, 56, 57, 58, 59, 60, 61,  0,  0,  0,  0,  0,  0,
      0,  0,  1,  2,  3,  4,  5,  6,  7,  8,  9, 10, 11, 12, 13, 14,
      15,16, 17, 18, 19, 20, 21, 22, 23, 24, 25,  0,  0,  0,  0, 63,
      0, 26, 27, 28, 29, 30, 31, 32, 33, 34, 35, 36, 37, 38, 39, 40,
      41,42, 43, 44, 45, 46, 47, 48, 49, 50, 51,  0,  0,  0,  0,  0]
     @ replicate 128 0"

text \<open>
  \<open>p[i]\<close> on the character data of a string: the terminating zero may be read, nothing
  behind it.
\<close>

definition cstr_nth :: "8 word list \<Rightarrow> nat \<Rightarrow> 8 word outcome" where
  "cstr_nth s i = (if i < length s then Ret (s ! i) else if i = length s then Ret 0 else Undef)"

definition lut_at :: "8 word list \<Rightarrow> nat \<Rightarrow> 32 word outcome" where
  "lut_at s i = obind (cstr_nth s i) (\<lambda>b. Ret (ucast (base64_lut ! unat b)))"

text \<open>\<open>decoded_string[j] = b\<close>\<close>

definition mem_put :: "8 word list \<Rightarrow> nat \<Rightarrow> 8 word \<Rightarrow> 8 word list outcome" where
  "mem_put buf j b = (if j < length buf then Ret (buf[j := b]) else Undef)"

text \<open>The four table entries of one group, put together to 24 bits.\<close>

definition group_bits :: "32 word \<Rightarrow> 32 word \<Rightarrow> 32 word \<Rightarrow> 32 word \<Rightarrow> 32 word" where
  "group_bits a b c d = push_bit 18 a OR push_bit 12 b OR push_bit 6 c OR d"

function b64_loop :: "8 word list \<Rightarrow> 8 word list \<Rightarrow> nat \<Rightarrow> nat \<Rightarrow> 8 word list outcome" where
  "b64_loop p buf i j =
     (if i < length p
      then if p ! i = 13 \<or> p ! i = 10 then b64_loop p buf (i + 1) j
           else obind (lut_at p i) (\<lambda>a.
                obind (lut_at p (i + 1)) (\<lambda>b.
                obind (lut_at p (i + 2)) (\<lambda>c.
                obind (lut_at p (i + 3)) (\<lambda>d.
                let n = group_bits a b c d in
                obind (mem_put buf j (ucast (drop_bit 16 n))) (\<lambda>buf.
                obind (mem_put buf (j + 1) (ucast (drop_bit 8 n AND 0xFF))) (\<lambda>buf.
                obind (mem_put buf (j + 2) (ucast (n AND 0xFF))) (\<lambda>buf.
                b64_loop p buf (i + 4) (j + 3))))))))
      else Ret buf)"
  by pat_completeness auto
termination
  by (relation "measure (\<lambda>(p, buf, i, j). length p - i)") auto

declare b64_loop.simps [simp del]

text \<open>\<open>decoded_length\<close> is an argument the body does not use.\<close>

definition base64_decode :: "8 word list \<Rightarrow> 8 word list \<Rightarrow> nat \<Rightarrow> 8 word list outcome" where
  "base64_decode encoded_string decoded_string decoded_length =
     b64_loop encoded_string decoded_string 0 0"

section \<open>The reference encoder\<close>

text \<open>
  The alphabet A-Z, a-z, 0-9, + and /, three bytes to four characters, the last group filled up
  with \<open>=\<close>.
\<close>

definition b64_alphabet :: "8 word list" where
  "b64_alphabet = map (\<lambda>c. of_nat (of_char c))
     ''ABCDEFGHIJKLMNOPQRSTUVWXYZabcdefghijklmnopqrstuvwxyz0123456789+/''"

definition sextet :: "8 word \<Rightarrow> 8 word" where
  "sextet x = b64_alphabet ! unat x"

text \<open>The four six-bit pieces of three bytes.\<close>

definition six0 :: "8 word \<Rightarrow> 8 word" where
  "six0 x = drop_bit 2 x"

definition six1 :: "8 word \<Rightarrow> 8 word \<Rightarrow> 8 word" where
  "six1 x y = push_bit 4 (x AND 3) OR drop_bit 4 y"

definition six2 :: "8 word \<Rightarrow> 8 word \<Rightarrow> 8 word" where
  "six2 y z = push_bit 2 (y AND 15) OR drop_bit 6 z"

definition six3 :: "8 word \<Rightarrow> 8 word" where
  "six3 z = z AND 63"

fun b64_encode :: "8 word list \<Rightarrow> 8 word list" where
  "b64_encode [] = []"
| "b64_encode [x] = [sextet (six0 x), sextet (six1 x 0), 61, 61]"
| "b64_encode [x, y] = [sextet (six0 x), sextet (six1 x y), sextet (six2 y 0), 61]"
| "b64_encode (x # y # z # r) =
     [sextet (six0 x), sextet (six1 x y), sextet (six2 y z), sextet (six3 z)] @ b64_encode r"

text \<open>The number of bytes a whole number of groups decodes to.\<close>

definition padded :: "nat \<Rightarrow> nat" where
  "padded n = 3 * ((n + 2) div 3)"

text \<open>The bytes that decoding the encoding of a list writes.\<close>

fun fill3 :: "8 word list \<Rightarrow> 8 word list" where
  "fill3 [] = []"
| "fill3 [x] = [x, 0, 0]"
| "fill3 [x, y] = [x, y, 0]"
| "fill3 (x # y # z # r) = x # y # z # fill3 r"

section \<open>Table and alphabet\<close>

lemma lut_length [simp]: "length base64_lut = 256"
  by (simp add: base64_lut_def)

lemma lut_alphabet_all:
  "list_all (\<lambda>k. base64_lut ! unat (b64_alphabet ! k) = of_nat k) [0..<64]"
  by code_simp

lemma alphabet_not_newline_all: "\<forall>b \<in> set b64_alphabet. b \<noteq> 13 \<and> b \<noteq> 10"
  by (simp add: b64_alphabet_def)

lemma alphabet_length: "length b64_alphabet = 64"
  by (simp add: b64_alphabet_def)

lemma lut_sextet: "unat x < 64 \<Longrightarrow> base64_lut ! unat (sextet x) = x"
  using lut_alphabet_all by (simp add: list_all_iff sextet_def)

lemma sextet_not_newline: "unat x < 64 \<Longrightarrow> sextet x \<noteq> 13 \<and> sextet x \<noteq> 10"
  using alphabet_not_newline_all by (simp add: sextet_def alphabet_length)

lemma lut_pad: "base64_lut ! 61 = 0"
  by (simp add: base64_lut_def)

text \<open>The pieces of the encoder are sextets.\<close>

lemma sextet_bound: "(\<And>n. bit x n \<Longrightarrow> n < 6) \<Longrightarrow> unat (x :: 8 word) < 64"
proof -
  assume b: "\<And>n. bit x n \<Longrightarrow> n < 6"
  have "x = take_bit 6 x"
    by (rule bit_eqI) (auto simp: bit_take_bit_iff dest: b)
  then have "unat x = take_bit 6 (unat x)"
    by (metis unsigned_take_bit_eq)
  then show ?thesis
    using take_bit_nat_less_exp [of 6 "unat x"] by simp
qed

lemma masks:
  "(3 :: 8 word) = mask 2" "(15 :: 8 word) = mask 4" "(63 :: 8 word) = mask 6"
  "(0xFF :: 32 word) = mask 8"
  by (simp_all add: mask_eq_exp_minus_1)

lemma six_bounds [simp]:
  "unat (six0 x) < 64" "unat (six1 x y) < 64" "unat (six2 y z) < 64" "unat (six3 z) < 64"
proof -
  show "unat (six0 x) < 64"
    by (rule sextet_bound) (auto simp: six0_def bit_simps dest: bit_imp_le_length)
  show "unat (six1 x y) < 64"
    by (rule sextet_bound) (auto simp: six1_def masks bit_simps dest: bit_imp_le_length)
  show "unat (six2 y z) < 64"
    by (rule sextet_bound) (auto simp: six2_def masks bit_simps dest: bit_imp_le_length)
  show "unat (six3 z) < 64"
    by (rule sextet_bound) (auto simp: six3_def masks bit_simps)
qed

lemma six_zero [simp]: "six2 0 0 = 0" "six3 0 = 0"
  by (simp_all add: six2_def six3_def)

text \<open>The three bytes taken out of the 24 bits of a group are the bytes put in.\<close>

definition group_of :: "8 word \<Rightarrow> 8 word \<Rightarrow> 8 word \<Rightarrow> 32 word" where
  "group_of x y z =
     group_bits (ucast (six0 x)) (ucast (six1 x y)) (ucast (six2 y z)) (ucast (six3 z))"

lemma bit_byte_beyond: "8 \<le> n \<Longrightarrow> \<not> bit (x :: 8 word) n"
  using bit_imp_le_length [of x n] by auto

lemma byte_eqI:
  assumes "bit x 0 = bit y 0" "bit x 1 = bit y 1" "bit x 2 = bit y 2" "bit x 3 = bit y 3"
    "bit x 4 = bit y 4" "bit x 5 = bit y 5" "bit x 6 = bit y 6" "bit x 7 = bit y 7"
  shows "x = (y :: 8 word)"
proof (rule bit_word_eqI)
  fix n :: nat
  assume "n < LENGTH(8)"
  then have "n = 0 \<or> n = 1 \<or> n = 2 \<or> n = 3 \<or> n = 4 \<or> n = 5 \<or> n = 6 \<or> n = 7"
    by (simp, arith)
  with assms show "bit x n = bit y n"
    by blast
qed

lemmas group_unfold =
  group_of_def group_bits_def six0_def six1_def six2_def six3_def masks bit_simps bit_byte_beyond

lemma group_bytes:
  "ucast (drop_bit 16 (group_of x y z)) = x"
  "ucast (drop_bit 8 (group_of x y z) AND 0xFF) = y"
  "ucast (group_of x y z AND 0xFF) = z"
proof -
  show "ucast (drop_bit 16 (group_of x y z)) = x"
    by (rule byte_eqI) (simp_all add: group_unfold)
  show "ucast (drop_bit 8 (group_of x y z) AND 0xFF) = y"
    by (rule byte_eqI) (simp_all add: group_unfold)
  show "ucast (group_of x y z AND 0xFF) = z"
    by (rule byte_eqI) (simp_all add: group_unfold)
qed

section \<open>The loop on encoded text\<close>

text \<open>One turn of the loop on a group of four characters.\<close>

lemma b64_loop_group:
  assumes "i + 3 < length p" and "p ! i \<noteq> 13" and "p ! i \<noteq> 10"
    and "base64_lut ! unat (p ! i) = six0 x"
    and "base64_lut ! unat (p ! (i + 1)) = six1 x y"
    and "base64_lut ! unat (p ! (i + 2)) = six2 y z"
    and "base64_lut ! unat (p ! (i + 3)) = six3 z"
  shows "b64_loop p buf i j =
      (if j + 2 < length buf
       then b64_loop p (buf[j := x, j + 1 := y, j + 2 := z]) (i + 4) (j + 3) else Undef)"
proof -
  have luts: "lut_at p i = Ret (ucast (six0 x))" "lut_at p (i + 1) = Ret (ucast (six1 x y))"
    "lut_at p (i + 2) = Ret (ucast (six2 y z))" "lut_at p (i + 3) = Ret (ucast (six3 z))"
    using assms by (simp_all add: lut_at_def cstr_nth_def)
  show ?thesis
    using assms(1-3)
    by (simp only: b64_loop.simps [of p buf i j] luts obind.simps Let_def if_False if_True
          group_of_def [symmetric] group_bytes)
      (auto simp: mem_put_def)
qed

lemma b64_loop_newline:
  "i < length p \<Longrightarrow> p ! i = 13 \<or> p ! i = 10 \<Longrightarrow> b64_loop p buf i j = b64_loop p buf (i + 1) j"
  by (subst b64_loop.simps) auto

lemma b64_loop_end: "length p \<le> i \<Longrightarrow> b64_loop p buf i j = Ret buf"
  by (subst b64_loop.simps) simp

text \<open>The effect of writing whole groups at a position of the buffer.\<close>

definition splice :: "8 word list \<Rightarrow> nat \<Rightarrow> 8 word list \<Rightarrow> 8 word list" where
  "splice buf j ws = take j buf @ ws @ drop (j + length ws) buf"

lemma splice_length: "j + length ws \<le> length buf \<Longrightarrow> length (splice buf j ws) = length buf"
  by (simp add: splice_def)

lemma splice_splice:
  "j + length us + length ws \<le> length buf \<Longrightarrow>
    splice (splice buf j us) (j + length us) ws = splice buf j (us @ ws)"
  by (simp add: splice_def add.assoc [symmetric]) (simp add: add.commute add.left_commute)

lemma length3_cases: "3 \<le> length xs \<Longrightarrow> \<exists>a b c r. xs = a # b # c # r"
  by (cases xs; cases "tl xs"; cases "tl (tl xs)") auto

lemma splice3:
  assumes "j + 2 < length buf"
  shows "buf[j := x, j + 1 := y, j + 2 := z] = splice buf j [x, y, z]"
proof -
  from assms have "3 \<le> length (drop j buf)" by simp
  then obtain a b c r where d: "drop j buf = a # b # c # r"
    using length3_cases by blast
  have r: "drop (j + 3) buf = r"
    using d by (metis add.commute drop_drop drop_Suc_Cons drop0 numeral_3_eq_3)
  have t: "length (take j buf) = j" using assms by simp
  have "buf = take j buf @ a # b # c # r"
    using d append_take_drop_id [of j buf] by simp
  then have "buf[j := x, j + 1 := y, j + 2 := z] =
      (take j buf @ a # b # c # r)[j := x, j + 1 := y, j + 2 := z]"
    by simp
  also have "\<dots> = take j buf @ [x, y, z] @ r"
    using t by (simp add: list_update_append)
  finally show ?thesis
    by (simp only: splice_def list.size add_Suc_right add_0_right One_nat_def r [symmetric] numeral_3_eq_3)
qed

text \<open>A group of the encoder in the middle of the text.\<close>

lemma b64_loop_quad:
  assumes "q = [sextet (six0 x), c1, c2, c3]"
    and "base64_lut ! unat c1 = six1 x y" and "base64_lut ! unat c2 = six2 y z"
    and "base64_lut ! unat c3 = six3 z"
  shows "b64_loop (pre @ q @ post) buf (length pre) j =
      (if j + 2 < length buf
       then b64_loop (pre @ q @ post) (splice buf j [x, y, z])
              (length (pre @ q)) (j + 3)
       else Undef)"
proof -
  have "length (pre @ q) = length pre + 4" using assms(1) by simp
  moreover have "b64_loop (pre @ q @ post) buf (length pre) j =
      (if j + 2 < length buf
       then b64_loop (pre @ q @ post) (buf[j := x, j + 1 := y, j + 2 := z]) (length pre + 4) (j + 3)
       else Undef)"
    by (rule b64_loop_group)
      (use assms in \<open>simp_all add: nth_append sextet_not_newline lut_sextet\<close>)
  ultimately show ?thesis
    by (cases "j + 2 < length buf") (simp_all only: splice3 if_True if_False)
qed

lemma padded_Suc3: "padded (Suc (Suc (Suc n))) = 3 + padded n"
proof -
  have "(Suc (Suc (Suc n)) + 2) div 3 = Suc ((n + 2) div 3)" by arith
  then show ?thesis by (simp only: padded_def mult_Suc_right)
qed

lemma fill3_length: "length (fill3 bs) = padded (length bs)"
  by (induction bs rule: fill3.induct) (simp_all add: padded_Suc3, simp_all add: padded_def)

lemma take_fill3: "take (length bs) (fill3 bs) = bs"
  by (induction bs rule: fill3.induct) simp_all

lemma fill3_exact: "length bs mod 3 = 0 \<Longrightarrow> fill3 bs = bs"
proof (induction bs rule: fill3.induct)
  case (4 x y z r)
  have "length (x # y # z # r) = length r + 3" by simp
  with "4.prems" have "length r mod 3 = 0" by (simp only: mod_add_self2)
  with "4.IH" show ?case by simp
qed simp_all

lemma padded_exact: "n mod 3 = 0 \<Longrightarrow> padded n = n"
  unfolding padded_def by arith

lemma b64_loop_encode:
  "j \<le> length buf \<Longrightarrow>
   b64_loop (pre @ b64_encode bs @ post) buf (length pre) j =
     (if j + padded (length bs) \<le> length buf
      then b64_loop (pre @ b64_encode bs @ post) (splice buf j (fill3 bs))
             (length (pre @ b64_encode bs)) (j + padded (length bs))
      else Undef)"
proof (induction bs arbitrary: pre buf j rule: b64_encode.induct)
  case 1
  then show ?case by (simp add: padded_def splice_def)
next
  case (2 x)
  have "b64_loop (pre @ b64_encode [x] @ post) buf (length pre) j =
      (if j + 2 < length buf
       then b64_loop (pre @ b64_encode [x] @ post) (splice buf j [x, 0, 0])
              (length (pre @ b64_encode [x])) (j + 3)
       else Undef)"
    by (rule b64_loop_quad [OF b64_encode.simps(2)]) (simp_all add: lut_sextet lut_pad)
  then show ?case by (auto simp del: b64_encode.simps simp: padded_def)
next
  case (3 x y)
  have "b64_loop (pre @ b64_encode [x, y] @ post) buf (length pre) j =
      (if j + 2 < length buf
       then b64_loop (pre @ b64_encode [x, y] @ post) (splice buf j [x, y, 0])
              (length (pre @ b64_encode [x, y])) (j + 3)
       else Undef)"
    by (rule b64_loop_quad [OF b64_encode.simps(3)]) (simp_all add: lut_sextet lut_pad)
  then show ?case by (auto simp del: b64_encode.simps simp: padded_def)
next
  case (4 x y z r)
  define q where "q = [sextet (six0 x), sextet (six1 x y), sextet (six2 y z), sextet (six3 z)]"
  have p: "pre @ b64_encode (x # y # z # r) @ post = pre @ q @ (b64_encode r @ post)"
    "pre @ b64_encode (x # y # z # r) = (pre @ q) @ b64_encode r"
    by (simp_all add: q_def)
  have group: "b64_loop (pre @ q @ (b64_encode r @ post)) buf (length pre) j =
      (if j + 2 < length buf
       then b64_loop (pre @ q @ (b64_encode r @ post)) (splice buf j [x, y, z])
              (length (pre @ q)) (j + 3)
       else Undef)"
    by (rule b64_loop_quad [OF q_def]) (simp_all add: lut_sextet)
  show ?case
  proof (cases "j + 2 < length buf")
    case True
    let ?buf = "splice buf j [x, y, z]"
    have "length ?buf = length buf"
      using True by (simp add: splice_length)
    then have "b64_loop ((pre @ q) @ b64_encode r @ post) ?buf (length (pre @ q)) (j + 3) =
      (if j + 3 + padded (length r) \<le> length buf
       then b64_loop ((pre @ q) @ b64_encode r @ post) (splice ?buf (j + 3) (fill3 r))
              (length ((pre @ q) @ b64_encode r)) (j + 3 + padded (length r))
       else Undef)"
      using "4.IH" [of "j + 3" ?buf "pre @ q"] True by simp
    moreover have "splice ?buf (j + 3) (fill3 r) = splice buf j (fill3 (x # y # z # r))"
      if "j + 3 + padded (length r) \<le> length buf"
      using splice_splice [of j "[x, y, z]" "fill3 r" buf] that
      by (simp add: fill3_length numeral_3_eq_3)
    ultimately show ?thesis
      using True group
      by (simp add: p padded_Suc3 add.assoc del: b64_encode.simps)
  next
    case False
    then have "\<not> j + padded (length (x # y # z # r)) \<le> length buf"
      by (simp add: padded_Suc3)
    with False show ?thesis using group by (simp only: p if_False)
  qed
qed

section \<open>Correctness\<close>

text \<open>
  Decoding an encoding writes the bytes, filled up with zeros to whole groups, at the front of
  the buffer when the buffer has room for them, and is undefined otherwise.
\<close>

lemma base64_decode_encode:
  "base64_decode (b64_encode bs) buf n =
     (if padded (length bs) \<le> length buf
      then Ret (fill3 bs @ drop (padded (length bs)) buf) else Undef)"
  using b64_loop_encode [of 0 buf "[]" bs "[]"]
  by (simp add: base64_decode_def b64_loop_end splice_def fill3_length)

text \<open>Text broken into lines by carriage return and line feed, each line of whole groups.\<close>

fun b64_encode_lines :: "8 word list list \<Rightarrow> 8 word list" where
  "b64_encode_lines [] = []"
| "b64_encode_lines (l # ls) = b64_encode l @ [13, 10] @ b64_encode_lines ls"

lemma b64_loop_crlf:
  "p = pre @ [13, 10] @ post \<Longrightarrow>
    b64_loop p buf (length pre) j = b64_loop p buf (length (pre @ [13, 10])) j"
  using b64_loop_newline [of "length pre" p buf j] b64_loop_newline [of "length pre + 1" p buf j]
  by (simp add: nth_append)

lemma b64_loop_lines:
  "\<lbrakk>\<forall>l \<in> set ls. length l mod 3 = 0; j + length (concat ls) \<le> length buf\<rbrakk> \<Longrightarrow>
    b64_loop (pre @ b64_encode_lines ls) buf (length pre) j =
      Ret (splice buf j (concat ls))"
proof (induction ls arbitrary: pre buf j)
  case Nil
  then show ?case by (simp add: b64_loop_end splice_def)
next
  case (Cons l ls)
  let ?p = "pre @ b64_encode_lines (l # ls)" and ?rest = "[13, 10] @ b64_encode_lines ls"
  have l3: "padded (length l) = length l" "fill3 l = l"
    using Cons.prems by (simp_all add: fill3_exact padded_exact)
  have room: "j + length l \<le> length buf" using Cons.prems by simp
  have "b64_loop ?p buf (length pre) j =
      b64_loop ?p (splice buf j l) (length (pre @ b64_encode l)) (j + length l)"
    using b64_loop_encode [of j buf pre l ?rest] room l3 by simp
  also have "\<dots> = b64_loop ?p (splice buf j l) (length (pre @ b64_encode l @ [13, 10])) (j + length l)"
    using b64_loop_crlf [of ?p "pre @ b64_encode l" "b64_encode_lines ls"] by simp
  also have "\<dots> = Ret (splice (splice buf j l) (j + length l) (concat ls))"
    using Cons.IH [of "j + length l" "splice buf j l" "pre @ b64_encode l @ [13, 10]"] Cons.prems room
    by (simp add: splice_length add.assoc)
  finally show ?case
    using splice_splice [of j l "concat ls" buf] Cons.prems by (simp add: add.assoc)
qed

section \<open>Properties\<close>

text \<open>C17: decoding an encoded byte list into a buffer gives the bytes back, keeps the size of the buffer
  and everything behind the last whole group of three bytes; without room for whole groups the decoder writes
  outside the buffer.\<close>

theorem base64_roundtrip:
  "if padded (length bs) \<le> length buf
   then \<exists>out. base64_decode (b64_encode bs) buf n = Ret out \<and> take (length bs) out = bs \<and>
          drop (padded (length bs)) out = drop (padded (length bs)) buf \<and> length out = length buf
   else base64_decode (b64_encode bs) buf n = Undef"
proof (cases "padded (length bs) \<le> length buf")
  case True
  have "length bs \<le> padded (length bs)" by (simp add: padded_def)
  then have "take (length bs) (fill3 bs @ drop (padded (length bs)) buf) = bs"
    by (simp add: take_fill3 fill3_length)
  with True show ?thesis by (simp add: base64_decode_encode fill3_length)
qed (simp add: base64_decode_encode)

text \<open>Text broken into lines of whole groups by carriage returns and line feeds decodes to the
  concatenation of the lines' bytes, written at the front of the buffer and nowhere else.\<close>

lemma base64_decode_lines:
  assumes "\<forall>l \<in> set ls. length l mod 3 = 0" and "length (concat ls) \<le> length buf"
  shows "base64_decode (b64_encode_lines ls) buf n =
    Ret (concat ls @ drop (length (concat ls)) buf)"
  using b64_loop_lines [of ls 0 buf "[]"] assms by (simp add: base64_decode_def splice_def)

lemma base64_decode_lines_witness:
  "base64_decode (b64_encode_lines [[1, 2, 3], [4, 5, 6]]) [9, 9, 9, 9, 9, 9, 9] 6 = Ret [1, 2, 3, 4, 5, 6, 9]"
  using base64_decode_lines [of "[[1, 2, 3], [4, 5, 6]]" "[9, 9, 9, 9, 9, 9, 9]" 6] by simp

end
