(* ===== verification/HttpCommon.thy ===== *)
theory HttpCommon
  imports Prelude
begin

text \<open>
  The URL parser and the HTTP reading and writing routines of \<open>HTTPCommon.cpp\<close>.

  The operating system's sockets are a parameter: the record \<open>net\<close> of the calls the code makes,
  over a type of worlds of their own.  A loop that reads until a condition is met is a program that
  may not return.  The locale \<open>stream_socket\<close> states what a stream socket promises (bytes arrive
  in order, in pieces of any size, and then the peer closes); inside it every reading routine is
  shown to return, with the bytes a specification on the whole byte sequence gives.
\<close>

section \<open>The socket calls\<close>

text \<open>
  \<open>recv\<close> with a negative result, zero, and a positive one with the bytes received.
  \<open>select\<close> with a positive result, zero (the time is over), and a negative one.
\<close>

datatype recv_result = RecvError | RecvClosed | RecvData string

datatype select_result = SelReady | SelTimeout | SelError

datatype connect_result = ConnOk | ConnInProgress | ConnFailed

record 'w net =
  n_recv :: "nat \<Rightarrow> nat \<Rightarrow> ('w, recv_result) prog"
  n_send :: "nat \<Rightarrow> string \<Rightarrow> ('w, int) prog"
  n_create :: "('w, nat option) prog"
  n_destroy :: "nat \<Rightarrow> ('w, unit) prog"
  n_connect :: "nat \<Rightarrow> string \<Rightarrow> int \<Rightarrow> ('w, connect_result) prog"
  n_select_write :: "nat \<Rightarrow> int \<Rightarrow> ('w, select_result) prog"
  n_select_read :: "nat \<Rightarrow> int \<Rightarrow> ('w, select_result) prog"
  n_set_nonblock :: "nat \<Rightarrow> bool \<Rightarrow> ('w, bool) prog"
  n_local_host :: "nat \<Rightarrow> ('w, string) prog"
  n_resolve :: "string \<Rightarrow> string option"

text \<open>A program on the world, run where an object stands beside the world.\<close>

definition netp :: "('w, 'a) prog \<Rightarrow> ('x \<times> 'w, 'a) prog" where
  "netp m = zoom snd (\<lambda>w s. (fst s, w)) m"

lemma netp_run: "m w = Some (r, w') \<Longrightarrow> netp m (c, w) = Some (r, (c, w'))"
  by (simp add: netp_def zoom_def)

lemma netp_runs:
  "m w = Some (Ret a, w') \<Longrightarrow> bnd (netp m) f (c, w) = f a (c, w')"
  "m w = Some (Ret a, w') \<Longrightarrow> sq (netp m) n (c, w) = n (c, w')"
  by (simp_all add: netp_run prog_runs)

lemma keeps_netp: "(\<And>x. keeps (\<lambda>w. P (x, w)) m) \<Longrightarrow> keeps P (netp m)"
  by (fastforce simp: keeps_def netp_def zoom_def bind_eq_Some_conv)

lemma keeps_netp_fst [keeps_intros]: "keeps (\<lambda>s. P (fst s)) (netp m)"
  by (auto simp: keeps_def netp_def zoom_def bind_eq_Some_conv)

definition on_world :: "'w net \<Rightarrow> ('x \<times> 'w) net" where
  "on_world N = \<lparr>
     n_recv = (\<lambda>d n. netp (n_recv N d n)),
     n_send = (\<lambda>d b. netp (n_send N d b)),
     n_create = netp (n_create N),
     n_destroy = (\<lambda>d. netp (n_destroy N d)),
     n_connect = (\<lambda>d h p. netp (n_connect N d h p)),
     n_select_write = (\<lambda>d t. netp (n_select_write N d t)),
     n_select_read = (\<lambda>d t. netp (n_select_read N d t)),
     n_set_nonblock = (\<lambda>d b. netp (n_set_nonblock N d b)),
     n_local_host = (\<lambda>d. netp (n_local_host N d)),
     n_resolve = n_resolve N\<rparr>"

lemma on_world_simps [simp]:
  "n_recv (on_world N) d n = netp (n_recv N d n)" "n_send (on_world N) d b = netp (n_send N d b)"
  "n_create (on_world N) = netp (n_create N)" "n_destroy (on_world N) d = netp (n_destroy N d)"
  "n_connect (on_world N) d h p = netp (n_connect N d h p)"
  "n_select_write (on_world N) d t = netp (n_select_write N d t)"
  "n_select_read (on_world N) d t = netp (n_select_read N d t)"
  "n_set_nonblock (on_world N) d nb = netp (n_set_nonblock N d nb)"
  "n_local_host (on_world N) d = netp (n_local_host N d)" "n_resolve (on_world N) = n_resolve N"
  by (simp_all add: on_world_def)

section \<open>Text helpers of the standard library\<close>

definition is_space :: "char \<Rightarrow> bool" where
  "is_space c \<longleftrightarrow> (let k = (of_char c :: nat) in k = 32 \<or> 9 \<le> k \<and> k \<le> 13)"

text \<open>\<open>std::stoi\<close>: white space, a sign, and the longest run of digits.\<close>

definition split_sign :: "string \<Rightarrow> bool \<times> string" where
  "split_sign s = (case s of
       [] \<Rightarrow> (False, [])
     | c # cs \<Rightarrow> if c = CHR ''-'' then (True, cs) else if c = CHR ''+'' then (False, cs)
                else (False, s))"

definition stoi :: "string \<Rightarrow> int outcome" where
  "stoi s =
     (let (neg, t) = split_sign (dropWhile is_space s);
          ds = takeWhile is_digit t;
          v = (if neg then - int (digits_value 0 ds) else int (digits_value 0 ds))
      in if ds = [] then Throw Invalid_argument
         else if in_i32 v then Ret v else Throw Out_of_range)"

text \<open>\<open>std::strtoul\<close> with base 16, 64 bits wide.\<close>

definition hex_value :: "char \<Rightarrow> nat option" where
  "hex_value c =
     (let k = of_char c in
      if 48 \<le> k \<and> k \<le> 57 then Some (k - 48)
      else if 97 \<le> k \<and> k \<le> 102 then Some (k - 87)
      else if 65 \<le> k \<and> k \<le> 70 then Some (k - 55)
      else None)"

definition is_hex :: "char \<Rightarrow> bool" where
  "is_hex c \<longleftrightarrow> hex_value c \<noteq> None"

fun hex_digits_value :: "nat \<Rightarrow> string \<Rightarrow> nat" where
  "hex_digits_value acc [] = acc"
| "hex_digits_value acc (c # cs) =
     (case hex_value c of Some d \<Rightarrow> hex_digits_value (16 * acc + d) cs | None \<Rightarrow> acc)"

definition skip_0x :: "string \<Rightarrow> string" where
  "skip_0x s = (case s of
       a # b # c # r \<Rightarrow>
         if a = CHR ''0'' \<and> (b = CHR ''x'' \<or> b = CHR ''X'') \<and> is_hex c then c # r else s
     | _ \<Rightarrow> s)"

definition strtoul16 :: "string \<Rightarrow> nat" where
  "strtoul16 s =
     (let (neg, t) = split_sign (dropWhile is_space s);
          v = hex_digits_value 0 (takeWhile is_hex (skip_0x t))
      in if 2 ^ 64 \<le> v then 2 ^ 64 - 1
         else if neg then (2 ^ 64 - v) mod 2 ^ 64 else v)"

section \<open>URLs\<close>

record url =
  scheme :: string
  host :: string
  port :: int
  path :: string

text \<open>The parser of \<open><scheme>://<host>[:<port>][/path]\<close>.\<close>

definition default_url :: url where
  "default_url = \<lparr>scheme = ''http://'', host = ''127.0.0.1'', port = 80, path = ''/''\<rparr>"

text \<open>Extract the scheme; the position behind it.\<close>

definition url_scheme :: "string \<Rightarrow> string \<times> nat" where
  "url_scheme u = (case str_find ''://'' u of
       Some pos \<Rightarrow> (take (pos + 3) u, pos + 3)
     | None \<Rightarrow> (scheme default_url, 0))"

definition url_address_path :: "string \<Rightarrow> nat \<Rightarrow> string \<times> string" where
  "url_address_path u address_begin =
     (case str_find_char_from CHR ''/'' u address_begin of
        None \<Rightarrow> (drop address_begin u, path default_url)
      | Some pos \<Rightarrow> (take (pos - address_begin) (drop address_begin u), drop pos u))"

definition url_host_port :: "string \<Rightarrow> (string \<times> int) outcome" where
  "url_host_port address =
     (case str_find_char_from CHR '':'' address 0 of
        None \<Rightarrow> Ret (address, port default_url)
      | Some pos \<Rightarrow> obind (stoi (drop (pos + 1) address)) (\<lambda>p. Ret (take pos address, p)))"

definition URL :: "string \<Rightarrow> url outcome" where
  "URL u =
     (let (sch, address_begin) = url_scheme u;
          (address, pth) = url_address_path u address_begin
      in obind (url_host_port address) (\<lambda>(h, p).
         Ret \<lparr>scheme = sch, host = h, port = p, path = pth\<rparr>))"

section \<open>Header lines\<close>

type_synonym headers = "(string \<times> string) list"

definition getHeaderValue :: "headers \<Rightarrow> string \<Rightarrow> string \<Rightarrow> string" where
  "getHeaderValue headers header defaultValue =
     (case map_of headers header of None \<Rightarrow> defaultValue | Some v \<Rightarrow> v)"

text \<open>The characters stripped off a value: blank, tab, carriage return and line feed.\<close>

definition is_trim :: "char \<Rightarrow> bool" where
  "is_trim c \<longleftrightarrow> (let k = (of_char c :: nat) in k = 32 \<or> k = 9 \<or> k = 13 \<or> k = 10)"

definition find_first_not_trim :: "string \<Rightarrow> nat \<Rightarrow> nat option" where
  "find_first_not_trim s pos = map_option (\<lambda>i. pos + i) (find_index (\<lambda>c. \<not> is_trim c) (drop pos s))"

definition find_last_not_trim :: "string \<Rightarrow> nat option" where
  "find_last_not_trim s =
     map_option (\<lambda>i. length s - 1 - i) (find_index (\<lambda>c. \<not> is_trim c) (rev s))"

text \<open>
  \<open>substr\<close> at \<open>npos\<close> throws.  The second position is never \<open>npos\<close>, since the colon is not
  stripped; it is zero here.
\<close>

definition parseHeaderLine :: "string \<Rightarrow> headers \<Rightarrow> (bool \<times> headers) outcome" where
  "parseHeaderLine header headers =
     (case str_find_char_from CHR '':'' header 0 of
        None \<Rightarrow> Ret (False, headers)
      | Some n \<Rightarrow>
          (let key = take n header;
               d2 = (case find_last_not_trim header of Some i \<Rightarrow> i | None \<Rightarrow> 0)
           in case find_first_not_trim header (n + 1) of
                None \<Rightarrow> Throw Out_of_range
              | Some d1 \<Rightarrow>
                  obind (str_substr header d1 (d2 + 1 - d1)) (\<lambda>value.
                  Ret (True, smap_put key value headers))))"

section \<open>Reading from a socket\<close>

text \<open>One byte at a time up to a line feed; the line is kept when the read fails.\<close>

partial_function (option) readLine_loop ::
    "'w net \<Rightarrow> nat \<Rightarrow> string \<Rightarrow> 'w \<Rightarrow> ((bool \<times> string) outcome \<times> 'w) option" where
  "readLine_loop N s line w =
     bnd (n_recv N s 1) (\<lambda>r. case r of
         RecvError \<Rightarrow> retp (False, line)
       | RecvClosed \<Rightarrow> retp (line \<noteq> [], line)
       | RecvData b \<Rightarrow>
           if last b = CHR 0x0A then retp (True, line @ b) else readLine_loop N s (line @ b)) w"

definition readLine :: "'w net \<Rightarrow> nat \<Rightarrow> ('w, bool \<times> string) prog" where
  "readLine N s = readLine_loop N s []"

text \<open>Until the peer closes the connection.\<close>

partial_function (option) readIndefiniteContent ::
    "'w net \<Rightarrow> nat \<Rightarrow> string \<Rightarrow> 'w \<Rightarrow> ((bool \<times> string) outcome \<times> 'w) option" where
  "readIndefiniteContent N s content w =
     bnd (n_recv N s 4096) (\<lambda>r. case r of
         RecvError \<Rightarrow> retp (False, content)
       | RecvClosed \<Rightarrow> retp (True, content)
       | RecvData b \<Rightarrow> readIndefiniteContent N s (content @ b)) w"

text \<open>
  A given number of bytes.  The count passed to \<open>recv\<close> is cast to \<open>int\<close> and converted to
  \<open>size_t\<close>; more bytes than are left would be written behind the buffer.
\<close>

definition recv_count :: "nat \<Rightarrow> nat" where
  "recv_count n = nat (((int n + 2 ^ 31) mod 2 ^ 32 - 2 ^ 31) mod 2 ^ 64)"

partial_function (option) readFixed_loop ::
    "'w net \<Rightarrow> nat \<Rightarrow> string \<Rightarrow> nat \<Rightarrow> 'w \<Rightarrow> ((string option) outcome \<times> 'w) option" where
  "readFixed_loop N s buf bufSize w =
     (if bufSize = 0 then retp (Some buf)
      else bnd (n_recv N s (recv_count bufSize)) (\<lambda>r. case r of
         RecvError \<Rightarrow> retp None
       | RecvClosed \<Rightarrow> retp None
       | RecvData b \<Rightarrow>
           if length b \<le> bufSize then readFixed_loop N s (buf @ b) (bufSize - length b)
           else undefp)) w"

definition readFixedContent :: "'w net \<Rightarrow> nat \<Rightarrow> string \<Rightarrow> nat \<Rightarrow> ('w, bool \<times> string) prog" where
  "readFixedContent N s content len =
     (if 2 ^ 63 \<le> len then throwp Length_error
      else bnd (readFixed_loop N s [] len) (\<lambda>r. case r of
         None \<Rightarrow> retp (False, content)
       | Some buf \<Rightarrow> retp (True, content @ buf)))"

text \<open>Chunked transfer: a size in hexadecimal, the chunk, an empty line; a zero size ends it.\<close>

definition CRLF :: string where
  "CRLF = [CHR 0x0D, CHR 0x0A]"

partial_function (option) readChunkedContent ::
    "'w net \<Rightarrow> nat \<Rightarrow> string \<Rightarrow> 'w \<Rightarrow> ((bool \<times> string) outcome \<times> 'w) option" where
  "readChunkedContent N s content w =
     bnd (readLine N s) (\<lambda>(ok, lengthLine).
     if \<not> ok then retp (False, content)
     else let len = strtoul16 lengthLine in
       bnd (if len \<noteq> 0 then readFixedContent N s [] len else retp (True, [])) (\<lambda>(ok, chunk).
       if \<not> ok then retp (False, content)
       else bnd (readLine N s) (\<lambda>(ok, line).
         if \<not> ok \<or> line \<noteq> CRLF then retp (False, content @ chunk)
         else if len = 0 then retp (True, content @ chunk)
         else readChunkedContent N s (content @ chunk)))) w"

section \<open>Writing to a socket\<close>

partial_function (option) sock_write ::
    "'w net \<Rightarrow> nat \<Rightarrow> string \<Rightarrow> 'w \<Rightarrow> (bool outcome \<times> 'w) option" where
  "sock_write N s remaining w =
     (if remaining = [] then retp True
      else bnd (n_send N s remaining) (\<lambda>written.
        if written < 0 then retp False
        else if written \<le> int (length remaining) then sock_write N s (drop (nat written) remaining)
        else undefp)) w"

section \<open>What a stream socket promises\<close>

text \<open>The first line of a byte sequence, with its line feed if it has one.\<close>

definition line_of :: "string \<Rightarrow> string" where
  "line_of p = (if CHR 0x0A \<in> set p then takeWhile (\<lambda>c. c \<noteq> CHR 0x0A) p @ [CHR 0x0A] else p)"

definition after_line :: "string \<Rightarrow> string" where
  "after_line p = drop (length (line_of p)) p"

lemma line_of_Nil [simp]: "line_of [] = []"
  by (simp add: line_of_def)

lemma line_of_LF [simp]: "line_of (CHR 0x0A # p) = [CHR 0x0A]"
  by (simp add: line_of_def)

lemma line_of_Cons: "c \<noteq> CHR 0x0A \<Longrightarrow> line_of (c # p) = c # line_of p"
  by (simp add: line_of_def)

lemma line_of_append:
  "CHR 0x0A \<notin> set l \<Longrightarrow> line_of (l @ CHR 0x0A # p) = l @ [CHR 0x0A]"
  by (simp add: line_of_def takeWhile_append)

lemma after_line_append:
  "CHR 0x0A \<notin> set l \<Longrightarrow> after_line (l @ CHR 0x0A # p) = p"
  by (simp add: after_line_def line_of_append)

text \<open>Whatever \<open>recv\<close> keeps of the world, the readers keep.\<close>

lemma keeps_recv_result [keeps_intros]:
  "keeps P a \<Longrightarrow> keeps P b \<Longrightarrow> (\<And>d. keeps P (c d)) \<Longrightarrow>
    keeps P (case r of RecvError \<Rightarrow> a | RecvClosed \<Rightarrow> b | RecvData d \<Rightarrow> c d)"
  by (cases r) simp_all

lemma keeps_Some: "keeps P m \<Longrightarrow> m w = Some x \<Longrightarrow> P w \<Longrightarrow> P (snd x)"
  by (cases x) (auto dest: keepsD)

lemma readLine_loop_keeps:
  "readLine_loop N s line w = Some x \<Longrightarrow> \<forall>n. keeps P (n_recv N s n) \<Longrightarrow> P w \<Longrightarrow> P (snd x)"
proof (induction N s line w x rule: readLine_loop.raw_induct [rotated, consumes 1, case_names step])
  case (step f N s line w x)
  have rec: "keeps P (f N s l)" for l
    unfolding keeps_def using step(1) step(3) by (metis snd_conv)
  show ?case
    using step(2,4) by (rule keeps_Some [rotated]) (intro keeps_intros rec step(3) [rule_format])
qed

lemma keeps_readLine [keeps_intros]: "(\<And>n. keeps P (n_recv N s n)) \<Longrightarrow> keeps P (readLine N s)"
  unfolding readLine_def keeps_def using readLine_loop_keeps by (metis snd_conv keeps_def)

lemma sock_write_keeps:
  "sock_write N s d w = Some x \<Longrightarrow> \<forall>d. keeps P (n_send N s d) \<Longrightarrow> P w \<Longrightarrow> P (snd x)"
proof (induction N s d w x rule: sock_write.raw_induct [rotated, consumes 1, case_names step])
  case (step f N s d w x)
  have rec: "keeps P (f N s l)" for l
    unfolding keeps_def using step(1) step(3) by (metis snd_conv)
  show ?case
    using step(2,4) by (rule keeps_Some [rotated]) (intro keeps_intros rec step(3) [rule_format])
qed

lemma keeps_sock_write [keeps_intros]: "(\<And>d. keeps P (n_send N s d)) \<Longrightarrow> keeps P (sock_write N s d)"
  unfolding keeps_def using sock_write_keeps by (metis snd_conv keeps_def)

lemma readIndefinite_keeps:
  "readIndefiniteContent N s c w = Some x \<Longrightarrow> \<forall>n. keeps P (n_recv N s n) \<Longrightarrow> P w \<Longrightarrow> P (snd x)"
proof (induction N s c w x rule: readIndefiniteContent.raw_induct [rotated, consumes 1, case_names step])
  case (step f N s c w x)
  have rec: "keeps P (f N s l)" for l
    unfolding keeps_def using step(1) step(3) by (metis snd_conv)
  show ?case
    using step(2,4) by (rule keeps_Some [rotated]) (intro keeps_intros rec step(3) [rule_format])
qed

lemma keeps_readIndefinite [keeps_intros]:
  "(\<And>n. keeps P (n_recv N s n)) \<Longrightarrow> keeps P (readIndefiniteContent N s c)"
  unfolding keeps_def using readIndefinite_keeps by (metis snd_conv keeps_def)

lemma readFixed_loop_keeps:
  "readFixed_loop N s b n w = Some x \<Longrightarrow> \<forall>n. keeps P (n_recv N s n) \<Longrightarrow> P w \<Longrightarrow> P (snd x)"
proof (induction N s b n w x rule: readFixed_loop.raw_induct [rotated, consumes 1, case_names step])
  case (step f N s b n w x)
  have rec: "keeps P (f N s b' n')" for b' n'
    unfolding keeps_def using step(1) step(3) by (metis snd_conv)
  show ?case
    using step(2,4) by (rule keeps_Some [rotated]) (intro keeps_intros rec step(3) [rule_format])
qed

lemma keeps_readFixed [keeps_intros]:
  assumes "\<And>n. keeps P (n_recv N s n)"
  shows "keeps P (readFixedContent N s c n)"
proof -
  have "keeps P (readFixed_loop N s [] n)"
    unfolding keeps_def using readFixed_loop_keeps assms by (metis snd_conv)
  then show ?thesis
    unfolding readFixedContent_def by (intro keeps_intros keeps_option)
qed

lemma readChunked_keeps:
  "readChunkedContent N s c w = Some x \<Longrightarrow> \<forall>n. keeps P (n_recv N s n) \<Longrightarrow> P w \<Longrightarrow> P (snd x)"
proof (induction N s c w x rule: readChunkedContent.raw_induct [rotated, consumes 1, case_names step])
  case (step f N s c w x)
  have rec: "keeps P (f N s l)" for l
    unfolding keeps_def using step(1) step(3) by (metis snd_conv)
  show ?case
    using step(2,4) by (rule keeps_Some [rotated]) (intro keeps_intros keeps_prod keeps_let rec step(3) [rule_format])
qed

lemma keeps_readChunked [keeps_intros]:
  "(\<And>n. keeps P (n_recv N s n)) \<Longrightarrow> keeps P (readChunkedContent N s c)"
  unfolding keeps_def using readChunked_keeps by (metis snd_conv keeps_def)

section \<open>The encodings the readers decode\<close>

text \<open>The chunked transfer encoding of a list of chunks, as a server writes it.\<close>

definition hex_char :: "nat \<Rightarrow> char" where
  "hex_char d = (if d < 10 then digit_char d else char_of (87 + d))"

fun nat_to_hex :: "nat \<Rightarrow> string" where
  "nat_to_hex n =
     (if n < 16 then [hex_char n] else nat_to_hex (n div 16) @ [hex_char (n mod 16)])"

declare nat_to_hex.simps [simp del]

definition encode_chunk :: "string \<Rightarrow> string" where
  "encode_chunk c = nat_to_hex (length c) @ CRLF @ c @ CRLF"

definition encode_chunks :: "string list \<Rightarrow> string" where
  "encode_chunks cs = concat (map encode_chunk cs) @ encode_chunk []"

lemma hex_value_hex_char [simp]: "d < 16 \<Longrightarrow> hex_value (hex_char d) = Some d"
  by (auto simp: hex_value_def hex_char_def digit_char_def Let_def)

lemma hex_digits_value_append:
  "\<forall>c \<in> set cs. is_hex c \<Longrightarrow>
    hex_digits_value acc (cs @ ds) = hex_digits_value (hex_digits_value acc cs) ds"
  by (induction cs arbitrary: acc) (auto simp: is_hex_def split: option.splits)

lemma is_hex_hex_char [simp]: "d < 16 \<Longrightarrow> is_hex (hex_char d)"
  by (simp add: is_hex_def)

lemma nat_to_hex_digits: "\<forall>c \<in> set (nat_to_hex n). is_hex c"
proof (induction n rule: nat_to_hex.induct)
  case (1 n)
  then show ?case by (cases "n < 16") (auto simp: nat_to_hex.simps [of n])
qed

lemma hex_digits_value_nat_to_hex: "hex_digits_value 0 (nat_to_hex n) = n"
proof (induction n rule: nat_to_hex.induct)
  case (1 n)
  show ?case
  proof (cases "n < 16")
    case True
    then show ?thesis by (simp add: nat_to_hex.simps [of n])
  next
    case False
    then have "hex_digits_value 0 (nat_to_hex n) =
        hex_digits_value (hex_digits_value 0 (nat_to_hex (n div 16))) [hex_char (n mod 16)]"
      by (simp add: nat_to_hex.simps [of n] hex_digits_value_append nat_to_hex_digits)
    with False "1.IH" show ?thesis by simp
  qed
qed

lemma nat_to_hex_nonempty [simp]: "nat_to_hex n \<noteq> []"
  by (subst nat_to_hex.simps) simp

text \<open>Hexadecimal digits are none of the characters the number parser treats specially.\<close>

lemma not_is_hex:
  "\<not> is_hex CHR 0x0D" "\<not> is_hex CHR 0x0A" "\<not> is_hex CHR ''x''" "\<not> is_hex CHR ''X''"
  "\<not> is_hex CHR ''-''" "\<not> is_hex CHR ''+''"
  by (simp_all add: is_hex_def hex_value_def)

lemma is_hex_not_space: "is_hex c \<Longrightarrow> \<not> is_space c"
  by (auto simp: is_hex_def hex_value_def is_space_def Let_def split: if_splits)

lemma skip_0x_digits:
  assumes "\<forall>c \<in> set ds. is_hex c" "ds \<noteq> []" "\<not> is_hex x" "x \<noteq> CHR ''x''" "x \<noteq> CHR ''X''"
  shows "skip_0x (ds @ x # r) = ds @ x # r"
proof -
  obtain a ds' where ds: "ds = a # ds'" using assms(2) by (cases ds) auto
  show ?thesis
  proof (cases ds')
    case Nil
    with ds assms show ?thesis by (auto simp: skip_0x_def split: list.splits)
  next
    case (Cons b ds'')
    with ds assms(1) have "b \<noteq> CHR ''x''" "b \<noteq> CHR ''X''" using not_is_hex by auto
    with ds Cons show ?thesis by (auto simp: skip_0x_def split: list.splits)
  qed
qed

lemma strtoul16_nat_to_hex:
  assumes "n < 2 ^ 64"
  shows "strtoul16 (nat_to_hex n @ CRLF) = n"
proof -
  obtain a ds where ds: "nat_to_hex n = a # ds" by (cases "nat_to_hex n") auto
  have hex: "\<forall>c \<in> set (nat_to_hex n). is_hex c" by (rule nat_to_hex_digits)
  then have a: "is_hex a" by (simp add: ds)
  then have "\<not> is_space a" "a \<noteq> CHR ''-''" "a \<noteq> CHR ''+''"
    using is_hex_not_space not_is_hex by auto
  then have sign: "split_sign (dropWhile is_space (nat_to_hex n @ CRLF)) = (False, nat_to_hex n @ CRLF)"
    by (simp add: split_sign_def ds)
  have skip: "skip_0x (nat_to_hex n @ CRLF) = nat_to_hex n @ CRLF"
    unfolding CRLF_def by (rule skip_0x_digits) (use hex not_is_hex in auto)
  have "takeWhile is_hex (nat_to_hex n @ CRLF) = nat_to_hex n"
    using hex by (simp add: takeWhile_append CRLF_def not_is_hex)
  with assms show ?thesis
    by (simp add: strtoul16_def sign skip hex_digits_value_nat_to_hex)
qed

lemma line_of_CRLF:
  assumes "CHR 0x0A \<notin> set l"
  shows "line_of (l @ CRLF @ p) = l @ CRLF" "after_line (l @ CRLF @ p) = p"
  using line_of_append [of "l @ [CHR 0x0D]" p] after_line_append [of "l @ [CHR 0x0D]" p] assms
  by (auto simp: CRLF_def)

lemma LF_notin_nat_to_hex [simp]: "CHR 0x0A \<notin> set (nat_to_hex n)"
  using nat_to_hex_digits [of n] not_is_hex by auto

text \<open>
  A connected stream socket: the bytes still to come arrive in order, at least one and at most as
  many as asked for at a time; when there are none left the peer has closed the connection.
\<close>

locale stream_socket =
  fixes N :: "'w net" and s :: nat and pending :: "'w \<Rightarrow> string"
  assumes recv_some: "\<lbrakk>pending w \<noteq> []; 0 < n\<rbrakk> \<Longrightarrow>
      \<exists>k w'. 0 < k \<and> k \<le> n \<and> k \<le> length (pending w) \<and>
        n_recv N s n w = Some (Ret (RecvData (take k (pending w))), w') \<and>
        pending w' = drop k (pending w)"
    and recv_eof: "\<lbrakk>pending w = []; 0 < n\<rbrakk> \<Longrightarrow>
      \<exists>w'. n_recv N s n w = Some (Ret RecvClosed, w') \<and> pending w' = []"
    and recv_zero: "\<exists>w'. n_recv N s 0 w = Some (Ret RecvClosed, w') \<and> pending w' = pending w"
begin

lemma recv_one:
  assumes "pending w = c # p"
  obtains w' where "n_recv N s 1 w = Some (Ret (RecvData [c]), w')" "pending w' = p"
proof -
  from recv_some [of w 1] assms obtain k w' where
    "0 < k" "k \<le> 1" "n_recv N s 1 w = Some (Ret (RecvData (take k (pending w))), w')"
    "pending w' = drop k (pending w)"
    by auto
  moreover from this have "k = 1" by simp
  ultimately show ?thesis using assms that by simp
qed

lemma readLine_loop_returns:
  "\<exists>w'. readLine_loop N s line w =
      Some (Ret (line \<noteq> [] \<or> pending w \<noteq> [], line @ line_of (pending w)), w')
    \<and> pending w' = after_line (pending w)"
proof (induction "pending w" arbitrary: w line)
  case Nil
  then obtain w' where "n_recv N s 1 w = Some (Ret RecvClosed, w')" "pending w' = []"
    using recv_eof [of w 1] by auto
  with Nil show ?case
    by (subst readLine_loop.simps) (simp add: prog_runs after_line_def flip: Nil)
next
  case (Cons c p)
  from recv_one [OF Cons.hyps(2) [symmetric]] obtain w' where
    w': "n_recv N s 1 w = Some (Ret (RecvData [c]), w')" "pending w' = p" by metis
  show ?case
  proof (cases "c = CHR 0x0A")
    case True
    then show ?thesis
      using w' by (subst readLine_loop.simps)
        (simp add: prog_runs after_line_def flip: Cons.hyps(2))
  next
    case False
    with Cons.hyps(1) [of w' "line @ [c]"] w' show ?thesis
      by (subst readLine_loop.simps)
        (simp add: prog_runs after_line_def line_of_Cons flip: Cons.hyps(2))
  qed
qed

lemma readLine_returns:
  "\<exists>w'. readLine N s w = Some (Ret (pending w \<noteq> [], line_of (pending w)), w')
    \<and> pending w' = after_line (pending w)"
  using readLine_loop_returns [of "[]" w] by (simp add: readLine_def)

lemma readIndefinite_returns:
  "\<exists>w'. readIndefiniteContent N s content w = Some (Ret (True, content @ pending w), w')
    \<and> pending w' = []"
proof (induction "length (pending w)" arbitrary: w content rule: less_induct)
  case less
  show ?case
  proof (cases "pending w = []")
    case True
    then obtain w' where "n_recv N s 4096 w = Some (Ret RecvClosed, w')" "pending w' = []"
      using recv_eof [of w 4096] by auto
    with True show ?thesis
      by (subst readIndefiniteContent.simps) (simp add: prog_runs)
  next
    case False
    then obtain k w' where k: "0 < k" "k \<le> length (pending w)"
      "n_recv N s 4096 w = Some (Ret (RecvData (take k (pending w))), w')"
      "pending w' = drop k (pending w)"
      using recv_some [of w 4096] by auto
    with less.hyps [of w' "content @ take k (pending w)"] False show ?thesis
      by (subst readIndefiniteContent.simps) (simp add: prog_runs)
  qed
qed

lemma readFixed_loop_returns:
  assumes "n < 2 ^ 31"
  shows "\<exists>w'. readFixed_loop N s buf n w =
      Some (Ret (if n \<le> length (pending w) then Some (buf @ take n (pending w)) else None), w')
    \<and> (n \<le> length (pending w) \<longrightarrow> pending w' = drop n (pending w))"
  using assms
proof (induction n arbitrary: w buf rule: less_induct)
  case (less n)
  have count: "recv_count n = n" using less.prems by (simp add: recv_count_def)
  consider "n = 0" | "0 < n" "pending w = []" | "0 < n" "pending w \<noteq> []" by auto
  then show ?case
  proof cases
    case 1
    then show ?thesis by (subst readFixed_loop.simps) simp
  next
    case 2
    with recv_eof [of w n] obtain w' where "n_recv N s n w = Some (Ret RecvClosed, w')" by auto
    with 2 show ?thesis
      by (subst readFixed_loop.simps) (simp add: prog_runs count)
  next
    case 3
    with recv_some [of w n] obtain k w' where k: "0 < k" "k \<le> n" "k \<le> length (pending w)"
      "n_recv N s n w = Some (Ret (RecvData (take k (pending w))), w')"
      "pending w' = drop k (pending w)" by auto
    from k less.prems have "n - k < n" "n - k < 2 ^ 31" by auto
    from less.IH [OF this, of "buf @ take k (pending w)" w']
    obtain w'' where IH: "readFixed_loop N s (buf @ take k (pending w)) (n - k) w' =
        Some (Ret (if n - k \<le> length (pending w') then Some ((buf @ take k (pending w)) @ take (n - k) (pending w'))
          else None), w'')" "n - k \<le> length (pending w') \<longrightarrow> pending w'' = drop (n - k) (pending w')"
      by blast
    have split: "take n (pending w) = take k (pending w) @ take (n - k) (pending w')"
      using take_add [of k "n - k" "pending w"] k by simp
    have run: "readFixed_loop N s buf n w = readFixed_loop N s (buf @ take k (pending w)) (n - k) w'"
      using 3 k by (subst readFixed_loop.simps) (simp add: prog_runs count min_def)
    show ?thesis
      unfolding run using IH k 3 split by (auto simp: le_diff_conv)
  qed
qed

lemma readFixed_returns:
  assumes "n < 2 ^ 31"
  shows "\<exists>w'. readFixedContent N s content n w =
      Some (Ret (if n \<le> length (pending w) then (True, content @ take n (pending w))
                 else (False, content)), w')
    \<and> (n \<le> length (pending w) \<longrightarrow> pending w' = drop n (pending w))"
proof -
  from readFixed_loop_returns [OF assms, of "[]" w] obtain w' where
    "readFixed_loop N s [] n w =
      Some (Ret (if n \<le> length (pending w) then Some (take n (pending w)) else None), w')"
    "n \<le> length (pending w) \<longrightarrow> pending w' = drop n (pending w)" by auto
  moreover have "\<not> 2 ^ 63 \<le> n" using assms by simp
  ultimately show ?thesis
    by (auto simp: readFixedContent_def prog_runs)
qed

lemma readLine_CRLF:
  assumes "pending w = l @ CRLF @ p" "CHR 0x0A \<notin> set l"
  obtains w' where "readLine N s w = Some (Ret (True, l @ CRLF), w')" "pending w' = p"
proof -
  have "pending w \<noteq> []" using assms(1) by (simp add: CRLF_def)
  with readLine_returns [of w] assms that show ?thesis by (auto simp: line_of_CRLF)
qed

text \<open>One round of the chunk loop, on a chunk of any length.\<close>

lemma readChunked_step:
  assumes "pending w = encode_chunk c @ p" "length c < 2 ^ 31"
  shows "\<exists>w'. pending w' = p \<and>
    readChunkedContent N s content w =
      (if c = [] then Some (Ret (True, content), w')
       else readChunkedContent N s (content @ c) w')"
proof -
  from readLine_CRLF [of w "nat_to_hex (length c)" "c @ CRLF @ p"] assms obtain w1 where
    w1: "readLine N s w = Some (Ret (True, nat_to_hex (length c) @ CRLF), w1)"
      "pending w1 = c @ CRLF @ p"
    by (auto simp: encode_chunk_def)
  have len: "strtoul16 (nat_to_hex (length c) @ CRLF) = length c"
    using assms(2) by (intro strtoul16_nat_to_hex) simp
  obtain w2 where w2: "pending w2 = CRLF @ p"
    "(if length c \<noteq> 0 then readFixedContent N s [] (length c) else retp (True, [])) w1 =
        Some (Ret (True, c), w2)"
  proof (cases "c = []")
    case True
    with that [of w1] w1 show ?thesis by simp
  next
    case False
    with readFixed_returns [OF assms(2), of "[]" w1] w1 that show ?thesis by auto
  qed
  from readLine_CRLF [of w2 "[]" p] w2 obtain w3 where
    w3: "readLine N s w2 = Some (Ret (True, CRLF), w3)" "pending w3 = p" by auto
  have "readChunkedContent N s content w =
      (if c = [] then Some (Ret (True, content), w3) else readChunkedContent N s (content @ c) w3)"
    using w2(2) by (subst readChunkedContent.simps)
      (cases "c = []"; simp add: prog_runs w1(1) w3(1) len Let_def strtoul16_nat_to_hex [of 0])
  with w3(2) show ?thesis by blast
qed

lemma readChunked_returns:
  assumes "pending w = encode_chunks cs @ p" "\<forall>c \<in> set cs. c \<noteq> [] \<and> length c < 2 ^ 31"
  shows "\<exists>w'. readChunkedContent N s content w = Some (Ret (True, content @ concat cs), w')
    \<and> pending w' = p"
  using assms
proof (induction cs arbitrary: w content)
  case Nil
  then show ?case
    using readChunked_step [of w "[]" p content] by (auto simp: encode_chunks_def)
next
  case (Cons c cs)
  then have "pending w = encode_chunk c @ encode_chunks cs @ p"
    by (simp add: encode_chunks_def)
  with readChunked_step [of w c _ content] Cons.prems(2) obtain w1 where
    "pending w1 = encode_chunks cs @ p"
    "readChunkedContent N s content w = readChunkedContent N s (content @ c) w1"
    by (auto split: if_splits)
  with Cons.IH [of w1 "content @ c"] Cons.prems(2) show ?case by simp
qed

end

text \<open>
  A connected socket that is also written to: \<open>send\<close> takes at least one byte, and the answer of the
  peer is announced by \<open>select\<close>.
\<close>

locale http_channel = stream_socket N s pending
  for N :: "'w net" and s :: nat and pending :: "'w \<Rightarrow> string" +
  fixes sent :: "'w \<Rightarrow> string"
  assumes send_some: "d \<noteq> [] \<Longrightarrow> \<exists>k w'. 0 < k \<and> k \<le> length d \<and>
      n_send N s d w = Some (Ret (int k), w') \<and> sent w' = sent w @ take k d \<and>
      pending w' = pending w"
    and select_ready: "pending w \<noteq> [] \<Longrightarrow>
      \<exists>w'. n_select_read N s t w = Some (Ret SelReady, w') \<and> pending w' = pending w \<and>
        sent w' = sent w"
    and recv_sent: "n_recv N s n w = Some (r, w') \<Longrightarrow> sent w' = sent w"
    and destroy_returns: "\<exists>w'. n_destroy N s w = Some (Ret (), w') \<and> pending w' = pending w \<and>
        sent w' = sent w"
begin

lemma sock_write_returns:
  "\<exists>w'. sock_write N s d w = Some (Ret True, w') \<and> sent w' = sent w @ d \<and> pending w' = pending w"
proof (induction "length d" arbitrary: d w rule: less_induct)
  case less
  show ?case
  proof (cases "d = []")
    case True
    then show ?thesis by (subst sock_write.simps) simp
  next
    case False
    from send_some [OF False, of w] obtain k w1 where k: "0 < k" "k \<le> length d"
      "n_send N s d w = Some (Ret (int k), w1)" "sent w1 = sent w @ take k d"
      "pending w1 = pending w" by blast
    have "sock_write N s d w = sock_write N s (drop k d) w1"
      using False k by (subst sock_write.simps) (simp add: prog_runs)
    with less.hyps [of "drop k d" w1] False k show ?thesis by auto
  qed
qed

end

section \<open>A scripted peer\<close>

text \<open>
  The socket calls of a peer whose output is a given list of segments, of any content and any
  lengths, and which takes at most a given number of bytes at a time.  It closes the connection
  when its script is over, and has a script for each of the connections that follow; it can refuse
  some of them.
\<close>

record peer =
  incoming :: "string list"
  later :: "string list list"
  outgoing :: string
  window :: nat
  refused :: nat

definition peer_recv :: "nat \<Rightarrow> (peer, recv_result) prog" where
  "peer_recv n w = (if n = 0 then Some (Ret RecvClosed, w) else case dropWhile (\<lambda>seg. seg = []) (incoming w) of
       [] \<Rightarrow> Some (Ret RecvClosed, w\<lparr>incoming := []\<rparr>)
     | seg # rest \<Rightarrow> Some (Ret (RecvData (take n seg)), w\<lparr>incoming := drop n seg # rest\<rparr>))"

definition peer_send :: "string \<Rightarrow> (peer, int) prog" where
  "peer_send d w =
     (let k = min (Suc (window w)) (length d)
      in Some (Ret (int k), w\<lparr>outgoing := outgoing w @ take k d\<rparr>))"

definition peer_net :: "peer net" where
  "peer_net = \<lparr>
     n_recv = (\<lambda>_. peer_recv),
     n_send = (\<lambda>_. peer_send),
     n_create = (\<lambda>w. Some (Ret (Some 7), w)),
     n_destroy = (\<lambda>_. retp ()),
     n_connect = (\<lambda>_ _ _ w. if refused w = 0
        then Some (Ret ConnOk, w\<lparr>incoming := concat (take 1 (later w)), later := tl (later w)\<rparr>)
        else Some (Ret ConnFailed, w\<lparr>refused := refused w - 1\<rparr>)),
     n_select_write = (\<lambda>_ _. retp SelReady),
     n_select_read = (\<lambda>_ _. retp SelReady),
     n_set_nonblock = (\<lambda>_ _. retp True),
     n_local_host = (\<lambda>_. retp ''10.0.0.1''),
     n_resolve = (\<lambda>h. Some h)\<rparr>"

lemma concat_dropWhile_Nil: "concat (dropWhile (\<lambda>seg. seg = []) xs) = concat xs"
  by (induction xs) auto

lemma peer_recv_some:
  assumes "concat (incoming w) \<noteq> []" "0 < n"
  shows "\<exists>k w'. 0 < k \<and> k \<le> n \<and> k \<le> length (concat (incoming w)) \<and>
      peer_recv n w = Some (Ret (RecvData (take k (concat (incoming w)))), w') \<and>
      concat (incoming w') = drop k (concat (incoming w))"
proof -
  obtain seg rest where segs: "dropWhile (\<lambda>seg. seg = []) (incoming w) = seg # rest"
    using assms(1) concat_dropWhile_Nil [of "incoming w"]
    by (cases "dropWhile (\<lambda>seg. seg = []) (incoming w)") auto
  then have "seg \<noteq> []"
    by (metis (mono_tags, lifting) hd_dropWhile list.sel(1) list.simps(3))
  moreover have c: "concat (incoming w) = seg @ concat rest"
    using concat_dropWhile_Nil [of "incoming w"] by (simp add: segs)
  ultimately show ?thesis
    using assms(2)
    by (intro exI [of _ "min n (length seg)"] exI [of _ "w\<lparr>incoming := drop n seg # rest\<rparr>"])
      (auto simp: peer_recv_def segs c min_def)
qed

interpretation peer: http_channel peer_net s "\<lambda>w. concat (incoming w)" outgoing
proof unfold_locales
  show "\<exists>k w'. 0 < k \<and> k \<le> n \<and> k \<le> length (concat (incoming w)) \<and>
      n_recv peer_net s n w = Some (Ret (RecvData (take k (concat (incoming w)))), w') \<and>
      concat (incoming w') = drop k (concat (incoming w))"
    if "concat (incoming w) \<noteq> []" "0 < n" for w n
    using peer_recv_some [OF that] by (simp add: peer_net_def)
next
  show "\<exists>w'. n_recv peer_net s n w = Some (Ret RecvClosed, w') \<and> concat (incoming w') = []"
    if "concat (incoming w) = []" "0 < n" for w n
  proof -
    from that have "dropWhile (\<lambda>seg. seg = []) (incoming w) = []" by auto
    then show ?thesis
      by (intro exI [of _ "w\<lparr>incoming := []\<rparr>"])
        (use that(2) in \<open>simp add: peer_net_def peer_recv_def del: dropWhile_eq_Nil_conv\<close>)
  qed
next
  show "\<exists>w'. n_recv peer_net s 0 w = Some (Ret RecvClosed, w') \<and>
      concat (incoming w') = concat (incoming w)" for w
    by (simp add: peer_net_def peer_recv_def)
next
  show "\<exists>k w'. 0 < k \<and> k \<le> length d \<and> n_send peer_net s d w = Some (Ret (int k), w') \<and>
      outgoing w' = outgoing w @ take k d \<and> concat (incoming w') = concat (incoming w)"
    if "d \<noteq> []" for d w
    using that by (intro exI [of _ "min (Suc (window w)) (length d)"])
      (auto simp: peer_net_def peer_send_def Let_def)
next
  show "\<exists>w'. n_select_read peer_net s t w = Some (Ret SelReady, w') \<and>
      concat (incoming w') = concat (incoming w) \<and> outgoing w' = outgoing w"
    if "concat (incoming w) \<noteq> []" for w t
    using that by (simp add: peer_net_def)
next
  show "outgoing w' = outgoing w" if "n_recv peer_net s n w = Some (r, w')" for n w r w'
    using that by (auto simp: peer_net_def peer_recv_def split: if_splits list.splits)
next
  show "\<exists>w'. n_destroy peer_net s w = Some (Ret (), w') \<and>
      concat (incoming w') = concat (incoming w) \<and> outgoing w' = outgoing w" for w
    by (simp add: peer_net_def)
qed

text \<open>An object beside the world changes nothing about the channel.\<close>

interpretation peer_beside: http_channel "on_world peer_net" s "\<lambda>x. concat (incoming (snd x))"
  "\<lambda>x. outgoing (snd x)"
proof unfold_locales
  fix x :: "'a \<times> peer" and n :: nat
  assume "concat (incoming (snd x)) \<noteq> []" "0 < n"
  with peer.recv_some [of "snd x" n s] show "\<exists>k x'. 0 < k \<and> k \<le> n \<and> k \<le> length (concat (incoming (snd x))) \<and>
      n_recv (on_world peer_net) s n x = Some (Ret (RecvData (take k (concat (incoming (snd x))))), x') \<and>
      concat (incoming (snd x')) = drop k (concat (incoming (snd x)))"
    by (cases x) (force simp: netp_run)
next
  fix x :: "'a \<times> peer" and n :: nat
  assume "concat (incoming (snd x)) = []" "0 < n"
  with peer.recv_eof [of "snd x" n s] show "\<exists>x'. n_recv (on_world peer_net) s n x = Some (Ret RecvClosed, x') \<and>
      concat (incoming (snd x')) = []"
    by (cases x) (force simp: netp_run)
next
  fix x :: "'a \<times> peer"
  show "\<exists>x'. n_recv (on_world peer_net) s 0 x = Some (Ret RecvClosed, x') \<and>
      concat (incoming (snd x')) = concat (incoming (snd x))"
    using peer.recv_zero [of s "snd x"] by (cases x) (force simp: netp_run)
next
  fix x :: "'a \<times> peer" and d :: string
  assume "d \<noteq> []"
  with peer.send_some [of d s "snd x"] show "\<exists>k x'. 0 < k \<and> k \<le> length d \<and>
      n_send (on_world peer_net) s d x = Some (Ret (int k), x') \<and>
      outgoing (snd x') = outgoing (snd x) @ take k d \<and>
      concat (incoming (snd x')) = concat (incoming (snd x))"
    by (cases x) (force simp: netp_run)
next
  fix x :: "'a \<times> peer" and t :: int
  assume "concat (incoming (snd x)) \<noteq> []"
  with peer.select_ready [of "snd x" s t] show "\<exists>x'. n_select_read (on_world peer_net) s t x = Some (Ret SelReady, x') \<and>
      concat (incoming (snd x')) = concat (incoming (snd x)) \<and> outgoing (snd x') = outgoing (snd x)"
    by (cases x) (force simp: netp_run)
next
  fix x x' :: "'a \<times> peer" and n r
  assume "n_recv (on_world peer_net) s n x = Some (r, x')"
  then show "outgoing (snd x') = outgoing (snd x)"
    using peer.recv_sent [of s n "snd x"] by (cases x) (auto simp: netp_def zoom_def bind_eq_Some_conv)
next
  fix x :: "'a \<times> peer"
  show "\<exists>x'. n_destroy (on_world peer_net) s x = Some (Ret (), x') \<and>
      concat (incoming (snd x')) = concat (incoming (snd x)) \<and> outgoing (snd x') = outgoing (snd x)"
    using peer.destroy_returns [of s "snd x"] by (cases x) (force simp: netp_run)
qed

text \<open>Sending and receiving do not touch the connections to come.\<close>

lemma peer_keeps_later [keeps_intros]:
  "keeps (\<lambda>w. later w = ls \<and> refused w = k) (n_recv peer_net s n)"
  "keeps (\<lambda>w. later w = ls \<and> refused w = k) (n_send peer_net s d)"
  by (auto simp: keeps_def peer_net_def peer_recv_def peer_send_def Let_def split: if_splits list.splits)

section \<open>Properties\<close>

lemma stoi_nat_to_string: "p < 2 ^ 31 \<Longrightarrow> stoi (nat_to_string p) = Ret (int p)"
proof -
  assume p: "p < 2 ^ 31"
  obtain a ds where ds: "nat_to_string p = a # ds" by (cases "nat_to_string p") auto
  have digits: "\<forall>c \<in> set (nat_to_string p). is_digit c"
    using nat_to_string_digits by (simp add: is_digit_def)
  then have "is_digit a" by (simp add: ds)
  then have "\<not> is_space a" "a \<noteq> CHR ''-''" "a \<noteq> CHR ''+''"
    by (auto simp: is_digit_def char_digit_def is_space_def Let_def split: if_splits)
  then have "split_sign (dropWhile is_space (nat_to_string p)) = (False, nat_to_string p)"
    by (simp add: split_sign_def ds)
  moreover have tw: "takeWhile is_digit (nat_to_string p) = nat_to_string p"
    using digits by (simp only: takeWhile_eq_all_conv)
  ultimately show ?thesis
    using p by (simp add: stoi_def digits_value_nat_to_string in_i32_def Let_def tw)
qed

lemma str_find_char_from_append:
  "c \<notin> set xs \<Longrightarrow> str_find_char_from c (pre @ xs @ c # ys) (length pre) = Some (length pre + length xs)"
  using find_index_append_notin [of xs "\<lambda>x. x = c" "c # ys"] by (auto simp: str_find_char_from_def)

lemma str_find_char_from_None: "c \<notin> set xs \<Longrightarrow> str_find_char_from c (pre @ xs) (length pre) = None"
  by (auto simp: str_find_char_from_def find_index_None)

lemma url_address_path_slash:
  "CHR ''/'' \<notin> set a \<Longrightarrow> url_address_path (pre @ a @ CHR ''/'' # r) (length pre) = (a, CHR ''/'' # r)"
  using str_find_char_from_append [of "CHR ''/''" a pre r] by (simp add: url_address_path_def)

lemma str_find_sep:
  assumes "CHR '':'' \<notin> set s"
  shows "str_find ''://'' (s @ ''://'' @ r) = Some (length s)"
  using assms
proof (induction s)
  case Nil
  then show ?case using str_find_prefix [of "''://''" r] by simp
next
  case (Cons c s)
  then show ?case by (auto simp: Cons_eq_append_conv)
qed

lemma digit_not_sep: "c \<in> set (nat_to_string p) \<Longrightarrow> c \<noteq> CHR ''/'' \<and> c \<noteq> CHR '':''"
  using nat_to_string_digits [of p] by (auto simp: char_digit_def Let_def split: if_splits)

text \<open>C31: the URL parser takes a printed URL apart into the scheme, the host, the port and the path it
  was printed from.\<close>

theorem URL_parse_print:
  assumes "CHR '':'' \<notin> set sch" and "CHR '':'' \<notin> set h" and "CHR ''/'' \<notin> set h" and "p < 2 ^ 31"
  shows "URL (sch @ ''://'' @ h @ '':'' @ nat_to_string p @ ''/'' @ rest) =
    Ret \<lparr>scheme = sch @ ''://'', host = h, port = int p, path = ''/'' @ rest\<rparr>"
proof -
  let ?pre = "sch @ ''://''" and ?addr = "h @ '':'' @ nat_to_string p"
  let ?u = "?pre @ ?addr @ CHR ''/'' # rest"
  have "url_scheme ?u = (?pre, length ?pre)"
    using str_find_sep [OF assms(1), of "?addr @ CHR ''/'' # rest"] by (simp add: url_scheme_def)
  moreover have "CHR ''/'' \<notin> set ?addr"
    using assms(3) digit_not_sep by auto
  then have "url_address_path ?u (length ?pre) = (?addr, CHR ''/'' # rest)"
    by (rule url_address_path_slash)
  moreover have "url_host_port ?addr = Ret (h, int p)"
    using str_find_char_from_append [of "CHR '':''" h "[]" "nat_to_string p"] assms
    by (simp add: url_host_port_def stoi_nat_to_string)
  ultimately show ?thesis by (simp add: URL_def)
qed

lemma URL_parse_print_witness:
  "URL ''http://ses:8080/api'' =
    Ret \<lparr>scheme = ''http://'', host = ''ses'', port = 8080, path = ''/api''\<rparr>"
  using URL_parse_print [of "''http''" "''ses''" 8080 "''api''"]
  by (simp add: nat_to_string.simps)

text \<open>C16: however the bytes of a chunked body are cut into segments, the reader returns the
  concatenation of the chunks and leaves the bytes behind the body unread.\<close>

theorem readChunkedContent_decodes:
  assumes "concat segs = encode_chunks cs @ rest" and "\<forall>c \<in> set cs. c \<noteq> [] \<and> length c < 2 ^ 31"
  shows "\<exists>w'. readChunkedContent peer_net s [] (w\<lparr>incoming := segs\<rparr>) = Some (Ret (True, concat cs), w')
    \<and> concat (incoming w') = rest"
  using peer.readChunked_returns [of "w\<lparr>incoming := segs\<rparr>" cs rest s "[]"] assms by simp

lemma readChunkedContent_decodes_witness:
  "\<exists>w'. readChunkedContent peer_net 1 []
      \<lparr>incoming = [[CHR ''2'', CHR 0x0D], [CHR 0x0A, CHR ''a''], [CHR ''b''], CRLF @ ''0'' @ CRLF, CRLF @ ''H''],
       later = [], outgoing = [], window = 0, refused = 0\<rparr> = Some (Ret (True, ''ab''), w')
    \<and> concat (incoming w') = ''H''"
  using readChunkedContent_decodes
    [of "[[CHR ''2'', CHR 0x0D], [CHR 0x0A, CHR ''a''], [CHR ''b''], CRLF @ ''0'' @ CRLF, CRLF @ ''H'']"
      "[''ab'']" "''H''" 1 "\<lparr>incoming = [], later = [], outgoing = [], window = 0, refused = 0\<rparr>"]
  by (simp add: encode_chunks_def encode_chunk_def CRLF_def nat_to_hex.simps hex_char_def flip: numeral_2_eq_2)

text \<open>A header line whose value is empty or blank makes the parser throw, whatever its key; the callers
  that read the headers of a response or a notification do not catch the exception.\<close>

lemma parseHeaderLine_empty_value:
  assumes "CHR '':'' \<notin> set key" and "\<forall>c \<in> set blank. is_trim c"
  shows "parseHeaderLine (key @ '':'' @ blank) hs = Throw Out_of_range"
proof -
  have n: "str_find_char_from CHR '':'' (key @ CHR '':'' # blank) 0 = Some (length key)"
    using str_find_char_from_append [OF assms(1), of "[]" blank] by simp
  have "find_first_not_trim (key @ CHR '':'' # blank) (Suc (length key)) = None"
    using assms(2) by (simp add: find_first_not_trim_def find_index_None)
  then show ?thesis
    by (simp add: parseHeaderLine_def n Let_def)
qed

lemma parseHeaderLine_empty_value_witness:
  "parseHeaderLine (''Host: '' @ CRLF) [] = Throw Out_of_range"
  using parseHeaderLine_empty_value [of "''Host''" "'' '' @ CRLF" "[]"]
  by (simp add: CRLF_def is_trim_def)

end
