(* ===== verification/HttpClient.thy ===== *)
theory HttpClient
  imports HttpCommon
begin

text \<open>
  The HTTP client of \<open>HTTPClient.cpp\<close>: the pool of sockets, the connection with its timeout,
  the request with one retry, the response, and the two calls \<open>get\<close> and \<open>post\<close>.

  The state of an operation is the client object together with the world of the socket calls.  The
  virtual function \<open>connectionCallback\<close> is a parameter of the operations that may connect.
\<close>

section \<open>Data\<close>

text \<open>\<open>INVALID_SOCKET\<close> is \<open>None\<close>; a member that was never written is \<open>None\<close> as well.\<close>

record socket_t =
  sock_fd :: "nat option"
  sock_closed :: "bool option"
  sock_locked :: bool

record request_t =
  rq_method :: string
  rq_path :: string
  rq_headers :: headers
  rq_content :: string

record response_t =
  rs_headers :: headers
  rs_reconnect :: bool
  rs_chunked :: bool
  rs_content :: string
  rs_contentLength :: nat
  rs_code :: int
  rs_version :: string

record http_client =
  mHostname :: string
  mPort :: int
  mPath :: string
  mServerAddress :: "(string \<times> int) option"
  mLocalHost :: string
  mSockets :: "socket_t list"
  mTimeout :: int

definition MAX_SOCKETS :: nat where "MAX_SOCKETS = 5"
definition MAX_HTTP_RETRIES :: nat where "MAX_HTTP_RETRIES = 1"
definition DEFAULT_TIMEOUT_CONNECT :: int where "DEFAULT_TIMEOUT_CONNECT = 3"
definition DEFAULT_TIMEOUT_REPLY :: int where "DEFAULT_TIMEOUT_REPLY = 20"

definition empty_request :: request_t where
  "empty_request = \<lparr>rq_method = [], rq_path = [], rq_headers = [], rq_content = []\<rparr>"

definition empty_response :: response_t where
  "empty_response = \<lparr>rs_headers = [], rs_reconnect = False, rs_chunked = False, rs_content = [],
     rs_contentLength = 0, rs_code = 0, rs_version = []\<rparr>"

section \<open>Programs of the client\<close>

type_synonym ('w, 'a) http_prog = "(http_client \<times> 'w, 'a) prog"

definition slot :: "nat \<Rightarrow> http_client \<times> 'w \<Rightarrow> socket_t" where
  "slot i s = mSockets (fst s) ! i"

definition upd_slot :: "nat \<Rightarrow> (socket_t \<Rightarrow> socket_t) \<Rightarrow> http_client \<times> 'w \<Rightarrow> http_client \<times> 'w" where
  "upd_slot i f s =
     ((fst s)\<lparr>mSockets := (mSockets (fst s))[i := f (mSockets (fst s) ! i)]\<rparr>, snd s)"

section \<open>Construction and destruction\<close>

text \<open>
  The sockets are initialised only when the host name resolves.  The port is stored in network
  byte order, 16 bits wide.
\<close>

definition uninit_socket :: socket_t where
  "uninit_socket = \<lparr>sock_fd = None, sock_closed = None, sock_locked = False\<rparr>"

definition closed_socket :: socket_t where
  "closed_socket = \<lparr>sock_fd = None, sock_closed = Some True, sock_locked = False\<rparr>"

definition HTTPClient :: "'w net \<Rightarrow> string \<Rightarrow> http_client outcome" where
  "HTTPClient N uri =
     obind (URL uri) (\<lambda>u.
     let c = \<lparr>mHostname = host u, mPort = port u, mPath = path u, mServerAddress = None,
              mLocalHost = [], mSockets = replicate MAX_SOCKETS uninit_socket,
              mTimeout = DEFAULT_TIMEOUT_REPLY\<rparr>
     in Ret (case n_resolve N (host u) of
         None \<Rightarrow> c
       | Some ip \<Rightarrow> c\<lparr>mHostname := ip, mServerAddress := Some (ip, port u mod 65536),
                      mSockets := replicate MAX_SOCKETS closed_socket\<rparr>))"

definition HTTPClient_destroy :: "'w net \<Rightarrow> ('w, unit) http_prog" where
  "HTTPClient_destroy N =
     forp (\<lambda>i. bnd (getsp (slot i)) (\<lambda>s. case sock_closed s of
         None \<Rightarrow> undefp
       | Some cl \<Rightarrow> (case sock_fd s of
           Some d \<Rightarrow> whenp (\<not> cl) (netp (n_destroy N d))
         | None \<Rightarrow> retp ()))) [0..<MAX_SOCKETS]"

section \<open>Connecting\<close>

definition http_close :: "'w net \<Rightarrow> nat \<Rightarrow> ('w, unit) http_prog" where
  "http_close N i =
     bnd (getsp (slot i)) (\<lambda>s.
     sq (case sock_fd s of Some d \<Rightarrow> netp (n_destroy N d) | None \<Rightarrow> retp ())
        (modp (upd_slot i (\<lambda>s. s\<lparr>sock_closed := Some True\<rparr>))))"

definition setNonBlock :: "'w net \<Rightarrow> nat \<Rightarrow> bool \<Rightarrow> ('w, bool) http_prog" where
  "setNonBlock N i nonBlock =
     bnd (getsp (slot i)) (\<lambda>s. case sock_fd s of
       Some d \<Rightarrow> netp (n_set_nonblock N d nonBlock)
     | None \<Rightarrow> retp False)"

text \<open>Give the descriptor up after a failed connection attempt.\<close>

definition drop_fd :: "'w net \<Rightarrow> nat \<Rightarrow> nat \<Rightarrow> ('w, bool) http_prog" where
  "drop_fd N i d =
     sq (netp (n_destroy N d))
     (sq (modp (upd_slot i (\<lambda>s. s\<lparr>sock_fd := None\<rparr>))) (retp False))"

text \<open>The attempt itself, waiting for a server that does not respond at once.\<close>

definition try_connect :: "'w net \<Rightarrow> nat \<Rightarrow> nat \<Rightarrow> ('w, bool) http_prog" where
  "try_connect N i d =
     bnd (getsp (\<lambda>s. case mServerAddress (fst s) of Some a \<Rightarrow> a | None \<Rightarrow> (''0.0.0.0'', 0))) (\<lambda>(h, p).
     bnd (netp (n_connect N d h p)) (\<lambda>r. case r of
       ConnOk \<Rightarrow> retp True
     | ConnFailed \<Rightarrow> drop_fd N i d
     | ConnInProgress \<Rightarrow>
         bnd (netp (n_select_write N d DEFAULT_TIMEOUT_CONNECT)) (\<lambda>ret. case ret of
           SelReady \<Rightarrow> retp True
         | SelTimeout \<Rightarrow> drop_fd N i d
         | SelError \<Rightarrow> drop_fd N i d)))"

definition cache_local_host :: "'w net \<Rightarrow> nat \<Rightarrow> ('w, unit) http_prog" where
  "cache_local_host N d =
     bnd (getsp (\<lambda>s. mLocalHost (fst s))) (\<lambda>l.
     if l = [] then bnd (netp (n_local_host N d)) (\<lambda>h. modp (\<lambda>s. ((fst s)\<lparr>mLocalHost := h\<rparr>, snd s)))
     else retp ())"

definition http_connect :: "'w net \<Rightarrow> ('w, unit) http_prog \<Rightarrow> nat \<Rightarrow> ('w, bool) http_prog" where
  "http_connect N connectionCallback i =
     bnd (getsp (slot i)) (\<lambda>s. case sock_closed s of
       None \<Rightarrow> undefp
     | Some cl \<Rightarrow>
         if \<not> cl then retp True
         else bnd (netp (n_create N)) (\<lambda>f.
           sq (modp (upd_slot i (\<lambda>s. s\<lparr>sock_fd := f\<rparr>))) (case f of
             None \<Rightarrow> retp False
           | Some d \<Rightarrow>
               bnd (setNonBlock N i True) (\<lambda>_.
               bnd (try_connect N i d) (\<lambda>ok.
               if \<not> ok then retp False
               else sq (cache_local_host N d)
                   (sq connectionCallback
                   (bnd (setNonBlock N i False) (\<lambda>_.
                   sq (modp (upd_slot i (\<lambda>s. s\<lparr>sock_closed := Some False\<rparr>)))
                   (retp True)))))))))"

section \<open>The request\<close>

text \<open>
  The first socket whose mutex can be locked.  The guard that adopts the lock is an unnamed
  object, which is destroyed at the end of the statement that creates it, and unlocks the mutex.
\<close>

definition try_lock_socket :: "http_client \<Rightarrow> nat option \<times> http_client" where
  "try_lock_socket c = (case find_index (\<lambda>s. \<not> sock_locked s) (mSockets c) of
       None \<Rightarrow> (None, c)
     | Some i \<Rightarrow> (Some i, c\<lparr>mSockets := (mSockets c)[i := (mSockets c ! i)\<lparr>sock_locked := True\<rparr>]\<rparr>))"

definition unlock_socket :: "nat \<Rightarrow> http_client \<Rightarrow> http_client" where
  "unlock_socket i c = c\<lparr>mSockets := (mSockets c)[i := (mSockets c ! i)\<lparr>sock_locked := False\<rparr>]\<rparr>"

definition select_socket :: "http_client \<Rightarrow> nat option \<times> http_client" where
  "select_socket c = (case try_lock_socket c of
       (None, c') \<Rightarrow> (None, c')
     | (Some i, c') \<Rightarrow> (Some i, unlock_socket i c'))"

definition request_data :: "http_client \<Rightarrow> request_t \<Rightarrow> string" where
  "request_data c r =
     rq_method r @ '' '' @ rq_path r @ '' HTTP/1.1'' @ CRLF
     @ ''Host: '' @ mHostname c @ CRLF
     @ concat (map (\<lambda>(k, v). k @ '': '' @ v @ CRLF) (rq_headers r))
     @ (if rq_content r \<noteq> [] then ''Content-Length: '' @ nat_to_string (length (rq_content r)) @ CRLF else [])
     @ CRLF @ rq_content r"

text \<open>
  \<open>sscanf\<close> with \<open>"%s %d"\<close> on the status line: the version is written to an array of forty
  characters, terminating zero included; a number that does not fit \<open>int\<close> is undefined.
\<close>

definition scan_int :: "string \<Rightarrow> int option outcome" where
  "scan_int s =
     (let (neg, t) = split_sign (dropWhile is_space s);
          ds = takeWhile is_digit t;
          v = (if neg then - int (digits_value 0 ds) else int (digits_value 0 ds))
      in if ds = [] then Ret None else if in_i32 v then Ret (Some v) else Undef)"

definition scan_status :: "string \<Rightarrow> response_t \<Rightarrow> response_t outcome" where
  "scan_status status r =
     (let s = dropWhile is_space (takeWhile (\<lambda>c. c \<noteq> CHR 0x00) status);
          version = takeWhile (\<lambda>c. \<not> is_space c) s
      in if version = [] then Ret r
         else if 40 \<le> length version then Undef
         else obind (scan_int (drop (length version) s)) (\<lambda>code.
           Ret (r\<lparr>rs_version := version,
                  rs_code := (case code of Some v \<Rightarrow> v | None \<Rightarrow> rs_code r)\<rparr>)))"

text \<open>The header lines up to the empty line.  Lines without the line end are skipped.\<close>

definition ends_CRLF :: "string \<Rightarrow> bool" where
  "ends_CRLF line \<longleftrightarrow> 2 \<le> length line \<and> line ! (length line - 2) = CHR 0x0D \<and>
     line ! (length line - 1) = CHR 0x0A"

partial_function (option) read_headers ::
    "'w net \<Rightarrow> nat \<Rightarrow> headers \<Rightarrow> 'w \<Rightarrow> ((bool \<times> headers) outcome \<times> 'w) option" where
  "read_headers N s hdrs w =
     bnd (readLine N s) (\<lambda>(ok, line).
       if \<not> ok then retp (False, hdrs)
       else if \<not> ends_CRLF line then read_headers N s hdrs
       else if length line = 2 then retp (True, hdrs)
       else bnd (liftp (parseHeaderLine line hdrs)) (\<lambda>(_, hdrs). read_headers N s hdrs)) w"

definition header_fields :: "response_t \<Rightarrow> response_t outcome" where
  "header_fields r =
     obind (stoi (getHeaderValue (rs_headers r) ''Content-Length'' ''0'')) (\<lambda>n.
     Ret (r\<lparr>rs_contentLength := nat (n mod 2 ^ 64),
            rs_reconnect := getHeaderValue (rs_headers r) ''Connection'' [] = ''close'',
            rs_chunked := getHeaderValue (rs_headers r) ''Transfer-Encoding'' [] = ''chunked''\<rparr>))"

definition read_content :: "'w net \<Rightarrow> nat \<Rightarrow> response_t \<Rightarrow> ('w, bool \<times> string) prog" where
  "read_content N s r =
     (if rs_chunked r then readChunkedContent N s (rs_content r)
      else if map_of (rs_headers r) ''Content-Length'' = None then readIndefiniteContent N s (rs_content r)
      else if rs_contentLength r \<noteq> 0 then readFixedContent N s (rs_content r) (rs_contentLength r)
      else retp (True, rs_content r))"

text \<open>The part of the response behind the status line, with the socket closed where it fails.\<close>

definition read_response ::
    "'w net \<Rightarrow> nat \<Rightarrow> nat \<Rightarrow> response_t \<Rightarrow> ('w, response_t option) http_prog" where
  "read_response N i d r =
     bnd (netp (read_headers N d (rs_headers r))) (\<lambda>(ok, hdrs).
     if \<not> ok then sq (http_close N i) (retp None)
     else bnd (liftp (header_fields (r\<lparr>rs_headers := hdrs\<rparr>))) (\<lambda>r.
       bnd (netp (read_content N d r)) (\<lambda>(ok, body).
       if \<not> ok then sq (http_close N i) (retp None)
       else sq (whenp (rs_reconnect r) (http_close N i))
         (retp (Some (r\<lparr>rs_content := body\<rparr>))))))"

text \<open>
  One attempt after the other; the number counts the retries that are left.  A failed \<open>write\<close>
  and a failed read of the status line are retried, a timeout is not.
\<close>

definition attempt ::
    "'w net \<Rightarrow> ('w, unit) http_prog \<Rightarrow> nat \<Rightarrow> string \<Rightarrow> ('w, response_t option) http_prog \<Rightarrow>
      ('w, response_t option) http_prog" where
  "attempt N cb i data retry =
     bnd (http_connect N cb i) (\<lambda>ok.
     if \<not> ok then retp None
     else bnd (getsp (slot i)) (\<lambda>s. case sock_fd s of
       None \<Rightarrow> sq (http_close N i) retry
     | Some d \<Rightarrow>
         bnd (netp (sock_write N d data)) (\<lambda>ok.
         if \<not> ok then sq (http_close N i) retry
         else bnd (getsp (\<lambda>s. mTimeout (fst s))) (\<lambda>t.
           if t < 0 then undefp
           else bnd (netp (n_select_read N d t)) (\<lambda>ret.
           if ret \<noteq> SelReady then sq (http_close N i) (retp None)
           else bnd (netp (readLine N d)) (\<lambda>(ok, status).
             if \<not> ok then sq (http_close N i) retry
             else bnd (liftp (scan_status status empty_response)) (\<lambda>r.
               read_response N i d r)))))))"

primrec request_attempts ::
    "'w net \<Rightarrow> ('w, unit) http_prog \<Rightarrow> nat \<Rightarrow> string \<Rightarrow> nat \<Rightarrow> ('w, response_t option) http_prog" where
  "request_attempts N cb i data 0 = attempt N cb i data (retp None)"
| "request_attempts N cb i data (Suc n) = attempt N cb i data (request_attempts N cb i data n)"

definition doRequest ::
    "'w net \<Rightarrow> ('w, unit) http_prog \<Rightarrow> request_t \<Rightarrow> ('w, response_t option) http_prog" where
  "doRequest N cb request =
     bnd (getsp (\<lambda>s. select_socket (fst s))) (\<lambda>(i, c').
     sq (modp (\<lambda>s. (c', snd s))) (case i of
       None \<Rightarrow> retp None
     | Some i \<Rightarrow>
         bnd (getsp (\<lambda>s. request_data (fst s) request)) (\<lambda>data.
         request_attempts N cb i data MAX_HTTP_RETRIES)))"

section \<open>The two calls\<close>

text \<open>Only a response with the code 200 is a value.  \<open>get\<close> does not send the headers it is given.\<close>

definition response_value :: "response_t option \<Rightarrow> string option" where
  "response_value r = (case r of
       None \<Rightarrow> None
     | Some r \<Rightarrow> if rs_code r \<noteq> 200 then None else Some (rs_content r))"

definition http_get ::
    "'w net \<Rightarrow> ('w, unit) http_prog \<Rightarrow> string \<Rightarrow> headers \<Rightarrow> ('w, string option) http_prog" where
  "http_get N cb pth hdrs =
     bnd (doRequest N cb (empty_request\<lparr>rq_method := ''GET'', rq_path := pth\<rparr>)) (\<lambda>r.
     retp (response_value r))"

definition http_post ::
    "'w net \<Rightarrow> ('w, unit) http_prog \<Rightarrow> string \<Rightarrow> headers \<Rightarrow> string \<Rightarrow> ('w, string option) http_prog" where
  "http_post N cb pth hdrs content =
     bnd (doRequest N cb (empty_request\<lparr>rq_method := ''POST'', rq_path := pth, rq_headers := hdrs,
        rq_content := content\<rparr>)) (\<lambda>r.
     retp (response_value r))"

section \<open>Laws of the parts\<close>

text \<open>A header line of a server, and the key and the value it is read as.\<close>

definition print_header :: "string \<times> string \<Rightarrow> string" where
  "print_header h = fst h @ '': '' @ snd h @ CRLF"

definition header_ok :: "string \<times> string \<Rightarrow> bool" where
  "header_ok h \<longleftrightarrow> CHR '':'' \<notin> set (fst h) \<and> CHR 0x0A \<notin> set (fst h) \<and> CHR 0x0A \<notin> set (snd h) \<and>
     snd h \<noteq> [] \<and> \<not> is_trim (hd (snd h)) \<and> \<not> is_trim (last (snd h))"

definition put_headers :: "headers \<Rightarrow> headers \<Rightarrow> headers" where
  "put_headers hs m = fold (\<lambda>(k, v). smap_put k v) hs m"

lemma is_trim_chars [simp]:
  "is_trim CHR 0x0D" "is_trim CHR 0x0A" "is_trim CHR '' ''" "\<not> is_trim CHR '':''"
  by (simp_all add: is_trim_def)

lemma parseHeaderLine_print:
  assumes "header_ok h"
  shows "parseHeaderLine (print_header h) m = Ret (True, smap_put (fst h) (snd h) m)"
proof -
  obtain k v where h: "h = (k, v)" by fastforce
  let ?l = "k @ '': '' @ v @ CRLF"
  have k: "CHR '':'' \<notin> set k" and v: "v \<noteq> []" "\<not> is_trim (hd v)" "\<not> is_trim (last v)"
    using assms by (simp_all add: header_ok_def h)
  have n: "str_find_char_from CHR '':'' ?l 0 = Some (length k)"
    using str_find_char_from_append [OF k, of "[]" "'' '' @ v @ CRLF"] by simp
  have d1: "find_first_not_trim ?l (length k + 1) = Some (length k + 2)"
    using v by (cases v) (simp_all add: find_first_not_trim_def CRLF_def)
  obtain v' where v': "v = v' @ [last v]" using v(1) by (metis append_butlast_last_id)
  have "rev ?l = [CHR 0x0A, CHR 0x0D] @ last v # rev (k @ '': '' @ v')"
    by (subst (1) v') (simp add: CRLF_def)
  then have "find_index (\<lambda>c. \<not> is_trim c) (rev ?l) = Some 2"
    using v(3) by simp
  then have d2: "find_last_not_trim ?l = Some (length k + length v + 1)"
    using v(1) by (simp add: find_last_not_trim_def CRLF_def)
  have "str_substr ?l (length k + 2) (length k + length v + 1 + 1 - (length k + 2)) = Ret v"
    by (simp add: str_substr_def)
  then show ?thesis
    by (simp add: parseHeaderLine_def print_header_def h n [simplified] d1 [simplified] d2 [simplified] Let_def)
qed

lemma ends_CRLF_append [simp]: "ends_CRLF (l @ CRLF)"
  by (simp add: ends_CRLF_def CRLF_def nth_append)

lemma ends_CRLF_CRLF [simp]: "ends_CRLF CRLF"
  using ends_CRLF_append [of "[]"] by simp

text \<open>The status line.\<close>

definition print_status :: "nat \<Rightarrow> string \<Rightarrow> string" where
  "print_status code reason = ''HTTP/1.1 '' @ nat_to_string code @ '' '' @ reason @ CRLF"

lemma is_space_chars [simp]:
  "is_space CHR '' ''" "is_space CHR 0x0D" "is_space CHR 0x0A" "\<not> is_space CHR ''H''"
  "\<not> is_space CHR ''T''" "\<not> is_space CHR ''P''" "\<not> is_space CHR ''/''" "\<not> is_space CHR ''1''"
  "\<not> is_space CHR ''.''"
  by (simp_all add: is_space_def)

lemma digit_facts:
  "is_digit c \<Longrightarrow> \<not> is_space c \<and> c \<noteq> CHR ''-'' \<and> c \<noteq> CHR ''+'' \<and> c \<noteq> CHR 0x00"
  by (auto simp: is_digit_def char_digit_def is_space_def Let_def split: if_splits)

lemma nat_to_string_is_digit: "c \<in> set (nat_to_string n) \<Longrightarrow> is_digit c"
  using nat_to_string_digits by (auto simp: is_digit_def)

lemma scan_int_nat:
  assumes "n < 2 ^ 31"
  shows "scan_int (CHR '' '' # nat_to_string n @ CHR '' '' # r) = Ret (Some (int n))"
proof -
  obtain a ds where ds: "nat_to_string n = a # ds" by (cases "nat_to_string n") auto
  have digits: "\<forall>c \<in> set (nat_to_string n). is_digit c"
    using nat_to_string_is_digit by blast
  then have "\<not> is_space a" "a \<noteq> CHR ''-''" "a \<noteq> CHR ''+''"
    using digit_facts [of a] by (simp_all add: ds)
  then have "split_sign (dropWhile is_space (CHR '' '' # nat_to_string n @ CHR '' '' # r)) =
      (False, nat_to_string n @ CHR '' '' # r)"
    by (simp add: split_sign_def ds)
  moreover have "\<not> is_digit CHR '' ''" by (simp add: is_digit_def char_digit_def)
  then have "takeWhile is_digit (nat_to_string n @ CHR '' '' # r) = nat_to_string n"
    using digits by (simp add: takeWhile_append)
  ultimately show ?thesis
    using assms by (simp add: scan_int_def digits_value_nat_to_string in_i32_def Let_def)
qed

lemma scan_status_print:
  assumes "code < 2 ^ 31" and "CHR 0x00 \<notin> set reason"
  shows "scan_status (print_status code reason) r =
    Ret (r\<lparr>rs_version := ''HTTP/1.1'', rs_code := int code\<rparr>)"
proof -
  let ?rest = "CHR '' '' # nat_to_string code @ CHR '' '' # (reason @ CRLF)"
  have "CHR 0x00 \<notin> set (nat_to_string code)"
    using nat_to_string_is_digit digit_facts by blast
  then have "CHR 0x00 \<notin> set (print_status code reason)"
    using assms(2) by (simp add: print_status_def CRLF_def)
  then have "takeWhile (\<lambda>c. c \<noteq> CHR 0x00) (print_status code reason) = ''HTTP/1.1'' @ ?rest"
    by (auto simp: takeWhile_eq_all_conv print_status_def)
  moreover have "takeWhile (\<lambda>c. \<not> is_space c) (''HTTP/1.1'' @ ?rest) = ''HTTP/1.1''"
    by simp
  ultimately show ?thesis
    using scan_int_nat [OF assms(1), of "reason @ CRLF"] by (simp add: scan_status_def)
qed

section \<open>A response read back\<close>

text \<open>The three ways the end of a body is marked, with the header line and the text of each.\<close>

datatype framing = By_length | By_chunks "string list" | By_close

definition framing_headers :: "framing \<Rightarrow> string \<Rightarrow> headers" where
  "framing_headers fr body = (case fr of
       By_length \<Rightarrow> [(''Content-Length'', nat_to_string (length body))]
     | By_chunks cs \<Rightarrow> [(''Transfer-Encoding'', ''chunked'')]
     | By_close \<Rightarrow> [])"

definition framing_text :: "framing \<Rightarrow> string \<Rightarrow> string" where
  "framing_text fr body = (case fr of By_chunks cs \<Rightarrow> encode_chunks cs | _ \<Rightarrow> body)"

definition framing_ok :: "framing \<Rightarrow> string \<Rightarrow> string \<Rightarrow> bool" where
  "framing_ok fr body rest = (case fr of
       By_length \<Rightarrow> length body < 2 ^ 31
     | By_chunks cs \<Rightarrow> concat cs = body \<and> (\<forall>c \<in> set cs. c \<noteq> [] \<and> length c < 2 ^ 31)
     | By_close \<Rightarrow> rest = [])"

definition print_response :: "nat \<Rightarrow> string \<Rightarrow> headers \<Rightarrow> framing \<Rightarrow> string \<Rightarrow> string" where
  "print_response code reason hs fr body =
     print_status code reason @ concat (map print_header (hs @ framing_headers fr body)) @ CRLF
     @ framing_text fr body"

definition reserved :: "string list" where
  "reserved = [''Content-Length'', ''Transfer-Encoding'']"

lemma read_headers_keeps:
  "read_headers N s m w = Some x \<Longrightarrow> \<forall>n. keeps P (n_recv N s n) \<Longrightarrow> P w \<Longrightarrow> P (snd x)"
proof (induction N s m w x rule: read_headers.raw_induct [rotated, consumes 1, case_names step])
  case (step f N s m w x)
  have rec: "keeps P (f N s l)" for l
    unfolding keeps_def using step(1) step(3) by (metis snd_conv)
  show ?case
    using step(2,4) by (rule keeps_Some [rotated]) (intro keeps_intros rec step(3) [rule_format])
qed

lemma keeps_read_headers [keeps_intros]:
  "(\<And>n. keeps P (n_recv N s n)) \<Longrightarrow> keeps P (read_headers N s m)"
  unfolding keeps_def using read_headers_keeps by (metis snd_conv keeps_def)

lemma keeps_read_content [keeps_intros]:
  "(\<And>n. keeps P (n_recv N s n)) \<Longrightarrow> keeps P (read_content N s r)"
  unfolding read_content_def by (intro keeps_intros)

context stream_socket
begin

lemma read_headers_returns:
  "\<lbrakk>pending w = concat (map print_header hs) @ CRLF @ p; \<forall>h \<in> set hs. header_ok h\<rbrakk> \<Longrightarrow>
    \<exists>w'. read_headers N s m w = Some (Ret (True, put_headers hs m), w') \<and> pending w' = p"
proof (induction hs arbitrary: w m)
  case Nil
  then obtain w' where "readLine N s w = Some (Ret (True, CRLF), w')" "pending w' = p"
    using readLine_CRLF [of w "[]" p] by auto
  then show ?case
    by (subst read_headers.simps) (simp add: prog_runs put_headers_def CRLF_def ends_CRLF_def)
next
  case (Cons h hs)
  let ?l = "fst h @ '': '' @ snd h"
  have ok: "header_ok h" using Cons.prems by simp
  have "pending w = ?l @ CRLF @ concat (map print_header hs) @ CRLF @ p"
    using Cons.prems(1) by (simp add: print_header_def [of h])
  moreover have "CHR 0x0A \<notin> set ?l" using ok by (simp add: header_ok_def)
  ultimately obtain w1 where w1: "readLine N s w = Some (Ret (True, print_header h), w1)"
    "pending w1 = concat (map print_header hs) @ CRLF @ p"
    using readLine_CRLF [of w ?l "concat (map print_header hs) @ CRLF @ p"]
    by (auto simp: print_header_def [of h])
  have crlf: "ends_CRLF (print_header h)"
    using ends_CRLF_append [of ?l] by (simp add: print_header_def)
  have "length (print_header h) \<noteq> 2" by (simp add: print_header_def CRLF_def)
  then have "read_headers N s m w = read_headers N s (smap_put (fst h) (snd h) m) w1"
    by (subst read_headers.simps)
      (simp add: prog_runs w1(1) crlf parseHeaderLine_print [OF ok])
  moreover from Cons.IH [OF w1(2), of "smap_put (fst h) (snd h) m"] Cons.prems(2)
  obtain w' where "read_headers N s (smap_put (fst h) (snd h) m) w1 =
      Some (Ret (True, put_headers hs (smap_put (fst h) (snd h) m)), w')" "pending w' = p" by auto
  ultimately show ?case by (simp add: put_headers_def split_beta)
qed

end

lemma map_of_put_headers:
  "smap_ok m \<Longrightarrow> k \<notin> fst ` set hs \<Longrightarrow> map_of (put_headers hs m) k = map_of m k"
proof (induction hs arbitrary: m)
  case (Cons h hs)
  then show ?case
    by (cases h) (simp add: put_headers_def smap_ok_put map_of_smap_put)
qed (simp add: put_headers_def)

lemma smap_ok_put_headers: "smap_ok m \<Longrightarrow> smap_ok (put_headers hs m)"
  by (induction hs arbitrary: m) (simp_all add: put_headers_def smap_ok_put split_beta)

lemma put_headers_append: "put_headers (hs @ hs') m = put_headers hs' (put_headers hs m)"
  by (simp add: put_headers_def)

section \<open>The whole exchange\<close>

text \<open>A client whose first socket is connected through a descriptor.\<close>

definition slot_open :: "nat \<Rightarrow> http_client \<Rightarrow> bool" where
  "slot_open d c \<longleftrightarrow> mSockets c \<noteq> [] \<and>
     mSockets c ! 0 = \<lparr>sock_fd = Some d, sock_closed = Some False, sock_locked = False\<rparr> \<and> 0 \<le> mTimeout c"

lemma select_socket_first:
  assumes "mSockets c \<noteq> []" "\<not> sock_locked (mSockets c ! 0)"
  shows "select_socket c = (Some 0, c)"
proof -
  obtain s ss where ss: "mSockets c = s # ss" using assms(1) by (cases "mSockets c") auto
  with assms(2) show ?thesis
    by (simp add: select_socket_def try_lock_socket_def unlock_socket_def)
qed

lemma framing_headers_ok:
  assumes hs: "\<forall>h \<in> set hs. header_ok h \<and> fst h \<notin> set reserved"
  shows "\<forall>h \<in> set (hs @ framing_headers fr body). header_ok h"
proof -
  have "header_ok (''Content-Length'', nat_to_string n)" for n
  proof -
    have ns: "\<not> is_trim x \<and> x \<noteq> CHR 0x0A" if "x \<in> set (nat_to_string n)" for x
      using nat_to_string_is_digit [OF that]
      by (auto simp: is_digit_def char_digit_def is_trim_def Let_def split: if_splits)
    have "hd (nat_to_string n) \<in> set (nat_to_string n)" "last (nat_to_string n) \<in> set (nat_to_string n)"
      by (simp_all add: hd_in_set last_in_set)
    with ns show ?thesis by (auto simp: header_ok_def)
  qed
  moreover have "header_ok (''Transfer-Encoding'', ''chunked'')"
    by (simp add: header_ok_def is_trim_def)
  ultimately show "\<forall>h \<in> set (hs @ framing_headers fr body). header_ok h"
    using hs by (auto simp: framing_headers_def split: framing.splits)
qed

text \<open>What the response fields are computed from.\<close>

lemma framing_fields:
  assumes "framing_ok fr body rest" "\<forall>h \<in> set hs. fst h \<notin> set reserved"
    "hdr = put_headers (hs @ framing_headers fr body) []"
  shows "header_fields (r\<lparr>rs_headers := hdr\<rparr>) = Ret (r\<lparr>rs_headers := hdr,
      rs_contentLength := (if fr = By_length then length body else 0),
      rs_reconnect := (getHeaderValue hdr ''Connection'' [] = ''close''),
      rs_chunked := (\<exists>cs. fr = By_chunks cs)\<rparr>)"
    and "map_of hdr ''Content-Length'' = None \<longleftrightarrow> fr \<noteq> By_length"
proof -
  let ?m = "put_headers hs []"
  have ok: "smap_ok ?m" by (rule smap_ok_put_headers) simp
  have "map_of ?m k = None" if "k \<in> set reserved" for k
    using map_of_put_headers [of "[]" k hs] assms(2) that by auto
  then have CL: "map_of ?m ''Content-Length'' = None" and TE: "map_of ?m ''Transfer-Encoding'' = None"
    by (simp_all add: reserved_def)
  have hdr: "hdr = put_headers (framing_headers fr body) ?m"
    by (simp add: assms(3) put_headers_append)
  have zero: "stoi ''0'' = Ret 0"
    using stoi_nat_to_string [of 0] by (simp add: nat_to_string.simps)
  show "map_of hdr ''Content-Length'' = None \<longleftrightarrow> fr \<noteq> By_length"
    using ok CL TE by (cases fr)
      (simp_all add: hdr framing_headers_def put_headers_def map_of_smap_put)
  show "header_fields (r\<lparr>rs_headers := hdr\<rparr>) = Ret (r\<lparr>rs_headers := hdr,
      rs_contentLength := (if fr = By_length then length body else 0),
      rs_reconnect := (getHeaderValue hdr ''Connection'' [] = ''close''),
      rs_chunked := (\<exists>cs. fr = By_chunks cs)\<rparr>)"
  proof (cases fr)
    case By_length
    with assms(1) have "stoi (nat_to_string (length body)) = Ret (int (length body))"
      by (intro stoi_nat_to_string) (simp add: framing_ok_def)
    moreover have "nat (int (length body) mod 2 ^ 64) = length body"
      using assms(1) By_length by (simp add: framing_ok_def)
    ultimately show ?thesis
      using By_length ok CL TE
      by (simp add: header_fields_def getHeaderValue_def hdr framing_headers_def put_headers_def
        map_of_smap_put)
  next
    case (By_chunks cs)
    with ok CL TE zero show ?thesis
      by (simp add: header_fields_def getHeaderValue_def hdr framing_headers_def put_headers_def
        map_of_smap_put)
  next
    case By_close
    with ok CL TE zero show ?thesis
      by (simp add: header_fields_def getHeaderValue_def hdr framing_headers_def put_headers_def
        map_of_smap_put)
  qed
qed

context http_channel
begin

lemma keeps_recv: "keeps (\<lambda>w. sent w = x) (n_recv N s n)"
  using recv_sent by (auto simp: keeps_def)

lemma sent_keeps: "keeps (\<lambda>w. sent w = sent v) m \<Longrightarrow> m v = Some (r, w') \<Longrightarrow> sent w' = sent v"
  by (drule keepsD [of _ m v]) simp_all

lemma close_returns:
  assumes "mSockets c ! i = \<lparr>sock_fd = Some s, sock_closed = cl, sock_locked = l\<rparr>"
  shows "\<exists>w'. http_close N i (c, w) =
      Some (Ret (), (c\<lparr>mSockets := (mSockets c)[i := (mSockets c ! i)\<lparr>sock_closed := Some True\<rparr>]\<rparr>, w'))
    \<and> pending w' = pending w \<and> sent w' = sent w"
  using destroy_returns [of w] assms
  by (auto simp: http_close_def slot_def netp_runs upd_slot_def)

lemma read_content_returns:
  assumes "framing_ok fr body rest" "pending w = framing_text fr body @ rest"
    "rs_content r = []" "rs_chunked r \<longleftrightarrow> (\<exists>cs. fr = By_chunks cs)"
    "rs_contentLength r = (if fr = By_length then length body else 0)"
    "map_of (rs_headers r) ''Content-Length'' = None \<longleftrightarrow> fr \<noteq> By_length"
  shows "\<exists>w'. read_content N s r w = Some (Ret (True, body), w') \<and> pending w' = rest"
proof (cases fr)
  case By_length
  show ?thesis
  proof (cases "body = []")
    case True
    with By_length assms show ?thesis by (auto simp: read_content_def framing_text_def)
  next
    case False
    with By_length assms show ?thesis
      using readFixed_returns [of "length body" "[]" w]
      by (auto simp: read_content_def framing_ok_def framing_text_def)
  qed
next
  case (By_chunks cs)
  with assms show ?thesis
    using readChunked_returns [of w cs rest "[]"]
    by (simp add: read_content_def framing_ok_def framing_text_def)
next
  case By_close
  with assms show ?thesis
    using readIndefinite_returns [of "[]" w]
    by (simp add: read_content_def framing_ok_def framing_text_def)
qed

lemma read_response_returns:
  assumes "pending w = concat (map print_header (hs @ framing_headers fr body)) @ CRLF
      @ framing_text fr body @ rest"
    and hs: "\<forall>h \<in> set hs. header_ok h \<and> fst h \<notin> set reserved"
    and fr: "framing_ok fr body rest"
    and slot: "mSockets c ! 0 = \<lparr>sock_fd = Some s, sock_closed = Some False, sock_locked = l\<rparr>"
    and r: "rs_headers r = []" "rs_content r = []"
  shows "\<exists>r' c' w'. read_response N 0 s r (c, w) = Some (Ret (Some r'), (c', w')) \<and>
    rs_code r' = rs_code r \<and> rs_content r' = body \<and>
    rs_headers r' = put_headers (hs @ framing_headers fr body) [] \<and> pending w' = rest \<and>
    sent w' = sent w"
proof -
  let ?hdr = "put_headers (hs @ framing_headers fr body) []"
  from framing_headers_ok have "\<forall>h \<in> set (hs @ framing_headers fr body). header_ok h"
    using hs by blast
  with read_headers_returns [of w "hs @ framing_headers fr body" "framing_text fr body @ rest" "[]"]
  obtain w1 where w1: "read_headers N s [] w = Some (Ret (True, ?hdr), w1)"
    "pending w1 = framing_text fr body @ rest" using assms(1) by auto
  from framing_fields(1) [OF fr _ refl, of hs r] framing_fields(2) [OF fr _ refl, of hs] hs obtain r1 where r1:
    "header_fields (r\<lparr>rs_headers := ?hdr\<rparr>) = Ret r1" "rs_code r1 = rs_code r" "rs_content r1 = []"
    "rs_headers r1 = ?hdr" "rs_chunked r1 \<longleftrightarrow> (\<exists>cs. fr = By_chunks cs)"
    "rs_contentLength r1 = (if fr = By_length then length body else 0)"
    "map_of (rs_headers r1) ''Content-Length'' = None \<longleftrightarrow> fr \<noteq> By_length"
    using r by simp
  from read_content_returns [OF fr w1(2) r1(3,5,6,7)] obtain w2 where
    w2: "read_content N s r1 w1 = Some (Ret (True, body), w2)" "pending w2 = rest" by blast
  have "sent w1 = sent w" "sent w2 = sent w1"
    using sent_keeps [OF keeps_read_headers [OF keeps_recv] w1(1)]
      sent_keeps [OF keeps_read_content [OF keeps_recv] w2(1)] by auto
  moreover obtain c3 w3 where w3: "whenp (rs_reconnect r1) (http_close N 0) (c, w2) = Some (Ret (), (c3, w3))"
    "pending w3 = rest" "sent w3 = sent w2"
    using close_returns [OF slot, of w2] w2(2) by (cases "rs_reconnect r1") auto
  moreover have "read_response N 0 s r (c, w) = Some (Ret (Some (r1\<lparr>rs_content := body\<rparr>)), (c3, w3))"
    by (simp add: read_response_def r netp_runs w1(1) r1(1) w2(1) prog_runs w3(1))
  ultimately show ?thesis using r1 w3(2,3) by simp
qed

text \<open>A request on an open connection: the response of the peer comes back.\<close>

lemma attempt_returns:
  assumes con: "http_connect N cb 0 (c0, w0) = Some (Ret True, (c, w))"
    and c: "slot_open s c"
    and p: "pending w = print_response code reason hs fr body @ rest"
    and hs: "\<forall>h \<in> set hs. header_ok h \<and> fst h \<notin> set reserved"
    and fr: "framing_ok fr body rest"
    and code: "code < 2 ^ 31" "CHR 0x00 \<notin> set reason" "CHR 0x0A \<notin> set reason"
  shows "\<exists>r' c' w'. attempt N cb 0 data retry (c0, w0) = Some (Ret (Some r'), (c', w')) \<and>
    rs_code r' = int code \<and> rs_content r' = body \<and>
    rs_headers r' = put_headers (hs @ framing_headers fr body) [] \<and> pending w' = rest \<and>
    sent w' = sent w @ data"
proof -
  let ?body = "concat (map print_header (hs @ framing_headers fr body)) @ CRLF @ framing_text fr body @ rest"
  let ?status = "print_status code reason"
  from c have sl: "mSockets c ! 0 = \<lparr>sock_fd = Some s, sock_closed = Some False, sock_locked = False\<rparr>"
    and t: "0 \<le> mTimeout c" by (simp_all add: slot_open_def)
  from sock_write_returns [of data w] obtain w1 where
    w1: "sock_write N s data w = Some (Ret True, w1)" "pending w1 = pending w" "sent w1 = sent w @ data" by blast
  have "pending w1 \<noteq> []" using p w1(2) by (simp add: print_response_def print_status_def)
  from select_ready [OF this, of "mTimeout c"] obtain w2 where
    w2: "n_select_read N s (mTimeout c) w1 = Some (Ret SelReady, w2)" "pending w2 = pending w1" "sent w2 = sent w1"
    by blast
  have "CHR 0x0A \<notin> set (''HTTP/1.1 '' @ nat_to_string code @ '' '' @ reason)"
    using code(3) nat_to_string_is_digit [of "CHR 0x0A" code]
    by (auto simp: is_digit_def char_digit_def)
  with readLine_CRLF [of w2 "''HTTP/1.1 '' @ nat_to_string code @ '' '' @ reason" ?body] p w1(2) w2(2)
  obtain w3 where w3: "readLine N s w2 = Some (Ret (True, ?status), w3)" "pending w3 = ?body"
    by (auto simp: print_response_def print_status_def)
  have "sent w3 = sent w2" by (rule sent_keeps [OF keeps_readLine [OF keeps_recv] w3(1)])
  then have sent: "sent w3 = sent w @ data" using w1(3) w2(3) by simp
  have scan: "scan_status ?status empty_response =
      Ret (empty_response\<lparr>rs_version := ''HTTP/1.1'', rs_code := int code\<rparr>)"
    by (rule scan_status_print [OF code(1,2)])
  have run: "attempt N cb 0 data retry (c0, w0) =
      read_response N 0 s (empty_response\<lparr>rs_version := ''HTTP/1.1'', rs_code := int code\<rparr>) (c, w3)"
    using t by (simp add: attempt_def prog_runs con slot_def sl netp_runs w1(1) w2(1) w3(1) scan)
  show ?thesis
    unfolding run
    using read_response_returns [OF w3(2) hs fr sl,
      of "empty_response\<lparr>rs_version := ''HTTP/1.1'', rs_code := int code\<rparr>"]
    by (simp add: empty_response_def sent)
qed

end

lemma connect_open: "slot_open d c \<Longrightarrow> http_connect N cb 0 (c, w) = Some (Ret True, (c, w))"
  by (simp add: http_connect_def slot_def slot_open_def)

lemma slot_open_select: "slot_open d c \<Longrightarrow> select_socket c = (Some 0, c)"
  by (simp add: select_socket_first slot_open_def)

context http_channel
begin

lemma post_returns:
  assumes "slot_open s c"
    and "pending w = print_response code reason hs fr body @ rest"
    and "\<forall>h \<in> set hs. header_ok h \<and> fst h \<notin> set reserved"
    and "framing_ok fr body rest"
    and "code < 2 ^ 31" and "CHR 0x00 \<notin> set reason" and "CHR 0x0A \<notin> set reason"
  shows "\<exists>c' w'. http_post N cb pth hdrs content (c, w) =
      Some (Ret (if code = 200 then Some body else None), (c', w')) \<and>
    pending w' = rest \<and>
    sent w' = sent w @ request_data c
      (empty_request\<lparr>rq_method := ''POST'', rq_path := pth, rq_headers := hdrs, rq_content := content\<rparr>)"
proof -
  let ?rq = "empty_request\<lparr>rq_method := ''POST'', rq_path := pth, rq_headers := hdrs, rq_content := content\<rparr>"
  from attempt_returns [OF connect_open [OF assms(1)] assms, of cb "request_data c ?rq"
      "attempt N cb 0 (request_data c ?rq) (retp None)"]
  obtain r' c' w' where r': "request_attempts N cb 0 (request_data c ?rq) MAX_HTTP_RETRIES (c, w) =
      Some (Ret (Some r'), (c', w'))" "rs_code r' = int code" "rs_content r' = body"
    "pending w' = rest" "sent w' = sent w @ request_data c ?rq"
    by (auto simp: MAX_HTTP_RETRIES_def)
  have "doRequest N cb ?rq (c, w) = Some (Ret (Some r'), (c', w'))"
    by (simp add: doRequest_def slot_open_select [OF assms(1)] r'(1))
  with r' show ?thesis
    by (simp add: http_post_def prog_runs response_value_def)
qed

end

text \<open>A closed first socket is connected again by the peer, through the descriptor 7.\<close>

definition reconnected :: "http_client \<Rightarrow> http_client" where
  "reconnected c = c\<lparr>mSockets := (mSockets c)[0 := \<lparr>sock_fd = Some 7, sock_closed = Some False, sock_locked = False\<rparr>],
     mLocalHost := (if mLocalHost c = [] then ''10.0.0.1'' else mLocalHost c)\<rparr>"

lemma connect_peer:
  assumes "mSockets c \<noteq> []" "mSockets c ! 0 = \<lparr>sock_fd = f, sock_closed = Some True, sock_locked = False\<rparr>"
    "refused w = 0"
  shows "http_connect peer_net (retp ()) 0 (c, w) =
    Some (Ret True, (reconnected c, w\<lparr>incoming := concat (take 1 (later w)), later := tl (later w)\<rparr>))"
proof -
  obtain s ss where "mSockets c = s # ss" using assms(1) by (cases "mSockets c") auto
  with assms show ?thesis
    by (simp add: http_connect_def slot_def peer_net_def netp_runs upd_slot_def setNonBlock_def
        try_connect_def cache_local_host_def reconnected_def prog_runs netp_run split: option.splits)
qed

section \<open>What requests keep\<close>

text \<open>A property of the world that every socket call keeps is kept by every request.\<close>

definition net_keeps :: "('w \<Rightarrow> bool) \<Rightarrow> 'w net \<Rightarrow> bool" where
  "net_keeps Q N \<longleftrightarrow> (\<forall>d n. keeps Q (n_recv N d n)) \<and> (\<forall>d b. keeps Q (n_send N d b)) \<and>
     keeps Q (n_create N) \<and> (\<forall>d. keeps Q (n_destroy N d)) \<and> (\<forall>d h p. keeps Q (n_connect N d h p)) \<and>
     (\<forall>d t. keeps Q (n_select_write N d t)) \<and> (\<forall>d t. keeps Q (n_select_read N d t)) \<and>
     (\<forall>d b. keeps Q (n_set_nonblock N d b)) \<and> (\<forall>d. keeps Q (n_local_host N d))"

lemma keeps_netp_snd: "keeps Q m \<Longrightarrow> keeps (\<lambda>s. Q (snd s)) (netp m)"
  by (rule keeps_netp) simp

lemma net_keepsD:
  assumes "net_keeps Q N"
  shows "keeps Q (n_recv N d n)" "keeps Q (n_send N d b)" "keeps Q (n_create N)"
    "keeps Q (n_destroy N d)" "keeps Q (n_connect N d h p)" "keeps Q (n_select_write N d t)"
    "keeps Q (n_select_read N d t)" "keeps Q (n_set_nonblock N d nb)" "keeps Q (n_local_host N d)"
  using assms by (simp_all add: net_keeps_def)

lemma keeps_connect_result [keeps_intros]:
  "keeps P a \<Longrightarrow> keeps P b \<Longrightarrow> keeps P c \<Longrightarrow>
    keeps P (case r of ConnOk \<Rightarrow> a | ConnInProgress \<Rightarrow> b | ConnFailed \<Rightarrow> c)"
  by (cases r) simp_all

lemma keeps_select_result [keeps_intros]:
  "keeps P a \<Longrightarrow> keeps P b \<Longrightarrow> keeps P c \<Longrightarrow>
    keeps P (case r of SelReady \<Rightarrow> a | SelTimeout \<Rightarrow> b | SelError \<Rightarrow> c)"
  by (cases r) simp_all

lemma keeps_upd_slot [keeps_intros]: "keeps (\<lambda>s. Q (snd s)) (modp (upd_slot i f))"
  by (simp add: keeps_def upd_slot_def)

lemma keeps_attempt:
  assumes N: "net_keeps Q N" and cb: "keeps (\<lambda>s. Q (snd s)) cb" and retry: "keeps (\<lambda>s. Q (snd s)) retry"
  shows "keeps (\<lambda>s. Q (snd s)) (attempt N cb i data retry)"
proof -
  note net = net_keepsD [OF N, THEN keeps_netp_snd] net_keepsD [OF N]
  have close: "keeps (\<lambda>s. Q (snd s)) (http_close N i)"
    unfolding http_close_def by (intro keeps_intros net)
  have nonblock: "keeps (\<lambda>s. Q (snd s)) (setNonBlock N i b)" for b
    unfolding setNonBlock_def by (intro keeps_intros net)
  have drop: "keeps (\<lambda>s. Q (snd s)) (drop_fd N i d)" for d
    unfolding drop_fd_def by (intro keeps_intros net)
  have tryc: "keeps (\<lambda>s. Q (snd s)) (try_connect N i d)" for d
    unfolding try_connect_def by (intro keeps_intros net drop)
  have cache: "keeps (\<lambda>s. Q (snd s)) (cache_local_host N d)" for d
    unfolding cache_local_host_def by (intro keeps_intros net keeps_modp) simp
  have connect: "keeps (\<lambda>s. Q (snd s)) (http_connect N cb i)"
    unfolding http_connect_def by (intro keeps_intros net nonblock tryc cache cb)
  have reading: "keeps (\<lambda>s. Q (snd s)) (netp (read_headers N d m))"
    "keeps (\<lambda>s. Q (snd s)) (netp (read_content N d r))" "keeps (\<lambda>s. Q (snd s)) (netp (readLine N d))"
    "keeps (\<lambda>s. Q (snd s)) (netp (sock_write N d b))" for d m r b
    by (intro keeps_netp_snd keeps_intros net)+
  have response: "keeps (\<lambda>s. Q (snd s)) (read_response N i d r)" for d r
    unfolding read_response_def by (intro keeps_intros reading close)
  show ?thesis
    unfolding attempt_def by (intro keeps_intros net connect close reading response retry)
qed

lemma keeps_doRequest:
  assumes "net_keeps Q N" "keeps (\<lambda>s. Q (snd s)) cb"
  shows "keeps (\<lambda>s. Q (snd s)) (doRequest N cb rq)"
proof -
  have "keeps (\<lambda>s. Q (snd s)) (request_attempts N cb i data n)" for i data n
    by (induction n) (simp_all add: keeps_attempt assms keeps_simple)
  then show ?thesis
    unfolding doRequest_def by (intro keeps_intros keeps_modp) simp
qed

lemma keeps_http_post:
  "net_keeps Q N \<Longrightarrow> keeps (\<lambda>s. Q (snd s)) cb \<Longrightarrow> keeps (\<lambda>s. Q (snd s)) (http_post N cb p h c)"
  unfolding http_post_def by (intro keeps_intros keeps_doRequest)

lemma net_keeps_on_world: "net_keeps (\<lambda>s. P (fst s)) (on_world N)"
  unfolding net_keeps_def by (simp add: keeps_netp_fst)

section \<open>Calls of the peer\<close>

lemma ends_netp [ends_intros]: "ends m \<Longrightarrow> ends (netp m)"
  unfolding netp_def by (intro ends_intros)

lemma peer_select: "n_select_read peer_net d t w = Some (Ret SelReady, w)"
  and peer_destroy: "n_destroy peer_net d w = Some (Ret (), w)"
  by (simp_all add: peer_net_def)

section \<open>Properties\<close>

text \<open>C6: a POST on an open connection sends exactly the request and gives back the body of the
  response when its code is 200 and nothing otherwise, for each of the three ways to mark the end of the body
  and however the response is cut into segments; the bytes behind the response stay unread.\<close>

theorem http_post_exchange:
  assumes "slot_open d c"
    and "concat (incoming w) = print_response code reason hs fr body @ rest"
    and "\<forall>h \<in> set hs. header_ok h \<and> fst h \<notin> set reserved"
    and "framing_ok fr body rest"
    and "code < 2 ^ 31" and "CHR 0x00 \<notin> set reason" and "CHR 0x0A \<notin> set reason"
  shows "\<exists>c' w'. http_post peer_net cb pth hdrs content (c, w) =
      Some (Ret (if code = 200 then Some body else None), (c', w')) \<and>
    concat (incoming w') = rest \<and>
    outgoing w' = outgoing w @ request_data c
      (empty_request\<lparr>rq_method := ''POST'', rq_path := pth, rq_headers := hdrs, rq_content := content\<rparr>)"
  by (rule peer.post_returns [OF assms])

definition sample_client :: http_client where
  "sample_client = \<lparr>mHostname = ''10.0.0.2'', mPort = 80, mPath = ''/api'', mServerAddress = Some (''10.0.0.2'', 80),
     mLocalHost = ''10.0.0.1'',
     mSockets = [\<lparr>sock_fd = Some 3, sock_closed = Some False, sock_locked = False\<rparr>], mTimeout = 20\<rparr>"

definition sample_peer :: "string list \<Rightarrow> string list list \<Rightarrow> peer" where
  "sample_peer segs ls = \<lparr>incoming = segs, later = ls, outgoing = [], window = 9, refused = 0\<rparr>"

lemma http_post_exchange_witness:
  "\<exists>c' w'. http_post peer_net (retp ()) ''/api'' [] ''{}''
      (sample_client, sample_peer [print_response 200 ''OK'' [(''Server'', ''PEAK'')] (By_chunks [''ab'', ''c'']) ''abc'', ''H''] []) =
      Some (Ret (Some ''abc''), (c', w')) \<and> concat (incoming w') = ''H''"
  using http_post_exchange [of 3 sample_client
      "sample_peer [print_response 200 ''OK'' [(''Server'', ''PEAK'')] (By_chunks [''ab'', ''c'']) ''abc'', ''H''] []"
      200 "''OK''" "[(''Server'', ''PEAK'')]" "By_chunks [''ab'', ''c'']" "''abc''" "''H''"
      "retp ()" "''/api''" "[]" "''{}''"]
  by (auto simp: slot_open_def sample_client_def sample_peer_def header_ok_def reserved_def framing_ok_def
    is_trim_def)

text \<open>C30: when the server has closed an idle connection, the request is sent once more on a new
  connection, and the response that comes there is the result; the server may have seen the request twice.\<close>

theorem http_post_retry:
  assumes "slot_open d c" and "incoming w = []" and "refused w = 0" and "later w = [segs]"
    and "concat segs = print_response code reason hs fr body @ rest"
    and "\<forall>h \<in> set hs. header_ok h \<and> fst h \<notin> set reserved"
    and "framing_ok fr body rest"
    and "code < 2 ^ 31" and "CHR 0x00 \<notin> set reason" and "CHR 0x0A \<notin> set reason"
    and "request = request_data c
      (empty_request\<lparr>rq_method := ''POST'', rq_path := pth, rq_headers := hdrs, rq_content := content\<rparr>)"
  shows "\<exists>c' w'. http_post peer_net (retp ()) pth hdrs content (c, w) =
      Some (Ret (if code = 200 then Some body else None), (c', w')) \<and>
    outgoing w' = outgoing w @ request @ request"
proof -
  obtain s0 ss where ss: "mSockets c = s0 # ss"
    "s0 = \<lparr>sock_fd = Some d, sock_closed = Some False, sock_locked = False\<rparr>" "0 \<le> mTimeout c"
    using assms(1) by (cases "mSockets c") (auto simp: slot_open_def)
  let ?c1 = "c\<lparr>mSockets := s0\<lparr>sock_closed := Some True\<rparr> # ss\<rparr>"
  obtain w1 where w1: "sock_write peer_net d request w = Some (Ret True, w1)"
    "outgoing w1 = outgoing w @ request" "concat (incoming w1) = []"
    using peer.sock_write_returns [of d request w] assms(2) by auto
  obtain w2 where w2: "readLine peer_net d w1 = Some (Ret (False, []), w2)"
    using peer.readLine_returns [of d w1] w1(3) by auto
  have "later w2 = [segs] \<and> refused w2 = 0" "outgoing w2 = outgoing w1"
    using keepsD [OF keeps_sock_write [OF peer_keeps_later(2)] _ w1(1)]
      keepsD [OF keeps_readLine [OF peer_keeps_later(1)] _ w2] assms(3,4)
      peer.sent_keeps [OF keeps_readLine [OF peer.keeps_recv] w2] by auto
  moreover define w3 where "w3 = w2\<lparr>incoming := segs, later := []\<rparr>"
  ultimately have con: "http_connect peer_net (retp ()) 0 (?c1, w2) = Some (Ret True, (reconnected ?c1, w3))"
    and out: "outgoing w3 = outgoing w @ request"
    using connect_peer [of ?c1 "Some d" w2] w1(2) ss by auto
  have c2: "slot_open 7 (reconnected ?c1)" using ss by (simp add: slot_open_def reconnected_def)
  have seg: "concat (incoming w3) = print_response code reason hs fr body @ rest"
    using assms(5) by (simp add: w3_def)
  from peer.attempt_returns [OF con c2 seg assms(6-10), of request "retp None"] out
  obtain r' c' w' where r': "attempt peer_net (retp ()) 0 request (retp None) (?c1, w2) =
      Some (Ret (Some r'), (c', w'))" "rs_code r' = int code" "rs_content r' = body"
    "outgoing w' = outgoing w @ request @ request" by auto
  have "request_attempts peer_net (retp ()) 0 request (Suc 0) (c, w) = Some (Ret (Some r'), (c', w'))"
    using ss r'(1) w2
    by (simp add: attempt_def connect_open [OF assms(1)] prog_runs slot_def netp_runs w1(1) peer_select
        http_close_def upd_slot_def peer_destroy)
  then have "doRequest peer_net (retp ()) (empty_request\<lparr>rq_method := ''POST'', rq_path := pth,
      rq_headers := hdrs, rq_content := content\<rparr>) (c, w) = Some (Ret (Some r'), (c', w'))"
    by (simp add: doRequest_def slot_open_select [OF assms(1)] MAX_HTTP_RETRIES_def assms(11))
  with r' show ?thesis
    by (simp add: http_post_def prog_runs response_value_def)
qed

lemma http_post_retry_witness:
  "\<exists>c' w'. http_post peer_net (retp ()) ''/api'' [] ''{}''
      (sample_client, sample_peer [] [[print_response 404 ''Not Found'' [] By_length ''x'']]) =
      Some (Ret None, (c', w'))"
  using http_post_retry [of 3 sample_client
      "sample_peer [] [[print_response 404 ''Not Found'' [] By_length ''x'']]"
      "[print_response 404 ''Not Found'' [] By_length ''x'']" 404 "''Not Found''" "[]" By_length "''x''" "[]"
      _ "''{}''" "[]" "''/api''"]
  by (auto simp: slot_open_def sample_client_def sample_peer_def framing_ok_def)

text \<open>A request gives no protection to the socket it uses: as long as no socket is locked on entry, the lock
  is free again when the socket is chosen, so that a second request made meanwhile chooses the same socket.\<close>

lemma concurrent_requests_share_socket:
  assumes "mSockets c \<noteq> []" and "\<forall>s \<in> set (mSockets c). \<not> sock_locked s"
  shows "select_socket c = (Some 0, c) \<and> select_socket (snd (select_socket c)) = (Some 0, c)"
  using assms select_socket_first [of c] by simp

lemma concurrent_requests_share_socket_witness:
  "select_socket sample_client = (Some 0, sample_client) \<and>
   select_socket (snd (select_socket sample_client)) = (Some 0, sample_client)"
  by (rule concurrent_requests_share_socket) (simp_all add: sample_client_def)

end
