(* ===== verification/Dbl.thy ===== *)
theory Dbl
  imports Complex_Main Prelude
begin

text \<open>
  The floating-point values of the sources: \<open>double\<close>, and \<open>float\<close> where the samples of a
  spectrum are widened to \<open>double\<close>.

  A value is not-a-number, one of the two infinities, the negative zero, or a rational number
  (\<open>Fin 0\<close> is the positive zero).  An arithmetic operation computes the exact rational result
  and rounds it to the nearest representable number, ties to the even significand, with 53 bits
  of precision, gradual underflow at exponent -1074 and overflow to infinity at 2 to the 1024:
  the binary64 format in the default rounding mode.  Comparisons are false on not-a-number.
  The operations are instances of the type classes \<open>plus\<close>, \<open>minus\<close>, \<open>times\<close>,
  \<open>inverse\<close>, \<open>uminus\<close> and \<open>ord\<close>, so that formulas read as in the code.
\<close>

section \<open>Values\<close>

datatype dbl = NaN | PInf | NInf | NZero | Fin rat

fun dval :: "dbl \<Rightarrow> rat" where
  "dval (Fin a) = a"
| "dval _ = 0"

fun is_finite :: "dbl \<Rightarrow> bool" where
  "is_finite NZero = True"
| "is_finite (Fin a) = True"
| "is_finite _ = False"

section \<open>Rounding\<close>

text \<open>
  The computation is on integers, so that it can be evaluated: the fraction of a rational scaled by
  a power of two, the division rounded to the nearest integer with ties to even, and the number of
  binary digits.
\<close>

definition scale :: "int \<Rightarrow> rat \<Rightarrow> int \<times> int" where
  "scale e x = (let (p, q) = quotient_of x in
     if 0 \<le> e then (p, q * 2 ^ nat e) else (p * 2 ^ nat (- e), q))"

definition unscale :: "int \<Rightarrow> int \<Rightarrow> rat" where
  "unscale e m = (if 0 \<le> e then of_int (m * 2 ^ nat e) else Fract m (2 ^ nat (- e)))"

definition rne_div :: "int \<Rightarrow> int \<Rightarrow> int" where
  "rne_div n d = (let f = n div d; r = n mod d in
     if 2 * r < d \<or> 2 * r = d \<and> even f then f else f + 1)"

function blen :: "int \<Rightarrow> int" where
  "blen n = (if n \<le> 0 then 0 else 1 + blen (n div 2))"
  by pat_completeness auto
termination
  by (relation "measure nat") auto

declare blen.simps [simp del]

text \<open>The binary logarithm of a positive rational, rounded down.\<close>

definition flog2 :: "rat \<Rightarrow> int" where
  "flog2 x = (let (p, q) = quotient_of x; l = blen p - blen q; (n, d) = scale l x in
     if d \<le> n then l else l - 1)"

text \<open>The exponent of the last place, and the significand and exponent of the rounded value.\<close>

definition ulp_exp :: "rat \<Rightarrow> int" where
  "ulp_exp x = max (- 1074) (flog2 x - 52)"

definition significand :: "rat \<Rightarrow> int" where
  "significand x = (let (n, d) = scale (ulp_exp x) x in rne_div n d)"

definition round_pos :: "rat \<Rightarrow> rat" where
  "round_pos x = unscale (ulp_exp x) (significand x)"

definition overflows :: "rat \<Rightarrow> bool" where
  "overflows x \<longleftrightarrow> 971 < ulp_exp x \<or> ulp_exp x = 971 \<and> significand x = 2 ^ 53"

text \<open>The sign argument is the sign of a zero result.\<close>

definition rnd :: "bool \<Rightarrow> rat \<Rightarrow> dbl" where
  "rnd s x =
     (if x = 0 then (if s then NZero else Fin 0)
      else if 0 < x then (if overflows x then PInf else Fin (round_pos x))
      else if overflows (- x) then NInf
      else if significand (- x) = 0 then NZero else Fin (- round_pos (- x)))"

section \<open>Arithmetic\<close>

fun dneg :: "dbl \<Rightarrow> dbl" where
  "dneg NaN = NaN"
| "dneg PInf = NInf"
| "dneg NInf = PInf"
| "dneg NZero = Fin 0"
| "dneg (Fin a) = (if a = 0 then NZero else Fin (- a))"

fun dneg_sign :: "dbl \<Rightarrow> bool" where
  "dneg_sign NInf = True"
| "dneg_sign NZero = True"
| "dneg_sign (Fin a) = (a < 0)"
| "dneg_sign _ = False"

fun dadd :: "dbl \<Rightarrow> dbl \<Rightarrow> dbl" where
  "dadd NaN _ = NaN"
| "dadd _ NaN = NaN"
| "dadd PInf NInf = NaN"
| "dadd NInf PInf = NaN"
| "dadd PInf _ = PInf"
| "dadd _ PInf = PInf"
| "dadd NInf _ = NInf"
| "dadd _ NInf = NInf"
| "dadd NZero NZero = NZero"
| "dadd x y = rnd False (dval x + dval y)"

definition dmul :: "dbl \<Rightarrow> dbl \<Rightarrow> dbl" where
  "dmul x y =
     (let s = (dneg_sign x \<noteq> dneg_sign y) in
      if x = NaN \<or> y = NaN then NaN
      else if is_finite x \<and> is_finite y then rnd s (dval x * dval y)
      else if is_finite x \<and> dval x = 0 \<or> is_finite y \<and> dval y = 0 then NaN
      else if s then NInf else PInf)"

definition ddiv :: "dbl \<Rightarrow> dbl \<Rightarrow> dbl" where
  "ddiv x y =
     (let s = (dneg_sign x \<noteq> dneg_sign y) in
      if x = NaN \<or> y = NaN then NaN
      else if is_finite x \<and> is_finite y then
        (if dval y = 0 then (if dval x = 0 then NaN else if s then NInf else PInf)
         else rnd s (dval x / dval y))
      else if is_finite x then (if s then NZero else Fin 0)
      else if is_finite y then (if s then NInf else PInf)
      else NaN)"

text \<open>The order of the values, for the comparisons; not-a-number is excluded beforehand.\<close>

fun dlt :: "dbl \<Rightarrow> dbl \<Rightarrow> bool" where
  "dlt NaN _ = False"
| "dlt _ NaN = False"
| "dlt x PInf = (x \<noteq> PInf)"
| "dlt PInf _ = False"
| "dlt NInf y = (y \<noteq> NInf)"
| "dlt _ NInf = False"
| "dlt x y = (dval x < dval y)"

definition dle :: "dbl \<Rightarrow> dbl \<Rightarrow> bool" where
  "dle x y \<longleftrightarrow> x \<noteq> NaN \<and> y \<noteq> NaN \<and> \<not> dlt y x"

instantiation dbl :: "{plus, minus, uminus, times, inverse, ord, abs}"
begin

definition plus_dbl :: "dbl \<Rightarrow> dbl \<Rightarrow> dbl" where
  "plus_dbl = dadd"

definition uminus_dbl :: "dbl \<Rightarrow> dbl" where
  "uminus_dbl = dneg"

definition minus_dbl :: "dbl \<Rightarrow> dbl \<Rightarrow> dbl" where
  "minus_dbl x y = dadd x (dneg y)"

definition times_dbl :: "dbl \<Rightarrow> dbl \<Rightarrow> dbl" where
  "times_dbl = dmul"

definition divide_dbl :: "dbl \<Rightarrow> dbl \<Rightarrow> dbl" where
  "divide_dbl = ddiv"

definition inverse_dbl :: "dbl \<Rightarrow> dbl" where
  "inverse_dbl = ddiv (Fin 1)"

definition less_dbl :: "dbl \<Rightarrow> dbl \<Rightarrow> bool" where
  "less_dbl = dlt"

definition less_eq_dbl :: "dbl \<Rightarrow> dbl \<Rightarrow> bool" where
  "less_eq_dbl = dle"

definition abs_dbl :: "dbl \<Rightarrow> dbl" where
  "abs_dbl x = (if dneg_sign x then dneg x else x)"

instance ..

end

lemmas dbl_ops = plus_dbl_def minus_dbl_def uminus_dbl_def times_dbl_def divide_dbl_def inverse_dbl_def
  less_dbl_def less_eq_dbl_def abs_dbl_def

text \<open>The equality operator of the language: the two zeros are equal, not-a-number is not.\<close>

definition deq :: "dbl \<Rightarrow> dbl \<Rightarrow> bool" where
  "deq x y \<longleftrightarrow> x \<noteq> NaN \<and> y \<noteq> NaN \<and>
     (x = y \<or> is_finite x \<and> is_finite y \<and> dval x = dval y)"

section \<open>Conversions\<close>

definition dbl_of_int :: "int \<Rightarrow> dbl" where
  "dbl_of_int i = rnd False (of_int i)"

text \<open>\<open>std::ceil\<close>\<close>

fun dceil :: "dbl \<Rightarrow> dbl" where
  "dceil (Fin a) = (if a < 0 \<and> \<lceil>a\<rceil> = 0 then NZero else Fin (of_int \<lceil>a\<rceil>))"
| "dceil x = x"

text \<open>Truncation towards zero of a rational, and the cast from \<open>double\<close> to \<open>int\<close>.\<close>

definition rtrunc :: "rat \<Rightarrow> int" where
  "rtrunc a = (if 0 \<le> a then \<lfloor>a\<rfloor> else \<lceil>a\<rceil>)"

definition dbl_to_i32 :: "dbl \<Rightarrow> int outcome" where
  "dbl_to_i32 x = (if is_finite x then i32 (rtrunc (dval x)) else Undef)"

text \<open>\<open>std::numeric_limits<double>::epsilon()\<close>\<close>

definition dbl_epsilon :: dbl where
  "dbl_epsilon = Fin (Fract 1 (2 ^ 52))"

text \<open>A single precision number from its 32 bits; widening it to \<open>double\<close> is exact.\<close>

definition float_of_bits :: "32 word \<Rightarrow> dbl" where
  "float_of_bits w =
     (let s = bit w 31;
          e = uint (take_bit 8 (drop_bit 23 w));
          f = uint (take_bit 23 w);
          sgn = (if s then - 1 else 1)
      in if e = 255 then (if f \<noteq> 0 then NaN else if s then NInf else PInf)
         else if e = 0 then
           (if f = 0 then (if s then NZero else Fin 0) else Fin (unscale (- 149) (sgn * f)))
         else Fin (unscale (e - 150) (sgn * (2 ^ 23 + f))))"

section \<open>Rounding is correct\<close>

text \<open>The specification of the rounded division: the nearest integer, ties to even.\<close>

definition rne :: "rat \<Rightarrow> int" where
  "rne x = (let f = \<lfloor>x\<rfloor>; d = x - of_int f in
     if d < 1 / 2 \<or> d = 1 / 2 \<and> even f then f else f + 1)"

lemma rne_near: "\<bar>of_int (rne x) - x\<bar> \<le> 1 / 2"
proof -
  have "of_int \<lfloor>x\<rfloor> \<le> x" "x < of_int \<lfloor>x\<rfloor> + 1" by linarith+
  moreover have "rne x = \<lfloor>x\<rfloor> \<and> x - of_int \<lfloor>x\<rfloor> \<le> 1 / 2 \<or> rne x = \<lfloor>x\<rfloor> + 1 \<and> 1 / 2 \<le> x - of_int \<lfloor>x\<rfloor>"
    by (auto simp: rne_def Let_def)
  ultimately show ?thesis
    by (elim disjE conjE) (simp_all only: abs_le_iff of_int_add of_int_1, linarith+)
qed

lemma rne_of_int [simp]: "rne (of_int i) = i"
  by (simp add: rne_def)

lemma rne_floor: "\<lfloor>x\<rfloor> \<le> rne x \<and> rne x \<le> \<lfloor>x\<rfloor> + 1"
  by (simp add: rne_def Let_def)

lemma rne_mono: "x \<le> y \<Longrightarrow> rne x \<le> rne y"
proof -
  assume le: "x \<le> y"
  then consider "\<lfloor>x\<rfloor> = \<lfloor>y\<rfloor>" | "\<lfloor>x\<rfloor> < \<lfloor>y\<rfloor>"
    using floor_mono [OF le] by linarith
  then show "rne x \<le> rne y"
  proof cases
    case 1
    with le show ?thesis by (auto simp: rne_def Let_def)
  next
    case 2
    with rne_floor [of x] rne_floor [of y] show ?thesis by linarith
  qed
qed

lemma rne_div: "0 < d \<Longrightarrow> rne_div n d = rne (of_int n / of_int d)"
proof -
  assume d: "0 < d"
  have f: "\<lfloor>(of_int n / of_int d :: rat)\<rfloor> = n div d"
    by (rule floor_divide_of_int_eq)
  have "(of_int n :: rat) = of_int (n div d) * of_int d + of_int (n mod d)"
    by (metis div_mult_mod_eq of_int_add of_int_mult)
  then have r: "(of_int n / of_int d - of_int (n div d) :: rat) = of_int (n mod d) / of_int d"
    using d by (simp add: field_simps)
  have c: "(2 * of_int (n mod d) < (of_int d :: rat)) = (2 * (n mod d) < d)"
    "(2 * of_int (n mod d) = (of_int d :: rat)) = (2 * (n mod d) = d)"
    by (metis of_int_less_iff of_int_mult of_int_numeral, metis of_int_eq_iff of_int_mult of_int_numeral)
  have "(of_int (n mod d) / of_int d < (1 / 2 :: rat)) = (2 * (n mod d) < d)"
    using d by (subst c(1) [symmetric]) (simp add: divide_less_eq mult.commute)
  moreover have "(of_int (n mod d) / of_int d = (1 / 2 :: rat)) = (2 * (n mod d) = d)"
    using d by (subst c(2) [symmetric]) (auto simp: divide_eq_eq mult.commute)
  ultimately show ?thesis
    by (simp only: rne_div_def rne_def Let_def f r)
qed

lemma scale_correct:
  assumes "scale e x = (n, d)"
  shows "0 < d \<and> of_int n / of_int d = x / 2 powi e"
proof -
  obtain p q where pq: "quotient_of x = (p, q)" by fastforce
  then have q: "0 < q" and x: "x = of_int p / of_int q"
    by (simp_all add: quotient_of_denom_pos quotient_of_div)
  show ?thesis
  proof (cases "0 \<le> e")
    case True
    with assms have "n = p" "d = q * 2 ^ nat e" by (simp_all add: scale_def pq)
    moreover have "(2 :: rat) powi e = 2 ^ nat e" using True by (simp add: power_int_def)
    ultimately show ?thesis using q by (simp add: x)
  next
    case False
    with assms have "n = p * 2 ^ nat (- e)" "d = q" by (simp_all add: scale_def pq)
    moreover have "(2 :: rat) powi e = 1 / 2 ^ nat (- e)"
      using False by (simp add: power_int_def inverse_eq_divide power_divide)
    ultimately show ?thesis using q by (simp add: x)
  qed
qed

lemma unscale_correct: "unscale e m = of_int m * 2 powi e"
proof (cases "0 \<le> e")
  case True
  then show ?thesis by (simp add: unscale_def power_int_def)
next
  case False
  then have "(2 :: rat) powi e = 1 / 2 ^ nat (- e)"
    by (simp add: power_int_def inverse_eq_divide power_divide)
  with False show ?thesis by (simp add: unscale_def Fract_of_int_quotient)
qed

lemma blen_bounds: "0 < n \<Longrightarrow> 0 < blen n \<and> 2 ^ nat (blen n - 1) \<le> n \<and> n < 2 ^ nat (blen n)"
proof (induction n rule: blen.induct)
  case (1 n)
  show ?case
  proof (cases "n = 1")
    case True
    then show ?thesis by (simp add: blen.simps)
  next
    case False
    with "1.prems" have "1 < n" by simp
    then have h: "0 < n div 2" "\<not> n \<le> 0" by auto
    with "1.IH" have ih: "0 < blen (n div 2)" "2 ^ nat (blen (n div 2) - 1) \<le> n div 2"
      "n div 2 < 2 ^ nat (blen (n div 2))" by auto
    have b: "blen n = 1 + blen (n div 2)"
      using h(2) by (simp add: blen.simps [of n])
    have "nat (blen n) = Suc (nat (blen (n div 2)))"
      "nat (blen n - 1) = Suc (nat (blen (n div 2) - 1))"
      using ih(1) b by auto
    then have "(2 :: int) ^ nat (blen n) = 2 * 2 ^ nat (blen (n div 2))"
      "(2 :: int) ^ nat (blen n - 1) = 2 * 2 ^ nat (blen (n div 2) - 1)"
      by simp_all
    moreover have "2 * (n div 2) \<le> n" "n \<le> 2 * (n div 2) + 1" by auto
    ultimately show ?thesis using ih b by linarith
  qed
qed

lemma blen_bounds_rat:
  assumes "0 < n"
  shows "(2 :: rat) powi (blen n - 1) \<le> of_int n" and "(of_int n :: rat) < 2 powi (blen n)"
proof -
  have b: "0 < blen n" "2 ^ nat (blen n - 1) \<le> n" "n < 2 ^ nat (blen n)"
    using blen_bounds [OF assms] by auto
  have "(of_int (2 ^ nat (blen n - 1)) :: rat) \<le> of_int n"
    and "(of_int n :: rat) < of_int (2 ^ nat (blen n))"
    using b by (simp_all only: of_int_le_iff of_int_less_iff)
  then show "(2 :: rat) powi (blen n - 1) \<le> of_int n" and "(of_int n :: rat) < 2 powi (blen n)"
    using b(1) by (simp_all add: power_int_def)
qed

lemma powi_mono: "a \<le> b \<Longrightarrow> (2 :: rat) powi a \<le> 2 powi b"
  by (rule power_int_increasing) auto

lemma powi_lessD: "(2 :: rat) powi a < 2 powi b \<Longrightarrow> a < b"
  using powi_mono [of b a] by linarith

lemma powi_pos [simp]: "0 < (2 :: rat) powi e"
  by simp

lemma powi_Suc: "(2 :: rat) powi (e + 1) = 2 * 2 powi e"
  by (simp add: power_int_add)

lemma flog2_bounds:
  assumes "0 < x"
  shows "2 powi (flog2 x) \<le> x" and "x < 2 powi (flog2 x + 1)"
proof -
  obtain p q where pq: "quotient_of x = (p, q)" by fastforce
  then have q: "0 < q" and x: "x = of_int p / of_int q"
    by (simp_all add: quotient_of_denom_pos quotient_of_div)
  have p: "0 < p" using assms q by (simp add: x zero_less_divide_iff)
  define l where "l = blen p - blen q"
  obtain n d where nd: "scale l x = (n, d)" by fastforce
  have sc: "0 < d" "of_int n / of_int d = x / 2 powi l" using scale_correct [OF nd] by auto
  have "d \<le> n \<longleftrightarrow> (of_int d :: rat) \<le> of_int n" by simp
  also have "\<dots> \<longleftrightarrow> 1 \<le> (of_int n / of_int d :: rat)" using sc(1) by (simp add: field_simps)
  also have "\<dots> \<longleftrightarrow> 2 powi l \<le> x" by (simp add: sc(2) field_simps)
  finally have test: "d \<le> n \<longleftrightarrow> 2 powi l \<le> x" .
  have fl: "flog2 x = (if 2 powi l \<le> x then l else l - 1)"
    by (simp add: flog2_def pq nd test flip: l_def)
  have up: "x < 2 powi (l + 1)"
  proof -
    have "of_int p < (2 :: rat) powi blen p" "(2 :: rat) powi (blen q - 1) \<le> of_int q"
      using blen_bounds_rat p q by auto
    then have "x < 2 powi blen p / 2 powi (blen q - 1)"
      unfolding x using p by (intro frac_less) auto
    also have "\<dots> = 2 powi (l + 1)"
      by (simp add: l_def flip: power_int_diff) (simp add: algebra_simps)
    finally show ?thesis .
  qed
  have lo: "2 powi (l - 1) \<le> x"
  proof -
    have "(2 :: rat) powi (blen p - 1) \<le> of_int p" "of_int q < (2 :: rat) powi blen q"
      using blen_bounds_rat p q by auto
    then have "(2 :: rat) powi (blen p - 1) / 2 powi blen q \<le> x"
      unfolding x by (intro frac_le) (use p q in auto)
    moreover have "(2 :: rat) powi (blen p - 1) / 2 powi blen q = 2 powi (l - 1)"
      by (simp add: l_def flip: power_int_diff) (simp add: algebra_simps)
    ultimately show ?thesis by simp
  qed
  show "2 powi (flog2 x) \<le> x" and "x < 2 powi (flog2 x + 1)"
    using fl up lo by (auto split: if_splits)
qed

lemma flog2_unique:
  assumes "0 < x" "2 powi k \<le> x" "x < 2 powi (k + 1)"
  shows "flog2 x = k"
proof -
  have "(2 :: rat) powi k < 2 powi (flog2 x + 1)" "(2 :: rat) powi (flog2 x) < 2 powi (k + 1)"
    using assms flog2_bounds [OF assms(1)] by auto
  then have "k < flog2 x + 1" "flog2 x < k + 1"
    by (simp_all only: powi_lessD)
  then show ?thesis by simp
qed

lemma flog2_mono: "0 < x \<Longrightarrow> x \<le> y \<Longrightarrow> flog2 x \<le> flog2 y"
proof -
  assume a: "0 < x" "x \<le> y"
  then have "(2 :: rat) powi (flog2 x) < 2 powi (flog2 y + 1)"
    using flog2_bounds [of x] flog2_bounds [of y] by linarith
  then show "flog2 x \<le> flog2 y" using powi_lessD by force
qed

lemma significand_eq: "significand x = rne (x / 2 powi ulp_exp x)"
proof -
  obtain n d where nd: "scale (ulp_exp x) x = (n, d)" by fastforce
  then show ?thesis
    using scale_correct [OF nd] by (simp add: significand_def rne_div)
qed

lemma round_pos_eq: "round_pos x = of_int (rne (x / 2 powi ulp_exp x)) * 2 powi ulp_exp x"
  by (simp add: round_pos_def unscale_correct significand_eq)

text \<open>The numbers of the format.\<close>

definition representable :: "rat \<Rightarrow> bool" where
  "representable x \<longleftrightarrow> (\<exists>m e. x = of_int m * 2 powi e \<and> \<bar>m\<bar> < 2 ^ 53 \<and> - 1074 \<le> e \<and> e \<le> 971)"

fun dbl_ok :: "dbl \<Rightarrow> bool" where
  "dbl_ok (Fin a) = representable a"
| "dbl_ok _ = True"

lemma representable_0 [simp]: "representable 0"
  unfolding representable_def by (rule exI [of _ 0], rule exI [of _ 0]) simp

lemma representable_minus [simp]: "representable (- x) = representable x"
proof -
  have "representable (- y)" if "representable y" for y
  proof -
    from that obtain m e where "y = of_int m * 2 powi e" "\<bar>m\<bar> < 2 ^ 53" "- 1074 \<le> e" "e \<le> 971"
      by (auto simp: representable_def)
    then have "- y = of_int (- m) * 2 powi e" "\<bar>- m\<bar> < 2 ^ 53" "- 1074 \<le> e" "e \<le> 971" by simp_all
    then show ?thesis unfolding representable_def by blast
  qed
  from this [of x] this [of "- x"] show ?thesis by auto
qed

lemma representable_of_int: "\<bar>i\<bar> < 2 ^ 53 \<Longrightarrow> representable (of_int i)"
  unfolding representable_def by (rule exI [of _ i], rule exI [of _ 0]) simp

lemma powi_nonneg_int: "0 \<le> k \<Longrightarrow> (2 :: rat) powi k = of_int (2 ^ nat k)"
  by (simp add: power_int_def)

lemma powi_divide: "(2 :: rat) powi a / 2 powi b = 2 powi (a - b)"
  by (simp add: power_int_diff)

lemma significand_bounds:
  assumes "0 < x"
  shows "0 \<le> significand x" "significand x \<le> 2 ^ 53"
    "- 1074 < ulp_exp x \<Longrightarrow> 2 ^ 52 \<le> significand x"
proof -
  let ?u = "ulp_exp x"
  have "0 \<le> x / 2 powi ?u" using assms by simp
  from rne_mono [OF this] show "0 \<le> significand x"
    using rne_of_int [of 0] by (simp add: significand_eq)
  have "(2 :: rat) powi (flog2 x + 1) \<le> 2 powi (53 + ?u)"
    by (rule powi_mono) (simp add: ulp_exp_def)
  with flog2_bounds(2) [OF assms] have "x \<le> 2 powi (53 + ?u)" by linarith
  also have "\<dots> = of_int (2 ^ 53) * 2 powi ?u" by (simp add: power_int_add)
  finally have "x / 2 powi ?u \<le> of_int (2 ^ 53)" by (simp add: divide_le_eq)
  from rne_mono [OF this] show "significand x \<le> 2 ^ 53"
    by (simp only: significand_eq rne_of_int)
  assume "- 1074 < ?u"
  then have "?u = flog2 x - 52" by (simp add: ulp_exp_def max_def split: if_splits)
  then have "(2 :: rat) powi (52 + ?u) \<le> x" using flog2_bounds(1) [OF assms] by simp
  then have "of_int (2 ^ 52) * 2 powi ?u \<le> x" by (simp add: power_int_add)
  then have "of_int (2 ^ 52) \<le> x / 2 powi ?u" by (simp add: le_divide_eq)
  from rne_mono [OF this] show "2 ^ 52 \<le> significand x"
    by (simp only: significand_eq rne_of_int)
qed

lemma round_pos_sig: "round_pos x = of_int (significand x) * 2 powi ulp_exp x"
  by (simp add: round_pos_eq significand_eq)

lemma round_pos_exact:
  assumes "0 < x" and "x = of_int m * 2 powi e" and "\<bar>m\<bar> < 2 ^ 53" and "- 1074 \<le> e"
  shows "ulp_exp x \<le> e" "significand x = m * 2 ^ nat (e - ulp_exp x)" "round_pos x = x"
proof -
  have "of_int m < (of_int (2 ^ 53) :: rat)"
    using assms(3) by (simp only: of_int_less_iff abs_less_iff)
  then have "x < of_int (2 ^ 53) * 2 powi e" by (simp add: assms(2))
  also have "\<dots> = 2 powi (53 + e)" by (simp add: power_int_add)
  finally have "(2 :: rat) powi (flog2 x) < 2 powi (53 + e)"
    using flog2_bounds(1) [OF assms(1)] by linarith
  then have "flog2 x < 53 + e" by (rule powi_lessD)
  then show u: "ulp_exp x \<le> e" using assms(4) by (simp add: ulp_exp_def)
  have "x / 2 powi ulp_exp x = of_int m * 2 powi (e - ulp_exp x)"
    by (simp add: assms(2) power_int_diff)
  also have "\<dots> = of_int (m * 2 ^ nat (e - ulp_exp x))"
    using u by (simp add: powi_nonneg_int)
  finally have q: "x / 2 powi ulp_exp x = of_int (m * 2 ^ nat (e - ulp_exp x))" .
  then show sig: "significand x = m * 2 ^ nat (e - ulp_exp x)"
    by (simp only: significand_eq rne_of_int)
  show "round_pos x = x"
    by (simp only: round_pos_sig sig q [symmetric]) simp
qed

lemma overflows_iff:
  assumes "0 < x"
  shows "overflows x \<longleftrightarrow> 2 powi 1024 \<le> round_pos x"
proof -
  let ?u = "ulp_exp x" and ?m = "significand x"
  have b: "?m \<le> 2 ^ 53" "- 1074 < ?u \<Longrightarrow> 2 ^ 52 \<le> ?m"
    using significand_bounds [OF assms] by auto
  consider "971 < ?u" | "?u = 971" "?m = 2 ^ 53" | "?u = 971" "?m < 2 ^ 53" | "?u < 971"
    using b by linarith
  then show ?thesis
  proof cases
    case 1
    then have "(of_int (2 ^ 52) :: rat) \<le> of_int ?m" using b by (simp only: of_int_le_iff)
    then have "of_int (2 ^ 52) * 2 powi 972 \<le> of_int ?m * (2 :: rat) powi ?u"
      using 1 by (intro mult_mono powi_mono) auto
    moreover have "of_int (2 ^ 52) * 2 powi 972 = (2 :: rat) powi 1024"
      using power_int_add [of "2 :: rat" 52 972] by (simp add: powi_nonneg_int)
    ultimately show ?thesis using 1 by (simp only: overflows_def round_pos_sig) simp
  next
    case 2
    have "of_int (2 ^ 53) * 2 powi 971 = (2 :: rat) powi 1024"
      using power_int_add [of "2 :: rat" 53 971] by (simp add: powi_nonneg_int)
    with 2 show ?thesis by (simp only: overflows_def round_pos_sig) simp
  next
    case 3
    then have "(of_int ?m :: rat) < of_int (2 ^ 53)" by (simp only: of_int_less_iff)
    then have "of_int ?m * (2 :: rat) powi ?u < of_int (2 ^ 53) * 2 powi 971" using 3 by simp
    moreover have "of_int (2 ^ 53) * 2 powi 971 = (2 :: rat) powi 1024"
      using power_int_add [of "2 :: rat" 53 971] by (simp add: powi_nonneg_int)
    ultimately show ?thesis using 3 by (simp only: overflows_def round_pos_sig) simp
  next
    case 4
    have "(of_int ?m :: rat) \<le> of_int (2 ^ 53)" using b by (simp only: of_int_le_iff)
    then have "of_int ?m * (2 :: rat) powi ?u \<le> of_int (2 ^ 53) * 2 powi 970"
      using 4 by (intro mult_mono powi_mono) auto
    moreover have "of_int (2 ^ 53) * 2 powi 970 < (2 :: rat) powi 1024"
      using power_int_add [of "2 :: rat" 53 970] power_int_strict_increasing [of 1023 1024 "2 :: rat"]
      by (simp add: powi_nonneg_int)
    ultimately show ?thesis using 4 by (simp only: overflows_def round_pos_sig) simp
  qed
qed

lemma rnd_exact:
  assumes "representable x" and "x \<noteq> 0"
  shows "rnd s x = Fin x"
proof -
  have pos: "\<not> overflows y \<and> round_pos y = y \<and> significand y \<noteq> 0"
    if y: "representable y" "0 < y" for y
  proof -
    from y obtain m e where me: "y = of_int m * 2 powi e" "\<bar>m\<bar> < 2 ^ 53" "- 1074 \<le> e" "e \<le> 971"
      by (auto simp: representable_def)
    note ex = round_pos_exact [OF y(2) me(1-3)]
    have "m \<noteq> 0" using me(1) y(2) by auto
    moreover have "ulp_exp y = 971 \<Longrightarrow> significand y = m" using ex me by auto
    ultimately show ?thesis using ex me by (auto simp: overflows_def)
  qed
  show ?thesis
    using pos [of x] pos [of "- x"] assms by (auto simp: rnd_def)
qed

lemma dbl_of_int_exact: "\<bar>i\<bar> < 2 ^ 53 \<Longrightarrow> dbl_of_int i = Fin (of_int i)"
  by (cases "i = 0") (simp_all add: dbl_of_int_def rnd_exact representable_of_int, simp add: rnd_def)

lemma dbl_of_i32 [simp]: "in_i32 i \<Longrightarrow> dbl_of_int i = Fin (of_int i)"
  by (rule dbl_of_int_exact) (auto simp: in_i32_def)

text \<open>Rounding is monotone.\<close>

lemma round_pos_mono:
  assumes "0 < x" "x \<le> y"
  shows "round_pos x \<le> round_pos y"
proof -
  have y: "0 < y" using assms by simp
  have u: "ulp_exp x \<le> ulp_exp y"
    using flog2_mono [OF assms] by (simp add: ulp_exp_def)
  consider "ulp_exp x = ulp_exp y" | "ulp_exp x < ulp_exp y" using u by linarith
  then show ?thesis
  proof cases
    case 1
    have "x / 2 powi ulp_exp x \<le> y / 2 powi ulp_exp x"
      using assms by (simp add: divide_right_mono)
    from rne_mono [OF this] have "(of_int (significand x) :: rat) \<le> of_int (significand y)"
      using 1 by (simp only: significand_eq of_int_le_iff)
    then show ?thesis using 1 by (simp add: round_pos_sig)
  next
    case 2
    let ?k = "flog2 y"
    have uy: "ulp_exp y = ?k - 52" and lt: "flog2 x < ?k" and ux: "ulp_exp x \<le> ?k"
      using 2 by (auto simp: ulp_exp_def max_def split: if_splits)
    have "x \<le> 2 powi ?k"
      using flog2_bounds(2) [OF assms(1)] powi_mono [of "flog2 x + 1" ?k] lt by linarith
    then have "x / 2 powi ulp_exp x \<le> 2 powi ?k / 2 powi ulp_exp x"
      by (simp add: divide_right_mono)
    also have k: "2 powi ?k / 2 powi ulp_exp x = (of_int (2 ^ nat (?k - ulp_exp x)) :: rat)"
      using powi_nonneg_int [of "?k - ulp_exp x"] ux by (simp only: powi_divide)
    finally have "x / 2 powi ulp_exp x \<le> of_int (2 ^ nat (?k - ulp_exp x))" .
    from rne_mono [OF this] have "of_int (significand x) \<le> (of_int (2 ^ nat (?k - ulp_exp x)) :: rat)"
      by (simp only: significand_eq rne_of_int of_int_le_iff)
    also have "\<dots> = 2 powi ?k / 2 powi ulp_exp x"
      by (rule k [symmetric])
    finally have lo: "round_pos x \<le> 2 powi ?k"
      by (simp add: round_pos_sig le_divide_eq)
    have "of_int (2 ^ 52) * 2 powi ulp_exp y = (2 :: rat) powi ?k"
      using power_int_add [of "2 :: rat" 52 "ulp_exp y"] uy by (simp add: powi_nonneg_int)
    moreover have "(of_int (2 ^ 52) :: rat) \<le> of_int (significand y)"
      using significand_bounds(3) [OF y] 2 by (simp only: of_int_le_iff) (simp add: ulp_exp_def)
    ultimately have "2 powi ?k \<le> round_pos y"
      by (simp only: round_pos_sig) (metis mult_right_mono less_imp_le powi_pos)
    with lo show ?thesis by linarith
  qed
qed

lemma round_pos_nonneg: "0 < x \<Longrightarrow> 0 \<le> round_pos x"
  using significand_bounds(1) [of x] by (simp add: round_pos_sig)

lemma overflows_mono: "0 < x \<Longrightarrow> x \<le> y \<Longrightarrow> overflows x \<Longrightarrow> overflows y"
  using round_pos_mono [of x y] by (auto simp: overflows_iff)

lemma rnd_not_NaN [simp]: "rnd s x \<noteq> NaN" "NaN \<noteq> rnd s x"
  by (auto simp: rnd_def)

lemma rnd_cases:
  obtains (zero) "x = 0" "is_finite (rnd s x)" "dval (rnd s x) = 0"
  | (pos) "0 < x" "\<not> overflows x" "is_finite (rnd s x)" "dval (rnd s x) = round_pos x"
  | (posinf) "0 < x" "overflows x" "rnd s x = PInf"
  | (neg) "x < 0" "\<not> overflows (- x)" "is_finite (rnd s x)" "dval (rnd s x) = - round_pos (- x)"
  | (neginf) "x < 0" "overflows (- x)" "rnd s x = NInf"
proof -
  consider "x = 0" | "0 < x" | "x < 0" by linarith
  then show ?thesis
  proof cases
    case 1
    with zero show ?thesis by (auto simp: rnd_def split: if_splits)
  next
    case 2
    with pos posinf show ?thesis by (auto simp: rnd_def split: if_splits)
  next
    case 3
    then show ?thesis
      using neg neginf
      by (cases "overflows (- x)"; cases "significand (- x) = 0")
        (simp_all add: rnd_def round_pos_sig)
  qed
qed

lemma dlt_finite: "is_finite x \<Longrightarrow> is_finite y \<Longrightarrow> dlt x y \<longleftrightarrow> dval x < dval y"
  by (cases x; cases y) auto

lemma dle_finite: "is_finite x \<Longrightarrow> is_finite y \<Longrightarrow> dle x y \<longleftrightarrow> dval x \<le> dval y"
  by (cases x; cases y) (auto simp: dle_def)

lemma dle_PInf: "x \<noteq> NaN \<Longrightarrow> dle x PInf"
  by (cases x) (auto simp: dle_def)

lemma dle_NInf: "x \<noteq> NaN \<Longrightarrow> dle NInf x"
  by (cases x) (auto simp: dle_def)

lemma rnd_mono:
  assumes "x \<le> y"
  shows "dle (rnd s x) (rnd t y)"
proof (cases "rnd t y = PInf \<or> rnd s x = NInf")
  case True
  then show ?thesis by (auto simp: dle_PInf dle_NInf)
next
  case False
  have fy: "is_finite (rnd t y) \<and> is_finite (rnd s x)"
  proof -
    have "is_finite (rnd s x)"
      by (rule rnd_cases [of x s]; rule rnd_cases [of y t])
        (use False assms overflows_mono [of x y] in auto)
    moreover have "is_finite (rnd t y)"
      by (rule rnd_cases [of x s]; rule rnd_cases [of y t])
        (use False assms overflows_mono [of "- y" "- x"] in auto)
    ultimately show ?thesis by simp
  qed
  moreover have "dval (rnd s x) \<le> dval (rnd t y)"
    by (rule rnd_cases [of x s]; rule rnd_cases [of y t])
      (use fy assms False round_pos_mono [of x y] round_pos_mono [of "- y" "- x"]
         round_pos_nonneg [of y] round_pos_nonneg [of "- x"] in auto)
  ultimately show ?thesis by (simp add: dle_finite)
qed

lemma dle_trans: "dle x y \<Longrightarrow> dle y z \<Longrightarrow> dle x z"
  by (cases x; cases y; cases z) (auto simp: dle_def)

lemma dle_refl: "x \<noteq> NaN \<Longrightarrow> dle x x"
  by (cases x) (auto simp: dle_def)

text \<open>Every rounded value is a number of the format.\<close>

lemma representable_round_pos:
  assumes "0 < x" and "\<not> overflows x"
  shows "representable (round_pos x)"
proof -
  let ?u = "ulp_exp x" and ?m = "significand x"
  have b: "0 \<le> ?m" "?m \<le> 2 ^ 53" using significand_bounds [OF assms(1)] by auto
  have u: "- 1074 \<le> ?u" "?u \<le> 971" using assms(2) by (auto simp: ulp_exp_def overflows_def)
  show ?thesis
  proof (cases "?m = 2 ^ 53")
    case True
    with assms(2) u have "?u + 1 \<le> 971" "- 1074 \<le> ?u + 1" by (auto simp: overflows_def)
    moreover have "\<bar>2 ^ 52\<bar> < (2 ^ 53 :: int)" by simp
    moreover have "round_pos x = of_int (2 ^ 52) * 2 powi (?u + 1)"
      by (simp add: round_pos_sig True powi_Suc)
    ultimately show ?thesis
      unfolding representable_def by blast
  next
    case False
    with b have "\<bar>?m\<bar> < 2 ^ 53" by (simp only: abs_less_iff) linarith
    with u show ?thesis
      unfolding representable_def round_pos_sig by blast
  qed
qed

lemma rnd_ok [simp]: "dbl_ok (rnd s x)"
  by (auto simp: rnd_def representable_round_pos)

lemma dadd_ok: "dbl_ok x \<Longrightarrow> dbl_ok y \<Longrightarrow> dbl_ok (dadd x y)"
  by (cases x; cases y) auto

section \<open>Arithmetic on finite values\<close>

lemma dadd_Fin: "dadd (Fin a) (Fin b) = rnd False (a + b)"
  by simp

lemma rnd_False_exact: "representable x \<Longrightarrow> rnd False x = Fin x"
  by (cases "x = 0") (simp_all add: rnd_exact, simp add: rnd_def)

lemma plus_Fin: "representable (a + b) \<Longrightarrow> Fin a + Fin b = Fin (a + b)"
  by (simp add: dbl_ops rnd_False_exact)

lemma minus_Fin: "representable (a - b) \<Longrightarrow> Fin a - Fin b = Fin (a - b)"
  by (cases "b = 0") (simp_all add: dbl_ops rnd_False_exact)

lemma times_Fin_nonneg:
  "0 \<le> a \<Longrightarrow> 0 \<le> b \<Longrightarrow> representable (a * b) \<Longrightarrow> Fin a * Fin b = Fin (a * b)"
  by (simp add: dbl_ops dmul_def rnd_False_exact)

lemma times_Fin_val:
  "representable (a * b) \<Longrightarrow> is_finite (Fin a * Fin b) \<and> dval (Fin a * Fin b) = a * b"
  by (cases "a * b = 0") (auto simp: dbl_ops dmul_def rnd_exact, auto simp: rnd_def)

lemma divide_Fin: "b \<noteq> 0 \<Longrightarrow> a \<noteq> 0 \<Longrightarrow> representable (a / b) \<Longrightarrow> Fin a / Fin b = Fin (a / b)"
  by (simp add: dbl_ops ddiv_def Let_def rnd_exact)

lemma less_Fin [simp]: "Fin a < Fin b \<longleftrightarrow> a < b"
  by (simp add: dbl_ops)

lemma less_eq_Fin [simp]: "Fin a \<le> Fin b \<longleftrightarrow> a \<le> b"
  by (auto simp: dbl_ops dle_def)

text \<open>Comparisons with not-a-number are false.\<close>

lemma NaN_compare [simp]:
  "\<not> NaN < x" "\<not> x < NaN" "\<not> NaN \<le> x" "\<not> x \<le> NaN" "\<not> deq NaN x" "\<not> deq x NaN"
  by (cases x; simp add: dbl_ops dle_def deq_def)+

lemma not_less_dbl: "x \<noteq> NaN \<Longrightarrow> y \<noteq> NaN \<Longrightarrow> \<not> x < (y :: dbl) \<longleftrightarrow> y \<le> x"
  by (simp add: dbl_ops dle_def)

text \<open>A fixed factor that is not negative and a fixed summand keep the order of finite values.\<close>

lemma plus_left_mono_dbl:
  assumes "is_finite a" "is_finite x" "is_finite y" "dval x \<le> dval y"
  shows "dle (a + x) (a + y)"
proof -
  have "dle (rnd False (dval a + dval x)) (rnd False (dval a + dval y))"
    by (rule rnd_mono) (use assms in simp)
  moreover have r: "dle (rnd False u) NZero = dle (rnd False u) (Fin 0)"
    "dle NZero (rnd False u) = dle (Fin 0) (rnd False u)" for u
    by (cases "rnd False u"; simp add: dle_def)+
  ultimately show ?thesis
    using assms by (cases a; cases x; cases y) (auto simp: dbl_ops rnd_def [of False 0] dle_def)
qed

text \<open>Numbers up to a power of two that is far below the largest number do not overflow.\<close>

lemma rnd_finite:
  assumes "\<bar>x\<bar> \<le> 2 ^ 64"
  shows "is_finite (rnd s x)"
proof -
  have "representable (2 powi 64)" unfolding representable_def by (rule exI [of _ 1], rule exI [of _ 64]) simp
  then have "\<not> overflows ((2 :: rat) powi 64)" using rnd_exact [of "2 powi 64" False] by (auto simp: rnd_def split: if_splits)
  then have "\<not> overflows y" if "0 < y" "y \<le> 2 ^ 64" for y using overflows_mono [of y "2 powi 64"] that by auto
  then show ?thesis using assms by (auto simp: rnd_def abs_le_iff)
qed

end
