(* ===== verification/Json.thy ===== *)
theory Json
  imports Dbl
begin

text \<open>
  The JSON values the driver exchanges with the PEAK servers, with the accessors of the JSON
  library (\<open>json.hpp\<close>) that the driver uses.

  A value is one of the library's value types; an object is its \<open>std::map\<close>, the list of its
  entries in the order of the keys.  An accessor throws the library's exception with its id, or fails
  an assertion (undefined behaviour here) where the library asserts: reading a missing key
  of a constant object, and the first element of an empty container.
\<close>

section \<open>Values\<close>

datatype json =
    JNull
  | JBool bool
  | JInt int
  | JUInt int
  | JFloat dbl
  | JStr string
  | JArr "json list"
  | JObj "(string \<times> json) list"

fun is_null :: "json \<Rightarrow> bool" where
  "is_null JNull = True"
| "is_null _ = False"

fun is_object :: "json \<Rightarrow> bool" where
  "is_object (JObj _) = True"
| "is_object _ = False"

fun is_boolean :: "json \<Rightarrow> bool" where
  "is_boolean (JBool _) = True"
| "is_boolean _ = False"

text \<open>Every object has its keys in strictly increasing order.\<close>

fun json_ok :: "json \<Rightarrow> bool" where
  "json_ok (JArr js) = list_all json_ok js"
| "json_ok (JObj m) = (smap_ok m \<and> list_all (\<lambda>e. json_ok (snd e)) m)"
| "json_ok _ = True"

section \<open>Building values\<close>

text \<open>\<open>std::map::emplace\<close> does not overwrite.\<close>

definition smap_emplace :: "'k::linorder \<Rightarrow> 'v \<Rightarrow> ('k \<times> 'v) list \<Rightarrow> ('k \<times> 'v) list" where
  "smap_emplace k v m = (if map_of m k = None then smap_put k v m else m)"

text \<open>\<open>json::object({{k, v}, ...})\<close>\<close>

definition jobject :: "(string \<times> json) list \<Rightarrow> json" where
  "jobject kvs = JObj (fold (\<lambda>(k, v). smap_emplace k v) kvs [])"

section \<open>Element access\<close>

text \<open>\<open>operator[]\<close> on a constant value: the key has to be there.\<close>

definition jat :: "string \<Rightarrow> json \<Rightarrow> json outcome" where
  "jat k j = (case j of
       JObj m \<Rightarrow> (case map_of m k of Some v \<Rightarrow> Ret v | None \<Rightarrow> Undef)
     | _ \<Rightarrow> Throw (Json_exception 305))"

text \<open>
  \<open>operator[]\<close> on a variable: null turns into an empty object, and a missing key is added
  with a null value.  The first function is the changed value, the second the element.
\<close>

definition jtouch :: "string \<Rightarrow> json \<Rightarrow> json outcome" where
  "jtouch k j = (case j of
       JNull \<Rightarrow> Ret (JObj (smap_emplace k JNull []))
     | JObj m \<Rightarrow> Ret (JObj (smap_emplace k JNull m))
     | _ \<Rightarrow> Throw (Json_exception 305))"

definition jidx :: "string \<Rightarrow> json \<Rightarrow> json outcome" where
  "jidx k j = obind (jtouch k j) (jat k)"

text \<open>\<open>j[k] = v\<close>, and an assignment inside an element.\<close>

definition jupd :: "string \<Rightarrow> (json \<Rightarrow> json outcome) \<Rightarrow> json \<Rightarrow> json outcome" where
  "jupd k f j = obind (jtouch k j) (\<lambda>j'. case j' of
       JObj m \<Rightarrow> (case map_of m k of
           Some v \<Rightarrow> obind (f v) (\<lambda>v'. Ret (JObj (smap_put k v' m)))
         | None \<Rightarrow> Undef)
     | _ \<Rightarrow> Undef)"

definition jset :: "string \<Rightarrow> json \<Rightarrow> json \<Rightarrow> json outcome" where
  "jset k v = jupd k (\<lambda>_. Ret v)"

definition jcontains :: "json \<Rightarrow> string \<Rightarrow> bool" where
  "jcontains j k = (case j of JObj m \<Rightarrow> map_of m k \<noteq> None | _ \<Rightarrow> False)"

text \<open>
  \<open>begin()\<close> to \<open>end()\<close>: the elements of an array, the values of an object, nothing for
  null, and any other value itself.
\<close>

fun jelems :: "json \<Rightarrow> json list" where
  "jelems JNull = []"
| "jelems (JArr js) = js"
| "jelems (JObj m) = map snd m"
| "jelems j = [j]"

text \<open>\<open>front\<close> dereferences \<open>begin()\<close>, which for an empty container is its end.\<close>

fun jfront :: "json \<Rightarrow> json outcome" where
  "jfront JNull = Throw (Json_exception 214)"
| "jfront (JArr js) = (case js of [] \<Rightarrow> Undef | j # _ \<Rightarrow> Ret j)"
| "jfront (JObj m) = (case m of [] \<Rightarrow> Undef | e # _ \<Rightarrow> Ret (snd e))"
| "jfront j = Ret j"

definition jpush_back :: "json \<Rightarrow> json \<Rightarrow> json outcome" where
  "jpush_back j v = (case j of
       JNull \<Rightarrow> Ret (JArr [v])
     | JArr js \<Rightarrow> Ret (JArr (js @ [v]))
     | _ \<Rightarrow> Throw (Json_exception 308))"

section \<open>Conversions\<close>

text \<open>\<open>get<double>()\<close>: any of the three number types, converted.\<close>

fun jdouble :: "json \<Rightarrow> dbl outcome" where
  "jdouble (JUInt n) = Ret (dbl_of_int n)"
| "jdouble (JInt n) = Ret (dbl_of_int n)"
| "jdouble (JFloat d) = Ret d"
| "jdouble _ = Throw (Json_exception 302)"

text \<open>
  \<open>get<size_t>()\<close>, on a 64-bit platform: an integer wraps, a floating-point number outside
  the range is undefined.
\<close>

definition dbl_to_u64 :: "dbl \<Rightarrow> int outcome" where
  "dbl_to_u64 x =
     (if is_finite x \<and> 0 \<le> rtrunc (dval x) \<and> rtrunc (dval x) < 2 ^ 64 then Ret (rtrunc (dval x))
      else Undef)"

fun jsize_t :: "json \<Rightarrow> int outcome" where
  "jsize_t (JUInt n) = Ret (n mod 2 ^ 64)"
| "jsize_t (JInt n) = Ret (n mod 2 ^ 64)"
| "jsize_t (JFloat d) = dbl_to_u64 d"
| "jsize_t _ = Throw (Json_exception 302)"

text \<open>\<open>get<int>()\<close>: booleans are accepted as well, and wider integers wrap.\<close>

definition wrap_i32 :: "int \<Rightarrow> int" where
  "wrap_i32 n = (n + 2 ^ 31) mod 2 ^ 32 - 2 ^ 31"

fun jint :: "json \<Rightarrow> int outcome" where
  "jint (JUInt n) = Ret (wrap_i32 n)"
| "jint (JInt n) = Ret (wrap_i32 n)"
| "jint (JFloat d) = dbl_to_i32 d"
| "jint (JBool b) = Ret (if b then 1 else 0)"
| "jint _ = Throw (Json_exception 302)"

fun jbool :: "json \<Rightarrow> bool outcome" where
  "jbool (JBool b) = Ret b"
| "jbool _ = Throw (Json_exception 302)"

fun jstring :: "json \<Rightarrow> string outcome" where
  "jstring (JStr s) = Ret s"
| "jstring _ = Throw (Json_exception 302)"

text \<open>\<open>get<std::vector<double>>()\<close> and \<open>get<std::map<std::string, double>>()\<close>\<close>

fun jdoubles :: "json \<Rightarrow> dbl list outcome" where
  "jdoubles (JArr js) = omap jdouble js"
| "jdoubles _ = Throw (Json_exception 302)"

fun jdouble_map :: "json \<Rightarrow> (string \<times> dbl) list outcome" where
  "jdouble_map (JObj m) = omap (\<lambda>(k, v). obind (jdouble v) (\<lambda>d. Ret (k, d))) m"
| "jdouble_map _ = Throw (Json_exception 302)"

section \<open>Laws\<close>

lemma map_of_smap_emplace:
  "smap_ok m \<Longrightarrow> map_of (smap_emplace k v m) k' =
     (if k' = k then (case map_of m k of None \<Rightarrow> Some v | Some w \<Rightarrow> Some w) else map_of m k')"
  by (auto simp: smap_emplace_def map_of_smap_put split: option.splits)

lemma smap_ok_emplace: "smap_ok m \<Longrightarrow> smap_ok (smap_emplace k v m)"
  by (simp add: smap_emplace_def smap_ok_put)

lemma set_smap_put: "set (smap_put k v m) \<subseteq> insert (k, v) (set m)"
  by (induction k v m rule: smap_put.induct) auto

lemma json_ok_put:
  "json_ok (JObj m) \<Longrightarrow> json_ok v \<Longrightarrow> json_ok (JObj (smap_put k v m))"
  using set_smap_put [of k v m] by (auto simp: smap_ok_put list_all_iff)

lemma json_ok_emplace:
  "json_ok (JObj m) \<Longrightarrow> json_ok v \<Longrightarrow> json_ok (JObj (smap_emplace k v m))"
  by (simp add: smap_emplace_def json_ok_put del: json_ok.simps)

lemma json_ok_jobject: "list_all (\<lambda>e. json_ok (snd e)) kvs \<Longrightarrow> json_ok (jobject kvs)"
proof -
  have "json_ok (JObj m) \<Longrightarrow> json_ok (JObj (fold (\<lambda>(k, v). smap_emplace k v) kvs m))"
    if "list_all (\<lambda>e. json_ok (snd e)) kvs" for m
    using that
  proof (induction kvs arbitrary: m)
    case (Cons e kvs)
    then show ?case
      by (cases e) (simp add: json_ok_emplace del: json_ok.simps)
  qed simp
  from this [of "[]"] show "list_all (\<lambda>e. json_ok (snd e)) kvs \<Longrightarrow> json_ok (jobject kvs)"
    by (simp add: jobject_def smap_ok_def)
qed

lemma jtouch_Ret:
  assumes "jtouch k j = Ret j'" and "json_ok j"
  obtains m where "j' = JObj m" "smap_ok m" "json_ok j'" "map_of m k \<noteq> None"
    "\<And>k'. k' \<noteq> k \<Longrightarrow> map_of m k' = (case j of JObj n \<Rightarrow> map_of n k' | _ \<Rightarrow> None)"
proof -
  from assms(1) obtain n where n: "j' = JObj (smap_emplace k JNull n)"
    "j = JNull \<and> n = [] \<or> j = JObj n"
    by (auto simp: jtouch_def split: json.splits)
  with assms(2) have "json_ok (JObj n)" by (auto simp: smap_ok_def)
  then have "json_ok j'" "smap_ok n"
    using n(1) json_ok_emplace [of n JNull k] by auto
  moreover from this have "smap_ok (smap_emplace k JNull n)" by (simp add: smap_ok_emplace)
  ultimately show ?thesis
    using n that [of "smap_emplace k JNull n"]
    by (auto simp: map_of_smap_emplace split: option.splits)
qed

text \<open>What an assignment stores is what is read afterwards; other keys are untouched.\<close>

lemma jset_Ret:
  assumes "jset k v j = Ret j'" and "json_ok j" and "json_ok v"
  shows "json_ok j'" and "jat k j' = Ret v"
    and "k' \<noteq> k \<Longrightarrow> jat k' j' = (if is_null j then Undef else jat k' j)"
proof -
  from assms(1) obtain t where t: "jtouch k j = Ret t"
    by (auto simp: jset_def jupd_def obind_eq_Ret)
  from jtouch_Ret [OF this assms(2)] obtain m where m: "t = JObj m" "smap_ok m" "json_ok t"
    "map_of m k \<noteq> None"
    "\<And>k'. k' \<noteq> k \<Longrightarrow> map_of m k' = (case j of JObj n \<Rightarrow> map_of n k' | _ \<Rightarrow> None)"
    by metis
  then have j': "j' = JObj (smap_put k v m)"
    using assms(1) t by (auto simp: jset_def jupd_def)
  show "json_ok j'" using m assms(3) j' json_ok_put by blast
  show "jat k j' = Ret v" using m(2) by (simp add: j' jat_def map_of_smap_put)
  assume "k' \<noteq> k"
  then show "jat k' j' = (if is_null j then Undef else jat k' j)"
    using m(2,5) t by (cases j) (auto simp: j' jat_def map_of_smap_put jtouch_def split: option.splits)
qed

lemma jset_Ret_iff: "(\<exists>j'. jset k v j = Ret j') \<longleftrightarrow> is_null j \<or> is_object j"
  if "json_ok j"
proof
  assume "\<exists>j'. jset k v j = Ret j'"
  then show "is_null j \<or> is_object j"
    by (cases j) (auto simp: jset_def jupd_def jtouch_def)
next
  assume "is_null j \<or> is_object j"
  then obtain t where t: "jtouch k j = Ret t"
    by (cases j) (auto simp: jtouch_def)
  from jtouch_Ret [OF t that] obtain m where "t = JObj m" "map_of m k \<noteq> None"
    by metis
  with t show "\<exists>j'. jset k v j = Ret j'" by (auto simp: jset_def jupd_def)
qed

lemma jat_jobject_single [simp]: "jat k (jobject [(k, v)]) = Ret v"
  by (simp add: jat_def jobject_def smap_emplace_def)

lemma wrap_i32_id: "in_i32 n \<Longrightarrow> wrap_i32 n = n"
  by (simp add: wrap_i32_def in_i32_def)

lemma wrap_i32_range: "in_i32 (wrap_i32 n)"
  using pos_mod_bound [of "2 ^ 32" "n + 2 ^ 31"] pos_mod_sign [of "2 ^ 32" "n + 2 ^ 31"]
  by (simp add: wrap_i32_def in_i32_def)

section \<open>Numbers as the parser gives them\<close>

text \<open>
  A number of a document, and a count that fits the \<open>int\<close> of the code: the parser makes an unsigned value of
  every integer that is not negative, a signed one of the others, and a floating-point one of the rest.
\<close>

fun json_number :: "json \<Rightarrow> dbl \<Rightarrow> bool" where
  "json_number (JUInt n) x \<longleftrightarrow> x = dbl_of_int n"
| "json_number (JInt n) x \<longleftrightarrow> x = dbl_of_int n"
| "json_number (JFloat y) x \<longleftrightarrow> x = y"
| "json_number _ x \<longleftrightarrow> False"

fun json_count :: "json \<Rightarrow> int \<Rightarrow> bool" where
  "json_count (JUInt n) k \<longleftrightarrow> n = k \<and> in_i32 k"
| "json_count (JInt n) k \<longleftrightarrow> n = k \<and> in_i32 k"
| "json_count _ k \<longleftrightarrow> False"

lemma json_number_double: "json_number j x \<Longrightarrow> jdouble j = Ret x"
  by (cases j) simp_all

lemma json_count_int: "json_count j n \<Longrightarrow> jint j = Ret n"
  by (cases j) (simp_all add: wrap_i32_id)

lemma json_count_range: "json_count j n \<Longrightarrow> in_i32 n"
  by (cases j) simp_all

section \<open>The interface of the texts\<close>

text \<open>
  What the clients rely on: parsing never reaches undefined behaviour and returns values that can be written,
  and a value that can be written gives a text that is parsed to the value read back.  Reading back keeps
  the names, the strings and the structure of objects.
\<close>

locale json_laws =
  fixes parse :: "string \<Rightarrow> json outcome" and dump :: "json \<Rightarrow> string outcome"
    and ok :: "json \<Rightarrow> bool" and text_ok :: "string \<Rightarrow> bool" and again :: "json \<Rightarrow> json"
  assumes parse_defined: "parse s \<noteq> Undef"
    and parse_ok: "parse s = Ret j \<Longrightarrow> ok j"
    and ok_json: "ok j \<Longrightarrow> json_ok j"
    and dump_parse: "ok j \<Longrightarrow> \<exists>t. dump j = Ret t \<and> parse t = Ret (again j)"
    and ok_string: "ok (JStr s) = text_ok s"
    and ok_object: "ok (JObj m) = (smap_ok m \<and> list_all (\<lambda>e. text_ok (fst e) \<and> ok (snd e)) m)"
    and again_string: "again (JStr s) = JStr s"
    and again_object: "again (JObj m) = JObj (map (\<lambda>e. (fst e, again (snd e))) m)"
    and ascii_ok: "list_all (\<lambda>c. of_char c < (0x80 :: int)) s \<Longrightarrow> text_ok s"
begin

lemma parse_json_ok: "parse s = Ret j \<Longrightarrow> json_ok j"
  by (rule ok_json [OF parse_ok])

lemma member_ok: "ok (JObj m) \<Longrightarrow> map_of m k = Some v \<Longrightarrow> ok v"
  by (drule map_of_SomeD) (auto simp: ok_object list_all_iff)

lemma dump_parsed_member:
  assumes "parse s = Ret (JObj m)" and "map_of m k = Some v"
  obtains t where "dump v = Ret t"
  using dump_parse [OF member_ok [OF parse_ok [OF assms(1)] assms(2)]] that by blast

end

end
