(* ===== verification/PeakSpectrum.thy ===== *)
theory PeakSpectrum
  imports Base64 HttpClient Json
begin

text \<open>
  The spectrum of a measurement, \<open>PeakSpectrum\<close> of \<open>peakApi.cpp\<close>: the axes and the samples read from
  the description the analyser server sends, and the integral over one of the two directions of the
  image.

  The samples are the 32-bit words of the sample buffer.  Reading them inline, from a file and over
  HTTP writes bytes into the buffer, and a write behind its end is undefined behaviour.  The files
  are a parameter; the HTTP request is made with the client of \<open>HttpClient\<close>.
\<close>

section \<open>The sample buffer\<close>

record peak_spectrum =
  rank :: nat
  dims :: "nat list"
  xaxis :: "dbl list"
  yaxis :: "dbl list"
  zaxis :: "dbl list"
  sdata :: "32 word list"

definition empty_spectrum :: peak_spectrum where
  "empty_spectrum = \<lparr>rank = 0, dims = [0, 0, 0], xaxis = [], yaxis = [], zaxis = [], sdata = []\<rparr>"

text \<open>The bytes of the buffer, the least significant byte of a word first.\<close>

definition word_bytes :: "32 word \<Rightarrow> 8 word list" where
  "word_bytes w = [ucast w, ucast (drop_bit 8 w), ucast (drop_bit 16 w), ucast (drop_bit 24 w)]"

fun bytes_words :: "8 word list \<Rightarrow> 32 word list" where
  "bytes_words (a # b # c # d # bs) =
     (ucast a OR push_bit 8 (ucast b) OR push_bit 16 (ucast c) OR push_bit 24 (ucast d)) # bytes_words bs"
| "bytes_words _ = []"

definition char_byte :: "char \<Rightarrow> 8 word" where
  "char_byte c = word_of_nat (of_char c)"

text \<open>Copy bytes to the front of the buffer.\<close>

definition mem_copy :: "8 word list \<Rightarrow> 8 word list \<Rightarrow> 8 word list outcome" where
  "mem_copy src buf = (if length src \<le> length buf then Ret (src @ drop (length src) buf) else Undef)"

section \<open>Axes\<close>

text \<open>\<open>resize\<close> beyond the largest possible size throws; a negative count is such a size.\<close>

definition createAxis :: "json \<Rightarrow> dbl list outcome" where
  "createAxis axis =
     obind (obind (jat ''Count'' axis) jint) (\<lambda>count.
     obind (obind (jat ''Offset'' axis) jdouble) (\<lambda>offset.
     obind (obind (jat ''Delta'' axis) jdouble) (\<lambda>delta.
     obind (obind (jat ''Center'' axis) jdouble) (\<lambda>center.
     if count < 0 then Throw Length_error
     else if count = 1 then Ret [center]
     else Ret (map (\<lambda>i. offset + delta * dbl_of_int (int i)) [0..<nat count])))))"

text \<open>The three axes that may be there, in this order, each the next dimension.\<close>

definition add_axis ::
    "string \<Rightarrow> (dbl list \<Rightarrow> peak_spectrum \<Rightarrow> peak_spectrum) \<Rightarrow> json \<Rightarrow> peak_spectrum \<Rightarrow> peak_spectrum outcome" where
  "add_axis name put axes s =
     (if jcontains axes name then
        obind (obind (jat name axes) createAxis) (\<lambda>a.
        Ret ((put a s)\<lparr>dims := (dims s)[rank s := length a], rank := rank s + 1\<rparr>))
      else Ret s)"

definition read_axes :: "json \<Rightarrow> peak_spectrum \<Rightarrow> peak_spectrum outcome" where
  "read_axes axes s =
     obind (add_axis ''X'' (\<lambda>a s. s\<lparr>xaxis := a\<rparr>) axes (s\<lparr>rank := 0\<rparr>)) (\<lambda>s.
     obind (add_axis ''Y'' (\<lambda>a s. s\<lparr>yaxis := a\<rparr>) axes s) (\<lambda>s.
     add_axis ''Z'' (\<lambda>a s. s\<lparr>zaxis := a\<rparr>) axes s))"

section \<open>Samples\<close>

text \<open>The files: the bytes of a file if it can be opened, and its removal.\<close>

record 'w files =
  f_read :: "string \<Rightarrow> ('w, 8 word list option) prog"
  f_remove :: "string \<Rightarrow> ('w, unit) prog"

text \<open>A client object made for one request; it is destroyed on every way out.\<close>

definition http_fetch :: "'w net \<Rightarrow> string \<Rightarrow> string \<Rightarrow> ('w, string option) prog" where
  "http_fetch N uri pth = (\<lambda>w. case HTTPClient N uri of
       Throw e \<Rightarrow> Some (Throw e, w)
     | Undef \<Rightarrow> Some (Undef, w)
     | Ret c \<Rightarrow> Option.bind
         (try_catch
            (bnd (http_get N (retp ()) pth []) (\<lambda>r. sq (HTTPClient_destroy N) (retp r)))
            (\<lambda>e. sq (HTTPClient_destroy N) (throwp e)) (c, w))
         (\<lambda>(r, c, w). Some (r, w)))"

definition inline_samples :: "json \<Rightarrow> nat \<Rightarrow> 8 word list \<Rightarrow> 8 word list outcome" where
  "inline_samples attachment byteSize buf =
     obind (obind (jat ''InlineValue'' attachment) jstring) (\<lambda>v.
     base64_decode (map char_byte v) buf byteSize)"

definition file_samples :: "'w files \<Rightarrow> json \<Rightarrow> nat \<Rightarrow> 8 word list \<Rightarrow> ('w, 8 word list) prog" where
  "file_samples F attachment byteSize buf =
     bnd (liftp (obind (jat ''Address'' attachment) jstring)) (\<lambda>fname.
     bnd (f_read F fname) (\<lambda>contents. case contents of
       None \<Rightarrow> retp buf
     | Some bytes \<Rightarrow>
         bnd (liftp (mem_copy (take byteSize bytes) buf)) (\<lambda>buf.
         sq (f_remove F fname) (retp buf))))"

definition http_samples :: "'w net \<Rightarrow> json \<Rightarrow> string \<Rightarrow> 8 word list \<Rightarrow> ('w, 8 word list) prog" where
  "http_samples N attachment serverUri buf =
     bnd (liftp (obind (jat ''Address'' attachment) jstring)) (\<lambda>uri.
     case str_find ''/attachments'' uri of
       None \<Rightarrow> retp buf
     | Some pos \<Rightarrow>
         bnd (http_fetch N (if serverUri = [] then take pos uri else serverUri) (drop pos uri)) (\<lambda>value.
         case value of
           None \<Rightarrow> retp buf
         | Some v \<Rightarrow> liftp (mem_copy (map char_byte v) buf)))"

definition read_samples ::
    "'w net \<Rightarrow> 'w files \<Rightarrow> json \<Rightarrow> string \<Rightarrow> ('w, 32 word list option) prog" where
  "read_samples N F attachment serverUri =
     bnd (liftp (obind (jat ''HasValue'' attachment) jbool)) (\<lambda>hasValue.
     if \<not> hasValue then retp None
     else bnd (liftp (obind (jat ''Length'' attachment) jsize_t)) (\<lambda>byteSize.
       if 2 ^ 61 \<le> nat byteSize div 4 then throwp Length_error
       else let buf = replicate (4 * (nat byteSize div 4)) 0 in
       bnd (liftp (jat ''Mode'' attachment)) (\<lambda>mode.
       bnd (if mode = JStr ''Inline'' then liftp (inline_samples attachment (nat byteSize) buf)
            else if mode = JStr ''File'' then file_samples F attachment (nat byteSize) buf
            else if mode = JStr ''Http'' then http_samples N attachment serverUri buf
            else retp buf)
         (\<lambda>buf. retp (Some (bytes_words buf))))))"

definition fromSpectrumChannel ::
    "'w net \<Rightarrow> 'w files \<Rightarrow> json \<Rightarrow> string \<Rightarrow> peak_spectrum \<Rightarrow> ('w, peak_spectrum) prog" where
  "fromSpectrumChannel N F channel serverUri s =
     bnd (liftp (obind (jat ''SpectrumChannelSettings'' channel) (jat ''RequestedAxes''))) (\<lambda>axes.
     bnd (liftp (read_axes axes s)) (\<lambda>s.
     bnd (liftp (jat ''CountByteData'' channel)) (\<lambda>attachment.
     bnd (read_samples N F attachment serverUri) (\<lambda>d. case d of
       None \<Rightarrow> retp s
     | Some ws \<Rightarrow> retp (s\<lparr>sdata := ws\<rparr>)))))"

section \<open>Integration\<close>

text \<open>
  The sums over the rows of the image, the last frame of a three-dimensional data set.  The offset
  is computed in 64 bits; a sample outside the buffer is not to be read.
\<close>

definition frame_offset :: "peak_spectrum \<Rightarrow> nat" where
  "frame_offset s =
     (let frame = (if rank s = 3 then (dims s ! 2 + (2 ^ 64 - 1)) mod 2 ^ 64 else 0)
      in (dims s ! 0 * (dims s ! 1) * frame) mod 2 ^ 64)"

definition add_row :: "32 word list \<Rightarrow> nat \<Rightarrow> nat \<Rightarrow> nat \<Rightarrow> dbl list \<Rightarrow> dbl list outcome" where
  "add_row samples offset width j spectrum =
     omap (\<lambda>i. obind (vec_nth samples (int (offset + (j * width + i)))) (\<lambda>w.
       Ret (spectrum ! i + float_of_bits w))) [0..<width]"

primrec add_rows :: "32 word list \<Rightarrow> nat \<Rightarrow> nat \<Rightarrow> nat list \<Rightarrow> dbl list \<Rightarrow> dbl list outcome" where
  "add_rows samples offset width [] spectrum = Ret spectrum"
| "add_rows samples offset width (j # js) spectrum =
     obind (add_row samples offset width j spectrum) (add_rows samples offset width js)"

definition integrate :: "peak_spectrum \<Rightarrow> dbl list outcome" where
  "integrate s =
     add_rows (sdata s) (frame_offset s) (dims s ! 0) [0..<dims s ! 1] (replicate (dims s ! 0) (Fin 0))"

section \<open>Properties\<close>

lemma bytes_words_length: "length (bytes_words bs) = length bs div 4"
  by (induction bs rule: bytes_words.induct) auto

lemma bit_byte_word: "bit (ucast (b :: 8 word) :: 32 word) n \<longleftrightarrow> bit b n"
  using bit_imp_le_length [of b n] by (auto simp: bit_simps)

lemma bytes_words_word_bytes: "bytes_words (concat (map word_bytes ws)) = ws"
proof (induction ws)
  case (Cons w ws)
  have "ucast (ucast w :: 8 word) OR push_bit 8 (ucast (ucast (drop_bit 8 w) :: 8 word)) OR
      push_bit 16 (ucast (ucast (drop_bit 16 w) :: 8 word)) OR
      push_bit 24 (ucast (ucast (drop_bit 24 w) :: 8 word)) = w" (is "?l = _")
  proof (rule bit_word_eqI)
    fix n :: nat
    assume n: "n < LENGTH(32)"
    consider "n < 8" | "8 \<le> n" "n < 16" | "16 \<le> n" "n < 24" | "24 \<le> n" by linarith
    then show "bit ?l n = bit w n"
      using n by cases (auto simp: bit_simps)
  qed
  with Cons show ?case by (simp add: word_bytes_def)
qed simp

lemma length_word_bytes [simp]: "length (concat (map word_bytes ws)) = 4 * length ws"
  by (induction ws) (simp_all add: word_bytes_def)

text \<open>The character form of encoded bytes.\<close>

definition byte_char :: "8 word \<Rightarrow> char" where
  "byte_char b = char_of (unat b)"

lemma char_byte_byte_char [simp]: "char_byte (byte_char b) = b"
proof -
  have "unat b < 2 ^ LENGTH(8)" by (rule unsigned_less)
  then show ?thesis by (simp add: char_byte_def byte_char_def)
qed

text \<open>C32: an inline attachment of samples is read back exactly when their number is divisible by three; for any other
  number of samples the decoder writes outside the sample buffer.\<close>

theorem inline_spectrum_roundtrip:
  assumes "map_of m ''HasValue'' = Some (JBool True)" and "map_of m ''Mode'' = Some (JStr ''Inline'')"
    and "map_of m ''Length'' = Some (JUInt (4 * int (length ws)))"
    and "map_of m ''InlineValue'' = Some (JStr (map byte_char (b64_encode (concat (map word_bytes ws)))))"
    and "length ws < 2 ^ 61"
  shows "read_samples N F (JObj m) uri w =
    Some (if length ws mod 3 = 0 then Ret (Some ws) else Undef, w)"
proof -
  let ?bs = "concat (map word_bytes ws)" and ?n = "length ws"
  have size: "nat (4 * int ?n mod 2 ^ 64) = 4 * ?n"
  proof -
    have "4 * int ?n < 2 ^ 64" using assms(5) by (simp; linarith)
    then show ?thesis by (simp add: nat_mult_distrib)
  qed
  have bytes: "map char_byte (map byte_char (b64_encode ?bs)) = b64_encode ?bs"
    by (simp add: map_idI)
  have room: "padded (4 * ?n) \<le> 4 * ?n \<longleftrightarrow> ?n mod 3 = 0"
    unfolding padded_def by presburger
  have exact: "?n mod 3 = 0 \<Longrightarrow> fill3 ?bs = ?bs"
    by (rule fill3_exact) (simp, presburger)
  have padded: "?n mod 3 = 0 \<Longrightarrow> padded (4 * ?n) = 4 * ?n"
    unfolding padded_def by presburger
  show ?thesis
    using assms(1-4) size bytes room exact padded assms(5)
    by (simp add: read_samples_def jat_def inline_samples_def base64_decode_encode
      bytes_words_word_bytes)
qed

lemma inline_spectrum_roundtrip_witness:
  "read_samples peer_net \<lparr>f_read = (\<lambda>_. retp None), f_remove = (\<lambda>_. retp ())\<rparr>
     (JObj [(''HasValue'', JBool True), (''InlineValue'', JStr (map byte_char (b64_encode (concat (map word_bytes [1, 2]))))),
            (''Length'', JUInt 8), (''Mode'', JStr ''Inline'')]) [] (sample_peer [] []) = Some (Undef, sample_peer [] [])"
  using inline_spectrum_roundtrip [of "[(''HasValue'', JBool True),
      (''InlineValue'', JStr (map byte_char (b64_encode (concat (map word_bytes [1, 2]))))),
      (''Length'', JUInt 8), (''Mode'', JStr ''Inline'')]" "[1, 2]" peer_net
      "\<lparr>f_read = (\<lambda>_. retp None), f_remove = (\<lambda>_. retp ())\<rparr>" "[]" "sample_peer [] []"]
  by simp

text \<open>The sums of the rows.\<close>

definition sum_column :: "32 word list \<Rightarrow> nat \<Rightarrow> nat \<Rightarrow> nat list \<Rightarrow> dbl \<Rightarrow> nat \<Rightarrow> dbl" where
  "sum_column samples offset width js start i =
     foldl (\<lambda>acc j. acc + float_of_bits (samples ! (offset + (j * width + i)))) start js"

lemma omap_Undef:
  "(\<And>x. x \<in> set xs \<Longrightarrow> f x = Undef \<or> (\<exists>y. f x = Ret y)) \<Longrightarrow> \<exists>x \<in> set xs. f x = Undef \<Longrightarrow> omap f xs = Undef"
proof (induction xs)
  case (Cons x xs)
  show ?case
  proof (cases "f x = Undef")
    case False
    with Cons.prems obtain y where "f x = Ret y" by auto
    moreover from Cons.prems False have "omap f xs = Undef" by (intro Cons.IH) auto
    ultimately show ?thesis by simp
  qed simp
qed simp

lemma add_row_result:
  assumes "0 < width"
  shows "add_row samples offset width j sp =
    (if offset + j * width + width \<le> length samples
     then Ret (map (\<lambda>i. sp ! i + float_of_bits (samples ! (offset + (j * width + i)))) [0..<width]) else Undef)"
proof (cases "offset + j * width + width \<le> length samples")
  case True
  then show ?thesis
    unfolding add_row_def by (auto intro!: omap_Ret simp: vec_nth_def simp del: of_nat_add of_nat_mult)
next
  case False
  have "omap (\<lambda>i. obind (vec_nth samples (int (offset + (j * width + i)))) (\<lambda>w.
       Ret (sp ! i + float_of_bits w))) [0..<width] = Undef"
    by (rule omap_Undef) (use False assms in
      \<open>auto simp: vec_nth_def simp del: of_nat_add of_nat_mult intro!: bexI [of _ "width - 1"]\<close>)
  with False show ?thesis by (simp add: add_row_def)
qed

lemma add_rows_result:
  assumes "0 < width" and "length sp = width"
  shows "add_rows samples offset width js sp =
    (if \<forall>j \<in> set js. offset + j * width + width \<le> length samples
     then Ret (map (\<lambda>i. sum_column samples offset width js (sp ! i) i) [0..<width]) else Undef)"
  using assms(2)
proof (induction js arbitrary: sp)
  case Nil
  then show ?case using map_nth [of sp] by (auto simp: sum_column_def)
next
  case (Cons j js)
  then show ?case
    by (simp add: add_row_result [OF assms(1)] sum_column_def)
qed

text \<open>C34: the integral has one entry per column of the image, the sum of the samples of the column in the order of the
  rows, and no sample outside the buffer is read exactly when the frame lies inside it.\<close>

theorem integrate_sums:
  assumes "0 < dims s ! 0" and "0 < dims s ! 1"
  shows "integrate s =
    (if frame_offset s + dims s ! 1 * dims s ! 0 \<le> length (sdata s)
     then Ret (map (sum_column (sdata s) (frame_offset s) (dims s ! 0) [0..<dims s ! 1] (Fin 0)) [0..<dims s ! 0])
     else Undef)"
proof -
  let ?w = "dims s ! 0" and ?h = "dims s ! 1" and ?o = "frame_offset s"
  have "(\<forall>j \<in> set [0..<?h]. ?o + j * ?w + ?w \<le> length (sdata s)) \<longleftrightarrow> ?o + ?h * ?w \<le> length (sdata s)"
  proof
    assume "\<forall>j \<in> set [0..<?h]. ?o + j * ?w + ?w \<le> length (sdata s)"
    then have "?o + (?h - 1) * ?w + ?w \<le> length (sdata s)" using assms(2) by simp
    moreover have "(?h - 1) * ?w + ?w = ?h * ?w"
      using assms(2) by (metis add.commute mult_eq_if not_gr0)
    ultimately show "?o + ?h * ?w \<le> length (sdata s)" by linarith
  next
    assume l: "?o + ?h * ?w \<le> length (sdata s)"
    show "\<forall>j \<in> set [0..<?h]. ?o + j * ?w + ?w \<le> length (sdata s)"
    proof
      fix j
      assume "j \<in> set [0..<?h]"
      then have "Suc j * ?w \<le> ?h * ?w" by (intro mult_le_mono1) simp
      with l show "?o + j * ?w + ?w \<le> length (sdata s)" by simp
    qed
  qed
  then show ?thesis
    using assms by (simp add: integrate_def add_rows_result)
qed

lemma integrate_sums_witness:
  "integrate \<lparr>rank = 2, dims = [2, 2, 0], xaxis = [], yaxis = [], zaxis = [],
      sdata = [0x3F800000, 0x40000000, 0x40400000]\<rparr> = Undef"
  using integrate_sums [of "\<lparr>rank = 2, dims = [2, 2, 0], xaxis = [], yaxis = [], zaxis = [],
      sdata = [0x3F800000, 0x40000000, 0x40400000]\<rparr>"]
  by (simp add: frame_offset_def)

lemma axis_value_mono:
  assumes "is_finite offset" "is_finite delta" "0 \<le> dval delta" "i \<le> j" "j < 2 ^ 31"
  shows "dle (offset + delta * dbl_of_int (int i)) (offset + delta * dbl_of_int (int j))"
proof -
  have ij: "dbl_of_int (int i) = Fin (of_nat i)" "dbl_of_int (int j) = Fin (of_nat j)"
    using assms(4,5) by (simp_all add: in_i32_def)
  let ?s = "dneg_sign delta"
  have x: "delta * dbl_of_int (int k) = rnd ?s (dval delta * of_nat k)" if "k = i \<or> k = j" for k
  proof -
    have "delta \<noteq> NaN" using assms(2) by auto
    with that ij assms(2) show ?thesis by (auto simp: dbl_ops dmul_def)
  qed
  let ?x = "rnd ?s (dval delta * of_nat i)" and ?y = "rnd ?s (dval delta * of_nat j)"
  have mono: "dle ?x ?y"
    by (rule rnd_mono) (use assms(3,4) in \<open>simp add: mult_left_mono\<close>)
  have nonneg: "rnd ?s (dval delta * of_nat k) \<noteq> NInf" for k
    using assms(3) by (simp add: rnd_def not_less)
  have plus: "offset + y \<noteq> NaN" if "y \<noteq> NInf" "y \<noteq> NaN" for y
    using assms(1) that by (cases offset; cases y) (simp_all add: dbl_ops)
  show ?thesis
  proof (cases "?y = PInf")
    case True
    then have "offset + ?y = PInf" using assms(1) by (cases offset) (simp_all add: dbl_ops)
    with plus [OF nonneg] show ?thesis by (simp add: x dle_PInf)
  next
    case False
    then have "is_finite ?y" using nonneg [of j] rnd_not_NaN [of ?s "dval delta * of_nat j"]
      by (cases ?y) auto
    moreover from this mono have "is_finite ?x"
      using nonneg [of i] rnd_not_NaN [of ?s "dval delta * of_nat i"]
      by (cases ?x; cases ?y) (auto simp: dle_def)
    ultimately show ?thesis
      using mono by (simp add: x plus_left_mono_dbl [OF assms(1)] dle_finite)
  qed
qed

lemma plus_exact:
  "is_finite x \<Longrightarrow> is_finite y \<Longrightarrow> representable (dval x + dval y) \<Longrightarrow>
    is_finite (x + y) \<and> dval (x + y) = dval x + dval y"
  by (cases x; cases y) (simp_all add: dbl_ops rnd_False_exact)

lemma times_exact:
  "is_finite x \<Longrightarrow> representable (dval x * a) \<Longrightarrow> is_finite (x * Fin a) \<and> dval (x * Fin a) = dval x * a"
  using times_Fin_val [of "dval x" a] by (cases x) (auto simp: dbl_ops dmul_def rnd_def)

text \<open>The points an axis has: the center alone, or equal steps from the offset.\<close>

definition axis_points :: "dbl \<Rightarrow> dbl \<Rightarrow> dbl \<Rightarrow> dbl list \<Rightarrow> bool" where
  "axis_points offset delta center axis \<longleftrightarrow>
     (length axis = 1 \<longrightarrow> axis = [center]) \<and>
     (length axis \<noteq> 1 \<longrightarrow> (\<forall>i < length axis. axis ! i = offset + delta * Fin (of_nat i) \<and>
       (representable (dval delta * of_nat i) \<longrightarrow> representable (dval offset + dval delta * of_nat i) \<longrightarrow>
         is_finite (axis ! i) \<and> dval (axis ! i) = dval offset + dval delta * of_nat i)))"

lemma axis_points_exact:
  assumes "axis_points offset delta center axis" "i < length axis" "length axis \<noteq> 1"
    and "representable (dval delta * of_nat i)" "representable (dval offset + dval delta * of_nat i)"
  shows "dval (axis ! i) = dval offset + dval delta * of_nat i"
  using assms unfolding axis_points_def by blast

text \<open>C35: an axis has as many points as the server says: a single point is the center, and otherwise the point i is
  the offset and i steps, exactly so where no rounding happens.  The points never decrease when the step is not negative, and a
  negative number of points is refused with an exception.\<close>

theorem createAxis_monotone:
  assumes "map_of m ''Count'' = Some k" "json_count k n"
    and "map_of m ''Offset'' = Some x" "json_number x offset" and "map_of m ''Delta'' = Some y" "json_number y delta"
    and "map_of m ''Center'' = Some z" "json_number z center"
    and "is_finite offset" and "is_finite delta"
  shows "if n < 0 then createAxis (JObj m) = Throw Length_error
    else \<exists>axis. createAxis (JObj m) = Ret axis \<and> length axis = nat n \<and> axis_points offset delta center axis \<and>
      (0 \<le> dval delta \<longrightarrow> (\<forall>j < length axis. \<forall>i < j. dle (axis ! i) (axis ! j)))"
proof -
  have n: "in_i32 n" by (rule json_count_range [OF assms(2)])
  note reads = json_count_int [OF assms(2)] assms(4,6,8) [THEN json_number_double]
  have run: "createAxis (JObj m) = (if n < 0 then Throw Length_error
     else if n = 1 then Ret [center]
     else Ret (map (\<lambda>i. offset + delta * dbl_of_int (int i)) [0..<nat n]))"
    using assms(1,3,5,7) reads by (simp add: createAxis_def jat_def)
  have point: "dbl_of_int (int i) = Fin (of_nat i)" if "i < nat n" for i
  proof -
    have "in_i32 (int i)" using n that by (auto simp: in_i32_def)
    then show ?thesis by simp
  qed
  have "dle (offset + delta * dbl_of_int (int i)) (offset + delta * dbl_of_int (int j))"
    if "i < j" "j < nat n" "0 \<le> dval delta" for i j
    using that n by (intro axis_value_mono assms(9,10)) (auto simp: in_i32_def)
  moreover have "axis_points offset delta center (map (\<lambda>i. offset + delta * dbl_of_int (int i)) [0..<nat n])" if "n \<noteq> 1"
  proof -
    have "is_finite (offset + delta * Fin (of_nat i)) \<and>
        dval (offset + delta * Fin (of_nat i)) = dval offset + dval delta * of_nat i"
      if "representable (dval delta * of_nat i)" "representable (dval offset + dval delta * of_nat i)" for i
      using that plus_exact [OF assms(9), of "delta * Fin (of_nat i)"] times_exact [OF assms(10) that(1)] by simp
    moreover have "nat n \<noteq> 1" using that by auto
    ultimately show ?thesis by (simp add: axis_points_def point)
  qed
  moreover have "axis_points offset delta center [center]" by (simp add: axis_points_def)
  ultimately show ?thesis using run by (cases "n < 0"; cases "n = 1") simp_all
qed

lemma createAxis_monotone_witness:
  "(\<exists>axis. createAxis (JObj [(''Center'', JFloat (Fin 7)), (''Count'', JUInt 3), (''Delta'', JUInt 2),
     (''Offset'', JFloat (Fin 5))]) = Ret axis \<and> length axis = 3 \<and> dval (axis ! 2) = 9) \<and>
   createAxis (JObj [(''Center'', JUInt 0), (''Count'', JInt (- 2)), (''Delta'', JUInt 1), (''Offset'', JUInt 5)]) =
     Throw Length_error"
proof -
  have r: "representable (2 * of_nat 2)" "representable (5 + 2 * of_nat 2)"
    using representable_of_int [of 4] representable_of_int [of 9] by simp_all
  obtain axis where axis: "createAxis (JObj [(''Center'', JFloat (Fin 7)), (''Count'', JUInt 3), (''Delta'', JUInt 2),
      (''Offset'', JFloat (Fin 5))]) = Ret axis" "length axis = 3" "axis_points (Fin 5) (Fin 2) (Fin 7) axis"
    using createAxis_monotone [of "[(''Center'', JFloat (Fin 7)), (''Count'', JUInt 3), (''Delta'', JUInt 2),
        (''Offset'', JFloat (Fin 5))]" "JUInt 3" 3 "JFloat (Fin 5)" "Fin 5" "JUInt 2" "Fin 2" "JFloat (Fin 7)" "Fin 7"]
    by (auto simp: in_i32_def)
  then have "dval (axis ! 2) = 5 + 2 * of_nat 2" using axis_points_exact [OF axis(3), of 2] r by simp
  then show ?thesis
    using axis createAxis_monotone [of "[(''Center'', JUInt 0), (''Count'', JInt (- 2)), (''Delta'', JUInt 1),
        (''Offset'', JUInt 5)]" "JInt (- 2)" "- 2" "JUInt 5" "Fin 5" "JUInt 1" "Fin 1" "JUInt 0" "Fin 0"]
    by (auto simp: in_i32_def)
qed

end
