(* ===== verification/RpcHttp.thy ===== *)
theory RpcHttp
  imports HttpClient Json
begin

text \<open>
  JSON-RPC over HTTP: \<open>JsonRPCClientI.h\<close> and \<open>JsonRPCClientHTTP.cpp\<close>.  The client posts a call and
  classifies the reply; the notification server is a small HTTP server that the PEAK servers post
  their notifications to, with one thread that accepts connections and one per connection.

  The text form of JSON values is a parameter, the record \<open>json_text\<close>.  Other threads are a
  parameter too: a program that is run while a thread waits.
\<close>

section \<open>The interface of the JSON-RPC clients\<close>

text \<open>
  The virtual functions of \<open>JsonRPCClientI\<close>, over the state of the client and its surroundings.  A
  callback is a value of a type parameter: the theories that create callbacks choose the type.
\<close>

record ('cb, 's) rpc_client =
  rpc_scheme :: string
  rpc_call :: "string \<Rightarrow> json \<Rightarrow> ('s, json) prog"
  rpc_subscribe :: "string \<Rightarrow> 'cb \<Rightarrow> ('s, unit) prog"
  rpc_unsubscribe :: "string \<Rightarrow> ('s, unit) prog"
  rpc_notificationServer :: "('s, string) prog"

text \<open>
  What the users of a client rely on: the table of callbacks is changed by \<open>subscribe\<close> and
  \<open>unsubscribe\<close> as a map is, and by no call; once the client is ready it stays ready.
\<close>

locale json_rpc =
  fixes R :: "('cb, 's) rpc_client" and callbacks :: "'s \<Rightarrow> (string \<times> 'cb) list"
    and ready :: "'s \<Rightarrow> bool"
  assumes subscribe_callbacks: "ready s \<Longrightarrow>
      \<exists>s'. rpc_subscribe R t cb s = Some (Ret (), s') \<and> ready s' \<and>
        map_of (callbacks s') = (map_of (callbacks s))(t \<mapsto> cb)"
    and unsubscribe_callbacks: "ready s \<Longrightarrow>
      \<exists>s'. rpc_unsubscribe R t s = Some (Ret (), s') \<and> ready s' \<and>
        map_of (callbacks s') = (map_of (callbacks s))(t := None)"
    and call_callbacks: "ready s \<Longrightarrow> rpc_call R m p s = Some (r, s') \<Longrightarrow>
      ready s' \<and> callbacks s' = callbacks s"
    and server_returns: "ready s \<Longrightarrow> \<exists>a. rpc_notificationServer R s = Some (Ret a, s)"
    and scheme_known: "rpc_scheme R = ''http://'' \<or> rpc_scheme R = ''ws://''"

section \<open>JSON text\<close>

text \<open>\<open>json::parse\<close>, which fails on an invalid text, and \<open>dump\<close>, which throws on an invalid string.\<close>

record json_text =
  jt_parse :: "string \<Rightarrow> json outcome"
  jt_dump :: "json \<Rightarrow> string outcome"

text \<open>The call object both clients send.  The keys of an object are in alphabetical order.\<close>

definition rpc_request :: "32 word \<Rightarrow> string \<Rightarrow> json \<Rightarrow> json" where
  "rpc_request n method params = jobject
     [(''jsonrpc'', JStr ''2.0''), (''id'', JStr (nat_to_string (unat n))),
      (''method'', JStr method), (''params'', params)]"

section \<open>The notification server\<close>

datatype bind_result = BindOk | BindInUse | BindFailed

text \<open>Waiting for a connection: nothing came, the socket has an error, or a connection is there.\<close>

datatype listen_result = NoClient | ListenError | ClientWaiting

text \<open>\<open>accept\<close>: the error number says that the socket is unusable, an invalid descriptor, or a client.\<close>

datatype accept_result = AcceptFatal | AcceptFailed | Accepted nat

record 'w server_net = "'w net" +
  n_bind :: "nat \<Rightarrow> string \<Rightarrow> int \<Rightarrow> ('w, bind_result) prog"
  n_sock_port :: "nat \<Rightarrow> ('w, int) prog"
  n_listen :: "nat \<Rightarrow> ('w, bool) prog"
  n_select_accept :: "nat \<Rightarrow> int \<Rightarrow> ('w, listen_result) prog"
  n_accept :: "nat \<Rightarrow> ('w, accept_result) prog"

text \<open>The server with the connection threads it has started.\<close>

record 'cb notification_server =
  ns_listening :: bool
  ns_host :: string
  ns_port :: int
  ns_socket :: "nat option"
  ns_subscribers :: "(string \<times> 'cb) list"
  ns_stop :: bool
  ns_handlers :: "nat list"

type_synonym ('cb, 'w, 'a) server_prog = "('cb notification_server \<times> 'w, 'a) prog"

definition updn :: "('cb notification_server \<Rightarrow> 'cb notification_server) \<Rightarrow> ('cb, 'w, unit) server_prog" where
  "updn f = modp (\<lambda>s. (f (fst s), snd s))"

definition ns_subscribe :: "string \<Rightarrow> 'cb \<Rightarrow> 'cb notification_server \<Rightarrow> 'cb notification_server" where
  "ns_subscribe topic callback ns = ns\<lparr>ns_subscribers := smap_put topic callback (ns_subscribers ns)\<rparr>"

definition ns_unsubscribe :: "string \<Rightarrow> 'cb notification_server \<Rightarrow> 'cb notification_server" where
  "ns_unsubscribe topic ns = ns\<lparr>ns_subscribers := smap_del topic (ns_subscribers ns)\<rparr>"

definition ns_stop_server :: "'cb notification_server \<Rightarrow> 'cb notification_server" where
  "ns_stop_server ns = ns\<lparr>ns_stop := True\<rparr>"

definition give_up_socket :: "'w server_net \<Rightarrow> nat \<Rightarrow> ('cb, 'w, unit) server_prog" where
  "give_up_socket N d = sq (netp (n_destroy N d)) (updn (\<lambda>ns. ns\<lparr>ns_socket := None\<rparr>))"

text \<open>Bind to the port, or to a random one when it is taken.\<close>

definition bind_socket :: "'w server_net \<Rightarrow> nat \<Rightarrow> string \<Rightarrow> int \<Rightarrow> ('w, bool) prog" where
  "bind_socket N d address prt =
     bnd (n_bind N d address (prt mod 65536)) (\<lambda>status. case status of
       BindOk \<Rightarrow> retp True
     | BindInUse \<Rightarrow> bnd (n_bind N d address 0) (\<lambda>status. retp (status = BindOk))
     | BindFailed \<Rightarrow> retp False)"

definition createSocket :: "'w server_net \<Rightarrow> ('cb, 'w, unit) server_prog" where
  "createSocket N =
     bnd (netp (n_create N)) (\<lambda>f.
     sq (updn (\<lambda>ns. ns\<lparr>ns_socket := f\<rparr>)) (case f of
       None \<Rightarrow> retp ()
     | Some d \<Rightarrow>
         bnd (getsp fst) (\<lambda>ns.
         let address = (if ns_host ns = ''*'' then ''0.0.0.0''
              else case n_resolve N (ns_host ns) of Some ip \<Rightarrow> ip | None \<Rightarrow> ''0.0.0.0'')
         in bnd (netp (bind_socket N d address (ns_port ns))) (\<lambda>ok.
            if \<not> ok then give_up_socket N d
            else bnd (netp (n_sock_port N d)) (\<lambda>p.
              sq (updn (\<lambda>ns. ns\<lparr>ns_port := p\<rparr>))
              (bnd (netp (n_listen N d)) (\<lambda>ok.
              if \<not> ok then give_up_socket N d else retp ())))))))"

definition NotificationServer ::
    "'w server_net \<Rightarrow> string \<Rightarrow> int \<Rightarrow> ('w, 'cb notification_server) prog" where
  "NotificationServer N hst prt = (\<lambda>w.
     Option.bind (createSocket N (\<lparr>ns_listening = False, ns_host = hst, ns_port = prt, ns_socket = None,
        ns_subscribers = [], ns_stop = False, ns_handlers = []\<rparr>, w)) (\<lambda>(r, ns, w').
     case r of
       Ret u \<Rightarrow> Some (Ret (ns\<lparr>ns_listening := ns_socket ns \<noteq> None\<rparr>), w')
     | Throw e \<Rightarrow> Some (Throw e, w')
     | Undef \<Rightarrow> Some (Undef, w')))"

text \<open>The listener thread; \<open>others\<close> is what the other threads do while it waits.\<close>

partial_function (option) connectionListener ::
    "'w server_net \<Rightarrow> ('cb, 'w, unit) server_prog \<Rightarrow> 'cb notification_server \<times> 'w \<Rightarrow>
      (unit outcome \<times> 'cb notification_server \<times> 'w) option" where
  "connectionListener N others s =
     (if ns_stop (fst s) then retp ()
      else case ns_socket (fst s) of
        None \<Rightarrow> undefp
      | Some d \<Rightarrow>
          bnd (netp (n_select_accept N d 1)) (\<lambda>ret. sq others (case ret of
            NoClient \<Rightarrow> connectionListener N others
          | ListenError \<Rightarrow> retp ()
          | ClientWaiting \<Rightarrow>
              bnd (netp (n_accept N d)) (\<lambda>client. case client of
                AcceptFatal \<Rightarrow> retp ()
              | AcceptFailed \<Rightarrow> connectionListener N others
              | Accepted c \<Rightarrow>
                  sq (updn (\<lambda>ns. ns\<lparr>ns_handlers := ns_handlers ns @ [c]\<rparr>))
                     (connectionListener N others))))) s"

text \<open>
  \<open>sscanf\<close> of the method into an array of ten characters.  Without a word on the line the array
  is read uninitialised.
\<close>

definition scan_method :: "string \<Rightarrow> string outcome" where
  "scan_method line =
     (let method = takeWhile (\<lambda>c. \<not> is_space c) (dropWhile is_space (takeWhile (\<lambda>c. c \<noteq> CHR 0x00) line))
      in if method = [] \<or> 10 \<le> length method then Undef else Ret method)"

definition notification_ok :: string where
  "notification_ok = ''HTTP/1.1 204 OK'' @ CRLF @ ''Content-Length: 0'' @ CRLF @ CRLF"

text \<open>Parse a notification and run its callback; every exception ends here.\<close>

definition dispatch ::
    "json_text \<Rightarrow> ('cb \<Rightarrow> json \<Rightarrow> ('cb, 'w, unit) server_prog) \<Rightarrow> string \<Rightarrow> ('cb, 'w, unit) server_prog" where
  "dispatch T run content =
     try_catch
       (bnd (liftp (jt_parse T content)) (\<lambda>notification.
        bnd (liftp (jtouch ''method'' notification)) (\<lambda>notification.
        bnd (liftp (obind (jat ''method'' notification) jstring)) (\<lambda>method.
        bnd (liftp (jidx ''params'' notification)) (\<lambda>params.
        bnd (getsp (\<lambda>s. map_of (ns_subscribers (fst s)) method)) (\<lambda>callback. case callback of
          None \<Rightarrow> throwp Out_of_range
        | Some cb \<Rightarrow> run cb params))))))
       (\<lambda>e. retp ())"

text \<open>The content of a request; a content that cannot be read is empty.\<close>

definition request_content :: "'w net \<Rightarrow> nat \<Rightarrow> nat \<Rightarrow> ('w, string) prog" where
  "request_content N client len =
     (if len \<noteq> 0 then bnd (readFixedContent N client [] len) (\<lambda>(_, c). retp c) else retp [])"

text \<open>
  One request of a connection: the result is whether the connection thread goes on.  The socket is
  destroyed on every way out of the thread that is not an exception.
\<close>

definition handle_request ::
    "'w server_net \<Rightarrow> json_text \<Rightarrow> ('cb \<Rightarrow> json \<Rightarrow> ('cb, 'w, unit) server_prog) \<Rightarrow> nat \<Rightarrow>
      ('cb, 'w, bool) server_prog" where
  "handle_request N T run client =
     bnd (netp (readLine (net.truncate N) client)) (\<lambda>(ok, requestLine).
     if \<not> ok then sq (netp (n_destroy N client)) (retp False)
     else bnd (liftp (scan_method requestLine)) (\<lambda>method.
     if method \<noteq> ''POST'' then sq (netp (n_destroy N client)) (retp False)
     else bnd (netp (read_headers (net.truncate N) client [])) (\<lambda>(ok, hdrs).
     if \<not> ok then sq (netp (n_destroy N client)) (retp False)
     else bnd (liftp (header_fields (empty_response\<lparr>rs_headers := hdrs\<rparr>))) (\<lambda>r.
       bnd (netp (request_content (net.truncate N) client (rs_contentLength r))) (\<lambda>content.
       sq (dispatch T run content)
       (bnd (netp (sock_write (net.truncate N) client notification_ok)) (\<lambda>ok.
        if \<not> ok \<or> rs_reconnect r then sq (netp (n_destroy N client)) (retp False)
        else retp True)))))))"

partial_function (option) clientHandler ::
    "'w server_net \<Rightarrow> json_text \<Rightarrow> ('cb \<Rightarrow> json \<Rightarrow> ('cb, 'w, unit) server_prog) \<Rightarrow>
      ('cb, 'w, unit) server_prog \<Rightarrow> nat \<Rightarrow> 'cb notification_server \<times> 'w \<Rightarrow>
      (unit outcome \<times> 'cb notification_server \<times> 'w) option" where
  "clientHandler N T run others client s =
     (if ns_stop (fst s) then netp (n_destroy N client)
      else bnd (netp (n_select_read N client 1)) (\<lambda>ret. sq others (case ret of
        SelTimeout \<Rightarrow> clientHandler N T run others client
      | SelError \<Rightarrow> netp (n_destroy N client)
      | SelReady \<Rightarrow> bnd (handle_request N T run client) (\<lambda>go_on.
          if go_on then clientHandler N T run others client else retp ())))) s"

section \<open>The client\<close>

record json_rpc_http =
  rh_http :: http_client
  rh_msgId :: "32 word"

text \<open>The notification server is one object for all clients, created on the first connection.\<close>

type_synonym ('cb, 'w) rpc_world = "'cb notification_server option \<times> 'w"

type_synonym ('cb, 'w, 'a) rpc_http_prog = "(json_rpc_http \<times> ('cb, 'w) rpc_world, 'a) prog"

definition JsonRPCClientHTTP :: "'w server_net \<Rightarrow> string \<Rightarrow> json_rpc_http outcome" where
  "JsonRPCClientHTTP N uri =
     obind (HTTPClient (net.truncate N) uri) (\<lambda>c. Ret \<lparr>rh_http = c, rh_msgId = 0\<rparr>)"

definition connectionCallback :: "'w server_net \<Rightarrow> (http_client \<times> ('cb, 'w) rpc_world, unit) prog" where
  "connectionCallback N = (\<lambda>(c, ns, w). case ns of
       Some server \<Rightarrow> Some (Ret (), (c, ns, w))
     | None \<Rightarrow> Option.bind (NotificationServer N (mLocalHost c) 52320 w) (\<lambda>(r, w'). case r of
         Ret server \<Rightarrow> Some (Ret (), (c, Some server, w'))
       | Throw e \<Rightarrow> Some (Throw e, (c, None, w'))
       | Undef \<Rightarrow> Some (Undef, (c, None, w'))))"

definition rpc_headers :: headers where
  "rpc_headers = [(''Attachment-Mode'', ''Http''), (''Content-Type'', ''application/json'')]"

definition on_http :: "(http_client \<times> 'x, 'a) prog \<Rightarrow> (json_rpc_http \<times> 'x, 'a) prog" where
  "on_http m = zoom (\<lambda>s. (rh_http (fst s), snd s)) (\<lambda>t s. ((fst s)\<lparr>rh_http := fst t\<rparr>, snd t)) m"

text \<open>The reply: an error, a result, or something else.\<close>

definition http_reply :: "json_text \<Rightarrow> string \<Rightarrow> string \<Rightarrow> json outcome" where
  "http_reply T method value = (case jt_parse T value of
       Undef \<Rightarrow> Undef
     | Throw e \<Rightarrow> Throw (JsonRPCException BAD_RESPONSE (method @ '' invalid json: '' @ value))
     | Ret reply \<Rightarrow>
         if jcontains reply ''error'' then
           obind (jidx ''error'' reply) (\<lambda>e. obind (jt_dump T e) (\<lambda>d.
           Throw (JsonRPCException JSONRPC_ERROR (method @ '' error: '' @ d))))
         else if \<not> jcontains reply ''result'' then
           Throw (JsonRPCException BAD_RESPONSE (method @ '' invalid response: '' @ value))
         else jidx ''result'' reply)"

definition http_call ::
    "'w server_net \<Rightarrow> json_text \<Rightarrow> string \<Rightarrow> json \<Rightarrow> ('cb, 'w, json) rpc_http_prog" where
  "http_call N T method params =
     bnd (getsp (\<lambda>s. rh_msgId (fst s))) (\<lambda>n.
     sq (modp (\<lambda>s. ((fst s)\<lparr>rh_msgId := n + 1\<rparr>, snd s)))
     (bnd (liftp (jt_dump T (rpc_request n method params))) (\<lambda>content.
      bnd (getsp (\<lambda>s. mPath (rh_http (fst s)))) (\<lambda>pth.
      bnd (on_http (http_post (on_world (net.truncate N)) (connectionCallback N) pth rpc_headers content))
        (\<lambda>value. case value of
          None \<Rightarrow> throwp (JsonRPCException NETWORK_EXCEPTION (''JSON-RPC HTTP request failed: '' @ content))
        | Some v \<Rightarrow> liftp (http_reply T method v))))))"

text \<open>The server pointer is dereferenced unchecked.\<close>

definition on_server :: "('cb notification_server \<Rightarrow> 'cb notification_server) \<Rightarrow> ('cb, 'w, unit) rpc_http_prog" where
  "on_server f = bnd (getsp (\<lambda>s. fst (snd s))) (\<lambda>ns. case ns of
       None \<Rightarrow> undefp
     | Some server \<Rightarrow> modp (\<lambda>s. (fst s, Some (f server), snd (snd s))))"

definition http_subscribe :: "string \<Rightarrow> 'cb \<Rightarrow> ('cb, 'w, unit) rpc_http_prog" where
  "http_subscribe notification callback = on_server (ns_subscribe notification callback)"

definition http_unsubscribe :: "string \<Rightarrow> ('cb, 'w, unit) rpc_http_prog" where
  "http_unsubscribe notification = on_server (ns_unsubscribe notification)"

definition http_notificationServer :: "('cb, 'w, string) rpc_http_prog" where
  "http_notificationServer = bnd (getsp (\<lambda>s. fst (snd s))) (\<lambda>ns. case ns of
       None \<Rightarrow> undefp
     | Some server \<Rightarrow> retp (''http://'' @ ns_host server @ '':'' @ int_to_string (ns_port server)))"

definition http_rpc ::
    "'w server_net \<Rightarrow> json_text \<Rightarrow> ('cb, json_rpc_http \<times> ('cb, 'w) rpc_world) rpc_client" where
  "http_rpc N T = \<lparr>rpc_scheme = ''http://'', rpc_call = http_call N T, rpc_subscribe = http_subscribe,
     rpc_unsubscribe = http_unsubscribe, rpc_notificationServer = http_notificationServer\<rparr>"

section \<open>The client keeps the contract\<close>

definition http_callbacks :: "json_rpc_http \<times> ('cb, 'w) rpc_world \<Rightarrow> (string \<times> 'cb) list" where
  "http_callbacks s = (case fst (snd s) of None \<Rightarrow> [] | Some ns \<Rightarrow> ns_subscribers ns)"

definition http_ready :: "json_rpc_http \<times> ('cb, 'w) rpc_world \<Rightarrow> bool" where
  "http_ready s \<longleftrightarrow> fst (snd s) \<noteq> None \<and> smap_ok (http_callbacks s)"

lemma keeps_on_http: "keeps (\<lambda>s. Q (snd s)) m \<Longrightarrow> keeps (\<lambda>s. Q (snd s)) (on_http m)"
  by (fastforce simp: keeps_def on_http_def zoom_def bind_eq_Some_conv)

lemma keeps_connectionCallback: "keeps (\<lambda>s. fst (snd s) = Some ns) (connectionCallback N)"
  by (auto simp: keeps_def connectionCallback_def)

lemma keeps_http_call: "keeps (\<lambda>s. fst (snd s) = Some ns) (http_call N T m p)"
proof -
  have "keeps (\<lambda>s. fst (snd s) = Some ns)
      (on_http (http_post (on_world (net.truncate N)) (connectionCallback N) pth hd c))" for pth hd c
    using keeps_on_http [OF keeps_http_post [OF net_keeps_on_world [of "\<lambda>x. x = Some ns"] keeps_connectionCallback]] .
  then show ?thesis
    unfolding http_call_def by (intro keeps_intros keeps_modp) simp_all
qed

interpretation http: json_rpc "http_rpc N T" http_callbacks http_ready
proof unfold_locales
  fix s :: "json_rpc_http \<times> ('b, 'a) rpc_world" and t cb
  assume "http_ready s"
  then obtain h ns w where s: "s = (h, Some ns, w)" and ok: "smap_ok (ns_subscribers ns)"
    by (cases s) (auto simp: http_ready_def http_callbacks_def)
  show "\<exists>s'. rpc_subscribe (http_rpc N T) t cb s = Some (Ret (), s') \<and> http_ready s' \<and>
      map_of (http_callbacks s') = (map_of (http_callbacks s))(t \<mapsto> cb)"
    using ok by (simp add: s http_rpc_def http_subscribe_def on_server_def http_ready_def
      http_callbacks_def ns_subscribe_def smap_ok_put map_of_smap_put)
  show "\<exists>s'. rpc_unsubscribe (http_rpc N T) t s = Some (Ret (), s') \<and> http_ready s' \<and>
      map_of (http_callbacks s') = (map_of (http_callbacks s))(t := None)"
    using ok by (simp add: s http_rpc_def http_unsubscribe_def on_server_def http_ready_def
      http_callbacks_def ns_unsubscribe_def smap_ok_del map_of_smap_del)
  show "\<exists>a. rpc_notificationServer (http_rpc N T) s = Some (Ret a, s)"
    by (simp add: s http_rpc_def http_notificationServer_def)
next
  fix s s' :: "json_rpc_http \<times> ('b, 'a) rpc_world" and m p r
  assume ready: "http_ready s" and run: "rpc_call (http_rpc N T) m p s = Some (r, s')"
  then obtain ns where "fst (snd s) = Some ns" by (auto simp: http_ready_def)
  moreover from this have "fst (snd s') = Some ns"
    using keepsD [OF keeps_http_call _ run [unfolded http_rpc_def, simplified]] by simp
  ultimately show "http_ready s' \<and> http_callbacks s' = http_callbacks s"
    using ready by (simp add: http_ready_def http_callbacks_def)
next
  show "rpc_scheme (http_rpc N T) = ''http://'' \<or> rpc_scheme (http_rpc N T) = ''ws://''"
    by (simp add: http_rpc_def)
qed

section \<open>Servers over the scripted peer\<close>

definition peer_server_net :: "peer server_net" where
  "peer_server_net = net.extend peer_net
     \<lparr>n_bind = (\<lambda>_ _ p. retp (if p = 52320 then BindInUse else BindOk)), n_sock_port = (\<lambda>_. retp 40000),
      n_listen = (\<lambda>_. retp True), n_select_accept = (\<lambda>_ _. retp NoClient),
      n_accept = (\<lambda>_. retp AcceptFailed)\<rparr>"

lemma truncate_peer_server_net [simp]: "net.truncate peer_server_net = peer_net"
  by (simp add: peer_server_net_def net.truncate_def net.extend_def)

lemma peer_server_net_calls [simp]:
  "n_select_read peer_server_net = n_select_read peer_net" "n_destroy peer_server_net = n_destroy peer_net"
  by (simp_all add: peer_server_net_def net.extend_def)

text \<open>A notification as a PEAK server posts it.\<close>

definition print_notification :: "string \<Rightarrow> headers \<Rightarrow> string \<Rightarrow> string" where
  "print_notification pth hs body =
     ''POST '' @ pth @ '' HTTP/1.1'' @ CRLF
     @ concat (map print_header (hs @ framing_headers By_length body)) @ CRLF @ body"

definition notification_headers_ok :: "headers \<Rightarrow> bool" where
  "notification_headers_ok hs \<longleftrightarrow>
     (\<forall>h \<in> set hs. header_ok h \<and> fst h \<notin> set reserved \<and> fst h \<noteq> ''Connection'')"

text \<open>
  What a notification does to the server object, when its callbacks do \<open>f\<close>: nothing unless the body is
  an object with a subscribed method.
\<close>

definition deliver ::
    "json_text \<Rightarrow> ('cb \<Rightarrow> json \<Rightarrow> 'cb notification_server \<Rightarrow> 'cb notification_server) \<Rightarrow> string \<Rightarrow>
      'cb notification_server \<Rightarrow> 'cb notification_server" where
  "deliver T f body ns = (case jt_parse T body of
       Ret (JObj m) \<Rightarrow> (case map_of m ''method'' of
           Some (JStr method) \<Rightarrow> (case map_of (ns_subscribers ns) method of
               Some cb \<Rightarrow> f cb (case map_of m ''params'' of Some p \<Rightarrow> p | None \<Rightarrow> JNull) ns
             | None \<Rightarrow> ns)
         | _ \<Rightarrow> ns)
     | _ \<Rightarrow> ns)"

lemma dispatch_deliver:
  assumes "jt_parse T body \<noteq> Undef" and "\<And>j. jt_parse T body = Ret j \<Longrightarrow> json_ok j"
  shows "dispatch T (\<lambda>cb p. updn (f cb p)) body (ns, w) = Some (Ret (), (deliver T f body ns, w))"
proof (cases "jt_parse T body")
  case (Ret j)
  show ?thesis
  proof (cases j)
    case (JObj m)
    have ok: "smap_ok m" using assms(2) [OF Ret] by (simp add: JObj)
    then have okm: "smap_ok (smap_emplace ''method'' JNull m)" by (simp add: smap_ok_emplace)
    consider (str) mth where "map_of m ''method'' = Some (JStr mth)"
      | (other) "\<nexists>method. map_of m ''method'' = Some (JStr method)" by blast
    then show ?thesis
    proof cases
      case str
      then show ?thesis
        using ok okm by (cases "map_of (ns_subscribers ns) mth")
          (auto simp: dispatch_def deliver_def Ret JObj jtouch_def jidx_def jat_def map_of_smap_emplace
            updn_def try_catch_def smap_ok_emplace split: option.splits)
    next
      case other
      then show ?thesis
        using ok by (auto simp: dispatch_def deliver_def Ret JObj jtouch_def jat_def map_of_smap_emplace
            try_catch_def split: option.splits json.splits)
    qed
  qed (simp_all add: dispatch_def deliver_def Ret jtouch_def jat_def smap_emplace_def try_catch_def)
qed (use assms in \<open>simp_all add: dispatch_def deliver_def try_catch_def\<close>)

lemma scan_method_post: "scan_method (''POST '' @ r) = Ret ''POST''"
proof -
  let ?s = "takeWhile (\<lambda>c. c \<noteq> CHR 0x00) (''POST '' @ r)"
  have "?s = ''POST'' @ CHR '' '' # takeWhile (\<lambda>c. c \<noteq> CHR 0x00) r" by simp
  moreover have "\<not> is_space CHR ''O''" "\<not> is_space CHR ''S''" by (simp_all add: is_space_def)
  ultimately show ?thesis by (simp add: scan_method_def)
qed

lemma handle_request_peer:
  assumes in_w: "concat (incoming w) = print_notification pth hs body @ rest"
    and hs: "notification_headers_ok hs" and len: "length body < 2 ^ 31" and pth: "CHR 0x0A \<notin> set pth"
    and parse: "jt_parse T body \<noteq> Undef" "\<And>j. jt_parse T body = Ret j \<Longrightarrow> json_ok j"
  shows "\<exists>w'. handle_request peer_server_net T (\<lambda>cb p. updn (f cb p)) d (ns, w) =
      Some (Ret True, (deliver T f body ns, w')) \<and> concat (incoming w') = rest \<and>
    outgoing w' = outgoing w @ notification_ok"
proof -
  let ?line = "''POST '' @ pth @ '' HTTP/1.1''" and ?fh = "hs @ framing_headers By_length body"
  let ?hdr = "put_headers ?fh []"
  have fr: "framing_ok By_length body rest" using len by (simp add: framing_ok_def)
  have hs': "\<forall>h \<in> set hs. header_ok h \<and> fst h \<notin> set reserved"
    using hs by (auto simp: notification_headers_ok_def)
  obtain w1 where w1: "readLine peer_net d w = Some (Ret (True, ?line @ CRLF), w1)"
    "concat (incoming w1) = concat (map print_header ?fh) @ CRLF @ body @ rest"
    using peer.readLine_CRLF [of w ?line "concat (map print_header ?fh) @ CRLF @ body @ rest" d] in_w pth
    by (auto simp: print_notification_def)
  from framing_headers_ok [OF hs'] have "\<forall>h \<in> set ?fh. header_ok h" .
  with peer.read_headers_returns [of w1 ?fh "body @ rest" d "[]"] w1(2) obtain w2 where
    w2: "read_headers peer_net d [] w1 = Some (Ret (True, ?hdr), w2)" "concat (incoming w2) = body @ rest"
    by auto
  have "''Connection'' \<notin> fst ` set ?fh"
    using hs by (auto simp: notification_headers_ok_def framing_headers_def)
  then have "map_of ?hdr ''Connection'' = None"
    by (simp add: map_of_put_headers del: map_of_eq_None_iff)
  with framing_fields(1) [OF fr _ refl, of hs empty_response] hs' obtain r where
    r: "header_fields (empty_response\<lparr>rs_headers := ?hdr\<rparr>) = Ret r" "rs_contentLength r = length body"
    "\<not> rs_reconnect r" by (simp add: getHeaderValue_def)
  obtain w3 where w3: "request_content peer_net d (length body) w2 = Some (Ret body, w3)" "concat (incoming w3) = rest" "outgoing w3 = outgoing w2"
  proof (cases "body = []")
    case True
    with that [of w2] w2(2) show ?thesis by (simp add: request_content_def)
  next
    case False
    from peer.readFixed_returns [OF len, of d "[]" w2] w2(2) obtain w3 where
      w3: "readFixedContent peer_net d [] (length body) w2 = Some (Ret (True, body), w3)"
      "concat (incoming w3) = rest" by auto
    have "outgoing w3 = outgoing w2"
      by (rule peer.sent_keeps [OF keeps_readFixed [OF peer.keeps_recv] w3(1)])
    with that [of w3] w3 False show ?thesis by (simp add: request_content_def prog_runs)
  qed
  obtain w4 where w4: "sock_write peer_net d notification_ok w3 = Some (Ret True, w4)"
    "outgoing w4 = outgoing w3 @ notification_ok" "concat (incoming w4) = concat (incoming w3)"
    using peer.sock_write_returns [of d notification_ok w3] by blast
  have "outgoing w2 = outgoing w"
    using peer.sent_keeps [OF keeps_readLine [OF peer.keeps_recv] w1(1)]
      peer.sent_keeps [OF keeps_read_headers [OF peer.keeps_recv] w2(1)] by simp
  moreover have "handle_request peer_server_net T (\<lambda>cb p. updn (f cb p)) d (ns, w) =
      Some (Ret True, (deliver T f body ns, w4))"
    using scan_method_post [of "pth @ '' HTTP/1.1'' @ CRLF"]
    by (simp add: handle_request_def netp_runs w1(1) w2(1) w3(1) r prog_runs dispatch_deliver [OF parse] w4(1))
  ultimately show ?thesis using w3 w4 by simp
qed

lemma clientHandler_runs:
  assumes "concat (incoming w) = concat (map (print_notification pth hs) bodies)"
    and "notification_headers_ok hs" and "CHR 0x0A \<notin> set pth"
    and "\<forall>body \<in> set bodies. length body < 2 ^ 31 \<and> jt_parse T body \<noteq> Undef \<and>
          (\<forall>j. jt_parse T body = Ret j \<longrightarrow> json_ok j)"
    and "\<not> ns_stop ns" and "\<And>cb p ns. ns_stop (f cb p ns) = ns_stop ns"
  shows "\<exists>w'. clientHandler peer_server_net T (\<lambda>cb p. updn (f cb p)) (retp ()) d (ns, w) =
      Some (Ret (), (fold (deliver T f) bodies ns, w')) \<and>
    outgoing w' = outgoing w @ concat (replicate (length bodies) notification_ok)"
  using assms
proof (induction bodies arbitrary: ns w)
  case Nil
  from peer.readLine_returns [of d w] Nil.prems(1) obtain w' where
    w': "readLine peer_net d w = Some (Ret (False, []), w')" by auto
  have "outgoing w' = outgoing w"
    by (rule peer.sent_keeps [OF keeps_readLine [OF peer.keeps_recv] w'])
  with Nil.prems(5) show ?case
    by (subst clientHandler.simps)
      (simp add: netp_runs peer_select handle_request_def w' peer_destroy prog_runs netp_run)
next
  case (Cons body bodies)
  from handle_request_peer [of w pth hs body "concat (map (print_notification pth hs) bodies)" T f d ns]
    Cons.prems(1-4) obtain w1 where
    w1: "handle_request peer_server_net T (\<lambda>cb p. updn (f cb p)) d (ns, w) =
      Some (Ret True, (deliver T f body ns, w1))"
      "concat (incoming w1) = concat (map (print_notification pth hs) bodies)"
      "outgoing w1 = outgoing w @ notification_ok" by auto
  have stop: "\<not> ns_stop (deliver T f body ns)"
    using Cons.prems(5,6) by (simp add: deliver_def split: outcome.splits json.splits option.splits)
  have run: "clientHandler peer_server_net T (\<lambda>cb p. updn (f cb p)) (retp ()) d (ns, w) =
      clientHandler peer_server_net T (\<lambda>cb p. updn (f cb p)) (retp ()) d (deliver T f body ns, w1)"
    using Cons.prems(5) by (subst clientHandler.simps) (simp add: netp_runs peer_select prog_runs w1(1))
  have "\<forall>body \<in> set bodies. length body < 2 ^ 31 \<and> jt_parse T body \<noteq> Undef \<and>
      (\<forall>j. jt_parse T body = Ret j \<longrightarrow> json_ok j)" using Cons.prems(4) by simp
  from Cons.IH [OF w1(2) Cons.prems(2,3) this stop Cons.prems(6)] obtain w' where
    "clientHandler peer_server_net T (\<lambda>cb p. updn (f cb p)) (retp ()) d (deliver T f body ns, w1) =
      Some (Ret (), (fold (deliver T f) bodies (deliver T f body ns), w'))"
    "outgoing w' = outgoing w1 @ concat (replicate (length bodies) notification_ok)" by blast
  moreover from this(2) w1(3) have
    "outgoing w' = outgoing w @ concat (replicate (length (body # bodies)) notification_ok)" by simp
  moreover have "fold (deliver T f) (body # bodies) ns = fold (deliver T f) bodies (deliver T f body ns)"
    by simp
  ultimately show ?case using run by metis
qed

section \<open>Properties\<close>

text \<open>The notification thread of a connection runs the callbacks of the notifications in the order they
  arrive, ignores the ones that are invalid or not subscribed, acknowledges every one, and ends when the
  peer closes the connection.\<close>

lemma clientHandler_delivers:
  assumes "concat (incoming w) = concat (map (print_notification pth hs) bodies)"
    and "notification_headers_ok hs" and "CHR 0x0A \<notin> set pth"
    and "\<forall>body \<in> set bodies. length body < 2 ^ 31 \<and> jt_parse T body \<noteq> Undef \<and>
          (\<forall>j. jt_parse T body = Ret j \<longrightarrow> json_ok j)"
    and "\<not> ns_stop ns" and "\<And>cb p ns. ns_stop (f cb p ns) = ns_stop ns"
  shows "\<exists>w'. clientHandler peer_server_net T (\<lambda>cb p. updn (f cb p)) (retp ()) d (ns, w) =
      Some (Ret (), (fold (deliver T f) bodies ns, w')) \<and>
    outgoing w' = outgoing w @ concat (replicate (length bodies) notification_ok)"
  using assms by (rule clientHandler_runs)

definition sample_text :: json_text where
  "sample_text = \<lparr>jt_parse = (\<lambda>s. if s = ''n'' then Ret (jobject [(''method'', JStr ''State0''), (''params'', JInt 5)])
        else if s = ''r'' then Ret (jobject [(''id'', JStr ''0''), (''result'', JInt 7)])
        else Throw (Json_exception 101)),
     jt_dump = (\<lambda>j. Ret ''request'')\<rparr>"

definition sample_server :: "nat notification_server" where
  "sample_server = \<lparr>ns_listening = True, ns_host = ''10.0.0.1'', ns_port = 40000, ns_socket = Some 4,
     ns_subscribers = [(''State0'', 3)], ns_stop = False, ns_handlers = []\<rparr>"

lemma clientHandler_delivers_witness:
  "\<exists>w'. clientHandler peer_server_net sample_text
      (\<lambda>cb p. updn (\<lambda>ns. ns\<lparr>ns_handlers := ns_handlers ns @ [cb]\<rparr>)) (retp ()) 9
      (sample_server, sample_peer [concat (map (print_notification ''/'' []) [''n'', ''bad'', ''n''])] []) =
      Some (Ret (), (sample_server\<lparr>ns_handlers := [3, 3]\<rparr>, w')) \<and>
    outgoing w' = concat (replicate 3 notification_ok)"
proof -
  let ?w = "sample_peer [concat (map (print_notification ''/'' []) [''n'', ''bad'', ''n''])] []"
  let ?f = "\<lambda>(cb :: nat) (p :: json) ns. ns\<lparr>ns_handlers := ns_handlers ns @ [cb]\<rparr>"
  have "json_ok (jobject [(''method'', JStr ''State0''), (''params'', JInt 5)])"
    by (rule json_ok_jobject) simp
  then have "\<exists>w'. clientHandler peer_server_net sample_text (\<lambda>cb p. updn (?f cb p)) (retp ()) 9 (sample_server, ?w) =
      Some (Ret (), (fold (deliver sample_text ?f) [''n'', ''bad'', ''n''] sample_server, w')) \<and>
    outgoing w' = outgoing ?w @ concat (replicate (length [''n'', ''bad'', ''n'']) notification_ok)"
    by (intro clientHandler_delivers [of _ "''/''" "[]"])
      (auto simp: sample_peer_def sample_text_def sample_server_def notification_headers_ok_def)
  moreover have "fold (deliver sample_text ?f) [''n'', ''bad'', ''n''] sample_server =
      sample_server\<lparr>ns_handlers := [3, 3]\<rparr>"
    by (simp add: deliver_def sample_text_def sample_server_def jobject_def smap_emplace_def)
  ultimately show ?thesis by (simp add: sample_peer_def eval_nat_numeral)
qed

text \<open>A call on an open connection posts one request object with the next id, and its outcome is
  decided by the reply alone: the code, then whether the body is JSON, whether it holds an error, and
  whether it holds a result.\<close>

lemma http_call_reply:
  assumes "slot_open d (rh_http h)"
    and "concat (incoming w) = print_response code reason hs fr body @ rest"
    and "\<forall>h \<in> set hs. header_ok h \<and> fst h \<notin> set reserved"
    and "framing_ok fr body rest"
    and "code < 2 ^ 31" and "CHR 0x00 \<notin> set reason" and "CHR 0x0A \<notin> set reason"
    and "jt_dump T (rpc_request (rh_msgId h) method params) = Ret content"
  shows "\<exists>h' w'. http_call peer_server_net T method params (h, Some server, w) =
      Some (if code \<noteq> 200
            then Throw (JsonRPCException NETWORK_EXCEPTION (''JSON-RPC HTTP request failed: '' @ content))
            else http_reply T method body, (h', Some server, w')) \<and>
    rh_msgId h' = rh_msgId h + 1 \<and>
    outgoing w' = outgoing w @ request_data (rh_http h) (empty_request\<lparr>rq_method := ''POST'',
      rq_path := mPath (rh_http h), rq_headers := rpc_headers, rq_content := content\<rparr>)"
proof -
  let ?cb = "connectionCallback peer_server_net" and ?p = "mPath (rh_http h)"
  from peer_beside.post_returns [where w = "(Some server, w)", OF assms(1) _ assms(3-7), of ?cb ?p rpc_headers content]
    assms(2)
  obtain c' ns' w' where post: "http_post (on_world peer_net) ?cb ?p rpc_headers content (rh_http h, Some server, w) =
      Some (Ret (if code = 200 then Some body else None), (c', ns', w'))"
    "outgoing w' = outgoing w @ request_data (rh_http h) (empty_request\<lparr>rq_method := ''POST'',
      rq_path := ?p, rq_headers := rpc_headers, rq_content := content\<rparr>)"
    by auto
  let ?h = "h\<lparr>rh_msgId := rh_msgId h + 1\<rparr>"
  have on: "on_http (http_post (on_world peer_net) ?cb ?p rpc_headers content) (?h, Some server, w) =
      Some (Ret (if code = 200 then Some body else None), (?h\<lparr>rh_http := c'\<rparr>, ns', w'))"
    by (simp add: on_http_def zoom_def post(1))
  have run: "http_call peer_server_net T method params (h, Some server, w) =
      Some (if code \<noteq> 200
            then Throw (JsonRPCException NETWORK_EXCEPTION (''JSON-RPC HTTP request failed: '' @ content))
            else http_reply T method body, (?h\<lparr>rh_http := c'\<rparr>, ns', w'))"
    by (simp add: http_call_def assms(8) bnd_run_Ret [where m = "on_http _", OF on])
  moreover have "ns' = Some server"
    using keepsD [OF keeps_http_call _ run, of server] by simp
  ultimately show ?thesis using post(2) by simp
qed

lemma http_call_outcome:
  assumes "slot_open d (rh_http h)"
    and "concat (incoming w) = print_response code reason hs fr body @ rest"
    and "\<forall>h \<in> set hs. header_ok h \<and> fst h \<notin> set reserved"
    and "framing_ok fr body rest"
    and "code < 2 ^ 31" and "CHR 0x00 \<notin> set reason" and "CHR 0x0A \<notin> set reason"
    and "jt_dump T (rpc_request (rh_msgId h) method params) = Ret content"
  shows "\<exists>h' w'. http_call peer_server_net T method params (h, Some server, w) =
      Some (if code \<noteq> 200
            then Throw (JsonRPCException NETWORK_EXCEPTION (''JSON-RPC HTTP request failed: '' @ content))
            else case jt_parse T body of
              Ret (JObj m) \<Rightarrow>
                (case (map_of m ''error'', map_of m ''result'') of
                   (Some e, _) \<Rightarrow> obind (jt_dump T e) (\<lambda>t.
                     Throw (JsonRPCException JSONRPC_ERROR (method @ '' error: '' @ t)))
                 | (None, Some r) \<Rightarrow> Ret r
                 | (None, None) \<Rightarrow> Throw (JsonRPCException BAD_RESPONSE (method @ '' invalid response: '' @ body)))
            | Ret _ \<Rightarrow> Throw (JsonRPCException BAD_RESPONSE (method @ '' invalid response: '' @ body))
            | Throw _ \<Rightarrow> Throw (JsonRPCException BAD_RESPONSE (method @ '' invalid json: '' @ body))
            | Undef \<Rightarrow> Undef, (h', Some server, w')) \<and>
    rh_msgId h' = rh_msgId h + 1 \<and>
    outgoing w' = outgoing w @ request_data (rh_http h) (empty_request\<lparr>rq_method := ''POST'',
      rq_path := mPath (rh_http h), rq_headers := rpc_headers, rq_content := content\<rparr>)"
proof -
  have "http_reply T method body = (case jt_parse T body of
              Ret (JObj m) \<Rightarrow>
                (case (map_of m ''error'', map_of m ''result'') of
                   (Some e, _) \<Rightarrow> obind (jt_dump T e) (\<lambda>t.
                     Throw (JsonRPCException JSONRPC_ERROR (method @ '' error: '' @ t)))
                 | (None, Some r) \<Rightarrow> Ret r
                 | (None, None) \<Rightarrow> Throw (JsonRPCException BAD_RESPONSE (method @ '' invalid response: '' @ body)))
            | Ret _ \<Rightarrow> Throw (JsonRPCException BAD_RESPONSE (method @ '' invalid response: '' @ body))
            | Throw _ \<Rightarrow> Throw (JsonRPCException BAD_RESPONSE (method @ '' invalid json: '' @ body))
            | Undef \<Rightarrow> Undef)"
    by (auto simp: http_reply_def jcontains_def jidx_def jtouch_def jat_def smap_emplace_def
        split: outcome.split json.split option.split)
  with http_call_reply [OF assms] show ?thesis by (simp only:)
qed

lemma http_call_outcome_witness:
  "\<exists>h' w'. http_call peer_server_net sample_text ''GetState'' (JArr [])
      (\<lparr>rh_http = sample_client, rh_msgId = 0xFFFFFFFF\<rparr>, Some sample_server,
       sample_peer [print_response 200 ''OK'' [] By_length ''r''] []) =
      Some (Ret (JInt 7), (h', Some sample_server, w')) \<and> rh_msgId h' = 0"
  using http_call_outcome [of 3 "\<lparr>rh_http = sample_client, rh_msgId = 0xFFFFFFFF\<rparr>"
      "sample_peer [print_response 200 ''OK'' [] By_length ''r''] []" 200 "''OK''" "[]" By_length "''r''" "[]"
      sample_text "''GetState''" "JArr []" "''request''" sample_server]
  by (auto simp: slot_open_def sample_client_def sample_peer_def framing_ok_def sample_text_def
    jobject_def smap_emplace_def)

end
