(* ===== verification/RpcWs.thy ===== *)
theory RpcWs
  imports RpcHttp
begin

text \<open>
  JSON-RPC over a WebSocket: \<open>JsonRPCClientWS.cpp\<close>.

  Two threads share the client object.  The thread of the WebSocket library runs the four handlers,
  one for each network event; the calling thread sends a message and waits for a binary event
  that the handlers signal.  The library is a parameter, the record \<open>ws_net\<close>: its calls, and the
  events it delivers, at the points where the calling thread can be overtaken and while it waits.
  A wait to which no event comes does not return.
\<close>

section \<open>Data\<close>

datatype ws_event = Opened | Failed | Closed | Message bool string

record 'w ws_net =
  w_get_connection :: "string \<Rightarrow> ('w, nat option) prog"
  w_connect :: "nat \<Rightarrow> ('w, unit) prog"
  w_send :: "nat option \<Rightarrow> string \<Rightarrow> ('w, string option) prog"
  w_close :: "nat option \<Rightarrow> ('w, string option) prog"
  w_overtake :: "('w, ws_event list) prog"
  w_next :: "('w, ws_event) prog"

text \<open>A callback that was looked up and not found is an empty function in the table.\<close>

record 'cb ws_client =
  ws_uri :: string
  m_connected :: bool
  m_hdl :: "nat option"
  m_response :: json
  m_event :: bool
  m_msgId :: "32 word"
  m_callbacks :: "(string \<times> 'cb option) list"

type_synonym ('cb, 'w, 'a) ws_prog = "('cb ws_client \<times> 'w, 'a) prog"

definition updw :: "('cb ws_client \<Rightarrow> 'cb ws_client) \<Rightarrow> ('cb, 'w, unit) ws_prog" where
  "updw f = modp (\<lambda>s. (f (fst s), snd s))"

definition JsonRPCClientWS :: "string \<Rightarrow> 'cb ws_client" where
  "JsonRPCClientWS uri = \<lparr>ws_uri = uri, m_connected = False, m_hdl = None, m_response = JNull,
     m_event = False, m_msgId = 1, m_callbacks = []\<rparr>"

section \<open>The handlers\<close>

definition on_open :: "'cb ws_client \<Rightarrow> 'cb ws_client" where
  "on_open c = c\<lparr>m_connected := True, m_event := True\<rparr>"

definition on_fail :: "'cb ws_client \<Rightarrow> 'cb ws_client" where
  "on_fail c = c\<lparr>m_connected := False, m_event := True\<rparr>"

definition on_close :: "'cb ws_client \<Rightarrow> 'cb ws_client" where
  "on_close c = c\<lparr>m_connected := False, m_event := True\<rparr>"

text \<open>The lookup \<open>m_callbacks[method]\<close> adds an empty function, whose call throws.\<close>

definition run_callback ::
    "('cb \<Rightarrow> json \<Rightarrow> ('w, unit) prog) \<Rightarrow> string \<Rightarrow> json \<Rightarrow> ('cb, 'w, unit) ws_prog" where
  "run_callback run method params =
     sq (updw (\<lambda>c. c\<lparr>m_callbacks := smap_emplace method None (m_callbacks c)\<rparr>))
     (bnd (getsp (\<lambda>s. map_of (m_callbacks (fst s)) method)) (\<lambda>cb. case cb of
        Some (Some f) \<Rightarrow> netp (run f params)
      | _ \<Rightarrow> throwp (Runtime_error ''bad_function_call'')))"

definition on_message ::
    "json_text \<Rightarrow> ('cb \<Rightarrow> json \<Rightarrow> ('w, unit) prog) \<Rightarrow> bool \<Rightarrow> string \<Rightarrow> ('cb, 'w, unit) ws_prog" where
  "on_message T run text payload =
     (if \<not> text then retp ()
      else case jt_parse T payload of
        Undef \<Rightarrow> undefp
      | Throw e \<Rightarrow> retp ()
      | Ret message \<Rightarrow>
          if jcontains message ''id'' then updw (\<lambda>c. c\<lparr>m_response := message, m_event := True\<rparr>)
          else bnd (liftp (jtouch ''method'' message)) (\<lambda>message.
            bnd (liftp (obind (jat ''method'' message) jstring)) (\<lambda>method.
            bnd (liftp (jidx ''params'' message)) (\<lambda>params.
            try_catch (run_callback run method params) (\<lambda>e. retp ())))))"

definition handle_event ::
    "json_text \<Rightarrow> ('cb \<Rightarrow> json \<Rightarrow> ('w, unit) prog) \<Rightarrow> ws_event \<Rightarrow> ('cb, 'w, unit) ws_prog" where
  "handle_event T run e = (case e of
       Opened \<Rightarrow> updw on_open
     | Failed \<Rightarrow> updw on_fail
     | Closed \<Rightarrow> updw on_close
     | Message text payload \<Rightarrow> on_message T run text payload)"

section \<open>The two threads\<close>

text \<open>An exception that leaves a handler ends the program.\<close>

definition io_thread :: "('s, unit) prog \<Rightarrow> ('s, unit) prog" where
  "io_thread m = try_catch m (\<lambda>e. undefp)"

definition overtake ::
    "'w ws_net \<Rightarrow> json_text \<Rightarrow> ('cb \<Rightarrow> json \<Rightarrow> ('w, unit) prog) \<Rightarrow> ('cb, 'w, unit) ws_prog" where
  "overtake N T run = bnd (netp (w_overtake N)) (\<lambda>es. forp (\<lambda>e. io_thread (handle_event T run e)) es)"

text \<open>\<open>epicsEventWait\<close>: the event is cleared when the wait is over.\<close>

partial_function (option) event_wait ::
    "'w ws_net \<Rightarrow> json_text \<Rightarrow> ('cb \<Rightarrow> json \<Rightarrow> ('w, unit) prog) \<Rightarrow> 'cb ws_client \<times> 'w \<Rightarrow>
      (unit outcome \<times> 'cb ws_client \<times> 'w) option" where
  "event_wait N T run s =
     (if m_event (fst s) then updw (\<lambda>c. c\<lparr>m_event := False\<rparr>)
      else bnd (netp (w_next N)) (\<lambda>e. sq (io_thread (handle_event T run e)) (event_wait N T run))) s"

section \<open>The calls\<close>

definition ws_connect ::
    "'w ws_net \<Rightarrow> json_text \<Rightarrow> ('cb \<Rightarrow> json \<Rightarrow> ('w, unit) prog) \<Rightarrow> ('cb, 'w, unit) ws_prog" where
  "ws_connect N T run =
     bnd (getsp (\<lambda>s. ws_uri (fst s))) (\<lambda>uri.
     bnd (netp (w_get_connection N uri)) (\<lambda>con. case con of
       None \<Rightarrow> retp ()
     | Some con \<Rightarrow>
         sq (updw (\<lambda>c. c\<lparr>m_hdl := Some con\<rparr>))
         (sq (netp (w_connect N con))
         (event_wait N T run))))"

definition ws_reply :: "json_text \<Rightarrow> string \<Rightarrow> json \<Rightarrow> json outcome" where
  "ws_reply T method response =
     (if jcontains response ''error'' then
        obind (jidx ''error'' response) (\<lambda>e. obind (jt_dump T e) (\<lambda>d.
        Throw (JsonRPCException JSONRPC_ERROR (method @ '' error: '' @ d))))
      else if \<not> jcontains response ''result'' then
        obind (jt_dump T response) (\<lambda>d.
        Throw (JsonRPCException BAD_RESPONSE (method @ '' invalid response: '' @ d)))
      else jidx ''result'' response)"

definition ws_call ::
    "'w ws_net \<Rightarrow> json_text \<Rightarrow> ('cb \<Rightarrow> json \<Rightarrow> ('w, unit) prog) \<Rightarrow> string \<Rightarrow> json \<Rightarrow> ('cb, 'w, json) ws_prog" where
  "ws_call N T run method params =
     sq (overtake N T run)
     (bnd (getsp (\<lambda>s. m_connected (fst s))) (\<lambda>con.
      sq (whenp (\<not> con) (ws_connect N T run))
      (bnd (getsp (\<lambda>s. m_msgId (fst s))) (\<lambda>n.
       sq (updw (\<lambda>c. c\<lparr>m_msgId := n + 1\<rparr>))
       (bnd (liftp (jt_dump T (rpc_request n method params))) (\<lambda>content.
        sq (overtake N T run)
        (sq (updw (\<lambda>c. c\<lparr>m_response := JNull\<rparr>))
        (sq (overtake N T run)
        (bnd (getsp (\<lambda>s. m_hdl (fst s))) (\<lambda>hdl.
         bnd (netp (w_send N hdl content)) (\<lambda>ec. case ec of
           Some msg \<Rightarrow> throwp (JsonRPCException NETWORK_EXCEPTION (''JSON-RPC WebSocket send failed: '' @ msg))
         | None \<Rightarrow>
             sq (event_wait N T run)
             (bnd (getsp (\<lambda>s. m_response (fst s))) (\<lambda>response.
              liftp (ws_reply T method response))))))))))))))"

definition ws_subscribe :: "string \<Rightarrow> 'cb \<Rightarrow> ('cb, 'w, unit) ws_prog" where
  "ws_subscribe notification callback =
     updw (\<lambda>c. c\<lparr>m_callbacks := smap_put notification (Some callback) (m_callbacks c)\<rparr>)"

definition ws_unsubscribe :: "string \<Rightarrow> ('cb, 'w, unit) ws_prog" where
  "ws_unsubscribe notification = updw (\<lambda>c. c\<lparr>m_callbacks := smap_del notification (m_callbacks c)\<rparr>)"

definition ws_close :: "'w ws_net \<Rightarrow> ('cb, 'w, unit) ws_prog" where
  "ws_close N =
     bnd (getsp (\<lambda>s. m_hdl (fst s))) (\<lambda>hdl. bnd (netp (w_close N hdl)) (\<lambda>ec. retp ()))"

definition ws_rpc ::
    "'w ws_net \<Rightarrow> json_text \<Rightarrow> ('cb \<Rightarrow> json \<Rightarrow> ('w, unit) prog) \<Rightarrow> ('cb, 'cb ws_client \<times> 'w) rpc_client" where
  "ws_rpc N T run = \<lparr>rpc_scheme = ''ws://'', rpc_call = ws_call N T run, rpc_subscribe = ws_subscribe,
     rpc_unsubscribe = ws_unsubscribe, rpc_notificationServer = retp ''''\<rparr>"

section \<open>The client keeps the contract\<close>

definition ws_callbacks :: "'cb ws_client \<times> 'w \<Rightarrow> (string \<times> 'cb) list" where
  "ws_callbacks s = List.map_filter (\<lambda>e. map_option (Pair (fst e)) (snd e)) (m_callbacks (fst s))"

definition ws_ready :: "'cb ws_client \<times> 'w \<Rightarrow> bool" where
  "ws_ready s \<longleftrightarrow> smap_ok (m_callbacks (fst s))"

lemma map_of_map_filter:
  "smap_ok m \<Longrightarrow> map_of (List.map_filter (\<lambda>e. map_option (Pair (fst e)) (snd e)) m) k =
     (case map_of m k of Some v \<Rightarrow> v | None \<Rightarrow> None)"
proof (induction m)
  case Nil
  then show ?case by (simp add: map_filter_simps)
next
  case (Cons e m)
  obtain k' v where e: "e = (k', v)" by fastforce
  have ok: "smap_ok m" and notin: "k' \<notin> fst ` set m"
    using Cons.prems by (auto simp: smap_ok_def e)
  show ?case
  proof (cases "k = k'")
    case True
    then have "map_of m k = None" using notin by (simp add: map_of_eq_None_iff)
    with Cons.IH [OF ok] True show ?thesis by (cases v) (simp_all add: e map_filter_simps)
  next
    case False
    with Cons.IH [OF ok] show ?thesis by (cases v) (simp_all add: e map_filter_simps)
  qed
qed

lemma map_filter_emplace:
  "List.map_filter (\<lambda>e. map_option (Pair (fst e)) (snd e)) (smap_emplace k None m) =
   List.map_filter (\<lambda>e. map_option (Pair (fst e)) (snd e)) m"
proof -
  have "k \<notin> fst ` set m \<Longrightarrow> List.map_filter (\<lambda>e. map_option (Pair (fst e)) (snd e)) (smap_put k None m) =
      List.map_filter (\<lambda>e. map_option (Pair (fst e)) (snd e)) m"
    by (induction m) (auto simp: map_filter_simps split: option.split)
  then show ?thesis by (simp add: smap_emplace_def map_of_eq_None_iff)
qed

text \<open>The table as a property that every step of the I/O thread keeps.\<close>

definition table_is :: "(string \<times> 'cb) list \<Rightarrow> 'cb ws_client \<times> 'w \<Rightarrow> bool" where
  "table_is t s \<longleftrightarrow> ws_ready s \<and> ws_callbacks s = t"

lemma keeps_updw [keeps_intros]:
  "(\<And>c. m_callbacks (f c) = m_callbacks c) \<Longrightarrow> keeps (table_is t) (updw f)"
  by (auto simp: keeps_def updw_def table_is_def ws_ready_def ws_callbacks_def)

lemma keeps_table_netp [keeps_intros]: "keeps (table_is t) (netp m)"
  by (auto simp: keeps_def netp_def zoom_def bind_eq_Some_conv table_is_def ws_ready_def ws_callbacks_def)

lemma keeps_run_callback: "keeps (table_is t) (run_callback run m p)"
proof -
  have "keeps (table_is t) (updw (\<lambda>c. c\<lparr>m_callbacks := smap_emplace m None (m_callbacks c)\<rparr>))"
    by (auto simp: keeps_def updw_def table_is_def ws_ready_def ws_callbacks_def map_filter_emplace
        smap_ok_emplace)
  then show ?thesis unfolding run_callback_def by (rule keeps_sq) (intro keeps_intros)
qed

lemma keeps_handle_event: "keeps (table_is t) (handle_event T run e)"
proof -
  have "keeps (table_is t) (on_message T run x p)" for x p
    unfolding on_message_def
    by (cases "jt_parse T p") (auto intro!: keeps_intros keeps_run_callback)
  then show ?thesis
    unfolding handle_event_def
    by (cases e) (auto intro!: keeps_intros simp: on_open_def on_fail_def on_close_def)
qed

lemma event_wait_keeps:
  "event_wait N T run s = Some x \<Longrightarrow> table_is t s \<Longrightarrow> table_is t (snd x)"
proof (induction N T run s x rule: event_wait.raw_induct [rotated, consumes 1, case_names step])
  case (step f N T run s x)
  have rec: "keeps (table_is t) (f N T run)"
    unfolding keeps_def using step(1) by (metis snd_conv)
  show ?case
    using step(2,3) by (rule keeps_Some [rotated])
      (intro keeps_intros rec; simp add: io_thread_def keeps_handle_event keeps_intros)
qed

lemma keeps_event_wait [keeps_intros]: "keeps (table_is t) (event_wait N T run)"
  unfolding keeps_def using event_wait_keeps by (metis snd_conv)

lemma keeps_ws_call: "keeps (table_is t) (ws_call N T run m p)"
proof -
  have over: "keeps (table_is t) (overtake N T run)"
    unfolding overtake_def io_thread_def by (intro keeps_intros keeps_handle_event)
  have con: "keeps (table_is t) (ws_connect N T run)"
    unfolding ws_connect_def by (intro keeps_intros) simp
  show ?thesis
    unfolding ws_call_def by (intro keeps_intros over con) simp_all
qed

interpretation ws: json_rpc "ws_rpc N T run" ws_callbacks ws_ready
proof unfold_locales
  fix s :: "'b ws_client \<times> 'a" and t cb
  assume "ws_ready s"
  then have ok: "smap_ok (m_callbacks (fst s))" by (simp add: ws_ready_def)
  show "\<exists>s'. rpc_subscribe (ws_rpc N T run) t cb s = Some (Ret (), s') \<and> ws_ready s' \<and>
      map_of (ws_callbacks s') = (map_of (ws_callbacks s))(t \<mapsto> cb)"
    using ok by (simp add: ws_rpc_def ws_subscribe_def updw_def ws_ready_def ws_callbacks_def smap_ok_put
      fun_eq_iff map_of_map_filter map_of_smap_put)
  show "\<exists>s'. rpc_unsubscribe (ws_rpc N T run) t s = Some (Ret (), s') \<and> ws_ready s' \<and>
      map_of (ws_callbacks s') = (map_of (ws_callbacks s))(t := None)"
    using ok by (simp add: ws_rpc_def ws_unsubscribe_def updw_def ws_ready_def ws_callbacks_def smap_ok_del
      fun_eq_iff map_of_map_filter map_of_smap_del)
  show "\<exists>a. rpc_notificationServer (ws_rpc N T run) s = Some (Ret a, s)"
    by (simp add: ws_rpc_def)
next
  fix s s' :: "'b ws_client \<times> 'a" and m p r
  assume "ws_ready s" and "rpc_call (ws_rpc N T run) m p s = Some (r, s')"
  then show "ws_ready s' \<and> ws_callbacks s' = ws_callbacks s"
    using keepsD [OF keeps_ws_call, of "ws_callbacks s" s N T run m p r s']
    by (simp add: ws_rpc_def table_is_def)
next
  show "rpc_scheme (ws_rpc N T run) = ''http://'' \<or> rpc_scheme (ws_rpc N T run) = ''ws://''"
    by (simp add: ws_rpc_def)
qed

section \<open>A scripted library\<close>

text \<open>
  The events at the overtaking points, the events while the caller waits, and what was sent.  A
  message is sent on an open connection only.
\<close>

record ws_script =
  between :: "ws_event list list"
  upcoming :: "ws_event list"
  ws_sent :: "string list"
  ws_usable :: bool
  delivered :: "(nat \<times> json) list"

definition script_net :: "ws_script ws_net" where
  "script_net = \<lparr>
     w_get_connection = (\<lambda>uri. retp (Some 1)),
     w_connect = (\<lambda>_. retp ()),
     w_send = (\<lambda>_ content w. if ws_usable w
        then Some (Ret None, w\<lparr>ws_sent := ws_sent w @ [content]\<rparr>)
        else Some (Ret (Some ''invalid state''), w)),
     w_close = (\<lambda>_. retp None),
     w_overtake = (\<lambda>w. Some (Ret (concat (take 1 (between w))), w\<lparr>between := tl (between w)\<rparr>)),
     w_next = (\<lambda>w. case upcoming w of [] \<Rightarrow> None | e # es \<Rightarrow> Some (Ret e, w\<lparr>upcoming := es\<rparr>))\<rparr>"

definition record_callback :: "nat \<Rightarrow> json \<Rightarrow> (ws_script, unit) prog" where
  "record_callback cb p = modp (\<lambda>w. w\<lparr>delivered := delivered w @ [(cb, p)]\<rparr>)"

text \<open>
  A message that is no reply and no threat to the thread that handles it: not a text, not JSON, or an
  object without an id and with a method.  The second function is what a callback is given.
\<close>

definition quiet :: "json_text \<Rightarrow> ws_event \<Rightarrow> bool" where
  "quiet T e = (case e of
       Message text payload \<Rightarrow> \<not> text \<or> (case jt_parse T payload of
           Throw _ \<Rightarrow> True
         | Undef \<Rightarrow> False
         | Ret (JObj m) \<Rightarrow> smap_ok m \<and> map_of m ''id'' = None \<and>
             (\<exists>k. map_of m ''method'' = Some (JStr k))
         | Ret _ \<Rightarrow> False)
     | _ \<Rightarrow> False)"

definition lookup_cb :: "(string \<times> 'cb option) list \<Rightarrow> string \<Rightarrow> 'cb option" where
  "lookup_cb table k = (case map_of table k of Some f \<Rightarrow> f | None \<Rightarrow> None)"

definition delivery :: "json_text \<Rightarrow> (string \<times> nat option) list \<Rightarrow> ws_event \<Rightarrow> (nat \<times> json) list" where
  "delivery T table e = (case e of
       Message text payload \<Rightarrow> (if \<not> text then [] else (case jt_parse T payload of
           Ret (JObj m) \<Rightarrow> (case map_of m ''method'' of
               Some (JStr k) \<Rightarrow> (case lookup_cb table k of
                   Some cb \<Rightarrow> [(cb, case map_of m ''params'' of Some p \<Rightarrow> p | None \<Rightarrow> JNull)]
                 | None \<Rightarrow> [])
             | _ \<Rightarrow> [])
         | _ \<Rightarrow> []))
     | _ \<Rightarrow> [])"

definition noted :: "json_text \<Rightarrow> ws_event \<Rightarrow> (string \<times> nat option) list \<Rightarrow> (string \<times> nat option) list" where
  "noted T e table = (case e of
       Message text payload \<Rightarrow> (if \<not> text then table else (case jt_parse T payload of
           Ret (JObj m) \<Rightarrow> (case map_of m ''method'' of
               Some (JStr k) \<Rightarrow> smap_emplace k None table
             | _ \<Rightarrow> table)
         | _ \<Rightarrow> table))
     | _ \<Rightarrow> table)"

lemma handle_quiet:
  assumes "quiet T e" and "smap_ok (m_callbacks c)"
  shows "handle_event T record_callback e (c, w) =
    Some (Ret (), (c\<lparr>m_callbacks := noted T e (m_callbacks c)\<rparr>,
      w\<lparr>delivered := delivered w @ delivery T (m_callbacks c) e\<rparr>))"
proof -
  from assms(1) obtain tx payload where e: "e = Message tx payload"
    by (cases e) (auto simp: quiet_def)
  consider (binary) "\<not> tx" | (invalid) x where "tx" "jt_parse T payload = Throw x"
    | (obj) m k where "tx" "jt_parse T payload = Ret (JObj m)" "smap_ok m" "map_of m ''id'' = None"
      "map_of m ''method'' = Some (JStr k)"
    using assms(1) by (auto simp: quiet_def e split: outcome.splits json.splits)
  then show ?thesis
  proof cases
    case binary
    then show ?thesis by (simp add: e handle_event_def on_message_def noted_def delivery_def)
  next
    case invalid
    then show ?thesis by (simp add: e handle_event_def on_message_def noted_def delivery_def)
  next
    case obj
    let ?p = "case map_of m ''params'' of Some p \<Rightarrow> p | None \<Rightarrow> JNull"
    have params: "jidx ''params'' (JObj (smap_emplace ''method'' JNull m)) = Ret ?p"
      using obj(3,5) by (simp add: jidx_def jtouch_def jat_def map_of_smap_emplace smap_ok_emplace split: option.split)
    have meth: "jat ''method'' (JObj (smap_emplace ''method'' JNull m)) = Ret (JStr k)"
      using obj(3,5) by (simp add: jat_def map_of_smap_emplace)
    have table: "map_of (smap_emplace k None (m_callbacks c)) k =
        Some (case map_of (m_callbacks c) k of Some f \<Rightarrow> f | None \<Rightarrow> None)"
      using assms(2) by (simp add: map_of_smap_emplace split: option.split)
    show ?thesis
      using obj params meth table
      by (cases "map_of (m_callbacks c) k") (auto simp: e handle_event_def on_message_def noted_def delivery_def
        lookup_cb_def jcontains_def jtouch_def run_callback_def updw_def record_callback_def try_catch_def prog_runs netp_run
        split: option.split)
  qed
qed

lemma smap_ok_noted: "smap_ok t \<Longrightarrow> smap_ok (noted T e t)"
  by (auto simp: noted_def smap_ok_emplace split: ws_event.split outcome.split json.split option.split)

lemma delivery_noted: "smap_ok t \<Longrightarrow> delivery T (noted T e t) = delivery T t"
proof -
  assume ok: "smap_ok t"
  have lookup: "lookup_cb (noted T e t) = lookup_cb t"
    using ok by (auto simp: lookup_cb_def noted_def map_of_smap_emplace fun_eq_iff
      split: ws_event.split outcome.split json.split option.split)
  show ?thesis unfolding delivery_def lookup by (rule refl)
qed

text \<open>The wait of a call: quiet messages are handled, the reply ends it.\<close>

lemma event_wait_quiet:
  assumes "\<forall>e \<in> set es. quiet T e" and "smap_ok (m_callbacks c)" and "\<not> m_event c"
    and "upcoming w = es @ rest"
  shows "event_wait script_net T record_callback (c, w) =
    event_wait script_net T record_callback
      (c\<lparr>m_callbacks := fold (noted T) es (m_callbacks c)\<rparr>,
       w\<lparr>upcoming := rest, delivered := delivered w @ concat (map (delivery T (m_callbacks c)) es)\<rparr>)"
  using assms
proof (induction es arbitrary: c w)
  case (Cons e es)
  let ?c = "c\<lparr>m_callbacks := noted T e (m_callbacks c)\<rparr>"
  let ?w = "w\<lparr>upcoming := es @ rest, delivered := delivered w @ delivery T (m_callbacks c) e\<rparr>"
  have next_e: "w_next script_net w = Some (Ret e, w\<lparr>upcoming := es @ rest\<rparr>)"
    using Cons.prems(4) by (simp add: script_net_def)
  have "io_thread (handle_event T record_callback e) (c, w\<lparr>upcoming := es @ rest\<rparr>) = Some (Ret (), (?c, ?w))"
    using Cons.prems handle_quiet [of T e c "w\<lparr>upcoming := es @ rest\<rparr>"]
    by (simp add: io_thread_def try_catch_def)
  then have "event_wait script_net T record_callback (c, w) = event_wait script_net T record_callback (?c, ?w)"
    using Cons.prems(3) by (subst event_wait.simps) (simp add: netp_runs next_e prog_runs)
  also have "\<dots> = event_wait script_net T record_callback
      (?c\<lparr>m_callbacks := fold (noted T) es (m_callbacks ?c)\<rparr>,
       ?w\<lparr>upcoming := rest, delivered := delivered ?w @ concat (map (delivery T (m_callbacks ?c)) es)\<rparr>)"
    using Cons.prems by (intro Cons.IH) (simp_all add: smap_ok_noted)
  finally show ?case
    using Cons.prems(2) by (simp add: delivery_noted)
next
  case Nil
  then show ?case by (cases w) simp
qed

lemma event_wait_reply:
  assumes "\<not> m_event c" and "upcoming w = Message True reply # rest"
    and "jt_parse T reply = Ret (JObj m)" and "map_of m ''id'' \<noteq> None"
  shows "event_wait script_net T run (c, w) =
    Some (Ret (), (c\<lparr>m_response := JObj m, m_event := False\<rparr>, w\<lparr>upcoming := rest\<rparr>))"
proof -
  let ?c = "c\<lparr>m_response := JObj m, m_event := True\<rparr>" and ?w = "w\<lparr>upcoming := rest\<rparr>"
  have next_e: "w_next script_net w = Some (Ret (Message True reply), ?w)"
    using assms(2) by (simp add: script_net_def)
  have handle: "io_thread (handle_event T run (Message True reply)) (c, ?w) = Some (Ret (), (?c, ?w))"
    using assms(3,4) by (simp add: io_thread_def handle_event_def on_message_def jcontains_def updw_def try_catch_def)
  have "event_wait script_net T run (?c, ?w) = Some (Ret (), (?c\<lparr>m_event := False\<rparr>, ?w))"
    by (subst event_wait.simps) (simp add: updw_def)
  with assms(1) show ?thesis
    by (subst event_wait.simps) (simp add: netp_runs next_e prog_runs handle)
qed

lemma overtake_nothing [simp]:
  "between w = [] \<Longrightarrow> overtake script_net T run (c, w) = Some (Ret (), (c, w))"
proof -
  assume "between w = []"
  then have "w_overtake script_net w = Some (Ret [], w)" by (simp add: script_net_def)
  then show ?thesis by (simp add: overtake_def netp_runs)
qed

lemma ws_call_sends:
  assumes "m_connected c" and "between w = []" and "ws_usable w"
    and "jt_dump T (rpc_request (m_msgId c) method params) = Ret content"
  shows "ws_call script_net T run method params (c, w) =
    sq (event_wait script_net T run) (bnd (getsp (\<lambda>s. m_response (fst s))) (\<lambda>response.
      liftp (ws_reply T method response)))
    (c\<lparr>m_msgId := m_msgId c + 1, m_response := JNull\<rparr>, w\<lparr>ws_sent := ws_sent w @ [content]\<rparr>)"
proof -
  have "w_send script_net hdl content w = Some (Ret None, w\<lparr>ws_sent := ws_sent w @ [content]\<rparr>)" for hdl
    using assms(3) by (simp add: script_net_def)
  with assms show ?thesis
    by (simp add: ws_call_def prog_runs updw_def netp_runs)
qed

lemma ws_call_run:
  assumes "m_connected c" and "\<not> m_event c" and "between w = []" and "ws_usable w"
    and "upcoming w = Message True reply # rest"
    and "jt_parse T reply = Ret (JObj m)" and "map_of m ''id'' \<noteq> None"
    and "jt_dump T (rpc_request (m_msgId c) method params) = Ret content"
  shows "ws_call script_net T run method params (c, w) =
    Some (ws_reply T method (JObj m),
      (c\<lparr>m_msgId := m_msgId c + 1, m_response := JObj m, m_event := False\<rparr>,
       w\<lparr>ws_sent := ws_sent w @ [content], upcoming := rest\<rparr>))"
  using event_wait_reply [of "c\<lparr>m_msgId := m_msgId c + 1, m_response := JNull\<rparr>"
      "w\<lparr>ws_sent := ws_sent w @ [content]\<rparr>" reply rest T m run] assms
  by (simp add: ws_call_sends [OF assms(1,3,4,8)] prog_runs)

lemma ws_call_returns:
  assumes "m_connected c" and "\<not> m_event c" and "smap_ok (m_callbacks c)"
    and "between w = []" and "ws_usable w"
    and "upcoming w = es @ Message True reply # rest" and "\<forall>e \<in> set es. quiet T e"
    and "jt_parse T reply = Ret (JObj m)" and "map_of m ''id'' \<noteq> None"
    and "jt_dump T (rpc_request (m_msgId c) method params) = Ret content"
  shows "\<exists>c'. ws_call script_net T record_callback method params (c, w) =
      Some (ws_reply T method (JObj m),
        (c', w\<lparr>upcoming := rest, ws_sent := ws_sent w @ [content],
               delivered := delivered w @ concat (map (delivery T (m_callbacks c)) es)\<rparr>)) \<and>
    \<not> m_event c' \<and> m_connected c' \<and> m_msgId c' = m_msgId c + 1"
proof -
  let ?c = "c\<lparr>m_msgId := m_msgId c + 1, m_response := JNull\<rparr>"
  let ?c1 = "?c\<lparr>m_callbacks := fold (noted T) es (m_callbacks c)\<rparr>"
  let ?w = "w\<lparr>upcoming := rest, ws_sent := ws_sent w @ [content],
               delivered := delivered w @ concat (map (delivery T (m_callbacks c)) es)\<rparr>"
  let ?w1 = "?w\<lparr>upcoming := Message True reply # rest\<rparr>"
  have quiet: "event_wait script_net T record_callback (?c, w\<lparr>ws_sent := ws_sent w @ [content]\<rparr>) =
      event_wait script_net T record_callback (?c1, ?w1)"
    using event_wait_quiet [OF assms(7), of ?c "w\<lparr>ws_sent := ws_sent w @ [content]\<rparr>"] assms(2,3,6)
    by (cases w) simp
  have "event_wait script_net T record_callback (?c1, ?w1) =
      Some (Ret (), (?c1\<lparr>m_response := JObj m, m_event := False\<rparr>, ?w1\<lparr>upcoming := rest\<rparr>))"
    by (rule event_wait_reply) (use assms(2,8,9) in simp_all)
  moreover have "?w1\<lparr>upcoming := rest\<rparr> = ?w" by (cases w) simp
  ultimately have "ws_call script_net T record_callback method params (c, w) =
      Some (ws_reply T method (JObj m), (?c1\<lparr>m_response := JObj m, m_event := False\<rparr>, ?w))"
    using quiet by (simp add: ws_call_sends [OF assms(1,4,5,10)] prog_runs)
  with assms(1) show ?thesis by simp
qed

section \<open>Properties\<close>

text \<open>C8: a call on an open connection, with no signal left over, sends one message and returns what the
  first message with an id says, whatever its id; the notifications before it are delivered to their callbacks in
  order, and messages that are not JSON or not text are ignored.\<close>

theorem ws_call_reply:
  assumes "m_connected c" and "\<not> m_event c" and "smap_ok (m_callbacks c)"
    and "between w = []" and "ws_usable w"
    and "upcoming w = es @ Message True reply # rest" and "\<forall>e \<in> set es. quiet T e"
    and "jt_parse T reply = Ret (JObj m)" and "map_of m ''id'' \<noteq> None"
    and "jt_dump T (rpc_request (m_msgId c) method params) = Ret content"
  shows "\<exists>c'. ws_call script_net T record_callback method params (c, w) =
      Some (ws_reply T method (JObj m),
        (c', w\<lparr>upcoming := rest, ws_sent := ws_sent w @ [content],
               delivered := delivered w @ concat (map (delivery T (m_callbacks c)) es)\<rparr>)) \<and>
    \<not> m_event c' \<and> m_connected c' \<and> m_msgId c' = m_msgId c + 1"
  using assms by (rule ws_call_returns)

definition sample_ws :: "nat ws_client" where
  "sample_ws = \<lparr>ws_uri = ''ws://ses/api'', m_connected = True, m_hdl = Some 1, m_response = JNull,
     m_event = False, m_msgId = 7, m_callbacks = [(''State0'', Some 3)]\<rparr>"

definition sample_script :: "ws_event list \<Rightarrow> ws_script" where
  "sample_script es = \<lparr>between = [], upcoming = es, ws_sent = [], ws_usable = True, delivered = []\<rparr>"

lemma sample_quiet: "quiet sample_text (Message True ''n'')" "quiet sample_text (Message True ''bad'')"
  by (simp_all add: quiet_def sample_text_def jobject_def smap_emplace_def smap_ok_def)

lemma ws_call_reply_witness:
  "\<exists>c' w'. ws_call script_net sample_text record_callback ''GetState'' (JArr [])
      (sample_ws, sample_script [Message True ''n'', Message True ''bad'', Message True ''r'']) =
      Some (Ret (JInt 7), (c', w')) \<and> delivered w' = [(3, JInt 5)]"
proof -
  have "\<exists>c'. ws_call script_net sample_text record_callback ''GetState'' (JArr [])
      (sample_ws, sample_script [Message True ''n'', Message True ''bad'', Message True ''r'']) =
      Some (ws_reply sample_text ''GetState'' (JObj [(''id'', JStr ''0''), (''result'', JInt 7)]),
        (c', sample_script [Message True ''n'', Message True ''bad'', Message True ''r'']
          \<lparr>upcoming := [], ws_sent := [] @ [''request''],
           delivered := [] @ concat (map (delivery sample_text (m_callbacks sample_ws)) [Message True ''n'', Message True ''bad''])\<rparr>))
    \<and> \<not> m_event c' \<and> m_connected c' \<and> m_msgId c' = m_msgId sample_ws + 1"
    using ws_call_reply [of sample_ws "sample_script [Message True ''n'', Message True ''bad'', Message True ''r'']"
        "[Message True ''n'', Message True ''bad'']" "''r''" "[]" sample_text
        "[(''id'', JStr ''0''), (''result'', JInt 7)]" "''GetState''" "JArr []" "''request''"]
      sample_quiet
    by (simp add: sample_ws_def sample_script_def sample_text_def smap_ok_def jobject_def smap_emplace_def)
  then show ?thesis
    by (auto simp: ws_reply_def jcontains_def jidx_def jtouch_def jat_def smap_emplace_def delivery_def
        lookup_cb_def sample_text_def sample_ws_def jobject_def)
qed

text \<open>A signal left over from an earlier event (the connection was closed, a late reply) makes the next call
  return at once: it reports an invalid response, and the reply to its message is still to come.\<close>

lemma ws_call_stale_signal:
  assumes "m_connected c" and "m_event c" and "between w = []" and "ws_usable w"
    and "jt_dump T (rpc_request (m_msgId c) method params) = Ret content" and "jt_dump T JNull = Ret d"
  shows "\<exists>c'. ws_call script_net T run method params (c, w) =
      Some (Throw (JsonRPCException BAD_RESPONSE (method @ '' invalid response: '' @ d)),
        (c', w\<lparr>ws_sent := ws_sent w @ [content]\<rparr>))"
proof -
  let ?c = "c\<lparr>m_msgId := m_msgId c + 1, m_response := JNull\<rparr>"
  have "event_wait script_net T run (?c, v) = Some (Ret (), (?c\<lparr>m_event := False\<rparr>, v))" for v
    using assms(2) by (subst event_wait.simps) (simp add: updw_def)
  then show ?thesis
    using assms(6) by (simp add: ws_call_sends [OF assms(1,3,4,5)] prog_runs ws_reply_def jcontains_def)
qed

lemma ws_call_stale_signal_witness:
  "\<exists>c' w'. ws_call script_net sample_text record_callback ''GetState'' (JArr [])
      (sample_ws\<lparr>m_event := True\<rparr>, sample_script [Message True ''r'']) =
      Some (Throw (JsonRPCException BAD_RESPONSE ''GetState invalid response: request''), (c', w')) \<and>
    upcoming w' = [Message True ''r'']"
  using ws_call_stale_signal [of "sample_ws\<lparr>m_event := True\<rparr>" "sample_script [Message True ''r'']" sample_text
      "''GetState''" "JArr []" "''request''" "''request''" record_callback]
  by (auto simp: sample_ws_def sample_script_def sample_text_def)

text \<open>A call has no time limit: while the connection stays open and no message with an id comes, it does not
  return.\<close>

lemma ws_call_waits:
  assumes "m_connected c" and "\<not> m_event c" and "smap_ok (m_callbacks c)"
    and "between w = []" and "ws_usable w" and "\<forall>e \<in> set (upcoming w). quiet T e"
    and "jt_dump T (rpc_request (m_msgId c) method params) = Ret content"
  shows "ws_call script_net T record_callback method params (c, w) = None"
proof -
  let ?c = "c\<lparr>m_msgId := m_msgId c + 1, m_response := JNull\<rparr>"
  have "event_wait script_net T record_callback (c1, w1) = None" if "\<not> m_event c1" "upcoming w1 = []" for c1 w1
  proof -
    have "w_next script_net w1 = None" using that(2) by (simp add: script_net_def)
    then have "netp (w_next script_net) (c1, w1) = None" by (simp add: netp_def zoom_def)
    with that(1) show ?thesis by (subst event_wait.simps) (simp add: bnd_run_None)
  qed
  then have "event_wait script_net T record_callback (?c, w\<lparr>ws_sent := ws_sent w @ [content]\<rparr>) = None"
    using event_wait_quiet [of "upcoming w" T ?c "w\<lparr>ws_sent := ws_sent w @ [content]\<rparr>" "[]"] assms by simp
  then show ?thesis
    by (simp add: ws_call_sends [OF assms(1,4,5,7)] sq_def bnd_run_None)
qed

lemma ws_call_waits_witness:
  "ws_call script_net sample_text record_callback ''GetState'' (JArr [])
     (sample_ws, sample_script [Message True ''n'', Message True ''bad'']) = None"
  by (rule ws_call_waits [where content = "''request''"])
    (use sample_quiet in \<open>auto simp: sample_ws_def sample_script_def smap_ok_def sample_text_def\<close>)

text \<open>A text message that is JSON without an id and without a method name makes the handler throw, outside
  its exception handlers, which ends the thread of the library and with it the program.\<close>

lemma on_message_escapes:
  assumes "jt_parse T payload = Ret j" and "json_ok j" and "\<not> jcontains j ''id''"
    and "\<nexists>m k. j = JObj m \<and> map_of m ''method'' = Some (JStr k)"
  shows "\<exists>n. on_message T run True payload s = Some (Throw (Json_exception n), s) \<and>
    io_thread (on_message T run True payload) s = Some (Undef, s)"
proof (cases j)
  case (JObj m)
  with assms(2) have "smap_ok m" by simp
  then have m: "map_of (smap_emplace ''method'' JNull m) ''method'' =
      Some (case map_of m ''method'' of Some v \<Rightarrow> v | None \<Rightarrow> JNull)"
    by (simp add: map_of_smap_emplace split: option.split)
  have "obind (jat ''method'' (JObj (smap_emplace ''method'' JNull m))) jstring = Throw (Json_exception 302)"
    using assms(4) JObj m by (cases "map_of m ''method''"; cases "the (map_of m ''method'')") (auto simp: jat_def)
  then show ?thesis
    using assms(1,3) JObj by (simp add: on_message_def jtouch_def io_thread_def try_catch_def)
qed (use assms in \<open>simp_all add: on_message_def jcontains_def jtouch_def jat_def smap_emplace_def io_thread_def
  try_catch_def\<close>)

lemma on_message_escapes_witness:
  "\<exists>n. on_message \<lparr>jt_parse = (\<lambda>_. Ret (JArr [])), jt_dump = (\<lambda>_. Ret [])\<rparr> record_callback True ''[]''
      (sample_ws, sample_script []) = Some (Throw (Json_exception n), (sample_ws, sample_script []))"
  using on_message_escapes [of "\<lparr>jt_parse = (\<lambda>_. Ret (JArr [])), jt_dump = (\<lambda>_. Ret [])\<rparr>" "''[]''" "JArr []"
      record_callback "(sample_ws, sample_script [])"]
  by (auto simp: jcontains_def)

end
