(* ===== verification/PeakApi.thy ===== *)
theory PeakApi
  imports PeakSpectrum RpcWs
begin

text \<open>
  The clients of the PEAK servers, \<open>PeakAPI\<close> and the classes derived from it in \<open>peakApi.cpp\<close>.

  An operation is a program on the client object and the two static counters, beside the state of
  the JSON-RPC client it uses.  The JSON-RPC client is any record of \<open>rpc_client\<close>; the lemmas about
  subscriptions are proved once, in the context of its contract, and hold for both transports by
  its two interpretations.  The events of the EPICS library are a parameter.
\<close>

section \<open>The client object\<close>

datatype attachment_mode = AttNone | AttInline | AttHttp | AttFile

datatype transport = Http_transport | Ws_transport

record peak_api =
  api_uri :: string
  api_mode :: "attachment_mode option"
  api_subscribers :: "(string \<times> string) list"

text \<open>The static counters of \<open>subscribeToObservable\<close> and \<open>subscribeToState\<close>, 64 bits wide.\<close>

record api_ids =
  observable_id :: nat
  state_id :: nat

type_synonym ('s, 'a) api_prog = "((peak_api \<times> api_ids) \<times> 's, 'a) prog"

text \<open>The closures passed as callbacks: the waits of \<open>reset\<close> and \<open>acquire\<close>, and those of other callers.\<close>

datatype 'o peak_cb = ResetDone nat | AcquireDone nat | Observer 'o

record 's events =
  ev_create :: "('s, nat) prog"
  ev_wait :: "nat \<Rightarrow> ('s, unit) prog"
  ev_signal :: "nat \<Rightarrow> ('s, unit) prog"
  ev_destroy :: "nat \<Rightarrow> ('s, unit) prog"

definition run_peak_cb ::
    "'s events \<Rightarrow> ('o \<Rightarrow> json \<Rightarrow> ('s, unit) prog) \<Rightarrow> 'o peak_cb \<Rightarrow> json \<Rightarrow> ('s, unit) prog" where
  "run_peak_cb E observer cb params = (case cb of
       ResetDone e \<Rightarrow> ev_signal E e
     | AcquireDone e \<Rightarrow>
         bnd (liftp (obind (jat ''NewState'' params) jstring)) (\<lambda>state.
         whenp (state = ''Measuring'' \<or> state = ''Error'') (ev_signal E e))
     | Observer ob \<Rightarrow> observer ob params)"

section \<open>Construction\<close>

text \<open>
  The address without trailing slashes and with the path \<open>/api\<close>.  The positions are 64-bit numbers:
  not found is the largest one, and the length minus four wraps around.
\<close>

definition npos :: nat where
  "npos = 2 ^ 64 - 1"

definition pos64 :: "nat option \<Rightarrow> nat" where
  "pos64 p = (case p of Some i \<Rightarrow> i | None \<Rightarrow> npos)"

definition strip_slashes :: "string \<Rightarrow> string" where
  "strip_slashes u = (case find_index (\<lambda>c. c \<noteq> CHR ''/'') (rev u) of
       Some i \<Rightarrow> take (length u - i) u
     | None \<Rightarrow> u)"

definition normal_uri :: "string \<Rightarrow> string" where
  "normal_uri uri =
     (let u = strip_slashes uri
      in if pos64 (str_rfind ''/api'' u) \<noteq> (length u + 2 ^ 64 - 4) mod 2 ^ 64 then u @ ''/api'' else u)"

definition PeakAPI :: "string \<Rightarrow> peak_api \<times> transport" where
  "PeakAPI uri =
     (let u = normal_uri uri
      in (\<lparr>api_uri = u, api_mode = None, api_subscribers = []\<rparr>,
          if str_find ''http://'' u = Some 0 then Http_transport else Ws_transport))"

definition setAttachmentMode :: "attachment_mode \<Rightarrow> peak_api \<Rightarrow> peak_api" where
  "setAttachmentMode mode a = a\<lparr>api_mode := Some mode\<rparr>"

definition attachmentModeToString :: "attachment_mode \<Rightarrow> string" where
  "attachmentModeToString attachmentMode = (case attachmentMode of
       AttInline \<Rightarrow> ''Inline''
     | AttHttp \<Rightarrow> ''Http''
     | AttFile \<Rightarrow> ''File''
     | _ \<Rightarrow> ''None'')"

section \<open>Calls and queries\<close>

definition api_call :: "('cb, 's) rpc_client \<Rightarrow> string \<Rightarrow> json list \<Rightarrow> ('s, json) api_prog" where
  "api_call R m args = netp (rpc_call R m (JArr args))"

definition api_query :: "('cb, 's) rpc_client \<Rightarrow> string \<Rightarrow> json \<Rightarrow> ('s, json) api_prog" where
  "api_query R property filt =
     bnd (api_call R ''Query'' [jobject [(property, filt)]]) (\<lambda>r. liftp (jidx property r))"

definition no_filter :: json where
  "no_filter = JObj []"

section \<open>Subscriptions\<close>

definition on_api :: "(peak_api \<Rightarrow> peak_api) \<Rightarrow> ('s, unit) api_prog" where
  "on_api f = modp (\<lambda>s. ((f (fst (fst s)), snd (fst s)), snd s))"

definition next_observable_id :: "('s, nat) api_prog" where
  "next_observable_id =
     bnd (getsp (\<lambda>s. observable_id (snd (fst s)))) (\<lambda>n.
     sq (modp (\<lambda>s. ((fst (fst s), (snd (fst s))\<lparr>observable_id := (n + 1) mod 2 ^ 64\<rparr>), snd s))) (retp n))"

definition next_state_id :: "('s, nat) api_prog" where
  "next_state_id =
     bnd (getsp (\<lambda>s. state_id (snd (fst s)))) (\<lambda>n.
     sq (modp (\<lambda>s. ((fst (fst s), (snd (fst s))\<lparr>state_id := (n + 1) mod 2 ^ 64\<rparr>), snd s))) (retp n))"

text \<open>Register the callback and remember the subscription.\<close>

definition register :: "('cb, 's) rpc_client \<Rightarrow> string \<Rightarrow> string \<Rightarrow> 'cb \<Rightarrow> ('s, string) api_prog" where
  "register R guid topic cb =
     sq (netp (rpc_subscribe R topic cb))
     (sq (on_api (\<lambda>a. a\<lparr>api_subscribers := smap_emplace guid topic (api_subscribers a)\<rparr>))
     (retp guid))"

text \<open>The address of the notification server, an argument over HTTP only.\<close>

definition observer_args :: "('cb, 's) rpc_client \<Rightarrow> ('s, json list) api_prog" where
  "observer_args R =
     (if rpc_scheme R = ''http://'' then
        bnd (netp (rpc_notificationServer R)) (\<lambda>a. retp [JStr a])
      else retp [])"

definition subscribeToObservable ::
    "('cb, 's) rpc_client \<Rightarrow> string \<Rightarrow> 'cb \<Rightarrow> attachment_mode \<Rightarrow> ('s, string) api_prog" where
  "subscribeToObservable R observable callback attachmentMode =
     bnd next_observable_id (\<lambda>n.
     let attachmentSetting = jobject
           [(''AttachmentMode'', JStr (attachmentModeToString attachmentMode)),
            (''AttachmentCompressionMode'', JStr ''None'')];
         topic = observable @ nat_to_string n
     in bnd (observer_args R) (\<lambda>server.
        bnd (api_call R ''SubscribeToObservable''
              ([JStr observable, JStr topic, attachmentSetting] @ server)) (\<lambda>r.
        bnd (liftp (jstring r)) (\<lambda>guid.
        register R guid topic callback))))"

definition subscribeToState :: "('cb, 's) rpc_client \<Rightarrow> 'cb \<Rightarrow> ('s, string) api_prog" where
  "subscribeToState R callback =
     bnd next_state_id (\<lambda>n.
     let topic = ''State'' @ nat_to_string n
     in bnd (observer_args R) (\<lambda>server.
        bnd (api_call R ''SubscribeToState'' ([JStr topic] @ server)) (\<lambda>r.
        bnd (liftp (obind (jidx ''Id'' r) jstring)) (\<lambda>guid.
        register R guid topic callback))))"

definition unsubscribe :: "('cb, 's) rpc_client \<Rightarrow> string \<Rightarrow> ('s, unit) api_prog" where
  "unsubscribe R guid =
     bnd (getsp (\<lambda>s. map_of (api_subscribers (fst (fst s))) guid)) (\<lambda>m. case m of
       None \<Rightarrow> retp ()
     | Some topic \<Rightarrow>
         bnd (api_call R ''Unsubscribe'' [JStr guid]) (\<lambda>_.
         sq (netp (rpc_unsubscribe R topic))
         (on_api (\<lambda>a. a\<lparr>api_subscribers := smap_del guid (api_subscribers a)\<rparr>))))"

text \<open>The loop erases the entry its iterator stands on, and then increments the iterator.\<close>

definition unsubscribeAll :: "('cb, 's) rpc_client \<Rightarrow> ('s, unit) api_prog" where
  "unsubscribeAll R =
     sq (bnd (getsp (\<lambda>s. api_subscribers (fst (fst s)))) (\<lambda>subs. case subs of
           [] \<Rightarrow> retp ()
         | e # _ \<Rightarrow>
             bnd (api_call R ''Unsubscribe'' [JStr (fst e)]) (\<lambda>_.
             sq (netp (rpc_unsubscribe R (snd e)))
             (sq (on_api (\<lambda>a. a\<lparr>api_subscribers := smap_del (fst e) (api_subscribers a)\<rparr>))
             undefp))))
     (if rpc_scheme R = ''http://'' then
        bnd (netp (rpc_notificationServer R)) (\<lambda>a.
        bnd (api_call R ''UnsubscribeAllForObserver'' [JStr a]) (\<lambda>_. retp ()))
      else retp ())"

section \<open>State and configuration\<close>

definition reset :: "('o peak_cb, 's) rpc_client \<Rightarrow> 's events \<Rightarrow> ('s, unit) api_prog" where
  "reset R E =
     bnd (netp (ev_create E)) (\<lambda>completedEventId.
     bnd (subscribeToState R (ResetDone completedEventId)) (\<lambda>guid.
     bnd (api_call R ''ResetAsync'' []) (\<lambda>_.
     sq (netp (ev_wait E completedEventId))
     (sq (unsubscribe R guid)
     (netp (ev_destroy E completedEventId))))))"

definition currentState :: "('cb, 's) rpc_client \<Rightarrow> ('s, string) api_prog" where
  "currentState R = bnd (api_call R ''GetState'' []) (\<lambda>r. liftp (jstring r))"

definition currentConfiguration :: "('cb, 's) rpc_client \<Rightarrow> ('s, string) api_prog" where
  "currentConfiguration R =
     bnd (api_query R ''Configuration'' (jobject [(''Name'', no_filter)])) (\<lambda>r.
     liftp (obind (jidx ''Name'' r) jstring))"

definition configurations :: "('cb, 's) rpc_client \<Rightarrow> ('s, string list) api_prog" where
  "configurations R =
     bnd (api_query R ''AvailableConfigurations'' (jobject [(''{}'', jobject [(''Name'', no_filter)])]))
       (\<lambda>value. liftp (omap (\<lambda>it. obind (jidx ''Name'' it) jstring) (jelems value)))"

section \<open>The manager\<close>

text \<open>The first seven characters of an address, its scheme, are replaced.\<close>

definition server_entry :: "string \<Rightarrow> json \<Rightarrow> json outcome" where
  "server_entry sch it =
     obind (obind (jidx ''Address'' it) jstring) (\<lambda>address.
     jset ''Address'' (JStr (sch @ drop 7 address)) it)"

definition runningServers :: "('cb, 's) rpc_client \<Rightarrow> ('s, json) api_prog" where
  "runningServers R =
     bnd (api_query R ''Servers''
       (jobject [(''{}'', jobject [(''Name'', no_filter), (''Address'', no_filter)])])) (\<lambda>value.
     liftp (obind (omap (server_entry (rpc_scheme R)) (jelems value)) (\<lambda>servers. Ret (JArr servers))))"

section \<open>The analyser\<close>

definition currentSettings :: "('cb, 's) rpc_client \<Rightarrow> ('s, json) api_prog" where
  "currentSettings R = api_query R ''AnalyserSettings'' no_filter"

definition adjustSpectrumDefinition :: "('cb, 's) rpc_client \<Rightarrow> json \<Rightarrow> ('s, json) api_prog" where
  "adjustSpectrumDefinition R spectrumDefinition = api_call R ''AdjustSpectrumDefinition'' [spectrumDefinition]"

definition calculateSpectrumInfo :: "('cb, 's) rpc_client \<Rightarrow> json \<Rightarrow> ('s, json) api_prog" where
  "calculateSpectrumInfo R spectrumDefinition = api_call R ''CalculateSpectrumInfo'' [spectrumDefinition]"

definition defineSpectrum :: "('cb, 's) rpc_client \<Rightarrow> json \<Rightarrow> ('s, string) api_prog" where
  "defineSpectrum R spectrumDefinition =
     bnd (api_call R ''DefineSpectrum'' [spectrumDefinition]) (\<lambda>r. liftp (jstring r))"

definition command :: "('cb, 's) rpc_client \<Rightarrow> string \<Rightarrow> json list \<Rightarrow> ('s, unit) api_prog" where
  "command R m args = bnd (api_call R m args) (\<lambda>_. retp ())"

definition setupSpectrum :: "('cb, 's) rpc_client \<Rightarrow> string \<Rightarrow> ('s, unit) api_prog" where
  "setupSpectrum R spectrumId = command R ''SetupSpectrum'' [JStr spectrumId]"

definition updateSpectrum :: "('cb, 's) rpc_client \<Rightarrow> string \<Rightarrow> json \<Rightarrow> ('s, unit) api_prog" where
  "updateSpectrum R spectrumId d = command R ''UpdateSpectrum'' [JStr spectrumId, d]"

definition clearSpectrum :: "('cb, 's) rpc_client \<Rightarrow> string \<Rightarrow> ('s, unit) api_prog" where
  "clearSpectrum R spectrumId = command R ''ClearSpectrum'' [JStr spectrumId]"

definition finishSpectrum :: "('cb, 's) rpc_client \<Rightarrow> string \<Rightarrow> ('s, unit) api_prog" where
  "finishSpectrum R spectrumId = command R ''FinishSpectrum'' [JStr spectrumId]"

definition canMeasure :: "('cb, 's) rpc_client \<Rightarrow> ('s, bool) api_prog" where
  "canMeasure R = bnd (api_query R ''CanMeasure'' no_filter) (\<lambda>r. liftp (jbool r))"

definition startMeasurement :: "('cb, 's) rpc_client \<Rightarrow> ('s, unit) api_prog" where
  "startMeasurement R = command R ''StartMeasurement'' []"

definition finishMeasurement :: "('cb, 's) rpc_client \<Rightarrow> ('s, unit) api_prog" where
  "finishMeasurement R = command R ''FinishMeasurement'' []"

definition start_acquisition :: "('cb, 's) rpc_client \<Rightarrow> string \<Rightarrow> ('s, unit) api_prog" where
  "start_acquisition R spectrumId = command R ''AcquisitionAsync'' [JStr spectrumId]"

definition abort_acquisition :: "('cb, 's) rpc_client \<Rightarrow> ('s, unit) api_prog" where
  "abort_acquisition R = command R ''CancelAcquisition'' []"

definition acquire :: "('o peak_cb, 's) rpc_client \<Rightarrow> 's events \<Rightarrow> string \<Rightarrow> ('s, unit) api_prog" where
  "acquire R E spectrumId =
     bnd (netp (ev_create E)) (\<lambda>completedEventId.
     bnd (subscribeToState R (AcquireDone completedEventId)) (\<lambda>guid.
     sq (start_acquisition R spectrumId)
     (sq (netp (ev_wait E completedEventId))
     (sq (unsubscribe R guid)
     (netp (ev_destroy E completedEventId))))))"

text \<open>A new client over HTTP for one call, in the world that all clients share.\<close>

definition new_http_call ::
    "'w server_net \<Rightarrow> json_text \<Rightarrow> string \<Rightarrow> string \<Rightarrow> json list \<Rightarrow> (('cb, 'w) rpc_world, json) prog" where
  "new_http_call N T uri m args = (\<lambda>w. case JsonRPCClientHTTP N (api_uri (fst (PeakAPI uri))) of
       Throw e \<Rightarrow> Some (Throw e, w)
     | Undef \<Rightarrow> Some (Undef, w)
     | Ret c \<Rightarrow> Option.bind (http_call N T m (JArr args) (c, w)) (\<lambda>(r, s). Some (r, snd s)))"

text \<open>A client over a WebSocket gets the data through a client over HTTP.\<close>

definition getMeasuredSpectrum ::
    "('cb, 's) rpc_client \<Rightarrow> (string \<Rightarrow> string \<Rightarrow> json list \<Rightarrow> ('s, json) prog) \<Rightarrow> 's net \<Rightarrow> 's files \<Rightarrow>
      string \<Rightarrow> ('s, peak_spectrum) api_prog" where
  "getMeasuredSpectrum R new_client N F spectrumId =
     bnd (getsp (\<lambda>s. api_uri (fst (fst s)))) (\<lambda>uri.
     bnd (if rpc_scheme R = ''ws://''
          then bnd (liftp (if 2 \<le> length uri then Ret (''http'' @ drop 2 uri) else Throw Out_of_range)) (\<lambda>u.
            netp (new_client u ''GetMeasuredSpectrum'' [JStr spectrumId]))
          else api_call R ''GetMeasuredSpectrum'' [JStr spectrumId]) (\<lambda>spectrum.
     bnd (liftp (obind (jidx ''SpectrumChannels'' spectrum) jfront)) (\<lambda>channel.
     netp (fromSpectrumChannel N F channel [] empty_spectrum))))"

section \<open>The camera and the electronics\<close>

definition geometry :: "('cb, 's) rpc_client \<Rightarrow> ('s, json) api_prog" where
  "geometry R =
     bnd (api_query R ''Configuration'' (jobject [(''CameraCalibration'', no_filter)])) (\<lambda>r.
     liftp (obind (jidx ''CameraCalibration'' r) (jidx ''SpatialCalibration'')))"

definition zeroAllSupplies :: "('cb, 's) rpc_client \<Rightarrow> ('s, unit) api_prog" where
  "zeroAllSupplies R = command R ''ZeroAllSupplies'' []"

section \<open>Subscriptions under the contract of a JSON-RPC client\<close>

context json_rpc
begin

lemma observer_args_returns:
  assumes "ready s"
  shows "\<exists>server. observer_args R (a, s) = Some (Ret server, (a, s))"
proof (cases "rpc_scheme R = ''http://''")
  case True
  obtain addr where "rpc_notificationServer R s = Some (Ret addr, s)"
    using server_returns [OF assms] by blast
  with True show ?thesis by (simp add: observer_args_def netp_runs)
qed (simp add: observer_args_def)

lemma register_result:
  assumes "ready s"
  shows "\<exists>s'. register R guid topic cb ((a, ids), s) =
      Some (Ret guid, ((a\<lparr>api_subscribers := smap_emplace guid topic (api_subscribers a)\<rparr>, ids), s')) \<and>
    ready s' \<and> map_of (callbacks s') = (map_of (callbacks s))(topic \<mapsto> cb)"
proof -
  obtain s' where s': "rpc_subscribe R topic cb s = Some (Ret (), s')" "ready s'"
    "map_of (callbacks s') = (map_of (callbacks s))(topic \<mapsto> cb)"
    using subscribe_callbacks [OF assms] by blast
  then show ?thesis by (auto simp: register_def netp_runs on_api_def)
qed

text \<open>What a subscription that succeeded has done.\<close>

lemma subscribeToState_result:
  assumes "ready s" and "subscribeToState R cb ((a, ids), s) = Some (Ret guid, ((a', ids'), s'))"
  shows "ready s'" and "a' = a\<lparr>api_subscribers := smap_emplace guid (''State'' @ nat_to_string (state_id ids)) (api_subscribers a)\<rparr>"
    and "map_of (callbacks s') = (map_of (callbacks s))(''State'' @ nat_to_string (state_id ids) \<mapsto> cb)"
    and "ids' = ids\<lparr>state_id := (state_id ids + 1) mod 2 ^ 64\<rparr>"
proof -
  let ?topic = "''State'' @ nat_to_string (state_id ids)"
  let ?ids = "ids\<lparr>state_id := (state_id ids + 1) mod 2 ^ 64\<rparr>"
  obtain server where server: "observer_args R ((a, ?ids), s) = Some (Ret server, ((a, ?ids), s))"
    using observer_args_returns [OF assms(1)] by blast
  have "bnd (api_call R ''SubscribeToState'' ([JStr ?topic] @ server)) (\<lambda>r.
        bnd (liftp (obind (jidx ''Id'' r) jstring)) (\<lambda>guid. register R guid ?topic cb)) ((a, ?ids), s) =
      Some (Ret guid, ((a', ids'), s'))"
    using assms(2) by (simp add: subscribeToState_def next_state_id_def prog_runs Let_def server [simplified])
  then obtain r s1 where call: "rpc_call R ''SubscribeToState'' (JArr ([JStr ?topic] @ server)) s = Some (Ret r, s1)"
    and rest: "bnd (liftp (obind (jidx ''Id'' r) jstring)) (\<lambda>guid. register R guid ?topic cb) ((a, ?ids), s1) =
      Some (Ret guid, ((a', ids'), s'))"
    by (cases rule: bnd_SomeE) (auto simp: api_call_def netp_def zoom_def bind_eq_Some_conv)
  from call_callbacks [OF assms(1) call] have s1: "ready s1" "callbacks s1 = callbacks s" by auto
  from rest obtain g where "register R g ?topic cb ((a, ?ids), s1) = Some (Ret guid, ((a', ids'), s'))"
    by (cases rule: bnd_SomeE) auto
  with register_result [OF s1(1), of g ?topic cb a ?ids] s1(2)
  show "ready s'" "a' = a\<lparr>api_subscribers := smap_emplace guid ?topic (api_subscribers a)\<rparr>"
    "map_of (callbacks s') = (map_of (callbacks s))(?topic \<mapsto> cb)" "ids' = ?ids"
    by auto
qed

lemma unsubscribe_result:
  assumes "ready s" and "map_of (api_subscribers a) guid = Some topic"
    and "unsubscribe R guid ((a, ids), s) = Some (Ret (), ((a', ids'), s'))"
  shows "ready s'" and "a' = a\<lparr>api_subscribers := smap_del guid (api_subscribers a)\<rparr>"
    and "map_of (callbacks s') = (map_of (callbacks s))(topic := None)" and "ids' = ids"
proof -
  have "bnd (api_call R ''Unsubscribe'' [JStr guid]) (\<lambda>_. sq (netp (rpc_unsubscribe R topic))
         (on_api (\<lambda>a. a\<lparr>api_subscribers := smap_del guid (api_subscribers a)\<rparr>))) ((a, ids), s) =
      Some (Ret (), ((a', ids'), s'))"
    using assms(2,3) by (simp add: unsubscribe_def)
  then obtain r s1 where call: "rpc_call R ''Unsubscribe'' (JArr [JStr guid]) s = Some (Ret r, s1)"
    and rest: "sq (netp (rpc_unsubscribe R topic))
         (on_api (\<lambda>a. a\<lparr>api_subscribers := smap_del guid (api_subscribers a)\<rparr>)) ((a, ids), s1) =
      Some (Ret (), ((a', ids'), s'))"
    by (cases rule: bnd_SomeE) (auto simp: api_call_def netp_def zoom_def bind_eq_Some_conv)
  from call_callbacks [OF assms(1) call] have s1: "ready s1" "callbacks s1 = callbacks s" by auto
  obtain s2 where "rpc_unsubscribe R topic s1 = Some (Ret (), s2)" "ready s2"
    "map_of (callbacks s2) = (map_of (callbacks s1))(topic := None)"
    using unsubscribe_callbacks [OF s1(1)] by blast
  with rest s1(2) show "ready s'" "a' = a\<lparr>api_subscribers := smap_del guid (api_subscribers a)\<rparr>"
    "map_of (callbacks s') = (map_of (callbacks s))(topic := None)" "ids' = ids"
    by (auto simp: netp_runs on_api_def)
qed

text \<open>A subscription taken back leaves the tables as they were.\<close>

lemma subscribe_unsubscribe:
  assumes "ready s" and "smap_ok (api_subscribers a)" and "map_of (api_subscribers a) guid = None"
    and "map_of (callbacks s) (''State'' @ nat_to_string (state_id ids)) = None"
    and "subscribeToState R cb ((a, ids), s) = Some (Ret guid, st1)"
    and "unsubscribe R guid st1 = Some (Ret (), ((a2, ids2), s2))"
  shows "map_of (api_subscribers a2) = map_of (api_subscribers a)"
    and "map_of (callbacks s2) = map_of (callbacks s)" and "ready s2"
proof -
  let ?topic = "''State'' @ nat_to_string (state_id ids)"
  obtain a1 ids1 s1 where st1: "st1 = ((a1, ids1), s1)" by (metis surj_pair)
  note sub = subscribeToState_result [OF assms(1,5) [unfolded st1]]
  have m: "map_of (api_subscribers a1) = (map_of (api_subscribers a))(guid \<mapsto> ?topic)"
    using assms(2,3) by (simp add: sub(2) smap_emplace_def map_of_smap_put)
  note un = unsubscribe_result [OF sub(1) _ assms(6) [unfolded st1], of ?topic]
  show "map_of (api_subscribers a2) = map_of (api_subscribers a)"
    using un(2) m assms(3) by (auto simp: map_of_smap_del)
  show "map_of (callbacks s2) = map_of (callbacks s)"
    using un(3) m sub(3) assms(4) by auto
  show "ready s2" using un(1) m by simp
qed

end

section \<open>Properties\<close>

text \<open>Over a WebSocket, a state subscription that is taken back leaves the table of callbacks and the
  list of subscriptions as they were, whatever the server sends in between.\<close>

lemma ws_subscription_roundtrip:
  assumes "ws_ready s" and "smap_ok (api_subscribers a)" and "map_of (api_subscribers a) guid = None"
    and "map_of (ws_callbacks s) (''State'' @ nat_to_string (state_id ids)) = None"
    and "subscribeToState (ws_rpc N T run) cb ((a, ids), s) = Some (Ret guid, st1)"
    and "unsubscribe (ws_rpc N T run) guid st1 = Some (Ret (), ((a2, ids2), s2))"
  shows "map_of (api_subscribers a2) = map_of (api_subscribers a) \<and>
    map_of (ws_callbacks s2) = map_of (ws_callbacks s) \<and> ws_ready s2"
  using ws.subscribe_unsubscribe [OF assms] by simp

definition sample_replies :: json_text where
  "sample_replies = \<lparr>jt_parse = (\<lambda>s. if s = ''g''
        then Ret (JObj [(''id'', JStr ''7''), (''result'', JObj [(''Id'', JStr ''guid'')])])
        else Ret (JObj [(''id'', JStr ''8''), (''result'', JNull)])),
     jt_dump = (\<lambda>j. Ret ''request'')\<rparr>"

definition sample_api :: peak_api where
  "sample_api = \<lparr>api_uri = ''ws://ses/api'', api_mode = None, api_subscribers = []\<rparr>"

definition sample_ids :: api_ids where
  "sample_ids = \<lparr>observable_id = 0, state_id = 5\<rparr>"

lemma sample_subscribe:
  "subscribeToState (ws_rpc script_net sample_replies record_callback) 4
     ((sample_api, sample_ids), (sample_ws, sample_script [Message True ''g'', Message True ''x''])) =
   Some (Ret ''guid'', ((sample_api\<lparr>api_subscribers := [(''guid'', ''State5'')]\<rparr>, sample_ids\<lparr>state_id := 6\<rparr>),
     (sample_ws\<lparr>m_msgId := 8, m_response := JObj [(''id'', JStr ''7''), (''result'', JObj [(''Id'', JStr ''guid'')])],
        m_callbacks := [(''State0'', Some 3), (''State5'', Some 4)]\<rparr>,
      sample_script [Message True ''x'']\<lparr>ws_sent := [''request'']\<rparr>)))"
proof -
  let ?m = "[(''id'', JStr ''7''), (''result'', JObj [(''Id'', JStr ''guid'')])]"
  have call: "ws_call script_net sample_replies record_callback ''SubscribeToState'' (JArr [JStr ''State5''])
      (sample_ws, sample_script [Message True ''g'', Message True ''x'']) =
    Some (ws_reply sample_replies ''SubscribeToState'' (JObj ?m),
      (sample_ws\<lparr>m_msgId := m_msgId sample_ws + 1, m_response := JObj ?m, m_event := False\<rparr>,
       sample_script [Message True ''g'', Message True ''x'']
         \<lparr>ws_sent := ws_sent (sample_script [Message True ''g'', Message True ''x'']) @ [''request''],
          upcoming := [Message True ''x'']\<rparr>))"
    by (rule ws_call_run) (simp_all add: sample_ws_def sample_script_def sample_replies_def)
  have reply: "ws_reply sample_replies ''SubscribeToState'' (JObj ?m) = Ret (JObj [(''Id'', JStr ''guid'')])"
    by (simp add: ws_reply_def jcontains_def jidx_def jtouch_def jat_def smap_emplace_def)
  have five: "nat_to_string 5 = ''5''" by (simp add: nat_to_string.simps)
  show ?thesis
    by (simp add: subscribeToState_def next_state_id_def observer_args_def api_call_def ws_rpc_def Let_def
      five sample_ids_def prog_runs netp_runs call [unfolded reply] register_def ws_subscribe_def updw_def
      on_api_def jidx_def jtouch_def jat_def smap_emplace_def)
      (simp add: sample_ws_def sample_script_def sample_api_def)
qed

lemma ws_subscription_roundtrip_witness:
  "\<exists>a2 ids2 s2. unsubscribe (ws_rpc script_net sample_replies record_callback) ''guid''
     ((sample_api\<lparr>api_subscribers := [(''guid'', ''State5'')]\<rparr>, sample_ids\<lparr>state_id := 6\<rparr>),
      (sample_ws\<lparr>m_msgId := 8, m_response := JObj [(''id'', JStr ''7''), (''result'', JObj [(''Id'', JStr ''guid'')])],
        m_callbacks := [(''State0'', Some 3), (''State5'', Some 4)]\<rparr>,
      sample_script [Message True ''x'']\<lparr>ws_sent := [''request'']\<rparr>)) = Some (Ret (), ((a2, ids2), s2)) \<and>
    map_of (api_subscribers a2) = Map.empty \<and> map_of (ws_callbacks s2) = [''State0'' \<mapsto> 3]"
proof -
  let ?m = "[(''id'', JStr ''8''), (''result'', JNull)]"
  let ?c = "sample_ws\<lparr>m_msgId := 8, m_response := JObj [(''id'', JStr ''7''), (''result'', JObj [(''Id'', JStr ''guid'')])],
        m_callbacks := [(''State0'', Some 3), (''State5'', Some 4)]\<rparr>"
  let ?w = "sample_script [Message True ''x'']\<lparr>ws_sent := [''request'']\<rparr>"
  let ?st1 = "((sample_api\<lparr>api_subscribers := [(''guid'', ''State5'')]\<rparr>, sample_ids\<lparr>state_id := 6\<rparr>), (?c, ?w))"
  have call: "ws_call script_net sample_replies record_callback ''Unsubscribe'' (JArr [JStr ''guid'']) (?c, ?w) =
    Some (ws_reply sample_replies ''Unsubscribe'' (JObj ?m),
      (?c\<lparr>m_msgId := m_msgId ?c + 1, m_response := JObj ?m, m_event := False\<rparr>,
       ?w\<lparr>ws_sent := ws_sent ?w @ [''request''], upcoming := []\<rparr>))"
    by (rule ws_call_run [where reply = "''x''"]) (simp_all add: sample_ws_def sample_script_def sample_replies_def)
  have reply: "ws_reply sample_replies ''Unsubscribe'' (JObj ?m) = Ret JNull"
    by (simp add: ws_reply_def jcontains_def jidx_def jtouch_def jat_def smap_emplace_def)
  obtain a2 ids2 s2 where run: "unsubscribe (ws_rpc script_net sample_replies record_callback) ''guid'' ?st1 =
      Some (Ret (), ((a2, ids2), s2))"
    by (simp add: unsubscribe_def api_call_def ws_rpc_def netp_runs call [unfolded reply] ws_unsubscribe_def updw_def
      on_api_def)
  have "map_of (api_subscribers a2) = map_of (api_subscribers sample_api) \<and>
    map_of (ws_callbacks s2) = map_of (ws_callbacks (sample_ws, sample_script [Message True ''g'', Message True ''x''])) \<and>
    ws_ready s2"
    by (rule ws_subscription_roundtrip [OF _ _ _ _ sample_subscribe run])
      (simp_all add: ws_ready_def sample_ws_def smap_ok_def sample_api_def ws_callbacks_def map_filter_simps
        sample_ids_def nat_to_string.simps)
  with run show ?thesis
    by (auto simp: sample_api_def sample_ws_def ws_callbacks_def map_filter_simps)
qed

lemma str_rfind_None: "str_rfind pat s = None \<Longrightarrow> take (length pat) (drop i s) \<noteq> pat \<or> length s < i"
proof (induction s arbitrary: i)
  case Nil
  then show ?case by (cases i) (auto split: if_splits)
next
  case (Cons c cs)
  then have none: "str_rfind pat cs = None" "take (length pat) (c # cs) \<noteq> pat"
    by (auto split: option.splits if_splits)
  then show ?case using Cons.IH [OF none(1), of "i - 1"] by (cases i) auto
qed

lemma str_rfind_last:
  "str_rfind pat s = Some i \<Longrightarrow> i < j \<Longrightarrow> j \<le> length s \<Longrightarrow> take (length pat) (drop j s) \<noteq> pat"
proof (induction s arbitrary: i j)
  case Nil
  then show ?case by (simp split: if_splits)
next
  case (Cons c cs)
  obtain k where j: "j = Suc k" using Cons.prems(2) by (cases j) auto
  show ?case
  proof (cases "str_rfind pat cs")
    case None
    with str_rfind_None [OF None, of k] Cons.prems(3) j show ?thesis by auto
  next
    case (Some i')
    with Cons.prems Cons.IH [OF Some, of k] j show ?thesis by auto
  qed
qed

text \<open>The address of a client ends in the path it needs, with one exception: an address of three characters,
  for which the wrapped length minus four equals the position that stands for not found.\<close>

lemma normal_uri_path:
  assumes "length uri < 2 ^ 63"
  shows "(\<exists>p. normal_uri uri = p @ ''/api'') \<longleftrightarrow> length (strip_slashes uri) \<noteq> 3"
proof -
  let ?u = "strip_slashes uri"
  have len: "length ?u < 2 ^ 63"
    using assms by (auto simp: strip_slashes_def split: option.split)
  consider (three) "length ?u = 3" | (short) "length ?u < 3" | (long) "4 \<le> length ?u" by linarith
  then show ?thesis
  proof cases
    case three
    have "str_rfind ''/api'' ?u = None"
    proof (rule ccontr)
      assume "str_rfind ''/api'' ?u \<noteq> None"
      then obtain i where "take 4 (drop i ?u) = ''/api''" using str_rfind_Some [of "''/api''" ?u]
        by (auto simp: eval_nat_numeral)
      then have "length (take 4 (drop i ?u)) = 4" by simp
      then show False using three by simp
    qed
    then have "normal_uri uri = ?u" by (simp add: normal_uri_def pos64_def npos_def three)
    then have "(\<exists>p. normal_uri uri = p @ ''/api'') \<Longrightarrow> 4 \<le> length ?u" by auto
    with three show ?thesis by auto
  next
    case short
    have "str_rfind ''/api'' ?u = None"
    proof (rule ccontr)
      assume "str_rfind ''/api'' ?u \<noteq> None"
      then obtain i where "take 4 (drop i ?u) = ''/api''" using str_rfind_Some [of "''/api''" ?u]
        by (auto simp: eval_nat_numeral)
      then have "length (take 4 (drop i ?u)) = 4" by simp
      then show False using short by simp
    qed
    moreover have "(length ?u + 2 ^ 64 - 4) mod 2 ^ 64 \<noteq> npos"
      using short by (simp add: npos_def)
    ultimately have "normal_uri uri = ?u @ ''/api''" by (simp add: normal_uri_def pos64_def)
    with short show ?thesis by auto
  next
    case long
    have wrap: "(length ?u + 2 ^ 64 - 4) mod 2 ^ 64 = length ?u - 4"
    proof -
      have "length ?u + 2 ^ 64 - 4 = (length ?u - 4) + 2 ^ 64" using long by simp
      then show ?thesis by (simp only: mod_add_self2) (use len in simp)
    qed
    show ?thesis
    proof (cases "pos64 (str_rfind ''/api'' ?u) = length ?u - 4")
      case True
      then have "str_rfind ''/api'' ?u = Some (length ?u - 4)"
        using len by (auto simp: pos64_def npos_def split: option.splits)
      then have "take 4 (drop (length ?u - 4) ?u) = ''/api''" using str_rfind_Some by fastforce
      then have "drop (length ?u - 4) ?u = ''/api''" by simp
      then have "?u = take (length ?u - 4) ?u @ ''/api''" by (metis append_take_drop_id)
      moreover have "normal_uri uri = ?u" by (simp add: normal_uri_def Let_def wrap [simplified] True)
      ultimately have "\<exists>p. normal_uri uri = p @ ''/api''" by metis
      with long show ?thesis by simp
    next
      case False
      then have "normal_uri uri = ?u @ ''/api''" by (simp add: normal_uri_def Let_def wrap [simplified])
      with long show ?thesis by auto
    qed
  qed
qed

lemma normal_uri_path_witness: "\<not> (\<exists>p. normal_uri ''ses//'' = p @ ''/api'')"
  using normal_uri_path [of "''ses//''"] by (simp add: strip_slashes_def)

text \<open>The list of servers a manager answers with keeps every entry, with the scheme of its address replaced by
  the scheme of the client and every other member unchanged.\<close>

lemma server_entry_scheme:
  assumes "json_ok (JObj m)" and "map_of m ''Address'' = Some (JStr (old @ rest))" and "length old = 7"
  shows "\<exists>m'. server_entry sch (JObj m) = Ret (JObj m') \<and> json_ok (JObj m') \<and>
    map_of m' = (map_of m)(''Address'' \<mapsto> JStr (sch @ rest))"
proof -
  have ok: "smap_ok m" using assms(1) by simp
  have "jidx ''Address'' (JObj m) = Ret (JStr (old @ rest))"
    using assms(2) by (simp add: jidx_def jtouch_def jat_def smap_emplace_def)
  moreover have "jset ''Address'' (JStr (sch @ rest)) (JObj m) = Ret (JObj (smap_put ''Address'' (JStr (sch @ rest)) m))"
    using assms(2) by (simp add: jset_def jupd_def jtouch_def smap_emplace_def)
  moreover have "json_ok (JObj (smap_put ''Address'' (JStr (sch @ rest)) m))"
    by (rule json_ok_put [OF assms(1)]) simp
  ultimately show ?thesis
    using assms(3) ok by (simp add: server_entry_def map_of_smap_put)
qed

lemma server_entry_scheme_witness:
  "\<exists>m'. server_entry ''ws://'' (JObj [(''Address'', JStr ''http://ses'')]) = Ret (JObj m') \<and>
    map_of m' = [''Address'' \<mapsto> JStr ''ws://ses'']"
  using server_entry_scheme [of "[(''Address'', JStr ''http://ses'')]" "''http://''" "''ses''" "''ws://''"]
  by (auto simp: smap_ok_def)

text \<open>Programs that do not return, because a part of them does not.\<close>

lemma never_returns_bnd: "(\<And>a st. f a st \<noteq> Some (Ret u, t)) \<Longrightarrow> bnd m f s \<noteq> Some (Ret u, t)"
  by (auto elim!: bnd_SomeE)

lemma never_returns_sq: "(\<And>st. n st \<noteq> Some (Ret u, t)) \<Longrightarrow> sq m n s \<noteq> Some (Ret u, t)"
  by (auto simp: sq_def elim!: bnd_SomeE)

lemma never_returns_first: "(\<And>v t. m s \<noteq> Some (Ret v, t)) \<Longrightarrow> bnd m f s \<noteq> Some (Ret u, t)"
  by (auto elim!: bnd_SomeE)

text \<open>Removing all subscriptions never completes when there is one: the loop uses an iterator it has erased.\<close>

lemma unsubscribeAll_not_completed:
  assumes "api_subscribers a \<noteq> []"
  shows "unsubscribeAll R ((a, ids), s) \<noteq> Some (Ret (), t)"
proof -
  obtain e es where e: "api_subscribers a = e # es" using assms by (cases "api_subscribers a") auto
  let ?body = "bnd (api_call R ''Unsubscribe'' [JStr (fst e)]) (\<lambda>_.
      sq (netp (rpc_unsubscribe R (snd e)))
      (sq (on_api (\<lambda>a. a\<lparr>api_subscribers := smap_del (fst e) (api_subscribers a)\<rparr>)) undefp))"
  have body: "?body st \<noteq> Some (Ret u, t)" for st u t
    by (intro never_returns_bnd never_returns_sq) simp
  have "unsubscribeAll R ((a, ids), s) \<noteq> Some (Ret u, t)" for u t
    unfolding unsubscribeAll_def sq_def [of "bnd (getsp _) _"]
    by (rule never_returns_first) (use body in \<open>simp add: e\<close>)
  then show ?thesis by blast
qed

lemma unsubscribeAll_not_completed_witness:
  "unsubscribeAll (ws_rpc script_net sample_replies record_callback)
     ((sample_api\<lparr>api_subscribers := [(''guid'', ''State5'')]\<rparr>, sample_ids), (sample_ws, sample_script [])) \<noteq>
   Some (Ret (), ((sample_api, sample_ids), (sample_ws, sample_script [])))"
  by (rule unsubscribeAll_not_completed) simp

end
