(* ===== verification/DriverState.thy ===== *)
theory DriverState
  imports PeakApi
begin

text \<open>
  The state of the driver, \<open>class peakAnalyser\<close> of \<open>peakAnalyser.cpp\<close>, and its surroundings.

  The driver is an areaDetector driver: its parameters are kept by the parameter library of the base
  class, which is not part of this repository.  The library is a record of operations, \<open>asyn\<close>, and
  what the driver relies on is the locale \<open>asyn_params\<close>; the functions of the base class, the
  events, the lock, the pool of arrays and the JSON-RPC clients are the other operations of the
  record \<open>env\<close>.  A program of the driver runs on the analyser client and the static counters of
  the clients, the members of the driver, and the state of the surroundings.

  The lock, the waits and the calls of the clients may change the members of the driver: that is
  what the other threads and the callbacks do meanwhile.
\<close>

section \<open>Parameters\<close>

datatype param_type = Int32 | Float64 | Octet | Float64Array

text \<open>The parameters of the base classes the driver names, the others, and its own in their order.\<close>

datatype (plugins only: code) param =
    ADAcquire | ADStatus | ADStatusMessage | ADNumExposures | ADNumExposuresCounter | ADNumImages
  | ADNumImagesCounter | ADImageMode | ADAcquireTime | ADMinX | ADMinY | ADSizeX | ADSizeY | ADMaxSizeX
  | ADMaxSizeY | ADManufacturer | ADModel | ADSerialNumber | ADSDKVersion | ADFirmwareVersion
  | NDDriverVersion | NDDataType | NDColorMode | NDArrayCounter | NDArrayCallbacks
  | Base_param param_type nat
  | ElementSet | ElementSetStr | LensMode | LensModeStr | DetectorMode | DetectorModeStr | PassEnergy
  | PassEnergyValue | EnergyMode | EnergyModeStr | Slit | AnalyserAcquisitionMode | AnalyserHighEnergy
  | AnalyserLowEnergy | AnalyserCenterEnergy | AnalyserEnergyStep | AnalyserEnergyCount | AnalyserWithSlice
  | AnalyserHighSlice | AnalyserLowSlice | AnalyserCenterSlice | AnalyserSliceStep | AnalyserSliceCount
  | AnalyserWithAngleY | AnalyserHighAngleY | AnalyserLowAngleY | AnalyserCenterAngleY | AnalyserAngleYStep
  | AnalyserAngleYCount | ExcitationEnergy | WorkFunction | FocalPositionX | FocalPositionY | FocalPositionZ
  | DetectorChannels | DetectorSlices | AcqETA | AcqETAStr | AcqNumSteps | AcqNumStepsCounter | AcqProgress
  | AcqSpectrum | AcqEnergyScale | AcqSliceScale | ZeroSupplies

text \<open>The names and types of the parameters the constructor creates.\<close>

definition own_params :: "(string \<times> param_type \<times> param) list" where
  "own_params =
    [(''ELEMENT_SETS'', Int32, ElementSet),
     (''ELEMENT_SETS_STR'', Octet, ElementSetStr),
     (''LENS_MODES'', Int32, LensMode),
     (''LENS_MODES_STR'', Octet, LensModeStr),
     (''DETECTOR_MODE'', Int32, DetectorMode),
     (''DETECTOR_MODE_STR'', Octet, DetectorModeStr),
     (''PASS_ENERGY'', Int32, PassEnergy),
     (''PASS_ENERGY_VAL'', Float64, PassEnergyValue),
     (''ENERGY_MODE'', Int32, EnergyMode),
     (''ENERGY_MODE_STR'', Octet, EnergyModeStr),
     (''SLIT'', Int32, Slit),
     (''ACQUISITION_MODE'', Int32, AnalyserAcquisitionMode),
     (''HIGH_ENERGY'', Float64, AnalyserHighEnergy),
     (''LOW_ENERGY'', Float64, AnalyserLowEnergy),
     (''CENTER_ENERGY'', Float64, AnalyserCenterEnergy),
     (''ENERGY_STEP'', Float64, AnalyserEnergyStep),
     (''ENERGY_COUNT'', Int32, AnalyserEnergyCount),
     (''WITH_SLICE'', Int32, AnalyserWithSlice),
     (''HIGH_SLICE'', Float64, AnalyserHighSlice),
     (''LOW_SLICE'', Float64, AnalyserLowSlice),
     (''CENTER_SLICE'', Float64, AnalyserCenterSlice),
     (''SLICE_STEP'', Float64, AnalyserSliceStep),
     (''SLICE_COUNT'', Int32, AnalyserSliceCount),
     (''WITH_ANGLE_Y'', Int32, AnalyserWithAngleY),
     (''HIGH_ANGLE_Y'', Float64, AnalyserHighAngleY),
     (''LOW_ANGLE_Y'', Float64, AnalyserLowAngleY),
     (''CENTER_ANGLE_Y'', Float64, AnalyserCenterAngleY),
     (''ANGLE_Y_STEP'', Float64, AnalyserAngleYStep),
     (''ANGLE_Y_COUNT'', Int32, AnalyserAngleYCount),
     (''EXCITATION_ENERGY'', Float64, ExcitationEnergy),
     (''WORK_FUNCTION'', Float64, WorkFunction),
     (''FOCAL_POS_X'', Float64, FocalPositionX),
     (''FOCAL_POS_Y'', Float64, FocalPositionY),
     (''FOCAL_POS_Z'', Float64, FocalPositionZ),
     (''DETECTOR_CHANNELS'', Int32, DetectorChannels),
     (''DETECTOR_SLICES'', Int32, DetectorSlices),
     (''ACQ_ETA'', Float64, AcqETA),
     (''ACQ_ETA_STR'', Octet, AcqETAStr),
     (''NSTEPS'', Int32, AcqNumSteps),
     (''NSTEPS_COUNTER'', Int32, AcqNumStepsCounter),
     (''ACQ_PROGRESS'', Float64, AcqProgress),
     (''ACQ_SPECTRUM'', Float64Array, AcqSpectrum),
     (''ACQ_ENERGY_SCALE'', Float64Array, AcqEnergyScale),
     (''ACQ_SLICE_SCALE'', Float64Array, AcqSliceScale),
     (''ZERO_SUPPLIES'', Int32, ZeroSupplies)]"

text \<open>The types of the parameters of the base classes are those of areaDetector.\<close>

definition base_params :: "(param \<times> param_type) list" where
  "base_params =
    [(ADAcquire, Int32), (ADStatus, Int32), (ADStatusMessage, Octet), (ADNumExposures, Int32),
     (ADNumExposuresCounter, Int32), (ADNumImages, Int32), (ADNumImagesCounter, Int32), (ADImageMode, Int32),
     (ADAcquireTime, Float64), (ADMinX, Int32), (ADMinY, Int32), (ADSizeX, Int32), (ADSizeY, Int32),
     (ADMaxSizeX, Int32), (ADMaxSizeY, Int32), (ADManufacturer, Octet), (ADModel, Octet),
     (ADSerialNumber, Octet), (ADSDKVersion, Octet), (ADFirmwareVersion, Octet), (NDDriverVersion, Octet),
     (NDDataType, Int32), (NDColorMode, Int32), (NDArrayCounter, Int32), (NDArrayCallbacks, Int32)]"

definition is_base :: "param \<Rightarrow> bool" where
  "is_base p = (case p of Base_param t n \<Rightarrow> True | _ \<Rightarrow> p \<in> fst ` set base_params)"

definition param_type :: "param \<Rightarrow> param_type" where
  "param_type p = (case p of
       Base_param t n \<Rightarrow> t
     | _ \<Rightarrow> (case map_of (base_params @ map (\<lambda>(_, t, q). (q, t)) own_params) p of Some t \<Rightarrow> t | None \<Rightarrow> Int32))"

text \<open>The values of the enumerations of areaDetector; the driver casts them to integers.\<close>

datatype ad_enum =
    ADStatusIdle | ADStatusAcquire | ADStatusError | ADStatusDisconnected | ADStatusAborted
  | ADImageSingle | ADImageMultiple | NDFloat32 | NDColorModeMono

section \<open>The members of the driver\<close>

text \<open>\<open>LensModeSetting\<close>; the ranges of the deflections are set only where there is one.\<close>

record lens_mode_setting =
  lm_name :: string
  hasXDeflection :: bool
  hasYDeflection :: bool
  xDeflectionRange :: "(dbl \<times> dbl) option"
  yDeflectionRange :: "(dbl \<times> dbl) option"
  passEnergyRange :: "dbl \<times> dbl"

text \<open>The variables of \<open>acquisitionTask\<close> its callbacks refer to.\<close>

record task_vars =
  tv_numSteps :: int
  tv_numStepsCounter :: "int option"
  tv_numExposures :: int
  tv_numExposuresCounter :: int

text \<open>
  The members.  A client pointer is null or the address of its client.  The members the constructor
  does not initialise are options.  The requested axes are a map of the library with the value zero
  for a key that is not there, which is what its \<open>operator[]\<close> makes of it.
\<close>

record driver =
  analyser :: "string option"
  electronics :: "string option"
  m_ManagerHost :: string
  m_PeakRelease :: "int option"
  m_UseProxy :: "bool option"
  m_SpectrumDefinition :: json
  m_SpectrumLive :: json
  m_Elementsets :: "string list"
  m_LensModes :: "lens_mode_setting list"
  m_PassEnergies :: "dbl list"
  m_DetectorModes :: "string list"
  m_Slits :: "string list"
  m_RequestedAxes :: "param \<Rightarrow> dbl"
  m_PixelDensity :: "dbl option"
  m_DetectorArea :: "(string \<times> dbl) list"
  m_ChannelArea :: "(string \<times> dbl) list"
  task :: task_vars

section \<open>The surroundings\<close>

text \<open>
  The parameter library: the value the get functions deliver, and the set functions and the
  callbacks with the status they return.
\<close>

record 's asyn =
  p_int :: "param \<Rightarrow> 's \<Rightarrow> int"
  p_dbl :: "param \<Rightarrow> 's \<Rightarrow> dbl"
  p_set_int :: "param \<Rightarrow> int \<Rightarrow> 's \<Rightarrow> int \<times> 's"
  p_set_dbl :: "param \<Rightarrow> dbl \<Rightarrow> 's \<Rightarrow> int \<times> 's"
  p_set_str :: "param \<Rightarrow> string \<Rightarrow> 's \<Rightarrow> int \<times> 's"
  p_callbacks :: "'s \<Rightarrow> int \<times> 's"

datatype driver_event = StartEvent | StopEvent | SpectrumEvent

text \<open>The closures the driver passes to the analyser client.\<close>

datatype driver_cb = OnState | OnUpdate

text \<open>An array of the pool: its dimensions, its samples, its number and its time stamp.\<close>

record nd_array =
  nd_dims :: "nat list"
  nd_samples :: "32 word list"
  nd_uniqueId :: int
  nd_timeStamp :: dbl

record 's env =
  e_asyn :: "'s asyn"
  e_enum :: "ad_enum \<Rightarrow> int"
  e_rpc :: "string \<Rightarrow> (driver_cb peak_cb, driver \<times> 's) rpc_client"
  e_create :: "string \<Rightarrow> transport \<Rightarrow> (driver \<times> 's, unit) prog"
  e_net :: "(driver \<times> 's) net"
  e_files :: "(driver \<times> 's) files"
  e_new_client :: "string \<Rightarrow> string \<Rightarrow> json list \<Rightarrow> (driver \<times> 's, json) prog"
  e_lock :: "(driver \<times> 's, unit) prog"
  e_unlock :: "(driver \<times> 's, unit) prog"
  e_wait :: "driver_event \<Rightarrow> (driver \<times> 's, unit) prog"
  e_try_wait :: "driver_event \<Rightarrow> (driver \<times> 's, unit) prog"
  e_signal :: "driver_event \<Rightarrow> (driver \<times> 's, unit) prog"
  e_time :: "('s, int \<times> int) prog"
  e_time_diff :: "int \<times> int \<Rightarrow> int \<times> int \<Rightarrow> dbl"
  e_alloc :: "nat list \<Rightarrow> ('s, bool) prog"
  e_attributes :: "('s, unit) prog"
  e_array :: "nd_array \<Rightarrow> int \<Rightarrow> ('s, unit) prog"
  e_release :: "('s, unit) prog"
  e_doubles :: "param \<Rightarrow> dbl list \<Rightarrow> ('s, unit) prog"
  e_base_int :: "param \<Rightarrow> int \<Rightarrow> ('s, int) prog"
  e_base_dbl :: "param \<Rightarrow> dbl \<Rightarrow> ('s, int) prog"
  e_base_str :: "param \<Rightarrow> string \<Rightarrow> ('s, int) prog"
  e_base_new :: "string \<Rightarrow> int \<Rightarrow> int \<Rightarrow> int \<Rightarrow> int \<Rightarrow> int \<Rightarrow> int \<Rightarrow> ('s, unit) prog"
  e_create_param :: "string \<Rightarrow> param_type \<Rightarrow> param \<Rightarrow> ('s, unit) prog"
  e_disconnect :: "(driver \<times> 's, unit) prog"
  e_event_create :: "driver_event \<Rightarrow> ('s, unit) prog"
  e_thread :: "string \<Rightarrow> ('s, bool) prog"
  e_what :: "cxx_exn \<Rightarrow> string"

type_synonym 's drv_state = "(peak_api \<times> api_ids) \<times> (driver \<times> 's)"
type_synonym ('s, 'a) drv_prog = "('s drv_state, 'a) prog"

section \<open>Steps of the driver\<close>

definition drv :: "'s drv_state \<Rightarrow> driver" where
  "drv s = fst (snd s)"

definition world :: "'s drv_state \<Rightarrow> 's" where
  "world s = snd (snd s)"

definition put_world :: "'s \<Rightarrow> 's drv_state \<Rightarrow> 's drv_state" where
  "put_world w s = (fst s, (drv s, w))"

definition get_drv :: "(driver \<Rightarrow> 'a) \<Rightarrow> ('s, 'a) drv_prog" where
  "get_drv f = getsp (\<lambda>s. f (drv s))"

definition upd_drv :: "(driver \<Rightarrow> driver) \<Rightarrow> ('s, unit) drv_prog" where
  "upd_drv f = modp (\<lambda>s. (fst s, (f (drv s), world s)))"

definition getIntegerParam :: "'s env \<Rightarrow> param \<Rightarrow> ('s, int) drv_prog" where
  "getIntegerParam E p = getsp (\<lambda>s. p_int (e_asyn E) p (world s))"

definition getDoubleParam :: "'s env \<Rightarrow> param \<Rightarrow> ('s, dbl) drv_prog" where
  "getDoubleParam E p = getsp (\<lambda>s. p_dbl (e_asyn E) p (world s))"

text \<open>An operation of the library with its status.\<close>

definition asyn_op :: "('s \<Rightarrow> int \<times> 's) \<Rightarrow> ('s, int) drv_prog" where
  "asyn_op f = (\<lambda>s. let (status, w) = f (world s) in Some (Ret status, put_world w s))"

definition setIntegerParam :: "'s env \<Rightarrow> param \<Rightarrow> int \<Rightarrow> ('s, int) drv_prog" where
  "setIntegerParam E p v = asyn_op (p_set_int (e_asyn E) p v)"

definition setDoubleParam :: "'s env \<Rightarrow> param \<Rightarrow> dbl \<Rightarrow> ('s, int) drv_prog" where
  "setDoubleParam E p v = asyn_op (p_set_dbl (e_asyn E) p v)"

definition setStringParam :: "'s env \<Rightarrow> param \<Rightarrow> string \<Rightarrow> ('s, int) drv_prog" where
  "setStringParam E p v = asyn_op (p_set_str (e_asyn E) p v)"

definition callParamCallbacks :: "'s env \<Rightarrow> ('s, int) drv_prog" where
  "callParamCallbacks E = asyn_op (p_callbacks (e_asyn E))"

text \<open>Operations of the surroundings that do not touch the members, and those that may.\<close>

definition envp :: "('s, 'a) prog \<Rightarrow> ('s, 'a) drv_prog" where
  "envp m = netp (netp m)"

text \<open>A call on the analyser client: a null pointer is not to be used.\<close>

definition with_analyser ::
    "'s env \<Rightarrow> ((driver_cb peak_cb, driver \<times> 's) rpc_client \<Rightarrow> ('s, 'a) drv_prog) \<Rightarrow> ('s, 'a) drv_prog" where
  "with_analyser E m = bnd (get_drv analyser) (\<lambda>a. case a of
       None \<Rightarrow> undefp
     | Some uri \<Rightarrow> m (e_rpc E uri))"

text \<open>A call on another client, which keeps nothing between its calls.\<close>

definition with_client ::
    "'s env \<Rightarrow> string \<Rightarrow> ((driver_cb peak_cb, driver \<times> 's) rpc_client \<Rightarrow> ('s, 'a) drv_prog) \<Rightarrow> ('s, 'a) drv_prog" where
  "with_client E uri m = (\<lambda>((a, ids), t).
     Option.bind (m (e_rpc E uri) ((fst (PeakAPI uri), ids), t)) (\<lambda>(r, ((_, ids'), t')).
       Some (r, ((a, ids'), t'))))"

section \<open>Running the steps\<close>

named_theorems drv_runs "rewrite rules that run the steps of the driver"

text \<open>Programs brought into the form of a first step and what follows it.\<close>

lemma sq_if: "sq (if b then m else n) k = (if b then sq m k else sq n k)"
  by simp

lemma bnd_if: "bnd (if b then m else n) f = (if b then bnd m f else bnd n f)"
  by simp

lemma sq_option: "sq (case x of None \<Rightarrow> m | Some a \<Rightarrow> n a) k = (case x of None \<Rightarrow> sq m k | Some a \<Rightarrow> sq (n a) k)"
  by (cases x) simp_all

lemma bnd_option: "bnd (case x of None \<Rightarrow> m | Some a \<Rightarrow> n a) f = (case x of None \<Rightarrow> bnd m f | Some a \<Rightarrow> bnd (n a) f)"
  by (cases x) simp_all

lemma sq_assoc:
  "sq (sq m n) k = sq m (sq n k)" "bnd (sq m n) f = sq m (bnd n f)" "sq (bnd m g) k = bnd m (\<lambda>x. sq (g x) k)"
  by (simp_all add: sq_def)

lemmas drv_flat = sq_assoc bnd_assoc sq_if bnd_if sq_option bnd_option

lemma if_run [drv_runs]: "(if b then m else n) s = (if b then m s else n s)"
  by simp

lemma drv_sel [simp]: "drv (x, (d, w)) = d" "world (x, (d, w)) = w" "put_world w' (x, (d, w)) = (x, (d, w'))"
  by (simp_all add: drv_def world_def put_world_def)

lemma drv_put [simp]:
  "drv (put_world w s) = drv s" "world (put_world w s) = w" "fst (put_world w s) = fst s"
  "put_world w (put_world w' s) = put_world w s"
  by (simp_all add: drv_def world_def put_world_def)

lemma get_drv_run [drv_runs]: "bnd (get_drv f) k s = k (f (drv s)) s"
  by (simp add: get_drv_def)

lemma upd_drv_run [drv_runs]:
  "sq (upd_drv f) n s = n (fst s, (f (drv s), world s))" "upd_drv f s = Some (Ret (), (fst s, (f (drv s), world s)))"
  by (simp_all add: upd_drv_def)

lemma getIntegerParam_run [drv_runs]: "bnd (getIntegerParam E p) k s = k (p_int (e_asyn E) p (world s)) s"
  by (simp add: getIntegerParam_def)

lemma getDoubleParam_run [drv_runs]: "bnd (getDoubleParam E p) k s = k (p_dbl (e_asyn E) p (world s)) s"
  by (simp add: getDoubleParam_def)

lemma asyn_op_run:
  "sq (asyn_op f) n s = n (put_world (snd (f (world s))) s)"
  "bnd (asyn_op f) k s = k (fst (f (world s))) (put_world (snd (f (world s))) s)"
  "asyn_op f s = Some (Ret (fst (f (world s))), put_world (snd (f (world s))) s)"
  by (simp_all add: asyn_op_def sq_def bnd_def split: prod.splits)

text \<open>The state of the library after its operations.\<close>

definition int_set :: "'s env \<Rightarrow> param \<Rightarrow> int \<Rightarrow> 's \<Rightarrow> 's" where
  "int_set E p v w = snd (p_set_int (e_asyn E) p v w)"

definition dbl_set :: "'s env \<Rightarrow> param \<Rightarrow> dbl \<Rightarrow> 's \<Rightarrow> 's" where
  "dbl_set E p v w = snd (p_set_dbl (e_asyn E) p v w)"

definition str_set :: "'s env \<Rightarrow> param \<Rightarrow> string \<Rightarrow> 's \<Rightarrow> 's" where
  "str_set E p v w = snd (p_set_str (e_asyn E) p v w)"

definition called_back :: "'s env \<Rightarrow> 's \<Rightarrow> 's" where
  "called_back E w = snd (p_callbacks (e_asyn E) w)"

lemma setIntegerParam_run [drv_runs]:
  "sq (setIntegerParam E p v) n s = n (put_world (int_set E p v (world s)) s)"
  "bnd (setIntegerParam E p v) k s = k (fst (p_set_int (e_asyn E) p v (world s))) (put_world (int_set E p v (world s)) s)"
  by (simp_all add: setIntegerParam_def asyn_op_run int_set_def)

lemma setDoubleParam_run [drv_runs]:
  "sq (setDoubleParam E p v) n s = n (put_world (dbl_set E p v (world s)) s)"
  "bnd (setDoubleParam E p v) k s = k (fst (p_set_dbl (e_asyn E) p v (world s))) (put_world (dbl_set E p v (world s)) s)"
  by (simp_all add: setDoubleParam_def asyn_op_run dbl_set_def)

lemma setStringParam_run [drv_runs]:
  "sq (setStringParam E p v) n s = n (put_world (str_set E p v (world s)) s)"
  "bnd (setStringParam E p v) k s = k (fst (p_set_str (e_asyn E) p v (world s))) (put_world (str_set E p v (world s)) s)"
  by (simp_all add: setStringParam_def asyn_op_run str_set_def)

lemma callParamCallbacks_run [drv_runs]:
  "sq (callParamCallbacks E) n s = n (put_world (called_back E (world s)) s)"
  "bnd (callParamCallbacks E) k s = k (fst (p_callbacks (e_asyn E) (world s))) (put_world (called_back E (world s)) s)"
  by (simp_all add: callParamCallbacks_def asyn_op_run called_back_def)

text \<open>A program returns, and its result and the state it leaves satisfy a predicate.\<close>

definition returns :: "('s, 'a) prog \<Rightarrow> 's \<Rightarrow> ('a \<Rightarrow> 's \<Rightarrow> bool) \<Rightarrow> bool" where
  "returns m s Q \<longleftrightarrow> (\<exists>a s'. m s = Some (Ret a, s') \<and> Q a s')"

lemma returns_sq: "returns m s (\<lambda>_ s'. returns n s' Q) \<Longrightarrow> returns (sq m n) s Q"
  by (auto simp: returns_def sq_run_Ret)

lemma returns_bnd: "returns m s (\<lambda>a s'. returns (f a) s' Q) \<Longrightarrow> returns (bnd m f) s Q"
  by (auto simp: returns_def bnd_run_Ret)

lemma returns_simple [simp]:
  "returns (retp a) s Q = Q a s" "returns (getsp g) s Qg = Qg (g s) s" "returns (modp h) s Qu = Qu () (h s)"
  "returns (liftp r) s Q = (\<exists>a. r = Ret a \<and> Q a s)"
  by (auto simp: returns_def)

lemma returns_drv [simp]:
  "returns (get_drv f) s Q = Q (f (drv s)) s"
  "returns (upd_drv g) s Qu = Qu () (fst s, (g (drv s), world s))"
  "returns (getIntegerParam E p) s Qi = Qi (p_int (e_asyn E) p (world s)) s"
  "returns (getDoubleParam E p) s Qd = Qd (p_dbl (e_asyn E) p (world s)) s"
  by (simp_all add: get_drv_def upd_drv_def getIntegerParam_def getDoubleParam_def)

lemma returns_set [simp]:
  "returns (setIntegerParam E p v) s Q = Q (fst (p_set_int (e_asyn E) p v (world s))) (put_world (int_set E p v (world s)) s)"
  "returns (setDoubleParam E p x) s Q = Q (fst (p_set_dbl (e_asyn E) p x (world s))) (put_world (dbl_set E p x (world s)) s)"
  "returns (setStringParam E p t) s Q = Q (fst (p_set_str (e_asyn E) p t (world s))) (put_world (str_set E p t (world s)) s)"
  by (simp_all add: returns_def setIntegerParam_def setDoubleParam_def setStringParam_def asyn_op_run
    int_set_def dbl_set_def str_set_def)

lemma returns_mono: "returns m s P \<Longrightarrow> (\<And>a s'. P a s' \<Longrightarrow> Q a s') \<Longrightarrow> returns m s Q"
  by (auto simp: returns_def)

section \<open>What the driver relies on\<close>

text \<open>
  A set function stores the value of a parameter of its type and changes no other parameter, and
  the callbacks change none.  A set function on a parameter of another type changes nothing.
\<close>

locale asyn_params =
  fixes E :: "'s env" and strs :: "param \<Rightarrow> 's \<Rightarrow> string"
  assumes int_set_int: "p_int (e_asyn E) q (int_set E p v w) = (if q = p \<and> param_type p = Int32 then v else p_int (e_asyn E) q w)"
    and int_set_dbl: "p_dbl (e_asyn E) q (int_set E p v w) = p_dbl (e_asyn E) q w"
    and int_set_str: "strs q (int_set E p v w) = strs q w"
    and dbl_set_dbl: "p_dbl (e_asyn E) q (dbl_set E p x w) = (if q = p \<and> param_type p = Float64 then x else p_dbl (e_asyn E) q w)"
    and dbl_set_int: "p_int (e_asyn E) q (dbl_set E p x w) = p_int (e_asyn E) q w"
    and dbl_set_str: "strs q (dbl_set E p x w) = strs q w"
    and str_set_str: "strs q (str_set E p t w) = (if q = p \<and> param_type p = Octet then t else strs q w)"
    and str_set_int: "p_int (e_asyn E) q (str_set E p t w) = p_int (e_asyn E) q w"
    and str_set_dbl: "p_dbl (e_asyn E) q (str_set E p t w) = p_dbl (e_asyn E) q w"
    and back_int: "p_int (e_asyn E) q (called_back E w) = p_int (e_asyn E) q w"
    and back_dbl: "p_dbl (e_asyn E) q (called_back E w) = p_dbl (e_asyn E) q w"
    and back_str: "strs q (called_back E w) = strs q w"
begin

lemmas param_laws = int_set_int int_set_dbl int_set_str dbl_set_dbl dbl_set_int dbl_set_str
  str_set_str str_set_int str_set_dbl back_int back_dbl back_str

end

text \<open>The laws are about the operations of the library only.\<close>

lemma asyn_params_same: "asyn_params E strs \<Longrightarrow> e_asyn E' = e_asyn E \<Longrightarrow> asyn_params E' strs"
  by (simp add: asyn_params_def int_set_def dbl_set_def str_set_def called_back_def)

lemma param_type_simps [simp]:
  "param_type (Base_param t n) = t"
  "param_type ADAcquire = Int32" "param_type ADStatus = Int32" "param_type ADStatusMessage = Octet"
  "param_type ADNumExposures = Int32" "param_type ADNumExposuresCounter = Int32"
  "param_type ADNumImages = Int32" "param_type ADNumImagesCounter = Int32"
  "param_type ADImageMode = Int32" "param_type ADAcquireTime = Float64"
  "param_type ADMinX = Int32" "param_type ADMinY = Int32" "param_type ADSizeX = Int32" "param_type ADSizeY = Int32"
  "param_type ADMaxSizeX = Int32" "param_type ADMaxSizeY = Int32" "param_type ADManufacturer = Octet"
  "param_type ADModel = Octet" "param_type ADSerialNumber = Octet" "param_type ADSDKVersion = Octet"
  "param_type ADFirmwareVersion = Octet" "param_type NDDriverVersion = Octet" "param_type NDDataType = Int32"
  "param_type NDColorMode = Int32" "param_type NDArrayCounter = Int32" "param_type NDArrayCallbacks = Int32"
  by (simp_all add: param_type_def base_params_def)

lemma own_param_type [simp]:
  "param_type ElementSet = Int32" "param_type ElementSetStr = Octet" "param_type LensMode = Int32"
  "param_type LensModeStr = Octet" "param_type DetectorMode = Int32" "param_type DetectorModeStr = Octet"
  "param_type PassEnergy = Int32" "param_type PassEnergyValue = Float64" "param_type EnergyMode = Int32"
  "param_type EnergyModeStr = Octet" "param_type Slit = Int32" "param_type AnalyserAcquisitionMode = Int32"
  "param_type AnalyserHighEnergy = Float64" "param_type AnalyserLowEnergy = Float64"
  "param_type AnalyserCenterEnergy = Float64" "param_type AnalyserEnergyStep = Float64"
  "param_type AnalyserEnergyCount = Int32" "param_type AnalyserWithSlice = Int32"
  "param_type AnalyserHighSlice = Float64" "param_type AnalyserLowSlice = Float64"
  "param_type AnalyserCenterSlice = Float64" "param_type AnalyserSliceStep = Float64"
  "param_type AnalyserSliceCount = Int32" "param_type AnalyserWithAngleY = Int32"
  "param_type AnalyserHighAngleY = Float64" "param_type AnalyserLowAngleY = Float64"
  "param_type AnalyserCenterAngleY = Float64" "param_type AnalyserAngleYStep = Float64"
  "param_type AnalyserAngleYCount = Int32" "param_type ExcitationEnergy = Float64"
  "param_type WorkFunction = Float64" "param_type FocalPositionX = Float64" "param_type FocalPositionY = Float64"
  "param_type FocalPositionZ = Float64" "param_type DetectorChannels = Int32" "param_type DetectorSlices = Int32"
  "param_type AcqETA = Float64" "param_type AcqETAStr = Octet" "param_type AcqNumSteps = Int32"
  "param_type AcqNumStepsCounter = Int32" "param_type AcqProgress = Float64" "param_type AcqSpectrum = Float64Array"
  "param_type AcqEnergyScale = Float64Array" "param_type AcqSliceScale = Float64Array"
  "param_type ZeroSupplies = Int32"
  by (simp_all add: param_type_def base_params_def own_params_def)

section \<open>A table of parameters\<close>

text \<open>A parameter library that is just a table, and surroundings in which nothing else happens.\<close>

record table =
  t_int :: "param \<Rightarrow> int"
  t_dbl :: "param \<Rightarrow> dbl"
  t_str :: "param \<Rightarrow> string"

definition table_asyn :: "table asyn" where
  "table_asyn = \<lparr>
     p_int = (\<lambda>p w. t_int w p),
     p_dbl = (\<lambda>p w. t_dbl w p),
     p_set_int = (\<lambda>p v w. if param_type p = Int32 then (0, w\<lparr>t_int := (t_int w)(p := v)\<rparr>) else (1, w)),
     p_set_dbl = (\<lambda>p v w. if param_type p = Float64 then (0, w\<lparr>t_dbl := (t_dbl w)(p := v)\<rparr>) else (1, w)),
     p_set_str = (\<lambda>p v w. if param_type p = Octet then (0, w\<lparr>t_str := (t_str w)(p := v)\<rparr>) else (1, w)),
     p_callbacks = (\<lambda>w. (0, w))\<rparr>"

definition table_enum :: "ad_enum \<Rightarrow> int" where
  "table_enum e = (case e of ADStatusIdle \<Rightarrow> 0 | ADStatusAcquire \<Rightarrow> 1 | ADStatusError \<Rightarrow> 6
     | ADStatusDisconnected \<Rightarrow> 9 | ADStatusAborted \<Rightarrow> 10 | ADImageSingle \<Rightarrow> 0 | ADImageMultiple \<Rightarrow> 1
     | NDFloat32 \<Rightarrow> 8 | NDColorModeMono \<Rightarrow> 0)"

text \<open>Surroundings in which every call is answered by a fixed function and nothing else happens.\<close>

definition table_rpc :: "(string \<Rightarrow> json) \<Rightarrow> (driver_cb peak_cb, driver \<times> table) rpc_client" where
  "table_rpc answer = \<lparr>rpc_scheme = ''ws://'', rpc_call = (\<lambda>m _. retp (answer m)), rpc_subscribe = (\<lambda>_ _. retp ()),
     rpc_unsubscribe = (\<lambda>_. retp ()), rpc_notificationServer = retp []\<rparr>"

definition no_net :: "'w net" where
  "no_net = \<lparr>n_recv = (\<lambda>_ _. retp RecvClosed), n_send = (\<lambda>_ _. retp 0), n_create = retp None,
     n_destroy = (\<lambda>_. retp ()), n_connect = (\<lambda>_ _ _. retp ConnFailed), n_select_write = (\<lambda>_ _. retp SelReady),
     n_select_read = (\<lambda>_ _. retp SelReady), n_set_nonblock = (\<lambda>_ _. retp True), n_local_host = (\<lambda>_. retp []),
     n_resolve = (\<lambda>_. None)\<rparr>"

definition table_env :: "(string \<Rightarrow> json) \<Rightarrow> table env" where
  "table_env answer = \<lparr>e_asyn = table_asyn, e_enum = table_enum, e_rpc = (\<lambda>_. table_rpc answer),
     e_create = (\<lambda>_ _. retp ()), e_net = no_net, e_files = \<lparr>f_read = (\<lambda>_. retp None), f_remove = (\<lambda>_. retp ())\<rparr>,
     e_new_client = (\<lambda>_ m _. retp (answer m)), e_lock = retp (), e_unlock = retp (), e_wait = (\<lambda>_. retp ()),
     e_try_wait = (\<lambda>_. retp ()), e_signal = (\<lambda>_. retp ()), e_time = retp (0, 0),
     e_time_diff = (\<lambda>now last. dbl_of_int (fst now - fst last)), e_alloc = (\<lambda>_. retp True),
     e_attributes = retp (), e_array = (\<lambda>_ _. retp ()), e_release = retp (), e_doubles = (\<lambda>_ _. retp ()), e_base_int = (\<lambda>_ _. retp 0), e_base_dbl = (\<lambda>_ _. retp 0),
     e_base_str = (\<lambda>_ _. retp 0), e_base_new = (\<lambda>_ _ _ _ _ _ _. retp ()), e_create_param = (\<lambda>_ _ _. retp ()), e_disconnect = retp (),
     e_event_create = (\<lambda>_. retp ()), e_thread = (\<lambda>_. retp True),
     e_what = (\<lambda>_. [])\<rparr>"

interpretation table: asyn_params "table_env answer" "\<lambda>p w. t_str w p"
  by unfold_locales
    (auto simp: table_env_def table_asyn_def int_set_def dbl_set_def str_set_def called_back_def)

text \<open>A driver before its connection, and one connected to an analyser with two lens modes.\<close>

definition new_driver :: "string \<Rightarrow> driver" where
  "new_driver hostAddress = \<lparr>analyser = None, electronics = None, m_ManagerHost = hostAddress,
     m_PeakRelease = None, m_UseProxy = None, m_SpectrumDefinition = JNull, m_SpectrumLive = JNull,
     m_Elementsets = [], m_LensModes = [], m_PassEnergies = [], m_DetectorModes = [], m_Slits = [],
     m_RequestedAxes = (\<lambda>_. Fin 0), m_PixelDensity = None, m_DetectorArea = [], m_ChannelArea = [],
     task = \<lparr>tv_numSteps = 0, tv_numStepsCounter = None, tv_numExposures = 0, tv_numExposuresCounter = 0\<rparr>\<rparr>"

definition sample_driver :: driver where
  "sample_driver = (new_driver ''ws://ses'')\<lparr>analyser := Some ''ws://ses/api'', electronics := Some ''ws://ele/api'',
     m_UseProxy := Some True, m_Elementsets := [''Low''], m_PassEnergies := [Fin 5, Fin 10],
     m_LensModes := [\<lparr>lm_name = ''Angular'', hasXDeflection = True, hasYDeflection = True,
         xDeflectionRange = Some (Fin (- 1), Fin 1), yDeflectionRange = Some (Fin (- 15), Fin 15),
         passEnergyRange = (Fin 1, Fin 20)\<rparr>,
       \<lparr>lm_name = ''Transmission'', hasXDeflection = False, hasYDeflection = False, xDeflectionRange = None,
         yDeflectionRange = None, passEnergyRange = (Fin 1, Fin 20)\<rparr>],
     m_DetectorModes := [''Image''], m_Slits := [''Slit A''], m_PixelDensity := Some (Fin 10)\<rparr>"

lemma sample_driver_sel [simp]:
  "analyser sample_driver = Some ''ws://ses/api''" "electronics sample_driver = Some ''ws://ele/api''"
  "m_Elementsets sample_driver = [''Low'']" "m_PassEnergies sample_driver = [Fin 5, Fin 10]"
  "m_DetectorModes sample_driver = [''Image'']" "m_PixelDensity sample_driver = Some (Fin 10)"
  "m_RequestedAxes sample_driver = (\<lambda>_. Fin 0)" "m_SpectrumDefinition sample_driver = JNull"
  "m_ChannelArea sample_driver = []" "length (m_LensModes sample_driver) = 2"
  "lm_name (m_LensModes sample_driver ! 0) = ''Angular''" "hasYDeflection (m_LensModes sample_driver ! 0)"
  "yDeflectionRange (m_LensModes sample_driver ! 0) = Some (Fin (- 15), Fin 15)"
  "passEnergyRange (m_LensModes sample_driver ! 0) = (Fin 1, Fin 20)"
  "lm_name (m_LensModes sample_driver ! Suc 0) = ''Transmission''" "\<not> hasYDeflection (m_LensModes sample_driver ! Suc 0)"
  by (simp_all add: sample_driver_def new_driver_def)

lemma table_env_sel [simp]:
  "p_int (e_asyn (table_env answer)) q w = t_int w q" "p_dbl (e_asyn (table_env answer)) q w = t_dbl w q"
  "e_enum (table_env answer) = table_enum" "e_rpc (table_env answer) u = table_rpc answer"
  "e_lock (table_env answer) = retp ()" "e_unlock (table_env answer) = retp ()"
  "e_wait (table_env answer) ev = retp ()" "e_try_wait (table_env answer) ev = retp ()"
  "e_signal (table_env answer) ev = retp ()" "e_time (table_env answer) = retp (0, 0)"
  "e_base_int (table_env answer) q n = retp 0" "e_base_dbl (table_env answer) q x = retp 0"
  "e_base_str (table_env answer) q t = retp 0" "e_alloc (table_env answer) ns = retp True"
  "e_attributes (table_env answer) = retp ()" "e_array (table_env answer) a n = retp ()"
  "e_release (table_env answer) = retp ()" "e_doubles (table_env answer) q xs = retp ()"
  "e_create (table_env answer) u tr = retp ()" "e_disconnect (table_env answer) = retp ()"
  "e_new_client (table_env answer) u mm js = retp (answer mm)"
  by (simp_all add: table_env_def table_asyn_def)

definition sample_table :: table where
  "sample_table = \<lparr>t_int = (\<lambda>_. 0), t_dbl = (\<lambda>_. Fin 0), t_str = (\<lambda>_. [])\<rparr>"

lemma sample_table_sel [simp]: "t_int sample_table = (\<lambda>_. 0)" "t_dbl sample_table = (\<lambda>_. Fin 0)"
  by (simp_all add: sample_table_def)

definition sample_clients :: "peak_api \<times> api_ids" where
  "sample_clients = (\<lparr>api_uri = ''ws://ses/api'', api_mode = None, api_subscribers = []\<rparr>,
     \<lparr>observable_id = 0, state_id = 0\<rparr>)"

end
