(* ===== verification/DriverSpectrum.thy ===== *)
theory DriverSpectrum
  imports DriverState
begin

text \<open>
  The region of interest, the modes and the spectrum definition of the driver: \<open>setROI\<close> to
  \<open>setupSpectrumDefinition\<close> of \<open>peakAnalyser.cpp\<close>.
\<close>

section \<open>Region of interest and modes\<close>

definition setROI :: "'s env \<Rightarrow> ('s, unit) drv_prog" where
  "setROI E =
     bnd (getIntegerParam E ADMinX) (\<lambda>minX.
     bnd (getIntegerParam E ADMinY) (\<lambda>minY.
     bnd (getIntegerParam E ADSizeX) (\<lambda>sizeX.
     bnd (getIntegerParam E ADSizeY) (\<lambda>sizeY.
     bnd (getIntegerParam E ADMaxSizeX) (\<lambda>maxSizeX.
     bnd (getIntegerParam E ADMaxSizeY) (\<lambda>maxSizeY.
     bnd (liftp (c_add minX sizeX)) (\<lambda>right.
     sq (if right > maxSizeX
         then bnd (liftp (c_sub maxSizeX minX)) (\<lambda>sizeX. sq (setIntegerParam E ADSizeX sizeX) (retp ()))
         else retp ())
     (bnd (liftp (c_add minY sizeY)) (\<lambda>bottom.
     if bottom > maxSizeY
         then bnd (liftp (c_sub maxSizeY minY)) (\<lambda>sizeY. sq (setIntegerParam E ADSizeY sizeY) (retp ()))
         else retp ())))))))))"

text \<open>The position of a list entry goes to the parameter of the mode, its name or value to another.\<close>

definition setPassEnergy :: "'s env \<Rightarrow> dbl \<Rightarrow> ('s, unit) drv_prog" where
  "setPassEnergy E passEnergy =
     bnd (get_drv m_PassEnergies) (\<lambda>es. case find_index (\<lambda>e. deq e passEnergy) es of
       Some i \<Rightarrow>
         sq (setIntegerParam E PassEnergy (int i))
         (sq (setDoubleParam E PassEnergyValue passEnergy) (retp ()))
     | None \<Rightarrow> retp ())"

definition setElementSet :: "'s env \<Rightarrow> string \<Rightarrow> ('s, unit) drv_prog" where
  "setElementSet E elementSet =
     bnd (get_drv m_Elementsets) (\<lambda>es. case find_index (\<lambda>e. e = elementSet) es of
       Some i \<Rightarrow>
         sq (setIntegerParam E ElementSet (int i))
         (sq (setStringParam E ElementSetStr elementSet) (retp ()))
     | None \<Rightarrow> retp ())"

definition setLensMode :: "'s env \<Rightarrow> string \<Rightarrow> ('s, unit) drv_prog" where
  "setLensMode E lensMode =
     bnd (get_drv m_LensModes) (\<lambda>ms. case find_index (\<lambda>s. lm_name s = lensMode) ms of
       Some i \<Rightarrow>
         sq (setIntegerParam E LensMode (int i))
         (sq (setStringParam E LensModeStr lensMode) (retp ()))
     | None \<Rightarrow> retp ())"

definition setDetectorMode :: "'s env \<Rightarrow> string \<Rightarrow> ('s, unit) drv_prog" where
  "setDetectorMode E detectorMode =
     bnd (get_drv m_DetectorModes) (\<lambda>ms. case find_index (\<lambda>m. m = detectorMode) ms of
       Some i \<Rightarrow>
         sq (setIntegerParam E DetectorMode (int i))
         (sq (setStringParam E DetectorModeStr detectorMode) (retp ()))
     | None \<Rightarrow> retp ())"

definition setSlit :: "'s env \<Rightarrow> string \<Rightarrow> ('s, unit) drv_prog" where
  "setSlit E slit =
     bnd (get_drv m_Slits) (\<lambda>ss. case find_index (\<lambda>s. s = slit) ss of
       Some i \<Rightarrow> sq (setIntegerParam E Slit (int i)) (retp ())
     | None \<Rightarrow> retp ())"

definition clamp :: "dbl \<Rightarrow> dbl \<times> dbl \<Rightarrow> dbl" where
  "clamp value bounds =
     (if value < fst bounds then fst bounds
      else if snd bounds < value then snd bounds
      else value)"

section \<open>Times\<close>

text \<open>The conversion \<open>%02d\<close>, and \<open>snprintf\<close> into a buffer of four characters, one for the end mark.\<close>

definition format_02d :: "int \<Rightarrow> string" where
  "format_02d n =
     (let s = nat_to_string (nat \<bar>n\<bar>) in
      if n < 0 then CHR ''-'' # s
      else if length s < 2 then CHR ''0'' # s else s)"

definition snprintf_4 :: "string \<Rightarrow> string" where
  "snprintf_4 s = take 3 s"

definition strftime :: "int \<Rightarrow> string outcome" where
  "strftime seconds =
     obind (c_div seconds 86400) (\<lambda>days. obind (c_mod seconds 86400) (\<lambda>seconds.
     obind (c_div seconds 3600) (\<lambda>hours. obind (c_mod seconds 3500) (\<lambda>seconds.
     obind (c_div seconds 60) (\<lambda>minutes. obind (c_mod seconds 60) (\<lambda>seconds.
     let time = (if days \<noteq> 0 then int_to_string days @ '' days '' else []);
         time = (if hours \<noteq> 0 \<or> time \<noteq> [] then time @ snprintf_4 (format_02d hours @ '':'') else time);
         time = (if minutes \<noteq> 0 \<or> time \<noteq> [] then time @ snprintf_4 (format_02d minutes @ '':'') else time)
     in Ret (time @ snprintf_4 (format_02d seconds))))))))"

section \<open>The measured region\<close>

definition axis_double :: "string \<Rightarrow> string \<Rightarrow> json \<Rightarrow> ('s, dbl) drv_prog" where
  "axis_double ax k axes = liftp (obind (obind (jat ax axes) (jat k)) jdouble)"

definition axis_int :: "string \<Rightarrow> string \<Rightarrow> json \<Rightarrow> ('s, int) drv_prog" where
  "axis_int ax k axes = liftp (obind (obind (jat ax axes) (jat k)) jint)"

definition set_energy_axis :: "'s env \<Rightarrow> json \<Rightarrow> ('s, unit) drv_prog" where
  "set_energy_axis E requestedAxes =
     bnd (getIntegerParam E EnergyMode) (\<lambda>energyMode.
     bnd (getDoubleParam E ExcitationEnergy) (\<lambda>excitationEnergy.
     bnd (getDoubleParam E WorkFunction) (\<lambda>workFunction.
     bnd (axis_double ''X'' ''Offset'' requestedAxes) (\<lambda>lowEnergy.
     bnd (axis_double ''X'' ''Delta'' requestedAxes) (\<lambda>stepEnergy.
     bnd (axis_double ''X'' ''LastOffset'' requestedAxes) (\<lambda>highEnergy.
     bnd (axis_double ''X'' ''Center'' requestedAxes) (\<lambda>centerEnergy.
     let shift = (\<lambda>e. if energyMode = 1 then e + workFunction - excitationEnergy else e) in
     sq (setDoubleParam E AnalyserLowEnergy (shift lowEnergy))
     (sq (setDoubleParam E AnalyserEnergyStep stepEnergy)
     (sq (setDoubleParam E AnalyserHighEnergy (shift highEnergy))
     (sq (setDoubleParam E AnalyserCenterEnergy (shift centerEnergy))
     (bnd (axis_int ''X'' ''Count'' requestedAxes) (\<lambda>count.
     sq (setIntegerParam E AnalyserEnergyCount count) (retp ())))))))))))))"

definition set_slice_axis :: "'s env \<Rightarrow> json \<Rightarrow> ('s, unit) drv_prog" where
  "set_slice_axis E requestedAxes =
     bnd (axis_double ''Y'' ''Offset'' requestedAxes) (\<lambda>x. sq (setDoubleParam E AnalyserLowSlice x)
     (bnd (axis_double ''Y'' ''Delta'' requestedAxes) (\<lambda>x. sq (setDoubleParam E AnalyserSliceStep x)
     (bnd (axis_double ''Y'' ''LastOffset'' requestedAxes) (\<lambda>x. sq (setDoubleParam E AnalyserHighSlice x)
     (bnd (axis_double ''Y'' ''Center'' requestedAxes) (\<lambda>x. sq (setDoubleParam E AnalyserCenterSlice x)
     (bnd (axis_int ''Y'' ''Count'' requestedAxes) (\<lambda>n. sq (setIntegerParam E AnalyserSliceCount n)
     (retp ()))))))))))"

definition set_angle_axis :: "'s env \<Rightarrow> json \<Rightarrow> ('s, unit) drv_prog" where
  "set_angle_axis E requestedAxes =
     (if jcontains requestedAxes ''Z'' then
        bnd (axis_double ''Z'' ''Offset'' requestedAxes) (\<lambda>x. sq (setDoubleParam E AnalyserLowAngleY x)
        (bnd (axis_double ''Z'' ''Delta'' requestedAxes) (\<lambda>x. sq (setDoubleParam E AnalyserAngleYStep x)
        (bnd (axis_double ''Z'' ''LastOffset'' requestedAxes) (\<lambda>x. sq (setDoubleParam E AnalyserHighAngleY x)
        (bnd (axis_double ''Z'' ''Center'' requestedAxes) (\<lambda>x. sq (setDoubleParam E AnalyserCenterAngleY x)
        (bnd (axis_int ''Z'' ''Count'' requestedAxes) (\<lambda>n. sq (setIntegerParam E AnalyserAngleYCount n)
        (retp ()))))))))))
      else
        sq (setDoubleParam E AnalyserLowAngleY (Fin 0))
        (sq (setDoubleParam E AnalyserAngleYStep (Fin 0))
        (sq (setDoubleParam E AnalyserHighAngleY (Fin 0))
        (sq (setDoubleParam E AnalyserCenterAngleY (Fin 0))
        (sq (setIntegerParam E AnalyserAngleYCount 0) (retp ()))))))"

text \<open>The number of steps of a swept axis that has been acquired, and one otherwise.\<close>

definition times_count :: "bool \<Rightarrow> string \<Rightarrow> json \<Rightarrow> int \<Rightarrow> int outcome" where
  "times_count swept ax acquiredAxes numSteps =
     (if swept \<and> jcontains acquiredAxes ax
      then obind (obind (obind (jat ax acquiredAxes) (jat ''Count'')) jint) (c_mul numSteps)
      else Ret numSteps)"

definition setRegion :: "'s env \<Rightarrow> json \<Rightarrow> ('s, unit) drv_prog" where
  "setRegion E channelSettings =
     bnd (liftp (jat ''RequestedAxes'' channelSettings)) (\<lambda>requestedAxes.
     sq (set_energy_axis E requestedAxes)
     (sq (set_slice_axis E requestedAxes)
     (sq (set_angle_axis E requestedAxes)
     (bnd (getIntegerParam E AnalyserAcquisitionMode) (\<lambda>acquisitionMode.
     bnd (liftp (jat ''AcquiredAxes'' channelSettings)) (\<lambda>acquiredAxes.
     bnd (liftp (times_count (bit acquisitionMode 0) ''X'' acquiredAxes 1)) (\<lambda>numSteps.
     bnd (liftp (times_count (bit acquisitionMode 1) ''Z'' acquiredAxes numSteps)) (\<lambda>numSteps.
     sq (setIntegerParam E AcqNumSteps numSteps)
     (sq (setIntegerParam E AcqNumStepsCounter 0) (retp ()))))))))))"

section \<open>The spectrum definition\<close>

text \<open>Assign an entry of the definition, and an entry of one of its entries.\<close>

definition put_definition :: "string \<Rightarrow> json \<Rightarrow> ('s, unit) drv_prog" where
  "put_definition k v =
     bnd (get_drv m_SpectrumDefinition) (\<lambda>j.
     bnd (liftp (jset k v j)) (\<lambda>j'. upd_drv (\<lambda>d. d\<lparr>m_SpectrumDefinition := j'\<rparr>)))"

definition put_axis :: "string \<Rightarrow> string \<Rightarrow> json \<Rightarrow> ('s, unit) drv_prog" where
  "put_axis k ax v =
     bnd (get_drv m_SpectrumDefinition) (\<lambda>j.
     bnd (liftp (jupd k (jset ax v) j)) (\<lambda>j'. upd_drv (\<lambda>d. d\<lparr>m_SpectrumDefinition := j'\<rparr>)))"

definition swept_axis :: "dbl \<Rightarrow> dbl \<Rightarrow> dbl \<Rightarrow> json" where
  "swept_axis low high step = jobject
     [(''Offset'', JFloat low),
      (''Delta'', JFloat step),
      (''Count'', JFloat (dceil (\<bar>high - low - dbl_epsilon\<bar> / step) + Fin 1))]"

definition binned_axis :: "dbl \<Rightarrow> int \<Rightarrow> int \<Rightarrow> json" where
  "binned_axis center width channels = jobject
     [(''Center'', JFloat center),
      (''Binning'', JFloat (Fin 1 * dbl_of_int width / dbl_of_int channels))]"

text \<open>The detector area in millimetres; the sums of the parameters are computed in \<open>int\<close>.\<close>

definition area_value :: "string \<Rightarrow> (string \<times> dbl) list \<Rightarrow> dbl" where
  "area_value k m = (case map_of m k of Some x \<Rightarrow> x | None \<Rightarrow> Fin 0)"

definition detector_area :: "driver \<Rightarrow> int \<Rightarrow> int \<Rightarrow> int \<Rightarrow> int \<Rightarrow> json outcome" where
  "detector_area d minX minY sizeX sizeY =
     obind (case m_PixelDensity d of Some x \<Rightarrow> Ret x | None \<Rightarrow> Undef) (\<lambda>density.
     obind (c_add minX sizeX) (\<lambda>right.
     obind (c_add minY sizeY) (\<lambda>bottom.
     let cx = area_value ''CenterX'' (m_ChannelArea d); cy = area_value ''CenterY'' (m_ChannelArea d)
     in Ret (jobject [(''ROI'', jobject
       [(''LowX'', JFloat ((dbl_of_int minX - cx - Fin 1) / density)),
        (''LowY'', JFloat ((dbl_of_int minY - cy) / density)),
        (''HighX'', JFloat ((dbl_of_int right - cx - Fin 1) / density)),
        (''HighY'', JFloat ((dbl_of_int bottom - cy) / density))])]))))"

text \<open>The low, high and center energy that are asked for, as kinetic energies.\<close>

definition requested_energies :: "'s env \<Rightarrow> ('s, dbl \<times> dbl \<times> dbl \<times> dbl) drv_prog" where
  "requested_energies E =
     bnd (getIntegerParam E EnergyMode) (\<lambda>energyMode.
     bnd (getDoubleParam E ExcitationEnergy) (\<lambda>excitationEnergy.
     bnd (getDoubleParam E WorkFunction) (\<lambda>workFunction.
     bnd (get_drv m_RequestedAxes) (\<lambda>axes.
     let kinetic = (\<lambda>e. if energyMode = 1 then excitationEnergy - workFunction + e else e)
     in retp (kinetic (axes AnalyserLowEnergy), kinetic (axes AnalyserCenterEnergy),
          kinetic (axes AnalyserHighEnergy), axes AnalyserEnergyStep)))))"

text \<open>The low, center and high angle, inside the range of a lens mode that has one.\<close>

definition requested_angles :: "lens_mode_setting \<Rightarrow> (param \<Rightarrow> dbl) \<Rightarrow> (dbl \<times> dbl \<times> dbl) outcome" where
  "requested_angles lens axes =
     (let low = axes AnalyserLowAngleY; center = axes AnalyserCenterAngleY; high = axes AnalyserHighAngleY
      in if hasYDeflection lens then
           (case yDeflectionRange lens of
              None \<Rightarrow> Undef
            | Some bounds \<Rightarrow> Ret (clamp low bounds, clamp center bounds, clamp high bounds))
         else Ret (low, center, high))"

text \<open>The parameters \<open>setupSpectrumDefinition\<close> reads when it starts.\<close>

record spectrum_params =
  sp_acquisitionMode :: int
  sp_minX :: int
  sp_minY :: int
  sp_sizeX :: int
  sp_sizeY :: int
  sp_detectorMode :: int
  sp_detectorChannels :: int
  sp_detectorSlices :: int
  sp_lensMode :: int
  sp_elementSet :: int
  sp_passEnergy :: int
  sp_focalPosition :: "dbl \<times> dbl \<times> dbl"

definition read_spectrum_params :: "'s env \<Rightarrow> ('s, spectrum_params) drv_prog" where
  "read_spectrum_params E = getsp (\<lambda>s.
     let ints = (\<lambda>p. p_int (e_asyn E) p (world s)); dbls = (\<lambda>p. p_dbl (e_asyn E) p (world s))
     in \<lparr>sp_acquisitionMode = ints AnalyserAcquisitionMode,
         sp_minX = ints ADMinX, sp_minY = ints ADMinY, sp_sizeX = ints ADSizeX, sp_sizeY = ints ADSizeY,
         sp_detectorMode = ints DetectorMode, sp_detectorChannels = ints DetectorChannels,
         sp_detectorSlices = ints DetectorSlices, sp_lensMode = ints LensMode,
         sp_elementSet = ints ElementSet, sp_passEnergy = ints PassEnergy,
         sp_focalPosition = (dbls FocalPositionX, dbls FocalPositionY, dbls FocalPositionZ)\<rparr>)"

text \<open>The check of the indices: only the upper ends are compared.\<close>

definition out_of_range :: "driver \<Rightarrow> spectrum_params \<Rightarrow> bool" where
  "out_of_range d p \<longleftrightarrow>
     sp_elementSet p \<ge> int (length (m_Elementsets d)) \<or> sp_lensMode p \<ge> int (length (m_LensModes d)) \<or>
     sp_passEnergy p \<ge> int (length (m_PassEnergies d)) \<or> sp_detectorMode p \<ge> int (length (m_DetectorModes d))"

text \<open>Show the names of the modes and the pass energy, which is clamped to the range of the lens mode.\<close>

definition show_modes :: "'s env \<Rightarrow> driver \<Rightarrow> spectrum_params \<Rightarrow> ('s, int) drv_prog" where
  "show_modes E d p =
     bnd (liftp (vec_nth (m_PassEnergies d) (sp_passEnergy p))) (\<lambda>energy.
     bnd (liftp (vec_nth (m_LensModes d) (sp_lensMode p))) (\<lambda>lens.
     sq (setPassEnergy E (clamp energy (passEnergyRange lens)))
     (bnd (getIntegerParam E PassEnergy) (\<lambda>passEnergy.
     bnd (liftp (vec_nth (m_Elementsets d) (sp_elementSet p))) (\<lambda>element.
     sq (setStringParam E ElementSetStr element)
     (sq (setStringParam E LensModeStr (lm_name lens))
     (bnd (liftp (vec_nth (m_DetectorModes d) (sp_detectorMode p))) (\<lambda>detector.
     sq (setStringParam E DetectorModeStr detector)
     (bnd (liftp (vec_nth (m_PassEnergies d) passEnergy)) (\<lambda>energy.
     sq (setDoubleParam E PassEnergyValue energy)
     (retp passEnergy)))))))))))"

text \<open>The entries of the definition: the modes, the constants and the detector area.\<close>

definition fill_modes :: "driver \<Rightarrow> spectrum_params \<Rightarrow> int \<Rightarrow> dbl \<Rightarrow> ('s, unit) drv_prog" where
  "fill_modes d p passEnergy acquireTime =
     bnd (liftp (vec_nth (m_Elementsets d) (sp_elementSet p))) (\<lambda>element.
     sq (put_definition ''ElementSetName'' (JStr element))
     (bnd (liftp (vec_nth (m_LensModes d) (sp_lensMode p))) (\<lambda>lens.
     sq (put_definition ''LensModeName'' (JStr (lm_name lens)))
     (bnd (liftp (vec_nth (m_PassEnergies d) passEnergy)) (\<lambda>energy.
     sq (put_definition ''PassEnergy'' (JFloat energy))
     (sq (put_definition ''FixedAxes'' (JObj []))
     (sq (put_definition ''SweepAxes'' (JObj []))
     (bnd (liftp (vec_nth (m_DetectorModes d) (sp_detectorMode p))) (\<lambda>detector.
     sq (put_definition ''AcquisitionMode'' (JStr detector))
     (put_definition ''DwellTime'' (JFloat acquireTime)))))))))))"

definition fill_areas :: "driver \<Rightarrow> spectrum_params \<Rightarrow> ('s, unit) drv_prog" where
  "fill_areas d p = (case sp_focalPosition p of (focalPositionX, focalPositionY, focalPositionZ) \<Rightarrow>
     sq (put_definition ''ConstantParameters'' (jobject
          [(''PositionX'', JFloat focalPositionX), (''PositionY'', JFloat focalPositionY),
           (''WorkingDistance'', JFloat focalPositionZ)]))
     (bnd (liftp (detector_area d (sp_minX p) (sp_minY p) (sp_sizeX p) (sp_sizeY p))) (\<lambda>area.
     put_definition ''DetectorAreas'' area)))"

definition fill_axes ::
    "driver \<Rightarrow> spectrum_params \<Rightarrow> dbl \<times> dbl \<times> dbl \<times> dbl \<Rightarrow> dbl \<times> dbl \<times> dbl \<Rightarrow> ('s, unit) drv_prog" where
  "fill_axes d p energies angles = (case (energies, angles) of
       ((lowEnergy, centerEnergy, highEnergy, stepEnergy), (lowAngleY, centerAngleY, highAngleY)) \<Rightarrow>
     sq (if bit (sp_acquisitionMode p) 0
         then put_axis ''SweepAxes'' ''X'' (swept_axis lowEnergy highEnergy stepEnergy)
         else put_axis ''FixedAxes'' ''X'' (binned_axis centerEnergy (sp_sizeX p) (sp_detectorChannels p)))
     (sq (put_axis ''FixedAxes'' ''Y''
           (binned_axis (m_RequestedAxes d AnalyserCenterSlice) (sp_sizeY p) (sp_detectorSlices p)))
     (if bit (sp_acquisitionMode p) 1
      then put_axis ''SweepAxes'' ''Z'' (swept_axis lowAngleY highAngleY (m_RequestedAxes d AnalyserAngleYStep))
      else put_axis ''FixedAxes'' ''Z'' (jobject [(''Center'', JFloat centerAngleY)]))))"

text \<open>Let the server adjust the definition, show the region and estimate the time.\<close>

definition adjust_definition :: "'s env \<Rightarrow> int \<Rightarrow> ('s, unit) drv_prog" where
  "adjust_definition E numExposures =
     try_catch
       (bnd (get_drv m_SpectrumDefinition) (\<lambda>spectrumDefinition.
        bnd (with_analyser E (\<lambda>R. adjustSpectrumDefinition R spectrumDefinition)) (\<lambda>r.
        bnd (liftp (jidx ''SpectrumInfo'' r)) (\<lambda>spectrumInfo.
        bnd (liftp (obind (jat ''AnalyserSpectrumChannelSettings'' spectrumInfo) jfront)) (\<lambda>channelSettings.
        sq (setRegion E channelSettings)
        (bnd (liftp (obind (jat ''WallClockTime'' spectrumInfo) jdouble)) (\<lambda>time.
        let eta = time * dbl_of_int numExposures in
        sq (setDoubleParam E AcqETA eta)
        (bnd (liftp (obind (dbl_to_i32 eta) strftime)) (\<lambda>str.
        sq (setStringParam E AcqETAStr str) (retp ()))))))))))
       (\<lambda>e. retp ())"

definition setupSpectrumDefinition :: "'s env \<Rightarrow> ('s, unit) drv_prog" where
  "setupSpectrumDefinition E =
     bnd (read_spectrum_params E) (\<lambda>p.
     bnd (get_drv id) (\<lambda>d.
     if out_of_range d p then retp ()
     else
       bnd (show_modes E d p) (\<lambda>passEnergy.
       bnd (requested_energies E) (\<lambda>(lowEnergy, centerEnergy, highEnergy, stepEnergy).
       if bit (sp_acquisitionMode p) 0 \<and> (centerEnergy \<le> Fin 0 \<or> lowEnergy \<le> Fin 0 \<or> highEnergy \<le> Fin 0)
       then retp ()
       else
         bnd (liftp (vec_nth (m_LensModes d) (sp_lensMode p))) (\<lambda>lens.
         bnd (liftp (requested_angles lens (m_RequestedAxes d))) (\<lambda>angles.
         bnd (getDoubleParam E ADAcquireTime) (\<lambda>acquireTime.
         bnd (getIntegerParam E ADNumExposures) (\<lambda>numExposures.
         sq (fill_modes d p passEnergy acquireTime)
         (sq (fill_areas d p)
         (sq (fill_axes d p (lowEnergy, centerEnergy, highEnergy, stepEnergy) angles)
         (adjust_definition E numExposures)))))))))))"

section \<open>Properties of the times\<close>

text \<open>Days, hours, minutes and seconds as the code means to show them.\<close>

definition clock_format :: "int \<Rightarrow> int \<Rightarrow> int \<Rightarrow> int \<Rightarrow> string" where
  "clock_format d h m s =
     (let time = (if d \<noteq> 0 then int_to_string d @ '' days '' else []);
          time = (if h \<noteq> 0 \<or> time \<noteq> [] then time @ format_02d h @ '':'' else time);
          time = (if m \<noteq> 0 \<or> time \<noteq> [] then time @ format_02d m @ '':'' else time)
      in time @ format_02d s)"

definition clock :: "int \<Rightarrow> string" where
  "clock n = clock_format (n div 86400) (n mod 86400 div 3600) (n mod 3600 div 60) (n mod 60)"

lemma nat_to_string_length: "n < 100 \<Longrightarrow> length (nat_to_string n) = (if n < 10 then 1 else 2)"
  using nat_to_string.simps [of n] nat_to_string.simps [of "n div 10"] by (cases "n div 10 < 10") auto

lemma format_02d_length: "0 \<le> n \<Longrightarrow> n < 100 \<Longrightarrow> length (format_02d n) = 2"
  using nat_to_string_length [of "nat n"] by (simp add: format_02d_def Let_def split: if_splits)

lemma format_02d_value: "0 \<le> n \<Longrightarrow> digits_value 0 (format_02d n) = nat n"
  using digits_value_nat_to_string [of "nat n"] char_digit_digit_char [of 0]
  by (simp add: format_02d_def Let_def)

lemma format_02d_inject:
  "0 \<le> m \<Longrightarrow> 0 \<le> n \<Longrightarrow> format_02d m = format_02d n \<Longrightarrow> m = n"
  using format_02d_value [of m] format_02d_value [of n] by simp

lemma div_bounds:
  "0 \<le> (y :: int) \<Longrightarrow> y < 3600 \<Longrightarrow> 0 \<le> y div 60 \<and> y div 60 < 60"
  "0 \<le> y \<Longrightarrow> y < 86400 \<Longrightarrow> 0 \<le> y div 3600 \<and> y div 3600 < 24"
  using zdiv_mono1 [of y 3599 60] zdiv_mono1 [of y 86399 3600] by (simp_all add: pos_imp_zdiv_nonneg_iff)

lemma seconds_bounds:
  fixes d :: int
  assumes "0 \<le> d" and "d < 86400" and "k = 3500 \<or> k = 3600"
  shows "0 \<le> d div 3600" "d div 3600 < 100" "0 \<le> d mod k" "d mod k < 86400"
    "0 \<le> d mod k div 60" "d mod k div 60 < 60" "0 \<le> d mod k mod 60" "d mod k mod 60 < 60"
proof -
  have k: "0 \<le> d mod k" "d mod k < 3600" using assms(3) pos_mod_bound [of k d] by auto
  show "0 \<le> d div 3600" "d div 3600 < 100" using div_bounds(2) [OF assms(1,2)] by linarith+
  show "0 \<le> d mod k div 60" "d mod k div 60 < 60" using div_bounds(1) [OF k] by blast+
  show "0 \<le> d mod k" "d mod k < 86400" using k by linarith+
  show "0 \<le> d mod k mod 60" "d mod k mod 60 < 60" by (rule pos_mod_sign pos_mod_bound; simp)+
qed

lemma c_div_nonneg: "0 \<le> a \<Longrightarrow> 0 < b \<Longrightarrow> in_i32 (a div b) \<Longrightarrow> c_div a b = Ret (a div b)"
  by (simp add: c_div_def int_sdiv_nonneg)

lemma c_mod_nonneg: "0 \<le> a \<Longrightarrow> 0 < b \<Longrightarrow> in_i32 (a mod b) \<Longrightarrow> c_mod a b = Ret (a mod b)"
  by (simp add: c_mod_def int_smod_nonneg)

lemma common_multiple:
  fixes a b :: int
  assumes "3500 * a = 3600 * b" and "0 \<le> b" and "b < 24"
  shows "a = 0"
proof -
  have "35 * (a - b) = b" using assms(1) by simp
  then have "35 dvd b" by (metis dvd_triv_left)
  then have "b = 0" using zdvd_imp_le [of 35 b] assms(2,3) by fastforce
  then show ?thesis using assms(1) by simp
qed

lemma in_i32_between: "0 \<le> x \<Longrightarrow> x \<le> y \<Longrightarrow> in_i32 y \<Longrightarrow> in_i32 x"
  by (simp add: in_i32_def)

lemma in_i32_small: "0 \<le> x \<Longrightarrow> x < 86400 \<Longrightarrow> in_i32 x"
  by (simp add: in_i32_def)

lemma strftime_format:
  assumes "0 \<le> n" and "in_i32 n"
  shows "strftime n = Ret (clock_format (n div 86400) (n mod 86400 div 3600)
    (n mod 86400 mod 3500 div 60) (n mod 86400 mod 3500 mod 60))"
proof -
  let ?d = "n mod 86400"
  have d: "0 \<le> ?d" "?d < 86400" "0 \<le> n div 86400" and dn: "n div 86400 \<le> n"
    using assms(1) zdiv_mono2 [of n 1 86400] by (simp_all add: pos_imp_zdiv_nonneg_iff)
  have b: "0 \<le> ?d div 3600" "?d div 3600 < 100" "0 \<le> ?d mod 3500" "?d mod 3500 < 86400"
    "0 \<le> ?d mod 3500 div 60" "?d mod 3500 div 60 < 60" "0 \<le> ?d mod 3500 mod 60" "?d mod 3500 mod 60 < 60"
    by (rule seconds_bounds [OF d(1,2)]; blast)+
  have pos: "(0 :: int) < 86400" "(0 :: int) < 3600" "(0 :: int) < 3500" "(0 :: int) < 60" and hundred: "(60 :: int) < 100"
    by simp_all
  note small = in_i32_small [OF _ less_trans]
  have i: "in_i32 (n div 86400)" "in_i32 ?d" "in_i32 (?d div 3600)" "in_i32 (?d mod 3500)"
     "in_i32 (?d mod 3500 div 60)" "in_i32 (?d mod 3500 mod 60)"
    by (rule in_i32_between [OF d(3) dn assms(2)] in_i32_small [OF d(1,2)] in_i32_small [OF b(3,4)]
        small [OF b(1,2)] small [OF b(5,6)] small [OF b(7,8)]; simp)+
  have s: "snprintf_4 (format_02d k @ '':'') = format_02d k @ '':''" "snprintf_4 (format_02d k) = format_02d k"
    if "0 \<le> k" "k < 100" for k
    using format_02d_length [OF that] by (simp_all add: snprintf_4_def)
  show ?thesis
    unfolding strftime_def clock_format_def Let_def c_div_nonneg [OF assms(1) pos(1) i(1)] c_mod_nonneg [OF assms(1) pos(1) i(2)]
      c_div_nonneg [OF d(1) pos(2) i(3)] c_mod_nonneg [OF d(1) pos(3) i(4)] c_div_nonneg [OF b(3) pos(4) i(5)]
      c_mod_nonneg [OF b(3) pos(4) i(6)] obind.simps s [OF b(1,2)] s [OF b(5) less_trans [OF b(6) hundred]]
      s [OF b(7) less_trans [OF b(8) hundred]]
    by (simp only: append_assoc)
qed

lemma clock_format_inject:
  assumes "clock_format d h m s = clock_format d h m' s'"
    and "0 \<le> m" "m < 60" "0 \<le> s" "s < 60" "0 \<le> m'" "m' < 60" "0 \<le> s'" "s' < 60"
  shows "m = m' \<and> s = s'"
proof -
  have l: "length (format_02d k) = 2" if "k \<in> {m, s, m', s'}" for k
    using that assms by (auto intro!: format_02d_length)
  have "s = s'"
  proof -
    have "drop (length (clock_format d h m s) - 2) (clock_format d h m s) = format_02d s"
      "drop (length (clock_format d h m' s') - 2) (clock_format d h m' s') = format_02d s'"
      using l by (simp_all add: clock_format_def Let_def)
    with assms show ?thesis by (metis format_02d_inject)
  qed
  moreover have "m = m'"
    using assms(1) l format_02d_inject [of m m'] assms(2,6)
    by (auto simp: clock_format_def Let_def \<open>s = s'\<close> split: if_splits dest: arg_cong [where f = length])
  ultimately show ?thesis by simp
qed

text \<open>C39: the time shown is the right one exactly when the time of day is below 3500 seconds: the code takes the
  remainder of the hours by 3500 where it means 3600.\<close>

theorem strftime_clock:
  assumes "0 \<le> n" and "in_i32 n"
  shows "strftime n = Ret (clock n) \<longleftrightarrow> n mod 86400 < 3500"
proof -
  let ?d = "n mod 86400"
  have d: "0 \<le> ?d" "?d < 86400" by simp_all
  have m: "n mod 3600 = ?d mod 3600" "n mod 60 = ?d mod 3600 mod 60"
    by (simp_all add: mod_mod_cancel)
  have "strftime n = Ret (clock n) \<longleftrightarrow> ?d mod 3500 div 60 = ?d mod 3600 div 60 \<and> ?d mod 3500 mod 60 = ?d mod 3600 mod 60"
    unfolding strftime_format [OF assms] clock_def m outcome.inject
  proof (intro iffI)
    assume eq: "clock_format (n div 86400) (?d div 3600) (?d mod 3500 div 60) (?d mod 3500 mod 60) =
        clock_format (n div 86400) (?d div 3600) (?d mod 3600 div 60) (?d mod 3600 mod 60)"
    show "?d mod 3500 div 60 = ?d mod 3600 div 60 \<and> ?d mod 3500 mod 60 = ?d mod 3600 mod 60"
      by (rule clock_format_inject [OF eq]) (rule seconds_bounds [OF d]; simp)+
  qed simp
  also have "\<dots> \<longleftrightarrow> ?d mod 3500 = ?d mod 3600"
    by (metis div_mult_mod_eq)
  also have "\<dots> \<longleftrightarrow> ?d < 3500"
  proof
    assume "?d mod 3500 = ?d mod 3600"
    then have "3500 * (?d div 3500) = 3600 * (?d div 3600)" by (metis minus_mod_eq_mult_div)
    then have "?d div 3500 = 0"
      by (rule common_multiple) (use div_bounds(2) [OF d] in blast)+
    then have "?d = ?d mod 3500" using div_mult_mod_eq [of ?d 3500] by (metis add.left_neutral mult_zero_left)
    then show "?d < 3500" by (metis pos_mod_bound zero_less_numeral)
  qed simp
  finally show ?thesis .
qed
lemma strftime_clock_witness: "strftime 3599 \<noteq> Ret (clock 3599)"
  using strftime_clock [of 3599] by (simp add: in_i32_def)

section \<open>The region of interest\<close>

text \<open>C40: the region of interest ends inside the detector: its size is cut to what is left of the detector
  behind its origin, and no other parameter changes.\<close>

theorem setROI_inside:
  assumes "asyn_params E strs"
    and "x = p_int (e_asyn E) ADMinX w" "sx = p_int (e_asyn E) ADSizeX w" "mx = p_int (e_asyn E) ADMaxSizeX w"
    and "y = p_int (e_asyn E) ADMinY w" "sy = p_int (e_asyn E) ADSizeY w" "my = p_int (e_asyn E) ADMaxSizeY w"
    and "in_i32 (x + sx)" "in_i32 (mx - x)" "in_i32 (y + sy)" "in_i32 (my - y)"
  shows "\<exists>w'. setROI E (c, (d, w)) = Some (Ret (), (c, (d, w'))) \<and>
    p_int (e_asyn E) ADSizeX w' = min sx (mx - x) \<and> p_int (e_asyn E) ADSizeY w' = min sy (my - y) \<and>
    (\<forall>q. q \<noteq> ADSizeX \<and> q \<noteq> ADSizeY \<longrightarrow> p_int (e_asyn E) q w' = p_int (e_asyn E) q w)"
proof -
  note laws = asyn_params.param_laws [OF assms(1)]
  have "setROI E (c, (d, w)) =
      Some (Ret (), (c, (d, (if my < y + sy then int_set E ADSizeY (my - y) else id)
        ((if mx < x + sx then int_set E ADSizeX (mx - x) else id) w))))"
    using assms(8-11) unfolding assms(2-7)
    by (cases "p_int (e_asyn E) ADMaxSizeX w < p_int (e_asyn E) ADMinX w + p_int (e_asyn E) ADSizeX w";
        cases "p_int (e_asyn E) ADMaxSizeY w < p_int (e_asyn E) ADMinY w + p_int (e_asyn E) ADSizeY w")
      (simp_all only: setROI_def drv_flat, simp_all add: drv_runs c_add_def c_sub_def laws)
  then show ?thesis
    unfolding assms(2-7) by (simp add: laws min_def)
qed

lemma setROI_inside_witness:
  "\<exists>w'. setROI (table_env (\<lambda>_. JNull)) (sample_clients, (sample_driver,
        sample_table\<lparr>t_int := (\<lambda>p. if p = ADMinX then 10 else if p = ADSizeX then 100 else if p = ADMaxSizeX then 50 else 0)\<rparr>)) =
      Some (Ret (), (sample_clients, (sample_driver, w'))) \<and> t_int w' ADSizeX = 40"
  using setROI_inside [OF table.asyn_params_axioms refl refl refl refl refl refl, of "\<lambda>_. JNull"
      "sample_table\<lparr>t_int := (\<lambda>p. if p = ADMinX then 10 else if p = ADSizeX then 100 else if p = ADMaxSizeX then 50 else 0)\<rparr>"
      sample_clients sample_driver]
  by (auto simp: table_env_def table_asyn_def in_i32_def)

end
