(* ===== verification/DriverRegion.thy ===== *)
theory DriverRegion
  imports DriverSpectrum
begin

text \<open>
  Properties of the spectrum definition of the driver and of the region it shows: what is sent to
  the server, how many points a swept axis has, and what \<open>setRegion\<close> makes of the answer.

  An object is seen as the map of its entries.  A program that changes nothing but the definition
  is described by \<open>redefines\<close>, with one rule for each kind of assignment.
\<close>

section \<open>Entries of objects\<close>

definition entries :: "json \<Rightarrow> string \<Rightarrow> json option" where
  "entries j = (case j of JObj m \<Rightarrow> map_of m | _ \<Rightarrow> Map.empty)"

definition object_or_null :: "json \<Rightarrow> bool" where
  "object_or_null j \<longleftrightarrow> json_ok j \<and> (is_null j \<or> is_object j)"

lemma jset_entries:
  assumes "object_or_null j" and "json_ok v"
  shows "\<exists>j'. jset k v j = Ret j' \<and> object_or_null j' \<and> entries j' = (entries j)(k \<mapsto> v)"
proof -
  have "\<exists>m. jtouch k j = Ret (JObj m) \<and> json_ok (JObj m) \<and> map_of m k \<noteq> None \<and>
      (map_of m)(k \<mapsto> v) = (entries j)(k \<mapsto> v)"
  proof (cases j)
    case JNull
    then show ?thesis by (simp add: jtouch_def entries_def smap_emplace_def smap_ok_def)
  next
    case (JObj n)
    with assms(1) have ok: "json_ok (JObj n)" by (simp add: object_or_null_def)
    then show ?thesis
      using json_ok_emplace [OF ok, of JNull k] JObj
      by (auto simp: jtouch_def entries_def map_of_smap_emplace fun_eq_iff split: option.split)
  qed (use assms(1) in \<open>simp_all add: object_or_null_def\<close>)
  then obtain m where m: "jtouch k j = Ret (JObj m)" "json_ok (JObj m)" "map_of m k \<noteq> None"
      "(map_of m)(k \<mapsto> v) = (entries j)(k \<mapsto> v)" by blast
  then have "jset k v j = Ret (JObj (smap_put k v m))" by (auto simp: jset_def jupd_def)
  moreover have "json_ok (JObj (smap_put k v m))" using json_ok_put [OF m(2) assms(2)] .
  ultimately show ?thesis
    using m by (auto simp: object_or_null_def entries_def map_of_smap_put)
qed

lemma jupd_entries:
  assumes "object_or_null j" and "entries j k = Some (JObj n)" and "json_ok v"
  shows "\<exists>j' n'. jupd k (jset ax v) j = Ret j' \<and> object_or_null j' \<and> json_ok (JObj n') \<and>
    entries j' = (entries j)(k \<mapsto> JObj n') \<and> map_of n' = (map_of n)(ax \<mapsto> v)"
proof -
  from assms(2) obtain m where j: "j = JObj m" "map_of m k = Some (JObj n)"
    by (auto simp: entries_def split: json.splits)
  with assms(1) have ok: "json_ok (JObj m)" by (simp add: object_or_null_def)
  then have n: "json_ok (JObj n)"
  proof -
    from ok map_of_SomeD [OF j(2)] have "json_ok (snd (k, JObj n))"
      unfolding json_ok.simps(2) list_all_iff by blast
    then show ?thesis by simp
  qed
  have "object_or_null (JObj n)" using n by (simp add: object_or_null_def)
  from jset_entries [OF this assms(3), of ax] obtain n' where n': "jset ax v (JObj n) = Ret n'"
    "object_or_null n'" "entries n' = (entries (JObj n))(ax \<mapsto> v)" by blast
  from n'(3) obtain l where l: "n' = JObj l"
    by (cases n') (auto simp: entries_def dest: fun_cong [of _ _ ax])
  have lok: "json_ok (JObj l)" "map_of l = (map_of n)(ax \<mapsto> v)"
    using n' l by (simp_all add: object_or_null_def entries_def)
  have "jupd k (jset ax v) j = Ret (JObj (smap_put k (JObj l) m))"
    using j n'(1) l by (simp add: jupd_def jtouch_def smap_emplace_def)
  moreover have "json_ok (JObj (smap_put k (JObj l) m))" using json_ok_put [OF ok lok(1)] .
  ultimately show ?thesis
    using lok ok j by (auto simp: object_or_null_def entries_def map_of_smap_put)
qed

lemma returns_put_definition:
  assumes "object_or_null (m_SpectrumDefinition (drv s))" and "json_ok v"
    and "\<And>j'. object_or_null j' \<Longrightarrow> entries j' = (entries (m_SpectrumDefinition (drv s)))(k \<mapsto> v) \<Longrightarrow>
      Q () (fst s, ((drv s)\<lparr>m_SpectrumDefinition := j'\<rparr>, world s))"
  shows "returns (put_definition k v) s Q"
  using jset_entries [OF assms(1,2), of k] assms(3)
  by (auto simp: put_definition_def intro!: returns_bnd)

lemma returns_put_axis:
  assumes "object_or_null (m_SpectrumDefinition (drv s))" and "json_ok v"
    and "entries (m_SpectrumDefinition (drv s)) k = Some (JObj n)"
    and "\<And>j' n'. object_or_null j' \<Longrightarrow> entries j' = (entries (m_SpectrumDefinition (drv s)))(k \<mapsto> JObj n') \<Longrightarrow>
      map_of n' = (map_of n)(ax \<mapsto> v) \<Longrightarrow> Q () (fst s, ((drv s)\<lparr>m_SpectrumDefinition := j'\<rparr>, world s))"
  shows "returns (put_axis k ax v) s Q"
  using jupd_entries [OF assms(1,3,2), of ax] assms(4)
  by (auto simp: put_axis_def intro!: returns_bnd)

lemma json_ok_objects [simp]:
  "json_ok (swept_axis a b c)" "json_ok (binned_axis x m n)" "json_ok (jobject [(k, JFloat z)])"
  by (simp_all add: swept_axis_def binned_axis_def json_ok_jobject)

lemma json_ok_detector_area: "detector_area d a b w h = Ret j \<Longrightarrow> json_ok j"
  by (auto simp: detector_area_def Let_def obind_eq_Ret intro!: json_ok_jobject split: option.splits)

text \<open>A program that changes the spectrum definition only, by new values of some entries.\<close>

definition redefines :: "('s, unit) drv_prog \<Rightarrow> 's drv_state \<Rightarrow> ((string \<Rightarrow> json option) \<Rightarrow> bool) \<Rightarrow> bool" where
  "redefines m s P \<longleftrightarrow> returns m s (\<lambda>_ s'. \<exists>j'. s' = (fst s, ((drv s)\<lparr>m_SpectrumDefinition := j'\<rparr>, world s)) \<and>
     object_or_null j' \<and> P (entries j'))"

lemma redefines_sq:
  assumes "redefines m s P"
    and "\<And>j'. object_or_null j' \<Longrightarrow> P (entries j') \<Longrightarrow>
      redefines n (fst s, ((drv s)\<lparr>m_SpectrumDefinition := j'\<rparr>, world s)) R"
  shows "redefines (sq m n) s R"
  unfolding redefines_def
proof (rule returns_sq, rule returns_mono [OF assms(1) [unfolded redefines_def]])
  fix a s'
  assume "\<exists>j'. s' = (fst s, (drv s)\<lparr>m_SpectrumDefinition := j'\<rparr>, world s) \<and> object_or_null j' \<and> P (entries j')"
  then obtain j' where j': "s' = (fst s, (drv s)\<lparr>m_SpectrumDefinition := j'\<rparr>, world s)"
    "object_or_null j'" "P (entries j')" by blast
  from assms(2) [OF j'(2,3)] show "returns n s' (\<lambda>_ s'. \<exists>j'. s' = (fst s, (drv s)\<lparr>m_SpectrumDefinition := j'\<rparr>, world s) \<and>
      object_or_null j' \<and> R (entries j'))"
    by (simp add: redefines_def j'(1))
qed

lemma redefines_mono: "redefines m s P \<Longrightarrow> (\<And>f. P f \<Longrightarrow> R f) \<Longrightarrow> redefines m s R"
  unfolding redefines_def by (erule returns_mono) blast

lemma redefines_put:
  assumes "object_or_null (m_SpectrumDefinition (drv s))" and "json_ok v"
    and "P ((entries (m_SpectrumDefinition (drv s)))(k \<mapsto> v))"
  shows "redefines (put_definition k v) s P"
  unfolding redefines_def using assms by (intro returns_put_definition) auto

lemma redefines_put_axis:
  assumes "object_or_null (m_SpectrumDefinition (drv s))" and "json_ok v"
    and "entries (m_SpectrumDefinition (drv s)) k = Some (JObj n)"
    and "\<And>n'. map_of n' = (map_of n)(ax \<mapsto> v) \<Longrightarrow> P ((entries (m_SpectrumDefinition (drv s)))(k \<mapsto> JObj n'))"
  shows "redefines (put_axis k ax v) s P"
  unfolding redefines_def using assms by (intro returns_put_axis) auto

lemma redefines_put_sq:
  assumes "object_or_null (m_SpectrumDefinition (drv s))" and "json_ok v"
    and "\<And>j'. object_or_null j' \<Longrightarrow> entries j' = (entries (m_SpectrumDefinition (drv s)))(k \<mapsto> v) \<Longrightarrow>
      redefines n (fst s, ((drv s)\<lparr>m_SpectrumDefinition := j'\<rparr>, world s)) R"
  shows "redefines (sq (put_definition k v) n) s R"
  by (rule redefines_sq [where P = "\<lambda>m. m = (entries (m_SpectrumDefinition (drv s)))(k \<mapsto> v)"])
    (use assms in \<open>auto intro: redefines_put\<close>)

lemma redefines_put_axis_sq:
  assumes "object_or_null (m_SpectrumDefinition (drv s))" and "json_ok v"
    and "entries (m_SpectrumDefinition (drv s)) k = Some (JObj l)"
    and "\<And>j' l'. object_or_null j' \<Longrightarrow> entries j' = (entries (m_SpectrumDefinition (drv s)))(k \<mapsto> JObj l') \<Longrightarrow>
      map_of l' = (map_of l)(ax \<mapsto> v) \<Longrightarrow> redefines n (fst s, ((drv s)\<lparr>m_SpectrumDefinition := j'\<rparr>, world s)) R"
  shows "redefines (sq (put_axis k ax v) n) s R"
  by (rule redefines_sq [where P = "\<lambda>m. \<exists>l'. m = (entries (m_SpectrumDefinition (drv s)))(k \<mapsto> JObj l') \<and>
        map_of l' = (map_of l)(ax \<mapsto> v)"])
    (use assms in \<open>auto intro!: redefines_put_axis\<close>)

lemma redefines_modes:
  assumes "object_or_null (m_SpectrumDefinition (drv s))"
    and "0 \<le> sp_elementSet p" "sp_elementSet p < int (length (m_Elementsets d))"
    and "0 \<le> sp_lensMode p" "sp_lensMode p < int (length (m_LensModes d))"
    and "0 \<le> sp_detectorMode p" "sp_detectorMode p < int (length (m_DetectorModes d))"
    and "0 \<le> e" "e < int (length (m_PassEnergies d))"
  shows "redefines (fill_modes d p e t) s (\<lambda>m. m = (entries (m_SpectrumDefinition (drv s)))
        (''ElementSetName'' \<mapsto> JStr (m_Elementsets d ! nat (sp_elementSet p)),
         ''LensModeName'' \<mapsto> JStr (lm_name (m_LensModes d ! nat (sp_lensMode p))),
         ''PassEnergy'' \<mapsto> JFloat (m_PassEnergies d ! nat e),
         ''FixedAxes'' \<mapsto> JObj [], ''SweepAxes'' \<mapsto> JObj [],
         ''AcquisitionMode'' \<mapsto> JStr (m_DetectorModes d ! nat (sp_detectorMode p)),
         ''DwellTime'' \<mapsto> JFloat t))"
  using assms(1) unfolding fill_modes_def vec_nth_Ret [OF assms(2,3)] vec_nth_Ret [OF assms(4,5)]
    vec_nth_Ret [OF assms(6,7)] vec_nth_Ret [OF assms(8,9)] bnd_liftp_run
  by (intro redefines_put_sq redefines_put) simp_all

lemma redefines_areas:
  assumes "object_or_null (m_SpectrumDefinition (drv s))"
    and "detector_area d (sp_minX p) (sp_minY p) (sp_sizeX p) (sp_sizeY p) = Ret area"
    and "sp_focalPosition p = (fx, fy, fz)"
  shows "redefines (fill_areas d p) s (\<lambda>m. m = (entries (m_SpectrumDefinition (drv s)))
       (''ConstantParameters'' \<mapsto> jobject [(''PositionX'', JFloat fx), (''PositionY'', JFloat fy), (''WorkingDistance'', JFloat fz)],
        ''DetectorAreas'' \<mapsto> area))"
  using assms(1) json_ok_detector_area [OF assms(2)] unfolding fill_areas_def assms(2,3) prod.case bnd_liftp_run
  by (intro redefines_put_sq redefines_put) (simp_all add: json_ok_jobject)

definition axes_filled :: "driver \<Rightarrow> spectrum_params \<Rightarrow> dbl \<times> dbl \<times> dbl \<times> dbl \<Rightarrow> dbl \<times> dbl \<times> dbl \<Rightarrow>
    (string \<times> json) list \<Rightarrow> (string \<times> json) list \<Rightarrow> bool" where
  "axes_filled d p energies angles fixed sweep \<longleftrightarrow> (case (energies, angles) of
     ((low, center, high, step), (lowY, centerY, highY)) \<Rightarrow>
      map_of fixed = (\<lambda>ax. if ax = ''X'' \<and> \<not> bit (sp_acquisitionMode p) 0
            then Some (binned_axis center (sp_sizeX p) (sp_detectorChannels p))
          else if ax = ''Y'' then Some (binned_axis (m_RequestedAxes d AnalyserCenterSlice) (sp_sizeY p) (sp_detectorSlices p))
          else if ax = ''Z'' \<and> \<not> bit (sp_acquisitionMode p) 1 then Some (jobject [(''Center'', JFloat centerY)])
          else None) \<and>
      map_of sweep = (\<lambda>ax. if ax = ''X'' \<and> bit (sp_acquisitionMode p) 0 then Some (swept_axis low high step)
          else if ax = ''Z'' \<and> bit (sp_acquisitionMode p) 1
            then Some (swept_axis lowY highY (m_RequestedAxes d AnalyserAngleYStep))
          else None))"

lemma redefines_axes:
  assumes "object_or_null (m_SpectrumDefinition (drv s))"
    and "entries (m_SpectrumDefinition (drv s)) ''FixedAxes'' = Some (JObj [])"
    and "entries (m_SpectrumDefinition (drv s)) ''SweepAxes'' = Some (JObj [])"
  shows "redefines (fill_axes d p energies angles) s (\<lambda>m. \<exists>fixed sweep. m ''FixedAxes'' = Some (JObj fixed) \<and>
     m ''SweepAxes'' = Some (JObj sweep) \<and> axes_filled d p energies angles fixed sweep \<and>
     (\<forall>k. k \<noteq> ''FixedAxes'' \<and> k \<noteq> ''SweepAxes'' \<longrightarrow> m k = entries (m_SpectrumDefinition (drv s)) k))"
proof -
  obtain low center high step where en: "energies = (low, center, high, step)" by (metis surj_pair)
  obtain lowY centerY highY where an: "angles = (lowY, centerY, highY)" by (metis surj_pair)
  show ?thesis
    using assms unfolding fill_axes_def axes_filled_def en an prod.case
    by (cases "bit (sp_acquisitionMode p) 0"; cases "bit (sp_acquisitionMode p) 1"; simp only: if_True if_False simp_thms)
      (rule redefines_put_axis_sq, simp, simp, simp, rule redefines_put_axis_sq, simp, simp, simp,
       rule redefines_put_axis, simp, simp, simp, force simp: fun_eq_iff)+
qed

section \<open>What is sent\<close>

lemma read_spectrum_params_run: "\<exists>p. read_spectrum_params E s = Some (Ret p, s)"
  by (simp add: read_spectrum_params_def)

text \<open>The position and value of a pass energy once it is clamped.\<close>

definition clamped_pass_energy :: "driver \<Rightarrow> lens_mode_setting \<Rightarrow> int \<Rightarrow> int" where
  "clamped_pass_energy d lens i =
     (case find_index (\<lambda>e. deq e (clamp (m_PassEnergies d ! nat i) (passEnergyRange lens))) (m_PassEnergies d) of
        Some k \<Rightarrow> int k
      | None \<Rightarrow> i)"

lemma clamped_pass_energy_range:
  assumes "0 \<le> i" and "i < int (length (m_PassEnergies d))"
  shows "0 \<le> clamped_pass_energy d lens i" "clamped_pass_energy d lens i < int (length (m_PassEnergies d))"
  using assms find_index_Some by (fastforce simp: clamped_pass_energy_def split: option.split)+

lemma show_modes_run:
  assumes "asyn_params E strs"
    and "0 \<le> sp_elementSet p" "sp_elementSet p < int (length (m_Elementsets d))"
    and "0 \<le> sp_lensMode p" "sp_lensMode p < int (length (m_LensModes d))"
    and "0 \<le> sp_detectorMode p" "sp_detectorMode p < int (length (m_DetectorModes d))"
    and "0 \<le> sp_passEnergy p" "sp_passEnergy p < int (length (m_PassEnergies d))"
    and "p_int (e_asyn E) PassEnergy w = sp_passEnergy p"
  shows "\<exists>w'. show_modes E d p (c, (d, w)) =
      Some (Ret (clamped_pass_energy d (m_LensModes d ! nat (sp_lensMode p)) (sp_passEnergy p)), (c, (d, w'))) \<and>
    p_int (e_asyn E) PassEnergy w' = clamped_pass_energy d (m_LensModes d ! nat (sp_lensMode p)) (sp_passEnergy p) \<and>
    p_dbl (e_asyn E) PassEnergyValue w' =
      m_PassEnergies d ! nat (clamped_pass_energy d (m_LensModes d ! nat (sp_lensMode p)) (sp_passEnergy p)) \<and>
    (\<forall>q. q \<noteq> PassEnergy \<longrightarrow> p_int (e_asyn E) q w' = p_int (e_asyn E) q w) \<and>
    (\<forall>q. q \<noteq> PassEnergyValue \<longrightarrow> p_dbl (e_asyn E) q w' = p_dbl (e_asyn E) q w)"
proof -
  note laws = asyn_params.param_laws [OF assms(1)]
  let ?lens = "m_LensModes d ! nat (sp_lensMode p)"
  note range = clamped_pass_energy_range [OF assms(8,9), of ?lens]
  have nth: "vec_nth (m_PassEnergies d) (clamped_pass_energy d ?lens (sp_passEnergy p)) =
      Ret (m_PassEnergies d ! nat (clamped_pass_energy d ?lens (sp_passEnergy p)))"
    by (rule vec_nth_Ret [OF range])
  note nths = vec_nth_Ret [OF assms(2,3)] vec_nth_Ret [OF assms(4,5)] vec_nth_Ret [OF assms(6,7)]
    vec_nth_Ret [OF assms(8,9)]
  show ?thesis
  proof (cases "find_index (\<lambda>e. deq e (clamp (m_PassEnergies d ! nat (sp_passEnergy p)) (passEnergyRange ?lens))) (m_PassEnergies d)")
    case None
    then have k: "clamped_pass_energy d ?lens (sp_passEnergy p) = sp_passEnergy p"
      by (simp add: clamped_pass_energy_def)
    show ?thesis
      unfolding show_modes_def nths setPassEnergy_def drv_flat bnd_liftp_run k
      by (simp add: drv_runs None assms(10) nths laws)
  next
    case (Some i)
    then have k: "clamped_pass_energy d ?lens (sp_passEnergy p) = int i"
      by (simp add: clamped_pass_energy_def)
    show ?thesis
      unfolding show_modes_def nths setPassEnergy_def drv_flat bnd_liftp_run k
      using range by (simp add: drv_runs Some k laws)
  qed
qed

lemma requested_energies_cong:
  assumes "requested_energies E (c, (d, w)) = Some (Ret en, (c, (d, w)))"
    and "p_int (e_asyn E) EnergyMode w' = p_int (e_asyn E) EnergyMode w"
    and "p_dbl (e_asyn E) ExcitationEnergy w' = p_dbl (e_asyn E) ExcitationEnergy w"
    and "p_dbl (e_asyn E) WorkFunction w' = p_dbl (e_asyn E) WorkFunction w"
  shows "requested_energies E (c, (d, w')) = Some (Ret en, (c, (d, w')))"
  using assms by (cases "p_int (e_asyn E) EnergyMode w = 1") (simp_all add: requested_energies_def drv_runs Let_def)

text \<open>C3: with valid indices and, for a swept energy, positive energies, the definition sent to the server names the
  selected modes, the pass energy clamped to the range of the lens mode where the analyser has the clamped value, the
  dwell time and the detector area, and has exactly the axes of the acquisition mode, each fixed or swept.\<close>

theorem definition_sent:
  assumes "asyn_params E strs"
    and "read_spectrum_params E (c, (d, w)) = Some (Ret p, (c, (d, w)))"
    and "0 \<le> sp_elementSet p" "sp_elementSet p < int (length (m_Elementsets d))"
    and "0 \<le> sp_lensMode p" "sp_lensMode p < int (length (m_LensModes d))"
    and "0 \<le> sp_detectorMode p" "sp_detectorMode p < int (length (m_DetectorModes d))"
    and "0 \<le> sp_passEnergy p" "sp_passEnergy p < int (length (m_PassEnergies d))"
    and "lens = m_LensModes d ! nat (sp_lensMode p)"
    and "requested_energies E (c, (d, w)) = Some (Ret (low, center, high, step), (c, (d, w)))"
    and "bit (sp_acquisitionMode p) 0 \<Longrightarrow> Fin 0 < low \<and> Fin 0 < center \<and> Fin 0 < high"
    and "requested_angles lens (m_RequestedAxes d) = Ret angles"
    and "object_or_null (m_SpectrumDefinition d)"
    and "detector_area d (sp_minX p) (sp_minY p) (sp_sizeX p) (sp_sizeY p) = Ret area"
  shows "\<exists>w' j fixed sweep. setupSpectrumDefinition E (c, (d, w)) =
      adjust_definition E (p_int (e_asyn E) ADNumExposures w) (c, (d\<lparr>m_SpectrumDefinition := j\<rparr>, w')) \<and>
    entries j ''ElementSetName'' = Some (JStr (m_Elementsets d ! nat (sp_elementSet p))) \<and>
    entries j ''LensModeName'' = Some (JStr (lm_name lens)) \<and>
    entries j ''PassEnergy'' = Some (JFloat (m_PassEnergies d ! nat (clamped_pass_energy d lens (sp_passEnergy p)))) \<and>
    entries j ''AcquisitionMode'' = Some (JStr (m_DetectorModes d ! nat (sp_detectorMode p))) \<and>
    entries j ''DwellTime'' = Some (JFloat (p_dbl (e_asyn E) ADAcquireTime w)) \<and>
    entries j ''DetectorAreas'' = Some area \<and>
    entries j ''FixedAxes'' = Some (JObj fixed) \<and> entries j ''SweepAxes'' = Some (JObj sweep) \<and>
    axes_filled d p (low, center, high, step) angles fixed sweep \<and>
    p_dbl (e_asyn E) PassEnergyValue w' = m_PassEnergies d ! nat (clamped_pass_energy d lens (sp_passEnergy p))"
proof -
  let ?e = "clamped_pass_energy d lens (sp_passEnergy p)" and ?t = "p_dbl (e_asyn E) ADAcquireTime w"
  have pe: "p_int (e_asyn E) PassEnergy w = sp_passEnergy p"
    using assms(2) by (auto simp: read_spectrum_params_def Let_def)
  obtain w' where w': "show_modes E d p (c, (d, w)) = Some (Ret ?e, (c, (d, w')))"
      "p_dbl (e_asyn E) PassEnergyValue w' = m_PassEnergies d ! nat ?e"
      "\<forall>q. q \<noteq> PassEnergy \<longrightarrow> p_int (e_asyn E) q w' = p_int (e_asyn E) q w"
      "\<forall>q. q \<noteq> PassEnergyValue \<longrightarrow> p_dbl (e_asyn E) q w' = p_dbl (e_asyn E) q w"
    using show_modes_run [OF assms(1,3-10) pe] unfolding assms(11) by blast
  have en: "requested_energies E (c, (d, w')) = Some (Ret (low, center, high, step), (c, (d, w')))"
    by (rule requested_energies_cong [OF assms(12)]) (simp_all add: w')
  have out: "\<not> out_of_range d p" using assms(4,6,8,10) by (simp add: out_of_range_def)
  have positive: "\<not> (bit (sp_acquisitionMode p) 0 \<and> (center \<le> Fin 0 \<or> low \<le> Fin 0 \<or> high \<le> Fin 0))"
    using assms(13) by (auto simp: dbl_ops dle_def)
  have nth: "vec_nth (m_LensModes d) (sp_lensMode p) = Ret lens"
    unfolding assms(11) by (rule vec_nth_Ret [OF assms(5,6)])
  have run: "setupSpectrumDefinition E (c, (d, w)) =
      sq (fill_modes d p ?e ?t) (sq (fill_areas d p) (sq (fill_axes d p (low, center, high, step) angles)
        (adjust_definition E (p_int (e_asyn E) ADNumExposures w)))) (c, (d, w'))"
    unfolding setupSpectrumDefinition_def
    by (simp add: prog_runs assms(2) drv_runs out w'(1) en positive nth assms(14) w'(3,4))
  let ?R = "\<lambda>m. \<exists>fixed sweep. m ''ElementSetName'' = Some (JStr (m_Elementsets d ! nat (sp_elementSet p))) \<and>
    m ''LensModeName'' = Some (JStr (lm_name lens)) \<and> m ''PassEnergy'' = Some (JFloat (m_PassEnergies d ! nat ?e)) \<and>
    m ''AcquisitionMode'' = Some (JStr (m_DetectorModes d ! nat (sp_detectorMode p))) \<and>
    m ''DwellTime'' = Some (JFloat ?t) \<and> m ''DetectorAreas'' = Some area \<and>
    m ''FixedAxes'' = Some (JObj fixed) \<and> m ''SweepAxes'' = Some (JObj sweep) \<and>
    axes_filled d p (low, center, high, step) angles fixed sweep"
  note e = clamped_pass_energy_range [OF assms(9,10), of lens]
  obtain fx fy fz where focal: "sp_focalPosition p = (fx, fy, fz)" by (metis surj_pair)
  have "redefines (sq (fill_modes d p ?e ?t) (sq (fill_areas d p) (fill_axes d p (low, center, high, step) angles)))
      (c, (d, w')) ?R"
  proof (rule redefines_sq [OF redefines_modes [OF _ assms(3-8) e]], goal_cases)
    case (2 j1)
    note j1 = this
    show ?case
    proof (rule redefines_sq [OF redefines_areas [OF _ assms(16) focal]], goal_cases)
      case (2 j2)
      have known: "entries j2 ''ElementSetName'' = Some (JStr (m_Elementsets d ! nat (sp_elementSet p)))"
        "entries j2 ''LensModeName'' = Some (JStr (lm_name lens))"
        "entries j2 ''PassEnergy'' = Some (JFloat (m_PassEnergies d ! nat ?e))"
        "entries j2 ''AcquisitionMode'' = Some (JStr (m_DetectorModes d ! nat (sp_detectorMode p)))"
        "entries j2 ''DwellTime'' = Some (JFloat ?t)" "entries j2 ''DetectorAreas'' = Some area"
        "entries j2 ''FixedAxes'' = Some (JObj [])" "entries j2 ''SweepAxes'' = Some (JObj [])"
        by (simp_all add: 2(2) j1(2) assms(11))
      have "redefines (fill_axes d p (low, center, high, step) angles) (c, (d\<lparr>m_SpectrumDefinition := j2\<rparr>, w')) ?R"
      proof (rule redefines_mono [OF redefines_axes], goal_cases)
        case (4 f)
        then obtain fixed sweep where fs: "f ''FixedAxes'' = Some (JObj fixed)" "f ''SweepAxes'' = Some (JObj sweep)"
          "axes_filled d p (low, center, high, step) angles fixed sweep"
          "\<And>k. k \<noteq> ''FixedAxes'' \<and> k \<noteq> ''SweepAxes'' \<Longrightarrow> f k = entries j2 k"
          by auto
        show ?case by (intro exI [of _ fixed] exI [of _ sweep]) (simp add: fs known)
      qed (use 2(1) known in simp_all)
      then show ?case by simp
    qed (use j1 in simp)
  qed (use assms(15) in simp)
  then obtain j where j: "sq (fill_modes d p ?e ?t) (sq (fill_areas d p) (fill_axes d p (low, center, high, step) angles))
      (c, (d, w')) = Some (Ret (), (c, (d\<lparr>m_SpectrumDefinition := j\<rparr>, w')))" "?R (entries j)"
    by (auto simp: redefines_def returns_def)
  have "setupSpectrumDefinition E (c, (d, w)) =
      sq (sq (fill_modes d p ?e ?t) (sq (fill_areas d p) (fill_axes d p (low, center, high, step) angles)))
        (adjust_definition E (p_int (e_asyn E) ADNumExposures w)) (c, (d, w'))"
    unfolding run sq_assoc ..
  also have "\<dots> = adjust_definition E (p_int (e_asyn E) ADNumExposures w) (c, (d\<lparr>m_SpectrumDefinition := j\<rparr>, w'))"
    by (rule sq_run_Ret) (rule j(1))
  finally have "setupSpectrumDefinition E (c, (d, w)) =
    adjust_definition E (p_int (e_asyn E) ADNumExposures w) (c, (d\<lparr>m_SpectrumDefinition := j\<rparr>, w'))" .
  with j(2) w'(2) show ?thesis by blast
qed

lemma definition_sent_witness:
  "\<exists>w' j fixed sweep. setupSpectrumDefinition (table_env (\<lambda>_. JNull)) (sample_clients, (sample_driver, sample_table)) =
      adjust_definition (table_env (\<lambda>_. JNull)) 0 (sample_clients, (sample_driver\<lparr>m_SpectrumDefinition := j\<rparr>, w')) \<and>
    entries j ''LensModeName'' = Some (JStr ''Angular'') \<and> entries j ''PassEnergy'' = Some (JFloat (Fin 5)) \<and>
    entries j ''FixedAxes'' = Some (JObj fixed) \<and> map_of fixed ''Z'' = Some (jobject [(''Center'', JFloat (Fin 0))]) \<and>
    entries j ''SweepAxes'' = Some (JObj sweep) \<and> sweep = []"
proof -
  let ?p = "\<lparr>sp_acquisitionMode = 0, sp_minX = 0, sp_minY = 0, sp_sizeX = 0, sp_sizeY = 0, sp_detectorMode = 0,
    sp_detectorChannels = 0, sp_detectorSlices = 0, sp_lensMode = 0, sp_elementSet = 0, sp_passEnergy = 0,
    sp_focalPosition = (Fin 0, Fin 0, Fin 0)\<rparr>"
  let ?E = "table_env (\<lambda>_. JNull)"
  obtain area where area: "detector_area sample_driver 0 0 0 0 = Ret area"
    by (simp add: detector_area_def c_add_def in_i32_def Let_def)
  have p: "read_spectrum_params ?E (sample_clients, (sample_driver, sample_table)) =
      Some (Ret ?p, (sample_clients, (sample_driver, sample_table)))"
    by (simp add: read_spectrum_params_def)
  have en: "requested_energies ?E (sample_clients, (sample_driver, sample_table)) =
      Some (Ret (Fin 0, Fin 0, Fin 0, Fin 0), (sample_clients, (sample_driver, sample_table)))"
    by (simp add: requested_energies_def drv_runs)
  have an: "requested_angles (m_LensModes sample_driver ! 0) (m_RequestedAxes sample_driver) = Ret (Fin 0, Fin 0, Fin 0)"
    by (simp add: requested_angles_def clamp_def Let_def)
  have pe: "clamped_pass_energy sample_driver (m_LensModes sample_driver ! 0) 0 = 0"
    by (simp add: clamped_pass_energy_def clamp_def deq_def)
  have "object_or_null (m_SpectrumDefinition sample_driver)" by (simp add: object_or_null_def)
  from definition_sent [OF table.asyn_params_axioms p _ _ _ _ _ _ _ _ refl en _ _ this, of "(Fin 0, Fin 0, Fin 0)" area]
  obtain w' j fixed sweep where
    "setupSpectrumDefinition ?E (sample_clients, (sample_driver, sample_table)) =
      adjust_definition ?E 0 (sample_clients, (sample_driver\<lparr>m_SpectrumDefinition := j\<rparr>, w'))"
    "entries j ''LensModeName'' = Some (JStr ''Angular'')" "entries j ''PassEnergy'' = Some (JFloat (Fin 5))"
    "entries j ''FixedAxes'' = Some (JObj fixed)" "map_of fixed ''Z'' = Some (jobject [(''Center'', JFloat (Fin 0))])"
    "entries j ''SweepAxes'' = Some (JObj sweep)" "sweep = []"
    using an pe area by (auto simp: axes_filled_def)
  then show ?thesis by blast
qed

section \<open>The points of a swept axis\<close>

lemma rnd_between:
  assumes "representable l" "representable u" "0 < l" "l \<le> x" "x \<le> u"
  obtains z where "rnd False x = Fin z" "l \<le> z" "z \<le> u"
proof -
  have "dle (Fin l) (rnd False x)" "dle (rnd False x) (Fin u)"
    using rnd_mono [OF assms(4), of False False] rnd_mono [OF assms(5), of False False]
    by (simp_all add: rnd_False_exact assms(1,2))
  with assms(3) that show ?thesis by (cases "rnd False x") (auto simp: dle_def)
qed

lemma representable_half: "\<bar>i\<bar> < 2 ^ 52 \<Longrightarrow> representable (of_int i - 1 / 2)"
proof -
  assume "\<bar>i\<bar> < 2 ^ 52"
  then have "\<bar>2 * i - 1\<bar> < 2 ^ 53" by auto
  moreover have "(of_int i - 1 / 2 :: rat) = of_int (2 * i - 1) * 2 powi (- 1)"
    by (simp add: field_simps power_int_minus)
  moreover have "(- 1074 :: int) \<le> - 1" "(- 1 :: int) \<le> 971" by simp_all
  ultimately show ?thesis unfolding representable_def by blast
qed

lemma representable_powi: "- 1074 \<le> e \<Longrightarrow> e \<le> 971 \<Longrightarrow> representable (2 powi e)"
  unfolding representable_def by (rule exI [of _ 1], rule exI [of _ e]) simp

lemma epsilon_eq: "dbl_epsilon = Fin (2 powi (- 52))"
  by (simp add: dbl_epsilon_def power_int_minus Fract_of_int_quotient inverse_eq_divide)

lemma swept_count_positive:
  assumes "1 \<le> n" "n < 2 ^ 51" and "2 powi (- 51) \<le> s"
    and "representable (of_int n * s)" "representable ((of_int n - 1 / 2) * s)"
  shows "dceil (\<bar>Fin (of_int n * s) - dbl_epsilon\<bar> / Fin s) = Fin (of_int n)"
proof -
  have s: "0 < s" "2 powi (- 52) \<le> s / 2" using assms(3) less_le_trans [OF powi_pos assms(3)]
    by (simp_all add: power_int_minus inverse_eq_divide)
  have n: "(0 :: rat) < of_int n - 1 / 2" using assms(1) by (simp add: field_simps)
  let ?x = "of_int n * s - 2 powi (- 52)"
  have "0 < (of_int n - 1 / 2) * s" using n s(1) by simp
  moreover have "(of_int n - 1 / 2) * s \<le> ?x" using s(2) by (simp add: algebra_simps)
  moreover have "?x \<le> of_int n * s" by (simp add: less_imp_le)
  ultimately obtain z where z: "rnd False ?x = Fin z" "(of_int n - 1 / 2) * s \<le> z" "z \<le> of_int n * s"
    using rnd_between [OF assms(5,4)] by blast
  have z0: "0 < z" using \<open>0 < (of_int n - 1 / 2) * s\<close> z(2) by simp
  have "Fin (of_int n * s) - dbl_epsilon = Fin z"
    using z(1) by (simp add: epsilon_eq dbl_ops power_int_def)
  then have abs: "\<bar>Fin (of_int n * s) - dbl_epsilon\<bar> = Fin z" using z0 by (simp add: dbl_ops)
  have q: "of_int n - 1 / 2 \<le> z / s" "z / s \<le> of_int n"
    using z(2,3) s(1) by (simp_all add: pos_le_divide_eq pos_divide_le_eq)
  have "\<bar>n\<bar> < 2 ^ 52" "\<bar>n\<bar> < 2 ^ 53" using assms(1,2) by simp_all
  from rnd_between [OF representable_half [OF this(1)] representable_of_int [OF this(2)] n q]
  obtain y where y: "rnd False (z / s) = Fin y" "of_int n - 1 / 2 \<le> y" "y \<le> of_int n" .
  have "Fin z / Fin s = Fin y" using y(1) z0 s(1) by (simp add: dbl_ops ddiv_def)
  moreover have "\<lceil>y\<rceil> = n" using y(2,3) by (simp add: ceiling_eq_iff)
  ultimately show ?thesis using abs assms(1) by simp
qed

lemma swept_count_zero:
  assumes "2 powi (- 52) \<le> s" and "s \<le> 2 powi 900"
  shows "dceil (\<bar>Fin 0 - dbl_epsilon\<bar> / Fin s) = Fin 1"
proof -
  have s: "0 < s" using less_le_trans [OF powi_pos assms(1)] .
  have "Fin 0 - dbl_epsilon = Fin (- (2 powi (- 52)))"
    unfolding epsilon_eq by (subst minus_Fin) (use representable_powi [of "- 52"] in \<open>simp_all add: power_int_minus inverse_eq_divide\<close>)
  then have abs: "\<bar>Fin 0 - dbl_epsilon\<bar> = Fin (2 powi (- 52))" by (simp add: dbl_ops)
  have "2 powi (- 52) / s \<le> 1" using assms(1) s by (simp add: pos_divide_le_eq)
  moreover have "(2 :: rat) powi (- 952) \<le> 2 powi (- 52) / s"
  proof -
    have "(2 :: rat) powi (- 952) * s \<le> 2 powi (- 952) * 2 powi 900"
      by (rule mult_left_mono [OF assms(2)]) (simp add: less_imp_le)
    also have "\<dots> = 2 powi (- 52)" by (simp flip: power_int_add)
    finally show ?thesis using s by (simp add: pos_le_divide_eq)
  qed
  ultimately obtain y where y: "rnd False (2 powi (- 52) / s) = Fin y" "2 powi (- 952) \<le> y" "y \<le> 1"
    using rnd_between [of "2 powi (- 952)" 1 "2 powi (- 52) / s"] representable_of_int [of 1]
      representable_powi [of "- 952"] by auto
  have "0 < y" using less_le_trans [OF powi_pos y(2)] .
  then have "\<lceil>y\<rceil> = 1" using y(3) by (simp add: ceiling_eq_iff)
  moreover have "Fin (2 powi (- 52)) / Fin s = Fin y" using y(1) s by (simp add: dbl_ops ddiv_def)
  ultimately show ?thesis using abs \<open>0 < y\<close> by simp
qed

text \<open>On an exact grid a swept axis of n steps gets n + 1 points; an axis whose two ends are equal gets two
  points, not one, because the small number that is subtracted makes the distance negative.\<close>

lemma swept_axis_count:
  assumes "0 \<le> n" "n < 2 ^ 51" and "2 powi (- 51) \<le> s" "s \<le> 2 powi 900"
    and "representable (of_int n * s)" "representable ((of_int n - 1 / 2) * s)"
  shows "entries (swept_axis (Fin low) (Fin (low + of_int n * s)) (Fin s)) ''Count'' =
    Some (JFloat (Fin (of_int (max n 1 + 1))))"
proof -
  have d: "Fin (low + of_int n * s) - Fin low = Fin (of_int n * s)"
    by (rule trans [OF minus_Fin]) (simp_all add: assms(5))
  have "dceil (\<bar>Fin (of_int n * s) - dbl_epsilon\<bar> / Fin s) = Fin (of_int (max n 1))"
  proof (cases "n = 0")
    case True
    have "(2 :: rat) powi (- 52) \<le> 2 powi (- 51)" by (rule powi_mono) simp
    then have "2 powi (- 52) \<le> s" using assms(3) by linarith
    from swept_count_zero [OF this assms(4)] show ?thesis by (simp add: True)
  next
    case False
    with assms swept_count_positive [of n s] show ?thesis by simp
  qed
  moreover have "Fin (of_int (max n 1)) + Fin 1 = Fin (of_int (max n 1 + 1))"
    using assms(1,2) representable_of_int [of "max n 1 + 1"] by (subst plus_Fin) simp_all
  ultimately show ?thesis
    by (simp add: swept_axis_def d jobject_def entries_def smap_emplace_def)
qed

lemma swept_axis_count_witness:
  "entries (swept_axis (Fin 3) (Fin 3) (Fin 1)) ''Count'' = Some (JFloat (Fin 2))"
proof -
  have "representable (- (1 / 2))" using representable_powi [of "- 1"] by (simp add: power_int_minus)
  then show ?thesis
    using swept_axis_count [of 0 1 3] one_le_power [of "2 :: rat" 900]
    by (simp add: power_int_def field_simps)
qed

section \<open>What is shown\<close>

text \<open>An axis as the server describes it.\<close>

record axis_info =
  ax_low :: dbl
  ax_step :: dbl
  ax_high :: dbl
  ax_center :: dbl
  ax_count :: int

definition number_at :: "json \<Rightarrow> string \<Rightarrow> dbl \<Rightarrow> bool" where
  "number_at j k x \<longleftrightarrow> (case entries j k of Some v \<Rightarrow> json_number v x | None \<Rightarrow> False)"

definition count_at :: "json \<Rightarrow> string \<Rightarrow> int \<Rightarrow> bool" where
  "count_at j k n \<longleftrightarrow> (case entries j k of Some v \<Rightarrow> json_count v n | None \<Rightarrow> False)"

definition describes :: "json \<Rightarrow> string \<Rightarrow> axis_info \<Rightarrow> bool" where
  "describes axes ax a \<longleftrightarrow> (case entries axes ax of
       None \<Rightarrow> False
     | Some j \<Rightarrow> number_at j ''Offset'' (ax_low a) \<and> number_at j ''Delta'' (ax_step a) \<and>
         number_at j ''LastOffset'' (ax_high a) \<and> number_at j ''Center'' (ax_center a) \<and> count_at j ''Count'' (ax_count a))"

text \<open>Where there is no axis the parameters are zero.\<close>

definition no_axis :: axis_info where
  "no_axis = \<lparr>ax_low = Fin 0, ax_step = Fin 0, ax_high = Fin 0, ax_center = Fin 0, ax_count = 0\<rparr>"

lemma jat_entries: "entries j k = Some v \<Longrightarrow> jat k j = Ret v"
  by (auto simp: entries_def jat_def split: json.splits)

lemma jat_member: "map_of m k = Some v \<Longrightarrow> jat k (JObj m) = Ret v"
  by (simp add: jat_def)

lemma jcontains_entries: "jcontains j k \<longleftrightarrow> entries j k \<noteq> None"
  by (auto simp: entries_def jcontains_def split: json.splits)

lemma at_runs:
  "number_at j k x \<Longrightarrow> obind (jat k j) jdouble = Ret x"
  "count_at j k n \<Longrightarrow> obind (jat k j) jint = Ret n" "count_at j k n \<Longrightarrow> in_i32 n"
  by (auto simp: number_at_def count_at_def jat_entries json_number_double json_count_int split: option.splits
    dest: json_count_range)

lemma describes_runs:
  assumes "describes axes ax a"
  shows "axis_double ax ''Offset'' axes = retp (ax_low a)" "axis_double ax ''Delta'' axes = retp (ax_step a)"
    "axis_double ax ''LastOffset'' axes = retp (ax_high a)" "axis_double ax ''Center'' axes = retp (ax_center a)"
    "axis_int ax ''Count'' axes = retp (ax_count a)" "jcontains axes ax"
proof -
  from assms obtain j where "entries axes ax = Some j"
     "number_at j ''Offset'' (ax_low a)" "number_at j ''Delta'' (ax_step a)"
     "number_at j ''LastOffset'' (ax_high a)" "number_at j ''Center'' (ax_center a)" "count_at j ''Count'' (ax_count a)"
    by (auto simp: describes_def split: option.splits)
  then show "axis_double ax ''Offset'' axes = retp (ax_low a)" "axis_double ax ''Delta'' axes = retp (ax_step a)"
    "axis_double ax ''LastOffset'' axes = retp (ax_high a)" "axis_double ax ''Center'' axes = retp (ax_center a)"
    "axis_int ax ''Count'' axes = retp (ax_count a)" "jcontains axes ax"
    by (simp_all add: axis_double_def axis_int_def jat_entries jcontains_entries at_runs
      liftp_def retp_def fun_eq_iff)
qed

text \<open>An axis as the parameters show it.\<close>

definition axis_shown :: "'s env \<Rightarrow> 's \<Rightarrow> param \<times> param \<times> param \<times> param \<times> param \<Rightarrow> axis_info \<Rightarrow> bool" where
  "axis_shown E w ps a \<longleftrightarrow> (case ps of (low, step, high, center, count) \<Rightarrow>
     p_dbl (e_asyn E) low w = ax_low a \<and> p_dbl (e_asyn E) step w = ax_step a \<and> p_dbl (e_asyn E) high w = ax_high a \<and>
     p_dbl (e_asyn E) center w = ax_center a \<and> p_int (e_asyn E) count w = ax_count a)"

abbreviation "energy_params \<equiv> (AnalyserLowEnergy, AnalyserEnergyStep, AnalyserHighEnergy, AnalyserCenterEnergy, AnalyserEnergyCount)"
abbreviation "slice_params \<equiv> (AnalyserLowSlice, AnalyserSliceStep, AnalyserHighSlice, AnalyserCenterSlice, AnalyserSliceCount)"
abbreviation "angle_params \<equiv> (AnalyserLowAngleY, AnalyserAngleYStep, AnalyserHighAngleY, AnalyserCenterAngleY, AnalyserAngleYCount)"

definition shown_energy :: "'s env \<Rightarrow> 's \<Rightarrow> dbl \<Rightarrow> dbl" where
  "shown_energy E w e =
     (if p_int (e_asyn E) EnergyMode w = 1
      then e + p_dbl (e_asyn E) WorkFunction w - p_dbl (e_asyn E) ExcitationEnergy w else e)"

text \<open>In binding mode the energies are shown as binding energies; the step is not changed.\<close>

definition shown_axis :: "'s env \<Rightarrow> 's \<Rightarrow> axis_info \<Rightarrow> axis_info" where
  "shown_axis E w a = a\<lparr>ax_low := shown_energy E w (ax_low a), ax_high := shown_energy E w (ax_high a),
     ax_center := shown_energy E w (ax_center a)\<rparr>"

lemma set_energy_axis_run:
  assumes "asyn_params E strs" and "describes axes ''X'' a"
  shows "\<exists>w'. set_energy_axis E axes (c, (d, w)) = Some (Ret (), (c, (d, w'))) \<and>
    axis_shown E w' energy_params (shown_axis E w a) \<and>
    (\<forall>q. q \<noteq> AnalyserEnergyCount \<longrightarrow> p_int (e_asyn E) q w' = p_int (e_asyn E) q w)"
proof -
  note laws = asyn_params.param_laws [OF assms(1)]
  show ?thesis
    by (cases "p_int (e_asyn E) EnergyMode w = 1")
      (simp_all add: set_energy_axis_def Let_def describes_runs [OF assms(2)] drv_runs laws shown_energy_def
        axis_shown_def shown_axis_def)
qed

lemma set_slice_axis_run:
  assumes "asyn_params E strs" and "describes axes ''Y'' a"
  shows "\<exists>w'. set_slice_axis E axes (c, (d, w)) = Some (Ret (), (c, (d, w'))) \<and>
    axis_shown E w' slice_params a \<and>
    (\<forall>q. q \<noteq> AnalyserSliceCount \<longrightarrow> p_int (e_asyn E) q w' = p_int (e_asyn E) q w) \<and>
    (\<forall>q. q \<notin> {AnalyserLowSlice, AnalyserSliceStep, AnalyserHighSlice, AnalyserCenterSlice} \<longrightarrow>
      p_dbl (e_asyn E) q w' = p_dbl (e_asyn E) q w)"
proof -
  note laws = asyn_params.param_laws [OF assms(1)]
  show ?thesis
    by (simp add: set_slice_axis_def describes_runs [OF assms(2)] drv_runs laws axis_shown_def)
qed

lemma set_angle_axis_run:
  assumes "asyn_params E strs" and "if entries axes ''Z'' = None then a = no_axis else describes axes ''Z'' a"
  shows "\<exists>w'. set_angle_axis E axes (c, (d, w)) = Some (Ret (), (c, (d, w'))) \<and>
    axis_shown E w' angle_params a \<and>
    (\<forall>q. q \<noteq> AnalyserAngleYCount \<longrightarrow> p_int (e_asyn E) q w' = p_int (e_asyn E) q w) \<and>
    (\<forall>q. q \<notin> {AnalyserLowAngleY, AnalyserAngleYStep, AnalyserHighAngleY, AnalyserCenterAngleY} \<longrightarrow>
      p_dbl (e_asyn E) q w' = p_dbl (e_asyn E) q w)"
proof -
  note laws = asyn_params.param_laws [OF assms(1)]
  show ?thesis
  proof (cases "entries axes ''Z'' = None")
    case True
    with assms(2) show ?thesis
      by (simp add: set_angle_axis_def jcontains_entries drv_runs laws axis_shown_def no_axis_def)
  next
    case False
    with assms(2) have "describes axes ''Z'' a" by simp
    then show ?thesis
      by (simp add: set_angle_axis_def describes_runs drv_runs laws axis_shown_def)
  qed
qed

text \<open>The number of points the server says have been acquired along an axis.\<close>

definition acquired_count :: "json \<Rightarrow> string \<Rightarrow> int \<Rightarrow> bool" where
  "acquired_count acquired ax n \<longleftrightarrow> (case entries acquired ax of None \<Rightarrow> n = 1 | Some j \<Rightarrow> count_at j ''Count'' n)"

lemma acquired_count_range: "acquired_count acquired ax n \<Longrightarrow> in_i32 n"
  by (auto simp: acquired_count_def at_runs(3) in_i32_def split: option.splits dest: at_runs(3))

lemma times_count_run:
  "acquired_count acquired ax n \<Longrightarrow> in_i32 (k * n) \<Longrightarrow>
    times_count swept ax acquired k = Ret (if swept then k * n else k)"
  by (auto simp: acquired_count_def times_count_def jcontains_entries jat_entries c_mul_def at_runs
    split: option.splits)

text \<open>C10: the three axes the server describes are shown in their parameters, with the low and high end, the center,
  the step and the count, the energies as binding energies in that mode, and zeros where there is no angle; the number of steps is
  the product of the acquired points of the swept axes, and their counter starts at zero.\<close>

theorem setRegion_steps:
  assumes "asyn_params E strs"
    and "entries channel ''RequestedAxes'' = Some axes" "entries channel ''AcquiredAxes'' = Some acquired"
    and "describes axes ''X'' x" "describes axes ''Y'' y"
    and "if entries axes ''Z'' = None then z = no_axis else describes axes ''Z'' z"
    and "acquired_count acquired ''X'' nx" "acquired_count acquired ''Z'' nz" "in_i32 (nx * nz)"
    and "mode = p_int (e_asyn E) AnalyserAcquisitionMode w"
  shows "\<exists>w'. setRegion E channel (c, (d, w)) = Some (Ret (), (c, (d, w'))) \<and>
    p_int (e_asyn E) AcqNumSteps w' = (if bit mode 0 then nx else 1) * (if bit mode 1 then nz else 1) \<and>
    p_int (e_asyn E) AcqNumStepsCounter w' = 0 \<and>
    axis_shown E w' energy_params (shown_axis E w x) \<and> axis_shown E w' slice_params y \<and> axis_shown E w' angle_params z"
proof -
  note laws = asyn_params.param_laws [OF assms(1)]
  obtain w1 where w1: "set_energy_axis E axes (c, (d, w)) = Some (Ret (), (c, (d, w1)))"
    "axis_shown E w1 energy_params (shown_axis E w x)"
    "\<forall>q. q \<noteq> AnalyserEnergyCount \<longrightarrow> p_int (e_asyn E) q w1 = p_int (e_asyn E) q w"
    using set_energy_axis_run [OF assms(1,4)] by blast
  obtain w2 where w2: "set_slice_axis E axes (c, (d, w1)) = Some (Ret (), (c, (d, w2)))"
    "axis_shown E w2 slice_params y"
    "\<forall>q. q \<noteq> AnalyserSliceCount \<longrightarrow> p_int (e_asyn E) q w2 = p_int (e_asyn E) q w1"
    "\<forall>q. q \<notin> {AnalyserLowSlice, AnalyserSliceStep, AnalyserHighSlice, AnalyserCenterSlice} \<longrightarrow>
      p_dbl (e_asyn E) q w2 = p_dbl (e_asyn E) q w1"
    using set_slice_axis_run [OF assms(1,5)] by blast
  obtain w3 where w3: "set_angle_axis E axes (c, (d, w2)) = Some (Ret (), (c, (d, w3)))"
    "axis_shown E w3 angle_params z"
    "\<forall>q. q \<noteq> AnalyserAngleYCount \<longrightarrow> p_int (e_asyn E) q w3 = p_int (e_asyn E) q w2"
    "\<forall>q. q \<notin> {AnalyserLowAngleY, AnalyserAngleYStep, AnalyserHighAngleY, AnalyserCenterAngleY} \<longrightarrow>
      p_dbl (e_asyn E) q w3 = p_dbl (e_asyn E) q w2"
    using set_angle_axis_run [OF assms(1,6)] by blast
  have mode: "p_int (e_asyn E) AnalyserAcquisitionMode w3 = mode"
    using assms(10) w1(3) w2(3) w3(3) by simp
  have n: "in_i32 nx" "in_i32 nz" using assms(7,8) by (simp_all add: acquired_count_range)
  obtain sx sz where s: "sx = (if bit mode 0 then nx else 1)" "sz = (if bit mode 1 then nz else 1)" by blast
  have steps: "times_count (bit mode 0) ''X'' acquired 1 = Ret sx" "times_count (bit mode 1) ''Z'' acquired sx = Ret (sx * sz)"
    unfolding s
    using times_count_run [OF assms(7), of 1 "bit mode 0"] n
      times_count_run [OF assms(8), of "if bit mode 0 then nx else 1" "bit mode 1"] assms(9) by auto
  have shown: "axis_shown E w3 energy_params (shown_axis E w x)" "axis_shown E w3 slice_params y"
    using w1(2) w2(2) by (simp_all add: axis_shown_def w2(3,4) w3(3,4))
  show ?thesis
    unfolding setRegion_def s [symmetric] jat_entries [OF assms(2)] jat_entries [OF assms(3)] bnd_liftp_run
    using shown w3(2)
    by (simp add: prog_runs w1(1) w2(1) w3(1) drv_runs mode steps [unfolded One_nat_def] laws axis_shown_def)
qed

text \<open>A description as the parser gives it: the counts are unsigned, and a number without a point is an integer.\<close>

definition sample_axis :: "int \<Rightarrow> (string \<times> json) list" where
  "sample_axis n = [(''Center'', JFloat (Fin (7 / 2))), (''Count'', JUInt n), (''Delta'', JUInt 1),
     (''LastOffset'', JUInt 5), (''Offset'', JUInt 2)]"

definition sample_info :: "int \<Rightarrow> axis_info" where
  "sample_info n = \<lparr>ax_low = Fin 2, ax_step = Fin 1, ax_high = Fin 5, ax_center = Fin (7 / 2), ax_count = n\<rparr>"

definition sample_channel :: json where
  "sample_channel = JObj [(''AcquiredAxes'', JObj [(''X'', JObj (sample_axis 5)), (''Z'', JObj (sample_axis 3))]),
     (''RequestedAxes'', JObj [(''X'', JObj (sample_axis 4)), (''Y'', JObj (sample_axis 6)), (''Z'', JObj (sample_axis 2))])]"

lemma describes_sample:
  "entries axes ax = Some (JObj (sample_axis n)) \<Longrightarrow> in_i32 n \<Longrightarrow> describes axes ax (sample_info n)"
  by (simp add: describes_def sample_axis_def sample_info_def number_at_def count_at_def entries_def in_i32_def)

lemma setRegion_steps_witness:
  "\<exists>w'. setRegion (table_env (\<lambda>_. JNull)) sample_channel (sample_clients, (sample_driver,
        sample_table\<lparr>t_int := (\<lambda>_. 3)\<rparr>)) = Some (Ret (), (sample_clients, (sample_driver, w'))) \<and>
    t_int w' AcqNumSteps = 15 \<and> t_int w' AnalyserEnergyCount = 4 \<and> t_dbl w' AnalyserHighEnergy = Fin 5 \<and>
    t_dbl w' AnalyserLowSlice = Fin 2 \<and> t_dbl w' AnalyserHighSlice = Fin 5 \<and> t_int w' AnalyserAngleYCount = 2"
proof -
  let ?E = "table_env (\<lambda>_. JNull)" and ?w = "sample_table\<lparr>t_int := (\<lambda>_. 3)\<rparr>"
  let ?axes = "JObj [(''X'', JObj (sample_axis 4)), (''Y'', JObj (sample_axis 6)), (''Z'', JObj (sample_axis 2))]"
  let ?acquired = "JObj [(''X'', JObj (sample_axis 5)), (''Z'', JObj (sample_axis 3))]"
  have "entries sample_channel ''RequestedAxes'' = Some ?axes" "entries sample_channel ''AcquiredAxes'' = Some ?acquired"
    by (simp_all add: sample_channel_def entries_def)
  moreover have "asyn_params ?E (\<lambda>p w. t_str w p)" by (rule table.asyn_params_axioms)
  moreover have "describes ?axes ''X'' (sample_info 4)" "describes ?axes ''Y'' (sample_info 6)" "describes ?axes ''Z'' (sample_info 2)"
    by (rule describes_sample; simp add: entries_def in_i32_def)+
  moreover have "acquired_count ?acquired ''X'' 5" "acquired_count ?acquired ''Z'' 3"
    by (simp_all add: acquired_count_def entries_def count_at_def sample_axis_def in_i32_def)
  moreover have "bit (3 :: int) 0" "bit (3 :: int) 1" by code_simp+
  ultimately show ?thesis
    using setRegion_steps [of ?E "\<lambda>p w. t_str w p" sample_channel ?axes ?acquired "sample_info 4" "sample_info 6" "sample_info 2"
        5 3 3 ?w sample_clients sample_driver]
    by (auto simp: axis_shown_def shown_axis_def shown_energy_def sample_info_def entries_def in_i32_def)
qed

text \<open>C33: in binding mode the energies asked for are sent as kinetic energies, and when the server describes an axis with
  these energies, the binding energies that were asked for are shown again, provided no rounding happens.\<close>

theorem binding_energy_roundtrip:
  assumes "asyn_params E strs" and "p_int (e_asyn E) EnergyMode w = 1"
    and "p_dbl (e_asyn E) ExcitationEnergy w = Fin h" "p_dbl (e_asyn E) WorkFunction w = Fin \<phi>"
    and "m_RequestedAxes d AnalyserLowEnergy = Fin lo" "m_RequestedAxes d AnalyserHighEnergy = Fin hi"
      "m_RequestedAxes d AnalyserCenterEnergy = Fin ce"
    and "representable (h - \<phi>)" "\<forall>e \<in> {lo, hi, ce}. representable e \<and> representable (h - \<phi> + e) \<and> representable (h + e)"
    and "requested_energies E (c, (d, w)) = Some (Ret (low, center, high, step), (c, (d, w)))"
    and "describes axes ''X'' a" "ax_low a = low" "ax_high a = high" "ax_center a = center"
  shows "\<exists>w'. set_energy_axis E axes (c, (d, w)) = Some (Ret (), (c, (d, w'))) \<and>
    p_dbl (e_asyn E) AnalyserLowEnergy w' = m_RequestedAxes d AnalyserLowEnergy \<and>
    p_dbl (e_asyn E) AnalyserHighEnergy w' = m_RequestedAxes d AnalyserHighEnergy \<and>
    p_dbl (e_asyn E) AnalyserCenterEnergy w' = m_RequestedAxes d AnalyserCenterEnergy"
proof -
  have shown: "shown_energy E w (Fin h - Fin \<phi> + Fin e) = Fin e" if "e \<in> {lo, hi, ce}" for e
  proof -
    have r: "representable e" "representable (h - \<phi> + e)" "representable (h + e)" using assms(9) that by blast+
    have "Fin h - Fin \<phi> + Fin e = Fin (h - \<phi> + e)" using assms(8) r(2) by (simp add: minus_Fin plus_Fin)
    moreover have "Fin (h - \<phi> + e) + Fin \<phi> = Fin (h + e)" using r(3) by (simp add: plus_Fin)
    moreover have "Fin (h + e) - Fin h = Fin e" using r(1) by (simp add: minus_Fin)
    ultimately show ?thesis using assms(2-4) by (simp add: shown_energy_def)
  qed
  have "low = Fin h - Fin \<phi> + Fin lo" "high = Fin h - Fin \<phi> + Fin hi" "center = Fin h - Fin \<phi> + Fin ce"
    using assms(10) assms(2-7) by (simp_all add: requested_energies_def drv_runs Let_def)
  with set_energy_axis_run [OF assms(1,11), of c d w] shown show ?thesis
    by (auto simp: assms(5-7,12-14) axis_shown_def shown_axis_def)
qed

definition binding_driver :: driver where
  "binding_driver = sample_driver\<lparr>m_RequestedAxes := (\<lambda>_. Fin 0)(AnalyserLowEnergy := Fin 10, AnalyserHighEnergy := Fin 20,
     AnalyserCenterEnergy := Fin 15)\<rparr>"

definition binding_table :: table where
  "binding_table = sample_table\<lparr>t_int := (\<lambda>_. 1), t_dbl := (\<lambda>_. Fin 0)(ExcitationEnergy := Fin 100, WorkFunction := Fin 4)\<rparr>"

lemma binding_energy_roundtrip_witness:
  "\<exists>w'. set_energy_axis (table_env (\<lambda>_. JNull)) (JObj [(''X'', JObj [(''Center'', JUInt 111), (''Count'', JUInt 11),
        (''Delta'', JUInt 1), (''LastOffset'', JUInt 116), (''Offset'', JUInt 106)])])
      (sample_clients, (binding_driver, binding_table)) = Some (Ret (), (sample_clients, (binding_driver, w'))) \<and>
    t_dbl w' AnalyserLowEnergy = Fin 10 \<and> t_dbl w' AnalyserHighEnergy = Fin 20"
proof -
  let ?E = "table_env (\<lambda>_. JNull)"
  let ?axes = "JObj [(''X'', JObj [(''Center'', JUInt 111), (''Count'', JUInt 11),
        (''Delta'', JUInt 1), (''LastOffset'', JUInt 116), (''Offset'', JUInt 106)])]"
  have exact: "representable (of_int n)" if "n \<in> {10, 15, 20, 96, 106, 111, 116, 110, 115, 120}" for n
    using that by (intro representable_of_int) auto
  note exact = exact [of 10, simplified] exact [of 15, simplified] exact [of 20, simplified] exact [of 96, simplified]
    exact [of 106, simplified] exact [of 111, simplified] exact [of 116, simplified] exact [of 110, simplified]
    exact [of 115, simplified] exact [of 120, simplified]
  have reads: "p_int (e_asyn ?E) EnergyMode binding_table = 1" "p_dbl (e_asyn ?E) ExcitationEnergy binding_table = Fin 100"
    "p_dbl (e_asyn ?E) WorkFunction binding_table = Fin 4"
    by (simp_all add: binding_table_def)
  have axes: "m_RequestedAxes binding_driver AnalyserLowEnergy = Fin 10" "m_RequestedAxes binding_driver AnalyserHighEnergy = Fin 20"
    "m_RequestedAxes binding_driver AnalyserCenterEnergy = Fin 15" "m_RequestedAxes binding_driver AnalyserEnergyStep = Fin 0"
    by (simp_all add: binding_driver_def)
  have en: "requested_energies ?E (sample_clients, (binding_driver, binding_table)) =
      Some (Ret (Fin 106, Fin 111, Fin 116, Fin 0), (sample_clients, (binding_driver, binding_table)))"
    by (simp add: requested_energies_def drv_runs binding_table_def axes minus_Fin plus_Fin exact)
  have "describes ?axes ''X'' \<lparr>ax_low = Fin 106, ax_step = Fin 1, ax_high = Fin 116, ax_center = Fin 111, ax_count = 11\<rparr>"
    by (simp add: describes_def number_at_def count_at_def entries_def in_i32_def)
  from binding_energy_roundtrip [OF table.asyn_params_axioms reads axes(1-3) _ _ en this] exact
  show ?thesis
    by (auto simp: axes)
qed

end
