(* ===== verification/DriverWrite.thy ===== *)
theory DriverWrite
  imports DriverRegion
begin

text \<open>
  What the clients of the driver do to it: \<open>readEnum\<close>, \<open>writeInt32\<close>, \<open>writeFloat64\<close>,
  \<open>writeOctet\<close> and \<open>report\<close> of \<open>peakAnalyser.cpp\<close>.  The caller holds the lock of the driver.
\<close>

section \<open>Reading the choices of an enumeration\<close>

text \<open>The characters of a string up to its end mark.\<close>

definition c_str :: "string \<Rightarrow> string" where
  "c_str s = takeWhile (\<lambda>c. c \<noteq> CHR 0x00) s"

text \<open>A string, a value and a severity for each choice, for as many as there is room for.\<close>

definition enum_entries :: "string list \<Rightarrow> nat \<Rightarrow> (string \<times> int \<times> int) list" where
  "enum_entries choices nElements =
     map (\<lambda>i. (c_str (choices ! i), int i, 0)) [0..<min (length choices) nElements]"

text \<open>\<open>sprintf\<close> of a pass energy into a buffer of five characters, one for the end mark.\<close>

definition pass_energy_text :: "dbl \<Rightarrow> string outcome" where
  "pass_energy_text e =
     obind (dbl_to_i32 e) (\<lambda>i.
     let str = int_to_string i in if length str < 5 then Ret str else Undef)"

definition pass_energy_texts :: "dbl list \<Rightarrow> nat \<Rightarrow> string list outcome" where
  "pass_energy_texts es nElements = omap pass_energy_text (take nElements es)"

text \<open>No result stands for the error status.\<close>

definition readEnum :: "driver \<Rightarrow> param \<Rightarrow> nat \<Rightarrow> (string \<times> int \<times> int) list option outcome" where
  "readEnum d function nElements =
     (if function = PassEnergy then
        obind (pass_energy_texts (m_PassEnergies d) nElements) (\<lambda>texts. Ret (Some (enum_entries texts nElements)))
      else if function = ElementSet then Ret (Some (enum_entries (m_Elementsets d) nElements))
      else if function = LensMode then Ret (Some (enum_entries (map lm_name (m_LensModes d)) nElements))
      else if function = DetectorMode then Ret (Some (enum_entries (m_DetectorModes d) nElements))
      else if function = Slit then Ret (Some (enum_entries (m_Slits d) nElements))
      else Ret None)"

section \<open>Writing an integer\<close>

text \<open>\<open>epicsSnprintf\<close> into the message buffer of 256 characters.\<close>

definition snprintf_256 :: "string \<Rightarrow> string" where
  "snprintf_256 s = take 255 s"

definition no_theta_y :: "lens_mode_setting \<Rightarrow> string" where
  "no_theta_y lens =
     snprintf_256 (''LensMode '' @ [CHR 0x27] @ c_str (lm_name lens) @ [CHR 0x27] @ '' does not support ThetaY'')"

definition index_message :: "string \<Rightarrow> nat \<Rightarrow> string" where
  "index_message name n =
     snprintf_256 (''Set '' @ [CHR 0x27] @ name @ [CHR 0x27] @ '' failed, index must be between 0 and '' @ nat_to_string n)"

definition send_signal :: "'s env \<Rightarrow> driver_event \<Rightarrow> ('s, unit) drv_prog" where
  "send_signal E ev = netp (e_signal E ev)"

definition write_acquire :: "'s env \<Rightarrow> int \<Rightarrow> ('s, unit) drv_prog" where
  "write_acquire E value =
     bnd (getIntegerParam E ADStatus) (\<lambda>adStatus.
     sq (whenp (value \<noteq> 0 \<and> adStatus \<noteq> e_enum E ADStatusAcquire \<and> adStatus \<noteq> e_enum E ADStatusDisconnected)
          (send_signal E StartEvent))
     (whenp (value = 0 \<and> adStatus = e_enum E ADStatusAcquire)
       (try_catch (with_analyser E abort_acquisition) (\<lambda>e. retp ()))))"

definition write_num_exposures :: "'s env \<Rightarrow> int \<Rightarrow> int \<Rightarrow> ('s, unit) drv_prog" where
  "write_num_exposures E oldValue value =
     bnd (getDoubleParam E AcqETA) (\<lambda>eta.
     let eta = eta / dbl_of_int oldValue * dbl_of_int value in
     sq (setDoubleParam E AcqETA eta)
     (bnd (liftp (obind (dbl_to_i32 eta) strftime)) (\<lambda>str.
     sq (setStringParam E AcqETAStr str) (retp ()))))"

definition write_acquisition_mode :: "'s env \<Rightarrow> int \<Rightarrow> int \<Rightarrow> ('s, unit) drv_prog" where
  "write_acquisition_mode E oldValue value =
     bnd (getIntegerParam E LensMode) (\<lambda>lensMode.
     if bit value 1 then
       bnd (get_drv m_LensModes) (\<lambda>modes.
       bnd (liftp (vec_nth modes lensMode)) (\<lambda>lens.
       if \<not> hasYDeflection lens then
         sq (setStringParam E ADStatusMessage (no_theta_y lens))
         (sq (setIntegerParam E AnalyserAcquisitionMode oldValue) (retp ()))
       else setupSpectrumDefinition E))
     else setupSpectrumDefinition E)"

definition write_energy_mode :: "'s env \<Rightarrow> int \<Rightarrow> ('s, unit) drv_prog" where
  "write_energy_mode E value =
     sq (setupSpectrumDefinition E)
     (sq (setStringParam E EnergyModeStr (if value \<noteq> 0 then ''Binding'' else ''Kinetic'')) (retp ()))"

text \<open>A number of channels or slices, cut to the size of the region and to one at least.\<close>

definition write_channels :: "'s env \<Rightarrow> param \<Rightarrow> param \<Rightarrow> int \<Rightarrow> ('s, unit) drv_prog" where
  "write_channels E function sizeParam value =
     bnd (getIntegerParam E sizeParam) (\<lambda>width.
     if value > width then sq (setIntegerParam E function width) (retp ())
     else if value \<le> 0 then sq (setIntegerParam E function 1) (retp ())
     else retp ())"

definition write_detector_channels :: "'s env \<Rightarrow> int \<Rightarrow> ('s, unit) drv_prog" where
  "write_detector_channels E value =
     sq (write_channels E DetectorChannels ADSizeX value)
     (bnd (getIntegerParam E AnalyserAcquisitionMode) (\<lambda>acquisitionMode.
      whenp (\<not> bit acquisitionMode 0 \<or> \<not> bit acquisitionMode 1) (setupSpectrumDefinition E)))"

definition write_detector_slices :: "'s env \<Rightarrow> int \<Rightarrow> ('s, unit) drv_prog" where
  "write_detector_slices E value =
     sq (write_channels E DetectorSlices ADSizeY value) (setupSpectrumDefinition E)"

definition write_lens_mode :: "'s env \<Rightarrow> int \<Rightarrow> int \<Rightarrow> ('s, unit) drv_prog" where
  "write_lens_mode E oldValue value =
     bnd (get_drv m_LensModes) (\<lambda>modes.
     if value < int (length modes) then
       bnd (getIntegerParam E AnalyserAcquisitionMode) (\<lambda>acquisitionMode.
       bnd (liftp (vec_nth modes value)) (\<lambda>lens.
       if bit acquisitionMode 1 \<and> \<not> hasYDeflection lens then
         sq (setStringParam E ADStatusMessage (no_theta_y lens))
         (sq (setIntegerParam E LensMode oldValue) (retp ()))
       else
         sq (setIntegerParam E AnalyserWithSlice (if hasXDeflection lens then 1 else 0))
         (sq (setIntegerParam E AnalyserWithAngleY (if hasYDeflection lens then 1 else 0))
         (setupSpectrumDefinition E))))
     else
       sq (setStringParam E ADStatusMessage (index_message ''Lens_Mode'' (length modes)))
       (sq (setIntegerParam E LensMode oldValue) (retp ())))"

definition write_pass_energy :: "'s env \<Rightarrow> int \<Rightarrow> int \<Rightarrow> ('s, unit) drv_prog" where
  "write_pass_energy E oldValue value =
     bnd (get_drv m_PassEnergies) (\<lambda>energies.
     if value < int (length energies) then setupSpectrumDefinition E
     else
       sq (setStringParam E ADStatusMessage (index_message ''Pass_Energy'' (length energies)))
       (sq (setIntegerParam E PassEnergy oldValue) (retp ())))"

text \<open>A call on the electronics client: a null pointer is not to be used.\<close>

definition write_zero_supplies :: "'s env \<Rightarrow> int \<Rightarrow> ('s, unit) drv_prog" where
  "write_zero_supplies E value =
     whenp (value = 1)
       (bnd (getIntegerParam E ADAcquire) (\<lambda>acquisitionState.
        whenp (acquisitionState \<noteq> e_enum E ADStatusAcquire)
          (try_catch
            (bnd (get_drv electronics) (\<lambda>client. case client of
               None \<Rightarrow> undefp
             | Some uri \<Rightarrow>
                 sq (with_client E uri zeroAllSupplies)
                 (sq (setStringParam E ADStatusMessage ''Power supplies reset'') (retp ()))))
            (\<lambda>e. retp ()))))"

definition writeInt32 :: "'s env \<Rightarrow> param \<Rightarrow> int \<Rightarrow> ('s, unit) drv_prog" where
  "writeInt32 E function value =
     bnd (getIntegerParam E function) (\<lambda>oldValue.
     sq (setIntegerParam E function value)
     (sq (if function = ADAcquire then write_acquire E value
          else if function = NDDataType then sq (setIntegerParam E NDDataType (e_enum E NDFloat32)) (retp ())
          else if function = NDColorMode then sq (setIntegerParam E NDColorMode (e_enum E NDColorModeMono)) (retp ())
          else if function = ADNumExposures then write_num_exposures E oldValue value
          else if function = AnalyserAcquisitionMode then write_acquisition_mode E oldValue value
          else if function = EnergyMode then write_energy_mode E value
          else if function = DetectorChannels then write_detector_channels E value
          else if function = DetectorSlices then write_detector_slices E value
          else if function = LensMode then write_lens_mode E oldValue value
          else if function = PassEnergy then write_pass_energy E oldValue value
          else if function \<in> {ADMinX, ADMinY, ADSizeX, ADSizeY} then sq (setROI E) (setupSpectrumDefinition E)
          else if function = ZeroSupplies then write_zero_supplies E value
          else if is_base function then sq (envp (e_base_int E function value)) (retp ())
          else retp ())
     (sq (callParamCallbacks E) (retp ()))))"

section \<open>Writing a floating-point number\<close>

definition request_axis :: "param \<Rightarrow> dbl \<Rightarrow> ('s, unit) drv_prog" where
  "request_axis function value = upd_drv (\<lambda>d. d\<lparr>m_RequestedAxes := (m_RequestedAxes d)(function := value)\<rparr>)"

text \<open>An end or the step of an axis that may be swept: in a fixed mode the parameter is restored.\<close>

definition write_swept :: "'s env \<Rightarrow> param \<Rightarrow> dbl \<Rightarrow> dbl \<Rightarrow> bool \<Rightarrow> ('s, unit) drv_prog" where
  "write_swept E function value oldValue swept =
     sq (request_axis function value)
     (if swept then setupSpectrumDefinition E
      else sq (setDoubleParam E function oldValue) (retp ()))"

text \<open>The center of such an axis: in a swept mode its ends move along.\<close>

definition move_ends :: "param \<Rightarrow> param \<Rightarrow> dbl \<Rightarrow> (param \<Rightarrow> dbl) \<Rightarrow> param \<Rightarrow> dbl" where
  "move_ends low high value axes =
     (let width = \<bar>axes high - axes low\<bar>
      in axes(low := value - width / Fin 2, high := value + width / Fin 2))"

definition write_center :: "'s env \<Rightarrow> param \<Rightarrow> param \<Rightarrow> param \<Rightarrow> dbl \<Rightarrow> bool \<Rightarrow> ('s, unit) drv_prog" where
  "write_center E function low high value swept =
     sq (request_axis function value)
     (sq (whenp swept (upd_drv (\<lambda>d. d\<lparr>m_RequestedAxes := move_ends low high value (m_RequestedAxes d)\<rparr>)))
     (setupSpectrumDefinition E))"

definition writeFloat64 :: "'s env \<Rightarrow> param \<Rightarrow> dbl \<Rightarrow> ('s, int) drv_prog" where
  "writeFloat64 E function value =
     bnd (getDoubleParam E function) (\<lambda>oldValue.
     bnd (setDoubleParam E function value) (\<lambda>status.
     bnd (getIntegerParam E AnalyserAcquisitionMode) (\<lambda>acquisitionMode.
     bnd (getIntegerParam E EnergyMode) (\<lambda>energyMode.
     bnd (if function \<in> {ExcitationEnergy, WorkFunction} then
            sq (whenp (energyMode = 1) (setupSpectrumDefinition E)) (retp status)
          else if function \<in> {FocalPositionX, FocalPositionY, FocalPositionZ} then
            sq (setupSpectrumDefinition E) (retp status)
          else if function = ADAcquireTime then sq (setupSpectrumDefinition E) (retp status)
          else if function = AnalyserCenterSlice then
            sq (request_axis function value) (sq (setupSpectrumDefinition E) (retp status))
          else if function \<in> {AnalyserHighEnergy, AnalyserLowEnergy, AnalyserEnergyStep} then
            sq (write_swept E function value oldValue (bit acquisitionMode 0)) (retp status)
          else if function = AnalyserCenterEnergy then
            sq (write_center E function AnalyserLowEnergy AnalyserHighEnergy value (bit acquisitionMode 0)) (retp status)
          else if function \<in> {AnalyserHighAngleY, AnalyserLowAngleY, AnalyserAngleYStep} then
            sq (write_swept E function value oldValue (bit acquisitionMode 1)) (retp status)
          else if function = AnalyserCenterAngleY then
            sq (write_center E function AnalyserLowAngleY AnalyserHighAngleY value (bit acquisitionMode 1)) (retp status)
          else if is_base function then envp (e_base_dbl E function value)
          else retp status)
     (\<lambda>status. sq (callParamCallbacks E) (retp status))))))"

section \<open>Writing a string, and the report\<close>

text \<open>The status of the callbacks and the number of characters written.\<close>

definition writeOctet :: "'s env \<Rightarrow> param \<Rightarrow> string \<Rightarrow> nat \<Rightarrow> ('s, int \<times> nat) drv_prog" where
  "writeOctet E function value nChars =
     sq (setStringParam E function (c_str value))
     (sq (if is_base function then sq (envp (e_base_str E function value)) (retp ()) else retp ())
     (bnd (callParamCallbacks E) (\<lambda>status. retp (status, nChars))))"

text \<open>The lines printed before the report of the base class.\<close>

definition report :: "'s env \<Rightarrow> string \<Rightarrow> int \<Rightarrow> ('s, string list) drv_prog" where
  "report E portName details =
     bnd (get_drv id) (\<lambda>d.
     bnd (getIntegerParam E ADSizeX) (\<lambda>nx.
     bnd (getIntegerParam E ADSizeY) (\<lambda>ny.
     bnd (getIntegerParam E NDDataType) (\<lambda>dataType.
     retp ([''peakAnalyser detector '' @ portName, ''  Manager server:      '' @ c_str (m_ManagerHost d)] @
       (case analyser d of Some uri \<Rightarrow> [''  Analyser server:     '' @ c_str uri] | None \<Rightarrow> []) @
       (case electronics d of Some uri \<Rightarrow> [''  Electronics server:  '' @ c_str uri] | None \<Rightarrow> []) @
       (if details > 0 then
          [''  NX, NY:              '' @ int_to_string nx @ ''  '' @ int_to_string ny,
           ''  Data type:           '' @ int_to_string dataType]
        else []))))))"

section \<open>Properties\<close>

subsection \<open>Enumerations\<close>

lemma nat_to_string_short: "length (nat_to_string n) \<le> k \<longleftrightarrow> 0 < k \<and> n < 10 ^ k"
proof (induction k arbitrary: n)
  case 0
  then show ?case by simp
next
  case (Suc k)
  show ?case
  proof (cases "n < 10")
    case True
    then have "n < 10 ^ Suc k" by (rule less_le_trans) simp
    with True show ?thesis by (simp add: nat_to_string.simps [of n])
  next
    case False
    then have "length (nat_to_string n) \<le> Suc k \<longleftrightarrow> length (nat_to_string (n div 10)) \<le> k"
      by (simp add: nat_to_string.simps [of n])
    also have "\<dots> \<longleftrightarrow> 0 < k \<and> n div 10 < 10 ^ k" by (rule Suc)
    also have "\<dots> \<longleftrightarrow> n < 10 ^ Suc k"
      using False by (cases k) (simp_all add: div_less_iff_less_mult algebra_simps)
    finally show ?thesis by simp
  qed
qed

lemma int_to_string_short: "length (int_to_string i) < 5 \<longleftrightarrow> - 1000 < i \<and> i < 10000"
proof (cases "i < 0")
  case True
  then have "length (int_to_string i) < 5 \<longleftrightarrow> length (nat_to_string (nat (- i))) \<le> 3" by (auto simp: int_to_string_def)
  also have "\<dots> \<longleftrightarrow> nat (- i) < 1000" by (simp add: nat_to_string_short)
  finally show ?thesis using True by linarith
next
  case False
  then have "length (int_to_string i) < 5 \<longleftrightarrow> length (nat_to_string (nat i)) \<le> 4" by (auto simp: int_to_string_def)
  also have "\<dots> \<longleftrightarrow> nat i < 10000" by (simp add: nat_to_string_short)
  finally show ?thesis using False by linarith
qed

text \<open>Reading an enumeration delivers as many entries as there are choices and room, numbered in order, unless a
  pass energy has more than four characters: then the text buffer is overrun.\<close>

lemma readEnum_entries:
  assumes "\<forall>e \<in> set (take n (m_PassEnergies d)). \<exists>i. dbl_to_i32 e = Ret i \<and> (p = PassEnergy \<longrightarrow> f e = i)"
    and "p \<in> {PassEnergy, ElementSet, LensMode, DetectorMode, Slit}"
  shows "if p = PassEnergy \<and> (\<exists>e \<in> set (take n (m_PassEnergies d)). f e \<le> - 1000 \<or> 10000 \<le> f e)
    then readEnum d p n = Undef
    else \<exists>es. readEnum d p n = Ret (Some es) \<and>
      length es = min n (if p = PassEnergy then length (m_PassEnergies d) else if p = ElementSet then length (m_Elementsets d)
        else if p = LensMode then length (m_LensModes d) else if p = DetectorMode then length (m_DetectorModes d)
        else length (m_Slits d)) \<and>
      (\<forall>i < length es. snd (es ! i) = (int i, 0))"
proof (cases "p = PassEnergy")
  case False
  with assms(2) show ?thesis by (auto simp: readEnum_def enum_entries_def)
next
  case True
  have one: "pass_energy_text e = (if - 1000 < f e \<and> f e < 10000 then Ret (int_to_string (f e)) else Undef)"
    if "e \<in> set (take n (m_PassEnergies d))" for e
    using assms(1) that True int_to_string_short by (auto simp: pass_energy_text_def Let_def)
  show ?thesis
  proof (cases "\<exists>e \<in> set (take n (m_PassEnergies d)). f e \<le> - 1000 \<or> 10000 \<le> f e")
    case bad: True
    then have "pass_energy_texts (m_PassEnergies d) n = Undef"
      unfolding pass_energy_texts_def by (intro omap_Undef) (auto simp: one not_less)
    with bad True show ?thesis by (simp add: readEnum_def)
  next
    case False
    then have "pass_energy_texts (m_PassEnergies d) n = Ret (map (\<lambda>e. int_to_string (f e)) (take n (m_PassEnergies d)))"
      unfolding pass_energy_texts_def by (intro omap_Ret) (auto simp: one not_le)
    with False True show ?thesis by (simp add: readEnum_def enum_entries_def)
  qed
qed

lemma readEnum_entries_witness:
  "readEnum (sample_driver\<lparr>m_PassEnergies := [Fin 5, Fin 10000]\<rparr>) PassEnergy 2 = Undef"
  using readEnum_entries [of 2 "sample_driver\<lparr>m_PassEnergies := [Fin 5, Fin 10000]\<rparr>" PassEnergy
      "\<lambda>e. if e = Fin 5 then 5 else 10000"]
  by (simp add: dbl_to_i32_def rtrunc_def in_i32_def)

subsection \<open>Integers\<close>

text \<open>A write: set the parameter, do what belongs to it, and tell the callbacks.\<close>

lemma writeInt32_cases:
  "writeInt32 E LensMode v = bnd (getIntegerParam E LensMode) (\<lambda>old. sq (setIntegerParam E LensMode v)
     (sq (write_lens_mode E old v) (sq (callParamCallbacks E) (retp ()))))"
  "writeInt32 E AnalyserAcquisitionMode v = bnd (getIntegerParam E AnalyserAcquisitionMode) (\<lambda>old.
     sq (setIntegerParam E AnalyserAcquisitionMode v)
     (sq (write_acquisition_mode E old v) (sq (callParamCallbacks E) (retp ()))))"
  "writeInt32 E ZeroSupplies v = bnd (getIntegerParam E ZeroSupplies) (\<lambda>old. sq (setIntegerParam E ZeroSupplies v)
     (sq (write_zero_supplies E v) (sq (callParamCallbacks E) (retp ()))))"
  "writeInt32 E ADAcquire v = bnd (getIntegerParam E ADAcquire) (\<lambda>old. sq (setIntegerParam E ADAcquire v)
     (sq (write_acquire E v) (sq (callParamCallbacks E) (retp ()))))"
  by (simp_all add: writeInt32_def)

text \<open>C37: a lens mode beyond the list, or without ThetaY in a mode that sweeps it, is refused: every parameter keeps its
  value and the message says why.  A negative lens mode is used as an index.\<close>

theorem writeInt32_lens_mode:
  assumes "asyn_params E strs" and "old = p_int (e_asyn E) LensMode w"
  shows "(v < 0 \<longrightarrow> (\<exists>w'. writeInt32 E LensMode v (c, (d, w)) = Some (Undef, (c, (d, w'))))) \<and>
    (int (length (m_LensModes d)) \<le> v \<or>
       0 \<le> v \<and> bit (p_int (e_asyn E) AnalyserAcquisitionMode w) 1 \<and> \<not> hasYDeflection (m_LensModes d ! nat v) \<longrightarrow>
     (\<exists>w'. writeInt32 E LensMode v (c, (d, w)) = Some (Ret (), (c, (d, w'))) \<and>
        (\<forall>q. p_int (e_asyn E) q w' = p_int (e_asyn E) q w) \<and>
        strs ADStatusMessage w' = (if int (length (m_LensModes d)) \<le> v
          then index_message ''Lens_Mode'' (length (m_LensModes d)) else no_theta_y (m_LensModes d ! nat v))))"
proof -
  note laws = asyn_params.param_laws [OF assms(1)]
  show ?thesis
  proof (intro conjI impI)
    assume "v < 0"
    then show "\<exists>w'. writeInt32 E LensMode v (c, (d, w)) = Some (Undef, (c, (d, w')))"
      unfolding writeInt32_cases write_lens_mode_def drv_flat by (simp add: drv_runs)
  next
    assume r: "int (length (m_LensModes d)) \<le> v \<or>
       0 \<le> v \<and> bit (p_int (e_asyn E) AnalyserAcquisitionMode w) 1 \<and> \<not> hasYDeflection (m_LensModes d ! nat v)"
    show "\<exists>w'. writeInt32 E LensMode v (c, (d, w)) = Some (Ret (), (c, (d, w'))) \<and>
        (\<forall>q. p_int (e_asyn E) q w' = p_int (e_asyn E) q w) \<and>
        strs ADStatusMessage w' = (if int (length (m_LensModes d)) \<le> v
          then index_message ''Lens_Mode'' (length (m_LensModes d)) else no_theta_y (m_LensModes d ! nat v))"
      unfolding writeInt32_cases write_lens_mode_def drv_flat
      using r by (cases "int (length (m_LensModes d)) \<le> v") (simp_all add: drv_runs laws)
  qed
qed

lemma writeInt32_lens_mode_witness:
  "(\<exists>w'. writeInt32 (table_env (\<lambda>_. JNull)) LensMode 7 (sample_clients, (sample_driver, sample_table)) =
      Some (Ret (), (sample_clients, (sample_driver, w'))) \<and> t_int w' LensMode = 0 \<and>
      t_str w' ADStatusMessage = index_message ''Lens_Mode'' 2) \<and>
   (\<exists>w'. writeInt32 (table_env (\<lambda>_. JNull)) LensMode (- 1) (sample_clients, (sample_driver, sample_table)) =
      Some (Undef, (sample_clients, (sample_driver, w'))))"
  using writeInt32_lens_mode [OF table.asyn_params_axioms refl, of 7 "\<lambda>_. JNull" sample_clients sample_driver sample_table]
    writeInt32_lens_mode [OF table.asyn_params_axioms refl, of "- 1" "\<lambda>_. JNull" sample_clients sample_driver sample_table]
  by auto


text \<open>C36: an acquisition mode that sweeps ThetaY is refused when the lens mode has no ThetaY: every parameter keeps its
  value and the message names the lens mode.\<close>

theorem writeInt32_mode_rejected:
  assumes "asyn_params E strs" and "bit v 1"
    and "i = p_int (e_asyn E) LensMode w" "0 \<le> i" "i < int (length (m_LensModes d))"
    and "\<not> hasYDeflection (m_LensModes d ! nat i)"
  shows "\<exists>w'. writeInt32 E AnalyserAcquisitionMode v (c, (d, w)) = Some (Ret (), (c, (d, w'))) \<and>
    (\<forall>q. p_int (e_asyn E) q w' = p_int (e_asyn E) q w) \<and> (\<forall>q. p_dbl (e_asyn E) q w' = p_dbl (e_asyn E) q w) \<and>
    strs ADStatusMessage w' = no_theta_y (m_LensModes d ! nat i)"
proof -
  note laws = asyn_params.param_laws [OF assms(1)]
  show ?thesis
    unfolding writeInt32_cases write_acquisition_mode_def drv_flat
    using assms(2,4-6) unfolding assms(3) by (simp add: drv_runs laws)
qed

lemma writeInt32_mode_rejected_witness:
  "\<exists>w'. writeInt32 (table_env (\<lambda>_. JNull)) AnalyserAcquisitionMode 2
      (sample_clients, (sample_driver, sample_table\<lparr>t_int := (\<lambda>_. 1)\<rparr>)) =
      Some (Ret (), (sample_clients, (sample_driver, w'))) \<and> t_int w' AnalyserAcquisitionMode = 1"
  using writeInt32_mode_rejected [OF table.asyn_params_axioms _ refl, of 2 "\<lambda>_. JNull" "sample_table\<lparr>t_int := (\<lambda>_. 1)\<rparr>"
      sample_driver sample_clients]
  by (auto simp: bit_iff_odd)

text \<open>Whatever is written, the data type stays the 32-bit float and the color mode mono.\<close>

lemma writeInt32_format_locked:
  assumes "asyn_params E strs" and "p = NDDataType \<and> n = e_enum E NDFloat32 \<or> p = NDColorMode \<and> n = e_enum E NDColorModeMono"
  shows "\<exists>w'. writeInt32 E p v (c, (d, w)) = Some (Ret (), (c, (d, w'))) \<and> p_int (e_asyn E) p w' = n \<and>
    (\<forall>q. q \<noteq> p \<longrightarrow> p_int (e_asyn E) q w' = p_int (e_asyn E) q w)"
proof -
  note laws = asyn_params.param_laws [OF assms(1)]
  show ?thesis
    unfolding writeInt32_def drv_flat using assms(2) by (elim disjE conjE) (simp_all add: drv_runs laws)
qed

lemma writeInt32_format_locked_witness:
  "\<exists>w'. writeInt32 (table_env answer) NDDataType 3 (sample_clients, (sample_driver, sample_table)) =
      Some (Ret (), (sample_clients, (sample_driver, w'))) \<and> t_int w' NDDataType = 8"
  using writeInt32_format_locked [OF table.asyn_params_axioms, of NDDataType 8 answer 3 sample_clients sample_driver sample_table]
  by (auto simp: table_enum_def)

lemma vec_nth_Nil: "vec_nth [] i = Undef"
  by (simp add: vec_nth_def)

text \<open>Without a connection, zeroing the supplies uses a null pointer, and an acquisition mode that sweeps ThetaY an
  element of the empty list of lens modes.\<close>

lemma writes_before_connection:
  assumes "asyn_params E strs" and "electronics d = None" "m_LensModes d = []"
    and "p_int (e_asyn E) ADAcquire w \<noteq> e_enum E ADStatusAcquire"
  shows "(\<exists>w'. writeInt32 E ZeroSupplies 1 (c, (d, w)) = Some (Undef, (c, (d, w')))) \<and>
    (bit v 1 \<longrightarrow> (\<exists>w'. writeInt32 E AnalyserAcquisitionMode v (c, (d, w)) = Some (Undef, (c, (d, w')))))"
proof -
  note laws = asyn_params.param_laws [OF assms(1)]
  have "try_catch (bnd (get_drv electronics) (\<lambda>client. case client of
               None \<Rightarrow> undefp
             | Some uri \<Rightarrow> sq (with_client E uri zeroAllSupplies)
                 (sq (setStringParam E ADStatusMessage ''Power supplies reset'') (retp ()))))
            (\<lambda>e. retp ()) (c, (d, w')) = Some (Undef, (c, (d, w')))" for w'
    by (rule try_catch_run_Undef) (simp add: drv_runs assms(2))
  then have "\<exists>w'. writeInt32 E ZeroSupplies 1 (c, (d, w)) = Some (Undef, (c, (d, w')))"
    unfolding writeInt32_cases write_zero_supplies_def
    using assms(4) by (simp add: drv_runs laws prog_runs)
  moreover have "\<exists>w'. writeInt32 E AnalyserAcquisitionMode v (c, (d, w)) = Some (Undef, (c, (d, w')))" if "bit v 1"
    unfolding writeInt32_cases write_acquisition_mode_def drv_flat
    using that by (simp add: drv_runs laws assms(3) vec_nth_Nil)
  ultimately show ?thesis by blast
qed

lemma writes_before_connection_witness:
  "(\<exists>w'. writeInt32 (table_env (\<lambda>_. JNull)) ZeroSupplies 1 (sample_clients, (new_driver [], sample_table)) =
      Some (Undef, (sample_clients, (new_driver [], w')))) \<and>
   (\<exists>w'. writeInt32 (table_env (\<lambda>_. JNull)) AnalyserAcquisitionMode 3 (sample_clients, (new_driver [], sample_table)) =
      Some (Undef, (sample_clients, (new_driver [], w'))))"
  using writes_before_connection [OF table.asyn_params_axioms, of "new_driver []" "\<lambda>_. JNull" sample_table sample_clients 3]
  by (auto simp: new_driver_def table_enum_def bit_iff_odd)

subsection \<open>Floating-point numbers\<close>

text \<open>C23: in a mode that does not sweep an axis, writing an end or the step of the axis is remembered as requested and
  changes no parameter.\<close>

theorem writeFloat64_fixed_mode:
  assumes "asyn_params E strs"
    and "p \<in> {AnalyserHighEnergy, AnalyserLowEnergy, AnalyserEnergyStep} \<and> \<not> bit mode 0 \<or>
      p \<in> {AnalyserHighAngleY, AnalyserLowAngleY, AnalyserAngleYStep} \<and> \<not> bit mode 1"
    and "mode = p_int (e_asyn E) AnalyserAcquisitionMode w"
  shows "\<exists>w' status. writeFloat64 E p v (c, (d, w)) =
      Some (Ret status, (c, (d\<lparr>m_RequestedAxes := (m_RequestedAxes d)(p := v)\<rparr>, w'))) \<and>
    (\<forall>q. p_dbl (e_asyn E) q w' = p_dbl (e_asyn E) q w) \<and> (\<forall>q. p_int (e_asyn E) q w' = p_int (e_asyn E) q w)"
proof -
  note laws = asyn_params.param_laws [OF assms(1)]
  have type: "param_type p = Float64" using assms(2) by auto
  obtain k where k: "writeFloat64 E p v = bnd (getDoubleParam E p) (\<lambda>oldValue. bnd (setDoubleParam E p v) (\<lambda>status.
     bnd (getIntegerParam E AnalyserAcquisitionMode) (\<lambda>mode. bnd (getIntegerParam E EnergyMode) (\<lambda>energyMode.
     sq (write_swept E p v oldValue (bit mode k)) (sq (callParamCallbacks E) (retp status))))))" and "\<not> bit mode k"
  proof (cases "p \<in> {AnalyserHighEnergy, AnalyserLowEnergy, AnalyserEnergyStep}")
    case True
    then show ?thesis by (intro that [of 0]) (use assms(2) in \<open>auto simp: writeFloat64_def sq_assoc\<close>)
  next
    case False
    with assms(2) show ?thesis by (intro that [of 1]) (auto simp: writeFloat64_def sq_assoc)
  qed
  then show ?thesis
    unfolding k write_swept_def request_axis_def drv_flat assms(3)
    by (simp add: drv_runs laws type fun_upd_idem)
qed

lemma writeFloat64_fixed_mode_witness:
  "\<exists>w' status. writeFloat64 (table_env (\<lambda>_. JNull)) AnalyserHighEnergy (Fin 7) (sample_clients, (sample_driver, sample_table)) =
      Some (Ret status, (sample_clients, (sample_driver\<lparr>m_RequestedAxes := (\<lambda>_. Fin 0)(AnalyserHighEnergy := Fin 7)\<rparr>, w'))) \<and>
    t_dbl w' AnalyserHighEnergy = Fin 0"
  using writeFloat64_fixed_mode [OF table.asyn_params_axioms _ refl, of AnalyserHighEnergy "\<lambda>_. JNull" sample_table "Fin 7"
      sample_clients sample_driver]
  by auto

text \<open>C22: in a mode that sweeps the energy, writing the center moves both ends: the width of the range is kept and its
  middle is the new center.\<close>

theorem writeFloat64_center:
  assumes "asyn_params E strs" and "bit (p_int (e_asyn E) AnalyserAcquisitionMode w) 0"
    and "m_RequestedAxes d AnalyserHighEnergy = Fin h" "m_RequestedAxes d AnalyserLowEnergy = Fin l"
    and "representable (h - l)" "representable (\<bar>h - l\<bar> / 2)" "representable (x - \<bar>h - l\<bar> / 2)" "representable (x + \<bar>h - l\<bar> / 2)"
  shows "\<exists>w' axes status. writeFloat64 E AnalyserCenterEnergy (Fin x) (c, (d, w)) =
      sq (setupSpectrumDefinition E) (sq (callParamCallbacks E) (retp status)) (c, (d\<lparr>m_RequestedAxes := axes\<rparr>, w')) \<and>
    axes AnalyserCenterEnergy = Fin x \<and> axes AnalyserLowEnergy = Fin (x - \<bar>h - l\<bar> / 2) \<and>
    axes AnalyserHighEnergy = Fin (x + \<bar>h - l\<bar> / 2) \<and>
    (\<forall>q. q \<notin> {AnalyserCenterEnergy, AnalyserLowEnergy, AnalyserHighEnergy} \<longrightarrow> axes q = m_RequestedAxes d q)"
proof -
  note laws = asyn_params.param_laws [OF assms(1)]
  have width: "\<bar>Fin h - Fin l\<bar> = Fin \<bar>h - l\<bar>" using assms(5) by (simp add: minus_Fin) (auto simp: dbl_ops)
  have half: "Fin \<bar>h - l\<bar> / Fin 2 = Fin (\<bar>h - l\<bar> / 2)"
    using assms(6) by (cases "h = l") (simp_all add: divide_Fin, simp add: dbl_ops ddiv_def rnd_def)
  have run: "writeFloat64 E AnalyserCenterEnergy v = bnd (getDoubleParam E AnalyserCenterEnergy) (\<lambda>oldValue.
     bnd (setDoubleParam E AnalyserCenterEnergy v) (\<lambda>status.
     bnd (getIntegerParam E AnalyserAcquisitionMode) (\<lambda>mode. bnd (getIntegerParam E EnergyMode) (\<lambda>energyMode.
     sq (write_center E AnalyserCenterEnergy AnalyserLowEnergy AnalyserHighEnergy v (bit mode 0))
     (sq (callParamCallbacks E) (retp status))))))" for v
    by (simp add: writeFloat64_def sq_assoc)
  show ?thesis
    unfolding run write_center_def request_axis_def sq_assoc
    by (simp add: drv_runs laws assms(2))
      (intro exI conjI, rule refl, simp_all add: move_ends_def Let_def assms(3,4) width half minus_Fin plus_Fin assms(7,8))
qed

lemma writeFloat64_center_witness:
  "\<exists>w' axes status. writeFloat64 (table_env (\<lambda>_. JNull)) AnalyserCenterEnergy (Fin 10)
      (sample_clients, (sample_driver\<lparr>m_RequestedAxes := (\<lambda>p. if p = AnalyserHighEnergy then Fin 6 else Fin 2)\<rparr>,
        sample_table\<lparr>t_int := (\<lambda>_. 1)\<rparr>)) =
      sq (setupSpectrumDefinition (table_env (\<lambda>_. JNull))) (sq (callParamCallbacks (table_env (\<lambda>_. JNull))) (retp status))
        (sample_clients, (sample_driver\<lparr>m_RequestedAxes := axes\<rparr>, w')) \<and>
    axes AnalyserLowEnergy = Fin 8 \<and> axes AnalyserHighEnergy = Fin 12"
  using writeFloat64_center [OF table.asyn_params_axioms, of "\<lambda>_. JNull" "sample_table\<lparr>t_int := (\<lambda>_. 1)\<rparr>"
      "sample_driver\<lparr>m_RequestedAxes := (\<lambda>p. if p = AnalyserHighEnergy then Fin 6 else Fin 2)\<rparr>" 6 2 10 sample_clients]
    representable_of_int [of 4] representable_of_int [of 2] representable_of_int [of 8] representable_of_int [of 12]
  by auto

end
