(* ===== verification/DriverInvariant.thy ===== *)
theory DriverInvariant
  imports DriverWrite
begin

text \<open>
  What the steps of the driver keep of its members: one closure rule for each step, collected in
  \<open>keeps_intros\<close>; what the clients and the other threads do meanwhile is assumed to keep it too.
\<close>

text \<open>The calls of the clients and the signals keep a predicate on the members.\<close>

definition calm :: "'s env \<Rightarrow> (driver \<Rightarrow> bool) \<Rightarrow> bool" where
  "calm E P \<longleftrightarrow> (\<forall>u m j. keeps (\<lambda>s. P (fst s)) (rpc_call (e_rpc E u) m j)) \<and>
     (\<forall>ev. keeps (\<lambda>s. P (fst s)) (e_signal E ev))"

lemma keeps_reads [keeps_intros]:
  "keeps (\<lambda>s. P (drv s)) (getIntegerParam E p)" "keeps (\<lambda>s. P (drv s)) (getDoubleParam E p)"
  "keeps (\<lambda>s. P (drv s)) (get_drv f)" "keeps (\<lambda>s. P (drv s)) (read_spectrum_params E)"
  by (simp_all add: keeps_def getIntegerParam_def getDoubleParam_def get_drv_def read_spectrum_params_def)

lemma keeps_sets [keeps_intros]:
  "keeps (\<lambda>s. P (drv s)) (setIntegerParam E p v)" "keeps (\<lambda>s. P (drv s)) (setDoubleParam E p x)"
  "keeps (\<lambda>s. P (drv s)) (setStringParam E p t)" "keeps (\<lambda>s. P (drv s)) (callParamCallbacks E)"
  by (auto simp: keeps_def setIntegerParam_def setDoubleParam_def setStringParam_def callParamCallbacks_def asyn_op_run)

lemma keeps_upd_drv: "(\<And>d. P d \<Longrightarrow> P (f d)) \<Longrightarrow> keeps (\<lambda>s. P (drv s)) (upd_drv f)"
  by (simp add: keeps_def drv_runs)

lemma keeps_netp_drv: "keeps (\<lambda>s. P (fst s)) m \<Longrightarrow> keeps (\<lambda>s. P (drv s)) (netp m)"
  by (auto simp: keeps_def netp_def zoom_def bind_eq_Some_conv drv_def)

lemma keeps_envp [keeps_intros]: "keeps (\<lambda>s. P (drv s)) (envp m)"
  by (auto simp: keeps_def envp_def netp_def zoom_def bind_eq_Some_conv drv_def)

lemma keeps_send_signal [keeps_intros]: "calm E P \<Longrightarrow> keeps (\<lambda>s. P (drv s)) (send_signal E ev)"
  by (simp add: send_signal_def keeps_netp_drv calm_def)

lemma keeps_api_call [keeps_intros]: "calm E P \<Longrightarrow> keeps (\<lambda>s. P (drv s)) (api_call (e_rpc E u) m args)"
  by (simp add: api_call_def keeps_netp_drv calm_def)

lemma keeps_with_analyser [keeps_intros]:
  "(\<And>u. keeps (\<lambda>s. P (drv s)) (m (e_rpc E u))) \<Longrightarrow> keeps (\<lambda>s. P (drv s)) (with_analyser E m)"
  unfolding with_analyser_def by (intro keeps_intros)

lemma keeps_with_client [keeps_intros]:
  assumes "\<And>u. keeps (\<lambda>s. P (drv s)) (m (e_rpc E u))"
  shows "keeps (\<lambda>s. P (drv s)) (with_client E uri m)"
  using keepsD [OF assms [of uri]] by (fastforce simp: keeps_def with_client_def bind_eq_Some_conv drv_def)

lemma jset_ok: "json_ok j \<Longrightarrow> json_ok v \<Longrightarrow> jset k v j = Ret j' \<Longrightarrow> object_or_null j'"
  by (metis jset_Ret_iff jset_entries object_or_null_def outcome.inject)

lemma jupd_ok:
  assumes "json_ok j" and "jupd k f j = Ret j'" and "\<And>x y. json_ok x \<Longrightarrow> f x = Ret y \<Longrightarrow> json_ok y"
  shows "object_or_null j'"
proof -
  from assms(2) obtain t where t: "jtouch k j = Ret t" by (auto simp: jupd_def obind_eq_Ret)
  from jtouch_Ret [OF t assms(1)] obtain m where m: "t = JObj m" "json_ok t" "map_of m k \<noteq> None" by metis
  then obtain v where v: "map_of m k = Some v" by blast
  then have "json_ok (snd (k, v))" using m(1,2) map_of_SomeD [OF v] unfolding m(1) json_ok.simps(2) list_all_iff by blast
  moreover from assms(2) t m(1) v obtain y where y: "f v = Ret y" "j' = JObj (smap_put k y m)"
    by (auto simp: jupd_def obind_eq_Ret)
  ultimately have "json_ok y" using assms(3) by simp
  then show ?thesis using json_ok_put m(1,2) y(2) by (auto simp: object_or_null_def)
qed

text \<open>A predicate that survives a change of the definition into an object or null.\<close>

definition redefinable :: "('s drv_state \<Rightarrow> bool) \<Rightarrow> bool" where
  "redefinable P \<longleftrightarrow> (\<forall>c d w j. P (c, (d, w)) \<longrightarrow>
     (object_or_null (m_SpectrumDefinition d) \<longrightarrow> object_or_null j) \<longrightarrow> P (c, (d\<lparr>m_SpectrumDefinition := j\<rparr>, w)))"

lemma keeps_redefine:
  assumes "redefinable P" and "\<And>j j'. object_or_null j \<Longrightarrow> f j = Ret j' \<Longrightarrow> object_or_null j'"
  shows "keeps P (bnd (get_drv m_SpectrumDefinition) (\<lambda>j.
     bnd (liftp (f j)) (\<lambda>j'. upd_drv (\<lambda>d. d\<lparr>m_SpectrumDefinition := j'\<rparr>))))" (is "keeps _ ?m")
proof -
  have "P s'" if s: "P s" "?m s = Some (r, s')" for s r s'
  proof (cases "f (m_SpectrumDefinition (drv s))")
    case (Ret j')
    obtain c d w where s_eq: "s = (c, (d, w))" by (cases s)
    have "object_or_null (m_SpectrumDefinition d) \<longrightarrow> object_or_null j'"
      using Ret assms(2) by (simp add: s_eq drv_def)
    then have "P (c, (d\<lparr>m_SpectrumDefinition := j'\<rparr>, w))"
      using assms(1) s(1) unfolding s_eq redefinable_def by blast
    with Ret s(2) show ?thesis by (simp add: s_eq drv_runs)
  qed (use s in \<open>simp_all add: drv_runs\<close>)
  then show ?thesis by (auto simp: keeps_def)
qed

lemma keeps_put_definition: "redefinable P \<Longrightarrow> json_ok v \<Longrightarrow> keeps P (put_definition k v)"
  unfolding put_definition_def by (rule keeps_redefine) (auto dest: jset_ok simp: object_or_null_def)

lemma keeps_put_axis: "redefinable P \<Longrightarrow> json_ok v \<Longrightarrow> keeps P (put_axis k ax v)"
  unfolding put_axis_def
  by (rule keeps_redefine, assumption, rule jupd_ok) (auto simp: object_or_null_def dest: jset_ok)

lemma keeps_setRegion [keeps_intros]: "keeps (\<lambda>s. P (drv s)) (setRegion E channel)"
  unfolding setRegion_def set_energy_axis_def set_slice_axis_def set_angle_axis_def axis_double_def axis_int_def Let_def
  by (intro keeps_intros)

lemma keeps_show_modes [keeps_intros]: "keeps (\<lambda>s. P (drv s)) (show_modes E d p)"
  unfolding show_modes_def setPassEnergy_def by (intro keeps_intros)

lemma keeps_requested_energies [keeps_intros]: "keeps (\<lambda>s. P (drv s)) (requested_energies E)"
  unfolding requested_energies_def Let_def by (intro keeps_intros)

lemma keeps_liftp_bnd: "(\<And>a. r = Ret a \<Longrightarrow> keeps P (f a)) \<Longrightarrow> keeps P (bnd (liftp r) f)"
  by (cases r) (auto intro: keeps_intros)

lemma keeps_fill:
  assumes "redefinable P"
  shows "keeps P (fill_modes d p e t)" "keeps P (fill_areas d p)" "keeps P (fill_axes d p energies angles)"
proof -
  note put = keeps_put_definition [OF assms(1)] keeps_put_axis [OF assms(1)]
  show "keeps P (fill_modes d p e t)"
    unfolding fill_modes_def by (intro keeps_intros put) (simp_all add: smap_ok_def)
  show "keeps P (fill_areas d p)"
    unfolding fill_areas_def
    by (intro keeps_sq keeps_prod keeps_liftp_bnd put) (simp_all add: json_ok_jobject json_ok_detector_area)
  show "keeps P (fill_axes d p energies angles)"
    unfolding fill_axes_def by (intro keeps_sq keeps_prod keeps_if put) simp_all
qed

lemma table_env_calm: "calm (table_env answer) P"
  by (auto simp: calm_def table_rpc_def intro: keeps_intros)

end
