(* ===== verification/DriverConnect.thy ===== *)
theory DriverConnect
  imports DriverInvariant "HOL-Library.Multiset"
begin

text \<open>
  The connection to the PEAK servers and the construction of the driver: \<open>connectAnalyser\<close>, the
  constructor of \<open>peakAnalyser\<close> and the configuration command of \<open>peakAnalyser.cpp\<close>.

  A JSON value that is only read, with \<open>operator[]\<close> on a variable, is read with \<open>jidx\<close>; the null
  entries this adds to a local value are not seen by anything else.  The construction of a client is
  the operation \<open>e_create\<close> of the surroundings; its destruction only ends its connection and is not
  modelled.
\<close>

section \<open>Clients\<close>

text \<open>Construct a client: its address, with the path, names it from then on.\<close>

definition new_client :: "'s env \<Rightarrow> string \<Rightarrow> ('s, string) drv_prog" where
  "new_client E uri = (case PeakAPI uri of (api, transport) \<Rightarrow>
     sq (netp (e_create E (api_uri api) transport)) (retp (api_uri api)))"

text \<open>The pointer to the analyser client gets a new client, without subscriptions.\<close>

definition reset_analyser :: "'s env \<Rightarrow> string \<Rightarrow> ('s, unit) drv_prog" where
  "reset_analyser E address =
     bnd (new_client E address) (\<lambda>uri.
     modp (\<lambda>s. ((fst (PeakAPI address), snd (fst s)), ((drv s)\<lparr>analyser := Some uri\<rparr>, world s))))"

definition reset_electronics :: "'s env \<Rightarrow> string \<Rightarrow> ('s, unit) drv_prog" where
  "reset_electronics E address =
     bnd (new_client E address) (\<lambda>uri. upd_drv (\<lambda>d. d\<lparr>electronics := Some uri\<rparr>))"

section \<open>Release and addresses of the servers\<close>

text \<open>The conversion \<open>%d\<close> of \<open>sscanf\<close>, with the rest of the text.\<close>

definition scanf_number :: "string \<Rightarrow> (int \<times> string) option outcome" where
  "scanf_number s =
     obind (scan_int s) (\<lambda>v.
     Ret (map_option (\<lambda>n. (n, dropWhile is_digit (snd (split_sign (dropWhile is_space s))))) v))"

text \<open>\<open>sscanf (release, "PEAK-%d.%d", &major, &minor)\<close>; a number that is not there stays zero.\<close>

definition scan_release :: "string \<Rightarrow> (int \<times> int) outcome" where
  "scan_release release =
     (let s = c_str release in
      if take 5 s \<noteq> ''PEAK-'' then Ret (0, 0)
      else obind (scanf_number (drop 5 s)) (\<lambda>major. case major of
          None \<Rightarrow> Ret (0, 0)
        | Some (m, rest) \<Rightarrow>
            if take 1 rest \<noteq> ''.'' then Ret (m, 0)
            else obind (scanf_number (drop 1 rest)) (\<lambda>minor. case minor of
                None \<Rightarrow> Ret (m, 0)
              | Some (n, _) \<Rightarrow> Ret (m, n))))"

definition PEAK_RELEASE :: "int \<Rightarrow> int \<Rightarrow> int outcome" where
  "PEAK_RELEASE major minor = obind (c_mul major 10000) (\<lambda>x. c_add x minor)"

definition read_release :: "'s env \<Rightarrow> string \<Rightarrow> ('s, unit) drv_prog" where
  "read_release E manager =
     bnd (with_client E manager (\<lambda>R. api_query R ''ServerInfo''
       (jobject [(''Version'', no_filter), (''ReleaseVersion'', no_filter)]))) (\<lambda>serverInfo.
     bnd (liftp (obind (jidx ''ReleaseVersion'' serverInfo) jstring)) (\<lambda>release_str.
     bnd (liftp (scan_release release_str)) (\<lambda>(major, minor).
     bnd (liftp (PEAK_RELEASE major minor)) (\<lambda>release.
     sq (upd_drv (\<lambda>d. d\<lparr>m_PeakRelease := Some release\<rparr>))
     (sq (setStringParam E ADSDKVersion release_str)
     (bnd (liftp (obind (jidx ''Version'' serverInfo) jstring)) (\<lambda>version.
     sq (setStringParam E ADFirmwareVersion version) (retp ()))))))))"

definition local_host :: "string \<Rightarrow> bool" where
  "local_host managerHost \<longleftrightarrow> str_find ''127.0.0.1'' managerHost \<noteq> None \<or> str_find ''localhost'' managerHost \<noteq> None"

text \<open>The addresses of the analyser, the electronics and the camera in the list of the servers.\<close>

type_synonym addresses = "string \<times> string \<times> string"

primrec server_addresses :: "json list \<Rightarrow> addresses \<Rightarrow> addresses outcome" where
  "server_addresses [] found = Ret found"
| "server_addresses (el # els) found = (case found of (an, ele, cam) \<Rightarrow>
     obind (jidx ''Name'' el) (\<lambda>name.
     obind (if name = JStr ''Analyser'' then
              obind (obind (jidx ''Address'' el) jstring) (\<lambda>a. Ret (a, ele, cam))
            else if name = JStr ''Electronics'' then
              obind (obind (jidx ''Address'' el) jstring) (\<lambda>a. Ret (an, a, cam))
            else if name = JStr ''Camera'' then
              obind (obind (jidx ''Address'' el) jstring) (\<lambda>a. Ret (an, ele, a))
            else Ret found) (server_addresses els)))"

text \<open>The proxy of the manager is used for a manager on another host from release 1.3 on.\<close>

definition find_servers :: "'s env \<Rightarrow> string \<Rightarrow> ('s, addresses) drv_prog" where
  "find_servers E manager =
     bnd (get_drv m_ManagerHost) (\<lambda>managerHost.
     bnd (if local_host managerHost then retp False
          else bnd (get_drv m_PeakRelease) (\<lambda>release. case release of
              None \<Rightarrow> undefp
            | Some r \<Rightarrow> bnd (liftp (PEAK_RELEASE 1 3)) (\<lambda>first. retp (r \<ge> first)))) (\<lambda>proxy.
     if proxy then
       sq (upd_drv (\<lambda>d. d\<lparr>m_UseProxy := Some True\<rparr>))
       (retp (managerHost @ ''/proxy/Analyser'', managerHost @ ''/proxy/Electronics'', managerHost @ ''/proxy/Camera''))
     else
       bnd (with_client E manager runningServers) (\<lambda>servers.
       liftp (server_addresses (jelems servers) ([], [], [])))))"

text \<open>Connect the electronics and the analyser; the result is the address of the camera.\<close>

definition connect_servers :: "'s env \<Rightarrow> addresses \<Rightarrow> ('s, string) drv_prog" where
  "connect_servers E found = (case found of (analyserAddress, electronicsAddress, cameraAddress) \<Rightarrow>
     if electronicsAddress = [] \<or> analyserAddress = [] \<or> cameraAddress = [] then
       throwp (Runtime_error ''Instrument servers not running'')
     else
       sq (reset_electronics E electronicsAddress)
       (sq (reset_analyser E analyserAddress)
       (sq (try_catch (with_analyser E unsubscribeAll) (\<lambda>e. retp ()))
       (retp cameraAddress))))"

section \<open>The configuration of the analyser\<close>

definition query_configuration :: "'s env \<Rightarrow> ('s, json) drv_prog" where
  "query_configuration E = with_analyser E (\<lambda>R. api_query R ''Configuration'' (jobject
     [(''Name'', no_filter),
      (''Model'', no_filter),
      (''SerialNumber'', no_filter),
      (''OpticsLensModes'', jobject [(''{}'', jobject [(''Name'', no_filter), (''Enabled'', no_filter)])]),
      (''Calibration'', jobject [(''CalibratedPassEnergies'', no_filter)])]))"

definition read_pass_energies :: "json \<Rightarrow> ('s, unit) drv_prog" where
  "read_pass_energies configuration =
     bnd (liftp (obind (obind (jidx ''Calibration'' configuration) (jidx ''CalibratedPassEnergies'')) jdoubles))
       (\<lambda>energies. upd_drv (\<lambda>d. d\<lparr>m_PassEnergies := energies\<rparr>))"

text \<open>The smallest and the largest value of a parameter, read from a constant value.\<close>

definition value_range :: "json \<Rightarrow> (dbl \<times> dbl) outcome" where
  "value_range limit =
     obind (obind (jat ''MinimumValue'' limit) jdouble) (\<lambda>low.
     obind (obind (jat ''MaximumValue'' limit) jdouble) (\<lambda>high. Ret (low, high)))"

definition deflection_range :: "json \<Rightarrow> (dbl \<times> dbl) option outcome" where
  "deflection_range limit =
     (if is_object limit then obind (value_range limit) (\<lambda>r. Ret (Some r)) else Ret None)"

definition lens_mode_of :: "string \<Rightarrow> json \<Rightarrow> lens_mode_setting outcome" where
  "lens_mode_of name limits =
     obind (obind (jidx ''AllDomainParameters'' limits) (jidx ''PassEnergy'')) (\<lambda>passEnergy.
     obind (value_range passEnergy) (\<lambda>energies.
     obind (obind (jidx ''AllDomainParameters'' limits) (jidx ''LensThetaX'')) (\<lambda>xDeflection.
     obind (deflection_range xDeflection) (\<lambda>xs.
     obind (obind (jidx ''AllDomainParameters'' limits) (jidx ''LensThetaY'')) (\<lambda>yDeflection.
     obind (deflection_range yDeflection) (\<lambda>ys.
     Ret \<lparr>lm_name = name, hasXDeflection = is_object xDeflection, hasYDeflection = is_object yDeflection,
          xDeflectionRange = xs, yDeflectionRange = ys, passEnergyRange = energies\<rparr>))))))"

definition lens_enabled :: "json \<Rightarrow> bool outcome" where
  "lens_enabled lensMode =
     obind (jidx ''Enabled'' lensMode) (\<lambda>enabled. if is_boolean enabled then jbool enabled else Ret False)"

definition add_lens_mode :: "'s env \<Rightarrow> json \<Rightarrow> ('s, unit) drv_prog" where
  "add_lens_mode E lensMode =
     bnd (liftp (lens_enabled lensMode)) (\<lambda>enabled.
     if \<not> enabled then retp ()
     else
       bnd (liftp (obind (jidx ''Name'' lensMode) jstring)) (\<lambda>name.
       bnd (with_analyser E (\<lambda>R. api_call R ''GetLensModeLimits'' [JStr name, JInt 1])) (\<lambda>limits.
       bnd (liftp (lens_mode_of name limits)) (\<lambda>s.
       upd_drv (\<lambda>d. d\<lparr>m_LensModes := m_LensModes d @ [s]\<rparr>)))))"

text \<open>The order of modes with equal names is that of the server.\<close>

definition read_lens_modes :: "'s env \<Rightarrow> json \<Rightarrow> ('s, unit) drv_prog" where
  "read_lens_modes E configuration =
     sq (upd_drv (\<lambda>d. d\<lparr>m_LensModes := []\<rparr>))
     (bnd (liftp (jidx ''OpticsLensModes'' configuration)) (\<lambda>modes.
     sq (forp (add_lens_mode E) (jelems modes))
     (upd_drv (\<lambda>d. d\<lparr>m_LensModes := sort_key lm_name (m_LensModes d)\<rparr>))))"

definition add_detector_mode :: "json \<Rightarrow> ('s, unit) drv_prog" where
  "add_detector_mode mode =
     bnd (liftp (obind (jidx ''name'' mode) jstring)) (\<lambda>name.
     upd_drv (\<lambda>d. d\<lparr>m_DetectorModes := m_DetectorModes d @ [name]\<rparr>))"

text \<open>The values of the first type with the name \<open>AcquisitionMode\<close>.\<close>

primrec add_detector_modes :: "json list \<Rightarrow> ('s, unit) drv_prog" where
  "add_detector_modes [] = retp ()"
| "add_detector_modes (type # types) =
     bnd (liftp (jidx ''name'' type)) (\<lambda>name.
     if name = JStr ''AcquisitionMode'' then
       bnd (liftp (jidx ''enum_values'' type)) (\<lambda>values. forp add_detector_mode (jelems values))
     else add_detector_modes types)"

definition read_detector_modes :: "'s env \<Rightarrow> ('s, unit) drv_prog" where
  "read_detector_modes E =
     bnd (with_analyser E (\<lambda>R. api_call R ''ApiTypes'' [])) (\<lambda>r.
     bnd (liftp (jidx ''types'' r)) (\<lambda>types.
     sq (upd_drv (\<lambda>d. d\<lparr>m_DetectorModes := []\<rparr>))
     (add_detector_modes (jelems types))))"

section \<open>The current settings\<close>

definition show_configuration :: "'s env \<Rightarrow> json \<Rightarrow> ('s, unit) drv_prog" where
  "show_configuration E configuration =
     bnd (liftp (obind (jidx ''Model'' configuration) jstring)) (\<lambda>model.
     sq (setStringParam E ADModel model)
     (bnd (liftp (obind (jidx ''SerialNumber'' configuration) jstring)) (\<lambda>serialNumber.
     sq (setStringParam E ADSerialNumber serialNumber)
     (bnd (liftp (obind (jidx ''Name'' configuration) jstring)) (\<lambda>name.
     setElementSet E name)))))"

definition show_settings :: "'s env \<Rightarrow> json \<Rightarrow> ('s, unit) drv_prog" where
  "show_settings E settings =
     bnd (liftp (obind (jidx ''DwellTime'' settings) jdouble)) (\<lambda>dwellTime.
     sq (setDoubleParam E ADAcquireTime dwellTime)
     (bnd (liftp (obind (jidx ''KineticEnergy'' settings) jdouble)) (\<lambda>kineticEnergy.
     sq (setDoubleParam E AnalyserCenterEnergy kineticEnergy)
     (bnd (liftp (obind (jidx ''PassEnergy'' settings) jdouble)) (\<lambda>passEnergy.
     sq (setPassEnergy E passEnergy)
     (bnd (liftp (obind (jidx ''LensModeName'' settings) jstring)) (\<lambda>lensMode.
     sq (setLensMode E lensMode)
     (bnd (liftp (obind (jidx ''AcquisitionMode'' settings) jstring)) (\<lambda>mode.
     setDetectorMode E mode)))))))))"

definition initial_definition :: "json \<Rightarrow> json \<Rightarrow> json outcome" where
  "initial_definition configuration settings =
     obind (jidx ''Name'' configuration) (\<lambda>elementSet.
     obind (jidx ''LensModeName'' settings) (\<lambda>lensMode.
     obind (jidx ''PassEnergy'' settings) (\<lambda>passEnergy.
     obind (jidx ''DwellTime'' settings) (\<lambda>dwellTime.
     Ret (jobject
       [(''Name'', JStr ''Acquisition''),
        (''ElementSetName'', elementSet),
        (''LensModeName'', lensMode),
        (''Detectors'', JArr [JStr ''Camera'']),
        (''FixedAxes'', jobject [(''X'', JObj [])]),
        (''SweepAxes'', JObj []),
        (''PassEnergy'', passEnergy),
        (''DwellTime'', dwellTime),
        (''StoreSpectrum'', JBool False),
        (''StoreAcquisitionData'', JBool False),
        (''UseRegionDelay'', JBool False)])))))"

text \<open>The size of the camera in pixels and millimetres.\<close>

definition read_channel :: "'s env \<Rightarrow> json \<Rightarrow> ('s, unit) drv_prog" where
  "read_channel E el =
     bnd (liftp (obind (obind (jidx ''ChannelArea'' el) (jidx ''Width'')) jint)) (\<lambda>sizeX.
     bnd (liftp (obind (obind (jidx ''ChannelArea'' el) (jidx ''Height'')) jint)) (\<lambda>sizeY.
     bnd (liftp (obind (obind (jidx ''DetectorArea'' el) (jidx ''Width'')) jdouble)) (\<lambda>physicalSizeX.
     sq (setIntegerParam E ADMaxSizeX sizeX)
     (sq (setIntegerParam E ADMaxSizeY sizeY)
     (sq (upd_drv (\<lambda>d. d\<lparr>m_PixelDensity := Some (dbl_of_int sizeX / physicalSizeX)\<rparr>))
     (bnd (liftp (obind (jidx ''ChannelArea'' el) jdouble_map)) (\<lambda>channelArea.
     sq (upd_drv (\<lambda>d. d\<lparr>m_ChannelArea := channelArea\<rparr>))
     (bnd (liftp (obind (jidx ''DetectorArea'' el) jdouble_map)) (\<lambda>detectorArea.
     upd_drv (\<lambda>d. d\<lparr>m_DetectorArea := detectorArea\<rparr>))))))))))"

definition read_channels :: "'s env \<Rightarrow> ('s, unit) drv_prog" where
  "read_channels E =
     bnd (get_drv m_SpectrumDefinition) (\<lambda>spectrumDefinition.
     bnd (with_analyser E (\<lambda>R. calculateSpectrumInfo R spectrumDefinition)) (\<lambda>spectrumInfo.
     bnd (liftp (jidx ''AnalyserSpectrumChannelSettings'' spectrumInfo)) (\<lambda>channels.
     forp (read_channel E) (jelems channels))))"

definition add_slit :: "json \<Rightarrow> ('s, unit) drv_prog" where
  "add_slit slit =
     bnd (liftp (obind (jidx ''Name'' slit) jstring)) (\<lambda>name.
     upd_drv (\<lambda>d. d\<lparr>m_Slits := m_Slits d @ [name]\<rparr>))"

definition read_slits :: "'s env \<Rightarrow> ('s, unit) drv_prog" where
  "read_slits E =
     bnd (with_analyser E (\<lambda>R. api_query R ''SharedConfiguration''
       (jobject [(''SlitConfigurationPresets'', jobject [(''{}'', jobject [(''Name'', no_filter)])])])))
       (\<lambda>analyserServerSettings.
     sq (upd_drv (\<lambda>d. d\<lparr>m_Slits := []\<rparr>))
     (bnd (liftp (jidx ''SlitConfigurationPresets'' analyserServerSettings)) (\<lambda>slits.
     sq (forp add_slit (jelems slits))
     (sq (upd_drv (\<lambda>d. d\<lparr>m_Slits := sort (m_Slits d)\<rparr>))
     (bnd (with_analyser E (\<lambda>R. api_query R ''CurrentSlit'' (jobject [(''Name'', no_filter)]))) (\<lambda>currentSlit.
     bnd (liftp (obind (jidx ''Name'' currentSlit) jstring)) (\<lambda>name.
     setSlit E name)))))))"

text \<open>The region of interest of the camera.\<close>

definition read_camera :: "'s env \<Rightarrow> string \<Rightarrow> ('s, unit) drv_prog" where
  "read_camera E cameraAddress =
     bnd (new_client E cameraAddress) (\<lambda>camera.
     bnd (with_client E camera geometry) (\<lambda>calibration.
     bnd (liftp (obind (jidx ''RoiOffsetX'' calibration) jint)) (\<lambda>minX.
     bnd (liftp (obind (jidx ''RoiOffsetY'' calibration) jint)) (\<lambda>minY.
     bnd (liftp (obind (jidx ''RoiWidth'' calibration) jint)) (\<lambda>sizeX.
     bnd (liftp (obind (jidx ''RoiHeight'' calibration) jint)) (\<lambda>sizeY.
     sq (setIntegerParam E ADMinX minX)
     (sq (setIntegerParam E ADMinY minY)
     (sq (setIntegerParam E ADSizeX sizeX)
     (sq (setIntegerParam E ADSizeY sizeY)
     (sq (setIntegerParam E DetectorChannels sizeX)
     (sq (setIntegerParam E DetectorSlices sizeY) (retp ()))))))))))))"

section \<open>The connection\<close>

definition connectAnalyser :: "'s env \<Rightarrow> ('s, unit) drv_prog" where
  "connectAnalyser E =
     bnd (get_drv m_ManagerHost) (\<lambda>managerHost.
     bnd (new_client E managerHost) (\<lambda>manager.
     sq (read_release E manager)
     (bnd (find_servers E manager) (\<lambda>found.
     bnd (connect_servers E found) (\<lambda>cameraAddress.
     bnd (with_analyser E configurations) (\<lambda>elementSets.
     sq (upd_drv (\<lambda>d. d\<lparr>m_Elementsets := elementSets\<rparr>))
     (bnd (query_configuration E) (\<lambda>configuration.
     sq (read_pass_energies configuration)
     (sq (read_lens_modes E configuration)
     (sq (read_detector_modes E)
     (sq (show_configuration E configuration)
     (bnd (with_analyser E currentSettings) (\<lambda>settings.
     sq (show_settings E settings)
     (bnd (liftp (initial_definition configuration settings)) (\<lambda>spectrumDefinition.
     sq (upd_drv (\<lambda>d. d\<lparr>m_SpectrumDefinition := spectrumDefinition\<rparr>))
     (sq (read_channels E)
     (sq (read_slits E)
     (sq (read_camera E cameraAddress)
     (setupSpectrumDefinition E)))))))))))))))))))"

section \<open>Construction\<close>

text \<open>The parameters of the class in the order of their declaration.\<close>

definition member_params :: "param list" where
  "member_params =
    [ElementSet, ElementSetStr, LensMode, LensModeStr, DetectorMode, DetectorModeStr, PassEnergy, PassEnergyValue,
     EnergyMode, EnergyModeStr, Slit, AnalyserAcquisitionMode, AnalyserHighEnergy, AnalyserLowEnergy,
     AnalyserCenterEnergy, AnalyserEnergyStep, AnalyserEnergyCount, AnalyserWithSlice, AnalyserHighSlice,
     AnalyserLowSlice, AnalyserCenterSlice, AnalyserSliceStep, AnalyserSliceCount, AnalyserWithAngleY,
     AnalyserHighAngleY, AnalyserLowAngleY, AnalyserCenterAngleY, AnalyserAngleYStep, AnalyserAngleYCount,
     ExcitationEnergy, WorkFunction, FocalPositionX, FocalPositionY, FocalPositionZ, DetectorChannels,
     DetectorSlices, AcqETA, AcqETAStr, AcqNumSteps, AcqNumStepsCounter, AcqProgress, AcqSpectrum,
     AcqEnergyScale, AcqSliceScale, ZeroSupplies]"

definition NUM_PEAKANALYSER_PARAMS :: int where
  "NUM_PEAKANALYSER_PARAMS = int (length member_params)"

text \<open>\<open>e_disconnect\<close> also marks the device as not reachable, where the base class can.\<close>

definition connect_or_disconnect :: "'s env \<Rightarrow> ('s, unit) drv_prog" where
  "connect_or_disconnect E =
     try_catch (connectAnalyser E) (\<lambda>e.
       sq (netp (e_disconnect E))
       (sq (setIntegerParam E ADStatus (e_enum E ADStatusDisconnected))
       (sq (setStringParam E ADStatusMessage ''No connection to PEAK server'') (retp ()))))"

text \<open>The constructor; whether the threads could be created is only logged.\<close>

definition peakAnalyser :: "'s env \<Rightarrow> string \<Rightarrow> string \<Rightarrow> int \<Rightarrow> int \<Rightarrow> int \<Rightarrow> int \<Rightarrow> ('s, unit) drv_prog" where
  "peakAnalyser E portName hostAddress maxBuffers maxMemory priority stackSize =
     sq (envp (e_base_new E portName 2 NUM_PEAKANALYSER_PARAMS maxBuffers maxMemory priority stackSize))
     (sq (upd_drv (\<lambda>_. new_driver (c_str hostAddress)))
     (sq (forp (\<lambda>(name, type, p). envp (e_create_param E name type p)) own_params)
     (sq (setStringParam E NDDriverVersion ''3.0.0'')
     (sq (setStringParam E ADManufacturer ''Scienta Omicron'')
     (sq (setIntegerParam E NDDataType (e_enum E NDFloat32))
     (sq (setIntegerParam E NDColorMode (e_enum E NDColorModeMono))
     (sq (connect_or_disconnect E)
     (sq (envp (e_event_create E StartEvent))
     (sq (envp (e_event_create E StopEvent))
     (sq (envp (e_event_create E SpectrumEvent))
     (sq (envp (e_thread E ''PeakAnalyserAcquisitionTask''))
     (sq (envp (e_thread E ''PeakAnalyserSpectrumTask''))
     (retp ())))))))))))))"

definition peakAnalyserConfig :: "'s env \<Rightarrow> string \<Rightarrow> string \<Rightarrow> int \<Rightarrow> int \<Rightarrow> int \<Rightarrow> int \<Rightarrow> ('s, int) drv_prog" where
  "peakAnalyserConfig E portName hostAddress maxBuffers maxMemory priority stackSize =
     sq (peakAnalyser E portName hostAddress (if maxBuffers < 0 then 0 else maxBuffers)
          (if maxMemory < 0 then 0 else maxMemory) priority stackSize)
     (retp 0)"

text \<open>The command of the shell: its arguments with their types, and the function it calls.\<close>

datatype iocsh_arg = Sval string | Ival int

definition peakAnalyserConfigArgs :: "(string \<times> iocsh_arg) list" where
  "peakAnalyserConfigArgs =
     [(''Port name'', Sval []), (''Peak Analyser server address'', Sval []), (''maxBuffers'', Ival 0),
      (''maxMemory'', Ival 0), (''priority'', Ival 0), (''stackSize'', Ival 0)]"

definition configpeakAnalyserCallFunc :: "'s env \<Rightarrow> iocsh_arg list \<Rightarrow> ('s, unit) drv_prog" where
  "configpeakAnalyserCallFunc E args = (case args of
       [Sval portName, Sval hostAddress, Ival maxBuffers, Ival maxMemory, Ival priority, Ival stackSize] \<Rightarrow>
         sq (peakAnalyserConfig E portName hostAddress maxBuffers maxMemory priority stackSize) (retp ())
     | _ \<Rightarrow> undefp)"

section \<open>Properties\<close>

subsection \<open>The release and the proxy\<close>

lemma scanf_number_nat:
  assumes "n \<le> 2147483647" and "r = [] \<or> \<not> is_digit (hd r)"
  shows "scanf_number (nat_to_string n @ r) = Ret (Some (int n, r))"
proof -
  let ?ds = "nat_to_string n"
  have digits: "\<forall>c \<in> set ?ds. is_digit c" by (simp add: nat_to_string_is_digit)
  obtain c cs where ds: "?ds = c # cs" by (cases ?ds) auto
  then have c: "is_digit c" using digits by simp
  then have space: "dropWhile is_space (?ds @ r) = ?ds @ r" and sign: "split_sign (?ds @ r) = (False, ?ds @ r)"
    using digit_facts [OF c] by (auto simp: ds split_sign_def)
  have "takeWhile is_digit (?ds @ r) = ?ds" "dropWhile is_digit (?ds @ r) = r"
    using digits assms(2) by (cases r; simp add: takeWhile_append dropWhile_append)+
  then show ?thesis
    using assms(1) by (simp add: scanf_number_def scan_int_def space sign Let_def digits_value_nat_to_string in_i32_def)
qed

definition release_text :: "nat \<Rightarrow> nat \<Rightarrow> string \<Rightarrow> string" where
  "release_text major minor rest = ''PEAK-'' @ nat_to_string major @ ''.'' @ nat_to_string minor @ rest"

lemma scan_release_text:
  assumes "major \<le> 2147483647" and "minor \<le> 2147483647" and "rest = [] \<or> \<not> is_digit (hd rest)"
  shows "scan_release (release_text major minor rest) = Ret (int major, int minor)"
proof -
  have nul: "CHR 0x00 \<notin> set (nat_to_string n)" for n
    using nat_to_string_is_digit digit_facts by blast
  have "c_str (release_text major minor rest) = ''PEAK-'' @ nat_to_string major @ ''.'' @ nat_to_string minor @ c_str rest"
    using nul by (auto simp: release_text_def c_str_def takeWhile_append)
  moreover have "scanf_number (nat_to_string major @ ''.'' @ r) = Ret (Some (int major, ''.'' @ r))" for r
    by (rule scanf_number_nat) (use assms in \<open>simp_all add: is_digit_def char_digit_def\<close>)
  moreover have "scanf_number (nat_to_string minor @ c_str rest) = Ret (Some (int minor, c_str rest))"
    by (rule scanf_number_nat) (use assms in \<open>cases rest; simp add: c_str_def\<close>)+
  ultimately show ?thesis by (simp add: scan_release_def)
qed

lemma release_order:
  assumes "major \<le> 200000" and "minor < 10000"
  shows "PEAK_RELEASE (int major) (int minor) = Ret (int (major * 10000 + minor))"
    and "10003 \<le> int (major * 10000 + minor) \<longleftrightarrow> 1 < major \<or> major = 1 \<and> 3 \<le> minor"
proof -
  show "PEAK_RELEASE (int major) (int minor) = Ret (int (major * 10000 + minor))"
    using assms by (simp add: PEAK_RELEASE_def c_mul_def c_add_def in_i32_def)
  show "10003 \<le> int (major * 10000 + minor) \<longleftrightarrow> 1 < major \<or> major = 1 \<and> 3 \<le> minor"
  proof (cases "major = 0 \<or> major = 1")
    case True
    with assms(2) show ?thesis by auto
  next
    case False
    then have "2 * 10000 \<le> major * 10000" by (intro mult_right_mono) auto
    with False show ?thesis by simp
  qed
qed

text \<open>C26: the text of the release is read as its two numbers, and the proxy of the manager is used exactly for a manager
  on another host with a release from 1.3 on; the servers are asked for otherwise.\<close>

theorem release_decides_proxy:
  assumes "with_client E manager (\<lambda>R. api_query R ''ServerInfo''
      (jobject [(''Version'', no_filter), (''ReleaseVersion'', no_filter)])) s =
        Some (Ret (JObj [(''ReleaseVersion'', JStr (release_text major minor rest)), (''Version'', JStr version)]), s1)"
    and "major \<le> 200000" and "minor < 10000" and "rest = [] \<or> \<not> is_digit (hd rest)"
    and "m_ManagerHost (drv s1) = h"
  shows "sq (read_release E manager) (find_servers E manager) s =
    (let s2 = (fst s1, ((drv s1)\<lparr>m_PeakRelease := Some (int (major * 10000 + minor))\<rparr>,
           str_set E ADFirmwareVersion version (str_set E ADSDKVersion (release_text major minor rest) (world s1))))
     in if \<not> local_host h \<and> (1 < major \<or> major = 1 \<and> 3 \<le> minor)
        then Some (Ret (h @ ''/proxy/Analyser'', h @ ''/proxy/Electronics'', h @ ''/proxy/Camera''),
          (fst s2, ((drv s2)\<lparr>m_UseProxy := Some True\<rparr>, world s2)))
        else bnd (with_client E manager runningServers) (\<lambda>servers.
          liftp (server_addresses (jelems servers) ([], [], []))) s2)"
proof -
  let ?info = "JObj [(''ReleaseVersion'', JStr (release_text major minor rest)), (''Version'', JStr version)]"
  have info: "jidx ''ReleaseVersion'' ?info = Ret (JStr (release_text major minor rest))" "jidx ''Version'' ?info = Ret (JStr version)"
    by (simp_all add: jidx_def jtouch_def jat_def smap_emplace_def)
  have scan: "scan_release (release_text major minor rest) = Ret (int major, int minor)"
    using assms(2-4) by (intro scan_release_text) auto
  have first: "PEAK_RELEASE 1 3 = Ret 10003"
    by (simp add: PEAK_RELEASE_def c_mul_def c_add_def in_i32_def)
  show ?thesis
    unfolding read_release_def find_servers_def drv_flat
    using assms(5) release_order [OF assms(2,3)]
    by (cases "local_host h") (simp_all add: prog_runs assms(1) info scan drv_runs first Let_def)
qed

definition info_answer :: json where
  "info_answer = JObj [(''ServerInfo'', JObj [(''ReleaseVersion'', JStr (release_text 1 3 ''.0.1'')), (''Version'', JStr ''7'')])]"

lemma info_query:
  "with_client (table_env (\<lambda>_. info_answer)) manager (\<lambda>R. api_query R ''ServerInfo'' filt) s =
    Some (Ret (JObj [(''ReleaseVersion'', JStr (release_text 1 3 ''.0.1'')), (''Version'', JStr ''7'')]), s)"
  by (cases s, cases "fst s") (simp add: with_client_def api_query_def api_call_def table_rpc_def netp_runs info_answer_def
    jidx_def jtouch_def jat_def smap_emplace_def split: prod.splits)

lemma release_decides_proxy_witness:
  "\<exists>s'. sq (read_release (table_env (\<lambda>_. info_answer)) ''http://ses/api'') (find_servers (table_env (\<lambda>_. info_answer)) ''http://ses/api'')
      (sample_clients, (new_driver ''http://ses'', sample_table)) =
    Some (Ret (''http://ses/proxy/Analyser'', ''http://ses/proxy/Electronics'', ''http://ses/proxy/Camera''), s')"
proof -
  have "\<not> local_host ''http://ses''" by (simp add: local_host_def)
  then show ?thesis
    using release_decides_proxy [OF info_query, where manager = "''http://ses/api''" and h = "''http://ses''"
        and s = "(sample_clients, (new_driver ''http://ses'', sample_table))"]
    by (simp add: new_driver_def is_digit_def char_digit_def Let_def)
qed

subsection \<open>The lens modes\<close>

lemma forp_append_results:
  assumes "\<And>x s. x \<in> set xs \<Longrightarrow> P s \<Longrightarrow> \<exists>s'. f x s = Some (Ret (), s') \<and> P s' \<and> m_LensModes (drv s') = m_LensModes (drv s) @ g x"
    and "P s"
  shows "\<exists>s'. forp f xs s = Some (Ret (), s') \<and> P s' \<and> m_LensModes (drv s') = m_LensModes (drv s) @ concat (map g xs)"
  using assms
proof (induction xs arbitrary: s)
  case (Cons x xs)
  from Cons.prems(1) [of x s] Cons.prems(2) obtain s1 where s1: "f x s = Some (Ret (), s1)" "P s1"
    "m_LensModes (drv s1) = m_LensModes (drv s) @ g x" by auto
  from Cons.IH [OF Cons.prems(1) s1(2)] obtain s2 where "forp f xs s1 = Some (Ret (), s2)" "P s2"
    "m_LensModes (drv s2) = m_LensModes (drv s1) @ concat (map g xs)" by auto
  with s1 show ?case by (simp add: prog_runs)
qed simp

text \<open>A call of a client that does not touch the members and gives a fixed reply.\<close>

definition replies :: "'s env \<Rightarrow> string \<Rightarrow> (string \<Rightarrow> json \<Rightarrow> json) \<Rightarrow> bool" where
  "replies E u answer \<longleftrightarrow> (\<forall>m j t. \<exists>t'. rpc_call (e_rpc E u) m j t = Some (Ret (answer m j), t') \<and> fst t' = fst t)"

lemma replies_call:
  assumes "replies E u answer" and "analyser (drv s) = Some u"
  shows "\<exists>s'. with_analyser E (\<lambda>R. api_call R m args) s = Some (Ret (answer m (JArr args)), s') \<and> drv s' = drv s"
proof -
  obtain t' where "rpc_call (e_rpc E u) m (JArr args) (snd s) = Some (Ret (answer m (JArr args)), t')" "fst t' = fst (snd s)"
    using assms(1) unfolding replies_def by blast
  with assms(2) show ?thesis
    by (intro exI [of _ "(fst s, t')"]) (simp add: with_analyser_def api_call_def drv_runs netp_def zoom_def drv_def)
qed

text \<open>
  What the server says of a lens mode: whether it is enabled, and its limits, with the range of the pass
  energy and, for each deflection that is described by an object, the range of the deflection.
\<close>

definition mode_enabled :: "json \<Rightarrow> bool" where
  "mode_enabled j \<longleftrightarrow> entries j ''Enabled'' = Some (JBool True)"

definition describes_range :: "json \<Rightarrow> dbl \<times> dbl \<Rightarrow> bool" where
  "describes_range j r \<longleftrightarrow> number_at j ''MinimumValue'' (fst r) \<and> number_at j ''MaximumValue'' (snd r)"

definition describes_deflection :: "json \<Rightarrow> string \<Rightarrow> bool \<Rightarrow> (dbl \<times> dbl) option \<Rightarrow> bool" where
  "describes_deflection parameters k has r \<longleftrightarrow> (case entries parameters k of
       Some (JObj m) \<Rightarrow> has \<and> (case r of Some x \<Rightarrow> describes_range (JObj m) x | None \<Rightarrow> False)
     | _ \<Rightarrow> \<not> has \<and> r = None)"

definition describes_lens :: "json \<Rightarrow> string \<Rightarrow> lens_mode_setting \<Rightarrow> bool" where
  "describes_lens limits name l \<longleftrightarrow> lm_name l = name \<and> (case entries limits ''AllDomainParameters'' of
       Some (JObj m) \<Rightarrow>
         (case map_of m ''PassEnergy'' of Some e \<Rightarrow> describes_range e (passEnergyRange l) | None \<Rightarrow> False) \<and>
         describes_deflection (JObj m) ''LensThetaX'' (hasXDeflection l) (xDeflectionRange l) \<and>
         describes_deflection (JObj m) ''LensThetaY'' (hasYDeflection l) (yDeflectionRange l)
     | _ \<Rightarrow> False)"

lemma jidx_object: "jidx k (JObj m) = Ret (case map_of m k of Some v \<Rightarrow> v | None \<Rightarrow> JNull)"
  by (simp add: jidx_def jtouch_def jat_def smap_emplace_def split: option.split)

lemma jidx_entries: "entries j k = Some v \<Longrightarrow> jidx k j = Ret v"
  by (auto simp: entries_def jidx_object split: json.splits)

lemma value_range_run: "describes_range j r \<Longrightarrow> value_range j = Ret r"
  by (auto simp: describes_range_def value_range_def at_runs)

lemma deflection_run:
  assumes "describes_deflection (JObj m) k has r"
  shows "\<exists>v. jidx k (JObj m) = Ret v \<and> is_object v = has \<and> deflection_range v = Ret r"
  using assms by (auto simp: describes_deflection_def entries_def jidx_object deflection_range_def value_range_run
    split: option.splits json.splits)

lemma lens_mode_of_run:
  assumes "describes_lens limits name l"
  shows "lens_mode_of name limits = Ret l"
proof -
  obtain m e where m: "entries limits ''AllDomainParameters'' = Some (JObj m)" "map_of m ''PassEnergy'' = Some e"
    "describes_range e (passEnergyRange l)" "lm_name l = name"
    "describes_deflection (JObj m) ''LensThetaX'' (hasXDeflection l) (xDeflectionRange l)"
    "describes_deflection (JObj m) ''LensThetaY'' (hasYDeflection l) (yDeflectionRange l)"
    using assms by (auto simp: describes_lens_def split: option.splits json.splits)
  obtain x y where xy: "jidx ''LensThetaX'' (JObj m) = Ret x" "is_object x = hasXDeflection l"
      "deflection_range x = Ret (xDeflectionRange l)"
    "jidx ''LensThetaY'' (JObj m) = Ret y" "is_object y = hasYDeflection l" "deflection_range y = Ret (yDeflectionRange l)"
    using deflection_run [OF m(5)] deflection_run [OF m(6)] by blast
  have "jidx ''PassEnergy'' (JObj m) = Ret e" by (simp add: jidx_object m(2))
  then show ?thesis
    using m(4) by (simp add: lens_mode_of_def jidx_entries [OF m(1)] xy value_range_run [OF m(3)])
qed

lemma lens_enabled_run: "is_object j \<Longrightarrow> lens_enabled j = Ret (mode_enabled j)"
proof (cases j)
  case (JObj m)
  have "(if is_boolean v then jbool v else Ret False) = Ret (v = JBool True)" for v by (cases v) auto
  then show ?thesis by (simp add: JObj lens_enabled_def mode_enabled_def entries_def jidx_object split: option.split)
qed simp_all

text \<open>C21: of the lens modes the server lists, exactly the enabled ones are kept, sorted by name, each with its name, the range
  of pass energies and, exactly where its limits have an object for a deflection, the smallest and the largest value of
  that deflection.\<close>

theorem lens_modes_read:
  assumes "replies E u answer" and "analyser (drv s) = Some u" and "entries configuration ''OpticsLensModes'' = Some modes"
    and "\<forall>j \<in> set (jelems modes). is_object j \<and> (mode_enabled j \<longrightarrow> entries j ''Name'' = Some (JStr (name j)) \<and>
      describes_lens (answer ''GetLensModeLimits'' (JArr [JStr (name j), JInt 1])) (name j) (mode j))"
  shows "\<exists>s'. read_lens_modes E configuration s = Some (Ret (), s') \<and>
    mset (m_LensModes (drv s')) = mset (map mode (filter mode_enabled (jelems modes))) \<and>
    sorted (map lm_name (m_LensModes (drv s')))"
proof -
  let ?P = "\<lambda>s. analyser (drv s) = Some u"
  have add: "\<exists>s'. add_lens_mode E j s = Some (Ret (), s') \<and> ?P s' \<and>
      m_LensModes (drv s') = m_LensModes (drv s) @ (if mode_enabled j then [mode j] else [])"
    if j: "j \<in> set (jelems modes)" "?P s" for j s
  proof (cases "mode_enabled j")
    case True
    obtain s1 where s1: "with_analyser E (\<lambda>R. api_call R ''GetLensModeLimits'' [JStr (name j), JInt 1]) s =
        Some (Ret (answer ''GetLensModeLimits'' (JArr [JStr (name j), JInt 1])), s1)" "drv s1 = drv s"
      using replies_call [OF assms(1) j(2)] by blast
    moreover from True j(1) assms(4) have "jidx ''Name'' j = Ret (JStr (name j))" "lens_enabled j = Ret True"
      "lens_mode_of (name j) (answer ''GetLensModeLimits'' (JArr [JStr (name j), JInt 1])) = Ret (mode j)"
      by (simp_all add: jidx_entries lens_enabled_run lens_mode_of_run)
    ultimately show ?thesis
      using True j(2) by (simp add: add_lens_mode_def prog_runs drv_runs)
  next
    case False
    then show ?thesis using j assms(4) by (simp add: add_lens_mode_def lens_enabled_run)
  qed
  let ?s = "(fst s, ((drv s)\<lparr>m_LensModes := []\<rparr>, world s))"
  have "\<exists>s'. forp (add_lens_mode E) (jelems modes) ?s = Some (Ret (), s') \<and> ?P s' \<and>
      m_LensModes (drv s') = m_LensModes (drv ?s) @ concat (map (\<lambda>j. if mode_enabled j then [mode j] else []) (jelems modes))"
    by (rule forp_append_results) (use add assms(2) in simp_all)
  moreover have "concat (map (\<lambda>j. if mode_enabled j then [mode j] else []) js) = map mode (filter mode_enabled js)" for js
    by (induction js) auto
  ultimately obtain s1 where s1: "forp (add_lens_mode E) (jelems modes) ?s = Some (Ret (), s1)"
    "m_LensModes (drv s1) = map mode (filter mode_enabled (jelems modes))" by auto
  from s1 show ?thesis
    by (simp add: read_lens_modes_def drv_runs jidx_entries [OF assms(3)] prog_runs)
qed

definition lens_answer :: "string \<Rightarrow> json" where
  "lens_answer m = JObj [(''AllDomainParameters'', JObj [(''LensThetaX'', JNull),
     (''LensThetaY'', JObj [(''MaximumValue'', JFloat (Fin (31 / 2))), (''MinimumValue'', JInt (- 15))]),
     (''PassEnergy'', JObj [(''MaximumValue'', JUInt 20), (''MinimumValue'', JUInt 1)])])]"

definition lens_entry :: "string \<Rightarrow> bool \<Rightarrow> json" where
  "lens_entry name enabled = JObj [(''Enabled'', JBool enabled), (''Name'', JStr name)]"

definition lens_of :: "string \<Rightarrow> lens_mode_setting" where
  "lens_of name = \<lparr>lm_name = name, hasXDeflection = False, hasYDeflection = True, xDeflectionRange = None,
     yDeflectionRange = Some (Fin (- 15), Fin (31 / 2)), passEnergyRange = (Fin 1, Fin 20)\<rparr>"

lemma lens_modes_read_witness:
  "\<exists>s'. read_lens_modes (table_env lens_answer) (JObj [(''OpticsLensModes'',
      JArr [lens_entry ''Transmission'' True, lens_entry ''Spin'' False, lens_entry ''Angular'' True])])
      (sample_clients, (sample_driver, sample_table)) = Some (Ret (), s') \<and>
    mset (m_LensModes (drv s')) = {#lens_of ''Transmission'', lens_of ''Angular''#} \<and>
    sorted (map lm_name (m_LensModes (drv s')))"
proof -
  let ?modes = "JArr [lens_entry ''Transmission'' True, lens_entry ''Spin'' False, lens_entry ''Angular'' True]"
  let ?name = "\<lambda>j. if j = lens_entry ''Angular'' True then ''Angular'' else ''Transmission''"
  have replies: "replies (table_env lens_answer) ''ws://ses/api'' (\<lambda>m _. lens_answer m)"
    by (simp add: replies_def table_rpc_def)
  have found: "entries (JObj [(''OpticsLensModes'', ?modes)]) ''OpticsLensModes'' = Some ?modes"
    by (simp add: entries_def)
  have limits: "describes_lens (lens_answer m) n (lens_of n)" for n m
    by (simp add: describes_lens_def lens_answer_def lens_of_def entries_def describes_range_def number_at_def
      describes_deflection_def in_i32_def)
  have entry: "mode_enabled (lens_entry n b) = b" "entries (lens_entry n b) ''Name'' = Some (JStr n)" "is_object (lens_entry n b)" for n b
    by (simp_all add: mode_enabled_def lens_entry_def entries_def)
  have differ: "lens_entry n b = lens_entry n' b' \<longleftrightarrow> n = n' \<and> b = b'" for n n' b b'
    by (auto simp: lens_entry_def)
  have "mset (map (\<lambda>j. lens_of (?name j)) (filter mode_enabled (jelems ?modes))) = {#lens_of ''Transmission'', lens_of ''Angular''#}"
    by (simp add: differ entry)
  moreover have "\<forall>j \<in> set (jelems ?modes). is_object j \<and> (mode_enabled j \<longrightarrow> entries j ''Name'' = Some (JStr (?name j)) \<and>
      describes_lens (lens_answer ''GetLensModeLimits'') (?name j) (lens_of (?name j)))"
    by (simp add: entry limits differ)
  ultimately show ?thesis
    using lens_modes_read [OF replies _ found, of "(sample_clients, (sample_driver, sample_table))" ?name "\<lambda>j. lens_of (?name j)"]
    unfolding drv_sel sample_driver_sel by (metis (no_types, lifting))
qed

subsection \<open>A failed connection\<close>

text \<open>C38: whatever exception ends the connection, the driver is constructed all the same: the device is disconnected,
  and the status and its message say so.\<close>

theorem connection_failure:
  assumes "asyn_params E strs" and "connectAnalyser E s = Some (Throw e, s1)" and "e_disconnect E (snd s1) = Some (Ret (), t)"
  shows "\<exists>s'. connect_or_disconnect E s = Some (Ret (), s') \<and> drv s' = fst t \<and>
    p_int (e_asyn E) ADStatus (world s') = e_enum E ADStatusDisconnected \<and>
    strs ADStatusMessage (world s') = ''No connection to PEAK server'' \<and>
    (\<forall>q. q \<noteq> ADStatus \<longrightarrow> p_int (e_asyn E) q (world s') = p_int (e_asyn E) q (snd t))"
proof -
  note laws = asyn_params.param_laws [OF assms(1)]
  have "netp (e_disconnect E) s1 = Some (Ret (), (fst s1, t))"
    using assms(3) by (simp add: netp_def zoom_def)
  then show ?thesis
    using assms(2) by (simp add: connect_or_disconnect_def try_runs prog_runs drv_runs laws) (simp add: drv_def world_def laws)
qed

lemma connect_null: "\<exists>e. connectAnalyser (table_env (\<lambda>_. JNull)) (sample_clients, (new_driver h, w)) =
    Some (Throw e, (sample_clients, (new_driver h, w)))"
proof -
  let ?s = "(sample_clients, (new_driver h, w))"
  have "new_client (table_env (\<lambda>_. JNull)) h ?s = Some (Ret (normal_uri h), ?s)"
    by (simp add: new_client_def PeakAPI_def Let_def netp_runs)
  moreover have "with_client (table_env (\<lambda>_. JNull)) m (\<lambda>R. api_query R p filt) ?s = Some (Ret JNull, ?s)" for m p filt
    by (simp add: with_client_def api_query_def api_call_def table_rpc_def netp_runs jidx_def jtouch_def jat_def
      smap_emplace_def sample_clients_def)
  moreover have "obind (jidx ''ReleaseVersion'' JNull) jstring = Throw (Json_exception 302)"
    by (simp add: jidx_def jtouch_def jat_def smap_emplace_def)
  moreover have "m_ManagerHost (new_driver h) = h" by (simp add: new_driver_def)
  ultimately show ?thesis
    by (simp add: connectAnalyser_def read_release_def drv_flat prog_runs drv_runs)
qed

lemma connection_failure_witness:
  "\<exists>s'. connect_or_disconnect (table_env (\<lambda>_. JNull)) (sample_clients, (new_driver ''http://ses'', sample_table)) = Some (Ret (), s') \<and>
    t_int (world s') ADStatus = 9 \<and> t_str (world s') ADStatusMessage = ''No connection to PEAK server''"
proof -
  obtain e where e: "connectAnalyser (table_env (\<lambda>_. JNull)) (sample_clients, (new_driver ''http://ses'', sample_table)) =
      Some (Throw e, (sample_clients, (new_driver ''http://ses'', sample_table)))"
    using connect_null by blast
  show ?thesis
    using connection_failure [OF table.asyn_params_axioms e, of "(new_driver ''http://ses'', sample_table)"]
    by (auto simp: table_enum_def)
qed

end
