(* ===== verification/DriverTask.thy ===== *)
theory DriverTask
  imports DriverConnect
begin

text \<open>
  The two threads of the driver, \<open>acquisitionTask\<close> and \<open>spectrumTask\<close> of \<open>peakAnalyser.cpp\<close>, and the
  callbacks the first one registers with the analyser client.

  The acquisition thread runs on its local variables beside the state of the driver.  The variables
  its callbacks refer to are kept with the members, since the callbacks run in another thread; the
  locals only the thread itself uses are the record \<open>acq_locals\<close>.  They live longer than one pass of
  the loop, as in the code.
\<close>

section \<open>Callbacks\<close>

text \<open>\<open>operator[]\<close> with a position on a constant value: the array has to be long enough.\<close>

definition jnth :: "nat \<Rightarrow> json \<Rightarrow> json outcome" where
  "jnth i j = (case j of JArr js \<Rightarrow> vec_nth js (int i) | _ \<Rightarrow> Throw (Json_exception 305))"

definition upd_task :: "(task_vars \<Rightarrow> task_vars) \<Rightarrow> ('s, unit) drv_prog" where
  "upd_task f = upd_drv (\<lambda>d. d\<lparr>task := f (task d)\<rparr>)"

definition steps_counter :: "('s, int) drv_prog" where
  "steps_counter = bnd (get_drv (\<lambda>d. tv_numStepsCounter (task d))) (\<lambda>n. case n of
       None \<Rightarrow> undefp
     | Some k \<Rightarrow> retp k)"

definition on_state :: "'s env \<Rightarrow> json \<Rightarrow> ('s, unit) drv_prog" where
  "on_state E params =
     bnd (liftp (jnth 0 params)) (\<lambda>stateChange.
     bnd (liftp (obind (jat ''OldState'' stateChange) jstring)) (\<lambda>oldState.
     bnd (liftp (obind (jat ''NewState'' stateChange) jstring)) (\<lambda>newState.
     whenp (newState = ''Measuring'' \<or> newState = ''Error'') (send_signal E StopEvent))))"

text \<open>The progress in percent, as the code computes it.\<close>

definition acq_progress :: "int \<Rightarrow> int \<Rightarrow> int \<Rightarrow> int \<Rightarrow> dbl" where
  "acq_progress numStepsCounter numSteps numExposuresCounter numExposures =
     Fin 100 * dbl_of_int numStepsCounter / dbl_of_int numSteps * dbl_of_int numExposuresCounter
       / dbl_of_int numExposures"

text \<open>The first step of an exposure corrects the region shown.\<close>

definition correct_region :: "'s env \<Rightarrow> json \<Rightarrow> ('s, unit) drv_prog" where
  "correct_region E spectrum =
     bnd steps_counter (\<lambda>n.
     whenp (n = 0)
       (bnd (liftp (obind (jat ''SpectrumChannels'' spectrum) jfront)) (\<lambda>spectrumChannel.
        bnd (liftp (jat ''SpectrumChannelSettings'' spectrumChannel)) (\<lambda>channelSettings.
        setRegion E channelSettings))))"

definition count_step :: "'s env \<Rightarrow> ('s, unit) drv_prog" where
  "count_step E =
     bnd steps_counter (\<lambda>n.
     bnd (liftp (c_add n 1)) (\<lambda>n.
     sq (upd_task (\<lambda>t. t\<lparr>tv_numStepsCounter := Some n\<rparr>))
     (sq (setIntegerParam E AcqNumStepsCounter n)
     (bnd (get_drv task) (\<lambda>t.
     sq (setDoubleParam E AcqProgress
          (acq_progress n (tv_numSteps t) (tv_numExposuresCounter t) (tv_numExposures t)))
     (sq (callParamCallbacks E) (retp ())))))))"

text \<open>The live data and the mark of the last step, without the lock.\<close>

definition publish_live :: "'s env \<Rightarrow> json \<Rightarrow> ('s, unit) drv_prog" where
  "publish_live E spectrum =
     bnd (liftp (obind (jat ''SpectrumChannels'' spectrum) jfront)) (\<lambda>live.
     sq (upd_drv (\<lambda>d. d\<lparr>m_SpectrumLive := live\<rparr>))
     (bnd steps_counter (\<lambda>n.
     bnd (get_drv (\<lambda>d. (m_SpectrumLive d, tv_numSteps (task d)))) (\<lambda>(live, numSteps).
     bnd (liftp (jset ''IsLast'' (JBool (numSteps = n)) live)) (\<lambda>live.
     sq (upd_drv (\<lambda>d. d\<lparr>m_SpectrumLive := live\<rparr>))
     (send_signal E SpectrumEvent))))))"

definition on_update :: "'s env \<Rightarrow> json \<Rightarrow> ('s, unit) drv_prog" where
  "on_update E params =
     bnd (liftp (obind (jnth 0 params) (jat ''Value''))) (\<lambda>spectrum.
     if is_null spectrum then retp ()
     else
       sq (netp (e_lock E))
       (sq (correct_region E spectrum)
       (sq (count_step E)
       (sq (netp (e_unlock E))
       (publish_live E spectrum)))))"

text \<open>What the analyser client runs for a notification.\<close>

definition run_observer :: "'s env \<Rightarrow> driver_cb \<Rightarrow> json \<Rightarrow> ('s, unit) drv_prog" where
  "run_observer E cb params = (case cb of OnState \<Rightarrow> on_state E params | OnUpdate \<Rightarrow> on_update E params)"

section \<open>The acquisition thread\<close>

record acq_locals =
  al_failed :: bool
  al_acquire :: int
  al_imageMode :: int
  al_imageCounter :: int
  al_numImages :: int
  al_numImagesCounter :: int
  al_startTime :: "int \<times> int"
  al_spectrumId :: string
  al_guidAcquired :: string
  al_guidState :: string
  al_statusMessage :: string
  al_spectrum :: peak_spectrum

type_synonym ('s, 'a) acq_prog = "(acq_locals \<times> 's drv_state, 'a) prog"

definition lget :: "(acq_locals \<Rightarrow> 'a) \<Rightarrow> ('s, 'a) acq_prog" where
  "lget f = getsp (\<lambda>s. f (fst s))"

definition lupd :: "(acq_locals \<Rightarrow> acq_locals) \<Rightarrow> ('s, unit) acq_prog" where
  "lupd f = modp (\<lambda>s. (f (fst s), snd s))"

text \<open>Wait for the start of an acquisition, without the lock.\<close>

definition await_start :: "'s env \<Rightarrow> ('s, unit) drv_prog" where
  "await_start E =
     bnd (getIntegerParam E ADStatus) (\<lambda>adStatus.
     sq (if adStatus = e_enum E ADStatusIdle then
           sq (setStringParam E ADStatusMessage ''Waiting for the acquire command'') (sq (callParamCallbacks E) (retp ()))
         else retp ())
     (sq (netp (e_unlock E))
     (sq (netp (e_wait E StartEvent))
     (netp (e_lock E)))))"

definition begin_acquisition :: "'s env \<Rightarrow> ('s, unit) drv_prog" where
  "begin_acquisition E =
     sq (setIntegerParam E ADNumExposuresCounter 0)
     (sq (setIntegerParam E ADNumImagesCounter 0)
     (sq (setDoubleParam E AcqProgress (Fin 0))
     (sq (setIntegerParam E ADStatus (e_enum E ADStatusAcquire))
     (sq (setStringParam E ADStatusMessage ''Acquiring....'') (retp ())))))"

definition idle :: "'s env \<Rightarrow> ('s, unit) acq_prog" where
  "idle E =
     bnd (netp (getIntegerParam E ADAcquire)) (\<lambda>acquire.
     sq (lupd (\<lambda>l. l\<lparr>al_acquire := acquire\<rparr>))
     (whenp (acquire = 0)
       (sq (netp (await_start E))
       (sq (lupd (\<lambda>l. l\<lparr>al_failed := False\<rparr>))
       (bnd (netp (getIntegerParam E ADAcquire)) (\<lambda>acquire.
       sq (lupd (\<lambda>l. l\<lparr>al_acquire := acquire\<rparr>))
       (netp (begin_acquisition E))))))))"

text \<open>The counters of the pass and the modes, read with the lock.\<close>

definition prepare :: "'s env \<Rightarrow> ('s, unit) acq_prog" where
  "prepare E =
     bnd (netp (envp (e_time E))) (\<lambda>time.
     sq (lupd (\<lambda>l. l\<lparr>al_startTime := time\<rparr>))
     (sq (netp (setIntegerParam E ADNumExposuresCounter 0))
     (sq (netp (callParamCallbacks E))
     (bnd (netp (getIntegerParam E ADNumExposures)) (\<lambda>numExposures.
     sq (netp (upd_task (\<lambda>t. t\<lparr>tv_numExposures := numExposures\<rparr>)))
     (bnd (netp (getIntegerParam E ADNumImages)) (\<lambda>numImages.
     bnd (netp (getIntegerParam E ADImageMode)) (\<lambda>imageMode.
     bnd (netp (getIntegerParam E NDArrayCounter)) (\<lambda>imageCounter.
     bnd (netp (getIntegerParam E ADNumImagesCounter)) (\<lambda>numImagesCounter.
     sq (lupd (\<lambda>l. l\<lparr>al_numImages := numImages, al_imageMode := imageMode, al_imageCounter := imageCounter,
           al_numImagesCounter := numImagesCounter\<rparr>))
     (bnd (netp (getIntegerParam E ADNumExposuresCounter)) (\<lambda>numExposuresCounter.
     bnd (netp (getIntegerParam E AcqNumSteps)) (\<lambda>numSteps.
     sq (netp (upd_task (\<lambda>t. t\<lparr>tv_numExposuresCounter := numExposuresCounter, tv_numSteps := numSteps\<rparr>)))
     (netp (netp (e_unlock E))))))))))))))))"

text \<open>Before the first image the spectrum is defined and the callbacks are registered.\<close>

definition first_frame :: "'s env \<Rightarrow> ('s, unit) acq_prog" where
  "first_frame E =
     bnd (netp (with_analyser E currentState)) (\<lambda>state.
     if state \<noteq> ''Active'' then throwp (Runtime_error (''Analyser not active: '' @ state))
     else
       bnd (netp (get_drv m_SpectrumDefinition)) (\<lambda>spectrumDefinition.
       bnd (netp (with_analyser E (\<lambda>R. defineSpectrum R spectrumDefinition))) (\<lambda>spectrumId.
       sq (lupd (\<lambda>l. l\<lparr>al_spectrumId := spectrumId\<rparr>))
       (sq (netp (with_analyser E startMeasurement))
       (sq (netp (with_analyser E (\<lambda>R. setupSpectrum R spectrumId)))
       (bnd (netp (with_analyser E (\<lambda>R. subscribeToState R (Observer OnState)))) (\<lambda>guid.
       sq (lupd (\<lambda>l. l\<lparr>al_guidState := guid\<rparr>))
       (bnd (netp (with_analyser E (\<lambda>R. subscribeToObservable R ''SpectrumUpdate'' (Observer OnUpdate) AttHttp)))
         (\<lambda>guid. lupd (\<lambda>l. l\<lparr>al_guidAcquired := guid\<rparr>))))))))))"

text \<open>\<open>numExposuresCounter ++ < numExposures\<close>\<close>

definition next_exposure :: "('s, bool) drv_prog" where
  "next_exposure =
     bnd (get_drv task) (\<lambda>t.
     bnd (liftp (c_add (tv_numExposuresCounter t) 1)) (\<lambda>n.
     sq (upd_task (\<lambda>t. t\<lparr>tv_numExposuresCounter := n\<rparr>))
     (retp (tv_numExposuresCounter t < tv_numExposures t))))"

text \<open>One exposure; the result tells whether it was aborted.\<close>

definition expose :: "'s env \<Rightarrow> ('s, bool) acq_prog" where
  "expose E =
     sq (netp (upd_task (\<lambda>t. t\<lparr>tv_numStepsCounter := Some 0\<rparr>)))
     (sq (netp (netp (e_try_wait E StopEvent)))
     (bnd (lget al_spectrumId) (\<lambda>spectrumId.
     sq (netp (with_analyser E (\<lambda>R. start_acquisition R spectrumId)))
     (sq (netp (netp (e_wait E StopEvent)))
     (sq (netp (netp (e_lock E)))
     (bnd (netp (getIntegerParam E ADAcquire)) (\<lambda>acquire.
     sq (lupd (\<lambda>l. l\<lparr>al_acquire := acquire\<rparr>))
     (sq (netp (if acquire \<noteq> 0 then
                  bnd (get_drv (\<lambda>d. tv_numExposuresCounter (task d))) (\<lambda>n.
                  sq (setIntegerParam E ADNumExposuresCounter n) (retp ()))
                else retp ()))
     (sq (netp (callParamCallbacks E))
     (sq (netp (netp (e_unlock E)))
     (retp (acquire = 0))))))))))))"

partial_function (option) exposures ::
    "'s env \<Rightarrow> acq_locals \<times> 's drv_state \<Rightarrow> (unit outcome \<times> (acq_locals \<times> 's drv_state)) option" where
  "exposures E s =
     bnd (netp next_exposure) (\<lambda>more.
     if more then bnd (expose E) (\<lambda>aborted. if aborted then retp () else exposures E)
     else retp ()) s"

text \<open>The acquisition is complete: aborted, or the last image of its mode.\<close>

definition is_complete :: "'s env \<Rightarrow> acq_locals \<Rightarrow> bool" where
  "is_complete E l \<longleftrightarrow> al_acquire l = 0 \<or> al_imageMode l = e_enum E ADImageSingle \<or>
     (al_imageMode l = e_enum E ADImageMultiple \<and> al_numImagesCounter l \<ge> al_numImages l)"

definition give_up_state :: "'s env \<Rightarrow> ('s, unit) acq_prog" where
  "give_up_state E =
     bnd (lget al_guidState) (\<lambda>guid.
     sq (netp (with_analyser E (\<lambda>R. unsubscribe R guid)))
     (lupd (\<lambda>l. l\<lparr>al_guidState := []\<rparr>)))"

definition give_up_acquired :: "'s env \<Rightarrow> ('s, unit) acq_prog" where
  "give_up_acquired E =
     bnd (lget al_guidAcquired) (\<lambda>guid.
     sq (netp (with_analyser E (\<lambda>R. unsubscribe R guid)))
     (lupd (\<lambda>l. l\<lparr>al_guidAcquired := []\<rparr>)))"

definition finish_spectrum :: "'s env \<Rightarrow> ('s, unit) acq_prog" where
  "finish_spectrum E =
     bnd (lget al_spectrumId) (\<lambda>spectrumId.
     sq (netp (with_analyser E (\<lambda>R. finishSpectrum R spectrumId)))
     (lupd (\<lambda>l. l\<lparr>al_spectrumId := []\<rparr>)))"

text \<open>Fetch the data, count the image and finish the measurement after the last one.\<close>

definition finish_frame :: "'s env \<Rightarrow> ('s, unit) acq_prog" where
  "finish_frame E =
     bnd (lget al_spectrumId) (\<lambda>spectrumId.
     bnd (netp (with_analyser E (\<lambda>R. getMeasuredSpectrum R (e_new_client E) (e_net E) (e_files E) spectrumId)))
       (\<lambda>spectrum.
     sq (lupd (\<lambda>l. l\<lparr>al_spectrum := spectrum\<rparr>))
     (bnd (lget id) (\<lambda>l.
     sq (if al_acquire l \<noteq> 0 then
           bnd (liftp (c_add (al_imageCounter l) 1)) (\<lambda>imageCounter.
           bnd (liftp (c_add (al_numImagesCounter l) 1)) (\<lambda>numImagesCounter.
           lupd (\<lambda>l. l\<lparr>al_imageCounter := imageCounter, al_numImagesCounter := numImagesCounter\<rparr>)))
         else retp ())
     (bnd (lget (is_complete E)) (\<lambda>complete.
     whenp complete
       (sq (give_up_state E)
       (sq (give_up_acquired E)
       (sq (finish_spectrum E)
       (netp (with_analyser E finishMeasurement)))))))))))"

definition acquire_frame :: "'s env \<Rightarrow> ('s, unit) acq_prog" where
  "acquire_frame E =
     bnd (lget al_numImagesCounter) (\<lambda>n.
     sq (whenp (n = 0) (first_frame E))
     (bnd (lget al_spectrumId) (\<lambda>spectrumId.
     sq (netp (with_analyser E (\<lambda>R. clearSpectrum R spectrumId)))
     (sq (exposures E)
     (finish_frame E)))))"

text \<open>After an exception: its message is kept, and what was set up is given up as far as possible.\<close>

definition what :: "'s env \<Rightarrow> cxx_exn \<Rightarrow> string" where
  "what E e = (case e of Runtime_error m \<Rightarrow> c_str m | JsonRPCException c m \<Rightarrow> c_str m | _ \<Rightarrow> e_what E e)"

definition cleanup :: "'s env \<Rightarrow> ('s, unit) acq_prog" where
  "cleanup E =
     try_catch
       (bnd (lget al_guidState) (\<lambda>guid.
        sq (whenp (guid \<noteq> []) (give_up_state E))
        (bnd (lget al_guidAcquired) (\<lambda>guid.
        sq (whenp (guid \<noteq> []) (give_up_acquired E))
        (bnd (netp (with_analyser E currentState)) (\<lambda>state.
        whenp (state = ''Measuring'')
          (bnd (lget al_spectrumId) (\<lambda>spectrumId.
           sq (whenp (spectrumId \<noteq> []) (finish_spectrum E))
           (netp (with_analyser E finishMeasurement))))))))))
       (\<lambda>e. retp ())"

definition failed_frame :: "'s env \<Rightarrow> cxx_exn \<Rightarrow> ('s, unit) acq_prog" where
  "failed_frame E e =
     sq (lupd (\<lambda>l. l\<lparr>al_failed := True, al_statusMessage := what E e\<rparr>)) (cleanup E)"

text \<open>
  An image: an array of the pool with the dimensions of the spectrum, the samples copied into it.
  A null array is not to be used, and the samples have to fit.
\<close>

definition make_image :: "'s env \<Rightarrow> peak_spectrum \<Rightarrow> int \<Rightarrow> int \<times> int \<Rightarrow> ('s, nd_array) drv_prog" where
  "make_image E spectrum uniqueId time =
     bnd (envp (e_alloc E (take (rank spectrum) (dims spectrum)))) (\<lambda>allocated.
     if allocated \<and> length (sdata spectrum) \<le> prod_list (take (rank spectrum) (dims spectrum)) then
       retp \<lparr>nd_dims = take (rank spectrum) (dims spectrum), nd_samples = sdata spectrum, nd_uniqueId = uniqueId,
         nd_timeStamp = dbl_of_int (fst time) + dbl_of_int (snd time) / Fin 1000000000\<rparr>
     else undefp)"

definition show_status :: "'s env \<Rightarrow> ad_enum \<Rightarrow> string \<Rightarrow> ('s, unit) drv_prog" where
  "show_status E status message =
     sq (setIntegerParam E ADStatus (e_enum E status))
     (sq (setStringParam E ADStatusMessage message)
     (sq (callParamCallbacks E) (retp ())))"

definition deliver_image :: "'s env \<Rightarrow> acq_locals \<Rightarrow> ('s, unit) drv_prog" where
  "deliver_image E l =
     sq (setIntegerParam E NDArrayCounter (al_imageCounter l))
     (sq (setIntegerParam E ADNumImagesCounter (al_numImagesCounter l))
     (bnd (make_image E (al_spectrum l) (al_imageCounter l) (al_startTime l)) (\<lambda>pImage.
     sq (envp (e_attributes E))
     (bnd (getIntegerParam E NDArrayCallbacks) (\<lambda>arrayCallbacks.
     sq (whenp (arrayCallbacks \<noteq> 0)
          (sq (netp (e_unlock E)) (sq (envp (e_array E pImage 0)) (netp (e_lock E)))))
     (envp (e_release E)))))))"

definition complete_image :: "'s env \<Rightarrow> ('s, unit) acq_prog" where
  "complete_image E =
     bnd (netp (getIntegerParam E ADAcquire)) (\<lambda>acquire.
     sq (lupd (\<lambda>l. l\<lparr>al_acquire := acquire\<rparr>))
     (bnd (lget (is_complete E)) (\<lambda>complete.
     sq (if complete then
           sq (netp (setIntegerParam E ADAcquire 0))
           (sq (netp (setIntegerParam E ADStatus (e_enum E ADStatusIdle))) (retp ()))
         else retp ())
     (sq (netp (callParamCallbacks E))
     (bnd (netp (getIntegerParam E ADAcquire)) (\<lambda>acquire.
     lupd (\<lambda>l. l\<lparr>al_acquire := acquire\<rparr>)))))))"

definition conclude :: "'s env \<Rightarrow> ('s, unit) acq_prog" where
  "conclude E =
     bnd (lget id) (\<lambda>l.
     if al_failed l then
       sq (netp (setIntegerParam E ADAcquire 0))
       (netp (show_status E ADStatusError (al_statusMessage l)))
     else if al_acquire l = 0 then netp (show_status E ADStatusAborted ''User aborted'')
     else sq (netp (deliver_image E l)) (complete_image E))"

text \<open>One pass of the loop, and the thread, which takes the lock once and does not return.\<close>

definition acquisition_pass :: "'s env \<Rightarrow> ('s, unit) acq_prog" where
  "acquisition_pass E =
     sq (idle E)
     (sq (prepare E)
     (sq (try_catch (acquire_frame E) (failed_frame E))
     (sq (netp (netp (e_lock E)))
     (conclude E))))"

partial_function (option) acquisition_loop ::
    "'s env \<Rightarrow> acq_locals \<times> 's drv_state \<Rightarrow> (unit outcome \<times> (acq_locals \<times> 's drv_state)) option" where
  "acquisition_loop E s = sq (acquisition_pass E) (acquisition_loop E) s"

definition acquisitionTask :: "'s env \<Rightarrow> ('s, unit) acq_prog" where
  "acquisitionTask E = sq (netp (netp (e_lock E))) (acquisition_loop E)"

section \<open>The thread of the live spectrum\<close>

text \<open>Whether the data are the last of an exposure; reading the mark adds it to data without one.\<close>

definition live_is_last :: "('s, bool) drv_prog" where
  "live_is_last =
     bnd (get_drv m_SpectrumLive) (\<lambda>j.
     bnd (liftp (jtouch ''IsLast'' j)) (\<lambda>j.
     sq (upd_drv (\<lambda>d. d\<lparr>m_SpectrumLive := j\<rparr>))
     (liftp (obind (jat ''IsLast'' j) jbool))))"

definition live_server :: "driver \<Rightarrow> string outcome" where
  "live_server d = (case m_UseProxy d of
       None \<Rightarrow> Undef
     | Some proxy \<Rightarrow> Ret (if proxy then m_ManagerHost d else []))"

definition show_live :: "'s env \<Rightarrow> int \<times> int \<Rightarrow> ('s, unit) drv_prog" where
  "show_live E now =
     bnd (get_drv live_server) (\<lambda>server.
     bnd (liftp server) (\<lambda>serverUri.
     bnd (get_drv m_SpectrumLive) (\<lambda>channel.
     bnd (netp (fromSpectrumChannel (e_net E) (e_files E) channel serverUri empty_spectrum)) (\<lambda>spectrum.
     bnd (make_image E spectrum 0 now) (\<lambda>pImage.
     sq (envp (e_array E pImage 1))
     (sq (envp (e_release E))
     (bnd (liftp (integrate spectrum)) (\<lambda>integrated_spectrum.
     sq (netp (e_lock E))
     (sq (envp (e_doubles E AcqEnergyScale (xaxis spectrum)))
     (sq (envp (e_doubles E AcqSliceScale (yaxis spectrum)))
     (sq (envp (e_doubles E AcqSpectrum integrated_spectrum))
     (netp (e_unlock E)))))))))))))"

text \<open>One pass of the loop; the result is the time of the last update that was shown.\<close>

definition spectrum_pass :: "'s env \<Rightarrow> int \<times> int \<Rightarrow> ('s, int \<times> int) drv_prog" where
  "spectrum_pass E last_time =
     sq (netp (e_wait E SpectrumEvent))
     (bnd (envp (e_time E)) (\<lambda>now.
     bnd (if e_time_diff E now last_time > Fin 1 then retp True else live_is_last) (\<lambda>update.
     if update then sq (try_catch (show_live E now) (\<lambda>e. retp ())) (retp now)
     else retp last_time)))"

partial_function (option) spectrum_loop ::
    "'s env \<Rightarrow> int \<times> int \<Rightarrow> 's drv_state \<Rightarrow> (unit outcome \<times> 's drv_state) option" where
  "spectrum_loop E last_time s = bnd (spectrum_pass E last_time) (spectrum_loop E) s"

definition spectrumTask :: "'s env \<Rightarrow> ('s, unit) drv_prog" where
  "spectrumTask E = bnd (envp (e_time E)) (spectrum_loop E)"

section \<open>Properties\<close>

text \<open>A step of the driver, run beside the locals.\<close>

lemma returns_netp: "returns (netp m) (x, w) R \<longleftrightarrow> returns m w (\<lambda>a w'. R a (x, w'))"
  by (auto simp: returns_def netp_def zoom_def bind_eq_Some_conv)

lemma returns_steps [simp]:
  "returns (sq m n) t R \<longleftrightarrow> returns m t (\<lambda>_ t'. returns n t' R)"
  "returns (bnd k f) t R \<longleftrightarrow> returns k t (\<lambda>a t'. returns (f a) t' R)"
  by (auto simp: returns_def sq_def elim!: bnd_SomeE) (auto simp: bnd_run_Ret)

lemma returns_leaves [simp]:
  "returns (lget g) (l, s) R \<longleftrightarrow> R (g l) (l, s)" "returns (lupd f) (l, s) Ru \<longleftrightarrow> Ru () (f l, s)"
  "returns (callParamCallbacks E) s Rc \<longleftrightarrow> Rc (fst (p_callbacks (e_asyn E) (world s))) (put_world (called_back E (world s)) s)"
  by (simp_all add: lget_def lupd_def) (simp add: returns_def callParamCallbacks_def asyn_op_run called_back_def)

lemma returns_try: "returns m s Q \<Longrightarrow> returns (try_catch m h) s Q"
  by (auto simp: returns_def try_catch_run_Ret)

lemma netp_distrib:
  "netp (sq m n) = sq (netp m) (netp n)" "netp (bnd k f) = bnd (netp k) (\<lambda>a. netp (f a))"
  "netp (if b then m else m') = (if b then netp m else netp m')" "netp (retp x) = retp x"
  "netp (whenp b u) = whenp b (netp u)"
  by (auto simp: fun_eq_iff netp_def zoom_def sq_def bnd_def retp_def whenp_def split: outcome.splits bind_splits)

subsection \<open>A failed acquisition\<close>

lemma show_status_run:
  "show_status E status m s = Some (Ret (), put_world (called_back E (str_set E ADStatusMessage m
    (int_set E ADStatus (e_enum E status) (world s)))) s)"
  by (simp add: show_status_def drv_runs)

lemma keeps_locals: "(\<And>l. P l \<Longrightarrow> P (f l)) \<Longrightarrow> keeps (\<lambda>s. P (fst s)) (lupd f)"
  by (simp add: lupd_def keeps_def)

lemma keeps_lget [keeps_intros]: "keeps P (lget f)"
  by (simp add: lget_def keeps_def)

lemma keeps_cleanup: "keeps (\<lambda>s. al_failed (fst s) \<and> al_statusMessage (fst s) = m) (cleanup E)"
  unfolding cleanup_def give_up_state_def give_up_acquired_def finish_spectrum_def
  by (intro keeps_intros keeps_netp_fst [where P = "\<lambda>l. al_failed l \<and> al_statusMessage l = m"]
      keeps_locals [where P = "\<lambda>l. al_failed l \<and> al_statusMessage l = m"]) simp_all

text \<open>C9: whatever exception an acquisition ends with, the thread gives up what was set up, stops acquiring, shows the
  message of the exception with the error status, counts no image and goes on.\<close>

theorem acquisition_failure:
  assumes "asyn_params E strs" and "sq (idle E) (prepare E) (l, s) = Some (Ret (), (l1, s1))"
    and "acquire_frame E (l1, s1) = Some (Throw e, (l2, s2))"
    and "cleanup E (l2\<lparr>al_failed := True, al_statusMessage := what E e\<rparr>, s2) = Some (Ret (), (l3, s3))"
    and "e_lock E (snd s3) = Some (Ret (), t)"
  shows "\<exists>s'. acquisition_pass E (l, s) = Some (Ret (), (l3, s')) \<and> drv s' = fst t \<and>
    p_int (e_asyn E) ADAcquire (world s') = 0 \<and>
    p_int (e_asyn E) ADStatus (world s') = e_enum E ADStatusError \<and>
    strs ADStatusMessage (world s') = what E e \<and>
    (\<forall>q. q \<notin> {ADAcquire, ADStatus} \<longrightarrow> p_int (e_asyn E) q (world s') = p_int (e_asyn E) q (snd t))"
proof -
  note laws = asyn_params.param_laws [OF assms(1)]
  have "al_failed l3 \<and> al_statusMessage l3 = what E e"
    using keepsD [OF keeps_cleanup _ assms(4)] by simp
  moreover have "try_catch (acquire_frame E) (failed_frame E) (l1, s1) = Some (Ret (), (l3, s3))"
    using assms(3,4) by (simp add: try_runs failed_frame_def lupd_def)
  moreover have "netp (netp (e_lock E)) (l3, s3) = Some (Ret (), (l3, (fst s3, t)))"
    using assms(5) by (simp add: netp_def zoom_def)
  moreover obtain l0 s0 where "idle E (l, s) = Some (Ret (), (l0, s0))" "prepare E (l0, s0) = Some (Ret (), (l1, s1))"
    using assms(2) unfolding sq_def by (cases rule: bnd_SomeE) auto
  ultimately show ?thesis
    by (simp add: acquisition_pass_def prog_runs conclude_def lget_def netp_run [OF show_status_run] setIntegerParam_def
      netp_runs [OF asyn_op_run(3)] int_set_def [symmetric]) (simp add: drv_def world_def put_world_def laws)
qed

definition start_locals :: acq_locals where
  "start_locals = \<lparr>al_failed = False, al_acquire = 0, al_imageMode = 0, al_imageCounter = 0, al_numImages = 0,
     al_numImagesCounter = 0, al_startTime = (0, 0), al_spectrumId = [], al_guidAcquired = [], al_guidState = [],
     al_statusMessage = [], al_spectrum = empty_spectrum\<rparr>"

text \<open>A server that is idle and not active.\<close>

definition idle_env :: "table env" where
  "idle_env = table_env (\<lambda>_. JStr ''Idle'')"

lemma idle_env_state: "with_analyser idle_env currentState (c, (d, w)) =
    (if analyser d = None then Some (Undef, (c, (d, w))) else Some (Ret ''Idle'', (c, (d, w))))"
  by (auto simp: idle_env_def with_analyser_def currentState_def api_call_def table_rpc_def drv_runs netp_runs)

lemma acquisition_failure_witness:
  "\<exists>l' s'. acquisition_pass idle_env (start_locals, (sample_clients, (sample_driver,
      sample_table\<lparr>t_int := (\<lambda>_. 0)(ADAcquire := 1, NDArrayCounter := 5)\<rparr>))) = Some (Ret (), (l', s')) \<and>
    t_int (world s') ADAcquire = 0 \<and> t_int (world s') ADStatus = 6 \<and>
    t_str (world s') ADStatusMessage = ''Analyser not active: Idle'' \<and> t_int (world s') NDArrayCounter = 5"
proof -
  let ?s = "(sample_clients, (sample_driver, sample_table\<lparr>t_int := (\<lambda>_. 0)(ADAcquire := 1, NDArrayCounter := 5)\<rparr>))"
  have law: "asyn_params idle_env (\<lambda>p w. t_str w p)"
    unfolding idle_env_def by (rule table.asyn_params_axioms)
  have enter: "\<exists>l1 c d w. sq (idle idle_env) (prepare idle_env) (start_locals, ?s) = Some (Ret (), (l1, (c, (d, w)))) \<and>
      analyser d \<noteq> None \<and> al_numImagesCounter l1 = 0 \<and> al_guidState l1 = [] \<and> al_guidAcquired l1 = [] \<and> t_int w NDArrayCounter = 5"
  proof -
    have "returns (sq (idle idle_env) (prepare idle_env)) (start_locals, ?s) (\<lambda>_ t. analyser (drv (snd t)) \<noteq> None \<and>
        al_numImagesCounter (fst t) = 0 \<and> al_guidState (fst t) = [] \<and> al_guidAcquired (fst t) = [] \<and>
        t_int (world (snd t)) NDArrayCounter = 5)"
      by (simp add: idle_def prepare_def returns_netp envp_def upd_task_def idle_env_def start_locals_def int_set_def called_back_def
        table_asyn_def table_env_def)
    then show ?thesis by (auto simp: returns_def)
  qed
  then obtain l1 c d w where l1: "sq (idle idle_env) (prepare idle_env) (start_locals, ?s) = Some (Ret (), (l1, (c, (d, w))))"
    "analyser d \<noteq> None" "al_numImagesCounter l1 = 0" "al_guidState l1 = []" "al_guidAcquired l1 = []"
    "t_int w NDArrayCounter = 5" by blast
  have frame: "acquire_frame idle_env (l1, (c, (d, w))) = Some (Throw (Runtime_error ''Analyser not active: Idle''), (l1, (c, (d, w))))"
    using l1 by (simp add: acquire_frame_def lget_def first_frame_def netp_runs idle_env_state prog_runs)
  have clean: "cleanup idle_env (l, (c, (d, w))) = Some (Ret (), (l, (c, (d, w))))"
    if "al_guidState l = []" "al_guidAcquired l = []" for l
    using that l1(2) by (simp add: cleanup_def lget_def netp_runs idle_env_state try_runs)
  have "e_lock idle_env t = Some (Ret (), t)" "e_asyn idle_env = table_asyn" "e_enum idle_env = table_enum" for t
    by (simp_all add: idle_env_def) (simp add: table_env_def)
  moreover note acquisition_failure [OF law l1(1) frame clean, where t = "(d, w)"]
  ultimately show ?thesis
    using l1 by (auto simp: what_def c_str_def table_asyn_def table_enum_def)
qed

subsection \<open>The thread goes on\<close>

text \<open>A program that does not end with an exception.\<close>

definition unfailing :: "('s, 'a) prog \<Rightarrow> bool" where
  "unfailing m \<longleftrightarrow> (\<forall>s e s'. m s \<noteq> Some (Throw e, s'))"

lemma unfailing_bnd:
  assumes "unfailing m" and "\<And>a. unfailing (f a)"
  shows "unfailing (bnd m f)"
  unfolding unfailing_def
proof (intro allI notI)
  fix s e s'
  assume "bnd m f s = Some (Throw e, s')"
  then show False by (cases rule: bnd_SomeE) (use assms in \<open>auto simp: unfailing_def\<close>)
qed

lemma unfailing_intros:
  "unfailing m \<Longrightarrow> unfailing n \<Longrightarrow> unfailing (sq m n)" "unfailing (retp a)" "unfailing undefp" "unfailing (getsp g)"
  "unfailing (lget h)" "unfailing (lupd f)" "unfailing u \<Longrightarrow> unfailing (whenp b u)"
  "unfailing m1 \<Longrightarrow> unfailing m2 \<Longrightarrow> unfailing (if b then m1 else m2)" "unfailing k \<Longrightarrow> unfailing (netp k)"
  by (auto simp: sq_def unfailing_bnd lget_def lupd_def whenp_def) (auto simp: unfailing_def netp_def zoom_def bind_eq_Some_conv)

lemma unfailing_drv:
  "unfailing (getIntegerParam E p)" "unfailing (setIntegerParam E p v)" "unfailing (setDoubleParam E p x)"
  "unfailing (setStringParam E p t)" "unfailing (callParamCallbacks E)" "unfailing (upd_task f)" "unfailing (get_drv g)"
  "unfailing q \<Longrightarrow> unfailing (envp q)"
  by (auto simp: unfailing_def getIntegerParam_def setIntegerParam_def setDoubleParam_def setStringParam_def
    callParamCallbacks_def asyn_op_run upd_task_def drv_runs get_drv_def envp_def netp_def zoom_def bind_eq_Some_conv)

lemma unfailing_try: "(\<And>e. unfailing (h e)) \<Longrightarrow> unfailing (try_catch m h)"
  by (auto simp: unfailing_def try_catch_def bind_eq_Some_conv split: outcome.splits)

text \<open>The operations of the surroundings that the thread uses outside its \<open>try\<close> block.\<close>

definition reliable :: "'s env \<Rightarrow> bool" where
  "reliable E \<longleftrightarrow> unfailing (e_lock E) \<and> unfailing (e_unlock E) \<and> (\<forall>ev. unfailing (e_wait E ev)) \<and> unfailing (e_time E) \<and>
     (\<forall>ns. unfailing (e_alloc E ns)) \<and> unfailing (e_attributes E) \<and> (\<forall>a n. unfailing (e_array E a n)) \<and>
     unfailing (e_release E)"

lemma acquisition_pass_unfailing: "reliable E \<Longrightarrow> unfailing (acquisition_pass E)"
  unfolding reliable_def acquisition_pass_def idle_def await_start_def begin_acquisition_def prepare_def failed_frame_def
    cleanup_def conclude_def show_status_def deliver_image_def make_image_def complete_image_def
  by (intro unfailing_intros unfailing_bnd unfailing_drv unfailing_try) auto

lemma acquisition_loop_outcome:
  assumes "acquisition_loop E s = Some (r, s')" and "unfailing (acquisition_pass E)"
  shows "r = Undef"
proof -
  have "unfailing (acquisition_pass E) \<longrightarrow> fst y = Undef" if "acquisition_loop E s = Some y" for s y
  proof (rule acquisition_loop.raw_induct [OF _ that, where P = "\<lambda>E s y. unfailing (acquisition_pass E) \<longrightarrow> fst y = Undef"], intro impI)
    fix f and E :: "'a env" and s and y :: "unit outcome \<times> (acq_locals \<times> 'a drv_state)"
    assume IH: "\<And>E s y. f E s = Some y \<Longrightarrow> unfailing (acquisition_pass E) \<longrightarrow> fst y = Undef"
      and run: "sq (acquisition_pass E) (f E) s = Some y" and pass: "unfailing (acquisition_pass E)"
    obtain r1 s1 where y: "y = (r1, s1)" by (cases y)
    from run [unfolded sq_def y] show "fst y = Undef"
    proof (cases rule: bnd_SomeE)
      case (ret a u)
      from IH [OF ret(2)] pass y show ?thesis by simp
    next
      case (throw e)
      with pass show ?thesis unfolding unfailing_def by blast
    qed (simp add: y)
  qed
  with assms show ?thesis by fastforce
qed

text \<open>C28: no exception of the analyser, of its data or of an acquisition ends the acquisition thread: where it ends at all,
  the behaviour of the code is undefined.\<close>

theorem acquisition_thread_survives:
  assumes "reliable E" and "acquisitionTask E s = Some (r, s')"
  shows "r = Undef"
proof -
  have "unfailing (netp (netp (e_lock E)) :: ('a, unit) acq_prog)"
    using assms(1) by (auto simp: reliable_def intro: unfailing_intros)
  then have "netp (netp (e_lock E)) s \<noteq> Some (Throw e, s')" for e
    unfolding unfailing_def by blast
  with assms(2) [unfolded acquisitionTask_def sq_def] show ?thesis
    by (cases rule: bnd_SomeE) (auto dest: acquisition_loop_outcome [OF _ acquisition_pass_unfailing [OF assms(1)]])
qed

lemma idle_env_reliable: "reliable idle_env"
  by (simp add: reliable_def idle_env_def unfailing_intros)

lemma acquisition_thread_survives_witness:
  "\<forall>s e s'. acquisitionTask idle_env s \<noteq> Some (Throw e, s')"
  using acquisition_thread_survives [OF idle_env_reliable] by fastforce

end
