(* ===== verification/DriverAcquire.thy ===== *)
theory DriverAcquire
  imports DriverTask
begin

text \<open>
  What an acquisition does when nothing disturbs it: the passes of the loop of \<open>acquisitionTask\<close>
  refine an abstract counter of images.

  The abstract state is the record \<open>acq_view\<close> of the parameters that make up an acquisition.  The
  surroundings are undisturbed when their operations and the replies of the analyser keep these
  parameters; other parameters and members may change, as they do in the callbacks.
\<close>

section \<open>The abstract acquisition\<close>

record acq_view =
  v_acquire :: int
  v_status :: int
  v_mode :: int
  v_exposures :: int
  v_exposuresCounter :: int
  v_images :: int
  v_imagesCounter :: int
  v_array :: int

definition view :: "'s env \<Rightarrow> 's \<Rightarrow> acq_view" where
  "view E w = (let i = (\<lambda>p. p_int (e_asyn E) p w) in
     \<lparr>v_acquire = i ADAcquire, v_status = i ADStatus, v_mode = i ADImageMode, v_exposures = i ADNumExposures,
      v_exposuresCounter = i ADNumExposuresCounter, v_images = i ADNumImages, v_imagesCounter = i ADNumImagesCounter,
      v_array = i NDArrayCounter\<rparr>)"

text \<open>The start of an acquisition, and what one pass of the loop makes of it.\<close>

definition started :: "'s env \<Rightarrow> acq_view \<Rightarrow> acq_view" where
  "started E v =
     (if v_acquire v = 0 then v\<lparr>v_acquire := 1, v_imagesCounter := 0, v_status := e_enum E ADStatusAcquire\<rparr> else v)"

definition last_image :: "'s env \<Rightarrow> acq_view \<Rightarrow> bool" where
  "last_image E v \<longleftrightarrow> v_mode v = e_enum E ADImageSingle \<or>
     (v_mode v = e_enum E ADImageMultiple \<and> v_imagesCounter v \<ge> v_images v)"

definition image_taken :: "acq_view \<Rightarrow> acq_view" where
  "image_taken v = v\<lparr>v_exposuresCounter := max 0 (v_exposures v), v_imagesCounter := v_imagesCounter v + 1,
     v_array := v_array v + 1\<rparr>"

definition completed :: "'s env \<Rightarrow> acq_view \<Rightarrow> acq_view" where
  "completed E v = (if last_image E v then v\<lparr>v_acquire := 0, v_status := e_enum E ADStatusIdle\<rparr> else v)"

definition spec_pass :: "'s env \<Rightarrow> acq_view \<Rightarrow> acq_view" where
  "spec_pass E v = completed E (image_taken (started E v))"

section \<open>Undisturbed surroundings\<close>

definition kept :: "'s env \<Rightarrow> driver \<times> 's \<Rightarrow> driver \<times> 's \<Rightarrow> bool" where
  "kept E t t' \<longleftrightarrow> view E (snd t') = view E (snd t) \<and> analyser (fst t') = analyser (fst t) \<and>
     tv_numExposures (task (fst t')) = tv_numExposures (task (fst t)) \<and>
     tv_numExposuresCounter (task (fst t')) = tv_numExposuresCounter (task (fst t))"

definition undisturbed :: "'s env \<Rightarrow> (driver \<times> 's, 'a) prog \<Rightarrow> ('a \<Rightarrow> bool) \<Rightarrow> bool" where
  "undisturbed E m Q \<longleftrightarrow> (\<forall>t. returns m t (\<lambda>a t'. Q a \<and> kept E t t'))"

text \<open>The replies of an analyser that is ready to measure.\<close>

definition ready_reply :: "string \<Rightarrow> json \<Rightarrow> bool" where
  "ready_reply m r \<longleftrightarrow>
     (m = ''GetState'' \<longrightarrow> r = JStr ''Active'') \<and>
     (m \<in> {''DefineSpectrum'', ''SubscribeToObservable''} \<longrightarrow> (\<exists>x. r = JStr x)) \<and>
     (m = ''SubscribeToState'' \<longrightarrow> (\<exists>x. obind (jidx ''Id'' r) jstring = Ret x))"

definition ready_client :: "'s env \<Rightarrow> string \<Rightarrow> bool" where
  "ready_client E u \<longleftrightarrow>
     (\<forall>m j. undisturbed E (rpc_call (e_rpc E u) m j) (ready_reply m)) \<and>
     (\<forall>t cb. undisturbed E (rpc_subscribe (e_rpc E u) t cb) (\<lambda>_. True)) \<and>
     (\<forall>t. undisturbed E (rpc_unsubscribe (e_rpc E u) t) (\<lambda>_. True)) \<and>
     undisturbed E (rpc_notificationServer (e_rpc E u)) (\<lambda>_. True)"

text \<open>Waiting for the start ends with the command to acquire.\<close>

definition start_given :: "'s env \<Rightarrow> bool" where
  "start_given E \<longleftrightarrow> (\<forall>t. returns (e_wait E StartEvent) t (\<lambda>_ t'. analyser (fst t') = analyser (fst t) \<and>
     view E (snd t') = (view E (snd t))\<lparr>v_acquire := 1\<rparr>))"

definition fits :: "peak_spectrum \<Rightarrow> bool" where
  "fits sp \<longleftrightarrow> length (sdata sp) \<le> prod_list (take (rank sp) (dims sp))"

definition undisturbed_env :: "'s env \<Rightarrow> string \<Rightarrow> bool" where
  "undisturbed_env E uri \<longleftrightarrow>
     undisturbed E (e_lock E) (\<lambda>_. True) \<and> undisturbed E (e_unlock E) (\<lambda>_. True) \<and>
     undisturbed E (e_wait E StopEvent) (\<lambda>_. True) \<and> undisturbed E (e_try_wait E StopEvent) (\<lambda>_. True) \<and>
     start_given E \<and>
     undisturbed E (netp (e_time E)) (\<lambda>_. True) \<and> (\<forall>ns. undisturbed E (netp (e_alloc E ns)) id) \<and>
     undisturbed E (netp (e_attributes E)) (\<lambda>_. True) \<and> (\<forall>a n. undisturbed E (netp (e_array E a n)) (\<lambda>_. True)) \<and>
     undisturbed E (netp (e_release E)) (\<lambda>_. True) \<and>
     (\<forall>u. ready_client E u) \<and>
     (\<forall>u i s. api_uri (fst (fst s)) = uri \<longrightarrow>
       returns (getMeasuredSpectrum (e_rpc E u) (e_new_client E) (e_net E) (e_files E) i) s
         (\<lambda>sp s'. fits sp \<and> kept E (snd s) (snd s') \<and> api_uri (fst (fst s')) = uri))"

locale acquisition = asyn_params E strs for E :: "'s env" and strs +
  fixes uri :: string
  assumes env: "undisturbed_env E uri"
begin

subsection \<open>Steps that keep the acquisition\<close>

definition dkept :: "'s drv_state \<Rightarrow> 's drv_state \<Rightarrow> bool" where
  "dkept s s' \<longleftrightarrow> kept E (snd s) (snd s') \<and> api_uri (fst (fst s')) = api_uri (fst (fst s))"

definition good :: "'s drv_state \<Rightarrow> bool" where
  "good s \<longleftrightarrow> analyser (drv s) \<noteq> None \<and> api_uri (fst (fst s)) = uri"

definition lkept :: "acq_locals \<Rightarrow> acq_locals \<Rightarrow> bool" where
  "lkept l l' \<longleftrightarrow> al_failed l' = al_failed l \<and> al_acquire l' = al_acquire l \<and> al_imageMode l' = al_imageMode l \<and>
     al_imageCounter l' = al_imageCounter l \<and> al_numImages l' = al_numImages l \<and>
     al_numImagesCounter l' = al_numImagesCounter l \<and> al_spectrum l' = al_spectrum l"

definition dsteady :: "('s, 'a) drv_prog \<Rightarrow> ('a \<Rightarrow> bool) \<Rightarrow> bool" where
  "dsteady m Q \<longleftrightarrow> (\<forall>s. good s \<longrightarrow> returns m s (\<lambda>a s'. Q a \<and> dkept s s'))"

definition asteady :: "('s, 'a) acq_prog \<Rightarrow> ('a \<Rightarrow> bool) \<Rightarrow> bool" where
  "asteady m Q \<longleftrightarrow> (\<forall>l s. good s \<longrightarrow> returns m (l, s) (\<lambda>a t. Q a \<and> lkept l (fst t) \<and> dkept s (snd t)))"

lemma kept_simps [simp]: "kept E t t" "dkept s s" "lkept l l"
  by (simp_all add: kept_def dkept_def lkept_def)

lemma kept_trans:
  "kept E t u \<Longrightarrow> kept E u v \<Longrightarrow> kept E t v" "dkept s s' \<Longrightarrow> dkept s' s'' \<Longrightarrow> dkept s s''"
  "lkept l l' \<Longrightarrow> lkept l' l'' \<Longrightarrow> lkept l l''"
  by (auto simp: kept_def dkept_def lkept_def)

lemma good_kept: "good s \<Longrightarrow> dkept s s' \<Longrightarrow> good s'"
  by (simp add: good_def dkept_def kept_def drv_def)

lemma dsteadyD: "dsteady m Q \<Longrightarrow> good s \<Longrightarrow> returns m s (\<lambda>a s'. Q a \<and> dkept s s')"
  unfolding dsteady_def by blast

lemma asteadyD: "asteady m Q \<Longrightarrow> good s \<Longrightarrow> returns m (l, s) (\<lambda>a t. Q a \<and> lkept l (fst t) \<and> dkept s (snd t))"
  unfolding asteady_def by blast

lemma dsteady_bnd:
  assumes "dsteady m P" and "\<And>a. P a \<Longrightarrow> dsteady (f a) Q"
  shows "dsteady (bnd m f) Q"
  unfolding dsteady_def
proof (intro allI impI returns_bnd)
  fix s
  assume s: "good s"
  from dsteadyD [OF assms(1) this] show "returns m s (\<lambda>a s'. returns (f a) s' (\<lambda>b s''. Q b \<and> dkept s s''))"
  proof (rule returns_mono)
    fix a s'
    assume s': "P a \<and> dkept s s'"
    then have "returns (f a) s' (\<lambda>b s''. Q b \<and> dkept s' s'')"
      using assms(2) good_kept [OF s] dsteadyD by blast
    then show "returns (f a) s' (\<lambda>b s''. Q b \<and> dkept s s'')"
      by (rule returns_mono) (use s' kept_trans(2) in blast)
  qed
qed

lemma dsteady_sq: "dsteady m P \<Longrightarrow> dsteady n Q \<Longrightarrow> dsteady (sq m n) Q"
  by (simp add: sq_def dsteady_bnd)

lemma dsteady_simple:
  "Q a \<Longrightarrow> dsteady (retp a) Q" "dsteady (getsp g) (\<lambda>_. True)" "(\<And>a. r = Ret a \<Longrightarrow> Q a) \<Longrightarrow> \<exists>a. r = Ret a \<Longrightarrow> dsteady (liftp r) Q"
  by (auto simp: dsteady_def)

lemma dsteady_netp: "undisturbed E m Q \<Longrightarrow> dsteady (netp m) Q"
  by (auto simp: dsteady_def undisturbed_def dkept_def returns_netp elim: returns_mono)

lemma dsteady_mono: "dsteady m P \<Longrightarrow> (\<And>a. P a \<Longrightarrow> Q a) \<Longrightarrow> dsteady m Q"
  unfolding dsteady_def by (blast intro: returns_mono)

lemma asteady_bnd:
  assumes "asteady m P" and "\<And>a. P a \<Longrightarrow> asteady (f a) Q"
  shows "asteady (bnd m f) Q"
  unfolding asteady_def
proof (intro allI impI returns_bnd)
  fix l s
  assume s: "good s"
  from asteadyD [OF assms(1) this] show "returns m (l, s) (\<lambda>a t. returns (f a) t (\<lambda>b t'. Q b \<and> lkept l (fst t') \<and> dkept s (snd t')))"
  proof (rule returns_mono)
    fix a t
    assume t: "P a \<and> lkept l (fst t) \<and> dkept s (snd t)"
    then have "returns (f a) (fst t, snd t) (\<lambda>b t'. Q b \<and> lkept (fst t) (fst t') \<and> dkept (snd t) (snd t'))"
      using assms(2) good_kept [OF s] asteadyD by blast
    then have "returns (f a) t (\<lambda>b t'. Q b \<and> lkept (fst t) (fst t') \<and> dkept (snd t) (snd t'))" by simp
    then show "returns (f a) t (\<lambda>b t'. Q b \<and> lkept l (fst t') \<and> dkept s (snd t'))"
      by (rule returns_mono) (use t kept_trans in blast)
  qed
qed

lemma asteady_sq: "asteady m P \<Longrightarrow> asteady n Q \<Longrightarrow> asteady (sq m n) Q"
  by (simp add: sq_def asteady_bnd)

lemma asteady_simple:
  "Q a \<Longrightarrow> asteady (retp a) Q" "asteady (lget g) (\<lambda>_. True)" "(\<And>l. lkept l (f l)) \<Longrightarrow> asteady (lupd f) (\<lambda>_. True)"
  by (auto simp: asteady_def lget_def lupd_def)

lemma asteady_netp: "dsteady m Q \<Longrightarrow> asteady (netp m) Q"
  by (auto simp: asteady_def dsteady_def returns_netp)

subsection \<open>Calls of the analyser\<close>

lemma client_steps:
  "dsteady (netp (rpc_call (e_rpc E u) m j)) (ready_reply m)" "dsteady (netp (rpc_subscribe (e_rpc E u) t cb)) (\<lambda>_. True)"
  "dsteady (netp (rpc_unsubscribe (e_rpc E u) t)) (\<lambda>_. True)" "dsteady (netp (rpc_notificationServer (e_rpc E u))) (\<lambda>_. True)"
  using env by (auto simp: undisturbed_env_def ready_client_def intro!: dsteady_netp)

lemma call_steps:
  "dsteady (api_call (e_rpc E u) m args) (ready_reply m)" "dsteady (command (e_rpc E u) m args) (\<lambda>_. True)"
  by (auto simp: api_call_def command_def intro!: client_steps dsteady_bnd [where P = "ready_reply m"] dsteady_simple)

lemma dsteady_with_analyser: "(\<And>u. dsteady (k (e_rpc E u)) Q) \<Longrightarrow> dsteady (with_analyser E k) Q"
  unfolding dsteady_def with_analyser_def
  by (auto simp: good_def intro!: returns_bnd split: option.splits)

lemma id_steps:
  "dsteady next_state_id (\<lambda>_. True)" "dsteady next_observable_id (\<lambda>_. True)"
  "(\<And>a. api_uri (f a) = api_uri a) \<Longrightarrow> dsteady (on_api f) (\<lambda>_. True)"
  by (auto simp: dsteady_def next_state_id_def next_observable_id_def on_api_def dkept_def intro!: returns_bnd returns_sq)

lemma observer_steps: "dsteady (observer_args (e_rpc E u)) (\<lambda>_. True)"
  by (auto simp: observer_args_def intro!: client_steps dsteady_bnd [where P = "\<lambda>_. True"] dsteady_simple)

lemma register_steps: "dsteady (register (e_rpc E u) guid topic cb) (\<lambda>_. True)"
  unfolding register_def
  by (intro dsteady_sq [where P = "\<lambda>_. True"] client_steps id_steps dsteady_simple) simp_all

lemma unsubscribe_steps: "dsteady (unsubscribe (e_rpc E u) guid) (\<lambda>_. True)"
  unfolding unsubscribe_def
  by (rule dsteady_bnd [OF dsteady_simple(2)])
    (auto split: option.splits intro!: dsteady_simple dsteady_bnd [OF call_steps(1)] dsteady_sq [OF client_steps(3)] id_steps(3))

lemma subscribe_steps:
  "dsteady (subscribeToState (e_rpc E u) cb) (\<lambda>_. True)"
  "dsteady (subscribeToObservable (e_rpc E u) ob cb mode) (\<lambda>_. True)"
  unfolding subscribeToState_def subscribeToObservable_def Let_def
  by (auto intro!: dsteady_bnd [OF id_steps(1)] dsteady_bnd [OF id_steps(2)] dsteady_bnd [OF observer_steps]
      dsteady_bnd [OF call_steps(1)] dsteady_bnd [where P = "\<lambda>_. True"] dsteady_simple(3) register_steps
      simp: ready_reply_def)

lemma state_steps: "dsteady (currentState (e_rpc E u)) (\<lambda>r. r = ''Active'')"
  unfolding currentState_def
  by (auto intro!: dsteady_bnd [OF call_steps(1)] dsteady_simple(3) simp: ready_reply_def)

lemma define_steps: "dsteady (defineSpectrum (e_rpc E u) d) (\<lambda>_. True)"
  unfolding defineSpectrum_def
  by (auto intro!: dsteady_bnd [OF call_steps(1)] dsteady_simple(3) simp: ready_reply_def)

lemma get_steps: "dsteady (get_drv g) (\<lambda>_. True)"
  by (simp add: dsteady_def)

text \<open>The first frame, and what gives the measurement up, leave the acquisition as it is.\<close>

lemmas drv_steps = state_steps define_steps get_steps call_steps(2) subscribe_steps unsubscribe_steps

lemma first_frame_steps: "asteady (first_frame E) (\<lambda>_. True)"
  unfolding first_frame_def startMeasurement_def setupSpectrum_def
  by (rule asteady_bnd [OF asteady_netp [OF dsteady_with_analyser [where k = currentState, OF state_steps]]])
    (auto intro!: asteady_bnd [where P = "\<lambda>_. True"] asteady_sq [where P = "\<lambda>_. True"] asteady_netp
      dsteady_with_analyser drv_steps asteady_simple simp: lkept_def)

lemma give_up_steps:
  "asteady (give_up_state E) (\<lambda>_. True)" "asteady (give_up_acquired E) (\<lambda>_. True)" "asteady (finish_spectrum E) (\<lambda>_. True)"
  unfolding give_up_state_def give_up_acquired_def finish_spectrum_def finishSpectrum_def
  by (auto intro!: asteady_bnd [where P = "\<lambda>_. True"] asteady_sq [where P = "\<lambda>_. True"] asteady_netp
      dsteady_with_analyser drv_steps asteady_simple simp: lkept_def)

subsection \<open>One pass\<close>

lemma run_steady:
  assumes "asteady m P" and "good s" and "\<And>a l' s'. P a \<Longrightarrow> lkept l l' \<Longrightarrow> dkept s s' \<Longrightarrow> good s' \<Longrightarrow> R a (l', s')"
  shows "returns m (l, s) R"
proof (rule returns_mono [OF asteadyD [OF assms(1,2)]])
  fix a t
  assume "P a \<and> lkept l (fst t) \<and> dkept s (snd t)"
  then have "R a (fst t, snd t)" using good_kept [OF assms(2)] by (intro assms(3)) auto
  then show "R a t" by simp
qed

lemma run_undisturbed:
  assumes "undisturbed E m P" and "\<And>a t'. P a \<Longrightarrow> kept E t t' \<Longrightarrow> R a t'"
  shows "returns m t R"
  by (rule returns_mono [OF spec [OF assms(1) [unfolded undisturbed_def], of t]]) (use assms(2) in blast)

lemma run_dsteady:
  assumes "dsteady m P" and "good s" and "\<And>a s'. P a \<Longrightarrow> dkept s s' \<Longrightarrow> good s' \<Longrightarrow> R a s'"
  shows "returns m s R"
  by (rule returns_mono [OF dsteadyD [OF assms(1,2)]]) (use assms(3) good_kept [OF assms(2)] in blast)

lemma run_sq:
  assumes "asteady m P" and "good s" and "lkept l0 l" and "dkept s0 s"
    and "\<And>l' s'. lkept l0 l' \<Longrightarrow> dkept s0 s' \<Longrightarrow> good s' \<Longrightarrow> returns n (l', s') R"
  shows "returns (sq m n) (l, s) R"
  by (rule returns_sq, rule run_steady [OF assms(1,2)], rule assms(5)) (use assms(3,4) kept_trans in blast)+

lemma run_bnd:
  assumes "asteady m P" and "good s" and "lkept l0 l" and "dkept s0 s"
    and "\<And>a l' s'. P a \<Longrightarrow> lkept l0 l' \<Longrightarrow> dkept s0 s' \<Longrightarrow> good s' \<Longrightarrow> returns (f a) (l', s') R"
  shows "returns (bnd m f) (l, s) R"
  by (rule returns_bnd, rule run_steady [OF assms(1,2)], rule assms(5)) (use assms(3,4) kept_trans in blast)+

text \<open>Steps on parameters and locals.\<close>

lemma view_sets [simp]:
  "view E (int_set E ADAcquire n w) = (view E w)\<lparr>v_acquire := n\<rparr>"
  "view E (int_set E ADStatus n w) = (view E w)\<lparr>v_status := n\<rparr>"
  "view E (int_set E ADNumExposuresCounter n w) = (view E w)\<lparr>v_exposuresCounter := n\<rparr>"
  "view E (int_set E ADNumImagesCounter n w) = (view E w)\<lparr>v_imagesCounter := n\<rparr>"
  "view E (int_set E NDArrayCounter n w) = (view E w)\<lparr>v_array := n\<rparr>"
  "view E (dbl_set E p x w) = view E w" "view E (str_set E p t w) = view E w" "view E (called_back E w) = view E w"
  by (simp_all add: view_def param_laws Let_def)

lemma view_reads:
  "p_int (e_asyn E) ADAcquire w = v_acquire (view E w)" "p_int (e_asyn E) ADStatus w = v_status (view E w)"
  "p_int (e_asyn E) ADImageMode w = v_mode (view E w)" "p_int (e_asyn E) ADNumExposures w = v_exposures (view E w)"
  "p_int (e_asyn E) ADNumExposuresCounter w = v_exposuresCounter (view E w)"
  "p_int (e_asyn E) ADNumImages w = v_images (view E w)"
  "p_int (e_asyn E) ADNumImagesCounter w = v_imagesCounter (view E w)"
  "p_int (e_asyn E) NDArrayCounter w = v_array (view E w)"
  by (simp_all add: view_def Let_def)

lemma lock_steps:
  "dsteady (netp (e_lock E)) (\<lambda>_. True)" "dsteady (netp (e_unlock E)) (\<lambda>_. True)"
  "dsteady (netp (e_wait E StopEvent)) (\<lambda>_. True)" "dsteady (netp (e_try_wait E StopEvent)) (\<lambda>_. True)"
  "dsteady (envp (e_time E)) (\<lambda>_. True)" "dsteady (envp (e_alloc E ns)) id" "dsteady (envp (e_attributes E)) (\<lambda>_. True)"
  "dsteady (envp (e_array E a k)) (\<lambda>_. True)" "dsteady (envp (e_release E)) (\<lambda>_. True)"
  using env by (auto simp: undisturbed_env_def envp_def intro!: dsteady_netp)

lemma env_steps:
  "asteady (netp (netp (e_lock E))) (\<lambda>_. True)" "asteady (netp (netp (e_unlock E))) (\<lambda>_. True)"
  "asteady (netp (netp (e_wait E StopEvent))) (\<lambda>_. True)" "asteady (netp (netp (e_try_wait E StopEvent))) (\<lambda>_. True)"
  "asteady (netp (upd_task (\<lambda>t. t\<lparr>tv_numStepsCounter := c\<rparr>))) (\<lambda>_. True)"
  "asteady (netp (with_analyser E (\<lambda>R. command R m j))) (\<lambda>_. True)"
  by (auto simp: dsteady_def upd_task_def dkept_def kept_def drv_def world_def
    intro!: asteady_netp lock_steps dsteady_with_analyser [where k = "\<lambda>R. command R m j"] call_steps)

text \<open>The numbers the callbacks refer to, and the state after an exposure.\<close>

definition exposing :: "'s drv_state \<Rightarrow> int \<Rightarrow> int \<Rightarrow> bool" where
  "exposing s c n \<longleftrightarrow> tv_numExposuresCounter (task (drv s)) = c \<and> tv_numExposures (task (drv s)) = n"

lemma dkept_facts:
  assumes "dkept s s'"
  shows "view E (world s') = view E (world s)" "exposing s' c n = exposing s c n"
    "tv_numExposuresCounter (task (drv s')) = tv_numExposuresCounter (task (drv s))"
  using assms by (auto simp: dkept_def kept_def exposing_def drv_def world_def)

lemma lkept_set: "lkept l l' \<Longrightarrow> lkept l (l'\<lparr>al_acquire := n\<rparr>) \<longleftrightarrow> n = al_acquire l"
  by (auto simp: lkept_def)

lemma good_put [simp]: "good (put_world w s) = good s" "exposing (put_world w s) c n = exposing s c n"
  by (simp_all add: good_def exposing_def)

lemma expose_run:
  assumes "good s" and "exposing s c n" and "v_acquire (view E (world s)) \<noteq> 0"
    and "al_acquire l = v_acquire (view E (world s))"
  shows "returns (expose E) (l, s) (\<lambda>ab t. \<not> ab \<and> lkept l (fst t) \<and> good (snd t) \<and> exposing (snd t) c n \<and>
    view E (world (snd t)) = (view E (world s))\<lparr>v_exposuresCounter := c\<rparr>)"
  unfolding expose_def start_acquisition_def
  apply (rule run_sq [OF env_steps(5) assms(1) kept_simps(3,2)], rule run_sq [OF env_steps(4)], assumption+,
    rule run_bnd [OF asteady_simple(2)], assumption+, rule run_sq [OF env_steps(6)], assumption+,
    rule run_sq [OF env_steps(3)], assumption+, rule run_sq [OF env_steps(1)], assumption+)
  by (use assms(2-) in \<open>simp add: netp_distrib returns_netp dkept_facts view_reads\<close>)
    (rule run_dsteady [OF lock_steps(2)], simp, simp add: dkept_facts lkept_set, simp add: exposing_def)

text \<open>All exposures of an image.\<close>

lemma next_exposure_run:
  assumes "exposing s c n" and "0 \<le> c" and "c < 2147483647"
  shows "returns next_exposure s R \<longleftrightarrow>
    R (c < n) (fst s, ((drv s)\<lparr>task := (task (drv s))\<lparr>tv_numExposuresCounter := c + 1\<rparr>\<rparr>, world s))"
  using assms by (auto simp: next_exposure_def upd_task_def exposing_def c_add_def i32_def in_i32_def)

lemma good_next [simp]:
  "good (fst s, ((drv s)\<lparr>task := t\<rparr>, world s)) = good s"
  "exposing (fst s, ((drv s)\<lparr>task := (task (drv s))\<lparr>tv_numExposuresCounter := c\<rparr>\<rparr>, world s)) c' n \<longleftrightarrow>
    c' = c \<and> n = tv_numExposures (task (drv s))"
  by (auto simp: good_def exposing_def)

lemma exposures_run:
  assumes "good s" and "exposing s c n" and "v_acquire (view E (world s)) \<noteq> 0"
    and "al_acquire l = v_acquire (view E (world s))" and "0 \<le> c" and "c < 2147483647" and "n < 2147483647"
  shows "returns (exposures E) (l, s) (\<lambda>_ t. lkept l (fst t) \<and> good (snd t) \<and>
    view E (world (snd t)) = (view E (world s))\<lparr>v_exposuresCounter := if c < n then n else v_exposuresCounter (view E (world s))\<rparr>)"
  using assms
proof (induction "nat (n - c)" arbitrary: s c l rule: less_induct)
  case less
  let ?s = "(fst s, ((drv s)\<lparr>task := (task (drv s))\<lparr>tv_numExposuresCounter := c + 1\<rparr>\<rparr>, world s))"
  let ?v = "view E (world s)"
  have step: "returns (exposures E) (l, s) Q \<longleftrightarrow>
      (if c < n then returns (bnd (expose E) (\<lambda>aborted. if aborted then retp () else exposures E)) (l, ?s) Q else Q () (l, ?s))" for Q
    using less.prems by (subst returns_def, subst exposures.simps, subst returns_def [symmetric])
      (simp add: returns_netp next_exposure_run)
  show ?case
  proof (cases "c < n")
    case False
    with less.prems(1) show ?thesis by (simp add: step)
  next
    case True
    have "returns (expose E) (l, ?s) (\<lambda>ab t. \<not> ab \<and> lkept l (fst t) \<and> good (snd t) \<and> exposing (snd t) (c + 1) n \<and>
        view E (world (snd t)) = ?v\<lparr>v_exposuresCounter := c + 1\<rparr>)"
      using expose_run [of ?s "c + 1" n l] less.prems by (simp add: exposing_def)
    then have "returns (bnd (expose E) (\<lambda>aborted. if aborted then retp () else exposures E)) (l, ?s)
      (\<lambda>_ t. lkept l (fst t) \<and> good (snd t) \<and> view E (world (snd t)) = ?v\<lparr>v_exposuresCounter := n\<rparr>)"
    proof (simp, elim returns_mono, goal_cases)
      case (1 ab t)
      then have t: "\<not> ab" "lkept l (fst t)" "good (snd t)" "exposing (snd t) (c + 1) n"
        "view E (world (snd t)) = ?v\<lparr>v_exposuresCounter := c + 1\<rparr>" by simp_all
      have "returns (exposures E) (fst t, snd t) (\<lambda>_ t'. lkept (fst t) (fst t') \<and> good (snd t') \<and>
          view E (world (snd t')) = (view E (world (snd t)))\<lparr>v_exposuresCounter :=
            if c + 1 < n then n else v_exposuresCounter (view E (world (snd t)))\<rparr>)"
        using less.prems True t by (intro less.hyps) (auto simp: lkept_def)
      then show ?case
        using t(1,2,5) True by (auto elim!: returns_mono intro: kept_trans(3))
    qed
    with True show ?thesis by (simp add: step)
  qed
qed

text \<open>The waiting for the command and the reading of the counters.\<close>

lemma idle_run:
  assumes "good s" and "v_acquire (view E (world s)) \<noteq> 0 \<longrightarrow> \<not> al_failed l"
  shows "returns (idle E) (l, s) (\<lambda>_ t. \<not> al_failed (fst t) \<and> good (snd t) \<and>
    al_acquire (fst t) = v_acquire (view E (world (snd t))) \<and> v_acquire (view E (world (snd t))) \<noteq> 0 \<and>
    (view E (world (snd t)))\<lparr>v_exposuresCounter := 0\<rparr> = (started E (view E (world s)))\<lparr>v_exposuresCounter := 0\<rparr>)"
proof (cases "v_acquire (view E (world s)) = 0")
  case False
  with assms show ?thesis
    by (simp add: idle_def returns_netp view_reads started_def)
next
  case True
  have start: "returns (await_start E) s (\<lambda>_ s'. good s' \<and> view E (world s') = (view E (world s))\<lparr>v_acquire := 1\<rparr>)"
  proof -
    have w: "returns (sq (netp (e_unlock E)) (sq (netp (e_wait E StartEvent)) (netp (e_lock E)))) s1
      (\<lambda>_ s'. good s' \<and> view E (world s') = (view E (world s1))\<lparr>v_acquire := 1\<rparr>)" if "good s1" for s1
    proof (simp, rule run_dsteady [OF lock_steps(2) that])
      fix a :: unit and s2
      assume s2: "dkept s1 s2" "good s2"
      have "start_given E" using env by (simp add: undisturbed_env_def)
      then have "returns (e_wait E StartEvent) (snd s2) (\<lambda>_ t'. analyser (fst t') = analyser (fst (snd s2)) \<and>
          view E (snd t') = (view E (snd (snd s2)))\<lparr>v_acquire := 1\<rparr>)"
        unfolding start_given_def by blast
      then have "returns (netp (e_wait E StartEvent)) (fst s2, snd s2) (\<lambda>_ s3. good s3 \<and>
          view E (world s3) = (view E (world s2))\<lparr>v_acquire := 1\<rparr>)"
        unfolding returns_netp by (rule returns_mono) (use s2(2) in \<open>simp add: good_def drv_def world_def\<close>)
      then have "returns (netp (e_wait E StartEvent)) s2 (\<lambda>_ s3. good s3 \<and>
          view E (world s3) = (view E (world s2))\<lparr>v_acquire := 1\<rparr>)" by simp
      then show "returns (netp (e_wait E StartEvent)) s2 (\<lambda>_ t'. returns (netp (e_lock E)) t'
          (\<lambda>_ s'. good s' \<and> view E (world s') = (view E (world s1))\<lparr>v_acquire := 1\<rparr>))"
        by (rule returns_mono) (rule run_dsteady [OF lock_steps(1)], use s2(1) in \<open>auto simp: dkept_facts(1)\<close>)
    qed
    show ?thesis
      using w [OF assms(1)] w [of "put_world (called_back E (str_set E ADStatusMessage ''Waiting for the acquire command'' (world s))) s"]
        assms(1) by (simp add: await_start_def)
  qed
  show ?thesis
    unfolding idle_def begin_acquisition_def
    by (simp add: returns_netp view_reads True, rule returns_mono [OF start])
      (auto simp: netp_distrib returns_netp view_reads started_def True)
qed

lemma prepare_run:
  assumes "good s"
  shows "returns (prepare E) (l, s) (\<lambda>_ t. good (snd t) \<and> exposing (snd t) 0 (v_exposures (view E (world s))) \<and>
    view E (world (snd t)) = (view E (world s))\<lparr>v_exposuresCounter := 0\<rparr> \<and>
    al_failed (fst t) = al_failed l \<and> al_acquire (fst t) = al_acquire l \<and>
    al_imageMode (fst t) = v_mode (view E (world s)) \<and> al_numImages (fst t) = v_images (view E (world s)) \<and>
    al_imageCounter (fst t) = v_array (view E (world s)) \<and> al_numImagesCounter (fst t) = v_imagesCounter (view E (world s)))"
  unfolding prepare_def
  apply (simp add: returns_netp, rule run_dsteady [OF lock_steps(5) assms])
   apply (simp add: returns_netp view_reads upd_task_def)
  apply (rule run_undisturbed [of _ "\<lambda>_. True"])
   apply (use env in \<open>simp add: undisturbed_env_def\<close>)
  apply (simp add: dkept_facts exposing_def good_def view_reads kept_def drv_def world_def)
  apply (auto simp: dkept_def kept_def)
  done

text \<open>The data of an image, its delivery and the end of the acquisition.\<close>

lemma measured_steps:
  "dsteady (with_analyser E (\<lambda>R. getMeasuredSpectrum R (e_new_client E) (e_net E) (e_files E) i)) fits"
  using env by (intro dsteady_with_analyser) (auto simp: dsteady_def undisturbed_env_def good_def dkept_def)

lemma finish_frame_run:
  assumes "good s" and "al_acquire l \<noteq> 0" and "in_i32 (al_imageCounter l + 1)" and "in_i32 (al_numImagesCounter l + 1)"
  shows "returns (finish_frame E) (l, s) (\<lambda>_ t. dkept s (snd t) \<and> good (snd t) \<and> fits (al_spectrum (fst t)) \<and>
    lkept (l\<lparr>al_imageCounter := al_imageCounter l + 1, al_numImagesCounter := al_numImagesCounter l + 1,
      al_spectrum := al_spectrum (fst t)\<rparr>) (fst t))"
proof -
  have give_up: "asteady (sq (give_up_state E) (sq (give_up_acquired E) (sq (finish_spectrum E)
      (netp (with_analyser E finishMeasurement))))) (\<lambda>_. True)"
    unfolding finishMeasurement_def
    by (intro asteady_sq [where P = "\<lambda>_. True"] give_up_steps asteady_netp
      dsteady_with_analyser [where k = "\<lambda>R. command R ''FinishMeasurement'' []"] call_steps)
  show ?thesis
    unfolding finish_frame_def
  proof (simp only: returns_steps returns_leaves returns_netp, rule run_dsteady [OF measured_steps assms(1)], goal_cases)
    case (1 sp s')
    let ?l = "l\<lparr>al_spectrum := sp, al_imageCounter := al_imageCounter l + 1, al_numImagesCounter := al_numImagesCounter l + 1\<rparr>"
    have up: "returns (whenp b (sq (give_up_state E) (sq (give_up_acquired E) (sq (finish_spectrum E)
        (netp (with_analyser E finishMeasurement)))))) (?l, s') (\<lambda>_ t. dkept s' (snd t) \<and> good (snd t) \<and> lkept ?l (fst t))" for b
    proof (cases b)
      case True
      then show ?thesis using asteadyD [OF give_up 1(3), of ?l] good_kept [OF 1(3)] by (auto elim!: returns_mono)
    qed (use 1(3) in simp)
    have "returns (whenp (is_complete E ?l) (sq (give_up_state E) (sq (give_up_acquired E) (sq (finish_spectrum E)
        (netp (with_analyser E finishMeasurement)))))) (?l, s') (\<lambda>_ t. dkept s (snd t) \<and> good (snd t) \<and>
        fits (al_spectrum (fst t)) \<and> lkept (l\<lparr>al_imageCounter := al_imageCounter l + 1,
          al_numImagesCounter := al_numImagesCounter l + 1, al_spectrum := al_spectrum (fst t)\<rparr>) (fst t))"
      by (rule returns_mono [OF up]) (use 1 kept_trans(2) [of s s'] in \<open>auto simp: lkept_def\<close>)
    then show ?case using assms(2-4) by (simp add: c_add_def)
  qed
qed

lemma acquire_frame_run:
  assumes "good s" and "exposing s 0 n" and "n < 2147483647" and "v_acquire (view E (world s)) \<noteq> 0"
    and "v_exposuresCounter (view E (world s)) = 0" and "al_acquire l = v_acquire (view E (world s))"
    and "in_i32 (al_imageCounter l + 1)" and "in_i32 (al_numImagesCounter l + 1)"
  shows "returns (acquire_frame E) (l, s) (\<lambda>_ t. good (snd t) \<and> fits (al_spectrum (fst t)) \<and>
    view E (world (snd t)) = (view E (world s))\<lparr>v_exposuresCounter := max 0 n\<rparr> \<and>
    lkept (l\<lparr>al_imageCounter := al_imageCounter l + 1, al_numImagesCounter := al_numImagesCounter l + 1,
      al_spectrum := al_spectrum (fst t)\<rparr>) (fst t))"
proof -
  have first: "asteady (whenp b (first_frame E)) (\<lambda>_. True)" for b
    by (cases b) (auto intro: first_frame_steps asteady_simple)
  have clear: "asteady (netp (with_analyser E (\<lambda>R. clearSpectrum R i))) (\<lambda>_. True)" for i
    unfolding clearSpectrum_def by (rule env_steps(6))
  show ?thesis
    unfolding acquire_frame_def
  proof (rule run_bnd [OF asteady_simple(2) assms(1) kept_simps(3,2)], rule run_sq [OF first], assumption+,
      rule run_bnd [OF asteady_simple(2)], assumption+, rule run_sq [OF clear], assumption+, goal_cases)
    case (1 i l1 s1 l2 s2 i' l3 s3 l4 s4)
    then have "returns (exposures E) (l4, s4) (\<lambda>_ t. lkept l4 (fst t) \<and> good (snd t) \<and>
        view E (world (snd t)) = (view E (world s4))\<lparr>v_exposuresCounter :=
          if 0 < n then n else v_exposuresCounter (view E (world s4))\<rparr>)"
      using assms by (intro exposures_run) (auto simp: dkept_facts lkept_def)
    then show ?case
    proof (simp only: returns_steps, elim returns_mono, goal_cases)
      case (1 a t)
      then have "returns (finish_frame E) (fst t, snd t) (\<lambda>_ u. dkept (snd t) (snd u) \<and> good (snd u) \<and>
          fits (al_spectrum (fst u)) \<and> lkept ((fst t)\<lparr>al_imageCounter := al_imageCounter (fst t) + 1,
            al_numImagesCounter := al_numImagesCounter (fst t) + 1, al_spectrum := al_spectrum (fst u)\<rparr>) (fst u))"
        using assms \<open>lkept l l4\<close> by (intro finish_frame_run) (auto simp: lkept_def dkept_facts)
      then have "returns (finish_frame E) t (\<lambda>_ u. dkept (snd t) (snd u) \<and> good (snd u) \<and>
          fits (al_spectrum (fst u)) \<and> lkept ((fst t)\<lparr>al_imageCounter := al_imageCounter (fst t) + 1,
            al_numImagesCounter := al_numImagesCounter (fst t) + 1, al_spectrum := al_spectrum (fst u)\<rparr>) (fst u))"
        by simp
      then show ?case
      proof (rule returns_mono, goal_cases)
        case (1 b u)
        moreover from \<open>lkept l l4\<close> \<open>lkept l4 (fst t) \<and> _\<close> have "lkept l (fst t)" by (auto intro: kept_trans(3))
        moreover have "view E (world (snd u)) = view E (world (snd t))" using 1 dkept_facts(1) by blast
        moreover note \<open>lkept l4 (fst t) \<and> _\<close> dkept_facts(1) [OF \<open>dkept s s4\<close>] assms(5)
        ultimately show ?case by (auto simp: max_def lkept_def)
      qed
    qed
  qed
qed

lemma make_image_steps: "fits sp \<Longrightarrow> dsteady (make_image E sp i t) (\<lambda>_. True)"
  unfolding make_image_def
  by (rule dsteady_bnd [OF lock_steps(6)]) (simp add: fits_def dsteady_simple)

lemma callback_steps:
  "dsteady (whenp b (sq (netp (e_unlock E)) (sq (envp (e_array E a k)) (netp (e_lock E))))) (\<lambda>_. True)"
  by (cases b) (auto intro!: dsteady_sq [where P = "\<lambda>_. True"] lock_steps dsteady_simple)

lemma deliver_image_run:
  assumes "good s" and "fits (al_spectrum l)"
  shows "returns (deliver_image E l) s (\<lambda>_ s'. good s' \<and>
    view E (world s') = (view E (world s))\<lparr>v_array := al_imageCounter l, v_imagesCounter := al_numImagesCounter l\<rparr>)"
proof -
  have "dsteady (bnd (make_image E (al_spectrum l) (al_imageCounter l) (al_startTime l)) (\<lambda>pImage.
      sq (envp (e_attributes E))
      (bnd (getIntegerParam E NDArrayCallbacks) (\<lambda>arrayCallbacks.
      sq (whenp (arrayCallbacks \<noteq> 0)
           (sq (netp (e_unlock E)) (sq (envp (e_array E pImage 0)) (netp (e_lock E)))))
      (envp (e_release E)))))) (\<lambda>_. True)"
    using assms(2) by (auto simp: getIntegerParam_def intro!: dsteady_bnd [OF make_image_steps]
        dsteady_sq [where P = "\<lambda>_. True"] dsteady_bnd [OF dsteady_simple(2)] lock_steps callback_steps)
  then have rest: "returns (bnd (make_image E (al_spectrum l) (al_imageCounter l) (al_startTime l)) (\<lambda>pImage.
      sq (envp (e_attributes E))
      (bnd (getIntegerParam E NDArrayCallbacks) (\<lambda>arrayCallbacks.
      sq (whenp (arrayCallbacks \<noteq> 0)
           (sq (netp (e_unlock E)) (sq (envp (e_array E pImage 0)) (netp (e_lock E)))))
      (envp (e_release E)))))) s1 (\<lambda>_ s'. good s' \<and> view E (world s') = view E (world s1))" if "good s1" for s1
    by (rule run_dsteady [OF _ that]) (simp add: dkept_facts)
  show ?thesis
    unfolding deliver_image_def
    by (simp only: returns_steps(1) returns_set, rule returns_mono [OF rest]) (use assms(1) in simp_all)
qed

lemma conclude_run:
  assumes "good s" and "fits (al_spectrum l)" and "\<not> al_failed l" and "al_acquire l \<noteq> 0"
    and "v_acquire (view E (world s)) \<noteq> 0" and "al_imageMode l = v_mode (view E (world s))"
    and "al_numImages l = v_images (view E (world s))"
  shows "returns (conclude E) (l, s) (\<lambda>_ t. good (snd t) \<and> \<not> al_failed (fst t) \<and> view E (world (snd t)) =
    completed E ((view E (world s))\<lparr>v_array := al_imageCounter l, v_imagesCounter := al_numImagesCounter l\<rparr>))"
  unfolding conclude_def
  using assms
  by (simp add: returns_netp, intro returns_mono [OF deliver_image_run])
    (auto simp: complete_image_def returns_netp view_reads is_complete_def completed_def last_image_def)

text \<open>One pass refines the abstract pass.\<close>

lemma view_same:
  "a\<lparr>v_exposuresCounter := 0\<rparr> = b\<lparr>v_exposuresCounter := 0\<rparr> \<Longrightarrow> v_acquire a = v_acquire b \<and> v_mode a = v_mode b \<and>
    v_exposures a = v_exposures b \<and> v_images a = v_images b \<and> v_imagesCounter a = v_imagesCounter b \<and> v_array a = v_array b"
  by (cases a, cases b) simp

lemma acquisition_pass_run:
  assumes "good s" and "v_acquire (view E (world s)) \<noteq> 0 \<longrightarrow> \<not> al_failed l" and "v = view E (world s)"
    and "v_exposures v < 2147483647" and "in_i32 (v_array v + 1)" and "in_i32 (v_imagesCounter v + 1)"
  shows "returns (acquisition_pass E) (l, s) (\<lambda>_ t. good (snd t) \<and> \<not> al_failed (fst t) \<and> view E (world (snd t)) = spec_pass E v)"
  unfolding acquisition_pass_def
proof (simp only: returns_steps(1), rule returns_mono [OF idle_run [OF assms(1,2)]], goal_cases)
  case idle: (1 a t)
  let ?v = "view E (world (snd t))"
  from idle assms(3) have v: "?v\<lparr>v_exposuresCounter := 0\<rparr> = (started E v)\<lparr>v_exposuresCounter := 0\<rparr>" by simp
  from view_same [OF this] have same: "v_acquire ?v = v_acquire (started E v)" "v_mode ?v = v_mode (started E v)"
    "v_exposures ?v = v_exposures (started E v)" "v_images ?v = v_images (started E v)"
    "v_imagesCounter ?v = v_imagesCounter (started E v)" "v_array ?v = v_array (started E v)" by simp_all
  have bounds: "v_exposures (started E v) < 2147483647" "in_i32 (v_array (started E v) + 1)"
    "in_i32 (v_imagesCounter (started E v) + 1)"
    using assms(4-6) by (auto simp: started_def in_i32_def)
  from idle have "returns (prepare E) (fst t, snd t) (\<lambda>_ u. good (snd u) \<and> exposing (snd u) 0 (v_exposures ?v) \<and>
    view E (world (snd u)) = ?v\<lparr>v_exposuresCounter := 0\<rparr> \<and>
    al_failed (fst u) = al_failed (fst t) \<and> al_acquire (fst u) = al_acquire (fst t) \<and>
    al_imageMode (fst u) = v_mode ?v \<and> al_numImages (fst u) = v_images ?v \<and>
    al_imageCounter (fst u) = v_array ?v \<and> al_numImagesCounter (fst u) = v_imagesCounter ?v)"
    by (intro prepare_run) simp
  then have "returns (prepare E) t (\<lambda>_ u. good (snd u) \<and> exposing (snd u) 0 (v_exposures ?v) \<and>
    view E (world (snd u)) = ?v\<lparr>v_exposuresCounter := 0\<rparr> \<and>
    al_failed (fst u) = al_failed (fst t) \<and> al_acquire (fst u) = al_acquire (fst t) \<and>
    al_imageMode (fst u) = v_mode ?v \<and> al_numImages (fst u) = v_images ?v \<and>
    al_imageCounter (fst u) = v_array ?v \<and> al_numImagesCounter (fst u) = v_imagesCounter ?v)"
    by simp
  then show ?case
  proof (rule returns_mono, goal_cases)
    case prep: (1 b u)
    have "returns (acquire_frame E) (fst u, snd u) (\<lambda>_ x. good (snd x) \<and> fits (al_spectrum (fst x)) \<and>
      view E (world (snd x)) = (view E (world (snd u)))\<lparr>v_exposuresCounter := max 0 (v_exposures ?v)\<rparr> \<and>
      lkept ((fst u)\<lparr>al_imageCounter := al_imageCounter (fst u) + 1, al_numImagesCounter := al_numImagesCounter (fst u) + 1,
        al_spectrum := al_spectrum (fst x)\<rparr>) (fst x))"
      using prep idle bounds same assms(3) by (intro acquire_frame_run) auto
    then have "returns (try_catch (acquire_frame E) (failed_frame E)) u (\<lambda>_ x. good (snd x) \<and> fits (al_spectrum (fst x)) \<and>
      view E (world (snd x)) = (view E (world (snd u)))\<lparr>v_exposuresCounter := max 0 (v_exposures ?v)\<rparr> \<and>
      lkept ((fst u)\<lparr>al_imageCounter := al_imageCounter (fst u) + 1, al_numImagesCounter := al_numImagesCounter (fst u) + 1,
        al_spectrum := al_spectrum (fst x)\<rparr>) (fst x))"
      using returns_try by simp
    then show ?case
    proof (rule returns_mono, goal_cases)
      case frame: (1 c x)
      have "returns (netp (netp (e_lock E))) (fst x, snd x) (\<lambda>_ y. returns (conclude E) y (\<lambda>_ t. good (snd t) \<and>
          \<not> al_failed (fst t) \<and> view E (world (snd t)) = spec_pass E v))"
      proof (rule run_steady [OF env_steps(1)], goal_cases)
        case (2 d l' s')
        have w: "view E (world s') = (started E v)\<lparr>v_exposuresCounter := max 0 (v_exposures (started E v))\<rparr>"
          using dkept_facts(1) [OF 2(3)] frame prep v same by simp
        have l': "al_imageMode l' = v_mode (started E v)" "al_numImages l' = v_images (started E v)"
          "al_imageCounter l' = v_array (started E v) + 1" "al_numImagesCounter l' = v_imagesCounter (started E v) + 1"
          "\<not> al_failed l'" "al_acquire l' \<noteq> 0" "v_acquire (started E v) \<noteq> 0" "fits (al_spectrum l')"
          using 2(2) frame prep idle same by (auto simp: lkept_def)
        have "returns (conclude E) (l', s') (\<lambda>_ t. good (snd t) \<and> \<not> al_failed (fst t) \<and> view E (world (snd t)) =
            completed E ((view E (world s'))\<lparr>v_array := al_imageCounter l', v_imagesCounter := al_numImagesCounter l'\<rparr>))"
          using 2(4) l' by (intro conclude_run) (simp_all add: w)
        moreover have "completed E ((view E (world s'))\<lparr>v_array := al_imageCounter l', v_imagesCounter := al_numImagesCounter l'\<rparr>)
            = spec_pass E v"
          by (cases "started E v") (simp add: w l' spec_pass_def image_taken_def)
        ultimately show ?case by simp
      qed (use frame in simp)
      then show ?case by simp
    qed
  qed
qed

end

section \<open>Properties\<close>

text \<open>C1: in undisturbed surroundings a pass of the acquisition thread returns, and refines the abstract pass: it starts
  an acquisition if none is running, takes all exposures of one image, counts the image, and ends the acquisition after
  the last image of its mode.\<close>

theorem acquisition_pass_refines:
  assumes "asyn_params E strs" and "undisturbed_env E uri"
    and "analyser (drv s) \<noteq> None" and "api_uri (fst (fst s)) = uri"
    and "v_acquire (view E (world s)) \<noteq> 0 \<longrightarrow> \<not> al_failed l" and "v_exposures (view E (world s)) < 2147483647"
    and "in_i32 (v_array (view E (world s)) + 1)" and "in_i32 (v_imagesCounter (view E (world s)) + 1)"
  shows "\<exists>l' s'. acquisition_pass E (l, s) = Some (Ret (), (l', s')) \<and> \<not> al_failed l' \<and>
    view E (world s') = spec_pass E (view E (world s))"
proof -
  have here: "acquisition E strs uri"
    using assms(1,2) by (intro acquisition.intro acquisition_axioms.intro)
  from assms(3,4) have "acquisition.good uri s" by (simp add: acquisition.good_def [OF here])
  from acquisition.acquisition_pass_run [OF here this assms(5) refl assms(6-8)]
  show ?thesis by (auto simp: returns_def)
qed

text \<open>Passes of the thread one after the other.\<close>

primrec passes :: "nat \<Rightarrow> 's env \<Rightarrow> ('s, unit) acq_prog" where
  "passes 0 E = retp ()"
| "passes (Suc n) E = sq (passes n E) (acquisition_pass E)"

definition after_images :: "'s env \<Rightarrow> nat \<Rightarrow> acq_view \<Rightarrow> acq_view" where
  "after_images E k v = v\<lparr>v_acquire := if int k < v_images v then 1 else 0,
     v_status := e_enum E (if int k < v_images v then ADStatusAcquire else ADStatusIdle),
     v_exposuresCounter := max 0 (v_exposures v), v_imagesCounter := int k, v_array := v_array v + int k\<rparr>"

lemma spec_first_image:
  assumes "v_acquire v = 0" and "v_mode v = e_enum E ADImageMultiple" and "e_enum E ADImageSingle \<noteq> e_enum E ADImageMultiple"
  shows "spec_pass E v = after_images E 1 v"
  using assms by (cases v) (auto simp: spec_pass_def started_def image_taken_def completed_def last_image_def after_images_def)

lemma spec_next_image:
  assumes "v_mode v = e_enum E ADImageMultiple" and "e_enum E ADImageSingle \<noteq> e_enum E ADImageMultiple" and "int k < v_images v"
  shows "spec_pass E (after_images E k v) = after_images E (Suc k) v"
  using assms by (cases v) (auto simp: spec_pass_def started_def image_taken_def completed_def last_image_def after_images_def)

text \<open>C5: in undisturbed surroundings an acquisition of several images, begun in the idle state, takes one image in each
  pass, counts them from one, and is idle again exactly after the last one.\<close>

theorem acquire_images:
  assumes "asyn_params E strs" and "undisturbed_env E uri"
    and "analyser (drv s) \<noteq> None" and "api_uri (fst (fst s)) = uri"
    and "v = view E (world s)" and "v_acquire v = 0" and "v_mode v = e_enum E ADImageMultiple"
    and "e_enum E ADImageSingle \<noteq> e_enum E ADImageMultiple"
    and "v_exposures v < 2147483647" and "0 \<le> v_array v" and "v_array v + v_images v \<le> 2147483647"
    and "in_i32 (v_imagesCounter v + 1)" and "0 < k" and "int k \<le> v_images v"
  shows "\<exists>l' s'. passes k E (l, s) = Some (Ret (), (l', s')) \<and> view E (world s') = after_images E k v"
proof -
  have here: "acquisition E strs uri"
    using assms(1,2) by (intro acquisition.intro acquisition_axioms.intro)
  note pass = acquisition.acquisition_pass_run [OF here]
  have "returns (passes k E) (l, s) (\<lambda>_ t. acquisition.good uri (snd t) \<and> \<not> al_failed (fst t) \<and> view E (world (snd t)) = after_images E k v)"
    using assms(13,14)
  proof (induction k rule: nat_induct_non_zero)
    case 1
    from assms(3,4) have "acquisition.good uri s" by (simp add: acquisition.good_def [OF here])
    from pass [OF this, of l v] show ?case
      using assms spec_first_image [of v E] by (simp add: in_i32_def)
  next
    case (Suc k)
    have "returns (passes k E) (l, s) (\<lambda>_ t. acquisition.good uri (snd t) \<and> \<not> al_failed (fst t) \<and> view E (world (snd t)) = after_images E k v)"
      using Suc by simp
    then show ?case
    proof (simp add: returns_steps, elim returns_mono, goal_cases)
      case (1 a t)
      with pass [of "snd t" "fst t" "after_images E k v"] show ?case
        using Suc.prems Suc.hyps assms(7-11) spec_next_image [of v E k] by (simp add: after_images_def in_i32_def)
    qed
  qed
  then show ?thesis by (auto simp: returns_def)
qed

section \<open>An analyser that is ready\<close>

text \<open>Surroundings with a table of parameters in which every start is given and every call is answered.\<close>

definition ready_answer :: "string \<Rightarrow> json" where
  "ready_answer m =
     (if m = ''GetState'' then JStr ''Active''
      else if m = ''SubscribeToState'' then JObj [(''Id'', JStr ''state'')]
      else if m = ''GetMeasuredSpectrum'' then JObj [(''SpectrumChannels'', JArr [JObj
        [(''CountByteData'', JObj [(''HasValue'', JBool False)]),
         (''SpectrumChannelSettings'', JObj [(''RequestedAxes'', JObj [])])]])]
      else JStr ''id'')"

definition ready_env :: "table env" where
  "ready_env = (table_env ready_answer)\<lparr>e_wait := (\<lambda>ev. if ev = StartEvent
     then modp (\<lambda>t. (fst t, (snd t)\<lparr>t_int := (t_int (snd t))(ADAcquire := 1)\<rparr>)) else retp ())\<rparr>"

lemma ready_sel [simp]:
  "e_lock ready_env = retp ()" "e_unlock ready_env = retp ()" "e_try_wait ready_env ev = retp ()"
  "e_wait ready_env StopEvent = retp ()" "e_time ready_env = retp (0, 0)" "e_alloc ready_env ns = retp True"
  "e_attributes ready_env = retp ()" "e_array ready_env a n = retp ()" "e_release ready_env = retp ()"
  "e_rpc ready_env u = table_rpc ready_answer" "e_asyn ready_env = table_asyn" "e_enum ready_env = table_enum"
  "e_wait ready_env StartEvent = modp (\<lambda>t. (fst t, (snd t)\<lparr>t_int := (t_int (snd t))(ADAcquire := 1)\<rparr>))"
  "e_new_client ready_env u m js = retp (ready_answer m)"
  by (simp_all add: ready_env_def) (simp_all add: table_env_def)

lemma ready_answer_reply: "ready_reply m (ready_answer m)"
  by (auto simp: ready_reply_def ready_answer_def jidx_def jtouch_def jat_def smap_emplace_def)

lemma undisturbed_retp: "Q a \<Longrightarrow> undisturbed E (retp a) Q" "Q a \<Longrightarrow> undisturbed E (netp (retp a)) Q"
  by (simp_all add: undisturbed_def kept_def) (simp add: returns_def netp_def zoom_def)

definition ready_channel :: json where
  "ready_channel = JObj [(''CountByteData'', JObj [(''HasValue'', JBool False)]),
     (''SpectrumChannelSettings'', JObj [(''RequestedAxes'', JObj [])])]"

lemma ready_spectrum: "fromSpectrumChannel N F ready_channel u empty_spectrum w = Some (Ret empty_spectrum, w)"
proof -
  have "jat ''CountByteData'' ready_channel = Ret (JObj [(''HasValue'', JBool False)])"
    "obind (jat ''SpectrumChannelSettings'' ready_channel) (jat ''RequestedAxes'') = Ret (JObj [])"
    by (simp_all add: ready_channel_def jat_def)
  moreover have "read_axes (JObj []) empty_spectrum = Ret empty_spectrum"
    by (simp add: read_axes_def add_axis_def jcontains_def empty_spectrum_def)
  moreover have "read_samples N F (JObj [(''HasValue'', JBool False)]) u = retp None"
    by (simp add: read_samples_def jat_def retp_def)
  ultimately show ?thesis by (simp add: fromSpectrumChannel_def)
qed

lemma ready_measured:
  assumes "api_uri (fst a) = ''ws://ses/api''"
  shows "getMeasuredSpectrum (table_rpc ready_answer) (e_new_client ready_env) N F i (a, w) = Some (Ret empty_spectrum, (a, w))"
proof -
  have "obind (jidx ''SpectrumChannels'' (ready_answer ''GetMeasuredSpectrum'')) jfront = Ret ready_channel"
    by (simp add: ready_answer_def jidx_def jtouch_def jat_def smap_emplace_def ready_channel_def)
  then show ?thesis
    using assms by (simp add: getMeasuredSpectrum_def table_rpc_def netp_runs netp_run ready_spectrum)
qed

lemma ready_undisturbed: "undisturbed_env ready_env ''ws://ses/api''"
proof -
  have start: "start_given ready_env"
    by (auto simp: start_given_def view_def table_asyn_def returns_def Let_def)
  have client: "ready_client ready_env u" for u
    by (simp add: ready_client_def table_rpc_def undisturbed_retp ready_answer_reply)
  have "returns (getMeasuredSpectrum (table_rpc ready_answer) (e_new_client ready_env) (e_net ready_env) (e_files ready_env) i) s
      (\<lambda>sp s'. fits sp \<and> kept ready_env (snd s) (snd s') \<and> api_uri (fst (fst s')) = ''ws://ses/api'')"
    if "api_uri (fst (fst s)) = ''ws://ses/api''" for i s
    using ready_measured [of "fst s" _ _ i "snd s"] that by (simp add: returns_def fits_def empty_spectrum_def kept_def)
  with start client show ?thesis by (simp add: undisturbed_env_def undisturbed_retp)
qed

interpretation ready: acquisition ready_env "\<lambda>p w. t_str w p" "''ws://ses/api''"
  by (intro acquisition.intro acquisition_axioms.intro asyn_params_same [OF table.asyn_params_axioms] ready_undisturbed)
    (simp add: table_env_def)

lemma ready_asyn: "asyn_params ready_env (\<lambda>p w. t_str w p)"
  by (rule ready.asyn_params_axioms)

definition ready_state :: "table drv_state" where
  "ready_state = (sample_clients, (sample_driver, sample_table\<lparr>t_int := (\<lambda>_. 0)(ADImageMode := 1, ADNumImages := 3,
     ADNumExposures := 2, NDArrayCounter := 10)\<rparr>))"

lemma ready_state_view:
  "analyser (drv ready_state) \<noteq> None" "api_uri (fst (fst ready_state)) = ''ws://ses/api''"
  "view ready_env (world ready_state) = \<lparr>v_acquire = 0, v_status = 0, v_mode = 1, v_exposures = 2, v_exposuresCounter = 0,
     v_images = 3, v_imagesCounter = 0, v_array = 10\<rparr>"
  by (simp_all add: ready_state_def sample_clients_def view_def table_asyn_def)

lemma acquisition_pass_refines_witness:
  "\<exists>l' s'. acquisition_pass ready_env (start_locals, ready_state) = Some (Ret (), (l', s')) \<and> \<not> al_failed l' \<and>
    view ready_env (world s') = \<lparr>v_acquire = 1, v_status = 1, v_mode = 1, v_exposures = 2, v_exposuresCounter = 2,
      v_images = 3, v_imagesCounter = 1, v_array = 11\<rparr>"
  using acquisition_pass_refines [OF ready_asyn ready_undisturbed ready_state_view(1,2), of start_locals]
  by (simp add: ready_state_view(3) in_i32_def spec_pass_def started_def image_taken_def completed_def last_image_def
    table_enum_def)

lemma acquire_images_witness:
  "\<exists>l' s'. passes 3 ready_env (start_locals, ready_state) = Some (Ret (), (l', s')) \<and>
    view ready_env (world s') = \<lparr>v_acquire = 0, v_status = 0, v_mode = 1, v_exposures = 2, v_exposuresCounter = 2,
      v_images = 3, v_imagesCounter = 3, v_array = 13\<rparr>"
  using acquire_images [OF ready_asyn ready_undisturbed ready_state_view(1,2) refl, of 3 start_locals]
  by (simp add: ready_state_view(3) in_i32_def after_images_def table_enum_def)

end
