(* ===== verification/DriverSteps.thy ===== *)
theory DriverSteps
  imports DriverAcquire
begin

text \<open>
  What every operation of the driver keeps.  A locale states what a predicate on the members and the
  parameters has to survive: the stores of a value into a parameter of its type, the operations of the
  surroundings, and the assignments to the members the operations after the connection make.  Every
  such operation is then shown to keep the predicate, whatever its outcome.
\<close>

section \<open>Stores into given parameters\<close>

text \<open>A predicate that the stores into some integer, floating-point and text parameters keep.\<close>

locale param_safe =
  fixes E :: "'s env" and P :: "driver \<times> 's \<Rightarrow> bool" and ints dbls strs :: "param set"
  assumes int_safe: "p \<in> ints \<Longrightarrow> P (d, w) \<Longrightarrow> P (d, int_set E p n w)"
    and dbl_safe: "p \<in> dbls \<Longrightarrow> P (d, w) \<Longrightarrow> P (d, dbl_set E p x w)"
    and str_safe: "p \<in> strs \<Longrightarrow> P (d, w) \<Longrightarrow> P (d, str_set E p t w)"
    and back_safe: "P (d, w) \<Longrightarrow> P (d, called_back E w)"
begin

lemma P_world: "P (snd s) = P (drv s, world s)"
  by (simp add: drv_def world_def)

lemma safe_sets:
  "p \<in> ints \<Longrightarrow> keeps (\<lambda>s. P (snd s)) (setIntegerParam E p n)"
  "p \<in> dbls \<Longrightarrow> keeps (\<lambda>s. P (snd s)) (setDoubleParam E p x)"
  "p \<in> strs \<Longrightarrow> keeps (\<lambda>s. P (snd s)) (setStringParam E p t)"
  "keeps (\<lambda>s. P (snd s)) (callParamCallbacks E)"
  unfolding P_world
  by (auto simp: keeps_def setIntegerParam_def setDoubleParam_def setStringParam_def callParamCallbacks_def asyn_op_run
    int_set_def [symmetric] dbl_set_def [symmetric] str_set_def [symmetric] called_back_def [symmetric]
    intro: int_safe dbl_safe str_safe back_safe)

lemma safe_reads:
  "keeps Q (getIntegerParam E p)" "keeps Q (getDoubleParam E p)" "keeps Q (get_drv f)" "keeps Q (read_spectrum_params E)"
  "keeps Q (axis_double ax k axes)" "keeps Q (axis_int ax k axes)"
  by (simp_all add: keeps_def getIntegerParam_def getDoubleParam_def get_drv_def read_spectrum_params_def axis_double_def axis_int_def)

lemma safe_netp: "keeps P m \<Longrightarrow> keeps (\<lambda>s. P (snd s)) (netp m)"
  by (rule keeps_netp) simp

lemma safe_upd: "(\<And>d w. P (d, w) \<Longrightarrow> P (f d, w)) \<Longrightarrow> keeps (\<lambda>s. P (snd s)) (upd_drv f)"
  unfolding P_world by (simp add: keeps_def drv_runs)

lemma safe_region:
  assumes "{AnalyserEnergyCount, AnalyserSliceCount, AnalyserAngleYCount, AcqNumSteps, AcqNumStepsCounter} \<subseteq> ints"
    and "{AnalyserLowEnergy, AnalyserEnergyStep, AnalyserHighEnergy, AnalyserCenterEnergy, AnalyserLowSlice,
      AnalyserSliceStep, AnalyserHighSlice, AnalyserCenterSlice, AnalyserLowAngleY, AnalyserAngleYStep,
      AnalyserHighAngleY, AnalyserCenterAngleY} \<subseteq> dbls"
  shows "keeps (\<lambda>s. P (snd s)) (setRegion E channel)"
  unfolding setRegion_def set_energy_axis_def set_slice_axis_def set_angle_axis_def Let_def
  by (intro keeps_intros safe_sets safe_reads) (use assms in auto)

end

section \<open>Predicates on the members and the parameters\<close>

text \<open>The operations that other threads take part in keep a predicate on both.\<close>

definition ops_keep :: "'s env \<Rightarrow> (driver \<times> 's \<Rightarrow> bool) \<Rightarrow> bool" where
  "ops_keep E P \<longleftrightarrow>
     (\<forall>u m j. keeps P (rpc_call (e_rpc E u) m j)) \<and> (\<forall>u t cb. keeps P (rpc_subscribe (e_rpc E u) t cb)) \<and>
     (\<forall>u t. keeps P (rpc_unsubscribe (e_rpc E u) t)) \<and> (\<forall>u. keeps P (rpc_notificationServer (e_rpc E u))) \<and>
     (\<forall>u tr. keeps P (e_create E u tr)) \<and> (\<forall>u m js. keeps P (e_new_client E u m js)) \<and> net_keeps P (e_net E) \<and>
     (\<forall>f. keeps P (f_read (e_files E) f)) \<and> (\<forall>f. keeps P (f_remove (e_files E) f)) \<and>
     keeps P (e_lock E) \<and> keeps P (e_unlock E) \<and> (\<forall>ev. keeps P (e_wait E ev)) \<and> (\<forall>ev. keeps P (e_try_wait E ev)) \<and>
     (\<forall>ev. keeps P (e_signal E ev)) \<and> keeps P (e_disconnect E)"

text \<open>The operations of the libraries keep a predicate on the parameters.\<close>

definition libraries_keep :: "'s env \<Rightarrow> ('s \<Rightarrow> bool) \<Rightarrow> bool" where
  "libraries_keep E Q \<longleftrightarrow>
     keeps Q (e_time E) \<and> (\<forall>ns. keeps Q (e_alloc E ns)) \<and> keeps Q (e_attributes E) \<and> (\<forall>a n. keeps Q (e_array E a n)) \<and>
     keeps Q (e_release E) \<and> (\<forall>p xs. keeps Q (e_doubles E p xs)) \<and> (\<forall>p n. keeps Q (e_base_int E p n)) \<and>
     (\<forall>p x. keeps Q (e_base_dbl E p x)) \<and> (\<forall>p t. keeps Q (e_base_str E p t)) \<and>
     (\<forall>n a b c d e f. keeps Q (e_base_new E n a b c d e f)) \<and> (\<forall>n t p. keeps Q (e_create_param E n t p)) \<and>
     (\<forall>ev. keeps Q (e_event_create E ev)) \<and> (\<forall>n. keeps Q (e_thread E n))"

locale driver_predicate = param_safe E P "{p. param_type p = Int32}" "{p. param_type p = Float64}" "{p. param_type p = Octet}"
  for E :: "'s env" and P +
  assumes surroundings: "ops_keep E P" and libraries: "libraries_keep E (\<lambda>w. P (d, w))"
    and requests: "P (d, w) \<Longrightarrow> P (d\<lparr>m_RequestedAxes := f\<rparr>, w)"
    and tasks: "P (d, w) \<Longrightarrow> P (d\<lparr>task := t\<rparr>, w)"
    and lives: "P (d, w) \<Longrightarrow> P (d\<lparr>m_SpectrumLive := j\<rparr>, w)"
    and definitions: "P (d, w) \<Longrightarrow> object_or_null (m_SpectrumDefinition d) \<longrightarrow> object_or_null j \<Longrightarrow>
      P (d\<lparr>m_SpectrumDefinition := j\<rparr>, w)"
begin

lemma redefinable: "redefinable (\<lambda>s. P (snd s))"
  by (auto simp: redefinable_def intro: definitions)

lemma ops:
  "keeps P (rpc_call (e_rpc E u) m j)" "keeps P (rpc_subscribe (e_rpc E u) tp cb)" "keeps P (rpc_unsubscribe (e_rpc E u) tp)"
  "keeps P (rpc_notificationServer (e_rpc E u))" "keeps P (e_create E u tr)" "keeps P (e_new_client E u m js)" "net_keeps P (e_net E)"
  "keeps P (f_read (e_files E) fn)" "keeps P (f_remove (e_files E) fn)" "keeps P (e_lock E)" "keeps P (e_unlock E)"
  "keeps P (e_wait E ev)" "keeps P (e_try_wait E ev)" "keeps P (e_signal E ev)" "keeps P (e_disconnect E)"
  using surroundings by (simp_all add: ops_keep_def)

lemma env_ops: "\<forall>d. keeps (\<lambda>w. P (d, w)) m \<Longrightarrow> keeps (\<lambda>s. P (snd s)) (envp m)"
  unfolding P_world by (auto simp: keeps_def envp_def netp_def zoom_def bind_eq_Some_conv drv_def world_def)

lemma libs:
  "keeps (\<lambda>s. P (snd s)) (envp (e_time E))" "keeps (\<lambda>s. P (snd s)) (envp (e_alloc E ns))"
  "keeps (\<lambda>s. P (snd s)) (envp (e_attributes E))" "keeps (\<lambda>s. P (snd s)) (envp (e_array E a n))"
  "keeps (\<lambda>s. P (snd s)) (envp (e_release E))" "keeps (\<lambda>s. P (snd s)) (envp (e_doubles E p xs))"
  "keeps (\<lambda>s. P (snd s)) (envp (e_base_int E p n))" "keeps (\<lambda>s. P (snd s)) (envp (e_base_dbl E p x))"
  "keeps (\<lambda>s. P (snd s)) (envp (e_base_str E p txt))" "keeps (\<lambda>s. P (snd s)) (envp (e_base_new E name i1 i2 i3 i4 i5 i6))"
  "keeps (\<lambda>s. P (snd s)) (envp (e_create_param E name ty p))" "keeps (\<lambda>s. P (snd s)) (envp (e_event_create E ev))"
  "keeps (\<lambda>s. P (snd s)) (envp (e_thread E name))"
  using libraries by (auto intro!: env_ops simp: libraries_keep_def)

lemma members:
  "keeps (\<lambda>s. P (snd s)) (upd_drv (\<lambda>d. d\<lparr>m_RequestedAxes := h d\<rparr>))" "keeps (\<lambda>s. P (snd s)) (upd_drv (\<lambda>d. d\<lparr>task := g d\<rparr>))"
  "keeps (\<lambda>s. P (snd s)) (upd_drv (\<lambda>d. d\<lparr>m_SpectrumLive := k d\<rparr>))"
  by (rule safe_upd, simp add: requests tasks lives)+

lemma clients:
  "keeps (\<lambda>s. P (snd s)) (api_call (e_rpc E u) m js)" "keeps (\<lambda>s. P (snd s)) (on_api g)"
  "keeps (\<lambda>s. P (snd s)) next_state_id" "keeps (\<lambda>s. P (snd s)) next_observable_id"
  unfolding api_call_def on_api_def next_state_id_def next_observable_id_def
  by (intro keeps_intros safe_netp ops keeps_modp; simp)+

lemmas steps = safe_sets safe_reads members libs clients safe_netp ops

lemma client_ops:
  "(\<And>u. keeps (\<lambda>s. P (snd s)) (k (e_rpc E u))) \<Longrightarrow> keeps (\<lambda>s. P (snd s)) (with_analyser E k)"
  "(\<And>u. keeps (\<lambda>s. P (snd s)) (k (e_rpc E u))) \<Longrightarrow> keeps (\<lambda>s. P (snd s)) (with_client E uri k)"
proof -
  assume k: "\<And>u. keeps (\<lambda>s. P (snd s)) (k (e_rpc E u))"
  show "keeps (\<lambda>s. P (snd s)) (with_analyser E k)"
    unfolding with_analyser_def by (intro keeps_intros steps k)
  show "keeps (\<lambda>s. P (snd s)) (with_client E uri k)"
    using keepsD [OF k [of uri]] by (fastforce simp: keeps_def with_client_def bind_eq_Some_conv)
qed

lemma api_ops:
  "keeps (\<lambda>s. P (snd s)) (api_query (e_rpc E u) prop filt)" "keeps (\<lambda>s. P (snd s)) (command (e_rpc E u) m js)"
  "keeps (\<lambda>s. P (snd s)) (unsubscribe (e_rpc E u) guid)" "keeps (\<lambda>s. P (snd s)) (unsubscribeAll (e_rpc E u))"
  "keeps (\<lambda>s. P (snd s)) (subscribeToState (e_rpc E u) cb)"
  "keeps (\<lambda>s. P (snd s)) (subscribeToObservable (e_rpc E u) ob cb mode)"
proof -
  show "keeps (\<lambda>s. P (snd s)) (api_query (e_rpc E u) prop filt)" "keeps (\<lambda>s. P (snd s)) (command (e_rpc E u) m js)"
    "keeps (\<lambda>s. P (snd s)) (unsubscribe (e_rpc E u) guid)"
    unfolding api_query_def command_def unsubscribe_def by (intro keeps_intros steps)+
  show "keeps (\<lambda>s. P (snd s)) (subscribeToState (e_rpc E u) cb)"
    "keeps (\<lambda>s. P (snd s)) (subscribeToObservable (e_rpc E u) ob cb mode)"
    unfolding subscribeToState_def subscribeToObservable_def register_def observer_args_def Let_def
    by (intro keeps_intros steps)+
  have "keeps (\<lambda>s. P (snd s)) (case subs of [] \<Rightarrow> retp () | e # _ \<Rightarrow>
      bnd (api_call (e_rpc E u) ''Unsubscribe'' [JStr (fst e)]) (\<lambda>_.
      sq (netp (rpc_unsubscribe (e_rpc E u) (snd e)))
      (sq (on_api (\<lambda>a. a\<lparr>api_subscribers := smap_del (fst e) (api_subscribers a)\<rparr>)) undefp)))" for subs
    by (cases subs) (simp_all only: list.case, intro keeps_intros steps, intro keeps_intros steps)
  then show "keeps (\<lambda>s. P (snd s)) (unsubscribeAll (e_rpc E u))"
    unfolding unsubscribeAll_def by (intro keeps_intros steps)
qed

abbreviation safe :: "('s, 'a) drv_prog \<Rightarrow> bool" where
  "safe \<equiv> keeps (\<lambda>s. P (snd s))"

lemma modes_safe:
  "safe (setROI E)" "safe (setPassEnergy E x)" "safe (setElementSet E n)" "safe (setLensMode E n)"
  "safe (setDetectorMode E n)" "safe (setSlit E n)"
  unfolding setROI_def setPassEnergy_def setElementSet_def setLensMode_def setDetectorMode_def setSlit_def
  by (intro keeps_intros steps; simp)+

lemma region_safe: "safe (setRegion E channel)"
  by (rule safe_region) auto

lemma setup_safe: "safe (setupSpectrumDefinition E)"
proof -
  have "safe (show_modes E d p)" for d p
    unfolding show_modes_def by (intro keeps_intros steps modes_safe; simp)
  moreover have "safe (fill_modes d p e t)" "safe (fill_areas d p)" "safe (fill_axes d p es as)" for d p e t es as
    by (rule keeps_fill [OF redefinable])+
  moreover have "safe (adjust_definition E n)" for n
    unfolding adjust_definition_def adjustSpectrumDefinition_def Let_def
    by (intro keeps_intros steps client_ops region_safe; simp)
  ultimately show ?thesis
    unfolding setupSpectrumDefinition_def requested_energies_def Let_def
    by (intro keeps_intros steps)
qed

lemma writes_safe:
  "param_type p = Int32 \<Longrightarrow> safe (writeInt32 E p n)" "param_type q = Float64 \<Longrightarrow> safe (writeFloat64 E q x)"
  "param_type r = Octet \<Longrightarrow> safe (writeOctet E r txt k)"
proof -
  assume p: "param_type p = Int32"
  show "safe (writeInt32 E p n)"
    unfolding writeInt32_def write_acquire_def write_num_exposures_def write_acquisition_mode_def write_energy_mode_def
      write_detector_channels_def write_detector_slices_def write_channels_def write_lens_mode_def write_pass_energy_def
      write_zero_supplies_def abort_acquisition_def zeroAllSupplies_def send_signal_def Let_def
    by (intro keeps_intros steps modes_safe setup_safe client_ops api_ops) (simp_all add: p)
next
  assume q: "param_type q = Float64"
  show "safe (writeFloat64 E q x)"
    unfolding writeFloat64_def write_swept_def write_center_def request_axis_def
    by (intro keeps_intros steps setup_safe) (simp_all add: q)
next
  assume r: "param_type r = Octet"
  show "safe (writeOctet E r txt k)"
    unfolding writeOctet_def by (intro keeps_intros steps) (simp_all add: r)
qed

lemma api_safe:
  "safe (runningServers (e_rpc E u))" "safe (geometry (e_rpc E u))" "safe (configurations (e_rpc E u))"
  "safe (currentSettings (e_rpc E u))" "safe (calculateSpectrumInfo (e_rpc E u) j)" "safe (currentState (e_rpc E u))"
  "safe (defineSpectrum (e_rpc E u) j)" "safe (clearSpectrum (e_rpc E u) n)" "safe (start_acquisition (e_rpc E u) n)"
  "safe (finishSpectrum (e_rpc E u) n)" "safe (setupSpectrum (e_rpc E u) n)" "safe (startMeasurement (e_rpc E u))"
  "safe (finishMeasurement (e_rpc E u))"
  unfolding runningServers_def geometry_def configurations_def currentSettings_def calculateSpectrumInfo_def
    currentState_def defineSpectrum_def clearSpectrum_def start_acquisition_def finishSpectrum_def setupSpectrum_def
    startMeasurement_def finishMeasurement_def
  by (intro keeps_intros steps api_ops)+

lemma new_client_safe: "safe (new_client E n)"
  unfolding new_client_def by (intro keeps_intros steps)

lemma samples_safe: "keeps P (fromSpectrumChannel (e_net E) (e_files E) channel uri sp)"
proof -
  have "keeps (\<lambda>s. P (snd s)) (try_catch
      (bnd (http_get (e_net E) (retp ()) pth []) (\<lambda>r. sq (HTTPClient_destroy (e_net E)) (retp r)))
      (\<lambda>e. sq (HTTPClient_destroy (e_net E)) (throwp e)))" for pth
    unfolding http_get_def HTTPClient_destroy_def
    by (intro keeps_intros keeps_doRequest ops keeps_netp_snd net_keepsD(4))
  then have "keeps P (http_fetch (e_net E) u pth)" for u pth
    unfolding http_fetch_def keeps_def by (fastforce simp: bind_eq_Some_conv split: outcome.splits)
  then show ?thesis
    unfolding fromSpectrumChannel_def read_samples_def file_samples_def http_samples_def Let_def
    by (intro keeps_intros ops)
qed

lemma measured_safe: "safe (getMeasuredSpectrum (e_rpc E u) (e_new_client E) (e_net E) (e_files E) i)"
  unfolding getMeasuredSpectrum_def by (intro keeps_intros steps samples_safe)

lemma callbacks_safe: "safe (run_observer E cb params)"
proof -
  have "safe steps_counter"
    unfolding steps_counter_def by (intro keeps_intros steps)
  then show ?thesis
    unfolding run_observer_def on_state_def on_update_def correct_region_def count_step_def publish_live_def upd_task_def
      send_signal_def
    by (cases cb; simp only: driver_cb.case; intro keeps_intros steps region_safe) simp_all
qed

lemma image_safe: "safe (make_image E sp i t)"
  unfolding make_image_def by (intro keeps_intros steps)

text \<open>The locals beside the state of the driver.\<close>

abbreviation asafe :: "('s, 'a) acq_prog \<Rightarrow> bool" where
  "asafe \<equiv> keeps (\<lambda>s. P (snd (snd s)))"

lemma asafe_netp: "safe m \<Longrightarrow> asafe (netp m)"
  by (rule keeps_netp) simp

lemma asafe_locals: "asafe (lget g)" "asafe (lupd f)"
  by (simp_all add: lget_def lupd_def keeps_def)

lemmas asteps = asafe_netp asafe_locals client_ops api_ops api_safe steps

lemma exposures_safe: "asafe (exposures E)"
proof -
  have one: "asafe (expose E)" "asafe (netp next_exposure)"
    unfolding expose_def next_exposure_def upd_task_def by (intro keeps_intros asteps; simp)+
  have "P (snd (snd (snd y)))" if "exposures E s = Some y" "P (snd (snd s))" for s y
  proof -
    have "E = E \<longrightarrow> P (snd (snd s)) \<longrightarrow> P (snd (snd (snd y)))"
    proof (rule exposures.raw_induct [OF _ that(1), where P = "\<lambda>F s y. F = E \<longrightarrow> P (snd (snd s)) \<longrightarrow> P (snd (snd (snd y)))"], intro impI)
      fix f F and s :: "acq_locals \<times> 's drv_state" and y
      assume IH: "\<And>F s y. f F s = Some y \<Longrightarrow> F = E \<longrightarrow> P (snd (snd s)) \<longrightarrow> P (snd (snd (snd y)))"
        and run: "bnd (netp next_exposure) (\<lambda>more. if more then bnd (expose F) (\<lambda>aborted. if aborted then retp () else f F)
          else retp ()) s = Some y" and "F = E" and s: "P (snd (snd s))"
      have "asafe (f E)" using IH by (auto simp: keeps_def)
      then have "asafe (bnd (netp next_exposure) (\<lambda>more. if more then bnd (expose E) (\<lambda>aborted. if aborted then retp () else f E)
          else retp ()))" by (intro keeps_intros one)
      with run s \<open>F = E\<close> show "P (snd (snd (snd y)))" unfolding keeps_def by (metis prod.exhaust_sel)
    qed
    with that(2) show ?thesis by simp
  qed
  then show ?thesis by (auto simp: keeps_def)
qed

lemma pass_safe: "asafe (acquisition_pass E)"
proof -
  have "asafe (idle E)"
    unfolding idle_def await_start_def begin_acquisition_def by (intro keeps_intros asteps) simp_all
  moreover have "asafe (prepare E)"
    unfolding prepare_def upd_task_def by (intro keeps_intros asteps) simp_all
  moreover have "asafe (first_frame E)"
    unfolding first_frame_def by (intro keeps_intros asteps)
  moreover have end_steps: "asafe (give_up_state E)" "asafe (give_up_acquired E)" "asafe (finish_spectrum E)"
    unfolding give_up_state_def give_up_acquired_def finish_spectrum_def by (intro keeps_intros asteps)+
  moreover have "asafe (finish_frame E)" "asafe (cleanup E)"
    unfolding finish_frame_def cleanup_def by (intro keeps_intros asteps measured_safe end_steps)+
  moreover have "asafe (conclude E)"
    unfolding conclude_def show_status_def deliver_image_def complete_image_def
    by (intro keeps_intros asteps image_safe) simp_all
  ultimately show ?thesis
    unfolding acquisition_pass_def acquire_frame_def failed_frame_def
    by (intro keeps_intros exposures_safe asteps)
qed

lemma spectrum_safe: "safe (spectrum_pass E last_time)"
  unfolding spectrum_pass_def live_is_last_def show_live_def
  by (intro keeps_intros steps samples_safe image_safe)

end

end
