(* ===== verification/DriverSafe.thy ===== *)
theory DriverSafe
  imports DriverSteps
begin

text \<open>
  Properties that hold for every outcome of the operations of the driver: it stores a value only in a
  parameter of its type, its callbacks do not interfere with an acquisition, and what happens to the
  lock and to the uninitialised members.

  The locales state what a predicate on the members and the parameters has to survive, the stores of
  given parameters and the operations of the surroundings, and every operation of the driver is shown
  to keep such a predicate.
\<close>

section \<open>The callbacks\<close>

lemma kept_safe:
  assumes "asyn_params E strs"
  shows "param_safe E (kept E t)
    {AnalyserEnergyCount, AnalyserSliceCount, AnalyserAngleYCount, AcqNumSteps, AcqNumStepsCounter} UNIV UNIV"
  by unfold_locales (auto simp: kept_def view_def asyn_params.param_laws [OF assms])

text \<open>C27: what the callbacks of an acquisition do, whatever its outcome, leaves the parameters and the counters that make
  up the acquisition as they are.\<close>

theorem callbacks_keep_acquisition:
  assumes "asyn_params E strs" and "keeps (kept E t) (e_lock E)" and "keeps (kept E t) (e_unlock E)"
    and "\<forall>ev. keeps (kept E t) (e_signal E ev)"
  shows "keeps (\<lambda>s. kept E t (snd s)) (run_observer E cb params)"
proof -
  note safe = kept_safe [OF assms(1)]
  note steps = param_safe.safe_sets [OF safe] param_safe.safe_reads [OF safe] param_safe.safe_netp [OF safe]
    param_safe.safe_region [OF safe] param_safe.safe_upd [OF safe]
  have signal: "keeps (\<lambda>s. kept E t (snd s)) (send_signal E ev)" for ev
    unfolding send_signal_def by (rule steps(11)) (rule spec [OF assms(4)])
  have counter: "keeps Q steps_counter" for Q :: "'a drv_state \<Rightarrow> bool"
    unfolding steps_counter_def by (intro keeps_intros steps)
  show ?thesis
    unfolding run_observer_def on_state_def on_update_def correct_region_def count_step_def publish_live_def upd_task_def
    by (cases cb; simp only: driver_cb.case; intro keeps_intros steps signal counter assms(2,3)) (simp_all add: kept_def)
qed

lemma callbacks_keep_acquisition_witness:
  "keeps (\<lambda>s. kept ready_env (sample_driver, sample_table) (snd s)) (run_observer ready_env OnUpdate (JArr [JObj [(''Value'', JNull)]]))"
  by (rule callbacks_keep_acquisition [OF ready_asyn])
    (simp_all add: keeps_simple, simp add: ready_env_def keeps_simple)

section \<open>Stores into parameters of their type\<close>

text \<open>The operations of the surroundings keep a predicate on the parameters.\<close>

definition surroundings_keep :: "'s env \<Rightarrow> ('s \<Rightarrow> bool) \<Rightarrow> bool" where
  "surroundings_keep E Q \<longleftrightarrow> ops_keep E (\<lambda>t. Q (snd t)) \<and> libraries_keep E Q"

text \<open>Stores of a value into a parameter of its type keep it.\<close>

definition typed_stores :: "'s env \<Rightarrow> ('s \<Rightarrow> bool) \<Rightarrow> bool" where
  "typed_stores E Q \<longleftrightarrow>
     (\<forall>p n w. param_type p = Int32 \<longrightarrow> Q w \<longrightarrow> Q (int_set E p n w)) \<and>
     (\<forall>p x w. param_type p = Float64 \<longrightarrow> Q w \<longrightarrow> Q (dbl_set E p x w)) \<and>
     (\<forall>p t w. param_type p = Octet \<longrightarrow> Q w \<longrightarrow> Q (str_set E p t w)) \<and>
     (\<forall>w. Q w \<longrightarrow> Q (called_back E w))"

locale world_safe = param_safe E "\<lambda>t. Q (snd t)" "{p. param_type p = Int32}" "{p. param_type p = Float64}" "{p. param_type p = Octet}"
  for E :: "'s env" and Q +
  assumes surroundings: "surroundings_keep E Q"
begin

lemma predicate: "driver_predicate E (\<lambda>t. Q (snd t))"
  using surroundings by unfold_locales (simp_all add: surroundings_keep_def)

end

sublocale world_safe \<subseteq> stored: driver_predicate E "\<lambda>t. Q (snd t)"
  by (rule predicate)

context world_safe begin

lemma members: "keeps (\<lambda>s. Q (snd (snd s))) (upd_drv f)"
  by (rule safe_upd) simp

abbreviation safe :: "('s, 'a) drv_prog \<Rightarrow> bool" where
  "safe \<equiv> keeps (\<lambda>s. Q (snd (snd s)))"

lemma reset_safe:
  "safe (reset_analyser E n)" "safe (reset_electronics E n)"
  unfolding reset_analyser_def reset_electronics_def
  by (intro keeps_intros members stored.new_client_safe keeps_modp; simp add: world_def)+

lemma detector_modes_safe: "safe (add_detector_modes js)"
proof (induction js)
  case (Cons j js)
  then show ?case
    unfolding add_detector_modes.simps add_detector_mode_def by (intro keeps_intros members)
qed (simp only: add_detector_modes.simps keeps_simple)

lemma connect_safe: "safe (connectAnalyser E)"
  unfolding connectAnalyser_def read_release_def find_servers_def connect_servers_def query_configuration_def
    read_pass_energies_def read_lens_modes_def add_lens_mode_def read_detector_modes_def show_configuration_def
    show_settings_def read_channels_def read_channel_def read_slits_def add_slit_def read_camera_def
  by (intro keeps_intros members stored.steps stored.client_ops stored.api_ops stored.api_safe stored.new_client_safe reset_safe
    detector_modes_safe stored.modes_safe stored.setup_safe) simp_all

lemma constructor_safe: "safe (peakAnalyser E portName hostAddress b m p k)"
  unfolding peakAnalyser_def connect_or_disconnect_def
  by (intro keeps_intros members stored.steps connect_safe) simp_all

end

text \<open>C18: the driver stores a value only into a parameter of the type of the store: a predicate on the parameters that such
  stores and the operations of the surroundings keep is kept by everything the driver does, whatever its outcome.\<close>

theorem driver_stores_typed:
  assumes "typed_stores E Q" and "surroundings_keep E Q"
  shows "keeps (\<lambda>s. Q (snd (snd s))) (peakAnalyser E portName hostAddress maxBuffers maxMemory priority stackSize) \<and>
    (param_type p = Int32 \<longrightarrow> keeps (\<lambda>s. Q (snd (snd s))) (writeInt32 E p n)) \<and>
    (param_type q = Float64 \<longrightarrow> keeps (\<lambda>s. Q (snd (snd s))) (writeFloat64 E q x)) \<and>
    (param_type r = Octet \<longrightarrow> keeps (\<lambda>s. Q (snd (snd s))) (writeOctet E r txt k)) \<and>
    keeps (\<lambda>s. Q (snd (snd s))) (run_observer E cb params) \<and>
    keeps (\<lambda>s. Q (snd (snd (snd s)))) (acquisition_pass E) \<and>
    keeps (\<lambda>s. Q (snd (snd s))) (spectrum_pass E last_time)"
proof -
  have "world_safe E Q"
    using assms by (intro world_safe.intro param_safe.intro world_safe_axioms.intro) (auto simp: typed_stores_def)
  note safe = world_safe.constructor_safe [OF this] driver_predicate.writes_safe [OF world_safe.predicate, OF this]
    driver_predicate.callbacks_safe [OF world_safe.predicate, OF this] driver_predicate.pass_safe [OF world_safe.predicate, OF this]
    driver_predicate.spectrum_safe [OF world_safe.predicate, OF this]
  show ?thesis by (intro conjI impI safe)
qed

text \<open>A library that stores without looking at the types: a wrong store would be seen.\<close>

definition loose_env :: "table env" where
  "loose_env = (table_env (\<lambda>_. JNull))\<lparr>e_asyn := table_asyn\<lparr>
     p_set_int := (\<lambda>p v w. (0, w\<lparr>t_int := (t_int w)(p := v)\<rparr>)),
     p_set_dbl := (\<lambda>p v w. (0, w\<lparr>t_dbl := (t_dbl w)(p := v)\<rparr>)),
     p_set_str := (\<lambda>p v w. (0, w\<lparr>t_str := (t_str w)(p := v)\<rparr>))\<rparr>\<rparr>"

definition well_typed :: "table \<Rightarrow> bool" where
  "well_typed w \<longleftrightarrow> (\<forall>p. (t_int w p \<noteq> 0 \<longrightarrow> param_type p = Int32) \<and> (t_dbl w p \<noteq> Fin 0 \<longrightarrow> param_type p = Float64) \<and>
     (t_str w p \<noteq> [] \<longrightarrow> param_type p = Octet))"

lemma loose_typed: "typed_stores loose_env well_typed"
  by (auto simp: typed_stores_def well_typed_def loose_env_def int_set_def dbl_set_def str_set_def called_back_def table_asyn_def)

lemma loose_keeps: "surroundings_keep loose_env well_typed"
  by (simp add: surroundings_keep_def ops_keep_def libraries_keep_def loose_env_def table_rpc_def keeps_simple net_keeps_def no_net_def)
    (simp add: table_env_def keeps_simple no_net_def)

interpretation loose: world_safe loose_env well_typed
  by (intro world_safe.intro param_safe.intro world_safe_axioms.intro loose_keeps)
    (use loose_typed in \<open>auto simp: typed_stores_def\<close>)

interpretation undisturbing: param_safe ready_env "kept ready_env t"
    "{AnalyserEnergyCount, AnalyserSliceCount, AnalyserAngleYCount, AcqNumSteps, AcqNumStepsCounter}" UNIV UNIV for t
  by (rule kept_safe [OF ready_asyn])

lemma driver_stores_typed_witness:
  "keeps (\<lambda>s. well_typed (snd (snd s))) (peakAnalyser loose_env ''PEAK'' ''http://ses'' 0 0 0 0) \<and>
   keeps (\<lambda>s. well_typed (snd (snd s))) (writeInt32 loose_env LensMode 1) \<and>
   keeps (\<lambda>s. well_typed (snd (snd (snd s)))) (acquisition_pass loose_env)"
  using driver_stores_typed [OF loose_typed loose_keeps, where p = LensMode and n = 1 and portName = "''PEAK''" and
      hostAddress = "''http://ses''" and maxBuffers = 0 and maxMemory = 0 and priority = 0 and stackSize = 0]
  by simp

section \<open>The steps of an exposure\<close>

text \<open>C24: the notification of a step after the first one counts the step, shows the progress, and hands the data to the
  thread of the live spectrum, marked as the last exactly when all steps are done.\<close>

theorem update_counts_step:
  assumes "asyn_params E strs" and "\<forall>t. e_lock E t = Some (Ret (), t)" and "\<forall>t. e_unlock E t = Some (Ret (), t)"
    and "map_of m ''Value'' = Some (JObj sp)" and "map_of sp ''SpectrumChannels'' = Some (JArr (live # channels))"
    and "json_ok live" and "is_object live"
    and "tv_numStepsCounter (task d) = Some n" and "n \<noteq> 0" and "in_i32 (n + 1)"
  shows "\<exists>live' w'. on_update E (JArr (JObj m # ps)) (c, (d, w)) =
      send_signal E SpectrumEvent (c, (d\<lparr>task := (task d)\<lparr>tv_numStepsCounter := Some (n + 1)\<rparr>, m_SpectrumLive := live'\<rparr>, w')) \<and>
    jat ''IsLast'' live' = Ret (JBool (tv_numSteps (task d) = n + 1)) \<and>
    (\<forall>k. k \<noteq> ''IsLast'' \<longrightarrow> jat k live' = jat k live) \<and>
    p_int (e_asyn E) AcqNumStepsCounter w' = n + 1 \<and>
    p_dbl (e_asyn E) AcqProgress w' =
      acq_progress (n + 1) (tv_numSteps (task d)) (tv_numExposuresCounter (task d)) (tv_numExposures (task d)) \<and>
    (\<forall>q. q \<noteq> AcqNumStepsCounter \<longrightarrow> p_int (e_asyn E) q w' = p_int (e_asyn E) q w)"
proof -
  note laws = asyn_params.param_laws [OF assms(1)]
  obtain live' where live': "jset ''IsLast'' (JBool (tv_numSteps (task d) = n + 1)) live = Ret live'"
    using jset_Ret_iff [OF assms(6)] assms(7) by blast
  have "\<not> is_null live" using assms(7) by (cases live) simp_all
  with jset_Ret [OF live' assms(6)] have entries: "jat ''IsLast'' live' = Ret (JBool (tv_numSteps (task d) = n + 1))"
    "k \<noteq> ''IsLast'' \<Longrightarrow> jat k live' = jat k live" for k by simp_all
  have "obind (jnth 0 (JArr (JObj m # ps))) (jat ''Value'') = Ret (JObj sp)"
    "obind (jat ''SpectrumChannels'' (JObj sp)) jfront = Ret live"
    using assms(4,5) by (simp_all add: jnth_def jat_def)
  moreover have "netp (e_lock E) t = Some (Ret (), t)" "netp (e_unlock E) t = Some (Ret (), t)" for t :: "'a drv_state"
    using assms(2) [rule_format, of "snd t"] assms(3) [rule_format, of "snd t"] by (simp_all add: netp_def zoom_def)
  moreover obtain w' where w': "w' = called_back E (dbl_set E AcqProgress (acq_progress (n + 1) (tv_numSteps (task d))
      (tv_numExposuresCounter (task d)) (tv_numExposures (task d))) (int_set E AcqNumStepsCounter (n + 1) w))" by simp
  ultimately have "on_update E (JArr (JObj m # ps)) (c, (d, w)) = send_signal E SpectrumEvent
      (c, (d\<lparr>task := (task d)\<lparr>tv_numStepsCounter := Some (n + 1)\<rparr>, m_SpectrumLive := live'\<rparr>, w'))"
    unfolding on_update_def correct_region_def count_step_def publish_live_def upd_task_def steps_counter_def drv_flat
    using assms(8-10) live' by (simp add: prog_runs drv_runs c_add_def whenp_def)
  moreover have "p_int (e_asyn E) AcqNumStepsCounter w' = n + 1" "p_dbl (e_asyn E) AcqProgress w' =
      acq_progress (n + 1) (tv_numSteps (task d)) (tv_numExposuresCounter (task d)) (tv_numExposures (task d))"
    "\<forall>q. q \<noteq> AcqNumStepsCounter \<longrightarrow> p_int (e_asyn E) q w' = p_int (e_asyn E) q w"
    by (simp_all add: w' laws)
  ultimately show ?thesis using entries by blast
qed

lemma update_counts_step_witness:
  "\<exists>live' w'. on_update ready_env (JArr [JObj [(''Value'', JObj [(''SpectrumChannels'', JArr [JObj []])])]])
      (sample_clients, (sample_driver\<lparr>task := \<lparr>tv_numSteps = 4, tv_numStepsCounter = Some 3, tv_numExposures = 2,
        tv_numExposuresCounter = 1\<rparr>\<rparr>, sample_table)) =
      send_signal ready_env SpectrumEvent (sample_clients, (sample_driver\<lparr>task := \<lparr>tv_numSteps = 4,
        tv_numStepsCounter = Some 4, tv_numExposures = 2, tv_numExposuresCounter = 1\<rparr>, m_SpectrumLive := live'\<rparr>, w')) \<and>
    jat ''IsLast'' live' = Ret (JBool True) \<and> t_int w' AcqNumStepsCounter = 4"
  using update_counts_step [OF ready_asyn, of "[(''Value'', JObj [(''SpectrumChannels'', JArr [JObj []])])]"
      "[(''SpectrumChannels'', JArr [JObj []])]" "JObj []" "[]" "sample_driver\<lparr>task := \<lparr>tv_numSteps = 4,
        tv_numStepsCounter = Some 3, tv_numExposures = 2, tv_numExposuresCounter = 1\<rparr>\<rparr>" 3 "[]" sample_clients sample_table]
  by (auto simp: in_i32_def table_asyn_def)

section \<open>The lock\<close>

text \<open>Data that the callback of the first step cannot read make it throw between taking and releasing the lock: the
  lock stays taken.\<close>

lemma failed_update_keeps_lock:
  assumes "e_lock E (snd s) = Some (Ret (), t)" and "held (snd t)"
    and "\<forall>p n w. held w \<longrightarrow> held (int_set E p n w)" and "\<forall>p x w. held w \<longrightarrow> held (dbl_set E p x w)"
    and "\<forall>w. held w \<longrightarrow> held (called_back E w)"
    and "obind (jnth 0 params) (jat ''Value'') = Ret spectrum" and "\<not> is_null spectrum"
    and "correct_region E spectrum (fst s, t) = Some (Throw e, s')"
  shows "on_update E params s = Some (Throw e, s') \<and> held (world s')"
proof -
  have "param_safe E (\<lambda>t. held (snd t)) UNIV UNIV {}"
    using assms(3-5) by unfold_locales simp_all
  note safe = param_safe.safe_region [OF this] param_safe.safe_reads [OF this]
  have "keeps (\<lambda>s. held (snd (snd s))) (correct_region E spectrum)"
    unfolding correct_region_def steps_counter_def by (intro keeps_intros safe) simp_all
  from keepsD [OF this _ assms(8)] have "held (world s')"
    using assms(2) by (simp add: world_def)
  moreover have "netp (e_lock E) s = Some (Ret (), (fst s, t))"
    using assms(1) by (simp add: netp_def zoom_def)
  ultimately show ?thesis
    using assms(6-8) by (simp add: on_update_def prog_runs)
qed

text \<open>A lock whose state is a parameter of the table.\<close>

definition lock_flag :: param where
  "lock_flag = Base_param Float64Array 0"

definition locking_env :: "table env" where
  "locking_env = (table_env (\<lambda>_. JNull))\<lparr>
     e_lock := modp (\<lambda>t. (fst t, (snd t)\<lparr>t_int := (t_int (snd t))(lock_flag := 1)\<rparr>)),
     e_unlock := modp (\<lambda>t. (fst t, (snd t)\<lparr>t_int := (t_int (snd t))(lock_flag := 0)\<rparr>))\<rparr>"

lemma failed_update_keeps_lock_witness:
  "\<exists>s'. on_update locking_env (JArr [JObj [(''Value'', JObj [(''SpectrumChannels'', JArr [JNull])])]])
      (sample_clients, (sample_driver\<lparr>task := \<lparr>tv_numSteps = 4, tv_numStepsCounter = Some 0, tv_numExposures = 2,
        tv_numExposuresCounter = 1\<rparr>\<rparr>, sample_table)) = Some (Throw (Json_exception 305), s') \<and>
    t_int (world s') lock_flag = 1"
proof -
  let ?d = "sample_driver\<lparr>task := \<lparr>tv_numSteps = 4, tv_numStepsCounter = Some 0, tv_numExposures = 2, tv_numExposuresCounter = 1\<rparr>\<rparr>"
  let ?w = "sample_table\<lparr>t_int := (t_int sample_table)(lock_flag := 1)\<rparr>"
  let ?sp = "JObj [(''SpectrumChannels'', JArr [JNull])]"
  have "correct_region locking_env ?sp (sample_clients, (?d, ?w)) = Some (Throw (Json_exception 305), (sample_clients, (?d, ?w)))"
    by (simp add: correct_region_def steps_counter_def drv_runs jat_def drv_flat)
  moreover have "param_type lock_flag = Float64Array" by (simp add: lock_flag_def)
  ultimately show ?thesis
    using failed_update_keeps_lock [of locking_env "(sample_clients, (?d, sample_table))" "(?d, ?w)" "\<lambda>w. t_int w lock_flag = 1"
        "JArr [JObj [(''Value'', ?sp)]]" ?sp "Json_exception 305" "(sample_clients, (?d, ?w))"]
    by (auto simp: locking_env_def table_env_def table_asyn_def int_set_def dbl_set_def called_back_def jnth_def jat_def)
qed

section \<open>The use of the proxy\<close>

text \<open>With a manager on the same host the member that tells whether the proxy is used is never set, and the thread of the
  live spectrum reads it.\<close>

lemma local_manager_live_update:
  assumes "local_host h" and "P = (\<lambda>d. m_ManagerHost d = h \<and> m_UseProxy d = None)" and "calm E P"
    and "\<forall>u tr. keeps (\<lambda>t. P (fst t)) (e_create E u tr)"
    and "\<forall>u. keeps (\<lambda>t. P (fst t)) (rpc_notificationServer (e_rpc E u))"
    and "\<forall>u tp. keeps (\<lambda>t. P (fst t)) (rpc_unsubscribe (e_rpc E u) tp)"
  shows "keeps (\<lambda>s. P (drv s)) (connectAnalyser E) \<and> (P (drv s) \<longrightarrow> show_live E now s = Some (Undef, s))"
proof
  show "P (drv s) \<longrightarrow> show_live E now s = Some (Undef, s)"
    by (simp add: assms(2) show_live_def live_server_def drv_runs)
  have upd: "(\<And>d. m_ManagerHost (f d) = m_ManagerHost d \<and> m_UseProxy (f d) = m_UseProxy d) \<Longrightarrow>
      keeps (\<lambda>s. P (drv s)) (upd_drv f)" for f
    by (rule keeps_upd_drv) (simp add: assms(2))
  have new: "keeps (\<lambda>s. P (drv s)) (new_client E u)" for u
    unfolding new_client_def by (intro keeps_intros keeps_netp_drv) (use assms(4) in blast)
  have reset: "keeps (\<lambda>s. P (drv s)) (reset_analyser E u)" "keeps (\<lambda>s. P (drv s)) (reset_electronics E u)" for u
    unfolding reset_analyser_def reset_electronics_def
    by (intro keeps_intros new upd keeps_modp; simp add: assms(2))+
  note api = keeps_api_call [OF assms(3)]
  have unsub: "keeps (\<lambda>s. P (drv s)) (unsubscribeAll (e_rpc E u))" for u
  proof -
    have own: "keeps (\<lambda>s. P (drv s)) (on_api f)" for f :: "peak_api \<Rightarrow> peak_api"
      unfolding on_api_def by (rule keeps_modp) (simp add: drv_def)
    have "keeps (\<lambda>s. P (drv s)) (case subs of [] \<Rightarrow> retp () | e # _ \<Rightarrow>
        bnd (api_call (e_rpc E u) ''Unsubscribe'' [JStr (fst e)]) (\<lambda>_.
        sq (netp (rpc_unsubscribe (e_rpc E u) (snd e)))
        (sq (on_api (\<lambda>a. a\<lparr>api_subscribers := smap_del (fst e) (api_subscribers a)\<rparr>)) undefp)))" for subs
      by (cases subs; simp only: list.case; intro keeps_intros api own keeps_netp_drv) (use assms(6) in blast)
    then show ?thesis
      unfolding unsubscribeAll_def by (intro keeps_intros api keeps_netp_drv) (use assms(5) in blast)+
  qed
  have find: "keeps (\<lambda>s. P (drv s)) (find_servers E m)" for m
  proof -
    let ?ask = "bnd (with_client E m runningServers) (\<lambda>servers. liftp (server_addresses (jelems servers) ([], [], [])))"
    have "keeps (\<lambda>s. P (drv s)) ?ask"
      unfolding runningServers_def api_query_def by (intro keeps_intros api)
    moreover have "find_servers E m s = ?ask s" if "P (drv s)" for s
      using that assms(1,2) by (simp add: find_servers_def drv_runs)
    ultimately show ?thesis unfolding keeps_def by metis
  qed
  have detector: "keeps (\<lambda>s. P (drv s)) (add_detector_modes js)" for js
  proof (induction js)
    case (Cons j js)
    then show ?case
      unfolding add_detector_modes.simps add_detector_mode_def by (intro keeps_intros upd; simp)
  qed (simp only: add_detector_modes.simps keeps_simple)
  have put: "keeps (\<lambda>s. P (drv s)) (put_definition k v)" "keeps (\<lambda>s. P (drv s)) (put_axis k ax v)" for k ax v
    unfolding put_definition_def put_axis_def by (intro keeps_intros upd; simp)+
  have defined: "keeps (\<lambda>s. P (drv s)) (setupSpectrumDefinition E)"
    unfolding setupSpectrumDefinition_def adjust_definition_def adjustSpectrumDefinition_def fill_modes_def fill_areas_def
      fill_axes_def Let_def
    by (intro keeps_intros put assms(3))
  show "keeps (\<lambda>s. P (drv s)) (connectAnalyser E)"
    unfolding connectAnalyser_def configurations_def currentSettings_def calculateSpectrumInfo_def geometry_def setElementSet_def
    setPassEnergy_def setLensMode_def setDetectorMode_def setSlit_def read_release_def connect_servers_def query_configuration_def api_query_def
    read_pass_energies_def read_lens_modes_def add_lens_mode_def read_detector_modes_def show_configuration_def
    show_settings_def read_channels_def read_channel_def read_slits_def add_slit_def read_camera_def
    by (intro keeps_intros assms(3) new reset unsub find detector defined upd) simp_all
qed

lemma local_manager_live_update_witness:
  "keeps (\<lambda>s. m_ManagerHost (drv s) = ''http://localhost'' \<and> m_UseProxy (drv s) = None) (connectAnalyser (table_env (\<lambda>_. JNull))) \<and>
   show_live (table_env (\<lambda>_. JNull)) (0, 0) (sample_clients, (new_driver ''http://localhost'', sample_table)) =
     Some (Undef, (sample_clients, (new_driver ''http://localhost'', sample_table)))"
  using local_manager_live_update [of "''http://localhost''" _ "table_env (\<lambda>_. JNull)"
      "(sample_clients, (new_driver ''http://localhost'', sample_table))" "(0, 0)", OF _ refl table_env_calm]
  by (simp add: local_host_def table_rpc_def keeps_simple new_driver_def)

end
