(* ===== verification/DriverRuns.thy ===== *)
theory DriverRuns
  imports DriverSafe
begin

text \<open>
  The driver as a state machine: it is constructed, and from then on its operations run in any order,
  with any arguments, the two callbacks and the passes of the two threads among them.  The members the
  operations rely on are an invariant of every state it reaches, also after a connection that failed
  half way.

  What other threads do while an operation waits or has released the lock is the operation of the
  surroundings at that point; it is assumed to keep the same invariant.
\<close>

section \<open>Steps and runs\<close>

inductive driver_step :: "'s env \<Rightarrow> 's drv_state \<Rightarrow> 's drv_state \<Rightarrow> bool" for E where
  write_int: "writeInt32 E p n s = Some (r, s') \<Longrightarrow> param_type p = Int32 \<Longrightarrow> driver_step E s s'"
| write_float: "writeFloat64 E p x s = Some (r, s') \<Longrightarrow> param_type p = Float64 \<Longrightarrow> driver_step E s s'"
| write_text: "writeOctet E p txt k s = Some (r, s') \<Longrightarrow> param_type p = Octet \<Longrightarrow> driver_step E s s'"
| notified: "run_observer E cb params s = Some (r, s') \<Longrightarrow> driver_step E s s'"
| acquiring: "acquisition_pass E (l, s) = Some (r, (l', s')) \<Longrightarrow> driver_step E s s'"
| live_update: "spectrum_pass E t s = Some (r, s') \<Longrightarrow> driver_step E s s'"

inductive driver_runs :: "'s env \<Rightarrow> 's drv_state \<Rightarrow> bool" for E where
  constructed: "peakAnalyserConfig E portName hostAddress maxBuffers maxMemory priority stackSize s = Some (Ret n, s') \<Longrightarrow>
    driver_runs E s'"
| step: "driver_runs E s \<Longrightarrow> driver_step E s s' \<Longrightarrow> driver_runs E s'"

inductive_cases driver_stepE: "driver_step E s s'"

context driver_predicate begin

lemma step_safe:
  assumes "driver_step E s s'" and "P (snd s)"
  shows "P (snd s')"
  using assms(1)
proof (cases rule: driver_step.cases)
  case (acquiring l r l')
  then show ?thesis using keepsD [OF pass_safe, of "(l, s)" r "(l', s')"] assms(2) by simp
qed (use assms(2) in \<open>blast dest: keepsD [OF writes_safe(1)] keepsD [OF writes_safe(2)] keepsD [OF writes_safe(3)]
    keepsD [OF callbacks_safe] keepsD [OF spectrum_safe]\<close>)+

end

section \<open>The members\<close>

text \<open>
  Stage one has a client of the electronics, stage two one of the analyser too.  In every stage the
  definition is an object or null, a lens mode has the ranges of its deflections, what was read from
  the analyser implies its client, which implies the one of the electronics, and the use of the proxy is never
  known to be false.
\<close>

definition members_ok :: "nat \<Rightarrow> driver \<Rightarrow> bool" where
  "members_ok stage d \<longleftrightarrow> object_or_null (m_SpectrumDefinition d) \<and>
     (\<forall>l \<in> set (m_LensModes d). (hasXDeflection l \<longleftrightarrow> xDeflectionRange l \<noteq> None) \<and>
       (hasYDeflection l \<longleftrightarrow> yDeflectionRange l \<noteq> None)) \<and>
     (m_Elementsets d \<noteq> [] \<or> m_PassEnergies d \<noteq> [] \<or> m_LensModes d \<noteq> [] \<or> m_DetectorModes d \<noteq> [] \<or> m_Slits d \<noteq> []
       \<longrightarrow> analyser d \<noteq> None) \<and>
     (analyser d \<noteq> None \<longrightarrow> electronics d \<noteq> None) \<and> m_UseProxy d \<noteq> Some False \<and>
     (1 \<le> stage \<longrightarrow> electronics d \<noteq> None) \<and> (2 \<le> stage \<longrightarrow> analyser d \<noteq> None)"

lemma members_ok_stage: "members_ok n d \<Longrightarrow> m \<le> n \<Longrightarrow> members_ok m d"
  by (auto simp: members_ok_def)

lemma members_ok_clients: "members_ok 0 d \<Longrightarrow> analyser d \<noteq> None \<Longrightarrow> members_ok 2 d"
  by (auto simp: members_ok_def)

locale member_ops =
  fixes E :: "'s env"
  assumes ops_members: "ops_keep E (\<lambda>t. members_ok n (fst t))"
begin

lemma predicate: "driver_predicate E (\<lambda>t. members_ok n (fst t))"
  by unfold_locales (rule ops_members | simp add: libraries_keep_def keeps_def | simp add: members_ok_def)+

end

sublocale member_ops \<subseteq> stage: driver_predicate E "\<lambda>t. members_ok n (fst t)" for n
  by (rule predicate)

section \<open>The connection\<close>

text \<open>A program keeps the first predicate, and when it returns the second one holds.\<close>

definition leads :: "('s \<Rightarrow> bool) \<Rightarrow> ('s \<Rightarrow> bool) \<Rightarrow> ('s, 'a) prog \<Rightarrow> bool" where
  "leads P Q m \<longleftrightarrow> (\<forall>s r s'. P s \<longrightarrow> m s = Some (r, s') \<longrightarrow> P s' \<and> (\<forall>a. r = Ret a \<longrightarrow> Q s'))"

lemma leads_keeps: "keeps P m \<Longrightarrow> leads P P m"
  by (auto simp: keeps_def leads_def)

lemma keeps_leads: "leads P Q m \<Longrightarrow> keeps P m"
  by (auto simp: keeps_def leads_def)

lemma leads_throwp: "leads P Q (throwp e)"
  by (simp add: leads_def throwp_def)

lemma leads_bnd:
  assumes "leads P Q m" and "\<And>a. leads Q R (f a)" and "\<And>s. Q s \<Longrightarrow> P s"
  shows "leads P R (bnd m f)"
proof -
  have "P s' \<and> (\<forall>a. r = Ret a \<longrightarrow> R s')" if "P s" "bnd m f s = Some (r, s')" for s r s'
    using that(2)
  proof (cases rule: bnd_SomeE)
    case (ret a t)
    then have "Q t" using assms(1) that(1) unfolding leads_def by blast
    then show ?thesis using assms(2) [of a] assms(3) ret(2) unfolding leads_def by blast
  qed (use assms(1) that(1) in \<open>simp_all add: leads_def\<close>)
  then show ?thesis by (auto simp: leads_def)
qed

lemma leads_sq: "leads P Q m \<Longrightarrow> leads Q R n \<Longrightarrow> (\<And>s. Q s \<Longrightarrow> P s) \<Longrightarrow> leads P R (sq m n)"
  unfolding sq_def by (rule leads_bnd)

lemma lens_mode_of_ranges:
  assumes "lens_mode_of name limits = Ret l"
  shows "(hasXDeflection l \<longleftrightarrow> xDeflectionRange l \<noteq> None) \<and> (hasYDeflection l \<longleftrightarrow> yDeflectionRange l \<noteq> None)"
proof -
  have "r \<noteq> None \<longleftrightarrow> is_object j" if "deflection_range j = Ret r" for j r
    using that by (auto simp: deflection_range_def obind_eq_Ret split: if_splits)
  with assms show ?thesis by (force simp: lens_mode_of_def obind_eq_Ret)
qed

text \<open>The replies of the servers are well-formed: the keys of an object are sorted and different.\<close>

definition json_replies :: "'s env \<Rightarrow> bool" where
  "json_replies E \<longleftrightarrow> (\<forall>u m j s v s'. rpc_call (e_rpc E u) m j s = Some (Ret v, s') \<longrightarrow> json_ok v)"

lemma jidx_ok: "jidx k j = Ret v \<Longrightarrow> json_ok j \<Longrightarrow> json_ok v"
proof -
  assume v: "jidx k j = Ret v" and j: "json_ok j"
  obtain t where t: "jtouch k j = Ret t" "jat k t = Ret v" using v by (auto simp: jidx_def obind_eq_Ret)
  from jtouch_Ret [OF t(1) j] obtain m where m: "t = JObj m" "json_ok t" by metis
  with t(2) have "map_of m k = Some v" by (simp add: jat_def split: option.splits)
  then have "(k, v) \<in> set m" by (rule map_of_SomeD)
  with m show ?thesis unfolding m(1) json_ok.simps(2) list_all_iff by force
qed

lemma query_ok:
  assumes "json_replies E" and "api_query (e_rpc E u) property filt s = Some (Ret v, s')"
  shows "json_ok v"
proof -
  from assms(2) obtain a t where a: "api_call (e_rpc E u) ''Query'' [jobject [(property, filt)]] s = Some (Ret a, t)"
      "liftp (jidx property a) t = Some (Ret v, s')"
    unfolding api_query_def by (cases rule: bnd_SomeE) auto
  from a(1) obtain w where "rpc_call (e_rpc E u) ''Query'' (JArr [jobject [(property, filt)]]) (snd s) = Some (Ret a, w)"
    by (auto simp: api_call_def netp_def zoom_def bind_eq_Some_conv)
  with assms(1) have "json_ok a" unfolding json_replies_def by blast
  with a(2) show ?thesis by (auto simp: liftp_def intro: jidx_ok)
qed

lemma with_analyser_value:
  "with_analyser E k s = Some (Ret v, s') \<Longrightarrow> \<exists>u. k (e_rpc E u) s = Some (Ret v, s')"
  unfolding with_analyser_def
  by (erule bnd_SomeE) (auto simp: get_drv_def getsp_def undefp_def split: option.splits)

lemma keeps_bnd_value:
  assumes "keeps P m" and "\<And>s a s'. m s = Some (Ret a, s') \<Longrightarrow> V a" and "\<And>a. V a \<Longrightarrow> keeps P (f a)"
  shows "keeps P (bnd m f)"
proof -
  have "P s'" if "P s" "bnd m f s = Some (r, s')" for s r s'
    using that(2)
  proof (cases rule: bnd_SomeE)
    case (ret a t)
    then have "P t" "V a" using assms(1,2) that(1) by (auto dest: keepsD)
    then show ?thesis using assms(3) ret(2) by (blast dest: keepsD)
  qed (use assms(1) that(1) in \<open>auto dest: keepsD\<close>)
  then show ?thesis by (auto simp: keeps_def)
qed

lemma is_object_jobject: "is_object (jobject kvs)"
  by (simp add: jobject_def)

lemma initial_definition_ok:
  assumes "initial_definition configuration settings = Ret j" and "json_ok configuration" and "json_ok settings"
  shows "object_or_null j"
proof -
  from assms(1) obtain es lm pe dt where r: "jidx ''Name'' configuration = Ret es" "jidx ''LensModeName'' settings = Ret lm"
      "jidx ''PassEnergy'' settings = Ret pe" "jidx ''DwellTime'' settings = Ret dt"
    and j: "j = jobject
       [(''Name'', JStr ''Acquisition''), (''ElementSetName'', es), (''LensModeName'', lm), (''Detectors'', JArr [JStr ''Camera'']),
        (''FixedAxes'', jobject [(''X'', JObj [])]), (''SweepAxes'', JObj []), (''PassEnergy'', pe), (''DwellTime'', dt),
        (''StoreSpectrum'', JBool False), (''StoreAcquisitionData'', JBool False), (''UseRegionDelay'', JBool False)]"
    unfolding initial_definition_def obind_eq_Ret by blast
  have "json_ok j"
    unfolding j by (rule json_ok_jobject)
      (simp add: r(1-4) [THEN jidx_ok] assms(2,3) json_ok_jobject smap_ok_def)
  then show ?thesis by (simp add: object_or_null_def is_object_jobject j)
qed

context member_ops begin

abbreviation ok :: "nat \<Rightarrow> 's drv_state \<Rightarrow> bool" where
  "ok n \<equiv> \<lambda>s. members_ok n (fst (snd s))"

lemma keeps_members: "(\<And>d. members_ok n d \<Longrightarrow> members_ok n (f d)) \<Longrightarrow> keeps (ok n) (upd_drv f)"
  by (rule stage.safe_upd) simp

lemma clients_lead:
  "leads (ok 0) (ok 1) (reset_electronics E address)" "leads (ok 1) (ok 2) (reset_analyser E address)"
proof -
  show "leads (ok 0) (ok 1) (reset_electronics E address)"
    unfolding reset_electronics_def
    by (rule leads_bnd [OF leads_keeps [OF stage.new_client_safe]])
      (simp_all add: leads_def drv_runs members_ok_def)
  show "leads (ok 1) (ok 2) (reset_analyser E address)"
    unfolding reset_analyser_def
    by (rule leads_bnd [OF leads_keeps [OF stage.new_client_safe]])
      (simp_all add: leads_def modp_def members_ok_def drv_def)
qed

lemma servers_lead: "leads (ok 0) (ok 2) (connect_servers E found)"
proof -
  have down: "ok n s \<Longrightarrow> m \<le> n \<Longrightarrow> ok m s" for m n and s :: "'s drv_state"
    by (rule members_ok_stage)
  have last: "keeps (ok 2) (sq (try_catch (with_analyser E unsubscribeAll) (\<lambda>e. retp ())) (retp cam))" for cam :: string
    by (intro keeps_intros stage.client_ops stage.api_ops)
  have "leads (ok 0) (ok 2) (sq (reset_electronics E ele) (sq (reset_analyser E an)
       (sq (try_catch (with_analyser E unsubscribeAll) (\<lambda>e. retp ())) (retp cam))))" for an ele cam :: string
    by (rule leads_sq [OF clients_lead(1) leads_sq [OF clients_lead(2) leads_keeps [OF last]]]) (auto intro: down)
  then show ?thesis
    unfolding connect_servers_def by (auto simp: leads_throwp split: prod.split)
qed

lemma lens_modes_members: "keeps (ok 2) (read_lens_modes E configuration)"
proof -
  have one: "keeps (ok 2) (bnd (liftp (lens_mode_of name limits)) (\<lambda>l. upd_drv (\<lambda>d. d\<lparr>m_LensModes := m_LensModes d @ [l]\<rparr>)))"
    for name limits
    by (rule keeps_liftp_bnd, rule keeps_members) (auto simp: members_ok_def dest: lens_mode_of_ranges)
  have "keeps (ok 2) (add_lens_mode E j)" for j
    unfolding add_lens_mode_def
    by (rule one | rule keeps_bnd | rule keeps_if | rule keeps_simple | rule stage.client_ops | rule stage.clients)+
  then show ?thesis
    unfolding read_lens_modes_def
    by (intro keeps_intros stage.steps keeps_members) (auto simp: members_ok_def)
qed

lemma detector_modes_members: "keeps (ok 2) (add_detector_modes js)"
proof (induction js)
  case (Cons j js)
  then show ?case
    unfolding add_detector_modes.simps add_detector_mode_def
    by (intro keeps_intros keeps_members) (auto simp: members_ok_def)
qed (simp only: add_detector_modes.simps keeps_simple)

lemma connect_members:
  assumes "json_replies E"
  shows "keeps (ok 0) (connectAnalyser E)"
proof -
  have down: "ok 2 s \<Longrightarrow> ok 0 s" for s :: "'s drv_state"
    by (rule members_ok_stage) simp_all
  have queries: "query_configuration E s = Some (Ret v, s') \<Longrightarrow> json_ok v"
    "with_analyser E currentSettings s = Some (Ret v, s') \<Longrightarrow> json_ok v" for s s' v
    unfolding query_configuration_def currentSettings_def by (auto dest!: with_analyser_value query_ok [OF assms])
  have ask: "keeps (ok 2) (query_configuration E)" "keeps (ok 2) (with_analyser E currentSettings)"
    unfolding query_configuration_def by (intro keeps_intros stage.client_ops stage.api_ops stage.api_safe)+
  have defined: "keeps (ok 2) (upd_drv (\<lambda>d. d\<lparr>m_SpectrumDefinition := j\<rparr>))" if "object_or_null j" for j
    using that by (intro keeps_members) (simp add: members_ok_def)
  have reads: "keeps (ok 2) (read_pass_energies j)" "keeps (ok 2) (read_channels E)" "keeps (ok 2) (read_slits E)"
    "keeps (ok 2) (read_camera E cam)" "keeps (ok 2) (read_detector_modes E)" "keeps (ok 2) (show_configuration E j)"
    "keeps (ok 2) (show_settings E j)" for j cam
    unfolding read_pass_energies_def read_channels_def read_channel_def read_slits_def add_slit_def read_camera_def
      read_detector_modes_def show_configuration_def show_settings_def
    by (intro keeps_intros stage.steps stage.client_ops stage.api_ops stage.api_safe stage.new_client_safe
      stage.modes_safe detector_modes_members keeps_members; simp add: members_ok_def)+
  have tail: "keeps (ok 2) (bnd (liftp (initial_definition configuration settings)) (\<lambda>spectrumDefinition.
       sq (upd_drv (\<lambda>d. d\<lparr>m_SpectrumDefinition := spectrumDefinition\<rparr>))
       (sq (read_channels E) (sq (read_slits E) (sq (read_camera E cam) (setupSpectrumDefinition E))))))"
    if "json_ok configuration" "json_ok settings" for configuration settings cam
    by (rule keeps_liftp_bnd) (intro keeps_sq defined reads stage.setup_safe initial_definition_ok [OF _ that])
  have "keeps (ok 2) (with_analyser E configurations)" "keeps (ok 2) (upd_drv (\<lambda>d. d\<lparr>m_Elementsets := names\<rparr>))" for names
    by (intro keeps_intros stage.client_ops stage.api_safe keeps_members; simp add: members_ok_def)+
  note first = this
  have rest: "keeps (ok 2) (bnd (with_analyser E configurations) (\<lambda>elementSets.
       sq (upd_drv (\<lambda>d. d\<lparr>m_Elementsets := elementSets\<rparr>))
       (bnd (query_configuration E) (\<lambda>configuration.
       sq (read_pass_energies configuration)
       (sq (read_lens_modes E configuration)
       (sq (read_detector_modes E)
       (sq (show_configuration E configuration)
       (bnd (with_analyser E currentSettings) (\<lambda>settings.
       sq (show_settings E settings)
       (bnd (liftp (initial_definition configuration settings)) (\<lambda>spectrumDefinition.
       sq (upd_drv (\<lambda>d. d\<lparr>m_SpectrumDefinition := spectrumDefinition\<rparr>))
       (sq (read_channels E) (sq (read_slits E) (sq (read_camera E cam) (setupSpectrumDefinition E)))))))))))))))" for cam
    by (intro keeps_bnd [OF first(1)] keeps_sq first(2) keeps_bnd_value [OF ask(1) queries(1)] reads lens_modes_members
      keeps_bnd_value [OF ask(2) queries(2)] tail)
  have start: "keeps (ok 0) (new_client E u)" "keeps (ok 0) (read_release E m)" "keeps (ok 0) (find_servers E m)" for u m
    unfolding read_release_def find_servers_def
    by (intro keeps_intros stage.steps stage.client_ops stage.api_ops stage.api_safe stage.new_client_safe keeps_members;
      simp add: members_ok_def)+
  show ?thesis
    unfolding connectAnalyser_def
    by (intro keeps_bnd keeps_sq stage.steps start keeps_leads [OF leads_bnd [OF servers_lead leads_keeps [OF rest] down]])
qed

lemma constructed_members:
  assumes "json_replies E"
  shows "leads (\<lambda>_. True) (ok 0) (peakAnalyserConfig E portName hostAddress maxBuffers maxMemory priority stackSize)"
proof -
  have any: "leads (\<lambda>_. True) (\<lambda>_. True) m" for m :: "('s, 'a) drv_prog"
    by (simp add: leads_def)
  have fresh: "leads (\<lambda>_. True) (ok 0) (upd_drv (\<lambda>_. new_driver h))" for h
    by (simp add: leads_def drv_runs members_ok_def new_driver_def object_or_null_def)
  have weaken: "leads (ok 0) (ok 0) m \<Longrightarrow> leads (\<lambda>_. True) (ok 0) (sq (upd_drv (\<lambda>_. new_driver h)) m)"
    for m :: "('s, 'a) drv_prog" and h
    by (rule leads_sq [OF fresh]) simp_all
  have "keeps (ok 0) (connect_or_disconnect E)"
    unfolding connect_or_disconnect_def by (intro keeps_intros connect_members assms stage.steps) simp_all
  note rest = this
  have base: "leads (\<lambda>_. True) (ok 0) (peakAnalyser E portName hostAddress b m p k)" for b m p k
    unfolding peakAnalyser_def
    by (rule leads_sq [OF any weaken [OF leads_keeps]], intro keeps_intros rest stage.steps) simp_all
  show ?thesis
    unfolding peakAnalyserConfig_def
    by (rule leads_sq [OF base leads_keeps [OF keeps_simple(1)]]) simp
qed

end

section \<open>Properties\<close>

text \<open>C19: in every state the driver reaches, and whatever its operations ended with, the definition is an object or null, a
  lens mode has the ranges of its deflections, and everything read from the analyser comes with its
  client and that of the electronics; once there, the client of the analyser stays.\<close>

theorem driver_runs_members:
  assumes "\<forall>n. ops_keep E (\<lambda>t. members_ok n (fst t))" and "json_replies E" and "driver_runs E s"
  shows "members_ok 0 (drv s) \<and> (\<forall>s'. driver_step E s s' \<and> analyser (drv s) \<noteq> None \<longrightarrow> analyser (drv s') \<noteq> None)"
proof -
  have ops: "member_ops E"
    by unfold_locales (rule spec [OF assms(1)])
  note step = driver_predicate.step_safe [OF member_ops.predicate, OF ops]
  from assms(3) have runs: "members_ok 0 (fst (snd s))"
  proof induction
    case (constructed portName hostAddress maxBuffers maxMemory priority stackSize s n s')
    then show ?case
      using member_ops.constructed_members [OF ops assms(2), of portName hostAddress maxBuffers maxMemory priority stackSize]
      unfolding leads_def by blast
  qed (blast intro: step)
  moreover have "analyser (drv s') \<noteq> None" if "driver_step E s s'" "analyser (drv s) \<noteq> None" for s'
  proof -
    have "members_ok 2 (fst (snd s))" by (rule members_ok_clients [OF runs]) (use that(2) in \<open>simp add: drv_def\<close>)
    then have "members_ok 2 (fst (snd s'))" by (rule step [OF that(1)])
    then show ?thesis unfolding members_ok_def drv_def by simp
  qed
  ultimately show ?thesis by (simp add: drv_def)
qed

lemma table_env_ops: "ops_keep (table_env answer) P"
  by (simp add: ops_keep_def table_env_def table_rpc_def keeps_simple net_keeps_def no_net_def)

interpretation table_members: member_ops "table_env answer"
  by unfold_locales (rule table_env_ops)

lemma table_replies: "(\<And>m. json_ok (answer m)) \<Longrightarrow> json_replies (table_env answer)"
  by (auto simp: json_replies_def table_rpc_def retp_def)

lemma table_constructed:
  "\<exists>s'. peakAnalyserConfig (table_env (\<lambda>_. JNull)) ''PEAK'' ''http://ses'' 0 0 0 0 (sample_clients, (sample_driver, sample_table)) =
    Some (Ret 0, s')"
proof -
  have none: "envp (retp ()) = (retp () :: (table, unit) drv_prog)"
    by (rule ext) (simp add: envp_def netp_def zoom_def retp_def)
  have create: "e_create_param (table_env answer) = (\<lambda>_ _ _. retp ())" for answer
    by (simp only: table_env_def env.select_convs)
  have config: "forp (\<lambda>(name, type, p). envp (e_create_param (table_env answer) name type p)) ps = retp ()" for answer ps
    unfolding create none by (rule ext, induction ps) (auto simp: sq_def bnd_def retp_def)
  have c: "c_str ''http://ses'' = ''http://ses''" by (simp add: c_str_def)
  have "\<exists>w'. connect_or_disconnect (table_env (\<lambda>_. JNull)) (sample_clients, (new_driver h, w)) = Some (Ret (), (sample_clients, (new_driver h, w')))" for h w
  proof -
    obtain e where "connectAnalyser (table_env (\<lambda>_. JNull)) (sample_clients, (new_driver h, w)) =
        Some (Throw e, (sample_clients, (new_driver h, w)))"
      using connect_null by blast
    then show ?thesis by (simp add: connect_or_disconnect_def try_runs prog_runs drv_runs netp_runs)
  qed
  note connected = this
  have base: "envp (e_base_new (table_env answer) n a b c d e f) = retp ()" "envp (e_event_create (table_env answer) ev) = retp ()"
    "envp (e_thread (table_env answer) n) = (retp True :: (table, bool) drv_prog)" for answer n a b c d e f ev
    by (simp_all only: table_env_def env.select_convs none) (rule ext, simp add: envp_def netp_def zoom_def retp_def)
  obtain f where f: "connect_or_disconnect (table_env (\<lambda>_. JNull)) (sample_clients, (new_driver h, w)) =
      Some (Ret (), (sample_clients, (new_driver h, f h w)))" for h w
    using connected by metis
  show ?thesis
    unfolding peakAnalyserConfig_def peakAnalyser_def config base c
    by (simp add: sq_def drv_runs prog_runs f put_world_def drv_def world_def)
qed

lemma driver_runs_members_witness:
  "\<exists>s. driver_runs (table_env (\<lambda>_. JNull)) s \<and> members_ok 0 (drv s)"
proof -
  obtain s where "peakAnalyserConfig (table_env (\<lambda>_. JNull)) ''PEAK'' ''http://ses'' 0 0 0 0
      (sample_clients, (sample_driver, sample_table)) = Some (Ret 0, s)"
    using table_constructed by blast
  then have runs: "driver_runs (table_env (\<lambda>_. JNull)) s" by (rule driver_runs.constructed)
  have "json_replies (table_env (\<lambda>_. JNull))" by (rule table_replies) simp
  with runs show ?thesis using driver_runs_members [of "table_env (\<lambda>_. JNull)" s] table_env_ops by blast
qed

end
