(* ===== verification/DriverSelect.thy ===== *)
theory DriverSelect
  imports DriverSteps
begin

text \<open>
  The selection of lens mode, acquisition mode and pass energy.  The invariant is what the definition of a
  spectrum relies on: the lens mode is an index of the list, an acquisition mode that sweeps ThetaY is
  only combined with a lens mode that has a ThetaY, and the pass energy is not beyond its list.  The parameter
  is stored before the value is checked, so a write breaks the invariant on its way and has to restore it.
\<close>

definition selection_ok :: "'s env \<Rightarrow> driver \<times> 's \<Rightarrow> bool" where
  "selection_ok E t \<longleftrightarrow> (case t of (d, w) \<Rightarrow>
     0 \<le> p_int (e_asyn E) LensMode w \<and> p_int (e_asyn E) LensMode w < int (length (m_LensModes d)) \<and>
     (bit (p_int (e_asyn E) AnalyserAcquisitionMode w) 1 \<longrightarrow>
       hasYDeflection (m_LensModes d ! nat (p_int (e_asyn E) LensMode w))) \<and>
     p_int (e_asyn E) PassEnergy w < int (length (m_PassEnergies d)))"

text \<open>The integer parameters the invariant is about.\<close>

abbreviation selectors :: "param set" where
  "selectors \<equiv> {LensMode, AnalyserAcquisitionMode, PassEnergy}"

lemma selection_params:
  assumes "asyn_params E strs"
  shows "param_safe E (selection_ok E) (- selectors) UNIV UNIV"
proof -
  note laws = asyn_params.param_laws [OF assms]
  show ?thesis by unfold_locales (auto simp: selection_ok_def laws)
qed

text \<open>The calls, the signals and the functions of the base class, on its parameters, leave the selection alone.\<close>

definition leaves_selection :: "'s env \<Rightarrow> bool" where
  "leaves_selection E \<longleftrightarrow> (\<forall>u m j. keeps (selection_ok E) (rpc_call (e_rpc E u) m j)) \<and>
     (\<forall>ev. keeps (selection_ok E) (e_signal E ev)) \<and>
     (\<forall>d p n. is_base p \<longrightarrow> keeps (\<lambda>w. selection_ok E (d, w)) (e_base_int E p n)) \<and>
     (\<forall>d p x. is_base p \<longrightarrow> keeps (\<lambda>w. selection_ok E (d, w)) (e_base_dbl E p x))"

section \<open>From a state, unless it is undefined\<close>

definition stays :: "('s \<Rightarrow> bool) \<Rightarrow> ('s, 'a) prog \<Rightarrow> 's \<Rightarrow> bool" where
  "stays P m s \<longleftrightarrow> (\<forall>r s'. m s = Some (r, s') \<longrightarrow> r \<noteq> Undef \<longrightarrow> P s')"

lemma stays_keeps: "keeps P m \<Longrightarrow> P s \<Longrightarrow> stays P m s"
  by (auto simp: stays_def keeps_def)

lemma stays_sq: "stays P m s \<Longrightarrow> keeps P n \<Longrightarrow> stays P (sq m n) s"
  unfolding stays_def sq_def by (blast elim: bnd_SomeE dest: keepsD)

section \<open>Writes\<close>

locale selecting = param_safe E "selection_ok E" "- selectors" UNIV UNIV for E :: "'s env" +
  fixes strs :: "param \<Rightarrow> 's \<Rightarrow> string"
  assumes params: "asyn_params E strs" and left_alone: "leaves_selection E"
begin

abbreviation safe :: "('s, 'a) drv_prog \<Rightarrow> bool" where
  "safe \<equiv> keeps (\<lambda>s. selection_ok E (snd s))"

lemma ops:
  "keeps (selection_ok E) (rpc_call (e_rpc E u) m j)" "keeps (selection_ok E) (e_signal E ev)"
  using left_alone by (simp_all add: leaves_selection_def)

lemma bases:
  "is_base p \<Longrightarrow> safe (envp (e_base_int E p n))" "is_base p \<Longrightarrow> safe (envp (e_base_dbl E p x))"
proof -
  have env: "safe (envp m)" if "\<And>d. keeps (\<lambda>w. selection_ok E (d, w)) m" for m :: "('s, 'b) prog"
    using that unfolding P_world by (fastforce simp: keeps_def envp_def netp_def zoom_def bind_eq_Some_conv drv_def world_def)
  show "is_base p \<Longrightarrow> safe (envp (e_base_int E p n))" "is_base p \<Longrightarrow> safe (envp (e_base_dbl E p x))"
    using left_alone by (auto intro!: env simp: leaves_selection_def)
qed

lemma requests: "safe (upd_drv (\<lambda>d. d\<lparr>m_RequestedAxes := h d\<rparr>))"
  by (rule safe_upd) (simp add: selection_ok_def)

lemma calls: "safe (api_call (e_rpc E u) m js)" "safe (command (e_rpc E u) m js)" "safe (send_signal E ev)"
  unfolding api_call_def command_def send_signal_def by (intro keeps_intros safe_netp ops)+

lemmas steps = safe_sets safe_reads safe_netp ops calls requests

lemma client_ops:
  "(\<And>u. safe (k (e_rpc E u))) \<Longrightarrow> safe (with_analyser E k)"
  "(\<And>u. safe (k (e_rpc E u))) \<Longrightarrow> safe (with_client E uri k)"
proof -
  assume k: "\<And>u. safe (k (e_rpc E u))"
  show "safe (with_analyser E k)"
    unfolding with_analyser_def by (intro keeps_intros steps k)
  show "safe (with_client E uri k)"
    using keepsD [OF k [of uri]] by (fastforce simp: keeps_def with_client_def bind_eq_Some_conv)
qed

text \<open>The pass energy is only set to a position of the list.\<close>

lemma pass_energy_safe: "safe (setPassEnergy E x)"
proof -
  note laws = asyn_params.param_laws [OF params]
  have "selection_ok E (snd s')" if "selection_ok E (snd s)" "setPassEnergy E x s = Some (r, s')" for s r s'
  proof -
    obtain c d w where s: "s = (c, (d, w))" by (cases s)
    show ?thesis
    proof (cases "find_index (\<lambda>e. deq e x) (m_PassEnergies d)")
      case None
      then show ?thesis using that by (auto simp: s setPassEnergy_def drv_runs)
    next
      case (Some i)
      from find_index_Some [OF this] have "i < length (m_PassEnergies d)" by simp
      with Some that show ?thesis
        by (auto simp: s setPassEnergy_def drv_runs selection_ok_def laws)
    qed
  qed
  then show ?thesis by (auto simp: keeps_def)
qed

lemma setup_safe: "safe (setupSpectrumDefinition E)"
proof -
  have "redefinable (\<lambda>s :: 's drv_state. selection_ok E (snd s))"
    by (simp add: redefinable_def selection_ok_def)
  note fill = keeps_fill [OF this]
  have "safe (show_modes E d p)" for d p
    unfolding show_modes_def by (intro keeps_intros steps pass_energy_safe; simp)
  moreover have "safe (adjust_definition E n)" for n
    unfolding adjust_definition_def adjustSpectrumDefinition_def Let_def
    by (intro keeps_intros steps client_ops safe_region; simp)
  ultimately show ?thesis
    unfolding setupSpectrumDefinition_def requested_energies_def Let_def
    by (intro keeps_intros steps fill)
qed

lemma writeFloat64_safe: "safe (writeFloat64 E q x)"
proof (cases "is_base q")
  case True
  show ?thesis
    unfolding writeFloat64_def write_swept_def write_center_def request_axis_def
    by (intro keeps_intros steps setup_safe bases True; simp)
next
  case False
  show ?thesis
    unfolding writeFloat64_def write_swept_def write_center_def request_axis_def if_not_P [OF False]
    by (intro keeps_intros steps setup_safe; simp)
qed

lemma writeInt32_safe:
  assumes "p \<notin> selectors"
  shows "safe (writeInt32 E p n)"
proof -
  have other: "p \<noteq> LensMode" "p \<noteq> AnalyserAcquisitionMode" "p \<noteq> PassEnergy" using assms by simp_all
  note unfolds = writeInt32_def write_acquire_def write_num_exposures_def write_energy_mode_def
    write_detector_channels_def write_detector_slices_def write_channels_def
    write_zero_supplies_def abort_acquisition_def zeroAllSupplies_def setROI_def Let_def other [THEN if_not_P]
  show ?thesis
  proof (cases "is_base p")
    case True
    show ?thesis
      unfolding unfolds by (intro keeps_intros steps setup_safe client_ops bases True) (simp_all add: other)
  next
    case False
    show ?thesis
      unfolding unfolds if_not_P [OF False] by (intro keeps_intros steps setup_safe client_ops) (simp_all add: other)
  qed
qed

text \<open>The rest of a write behind the branch of its parameter.\<close>

lemma write_rest: "safe (sq (callParamCallbacks E) (retp ()))"
  by (intro keeps_intros steps)

lemma lens_mode_stays: "selection_ok E (d, w) \<Longrightarrow> stays (\<lambda>s. selection_ok E (snd s)) (writeInt32 E LensMode n) (c, (d, w))"
proof -
  note laws = asyn_params.param_laws [OF params]
  assume ok: "selection_ok E (d, w)"
  let ?w = "int_set E LensMode n w" and ?old = "p_int (e_asyn E) LensMode w"
  have "stays (\<lambda>s. selection_ok E (snd s)) (write_lens_mode E ?old n) (c, (d, ?w))"
  proof (cases "n < int (length (m_LensModes d))")
    case True
    show ?thesis
    proof (cases "0 \<le> n")
      case False
      then show ?thesis by (simp add: stays_def write_lens_mode_def drv_runs vec_nth_def)
    next
      case nonneg: True
      let ?lens = "m_LensModes d ! nat n"
      show ?thesis
      proof (cases "bit (p_int (e_asyn E) AnalyserAcquisitionMode w) 1 \<and> \<not> hasYDeflection ?lens")
        case True
        with ok nonneg \<open>n < int (length (m_LensModes d))\<close> show ?thesis
          by (auto simp: stays_def write_lens_mode_def drv_runs laws selection_ok_def)
      next
        case False
        then have "selection_ok E (d, ?w)" using ok nonneg True by (simp add: selection_ok_def laws)
        moreover have body: "safe (sq (setIntegerParam E AnalyserWithSlice (if hasXDeflection ?lens then 1 else 0))
            (sq (setIntegerParam E AnalyserWithAngleY (if hasYDeflection ?lens then 1 else 0)) (setupSpectrumDefinition E)))"
          by (intro keeps_intros steps setup_safe; simp)
        ultimately have "stays (\<lambda>s. selection_ok E (snd s)) (sq (setIntegerParam E AnalyserWithSlice (if hasXDeflection ?lens then 1 else 0))
            (sq (setIntegerParam E AnalyserWithAngleY (if hasYDeflection ?lens then 1 else 0)) (setupSpectrumDefinition E))) (c, (d, ?w))"
          by (intro stays_keeps) simp_all
        moreover have "write_lens_mode E ?old n (c, (d, ?w)) =
          sq (setIntegerParam E AnalyserWithSlice (if hasXDeflection ?lens then 1 else 0))
            (sq (setIntegerParam E AnalyserWithAngleY (if hasYDeflection ?lens then 1 else 0)) (setupSpectrumDefinition E)) (c, (d, ?w))"
          using False nonneg True by (auto simp: write_lens_mode_def drv_runs laws)
        ultimately show ?thesis by (simp only: stays_def)
      qed
    qed
  next
    case False
    with ok show ?thesis by (auto simp: stays_def write_lens_mode_def drv_runs laws selection_ok_def)
  qed
  from stays_sq [OF this write_rest] show ?thesis
    unfolding writeInt32_cases by (simp add: stays_def drv_runs)
qed

lemma acquisition_mode_stays:
  "selection_ok E (d, w) \<Longrightarrow> stays (\<lambda>s. selection_ok E (snd s)) (writeInt32 E AnalyserAcquisitionMode n) (c, (d, w))"
proof -
  note laws = asyn_params.param_laws [OF params]
  assume ok: "selection_ok E (d, w)"
  let ?w = "int_set E AnalyserAcquisitionMode n w" and ?old = "p_int (e_asyn E) AnalyserAcquisitionMode w"
  let ?lens = "m_LensModes d ! nat (p_int (e_asyn E) LensMode w)"
  have nth: "vec_nth (m_LensModes d) (p_int (e_asyn E) LensMode w) = Ret ?lens"
    using ok by (simp add: selection_ok_def)
  have "stays (\<lambda>s. selection_ok E (snd s)) (write_acquisition_mode E ?old n) (c, (d, ?w))"
  proof (cases "bit n 1 \<and> \<not> hasYDeflection ?lens")
    case True
    with ok nth show ?thesis
      by (auto simp: stays_def write_acquisition_mode_def drv_runs laws selection_ok_def)
  next
    case False
    then have "selection_ok E (d, ?w)" using ok by (auto simp: selection_ok_def laws)
    then have "stays (\<lambda>s. selection_ok E (snd s)) (setupSpectrumDefinition E) (c, (d, ?w))"
      using setup_safe by (simp add: stays_keeps)
    then show ?thesis
      using False nth by (auto simp: stays_def write_acquisition_mode_def drv_runs laws)
  qed
  from stays_sq [OF this write_rest] show ?thesis
    unfolding writeInt32_cases by (simp add: stays_def drv_runs)
qed

lemma pass_energy_stays:
  "selection_ok E (d, w) \<Longrightarrow> stays (\<lambda>s. selection_ok E (snd s)) (writeInt32 E PassEnergy n) (c, (d, w))"
proof -
  note laws = asyn_params.param_laws [OF params]
  assume ok: "selection_ok E (d, w)"
  let ?w = "int_set E PassEnergy n w" and ?old = "p_int (e_asyn E) PassEnergy w"
  have "stays (\<lambda>s. selection_ok E (snd s)) (write_pass_energy E ?old n) (c, (d, ?w))"
  proof (cases "n < int (length (m_PassEnergies d))")
    case True
    then have "selection_ok E (d, ?w)" using ok by (auto simp: selection_ok_def laws)
    then have "stays (\<lambda>s. selection_ok E (snd s)) (setupSpectrumDefinition E) (c, (d, ?w))"
      using setup_safe by (simp add: stays_keeps)
    then show ?thesis
      using True by (auto simp: stays_def write_pass_energy_def drv_runs)
  next
    case False
    with ok show ?thesis by (auto simp: stays_def write_pass_energy_def drv_runs laws selection_ok_def)
  qed
  from stays_sq [OF this write_rest] show ?thesis
    unfolding writeInt32_def by (simp add: stays_def drv_runs)
qed

lemma writeInt32_stays:
  assumes "selection_ok E (snd s)"
  shows "stays (\<lambda>s. selection_ok E (snd s)) (writeInt32 E p n) s"
proof -
  obtain c d w where s: "s = (c, (d, w))" by (cases s)
  with assms have ok: "selection_ok E (d, w)" by simp
  show ?thesis
  proof (cases "p \<in> selectors")
    case True
    then show ?thesis
      unfolding s using lens_mode_stays [OF ok] acquisition_mode_stays [OF ok] pass_energy_stays [OF ok]
      by (elim insertE emptyE) simp_all
  next
    case False
    from stays_keeps [OF writeInt32_safe [OF False]] assms show ?thesis by blast
  qed
qed

text \<open>An index beyond the end of its list is refused, and the parameter restored.\<close>

lemma index_refused:
  assumes "p = LensMode \<and> int (length (m_LensModes (drv s))) \<le> n \<or> p = PassEnergy \<and> int (length (m_PassEnergies (drv s))) \<le> n"
  shows "\<exists>s'. writeInt32 E p n s = Some (Ret (), s') \<and>
    (\<forall>q. p_int (e_asyn E) q (world s') = p_int (e_asyn E) q (world s))"
proof -
  note laws = asyn_params.param_laws [OF params]
  obtain c d w where s: "s = (c, (d, w))" by (cases s)
  from assms consider "p = LensMode" "\<not> n < int (length (m_LensModes d))" | "p = PassEnergy" "\<not> n < int (length (m_PassEnergies d))"
    by (auto simp: s)
  then show ?thesis
    by cases (simp_all add: s writeInt32_def write_lens_mode_def write_pass_energy_def drv_flat drv_runs laws)
qed

end

interpretation table_selects: selecting "table_env answer" "\<lambda>p w. t_str w p"
proof (rule selecting.intro [OF selection_params [OF table.asyn_params_axioms]], rule selecting_axioms.intro [OF table.asyn_params_axioms])
  show "leaves_selection (table_env answer)"
    by (simp add: leaves_selection_def table_rpc_def keeps_simple table_env_def)
qed

section \<open>Properties\<close>

text \<open>C20: every write of an integer or a floating-point number that returns to its caller from a valid selection, whatever
  the server answers and also with an exception, leaves a valid selection: a lens mode of the list, ThetaY swept only with a
  lens mode that has it, and no pass energy beyond the list.  It relies on the calls to the server, the signals and the base
  class, on the parameters of its own, leaving the selection alone.  An index beyond its list is refused without an error and without a change; only a write that
  is undefined, such as that of a negative lens mode, leaves another selection.\<close>

theorem writes_keep_selection:
  assumes "asyn_params E strs" and "leaves_selection E" and "selection_ok E (snd s)"
  shows "(\<forall>r s'. writeInt32 E p n s = Some (r, s') \<and> r \<noteq> Undef \<longrightarrow> selection_ok E (snd s')) \<and>
    (\<forall>r s'. writeFloat64 E q x s = Some (r, s') \<longrightarrow> selection_ok E (snd s')) \<and>
    (p = LensMode \<and> int (length (m_LensModes (drv s))) \<le> n \<or> p = PassEnergy \<and> int (length (m_PassEnergies (drv s))) \<le> n \<longrightarrow>
      (\<exists>s'. writeInt32 E p n s = Some (Ret (), s') \<and>
        (\<forall>q. p_int (e_asyn E) q (world s') = p_int (e_asyn E) q (world s))))"
proof -
  have E: "selecting E strs"
    using assms(1,2) by (intro selecting.intro selection_params selecting_axioms.intro)
  show ?thesis
    using selecting.writeInt32_stays [OF E assms(3), of p n] keepsD [OF selecting.writeFloat64_safe [OF E] assms(3)]
      selecting.index_refused [OF E, of p s n]
    by (auto simp: stays_def)
qed

lemma writes_keep_selection_witness:
  "(\<exists>s'. writeInt32 (table_env (\<lambda>_. JNull)) AnalyserAcquisitionMode 2
      (sample_clients, (sample_driver, sample_table\<lparr>t_int := (t_int sample_table)(LensMode := 1)\<rparr>)) = Some (Ret (), s') \<and>
     selection_ok (table_env (\<lambda>_. JNull)) (snd s')) \<and>
   (\<exists>s'. writeInt32 (table_env (\<lambda>_. JNull)) PassEnergy 2
      (sample_clients, (sample_driver, sample_table\<lparr>t_int := (t_int sample_table)(LensMode := 1)\<rparr>)) = Some (Ret (), s') \<and>
     selection_ok (table_env (\<lambda>_. JNull)) (snd s') \<and> t_int (world s') PassEnergy = 0)"
proof -
  let ?E = "table_env (\<lambda>_. JNull)"
  let ?s = "(sample_clients, (sample_driver, sample_table\<lparr>t_int := (t_int sample_table)(LensMode := 1)\<rparr>))"
  note laws = asyn_params.param_laws [OF table.asyn_params_axioms [of "\<lambda>_. JNull"]]
  have "p_int (e_asyn ?E) LensMode (world ?s) = 1" by (simp add: table_env_def table_asyn_def)
  then have "\<exists>s'. writeInt32 ?E AnalyserAcquisitionMode 2 ?s = Some (Ret (), s')"
    unfolding writeInt32_cases write_acquisition_mode_def drv_flat
    by (simp add: drv_runs laws int_set_def table_env_def table_asyn_def param_type_def vec_nth_def bit_iff_odd)
  then obtain t where t: "writeInt32 ?E AnalyserAcquisitionMode 2 ?s = Some (Ret (), t)" ..
  have "selection_ok ?E (snd ?s)" by (simp add: selection_ok_def)
  note kept = writes_keep_selection [OF table.asyn_params_axioms table_selects.left_alone this]
  have "int (length (m_PassEnergies (drv ?s))) \<le> 2" by simp
  with kept [of PassEnergy 2] obtain s' where s': "writeInt32 ?E PassEnergy 2 ?s = Some (Ret (), s')"
    "\<forall>q. p_int table_asyn q (world s') = p_int table_asyn q (world ?s)"
    by (fastforce simp: table_env_def)
  then have "t_int (world s') PassEnergy = 0" by (simp add: table_asyn_def)
  moreover have "selection_ok ?E (snd t)" "selection_ok ?E (snd s')"
    using kept [of AnalyserAcquisitionMode 2] kept [of PassEnergy 2] t s'(1) by blast+
  ultimately show ?thesis using t s'(1) by blast
qed

end
