(* ===== verification/HttpEnds.thy ===== *)
theory HttpEnds
  imports HttpClient
begin

text \<open>
  Every request ends if the peer does: the socket calls return, and of each connection there is only a
  finite number of bytes to read.  The code does not see to this itself: its timeout is for the first
  byte of a response only, and a peer that falls silent behind it blocks the request for ever.
\<close>

section \<open>Programs that end with no more to read\<close>

definition within :: "('w \<Rightarrow> nat) \<Rightarrow> ('w, 'a) prog \<Rightarrow> 'w \<Rightarrow> bool" where
  "within left m w \<longleftrightarrow> (\<exists>r w'. m w = Some (r, w') \<and> left w' \<le> left w)"

lemma within_simple: "within left (retp a) w" "within left (throwp e) w" "within left undefp w" "within left (liftp r) w"
  by (simp_all add: within_def liftp_def retp_def throwp_def undefp_def)

lemma within_bnd:
  assumes "within left m w" and "\<And>a w'. m w = Some (Ret a, w') \<Longrightarrow> left w' \<le> left w \<Longrightarrow> within left (f a) w'"
  shows "within left (bnd m f) w"
proof -
  obtain r w' where m: "m w = Some (r, w')" "left w' \<le> left w" using assms(1) by (auto simp: within_def)
  show ?thesis
  proof (cases r)
    case (Ret a)
    with assms(2) [of a w'] m show ?thesis by (force simp: within_def prog_runs)
  qed (use m in \<open>simp_all add: within_def bnd_def\<close>)
qed

lemma within_ends: "(\<And>w. within left m w) \<Longrightarrow> ends m"
  by (rule endsI) (metis within_def)

section \<open>A network whose peers end\<close>

locale finite_net =
  fixes N :: "'w net" and left :: "'w \<Rightarrow> nat"
  assumes recv_ends: "ends (n_recv N d n)"
    and recv_left: "n_recv N d n w = Some (r, w') \<Longrightarrow> left w' \<le> left w"
    and recv_data: "n_recv N d n w = Some (Ret (RecvData b), w') \<Longrightarrow> left w' < left w"
    and send_ends: "ends (n_send N d b)"
    and send_some: "n_send N d b w = Some (Ret k, w') \<Longrightarrow> b \<noteq> [] \<Longrightarrow> k \<noteq> 0"
    and calls_end: "ends (n_create N)" "ends (n_destroy N d)" "ends (n_connect N d h p)"
      "ends (n_select_write N d t)" "ends (n_select_read N d t)" "ends (n_set_nonblock N d nb)" "ends (n_local_host N d)"
begin

lemma recv_within: "within left (n_recv N d n) w"
  using endsE [OF recv_ends, of d n w] recv_left by (auto simp: within_def)

lemma recv_cases:
  assumes "\<And>w'. left w' \<le> left w \<Longrightarrow> within left e w'" "\<And>w'. left w' \<le> left w \<Longrightarrow> within left c w'"
    and "\<And>b w'. left w' < left w \<Longrightarrow> within left (f b) w'"
  shows "within left (bnd (n_recv N d n) (\<lambda>r. case r of RecvError \<Rightarrow> e | RecvClosed \<Rightarrow> c | RecvData b \<Rightarrow> f b)) w"
proof (rule within_bnd [OF recv_within])
  fix r w'
  assume "n_recv N d n w = Some (Ret r, w')" "left w' \<le> left w"
  then show "within left (case r of RecvError \<Rightarrow> e | RecvClosed \<Rightarrow> c | RecvData b \<Rightarrow> f b) w'"
    using assms recv_data by (cases r) auto
qed

text \<open>The lines: each takes a byte at least, unless there is none.\<close>

lemma readLine_loop_less:
  "\<exists>r w'. readLine_loop N d line w = Some (r, w') \<and> left w' \<le> left w \<and>
    (line = [] \<longrightarrow> (\<forall>l. r = Ret (True, l) \<longrightarrow> left w' < left w))"
proof (induction "left w" arbitrary: w line rule: less_induct)
  case less
  obtain r w1 where r: "n_recv N d 1 w = Some (r, w1)" "left w1 \<le> left w"
    using recv_within [of d 1 w] by (auto simp: within_def)
  show ?case
  proof (cases "\<exists>b. r = Ret (RecvData b)")
    case True
    then obtain b where b: "r = Ret (RecvData b)" by blast
    then have "left w1 < left w" using r(1) recv_data by simp
    with less [of w1 "line @ b"] r(1) b show ?thesis
      by (subst readLine_loop.simps) (auto simp: prog_runs intro: less_imp_le less_trans)
  next
    case False
    then consider "r = Ret RecvError" | "r = Ret RecvClosed" | e where "r = Throw e" | "r = Undef"
      by (metis outcome.exhaust recv_result.exhaust)
    then show ?thesis
      using r by cases (subst readLine_loop.simps; simp add: prog_runs bnd_def)+
  qed
qed

lemma readLine_within: "within left (readLine N d) w"
  using readLine_loop_less [of d "[]" w] by (auto simp: readLine_def within_def)

lemma readLine_less: "readLine N d w = Some (Ret (True, l), w') \<Longrightarrow> left w' < left w"
  using readLine_loop_less [of d "[]" w] by (auto simp: readLine_def)

text \<open>The bodies.\<close>

lemma readIndefinite_within: "within left (readIndefiniteContent N d content) w"
proof (induction "left w" arbitrary: w content rule: less_induct)
  case less
  have "within left (readIndefiniteContent N d c) w'" if "left w' < left w" for w' c using less that by blast
  then show ?case
    unfolding within_def by (subst readIndefiniteContent.simps, fold within_def) (intro recv_cases within_simple)
qed

lemma readFixed_loop_within: "within left (readFixed_loop N d buf n) w"
proof (induction "left w" arbitrary: w buf n rule: less_induct)
  case less
  then have rec: "within left (readFixed_loop N d b k) w'" if "left w' < left w" for w' b k using that by blast
  have "within left (if length b \<le> n then readFixed_loop N d (buf @ b) (n - length b) else undefp) w'"
    if "left w' < left w" for w' b
    using rec [OF that] by (simp add: within_simple)
  then have "within left (bnd (n_recv N d (recv_count n)) (\<lambda>r. case r of RecvError \<Rightarrow> retp None | RecvClosed \<Rightarrow> retp None
      | RecvData b \<Rightarrow> if length b \<le> n then readFixed_loop N d (buf @ b) (n - length b) else undefp)) w"
    by (intro recv_cases within_simple)
  then show ?case
    unfolding within_def by (subst readFixed_loop.simps) (cases "n = 0"; auto simp: retp_def)
qed

lemma readFixed_within: "within left (readFixedContent N d content n) w"
proof (cases "2 ^ 63 \<le> n")
  case False
  then show ?thesis
    unfolding readFixedContent_def by (auto intro!: within_bnd readFixed_loop_within within_simple split: option.split)
qed (simp add: readFixedContent_def within_simple)

lemma readChunked_within: "within left (readChunkedContent N d content) w"
proof (induction "left w" arbitrary: w content rule: less_induct)
  case less
  then have rec: "within left (readChunkedContent N d c) w'" if "left w' < left w" for w' c using that by blast
  let ?chunk = "\<lambda>len. if len \<noteq> 0 then readFixedContent N d [] len else retp (True, [])"
  have chunk: "within left (?chunk len) w'" for len w'
    by (simp add: readFixed_within within_simple)
  have "within left (bnd (readLine N d) (\<lambda>(ok, lengthLine). if \<not> ok then retp (False, content)
     else let len = strtoul16 lengthLine in
       bnd (?chunk len) (\<lambda>(ok, chunk).
       if \<not> ok then retp (False, content)
       else bnd (readLine N d) (\<lambda>(ok, line).
         if \<not> ok \<or> line \<noteq> CRLF then retp (False, content @ chunk)
         else if len = 0 then retp (True, content @ chunk)
         else readChunkedContent N d (content @ chunk))))) w"
  proof (rule within_bnd [OF readLine_within], goal_cases)
    case (1 p w1)
    obtain ok line where p: "p = (ok, line)" by fastforce
    have w1: "readLine N d w = Some (Ret (ok, line), w1)" "left w1 \<le> left w" using 1 by (simp_all add: p)
    have "within left (if \<not> ok then retp (False, content) else bnd (?chunk (strtoul16 line)) (\<lambda>(ok, chunk).
       if \<not> ok then retp (False, content)
       else bnd (readLine N d) (\<lambda>(ok, l).
         if \<not> ok \<or> l \<noteq> CRLF then retp (False, content @ chunk)
         else if strtoul16 line = 0 then retp (True, content @ chunk)
         else readChunkedContent N d (content @ chunk)))) w1"
    proof (cases ok)
      case True
      then have less: "left w1 < left w" using w1(1) readLine_less [of d w line w1] by simp
      have "within left (readChunkedContent N d c) w3" if "left w3 \<le> left w2" "left w2 \<le> left w1" for c w2 w3
        using that less by (intro rec) linarith
      then have inner: "within left (if \<not> a then retp (False, content)
         else bnd (readLine N d) (\<lambda>(ok, l).
           if \<not> ok \<or> l \<noteq> CRLF then retp (False, content @ b)
           else if strtoul16 line = 0 then retp (True, content @ b)
           else readChunkedContent N d (content @ b))) w2" if "left w2 \<le> left w1" for a b w2
        using that by (auto intro!: within_bnd [OF readLine_within] simp: within_simple)
      show ?thesis
        using True inner by (simp only: not_True_eq_False if_False) (rule within_bnd [OF chunk], auto)
    qed (simp add: within_simple)
    then show ?case by (simp only: p prod.case Let_def)
  qed
  then show ?case unfolding within_def by (subst readChunkedContent.simps)
qed

lemma read_headers_ends: "\<exists>r w'. read_headers N d m w = Some (r, w')"
proof (induction "left w" arbitrary: w m rule: less_induct)
  case less
  obtain r w1 where r: "readLine N d w = Some (r, w1)"
    using readLine_within [of d w] by (auto simp: within_def)
  show ?case
  proof (cases "\<exists>line. r = Ret (True, line)")
    case True
    then obtain line where line: "r = Ret (True, line)" by blast
    then have rec: "\<exists>r w'. read_headers N d m w1 = Some (r, w')" for m
      using less r readLine_less by blast
    show ?thesis
      using r line rec by (subst read_headers.simps) (auto simp: prog_runs bnd_def liftp_def split: outcome.split)
  next
    case False
    then consider l where "r = Ret (False, l)" | e where "r = Throw e" | "r = Undef"
      by (metis outcome.exhaust surj_pair)
    then show ?thesis using r by cases (subst read_headers.simps; simp add: prog_runs bnd_def)+
  qed
qed

text \<open>Writing: the data grow shorter.\<close>

lemma sock_write_ends: "\<exists>r w'. sock_write N d data w = Some (r, w')"
proof (induction "length data" arbitrary: data w rule: less_induct)
  case less
  show ?case
  proof (cases "data = []")
    case False
    obtain r w1 where r: "n_send N d data w = Some (r, w1)" using endsE [OF send_ends] by blast
    show ?thesis
    proof (cases r)
      case (Ret k)
      then have "k \<noteq> 0" using r send_some False by simp
      then have "0 < k \<Longrightarrow> \<exists>r w'. sock_write N d (drop (nat k) data) w1 = Some (r, w')"
        using False by (intro less) simp
      with Ret r False \<open>k \<noteq> 0\<close> show ?thesis
        by (subst sock_write.simps) (auto simp: prog_runs undefp_def)
    qed (use r False in \<open>subst sock_write.simps, simp add: bnd_def\<close>)+
  qed (subst sock_write.simps, simp)
qed

lemmas net_ends = recv_ends send_ends calls_end
  within_ends [of left, OF readLine_within] within_ends [of left, OF readIndefinite_within]
  within_ends [of left, OF readFixed_within] within_ends [of left, OF readChunked_within]
  endsI [OF read_headers_ends] endsI [OF sock_write_ends]

lemma ends_attempt:
  assumes "ends cb" "ends retry"
  shows "ends (attempt N cb i data retry)"
proof -
  have close: "ends (http_close N i)"
    unfolding http_close_def by (intro ends_intros ends_netp net_ends)
  have nonblock: "ends (setNonBlock N i b)" for b
    unfolding setNonBlock_def by (intro ends_intros ends_netp net_ends)
  have drop: "ends (drop_fd N i d)" for d
    unfolding drop_fd_def by (intro ends_intros ends_netp net_ends)
  have tryc: "ends (try_connect N i d)" for d
    unfolding try_connect_def
    by (intro ends_intros ends_netp net_ends)
      (auto split: connect_result.split select_result.split intro!: ends_intros ends_netp net_ends drop)
  have connect: "ends (http_connect N cb i)"
    unfolding http_connect_def cache_local_host_def by (intro ends_intros ends_netp net_ends nonblock tryc assms)
  have response: "ends (read_response N i d r)" for d r
    unfolding read_response_def read_content_def by (intro ends_intros ends_netp net_ends close)
  show ?thesis
    unfolding attempt_def by (intro ends_intros ends_netp net_ends connect close response assms)
qed

lemma ends_doRequest:
  assumes "ends cb"
  shows "ends (doRequest N cb rq)"
proof -
  have "ends (request_attempts N cb i data n)" for i data n
    by (induction n) (simp_all add: ends_attempt assms ends_simple)
  then show ?thesis
    unfolding doRequest_def by (intro ends_intros)
qed

end

text \<open>The peer of the scripts ends.\<close>

interpretation peer_ends: finite_net peer_net "\<lambda>w. length (concat (incoming w))"
proof unfold_locales
  fix d n :: nat and w w' :: peer and r b
  show "ends (n_recv peer_net d n)"
    by (auto simp: ends_def peer_net_def peer_recv_def split: list.split)
  show "n_recv peer_net d n w = Some (r, w') \<Longrightarrow> length (concat (incoming w')) \<le> length (concat (incoming w))"
    using arg_cong [OF concat_dropWhile_Nil [of "incoming w"], of length]
    by (auto simp: peer_net_def peer_recv_def split: if_splits list.splits)
  assume data: "n_recv peer_net d n w = Some (Ret (RecvData b), w')"
  then have n: "0 < n" by (auto simp: peer_net_def peer_recv_def split: if_splits)
  moreover from this have "concat (incoming w) \<noteq> []" using peer.recv_eof [of w n d] data by fastforce
  ultimately show "length (concat (incoming w')) < length (concat (incoming w))"
    using peer.recv_some [of w n d] data by auto
qed (auto simp: ends_def peer_net_def peer_send_def Let_def)

section \<open>Properties\<close>

text \<open>C29: over every network whose calls return and whose peers send a finite number of bytes on each connection
  before they close it or it fails, in whatever pieces and whatever the bytes are, a GET and a POST have an outcome,
  if the callback for a new connection, which the caller supplies, has one.\<close>

theorem http_calls_end:
  assumes "finite_net N left" and "ends cb"
  shows "(\<exists>r s'. http_get N cb pth hdrs s = Some (r, s')) \<and> (\<exists>r s'. http_post N cb pth hdrs content s = Some (r, s'))"
  unfolding http_get_def http_post_def
  by (intro conjI; rule endsE; intro ends_intros finite_net.ends_doRequest [OF assms(1)] assms(2))

lemma http_calls_end_witness:
  "(\<exists>r s'. http_get peer_net (retp ()) ''/'' [] (sample_client, sample_peer [''HTTP/1.1 200 OK'', ''broken''] [[''x'']]) = Some (r, s')) \<and>
   (\<exists>r s'. http_post peer_net (retp ()) ''/'' [] ''{}'' (sample_client, sample_peer [''HTTP/1.1 200 OK'', ''broken''] [[''x'']]) = Some (r, s'))"
  by (rule http_calls_end [OF peer_ends.finite_net_axioms]) (rule ends_simple)

text \<open>A peer that sends a byte and then neither sends nor closes blocks the request: no timeout is set for \<open>recv\<close>.\<close>

lemma silent_peer_blocks:
  assumes "slot_open d c" and "sock_write N d (request_data c (empty_request\<lparr>rq_method := ''POST'', rq_path := pth,
      rq_headers := hdrs, rq_content := content\<rparr>)) w = Some (Ret True, w1)"
    and "n_select_read N d (mTimeout c) w1 = Some (Ret SelReady, w2)"
    and "n_recv N d 1 w2 = Some (Ret (RecvData [b]), w3)" "b \<noteq> CHR 0x0A" and "n_recv N d 1 w3 = None"
  shows "http_post N cb pth hdrs content (c, w) = None"
proof -
  obtain s0 ss where ss: "mSockets c = s0 # ss"
    "s0 = \<lparr>sock_fd = Some d, sock_closed = Some False, sock_locked = False\<rparr>" "0 \<le> mTimeout c"
    using assms(1) by (cases "mSockets c") (auto simp: slot_open_def)
  have "readLine_loop N d [b] w3 = None" by (subst readLine_loop.simps) (simp add: bnd_run_None assms(6) [unfolded One_nat_def])
  then have "readLine N d w2 = None"
    unfolding readLine_def by (subst readLine_loop.simps) (simp add: prog_runs assms(4) [unfolded One_nat_def] assms(5))
  then have "netp (readLine N d) (c, w2) = None" by (simp add: netp_def zoom_def)
  then have "attempt N cb 0 (request_data c (empty_request\<lparr>rq_method := ''POST'', rq_path := pth,
      rq_headers := hdrs, rq_content := content\<rparr>)) retry (c, w) = None" for retry
    using ss by (simp add: attempt_def connect_open [OF assms(1)] prog_runs slot_def netp_runs assms(2,3) bnd_run_None)
  then show ?thesis
    by (simp add: http_post_def doRequest_def slot_open_select [OF assms(1)] MAX_HTTP_RETRIES_def prog_runs bnd_run_None)
qed

end
