(* ===== verification/JsonLexer.thy ===== *)
theory JsonLexer
  imports Json
begin

text \<open>
  The lexer of the JSON library: \<open>class lexer\<close> of \<open>json.hpp\<close>, reading the bytes of a
  string, and the conversions of the standard library it calls.

  A lexer is the record of the members that decide what it does: the bytes not read yet, the current
  byte (\<open>None\<close> at the end of the input), whether it is to be read again, the number of bytes
  read, the token buffer and the three number values.  The members that only serve the text of an error
  message (the line and column, the raw bytes of the token, the message) are left out.
  The locale is the locale \<open>C\<close>, whose decimal point is the full stop.
\<close>

unbundle bit_operations_syntax

section \<open>Conversions of the standard library\<close>

text \<open>The value of a sequence of decimal digits.\<close>

definition dec_value :: "string \<Rightarrow> int" where
  "dec_value s = foldl (\<lambda>n c. 10 * n + int (the (char_digit c))) 0 s"

text \<open>
  \<open>std::strtoull\<close> and \<open>std::strtoll\<close> in base ten: the value, the text behind the number
  (where \<open>endptr\<close> points) and whether the number is out of range, which sets \<open>errno\<close>.
\<close>

definition strtoull :: "string \<Rightarrow> int \<times> string \<times> bool" where
  "strtoull s = (let n = dec_value (takeWhile is_digit s) in
     (min n (2 ^ 64 - 1), dropWhile is_digit s, 2 ^ 64 \<le> n))"

definition strtoll :: "string \<Rightarrow> int \<times> string \<times> bool" where
  "strtoll s = (let (neg, t) = (case s of c # t \<Rightarrow> if c = CHR ''-'' then (True, t) else (False, s) | [] \<Rightarrow> (False, s));
       v = dec_value (takeWhile is_digit t); n = (if neg then - v else v) in
     (max (- (2 ^ 63)) (min n (2 ^ 63 - 1)), dropWhile is_digit t, n < - (2 ^ 63) \<or> 2 ^ 63 \<le> n))"

text \<open>
  \<open>std::strtod\<close> on a decimal number: the exact value of the text, rounded to the nearest number of
  the format, and the text behind the number.
\<close>

definition strtod_exponent :: "string \<Rightarrow> int \<times> string" where
  "strtod_exponent s = (case s of
       [] \<Rightarrow> (0, s)
     | c # t \<Rightarrow>
         if c = CHR ''e'' \<or> c = CHR ''E'' then
           (let (neg, u) = (case t of
                  d # u \<Rightarrow> if d = CHR ''-'' then (True, u) else if d = CHR ''+'' then (False, u) else (False, t)
                | [] \<Rightarrow> (False, t));
                ds = takeWhile is_digit u
            in if ds = [] then (0, s)
               else (if neg then - dec_value ds else dec_value ds, dropWhile is_digit u))
         else (0, s))"

definition pow10 :: "int \<Rightarrow> rat" where
  "pow10 k = (if 0 \<le> k then of_int (10 ^ nat k) else 1 / of_int (10 ^ nat (- k)))"

definition strtod :: "string \<Rightarrow> dbl \<times> string" where
  "strtod s =
     (let (neg, s1) = (case s of c # t \<Rightarrow> if c = CHR ''-'' then (True, t) else (False, s) | [] \<Rightarrow> (False, s));
          ip = takeWhile is_digit s1; s2 = dropWhile is_digit s1;
          (fp, s3) = (case s2 of
              c # t \<Rightarrow> if c = CHR ''.'' then (takeWhile is_digit t, dropWhile is_digit t) else ([], s2)
            | [] \<Rightarrow> ([], s2))
      in if ip = [] \<and> fp = [] then (Fin 0, s)
         else (let (ex, s4) = strtod_exponent s3;
                   v = of_int (dec_value (ip @ fp)) * pow10 (ex - int (length fp))
               in (rnd neg (if neg then - v else v), s4)))"

section \<open>The state of the lexer\<close>

datatype token_type =
    uninitialized
  | literal_true
  | literal_false
  | literal_null
  | value_string
  | value_unsigned
  | value_integer
  | value_float
  | begin_array
  | begin_object
  | end_array
  | end_object
  | name_separator
  | value_separator
  | parse_error
  | end_of_input
  | literal_or_value

record lexer =
  lx_input :: string
  lx_ignore_comments :: bool
  lx_current :: "char option"
  lx_unget :: bool
  lx_total :: nat
  lx_buffer :: string
  lx_integer :: int
  lx_unsigned :: int
  lx_float :: dbl

definition new_lexer :: "string \<Rightarrow> bool \<Rightarrow> lexer" where
  "new_lexer s ignore = \<lparr>lx_input = s, lx_ignore_comments = ignore, lx_current = None, lx_unget = False,
     lx_total = 0, lx_buffer = [], lx_integer = 0, lx_unsigned = 0, lx_float = Fin 0\<rparr>"

text \<open>The integer value of the current byte, -1 at the end of the input, and its cast to \<open>char\<close>.\<close>

definition char_int :: "char option \<Rightarrow> int" where
  "char_int c = (case c of None \<Rightarrow> - 1 | Some c \<Rightarrow> of_char c)"

definition to_char_type :: "char option \<Rightarrow> char" where
  "to_char_type c = (case c of None \<Rightarrow> CHR 0xFF | Some c \<Rightarrow> c)"

text \<open>The adapter over the bytes of a string: the next byte, and the end of the input after the last one.\<close>

definition get_character :: "string \<Rightarrow> char option \<times> string" where
  "get_character s = (case s of [] \<Rightarrow> (None, []) | c # cs \<Rightarrow> (Some c, cs))"

definition lx_get :: "lexer \<Rightarrow> lexer" where
  "lx_get lx =
     (let lx = lx\<lparr>lx_total := lx_total lx + 1\<rparr> in
      if lx_unget lx then lx\<lparr>lx_unget := False\<rparr>
      else case get_character (lx_input lx) of (c, s) \<Rightarrow> lx\<lparr>lx_current := c, lx_input := s\<rparr>)"

definition lx_unread :: "lexer \<Rightarrow> lexer" where
  "lx_unread lx = lx\<lparr>lx_unget := True, lx_total := lx_total lx - 1\<rparr>"

definition lx_reset :: "lexer \<Rightarrow> lexer" where
  "lx_reset lx = lx\<lparr>lx_buffer := []\<rparr>"

definition lx_add :: "char \<Rightarrow> lexer \<Rightarrow> lexer" where
  "lx_add c lx = lx\<lparr>lx_buffer := lx_buffer lx @ [c]\<rparr>"

definition add_current :: "lexer \<Rightarrow> lexer" where
  "add_current lx = lx_add (to_char_type (lx_current lx)) lx"

lemmas lexer_defs = lx_get_def lx_unread_def lx_reset_def lx_add_def add_current_def Let_def get_character_def

text \<open>The bytes the lexer has still to read; the byte to be read again counts once.\<close>

definition remaining :: "lexer \<Rightarrow> nat" where
  "remaining lx = length (lx_input lx) + (if lx_unget lx \<and> lx_current lx \<noteq> None then 1 else 0)"

lemma remaining_get: "remaining (lx_get lx) \<le> remaining lx"
  by (auto simp: remaining_def lexer_defs split: list.splits)

lemma remaining_get_le: "remaining lx \<le> n \<Longrightarrow> remaining (lx_get lx) \<le> n"
  using remaining_get [of lx] by linarith

lemma remaining_getD: "n \<le> remaining (lx_get lx) \<Longrightarrow> n \<le> remaining lx"
  using remaining_get [of lx] by linarith

lemma remaining_get_Some: "lx_current (lx_get lx) = Some c \<Longrightarrow> remaining (lx_get lx) < remaining lx"
  by (auto simp: remaining_def lexer_defs split: list.splits if_splits)

lemma remaining_keep [simp]:
  "remaining (lx_add c lx) = remaining lx" "remaining (add_current lx) = remaining lx"
  "remaining (lx_reset lx) = remaining lx"
  by (simp_all add: remaining_def lexer_defs)

lemma unget_get [simp]: "\<not> lx_unget (lx_get lx)"
  by (simp add: lexer_defs split: list.splits prod.splits)

lemma lx_keep [simp]:
  "lx_current (lx_add c lx) = lx_current lx" "lx_current (add_current lx) = lx_current lx"
  "lx_current (lx_reset lx) = lx_current lx" "lx_unget (lx_add c lx) = lx_unget lx"
  "lx_unget (add_current lx) = lx_unget lx" "lx_unget (lx_reset lx) = lx_unget lx"
  "lx_current (lx_unread lx) = lx_current lx" "lx_unget (lx_unread lx)"
  by (simp_all add: lexer_defs)

lemma remaining_unread:
  "\<not> lx_unget lx \<Longrightarrow> remaining (lx_unread lx) = remaining lx + (if lx_current lx = None then 0 else 1)"
  by (auto simp: remaining_def lexer_defs)

section \<open>Strings\<close>

text \<open>Four hexadecimal digits; -1 when there is something else.\<close>

primrec codepoint_loop :: "nat list \<Rightarrow> int \<Rightarrow> lexer \<Rightarrow> int \<times> lexer" where
  "codepoint_loop [] codepoint lx = (codepoint, lx)"
| "codepoint_loop (factor # fs) codepoint lx =
     (let lx = lx_get lx; current = char_int (lx_current lx) in
      if 0x30 \<le> current \<and> current \<le> 0x39 then codepoint_loop fs (codepoint + push_bit factor (current - 0x30)) lx
      else if 0x41 \<le> current \<and> current \<le> 0x46 then codepoint_loop fs (codepoint + push_bit factor (current - 0x37)) lx
      else if 0x61 \<le> current \<and> current \<le> 0x66 then codepoint_loop fs (codepoint + push_bit factor (current - 0x57)) lx
      else (- 1, lx))"

definition get_codepoint :: "lexer \<Rightarrow> (int \<times> lexer) outcome" where
  "get_codepoint lx = asserted (lx_current lx = Some CHR ''u'')
     (case codepoint_loop [12, 8, 4, 0] 0 lx of (codepoint, lx) \<Rightarrow>
        if codepoint = - 1 then Ret (- 1, lx)
        else asserted (0 \<le> codepoint \<and> codepoint \<le> 0xFFFF) (Ret (codepoint, lx)))"

primrec range_loop :: "(int \<times> int) list \<Rightarrow> lexer \<Rightarrow> bool \<times> lexer" where
  "range_loop [] lx = (True, lx)"
| "range_loop (r # rs) lx =
     (let lx = lx_get lx; current = char_int (lx_current lx) in
      if fst r \<le> current \<and> current \<le> snd r then range_loop rs (add_current lx) else (False, lx))"

definition next_byte_in_range :: "(int \<times> int) list \<Rightarrow> lexer \<Rightarrow> (bool \<times> lexer) outcome" where
  "next_byte_in_range ranges lx = asserted (length ranges = 1 \<or> length ranges = 2 \<or> length ranges = 3)
     (Ret (range_loop ranges (add_current lx)))"

text \<open>A code point as UTF-8.\<close>

definition utf8_byte :: "int \<Rightarrow> char" where
  "utf8_byte b = char_of (nat (b mod 256))"

definition codepoint_bytes :: "int \<Rightarrow> string" where
  "codepoint_bytes codepoint =
     (if codepoint < 0x80 then [utf8_byte codepoint]
      else if codepoint \<le> 0x7FF then
        [utf8_byte (0xC0 OR drop_bit 6 codepoint), utf8_byte (0x80 OR (codepoint AND 0x3F))]
      else if codepoint \<le> 0xFFFF then
        [utf8_byte (0xE0 OR drop_bit 12 codepoint), utf8_byte (0x80 OR (drop_bit 6 codepoint AND 0x3F)),
         utf8_byte (0x80 OR (codepoint AND 0x3F))]
      else
        [utf8_byte (0xF0 OR drop_bit 18 codepoint), utf8_byte (0x80 OR (drop_bit 12 codepoint AND 0x3F)),
         utf8_byte (0x80 OR (drop_bit 6 codepoint AND 0x3F)), utf8_byte (0x80 OR (codepoint AND 0x3F))])"

text \<open>The code point behind \<open>\u\<close>, which may take a second escape; \<open>None\<close> is an error.\<close>

definition scan_unicode :: "lexer \<Rightarrow> (int option \<times> lexer) outcome" where
  "scan_unicode lx = obind (get_codepoint lx) (\<lambda>(codepoint1, lx).
     if codepoint1 = - 1 then Ret (None, lx)
     else if 0xD800 \<le> codepoint1 \<and> codepoint1 \<le> 0xDBFF then
       (let lx = lx_get lx in
        if lx_current lx = Some CHR 0x5C then
          (let lx = lx_get lx in
           if lx_current lx = Some CHR ''u'' then
             obind (get_codepoint lx) (\<lambda>(codepoint2, lx).
               if codepoint2 = - 1 then Ret (None, lx)
               else if 0xDC00 \<le> codepoint2 \<and> codepoint2 \<le> 0xDFFF then
                 Ret (Some ((push_bit 10 codepoint1 + codepoint2 - 0x35FDC00) mod 2 ^ 32), lx)
               else Ret (None, lx))
           else Ret (None, lx))
        else Ret (None, lx))
     else if 0xDC00 \<le> codepoint1 \<and> codepoint1 \<le> 0xDFFF then Ret (None, lx)
     else Ret (Some codepoint1, lx))"

definition add_codepoint :: "int \<Rightarrow> lexer \<Rightarrow> lexer outcome" where
  "add_codepoint codepoint lx = asserted (0 \<le> codepoint \<and> codepoint \<le> 0x10FFFF)
     (Ret (fold lx_add (codepoint_bytes codepoint) lx))"

text \<open>The character behind a backslash.\<close>

definition simple_escape :: "char \<Rightarrow> char option" where
  "simple_escape c =
     (if c = CHR 0x22 then Some CHR 0x22
      else if c = CHR 0x5C then Some CHR 0x5C
      else if c = CHR ''/'' then Some CHR ''/''
      else if c = CHR ''b'' then Some CHR 0x08
      else if c = CHR ''f'' then Some CHR 0x0C
      else if c = CHR ''n'' then Some CHR 0x0A
      else if c = CHR ''r'' then Some CHR 0x0D
      else if c = CHR ''t'' then Some CHR 0x09
      else None)"

definition scan_escape :: "lexer \<Rightarrow> (bool \<times> lexer) outcome" where
  "scan_escape lx =
     (let lx = lx_get lx in
      case lx_current lx of
        None \<Rightarrow> Ret (False, lx)
      | Some c \<Rightarrow>
          if c = CHR ''u'' then
            obind (scan_unicode lx) (\<lambda>(r, lx). case r of
                None \<Rightarrow> Ret (False, lx)
              | Some codepoint \<Rightarrow> obind (add_codepoint codepoint lx) (\<lambda>lx. Ret (True, lx)))
          else case simple_escape c of
              Some e \<Rightarrow> Ret (True, lx_add e lx)
            | None \<Rightarrow> Ret (False, lx))"

text \<open>The bytes that may follow the first byte of a sequence; no sequence begins with another byte.\<close>

definition following_ranges :: "int \<Rightarrow> (int \<times> int) list option" where
  "following_ranges b =
     (if 0xC2 \<le> b \<and> b \<le> 0xDF then Some [(0x80, 0xBF)]
      else if b = 0xE0 then Some [(0xA0, 0xBF), (0x80, 0xBF)]
      else if 0xE1 \<le> b \<and> b \<le> 0xEC \<or> b = 0xEE \<or> b = 0xEF then Some [(0x80, 0xBF), (0x80, 0xBF)]
      else if b = 0xED then Some [(0x80, 0x9F), (0x80, 0xBF)]
      else if b = 0xF0 then Some [(0x90, 0xBF), (0x80, 0xBF), (0x80, 0xBF)]
      else if 0xF1 \<le> b \<and> b \<le> 0xF3 then Some [(0x80, 0xBF), (0x80, 0xBF), (0x80, 0xBF)]
      else if b = 0xF4 then Some [(0x80, 0x8F), (0x80, 0xBF), (0x80, 0xBF)]
      else None)"

lemma remaining_codepoint_loop: "codepoint_loop fs n lx = (k, lx') \<Longrightarrow> remaining lx' \<le> remaining lx"
proof (induction fs arbitrary: n lx)
  case (Cons f fs)
  then show ?case
    using remaining_get [of lx] by (fastforce simp: Let_def split: if_splits intro: order_trans)
qed simp

lemma remaining_get_codepoint: "get_codepoint lx = Ret (k, lx') \<Longrightarrow> remaining lx' \<le> remaining lx"
  by (auto simp: get_codepoint_def asserted_eq_Ret simp del: codepoint_loop.simps
      split: prod.splits if_splits dest: remaining_codepoint_loop)

lemma remaining_range_loop: "range_loop rs lx = (b, lx') \<Longrightarrow> remaining lx' \<le> remaining lx"
proof (induction rs arbitrary: lx)
  case (Cons r rs)
  then show ?case
    using remaining_get [of lx] by (fastforce simp: Let_def split: if_splits intro: order_trans)
qed simp

lemma remaining_next_byte: "next_byte_in_range rs lx = Ret (b, lx') \<Longrightarrow> remaining lx' \<le> remaining lx"
  by (auto simp: next_byte_in_range_def asserted_eq_Ret dest: remaining_range_loop)

lemma remaining_scan_unicode: "scan_unicode lx = Ret (k, lx') \<Longrightarrow> remaining lx' \<le> remaining lx"
  by (auto simp: scan_unicode_def obind_eq_Ret Let_def split: if_splits
      dest!: remaining_get_codepoint remaining_getD intro!: remaining_get_le)

lemma remaining_fold_add [simp]: "remaining (fold lx_add cs lx) = remaining lx"
  by (induction cs arbitrary: lx) simp_all

lemma remaining_scan_escape: "scan_escape lx = Ret (b, lx') \<Longrightarrow> remaining lx' \<le> remaining lx"
  using remaining_get [of lx]
  by (auto simp: scan_escape_def obind_eq_Ret Let_def add_codepoint_def asserted_eq_Ret
      split: if_splits option.splits dest!: remaining_scan_unicode)

function scan_string_loop :: "lexer \<Rightarrow> (token_type \<times> lexer) outcome" where
  "scan_string_loop lx0 =
     (let lx = lx_get lx0 in
      case lx_current lx of
        None \<Rightarrow> Ret (parse_error, lx)
      | Some c \<Rightarrow>
          if c = CHR 0x22 then Ret (value_string, lx)
          else if c = CHR 0x5C then
            obind (scan_escape lx) (\<lambda>(ok, lx). if ok then scan_string_loop lx else Ret (parse_error, lx))
          else if of_char c \<le> (0x1F :: int) then Ret (parse_error, lx)
          else if of_char c \<le> (0x7F :: int) then scan_string_loop (add_current lx)
          else case following_ranges (of_char c) of
              Some ranges \<Rightarrow> obind (next_byte_in_range ranges lx) (\<lambda>(ok, lx).
                if ok then scan_string_loop lx else Ret (parse_error, lx))
            | None \<Rightarrow> Ret (parse_error, lx))"
  by pat_completeness auto
termination
  by (relation "measure remaining")
    (auto dest!: remaining_scan_escape remaining_next_byte dest: remaining_get_Some le_less_trans)

declare scan_string_loop.simps [simp del]

definition scan_string :: "lexer \<Rightarrow> (token_type \<times> lexer) outcome" where
  "scan_string lx =
     (let lx = lx_reset lx in asserted (lx_current lx = Some CHR 0x22) (scan_string_loop lx))"

section \<open>Comments\<close>

function line_comment :: "lexer \<Rightarrow> lexer" where
  "line_comment lx0 =
     (let lx = lx_get lx0 in
      case lx_current lx of
        None \<Rightarrow> lx
      | Some c \<Rightarrow> if c = CHR 0x0A \<or> c = CHR 0x0D \<or> c = CHR 0x00 then lx else line_comment lx)"
  by pat_completeness auto
termination
  by (relation "measure remaining") (auto dest: remaining_get_Some)

declare line_comment.simps [simp del]

function block_comment :: "lexer \<Rightarrow> bool \<times> lexer" where
  "block_comment lx0 =
     (let lx = lx_get lx0 in
      case lx_current lx of
        None \<Rightarrow> (False, lx)
      | Some c \<Rightarrow>
          if c = CHR 0x00 then (False, lx)
          else if c = CHR ''*'' then
            (let lx = lx_get lx in
             if lx_current lx = Some CHR ''/'' then (True, lx) else block_comment (lx_unread lx))
          else block_comment lx)"
  by pat_completeness auto
termination
proof (relation "measure remaining")
  fix lx0 x c xa
  assume x: "x = lx_get lx0" "lx_current x = Some c" "xa = lx_get x"
  have "remaining (lx_unread xa) \<le> remaining x"
    using remaining_get [of x] remaining_get_Some [of x]
    by (cases "lx_current xa") (auto simp: x(3) remaining_unread)
  then show "(lx_unread xa, lx0) \<in> measure remaining"
    using x remaining_get_Some [of lx0 c] by simp
qed (auto dest: remaining_get_Some)

declare block_comment.simps [simp del]

definition scan_comment :: "lexer \<Rightarrow> bool \<times> lexer" where
  "scan_comment lx =
     (let lx = lx_get lx in
      if lx_current lx = Some CHR ''/'' then (True, line_comment lx)
      else if lx_current lx = Some CHR ''*'' then block_comment lx
      else (False, lx))"

section \<open>Numbers\<close>

text \<open>
  The labels of the state machine; the label reached with a byte that is added, the end of the number,
  or an error.
\<close>

datatype num_state = Minus | Zero | Any1 | Decimal1 | Decimal2 | Exponent | Sign | Any2

datatype num_next = Goto num_state | Num_done | Num_error

definition num_next :: "num_state \<Rightarrow> char option \<Rightarrow> num_next" where
  "num_next q c =
     (let zero = (c = Some CHR ''0'');
          digit = (0x30 \<le> char_int c \<and> char_int c \<le> 0x39);
          point = (c = Some CHR ''.'');
          e = (c = Some CHR ''e'' \<or> c = Some CHR ''E'');
          sign = (c = Some CHR ''+'' \<or> c = Some CHR ''-'')
      in case q of
        Minus \<Rightarrow> if zero then Goto Zero else if digit then Goto Any1 else Num_error
      | Zero \<Rightarrow> if point then Goto Decimal1 else if e then Goto Exponent else Num_done
      | Any1 \<Rightarrow> if digit then Goto Any1 else if point then Goto Decimal1 else if e then Goto Exponent else Num_done
      | Decimal1 \<Rightarrow> if digit then Goto Decimal2 else Num_error
      | Decimal2 \<Rightarrow> if digit then Goto Decimal2 else if e then Goto Exponent else Num_done
      | Exponent \<Rightarrow> if sign then Goto Sign else if digit then Goto Any2 else Num_error
      | Sign \<Rightarrow> if digit then Goto Any2 else Num_error
      | Any2 \<Rightarrow> if digit then Goto Any2 else Num_done)"

text \<open>The type of the number changes when a minus sign, a decimal point or an exponent has been read.\<close>

definition num_type :: "num_state \<Rightarrow> token_type \<Rightarrow> token_type" where
  "num_type q ty = (case q of Minus \<Rightarrow> value_integer | Decimal1 \<Rightarrow> value_float | Exponent \<Rightarrow> value_float | _ \<Rightarrow> ty)"

definition scan_number_done :: "token_type \<Rightarrow> lexer \<Rightarrow> (token_type \<times> lexer) outcome" where
  "scan_number_done number_type lx =
     (let lx = lx_unread lx;
          float = (case strtod (lx_buffer lx) of (x, endp) \<Rightarrow>
            asserted (endp = []) (Ret (value_float, lx\<lparr>lx_float := x\<rparr>)))
      in if number_type = value_unsigned then
           (case strtoull (lx_buffer lx) of (x, endp, erange) \<Rightarrow> asserted (endp = [])
              (if erange then float else Ret (value_unsigned, lx\<lparr>lx_unsigned := x\<rparr>)))
         else if number_type = value_integer then
           (case strtoll (lx_buffer lx) of (x, endp, erange) \<Rightarrow> asserted (endp = [])
              (if erange then float else Ret (value_integer, lx\<lparr>lx_integer := x\<rparr>)))
         else float)"

lemma num_next_Goto: "num_next q c = Goto q' \<Longrightarrow> c \<noteq> None"
  by (cases q; cases c) (auto simp: num_next_def char_int_def split: if_splits)

function scan_number_loop :: "num_state \<Rightarrow> token_type \<Rightarrow> lexer \<Rightarrow> (token_type \<times> lexer) outcome" where
  "scan_number_loop q ty lx0 =
     (let ty = num_type q ty; lx = lx_get lx0 in
      case num_next q (lx_current lx) of
        Goto q' \<Rightarrow> scan_number_loop q' ty (add_current lx)
      | Num_done \<Rightarrow> scan_number_done ty lx
      | Num_error \<Rightarrow> Ret (parse_error, lx))"
  by pat_completeness auto
termination
  by (relation "measure (\<lambda>(q, ty, lx). remaining lx)") (auto dest!: num_next_Goto dest: remaining_get_Some)

declare scan_number_loop.simps [simp del]

definition scan_number :: "lexer \<Rightarrow> (token_type \<times> lexer) outcome" where
  "scan_number lx =
     (let lx = lx_reset lx in
      if lx_current lx = Some CHR ''-'' then scan_number_loop Minus value_unsigned (add_current lx)
      else if lx_current lx = Some CHR ''0'' then scan_number_loop Zero value_unsigned (add_current lx)
      else if 0x31 \<le> char_int (lx_current lx) \<and> char_int (lx_current lx) \<le> 0x39 then
        scan_number_loop Any1 value_unsigned (add_current lx)
      else Undef)"

section \<open>Literals, white space and the scanner\<close>

primrec literal_loop :: "string \<Rightarrow> lexer \<Rightarrow> bool \<times> lexer" where
  "literal_loop [] lx = (True, lx)"
| "literal_loop (c # cs) lx =
     (let lx = lx_get lx in if to_char_type (lx_current lx) \<noteq> c then (False, lx) else literal_loop cs lx)"

definition scan_literal :: "string \<Rightarrow> token_type \<Rightarrow> lexer \<Rightarrow> (token_type \<times> lexer) outcome" where
  "scan_literal literal_text return_type lx = asserted (to_char_type (lx_current lx) = hd literal_text)
     (case literal_loop (tl literal_text) lx of (ok, lx) \<Rightarrow> Ret (if ok then return_type else parse_error, lx))"

definition skip_bom :: "lexer \<Rightarrow> bool \<times> lexer" where
  "skip_bom lx =
     (let lx = lx_get lx in
      if lx_current lx = Some CHR 0xEF then
        (let lx = lx_get lx in
         if lx_current lx = Some CHR 0xBB then
           (let lx = lx_get lx in (lx_current lx = Some CHR 0xBF, lx))
         else (False, lx))
      else (True, lx_unread lx))"

definition is_ws :: "char \<Rightarrow> bool" where
  "is_ws c \<longleftrightarrow> c = CHR '' '' \<or> c = CHR 0x09 \<or> c = CHR 0x0A \<or> c = CHR 0x0D"

function skip_whitespace :: "lexer \<Rightarrow> lexer" where
  "skip_whitespace lx0 =
     (let lx = lx_get lx0 in
      case lx_current lx of None \<Rightarrow> lx | Some c \<Rightarrow> if is_ws c then skip_whitespace lx else lx)"
  by pat_completeness auto
termination
  by (relation "measure remaining") (auto dest: remaining_get_Some)

declare skip_whitespace.simps [simp del]

lemma remaining_skip_whitespace: "remaining (skip_whitespace lx) \<le> remaining lx"
proof (induction lx rule: skip_whitespace.induct)
  case (1 lx)
  show ?case
    using 1 remaining_get [of lx]
    by (auto simp: skip_whitespace.simps [of lx] Let_def intro: order_trans split: option.splits)
qed

lemma remaining_skip_whitespace_Some:
  "lx_current (skip_whitespace lx) = Some c \<Longrightarrow> remaining (skip_whitespace lx) < remaining lx"
proof (induction lx rule: skip_whitespace.induct)
  case (1 lx)
  then show ?case
    using remaining_get_Some [of lx]
    by (auto simp: skip_whitespace.simps [of lx] Let_def intro: less_trans split: option.splits if_splits)
qed

lemma remaining_line_comment: "remaining (line_comment lx) \<le> remaining lx"
proof (induction lx rule: line_comment.induct)
  case (1 lx)
  show ?case
    using 1 remaining_get [of lx]
    by (auto simp: line_comment.simps [of lx] Let_def intro: order_trans split: option.splits)
qed

lemma remaining_unread_get: "remaining (lx_unread (lx_get lx)) \<le> remaining lx"
  using remaining_get [of lx] remaining_get_Some [of lx]
  by (cases "lx_current (lx_get lx)") (auto simp: remaining_unread)

lemma remaining_block_comment: "block_comment lx = (b, lx') \<Longrightarrow> remaining lx' \<le> remaining lx"
proof (induction lx rule: block_comment.induct)
  case (1 lx)
  have le: "remaining (lx_get lx) \<le> remaining lx" "remaining (lx_get (lx_get lx)) \<le> remaining lx"
    "remaining (lx_unread (lx_get (lx_get lx))) \<le> remaining lx"
    using remaining_get [of lx] remaining_get [of "lx_get lx"] remaining_unread_get [of "lx_get lx"] by linarith+
  show ?case
    using "1.IH" "1.prems" le
    by (auto simp: block_comment.simps [of lx] Let_def intro: order_trans split: option.splits if_splits)
qed

lemma remaining_scan_comment: "scan_comment lx = (b, lx') \<Longrightarrow> remaining lx' \<le> remaining lx"
  using remaining_get [of lx] remaining_line_comment [of "lx_get lx"]
  by (auto simp: scan_comment_def Let_def split: if_splits dest!: remaining_block_comment)

text \<open>While comments are ignored: the comments before a token; the result tells whether they are complete.\<close>

function skip_comments :: "lexer \<Rightarrow> bool \<times> lexer" where
  "skip_comments lx0 =
     (if lx_ignore_comments lx0 \<and> lx_current lx0 = Some CHR ''/'' then
        (case scan_comment lx0 of (ok, lx) \<Rightarrow>
           if ok then
             (let lx = skip_whitespace lx in
              if lx_current lx = None then (True, lx) else skip_comments lx)
           else (False, lx))
      else (True, lx0))"
  by pat_completeness auto
termination
  by (relation "measure remaining")
    (auto dest!: remaining_scan_comment [OF sym] dest: remaining_skip_whitespace_Some intro: less_le_trans)

declare skip_comments.simps [simp del]

definition scan_token :: "lexer \<Rightarrow> (token_type \<times> lexer) outcome" where
  "scan_token lx =
     (case lx_current lx of
        None \<Rightarrow> Ret (end_of_input, lx)
      | Some c \<Rightarrow>
          if c = CHR ''['' then Ret (begin_array, lx)
          else if c = CHR '']'' then Ret (end_array, lx)
          else if c = CHR ''{'' then Ret (begin_object, lx)
          else if c = CHR ''}'' then Ret (end_object, lx)
          else if c = CHR '':'' then Ret (name_separator, lx)
          else if c = CHR '','' then Ret (value_separator, lx)
          else if c = CHR ''t'' then scan_literal ''true'' literal_true lx
          else if c = CHR ''f'' then scan_literal ''false'' literal_false lx
          else if c = CHR ''n'' then scan_literal ''null'' literal_null lx
          else if c = CHR 0x22 then scan_string lx
          else if c = CHR ''-'' \<or> 0x30 \<le> char_int (Some c) \<and> char_int (Some c) \<le> 0x39 then scan_number lx
          else if c = CHR 0x00 then Ret (end_of_input, lx)
          else Ret (parse_error, lx))"

definition scan :: "lexer \<Rightarrow> (token_type \<times> lexer) outcome" where
  "scan lx =
     (case (if lx_total lx = 0 then skip_bom lx else (True, lx)) of (bom_ok, lx) \<Rightarrow>
      if \<not> bom_ok then Ret (parse_error, lx)
      else case skip_comments (skip_whitespace lx) of (ok, lx) \<Rightarrow>
        if ok then scan_token lx else Ret (parse_error, lx))"

end
