(* ===== verification/JsonGrammar.thy ===== *)
theory JsonGrammar
  imports JsonLexer
begin

text \<open>
  The specification the lexer, the parser and the serializer are held against: which value a JSON text
  denotes, by the grammar of RFC 8259, independently of how the code reads it.

  A string is a sequence of Unicode scalar values in UTF-8.  A numeral denotes an exact rational; without
  fraction and exponent it is an integer of the library when it fits into 64 bits, and otherwise the
  nearest floating-point number.  Of several members of an object with the same name, the last one counts.
\<close>

section \<open>Characters and strings\<close>

definition surrogate :: "int \<Rightarrow> bool" where
  "surrogate cp \<longleftrightarrow> 0xD800 \<le> cp \<and> cp \<le> 0xDFFF"

definition scalar_value :: "int \<Rightarrow> bool" where
  "scalar_value cp \<longleftrightarrow> 0 \<le> cp \<and> cp \<le> 0x10FFFF \<and> \<not> surrogate cp"

text \<open>The bytes of a scalar value.\<close>

definition utf8 :: "int \<Rightarrow> string" where
  "utf8 cp =
     (if cp < 0x80 then [utf8_byte cp]
      else if cp < 0x800 then [utf8_byte (0xC0 + cp div 64), utf8_byte (0x80 + cp mod 64)]
      else if cp < 0x10000 then
        [utf8_byte (0xE0 + cp div 4096), utf8_byte (0x80 + cp div 64 mod 64), utf8_byte (0x80 + cp mod 64)]
      else
        [utf8_byte (0xF0 + cp div 262144), utf8_byte (0x80 + cp div 4096 mod 64),
         utf8_byte (0x80 + cp div 64 mod 64), utf8_byte (0x80 + cp mod 64)])"

definition utf8_text :: "string \<Rightarrow> bool" where
  "utf8_text s \<longleftrightarrow> (\<exists>cps. list_all scalar_value cps \<and> s = concat (map utf8 cps))"

definition hex_digit_value :: "char \<Rightarrow> int option" where
  "hex_digit_value c = (let n = of_char c in
     if 48 \<le> n \<and> n \<le> 57 then Some (n - 48)
     else if 65 \<le> n \<and> n \<le> 70 then Some (n - 55)
     else if 97 \<le> n \<and> n \<le> 102 then Some (n - 87)
     else None)"

definition hex4_value :: "string \<Rightarrow> int \<Rightarrow> bool" where
  "hex4_value h n \<longleftrightarrow> (\<exists>a b c d i j k l. h = [a, b, c, d] \<and> hex_digit_value a = Some i \<and> hex_digit_value b = Some j \<and>
     hex_digit_value c = Some k \<and> hex_digit_value d = Some l \<and> n = 4096 * i + 256 * j + 16 * k + l)"

text \<open>The characters with an escape of their own.\<close>

definition escapes :: "(char \<times> int) set" where
  "escapes = {(CHR 0x22, 0x22), (CHR 0x5C, 0x5C), (CHR ''/'', 0x2F), (CHR ''b'', 8), (CHR ''f'', 12),
     (CHR ''n'', 10), (CHR ''r'', 13), (CHR ''t'', 9)}"

inductive char_text :: "int \<Rightarrow> string \<Rightarrow> bool" where
  unescaped: "scalar_value cp \<Longrightarrow> 0x20 \<le> cp \<Longrightarrow> cp \<noteq> 0x22 \<Longrightarrow> cp \<noteq> 0x5C \<Longrightarrow> char_text cp (utf8 cp)"
| escape: "(c, cp) \<in> escapes \<Longrightarrow> char_text cp [CHR 0x5C, c]"
| unicode: "hex4_value h cp \<Longrightarrow> \<not> surrogate cp \<Longrightarrow> char_text cp (CHR 0x5C # CHR ''u'' # h)"
| pair: "hex4_value h hi \<Longrightarrow> hex4_value l lo \<Longrightarrow> 0xD800 \<le> hi \<Longrightarrow> hi \<le> 0xDBFF \<Longrightarrow> 0xDC00 \<le> lo \<Longrightarrow> lo \<le> 0xDFFF \<Longrightarrow>
    char_text (0x10000 + 1024 * (hi - 0xD800) + (lo - 0xDC00)) (CHR 0x5C # CHR ''u'' # h @ CHR 0x5C # CHR ''u'' # l)"

inductive string_text :: "string \<Rightarrow> string \<Rightarrow> bool" where
  empty: "string_text [] []"
| more: "char_text cp t \<Longrightarrow> string_text s u \<Longrightarrow> string_text (utf8 cp @ s) (t @ u)"

section \<open>Numbers\<close>

record numeral =
  n_negative :: bool
  n_int :: string
  n_frac :: string
  n_exp :: "(char \<times> string \<times> string) option"

definition digits :: "string \<Rightarrow> bool" where
  "digits s \<longleftrightarrow> list_all is_digit s"

definition numeral_ok :: "numeral \<Rightarrow> bool" where
  "numeral_ok n \<longleftrightarrow> n_int n \<noteq> [] \<and> digits (n_int n) \<and> (hd (n_int n) = CHR ''0'' \<longrightarrow> n_int n = ''0'') \<and>
     digits (n_frac n) \<and>
     (case n_exp n of None \<Rightarrow> True | Some (e, s, ds) \<Rightarrow>
        (e = CHR ''e'' \<or> e = CHR ''E'') \<and> s \<in> {'''', ''+'', ''-''} \<and> ds \<noteq> [] \<and> digits ds)"

definition exp_text :: "(char \<times> string \<times> string) option \<Rightarrow> string" where
  "exp_text x = (case x of None \<Rightarrow> [] | Some (e, s, ds) \<Rightarrow> e # s @ ds)"

definition frac_text :: "string \<Rightarrow> string" where
  "frac_text f = (if f = [] then [] else CHR ''.'' # f)"

definition numeral_text :: "numeral \<Rightarrow> string" where
  "numeral_text n = (if n_negative n then ''-'' else []) @ n_int n @ frac_text (n_frac n) @ exp_text (n_exp n)"

definition exp_value :: "(char \<times> string \<times> string) option \<Rightarrow> int" where
  "exp_value x = (case x of None \<Rightarrow> 0 | Some (e, s, ds) \<Rightarrow> if s = ''-'' then - dec_value ds else dec_value ds)"

text \<open>The absolute value.\<close>

definition numeral_value :: "numeral \<Rightarrow> rat" where
  "numeral_value n = of_int (dec_value (n_int n @ n_frac n)) * pow10 (exp_value (n_exp n) - int (length (n_frac n)))"

definition numeral_dbl :: "numeral \<Rightarrow> dbl" where
  "numeral_dbl n = rnd (n_negative n) (if n_negative n then - numeral_value n else numeral_value n)"

definition numeral_json :: "numeral \<Rightarrow> json" where
  "numeral_json n =
     (let i = dec_value (n_int n) in
      if n_frac n \<noteq> [] \<or> n_exp n \<noteq> None then JFloat (numeral_dbl n)
      else if n_negative n then (if i \<le> 2 ^ 63 then JInt (- i) else JFloat (numeral_dbl n))
      else if i < 2 ^ 64 then JUInt i else JFloat (numeral_dbl n))"

section \<open>Values\<close>

definition ws :: "string \<Rightarrow> bool" where
  "ws w \<longleftrightarrow> set w \<subseteq> {CHR '' '', CHR 0x09, CHR 0x0A, CHR 0x0D}"

definition members_value :: "(string \<times> json) list \<Rightarrow> (string \<times> json) list" where
  "members_value m = fold (\<lambda>(k, v). smap_put k v) m []"

inductive value_text :: "json \<Rightarrow> string \<Rightarrow> bool"
  and elements_text :: "json list \<Rightarrow> string \<Rightarrow> bool"
  and members_text :: "(string \<times> json) list \<Rightarrow> string \<Rightarrow> bool"
where
  t_null: "value_text JNull ''null''"
| t_true: "value_text (JBool True) ''true''"
| t_false: "value_text (JBool False) ''false''"
| t_number: "numeral_ok n \<Longrightarrow> is_finite (numeral_dbl n) \<Longrightarrow> value_text (numeral_json n) (numeral_text n)"
| t_string: "string_text s t \<Longrightarrow> value_text (JStr s) (CHR 0x22 # t @ [CHR 0x22])"
| t_empty_array: "ws w \<Longrightarrow> value_text (JArr []) (CHR ''['' # w @ '']'')"
| t_array: "elements_text js t \<Longrightarrow> value_text (JArr js) (CHR ''['' # t @ '']'')"
| t_empty_object: "ws w \<Longrightarrow> value_text (JObj []) (CHR ''{'' # w @ ''}'')"
| t_object: "members_text m t \<Longrightarrow> value_text (JObj (members_value m)) (CHR ''{'' # t @ ''}'')"
| t_element: "ws a \<Longrightarrow> value_text j t \<Longrightarrow> ws b \<Longrightarrow> elements_text [j] (a @ t @ b)"
| t_elements: "ws a \<Longrightarrow> value_text j t \<Longrightarrow> ws b \<Longrightarrow> elements_text js u \<Longrightarrow>
    elements_text (j # js) (a @ t @ b @ CHR '','' # u)"
| t_member: "ws a \<Longrightarrow> string_text k s \<Longrightarrow> ws b \<Longrightarrow> ws c \<Longrightarrow> value_text j t \<Longrightarrow> ws d \<Longrightarrow>
    members_text [(k, j)] (a @ CHR 0x22 # s @ CHR 0x22 # b @ CHR '':'' # c @ t @ d)"
| t_members: "ws a \<Longrightarrow> string_text k s \<Longrightarrow> ws b \<Longrightarrow> ws c \<Longrightarrow> value_text j t \<Longrightarrow> ws d \<Longrightarrow> members_text m u \<Longrightarrow>
    members_text ((k, j) # m) (a @ CHR 0x22 # s @ CHR 0x22 # b @ CHR '':'' # c @ t @ d @ CHR '','' # u)"

text \<open>A value with white space around it.\<close>

definition document :: "json \<Rightarrow> string \<Rightarrow> bool" where
  "document j text \<longleftrightarrow> (\<exists>a t b. ws a \<and> value_text j t \<and> ws b \<and> text = a @ t @ b)"

text \<open>
  What the parser takes for a text: a document, ended by the last byte or by the first null byte behind it,
  with or without a byte order mark before it.
\<close>

definition tail_end :: "string \<Rightarrow> bool" where
  "tail_end t \<longleftrightarrow> (t = [] \<or> hd t = CHR 0x00)"

definition text_of :: "json \<Rightarrow> string \<Rightarrow> bool" where
  "text_of j text \<longleftrightarrow> (\<exists>bom d t. bom \<in> {[], [CHR 0xEF, CHR 0xBB, CHR 0xBF]} \<and> document j d \<and> tail_end t \<and>
     text = bom @ d @ t)"

section \<open>The bytes of scalar values\<close>

lemma or_low: "0 \<le> y \<Longrightarrow> y < 2 ^ n \<Longrightarrow> push_bit n x OR y = push_bit n x + (y :: int)"
proof -
  assume "0 \<le> y" "y < 2 ^ n"
  then have "take_bit n y = y" by (simp add: take_bit_int_eq_self)
  then have "bit y m \<Longrightarrow> m < n" for m by (metis bit_take_bit_iff)
  then have "push_bit n x AND y = 0" by (intro bit_eqI) (auto simp: bit_simps dest: leD)
  then show ?thesis using plus_and_or [of "push_bit n x" y] by simp
qed

lemma and_63: "(x :: int) AND 0x3F = x mod 64"
  using take_bit_eq_mask [of 6 x] by (simp add: mask_eq_exp_minus_1 take_bit_eq_mod)

lemma codepoint_bytes_utf8: "scalar_value cp \<Longrightarrow> codepoint_bytes cp = utf8 cp"
proof -
  assume "scalar_value cp"
  then have cp: "0 \<le> cp" "cp \<le> 0x10FFFF" by (simp_all add: scalar_value_def)
  have low: "0x80 OR (x mod 64) = 0x80 + x mod (64 :: int)" for x
    using or_low [of "x mod 64" 7 1] pos_mod_bound [of 64 x] by (simp add: push_bit_eq_mult)
  have c0: "0xC0 OR y = 0xC0 + y" if "0 \<le> y" "y < 64" for y :: int
    using or_low [of y 6 3] that by (simp add: push_bit_eq_mult)
  have e0: "0xE0 OR y = 0xE0 + y" if "0 \<le> y" "y < 32" for y :: int
    using or_low [of y 5 7] that by (simp add: push_bit_eq_mult)
  have f0: "0xF0 OR y = 0xF0 + y" if "0 \<le> y" "y < 16" for y :: int
    using or_low [of y 4 15] that by (simp add: push_bit_eq_mult)
  consider "cp < 0x80" | "0x80 \<le> cp" "cp < 0x800" | "0x800 \<le> cp" "cp < 0x10000" | "0x10000 \<le> cp" by linarith
  then show ?thesis
  proof cases
    case 2
    then have "0 \<le> cp div 64" "cp div 64 < 64" by linarith+
    with 2 show ?thesis by (simp add: codepoint_bytes_def utf8_def drop_bit_eq_div and_63 low c0)
  next
    case 3
    then have "0 \<le> cp div 4096" "cp div 4096 < 32" by linarith+
    with 3 show ?thesis by (simp add: codepoint_bytes_def utf8_def drop_bit_eq_div and_63 low e0)
  next
    case 4
    then have "0 \<le> cp div 262144" "cp div 262144 < 16" using cp by linarith+
    with 4 show ?thesis by (simp add: codepoint_bytes_def utf8_def drop_bit_eq_div and_63 low f0)
  qed (simp add: codepoint_bytes_def utf8_def)
qed

lemma of_char_byte [simp]:
  assumes "0 \<le> b" "b < 256"
  shows "of_char (utf8_byte b) = b" and "of_char (utf8_byte b) = nat b"
proof -
  show n: "of_char (utf8_byte b) = nat b" using assms by (simp add: utf8_byte_def)
  have "of_char (utf8_byte b) = int (of_char (utf8_byte b))" by (simp only: of_nat_of_char)
  then show "of_char (utf8_byte b) = b" using n assms by simp
qed

end
