(* ===== verification/JsonParser.thy ===== *)
theory JsonParser
  imports JsonLexer
begin

text \<open>
  The parser of the JSON library, \<open>class parser\<close> of \<open>json.hpp\<close>, with the handler that
  builds the value, \<open>class json_sax_dom_parser\<close>, and \<open>basic_json::parse\<close> with its default
  arguments: no callback, and errors are thrown.

  The handler writes through pointers into the value it builds: a pointer is the path from the root.
  The pointers are used only while the elements they point to stay where they are.
  The stacks have their last element first.
\<close>

section \<open>Pointers into a value\<close>

datatype step = Index nat | Key string

primrec deref :: "step list \<Rightarrow> json \<Rightarrow> json option" where
  "deref [] j = Some j"
| "deref (s # p) j = (case s of
       Index i \<Rightarrow> (case j of JArr js \<Rightarrow> if i < length js then deref p (js ! i) else None | _ \<Rightarrow> None)
     | Key k \<Rightarrow> (case j of
           JObj m \<Rightarrow> (case map_of m k of Some v \<Rightarrow> deref p v | None \<Rightarrow> None)
         | _ \<Rightarrow> None))"

text \<open>\<open>*p = f(*p)\<close>\<close>

primrec change :: "step list \<Rightarrow> (json \<Rightarrow> json) \<Rightarrow> json \<Rightarrow> json" where
  "change [] f j = f j"
| "change (s # p) f j = (case s of
       Index i \<Rightarrow> (case j of JArr js \<Rightarrow> JArr (js[i := change p f (js ! i)]) | _ \<Rightarrow> j)
     | Key k \<Rightarrow> (case j of
           JObj m \<Rightarrow> (case map_of m k of Some v \<Rightarrow> JObj (smap_put k (change p f v) m) | None \<Rightarrow> j)
         | _ \<Rightarrow> j))"

section \<open>The handler\<close>

record sax_dom =
  dom_root :: json
  ref_stack :: "step list list"
  object_element :: "step list option"

definition new_dom :: sax_dom where
  "new_dom = \<lparr>dom_root = JNull, ref_stack = [], object_element = None\<rparr>"

definition handle_value :: "json \<Rightarrow> sax_dom \<Rightarrow> (step list \<times> sax_dom) outcome" where
  "handle_value v d = (case ref_stack d of
       [] \<Rightarrow> Ret ([], d\<lparr>dom_root := v\<rparr>)
     | p # _ \<Rightarrow> (case deref p (dom_root d) of
           Some (JArr js) \<Rightarrow>
             Ret (p @ [Index (length js)], d\<lparr>dom_root := change p (\<lambda>_. JArr (js @ [v])) (dom_root d)\<rparr>)
         | Some (JObj m) \<Rightarrow> (case object_element d of
               Some q \<Rightarrow> Ret (q, d\<lparr>dom_root := change q (\<lambda>_. v) (dom_root d)\<rparr>)
             | None \<Rightarrow> Undef)
         | _ \<Rightarrow> Undef))"

definition sax_value :: "json \<Rightarrow> sax_dom \<Rightarrow> sax_dom outcome" where
  "sax_value v d = obind (handle_value v d) (\<lambda>(p, d). Ret d)"

definition start_object :: "sax_dom \<Rightarrow> sax_dom outcome" where
  "start_object d = obind (handle_value (JObj []) d) (\<lambda>(p, d). Ret (d\<lparr>ref_stack := p # ref_stack d\<rparr>))"

definition start_array :: "sax_dom \<Rightarrow> sax_dom outcome" where
  "start_array d = obind (handle_value (JArr []) d) (\<lambda>(p, d). Ret (d\<lparr>ref_stack := p # ref_stack d\<rparr>))"

definition sax_key :: "string \<Rightarrow> sax_dom \<Rightarrow> sax_dom outcome" where
  "sax_key k d = (case ref_stack d of
       [] \<Rightarrow> Undef
     | p # _ \<Rightarrow> (case deref p (dom_root d) of
           Some (JObj m) \<Rightarrow> Ret (d\<lparr>dom_root := change p (\<lambda>_. JObj (smap_emplace k JNull m)) (dom_root d),
             object_element := Some (p @ [Key k])\<rparr>)
         | _ \<Rightarrow> Undef))"

definition sax_end_object :: "sax_dom \<Rightarrow> sax_dom outcome" where
  "sax_end_object d = (case ref_stack d of
       [] \<Rightarrow> Undef
     | p # ps \<Rightarrow> (case deref p (dom_root d) of Some (JObj m) \<Rightarrow> Ret (d\<lparr>ref_stack := ps\<rparr>) | _ \<Rightarrow> Undef))"

definition sax_end_array :: "sax_dom \<Rightarrow> sax_dom outcome" where
  "sax_end_array d = (case ref_stack d of
       [] \<Rightarrow> Undef
     | p # ps \<Rightarrow> (case deref p (dom_root d) of Some (JArr js) \<Rightarrow> Ret (d\<lparr>ref_stack := ps\<rparr>) | _ \<Rightarrow> Undef))"

section \<open>The parser\<close>

text \<open>
  The states are the containers being read, \<open>True\<close> for an array; with \<open>pr_skip\<close> the next
  round of the loop begins behind a value.
\<close>

record parser =
  pr_token :: token_type
  pr_lexer :: lexer
  pr_states :: "bool list"
  pr_skip :: bool
  pr_dom :: sax_dom

definition get_token :: "parser \<Rightarrow> parser outcome" where
  "get_token s = obind (scan (pr_lexer s)) (\<lambda>(t, lx). Ret (s\<lparr>pr_token := t, pr_lexer := lx\<rparr>))"

definition sax :: "(sax_dom \<Rightarrow> sax_dom outcome) \<Rightarrow> parser \<Rightarrow> parser outcome" where
  "sax event s = obind (event (pr_dom s)) (\<lambda>d. Ret (s\<lparr>pr_dom := d\<rparr>))"

definition syntax_error :: cxx_exn where
  "syntax_error = Json_exception 101"

text \<open>A key that has been read, and the separator behind it.\<close>

definition parse_key :: "parser \<Rightarrow> parser outcome" where
  "parse_key s =
     (if pr_token s \<noteq> value_string then Throw syntax_error
      else obind (sax (sax_key (lx_buffer (pr_lexer s))) s) (\<lambda>s.
           obind (get_token s) (\<lambda>s.
             if pr_token s \<noteq> name_separator then Throw syntax_error else Ret s)))"

text \<open>
  The token at the beginning of a value.  The result tells whether the value is complete; otherwise the
  first token inside it has been read.
\<close>

definition parse_value :: "parser \<Rightarrow> (bool \<times> parser) outcome" where
  "parse_value s =
     (let scalar = (\<lambda>v. obind (sax (sax_value v) s) (\<lambda>s. Ret (True, s))) in
      case pr_token s of
        begin_object \<Rightarrow> obind (sax start_object s) (\<lambda>s. obind (get_token s) (\<lambda>s.
          if pr_token s = end_object then obind (sax sax_end_object s) (\<lambda>s. Ret (True, s))
          else obind (parse_key s) (\<lambda>s.
            obind (get_token (s\<lparr>pr_states := False # pr_states s\<rparr>)) (\<lambda>s. Ret (False, s)))))
      | begin_array \<Rightarrow> obind (sax start_array s) (\<lambda>s. obind (get_token s) (\<lambda>s.
          if pr_token s = end_array then obind (sax sax_end_array s) (\<lambda>s. Ret (True, s))
          else Ret (False, s\<lparr>pr_states := True # pr_states s\<rparr>)))
      | value_float \<Rightarrow>
          if is_finite (lx_float (pr_lexer s)) then scalar (JFloat (lx_float (pr_lexer s)))
          else Throw (Json_exception 406)
      | literal_false \<Rightarrow> scalar (JBool False)
      | literal_null \<Rightarrow> scalar JNull
      | literal_true \<Rightarrow> scalar (JBool True)
      | value_integer \<Rightarrow> scalar (JInt (lx_integer (pr_lexer s)))
      | value_string \<Rightarrow> scalar (JStr (lx_buffer (pr_lexer s)))
      | value_unsigned \<Rightarrow> scalar (JUInt (lx_unsigned (pr_lexer s)))
      | _ \<Rightarrow> Throw syntax_error)"

text \<open>Behind a value; the result tells whether the outermost value is complete.\<close>

definition parse_behind :: "parser \<Rightarrow> (bool \<times> parser) outcome" where
  "parse_behind s = (case pr_states s of
       [] \<Rightarrow> Ret (True, s)
     | array # states \<Rightarrow> obind (get_token s) (\<lambda>s.
         if array then
           (if pr_token s = value_separator then obind (get_token s) (\<lambda>s. Ret (False, s))
            else if pr_token s = end_array then
              obind (sax sax_end_array s) (\<lambda>s. Ret (False, s\<lparr>pr_states := states, pr_skip := True\<rparr>))
            else Throw syntax_error)
         else
           (if pr_token s = value_separator then
              obind (get_token s) (\<lambda>s. obind (parse_key s) (\<lambda>s. obind (get_token s) (\<lambda>s. Ret (False, s))))
            else if pr_token s = end_object then
              obind (sax sax_end_object s) (\<lambda>s. Ret (False, s\<lparr>pr_states := states, pr_skip := True\<rparr>))
            else Throw syntax_error)))"

text \<open>One round of the loop.\<close>

definition parse_round :: "parser \<Rightarrow> (bool \<times> parser) outcome" where
  "parse_round s =
     (if pr_skip s then parse_behind (s\<lparr>pr_skip := False\<rparr>)
      else obind (parse_value s) (\<lambda>(complete, s). if complete then parse_behind s else Ret (False, s)))"

section \<open>The loop ends\<close>

lemma remaining_number_done: "scan_number_done ty lx = Ret (t, lx') \<Longrightarrow> remaining lx' = remaining (lx_unread lx)"
  by (auto simp: scan_number_done_def Let_def asserted_eq_Ret remaining_def split: if_splits prod.splits)

lemma remaining_number_loop: "scan_number_loop q ty lx = Ret (t, lx') \<Longrightarrow> remaining lx' \<le> remaining lx"
proof (induction q ty lx rule: scan_number_loop.induct)
  case (1 q ty lx)
  show ?case
  proof (cases "num_next q (lx_current (lx_get lx))")
    case (Goto q')
    with "1.IH" [OF refl refl Goto] "1.prems" remaining_get [of lx] show ?thesis
      by (simp add: scan_number_loop.simps [of q ty lx] Let_def)
  qed (use "1.prems" remaining_get [of lx] remaining_unread_get [of lx] in
      \<open>auto simp: scan_number_loop.simps [of q ty lx] Let_def dest!: remaining_number_done\<close>)
qed

lemma remaining_string_loop: "scan_string_loop lx = Ret (t, lx') \<Longrightarrow> remaining lx' \<le> remaining lx"
proof (induction lx rule: scan_string_loop.induct)
  case (1 lx)
  note le = remaining_get [of lx]
  show ?case
  proof (cases "lx_current (lx_get lx)")
    case None
    with "1.prems" le show ?thesis by (simp add: scan_string_loop.simps [of lx])
  next
    case (Some c)
    have rec: "remaining l \<le> remaining (lx_get lx) \<Longrightarrow> remaining lx' \<le> remaining l \<Longrightarrow> ?thesis" for l
      using le by linarith
    consider (esc) l where "c = CHR 0x5C" "scan_escape (lx_get lx) = Ret (True, l)" "scan_string_loop l = Ret (t, lx')"
      | (esc_err) "c = CHR 0x5C" "scan_escape (lx_get lx) = Ret (False, lx')"
      | (ascii) "c \<noteq> CHR 0x22" "c \<noteq> CHR 0x5C" "\<not> of_char c \<le> (31 :: int)" "of_char c \<le> (127 :: int)"
          "scan_string_loop (add_current (lx_get lx)) = Ret (t, lx')"
      | (multi) rs l where "c \<noteq> CHR 0x22" "c \<noteq> CHR 0x5C" "\<not> of_char c \<le> (127 :: int)"
          "following_ranges (of_char c) = Some rs"
          "next_byte_in_range rs (lx_get lx) = Ret (True, l)" "scan_string_loop l = Ret (t, lx')"
      | (multi_err) rs where "next_byte_in_range rs (lx_get lx) = Ret (False, lx')"
      | (stop) "lx' = lx_get lx"
      using "1.prems" by (auto simp: scan_string_loop.simps [of lx] Some Let_def obind_eq_Ret split: option.splits if_splits)
    then show ?thesis
    proof cases
      case esc
      with "1.IH"(1) [OF refl Some _ _ esc(2)] show ?thesis
        by (intro rec [of l]) (auto dest: remaining_scan_escape)
    next
      case ascii
      with "1.IH"(2) [OF refl Some] show ?thesis
        by (intro rec [of "add_current (lx_get lx)"]) auto
    next
      case multi
      with "1.IH"(3) [OF refl Some _ _ _ _ multi(4,5)] show ?thesis
        by (intro rec [of l]) (auto dest: remaining_next_byte)
    qed (use le in \<open>auto dest!: remaining_scan_escape remaining_next_byte\<close>)
  qed
qed

lemma remaining_literal_loop: "literal_loop cs lx = (b, lx') \<Longrightarrow> remaining lx' \<le> remaining lx"
  by (induction cs arbitrary: lx) (auto simp: Let_def split: if_splits dest: remaining_getD intro!: remaining_get_le)

lemma remaining_scan_token: "scan_token lx = Ret (t, lx') \<Longrightarrow> remaining lx' \<le> remaining lx"
  by (auto simp: scan_token_def scan_literal_def scan_string_def scan_number_def Let_def asserted_eq_Ret
      simp del: literal_loop.simps split: option.splits if_splits prod.splits
      dest!: remaining_literal_loop remaining_string_loop remaining_number_loop)

lemma remaining_skip_bom: "skip_bom lx = (b, lx') \<Longrightarrow> remaining lx' \<le> remaining lx"
  using remaining_unread_get [of lx]
  by (auto simp: skip_bom_def Let_def split: if_splits intro!: remaining_get_le)

lemma remaining_skip_comments:
  "skip_comments lx = (b, lx') \<Longrightarrow> remaining lx' \<le> remaining lx"
proof (induction lx rule: skip_comments.induct)
  case (1 lx)
  obtain ok l where s: "scan_comment lx = (ok, l)" by fastforce
  have le: "remaining l \<le> remaining lx" "remaining (skip_whitespace l) \<le> remaining lx"
    using remaining_scan_comment [OF s] remaining_skip_whitespace [of l] by linarith+
  show ?case
    using "1.IH" [OF _ s [symmetric] _ refl] "1.prems" le
    by (force simp: skip_comments.simps [of lx] s Let_def split: if_splits)
qed

text \<open>A token that is not an error or the end takes at least one byte.\<close>

lemma remaining_scan:
  assumes "scan lx = Ret (t, lx')"
  shows "remaining lx' \<le> remaining lx"
    and "t \<noteq> end_of_input \<Longrightarrow> t \<noteq> parse_error \<Longrightarrow> remaining lx' < remaining lx"
proof -
  obtain b1 l1 where b: "(if lx_total lx = 0 then skip_bom lx else (True, lx)) = (b1, l1)"
    by fastforce
  obtain b2 l2 where c: "skip_comments (skip_whitespace l1) = (b2, l2)" by fastforce
  have 1: "remaining l1 \<le> remaining lx" using b by (auto split: if_splits dest: remaining_skip_bom)
  have 2: "remaining l2 \<le> remaining (skip_whitespace l1)" by (rule remaining_skip_comments [OF c])
  have s: "b1 \<and> b2 \<and> scan_token l2 = Ret (t, lx') \<or> t = parse_error \<and> (lx' = l1 \<or> lx' = l2)"
    using assms by (auto simp: scan_def b c split: if_splits)
  show "remaining lx' \<le> remaining lx"
    using s 1 2 remaining_skip_whitespace [of l1] by (auto dest!: remaining_scan_token)
  assume t: "t \<noteq> end_of_input" "t \<noteq> parse_error"
  then have tok: "scan_token l2 = Ret (t, lx')" using s by simp
  then obtain c where "lx_current l2 = Some c" using t by (auto simp: scan_token_def split: option.splits)
  have "remaining l2 < remaining l1"
  proof (cases "lx_current (skip_whitespace l1)")
    case None
    then have "l2 = skip_whitespace l1" using c by (simp add: skip_comments.simps)
    with None \<open>lx_current l2 = Some c\<close> show ?thesis by simp
  next
    case (Some d)
    with 2 show ?thesis using remaining_skip_whitespace_Some [of l1] by fastforce
  qed
  with 1 show "remaining lx' < remaining lx" using remaining_scan_token [OF tok] by linarith
qed

definition parse_measure :: "parser \<Rightarrow> nat" where
  "parse_measure s = 2 * remaining (pr_lexer s) + (if pr_token s = begin_array \<and> \<not> pr_skip s then 1 else 0)"

lemma get_token_Ret:
  "get_token s = Ret s' \<Longrightarrow> remaining (pr_lexer s') \<le> remaining (pr_lexer s) \<and>
     (pr_token s' \<noteq> end_of_input \<longrightarrow> pr_token s' \<noteq> parse_error \<longrightarrow>
        remaining (pr_lexer s') < remaining (pr_lexer s)) \<and>
     pr_states s' = pr_states s \<and> pr_skip s' = pr_skip s \<and> pr_dom s' = pr_dom s"
  by (auto simp: get_token_def obind_eq_Ret dest: remaining_scan)

lemma sax_Ret:
  "sax f s = Ret s' \<Longrightarrow> pr_lexer s' = pr_lexer s \<and> pr_token s' = pr_token s \<and> pr_states s' = pr_states s \<and>
     pr_skip s' = pr_skip s"
  by (auto simp: sax_def obind_eq_Ret)

lemma parse_key_Ret:
  assumes "parse_key s = Ret s'"
  shows "remaining (pr_lexer s') < remaining (pr_lexer s) \<and> pr_token s = value_string \<and> pr_skip s' = pr_skip s"
proof -
  from assms obtain a where a: "pr_token s = value_string" "pr_token s' = name_separator" "get_token a = Ret s'"
    "sax (sax_key (lx_buffer (pr_lexer s))) s = Ret a"
    by (auto simp: parse_key_def obind_eq_Ret syntax_error_def split: if_splits)
  then show ?thesis using get_token_Ret [OF a(3)] sax_Ret [OF a(4)] by simp
qed

lemma parse_behind_False:
  assumes "parse_behind s = Ret (False, s')"
  shows "remaining (pr_lexer s') < remaining (pr_lexer s)"
proof -
  from assms obtain arr sts a where a: "pr_states s = arr # sts" "get_token s = Ret a"
    by (auto simp: parse_behind_def obind_eq_Ret split: list.splits)
  have lt: "pr_token a \<in> {value_separator, end_array, end_object} \<Longrightarrow> remaining (pr_lexer a) < remaining (pr_lexer s)"
    using get_token_Ret [OF a(2)] by auto
  consider (sep) "pr_token a = value_separator" "get_token a = Ret s'"
    | (key) b c where "pr_token a = value_separator" "get_token a = Ret b" "parse_key b = Ret c" "get_token c = Ret s'"
    | (stop) f b where "pr_token a \<in> {end_array, end_object}" "sax f a = Ret b" "pr_lexer s' = pr_lexer b"
    using assms a by (auto simp: parse_behind_def obind_eq_Ret syntax_error_def split: if_splits)
  then show ?thesis
  proof cases
    case sep
    with lt get_token_Ret [OF sep(2)] show ?thesis by simp
  next
    case key
    with lt get_token_Ret [OF key(2)] parse_key_Ret [OF key(3)] get_token_Ret [OF key(4)] show ?thesis by simp
  next
    case stop
    with lt sax_Ret [OF stop(2)] show ?thesis by simp
  qed
qed

lemma parse_value_True:
  assumes "parse_value s = Ret (True, s')"
  shows "remaining (pr_lexer s') \<le> remaining (pr_lexer s)"
proof -
  consider f where "sax f s = Ret s'"
    | f a g b where "sax f s = Ret a" "get_token a = Ret b" "sax g b = Ret s'"
    using assms by (auto simp: parse_value_def obind_eq_Ret syntax_error_def split: token_type.splits if_splits)
  then show ?thesis by cases (fastforce dest: sax_Ret get_token_Ret)+
qed

lemma parse_value_False:
  assumes "parse_value s = Ret (False, s')" and "\<not> pr_skip s"
  shows "parse_measure s' < parse_measure s"
proof -
  consider (obj) a b c where "sax start_object s = Ret a" "get_token a = Ret b" "parse_key b = Ret c"
      "get_token (c\<lparr>pr_states := False # pr_states c\<rparr>) = Ret s'"
    | (arr) a b where "pr_token s = begin_array" "sax start_array s = Ret a" "get_token a = Ret b"
      "s' = b\<lparr>pr_states := True # pr_states b\<rparr>"
    using assms by (auto simp: parse_value_def obind_eq_Ret syntax_error_def split: token_type.splits if_splits)
  then show ?thesis
  proof cases
    case obj
    then have "remaining (pr_lexer s') < remaining (pr_lexer s)"
      using sax_Ret [OF obj(1)] get_token_Ret [OF obj(2)] parse_key_Ret [OF obj(3)] get_token_Ret [OF obj(4)] by simp
    then show ?thesis by (simp add: parse_measure_def)
  next
    case arr
    then show ?thesis
      using sax_Ret [OF arr(2)] get_token_Ret [OF arr(3)] assms(2) by (auto simp: parse_measure_def)
  qed
qed

lemma parse_round_False:
  assumes "parse_round s = Ret (False, s')"
  shows "parse_measure s' < parse_measure s"
proof -
  have lt: "remaining (pr_lexer a) < remaining (pr_lexer b) \<Longrightarrow> parse_measure a < parse_measure b" for a b
    by (simp add: parse_measure_def)
  consider (skip) "parse_behind (s\<lparr>pr_skip := False\<rparr>) = Ret (False, s')"
    | (behind) a where "parse_value s = Ret (True, a)" "parse_behind a = Ret (False, s')"
    | (inside) "parse_value s = Ret (False, s')" "\<not> pr_skip s"
    using assms by (auto simp: parse_round_def obind_eq_Ret split: if_splits)
  then show ?thesis
  proof cases
    case skip
    from parse_behind_False [OF this] show ?thesis by (intro lt) simp
  next
    case behind
    with parse_value_True [OF behind(1)] parse_behind_False [OF behind(2)] show ?thesis by (intro lt) simp
  next
    case inside
    then show ?thesis by (rule parse_value_False)
  qed
qed

function parse_loop :: "parser \<Rightarrow> parser outcome" where
  "parse_loop s = obind (parse_round s) (\<lambda>(finished, s'). if finished then Ret s' else parse_loop s')"
  by pat_completeness auto
termination
  by (relation "measure parse_measure") (auto dest: parse_round_False)

declare parse_loop.simps [simp del]

section \<open>Parsing a text\<close>

definition new_parser :: "string \<Rightarrow> parser outcome" where
  "new_parser text = get_token \<lparr>pr_token = uninitialized, pr_lexer = new_lexer text False, pr_states = [],
     pr_skip = False, pr_dom = new_dom\<rparr>"

definition json_parse :: "string \<Rightarrow> json outcome" where
  "json_parse text = obind (new_parser text) (\<lambda>s. obind (parse_loop s) (\<lambda>s. obind (get_token s) (\<lambda>s.
     if pr_token s \<noteq> end_of_input then Throw syntax_error else Ret (dom_root (pr_dom s)))))"

end
