(* ===== verification/JsonScan.thy ===== *)
theory JsonScan
  imports JsonGrammar JsonParser
begin

text \<open>
  What the lexer reads: on the text of a token it returns the token with its value and stands behind it.
\<close>

section \<open>Where the lexer stands\<close>

definition unread_text :: "lexer \<Rightarrow> string" where
  "unread_text lx = (case lx_current lx of
       Some c \<Rightarrow> if lx_unget lx then c # lx_input lx else lx_input lx
     | None \<Rightarrow> lx_input lx)"

definition lexer_at :: "lexer \<Rightarrow> string \<Rightarrow> bool" where
  "lexer_at lx s \<longleftrightarrow> unread_text lx = s \<and> (lx_unget lx \<longrightarrow> lx_current lx = None \<longrightarrow> lx_input lx = []) \<and>
     \<not> lx_ignore_comments lx"

text \<open>Behind the first byte of the text.\<close>

definition reads :: "lexer \<Rightarrow> string \<Rightarrow> bool" where
  "reads lx s \<longleftrightarrow> lexer_at lx s \<and> 0 < lx_total lx"

lemma reads_at: "reads lx s \<Longrightarrow> lexer_at lx s"
  by (simp add: reads_def)

lemma get_at:
  assumes "lexer_at lx s"
  shows "reads (lx_get lx) (tl s)" and "lx_current (lx_get lx) = (if s = [] then None else Some (hd s))"
    and "lx_buffer (lx_get lx) = lx_buffer lx"
  using assms by (auto simp: reads_def lexer_at_def unread_text_def lexer_defs split: list.splits option.splits)

lemma get_reads:
  assumes "reads lx s"
  shows "reads (lx_get lx) (tl s)" and "lx_current (lx_get lx) = (if s = [] then None else Some (hd s))"
    and "lx_buffer (lx_get lx) = lx_buffer lx"
  using get_at [OF reads_at [OF assms]] by auto

lemma unread_get_reads: "reads lx s \<Longrightarrow> reads (lx_unread (lx_get lx)) s"
  by (auto simp: reads_def lexer_at_def unread_text_def lexer_defs split: list.splits option.splits)

lemma reads_keep [simp]:
  "reads (lx_add c lx) s = reads lx s" "reads (add_current lx) s = reads lx s"
  "reads (lx_reset lx) s = reads lx s"
  by (auto simp: reads_def lexer_at_def unread_text_def lexer_defs split: option.splits)

lemma reads_values [simp]:
  "reads (lx\<lparr>lx_float := x\<rparr>) s = reads lx s" "reads (lx\<lparr>lx_unsigned := n\<rparr>) s = reads lx s"
  "reads (lx\<lparr>lx_integer := n\<rparr>) s = reads lx s"
  by (auto simp: reads_def lexer_at_def unread_text_def split: option.splits)

lemma buffer_keep [simp]:
  "lx_buffer (lx_add c lx) = lx_buffer lx @ [c]" "lx_buffer (add_current lx) = lx_buffer lx @ [to_char_type (lx_current lx)]"
  "lx_buffer (lx_reset lx) = []" "lx_buffer (lx_unread lx) = lx_buffer lx"
  by (simp_all add: lexer_defs)

lemma char_int_simps [simp]: "char_int (Some c) = of_char c" "char_int None = - 1"
  by (simp_all add: char_int_def)

lemma to_char_Some [simp]: "to_char_type (Some c) = c"
  by (simp add: to_char_type_def)

lemma reads_fold_add [simp]: "reads (fold lx_add cs lx) s = reads lx s"
  by (induction cs arbitrary: lx) simp_all

lemma buffer_fold_add [simp]: "lx_buffer (fold lx_add cs lx) = lx_buffer lx @ cs"
  by (induction cs arbitrary: lx) simp_all

section \<open>Strings\<close>

text \<open>A step of the loop that reads a string takes \<open>t\<close> and adds \<open>b\<close>.\<close>

definition string_step :: "string \<Rightarrow> string \<Rightarrow> bool" where
  "string_step t b \<longleftrightarrow> (\<forall>lx r. reads lx (t @ r) \<longrightarrow>
     (\<exists>lx'. scan_string_loop lx = scan_string_loop lx' \<and> reads lx' r \<and> lx_buffer lx' = lx_buffer lx @ b))"

lemma hex_digit_range:
  "hex_digit_value c = Some i \<Longrightarrow> 0 \<le> i \<and> i < 16 \<and>
    (48 \<le> (of_char c :: int) \<and> of_char c \<le> (57 :: int) \<and> i = of_char c - 48 \<or>
     65 \<le> (of_char c :: int) \<and> of_char c \<le> (70 :: int) \<and> i = of_char c - 55 \<or>
     97 \<le> (of_char c :: int) \<and> of_char c \<le> (102 :: int) \<and> i = of_char c - 87)"
  by (auto simp: hex_digit_value_def Let_def split: if_splits)

lemma hex_digit_bound: "hex_digit_value c = Some i \<Longrightarrow> 0 \<le> i \<and> i < 16"
  using hex_digit_range by blast

lemma codepoint_loop_step:
  assumes "reads lx (c # s)" and "hex_digit_value c = Some i"
  shows "\<exists>lx'. codepoint_loop (f # fs) n lx = codepoint_loop fs (n + push_bit f i) lx' \<and> reads lx' s \<and>
    lx_buffer lx' = lx_buffer lx"
  using hex_digit_range [OF assms(2)] get_reads [OF assms(1)]
  by (intro exI [of _ "lx_get lx"]) (auto simp: Let_def)

lemma get_codepoint_hex4:
  assumes "reads lx (h @ r)" and "hex4_value h n" and "lx_current lx = Some CHR ''u''"
  shows "\<exists>lx'. get_codepoint lx = Ret (n, lx') \<and> reads lx' r \<and> lx_buffer lx' = lx_buffer lx"
proof -
  obtain a b c d i j k l where h: "h = [a, b, c, d]" "hex_digit_value a = Some i" "hex_digit_value b = Some j"
    "hex_digit_value c = Some k" "hex_digit_value d = Some l" and n: "n = 4096 * i + 256 * j + 16 * k + l"
    using assms(2) by (auto simp: hex4_value_def)
  have r: "reads lx (a # b # c # d # r)" using assms(1) h(1) by simp
  note S = codepoint_loop_step
  obtain l1 where 1: "codepoint_loop [12, 8, 4, 0] 0 lx = codepoint_loop [8, 4, 0] (0 + push_bit 12 i) l1"
    "reads l1 (b # c # d # r)" "lx_buffer l1 = lx_buffer lx"
    using S [OF r h(2), of 12 "[8, 4, 0]" 0] by blast
  obtain l2 where 2: "codepoint_loop [8, 4, 0] (0 + push_bit 12 i) l1 =
      codepoint_loop [4, 0] (0 + push_bit 12 i + push_bit 8 j) l2" "reads l2 (c # d # r)" "lx_buffer l2 = lx_buffer lx"
    using S [OF 1(2) h(3), of 8 "[4, 0]" "0 + push_bit 12 i"] 1(3) by auto
  obtain l3 where 3: "codepoint_loop [4, 0] (0 + push_bit 12 i + push_bit 8 j) l2 =
      codepoint_loop [0] (0 + push_bit 12 i + push_bit 8 j + push_bit 4 k) l3" "reads l3 (d # r)"
    "lx_buffer l3 = lx_buffer lx"
    using S [OF 2(2) h(4), of 4 "[0]" "0 + push_bit 12 i + push_bit 8 j"] 2(3) by auto
  obtain l4 where 4: "codepoint_loop [0] (0 + push_bit 12 i + push_bit 8 j + push_bit 4 k) l3 =
      codepoint_loop [] (0 + push_bit 12 i + push_bit 8 j + push_bit 4 k + push_bit 0 l) l4" "reads l4 r"
    "lx_buffer l4 = lx_buffer lx"
    using S [OF 3(2) h(5), of 0 "[]" "0 + push_bit 12 i + push_bit 8 j + push_bit 4 k"] 3(3) by auto
  have "0 + push_bit 12 i + push_bit 8 j + push_bit 4 k + push_bit 0 l = n"
    by (simp add: n push_bit_eq_mult)
  then have "codepoint_loop [12, 8, 4, 0] 0 lx = (n, l4)"
    using 1(1) 2(1) 3(1) 4(1) by simp
  moreover have "0 \<le> n \<and> n \<le> 0xFFFF"
    using hex_digit_bound [OF h(2)] hex_digit_bound [OF h(3)] hex_digit_bound [OF h(4)] hex_digit_bound [OF h(5)]
    by (auto simp: n)
  ultimately show ?thesis
    using 4 assms(3) by (auto simp: get_codepoint_def simp del: codepoint_loop.simps)
qed

lemma string_step_escape:
  assumes "simple_escape c = Some e" and "c \<noteq> CHR ''u''"
  shows "string_step [CHR 0x5C, c] [e]"
  unfolding string_step_def
proof (intro allI impI)
  fix lx r assume "reads lx ([CHR 0x5C, c] @ r)"
  then have r: "reads lx (CHR 0x5C # c # r)" by simp
  note g1 = get_reads [OF r] note g2 = get_reads [OF g1(1)]
  show "\<exists>lx'. scan_string_loop lx = scan_string_loop lx' \<and> reads lx' r \<and> lx_buffer lx' = lx_buffer lx @ [e]"
    using g1 g2 assms
    by (intro exI [of _ "lx_add e (lx_get (lx_get lx))"])
      (simp add: scan_string_loop.simps [of lx] Let_def scan_escape_def)
qed

lemma add_codepoint_utf8:
  "scalar_value cp \<Longrightarrow> add_codepoint cp lx = Ret (fold lx_add (utf8 cp) lx)"
  by (simp add: add_codepoint_def codepoint_bytes_utf8) (simp add: scalar_value_def)

lemma string_step_unicode:
  assumes "\<And>lx s. reads lx (t @ s) \<Longrightarrow> lx_current lx = Some CHR ''u'' \<Longrightarrow>
      \<exists>lx'. scan_unicode lx = Ret (Some cp, lx') \<and> reads lx' s \<and> lx_buffer lx' = lx_buffer lx"
    and "scalar_value cp"
  shows "string_step (CHR 0x5C # CHR ''u'' # t) (utf8 cp)"
  unfolding string_step_def
proof (intro allI impI)
  fix lx r assume "reads lx ((CHR 0x5C # CHR ''u'' # t) @ r)"
  then have r: "reads lx (CHR 0x5C # CHR ''u'' # t @ r)" by simp
  note g1 = get_reads [OF r] note g2 = get_reads [OF g1(1)]
  have "reads (lx_get (lx_get lx)) (t @ r)" "lx_current (lx_get (lx_get lx)) = Some CHR ''u''"
    using g2 by simp_all
  from assms(1) [OF this] obtain lx' where lx': "scan_unicode (lx_get (lx_get lx)) = Ret (Some cp, lx')"
    "reads lx' r" "lx_buffer lx' = lx_buffer (lx_get (lx_get lx))" by blast
  show "\<exists>lx'. scan_string_loop lx = scan_string_loop lx' \<and> reads lx' r \<and> lx_buffer lx' = lx_buffer lx @ utf8 cp"
    using g1 g2 lx' assms(2)
    by (intro exI [of _ "fold lx_add (utf8 cp) lx'"])
      (simp add: scan_string_loop.simps [of lx] Let_def scan_escape_def add_codepoint_utf8)
qed

lemma hex4_value_range: "hex4_value h n \<Longrightarrow> 0 \<le> n \<and> n \<le> 0xFFFF"
  by (auto simp: hex4_value_def dest!: hex_digit_bound)

lemma scan_unicode_single:
  assumes "reads lx (h @ s)" and "lx_current lx = Some CHR ''u''" and "hex4_value h n" and "\<not> surrogate n"
  shows "\<exists>lx'. scan_unicode lx = Ret (Some n, lx') \<and> reads lx' s \<and> lx_buffer lx' = lx_buffer lx"
proof -
  from get_codepoint_hex4 [OF assms(1,3,2)] obtain lx' where lx': "get_codepoint lx = Ret (n, lx')" "reads lx' s"
    "lx_buffer lx' = lx_buffer lx" by blast
  with assms(4) hex4_value_range [OF assms(3)] show ?thesis
    by (auto simp: scan_unicode_def surrogate_def)
qed

lemma scan_unicode_pair:
  assumes "reads lx ((h @ CHR 0x5C # CHR ''u'' # l) @ s)" and "lx_current lx = Some CHR ''u''"
    and "hex4_value h hi" "0xD800 \<le> hi" "hi \<le> 0xDBFF" and "hex4_value l lo" "0xDC00 \<le> lo" "lo \<le> 0xDFFF"
  shows "\<exists>lx'. scan_unicode lx = Ret (Some (0x10000 + 1024 * (hi - 0xD800) + (lo - 0xDC00)), lx') \<and> reads lx' s \<and>
    lx_buffer lx' = lx_buffer lx"
proof -
  have "reads lx (h @ CHR 0x5C # CHR ''u'' # l @ s)" using assms(1) by simp
  from get_codepoint_hex4 [OF this assms(3,2)] obtain l1 where l1: "get_codepoint lx = Ret (hi, l1)"
    "reads l1 (CHR 0x5C # CHR ''u'' # l @ s)" "lx_buffer l1 = lx_buffer lx" by blast
  note g1 = get_reads [OF l1(2)] note g2 = get_reads [OF g1(1)]
  have "reads (lx_get (lx_get l1)) (l @ s)" "lx_current (lx_get (lx_get l1)) = Some CHR ''u''"
    using g2 by simp_all
  from get_codepoint_hex4 [OF this(1) assms(6) this(2)] obtain l2 where
    l2: "get_codepoint (lx_get (lx_get l1)) = Ret (lo, l2)" "reads l2 s" "lx_buffer l2 = lx_buffer (lx_get (lx_get l1))"
    by blast
  have "(push_bit 10 hi + lo - 0x35FDC00) mod 2 ^ 32 = 0x10000 + 1024 * (hi - 0xD800) + (lo - 0xDC00)"
    using assms(4,5,7,8) by (simp add: push_bit_eq_mult mod_pos_pos_trivial)
  then show ?thesis
    using l1 l2 g1 g2 assms(4,5,7,8) by (auto simp: scan_unicode_def Let_def)
qed

text \<open>The bytes of a sequence are accepted and copied.\<close>

definition in_ranges :: "string \<Rightarrow> (int \<times> int) list \<Rightarrow> bool" where
  "in_ranges bs rs \<longleftrightarrow> list_all2 (\<lambda>b r. fst r \<le> of_char b \<and> of_char b \<le> snd r) bs rs"

lemma range_loop_accepts:
  "in_ranges bs rs \<Longrightarrow> reads lx (bs @ s) \<Longrightarrow>
    \<exists>lx'. range_loop rs lx = (True, lx') \<and> reads lx' s \<and> lx_buffer lx' = lx_buffer lx @ bs"
proof (induction bs arbitrary: rs lx)
  case Nil
  then show ?case by (simp add: in_ranges_def)
next
  case (Cons b bs)
  then obtain r rs' where rs: "rs = r # rs'" "fst r \<le> of_char b" "of_char b \<le> snd r" "in_ranges bs rs'"
    by (cases rs) (auto simp: in_ranges_def)
  have "reads lx (b # bs @ s)" using Cons.prems(2) by simp
  note g = get_reads [OF this]
  have "reads (add_current (lx_get lx)) (bs @ s)" using g by simp
  from Cons.IH [OF rs(4) this] g rs(1-3) show ?case by (auto simp: Let_def)
qed

lemma string_step_bytes:
  assumes "following_ranges (of_char c) = Some rs" and "in_ranges bs rs"
  shows "string_step (c # bs) (c # bs)"
  unfolding string_step_def
proof (intro allI impI)
  fix lx r assume "reads lx ((c # bs) @ r)"
  then have "reads lx (c # bs @ r)" by simp
  note g = get_reads [OF this]
  have c: "0xC2 \<le> (of_char c :: int)" using assms(1) by (auto simp: following_ranges_def split: if_splits)
  then have n: "c \<noteq> CHR 0x22" "c \<noteq> CHR 0x5C" by auto
  have len: "length rs = 1 \<or> length rs = 2 \<or> length rs = 3"
    using assms(1) by (auto simp: following_ranges_def split: if_splits)
  have "reads (add_current (lx_get lx)) (bs @ r)" using g by simp
  from range_loop_accepts [OF assms(2) this] obtain lx' where lx': "range_loop rs (add_current (lx_get lx)) = (True, lx')"
    "reads lx' r" "lx_buffer lx' = lx_buffer lx @ c # bs" using g by auto
  show "\<exists>lx'. scan_string_loop lx = scan_string_loop lx' \<and> reads lx' r \<and> lx_buffer lx' = lx_buffer lx @ c # bs"
    using g lx' c n len assms(1)
    by (intro exI [of _ lx']) (simp add: scan_string_loop.simps [of lx] Let_def next_byte_in_range_def)
qed

lemma string_step_ascii:
  assumes "0x20 \<le> (of_char c :: int)" "of_char c \<le> (0x7F :: int)" "c \<noteq> CHR 0x22" "c \<noteq> CHR 0x5C"
  shows "string_step [c] [c]"
  unfolding string_step_def
proof (intro allI impI)
  fix lx r assume "reads lx ([c] @ r)"
  then have "reads lx (c # r)" by simp
  note g = get_reads [OF this]
  show "\<exists>lx'. scan_string_loop lx = scan_string_loop lx' \<and> reads lx' r \<and> lx_buffer lx' = lx_buffer lx @ [c]"
    using g assms by (intro exI [of _ "add_current (lx_get lx)"]) (simp add: scan_string_loop.simps [of lx] Let_def)
qed

lemma base64_digits:
  fixes n :: int
  shows "n = 4096 * (n div 4096) + 64 * (n div 64 mod 64) + n mod 64"
    and "n = 262144 * (n div 262144) + 4096 * (n div 4096 mod 64) + 64 * (n div 64 mod 64) + n mod 64"
proof -
  have "n div 4096 = n div 64 div 64" "n div 262144 = n div 4096 div 64"
    using zdiv_zmult2_eq [of 64 n 64] zdiv_zmult2_eq [of 64 n 4096] by simp_all
  then show "n = 4096 * (n div 4096) + 64 * (n div 64 mod 64) + n mod 64"
    and "n = 262144 * (n div 262144) + 4096 * (n div 4096 mod 64) + 64 * (n div 64 mod 64) + n mod 64"
    using mult_div_mod_eq [of 64 n] mult_div_mod_eq [of 64 "n div 64"] mult_div_mod_eq [of 64 "n div 4096"] by linarith+
qed

text \<open>The bytes of a scalar value are in the ranges that follow its first byte.\<close>

lemma utf8_cases:
  assumes "scalar_value cp"
  obtains (one) "cp < 0x80" "utf8 cp = [utf8_byte cp]"
  | (more) b rs bs where "0x80 \<le> cp" "utf8 cp = utf8_byte b # bs" "0xC2 \<le> b" "b \<le> 0xF4" "following_ranges b = Some rs"
      "in_ranges bs rs"
proof -
  have cp: "0 \<le> cp" "cp \<le> 0x10FFFF" "\<not> (0xD800 \<le> cp \<and> cp \<le> 0xDFFF)"
    using assms by (simp_all add: scalar_value_def surrogate_def)
  consider "cp < 0x80" | "0x80 \<le> cp" "cp < 0x800" | "0x800 \<le> cp" "cp < 0x10000" | "0x10000 \<le> cp" by linarith
  then show ?thesis
  proof cases
    case 1
    then show ?thesis by (intro one) (simp_all add: utf8_def)
  next
    case 2
    then have "2 \<le> cp div 64" "cp div 64 < 32" by linarith+
    with 2 cp show ?thesis
      by (intro more [of "0xC0 + cp div 64" "[utf8_byte (0x80 + cp mod 64)]" "[(0x80, 0xBF)]"])
        (auto simp: utf8_def following_ranges_def in_ranges_def)
  next
    case 3
    define x y z where "x = cp div 4096" and "y = cp div 64 mod 64" and "z = cp mod 64"
    have "x \<le> 0xFFFF div 4096" unfolding x_def by (rule zdiv_mono1) (use 3 in simp_all)
    then have xyz: "0 \<le> x" "x < 16" "0 \<le> y" "y < 64" "0 \<le> z" "z < 64"
      using cp by (simp_all add: x_def y_def z_def pos_imp_zdiv_nonneg_iff)
    have sum: "cp = 4096 * x + 64 * y + z" unfolding x_def y_def z_def by (rule base64_digits)
    have u: "utf8 cp = utf8_byte (0xE0 + x) # [utf8_byte (0x80 + y), utf8_byte (0x80 + z)]"
      using 3 by (simp add: utf8_def x_def y_def z_def)
    consider "x = 0" "32 \<le> y" | "x = 13" "y < 32" | "1 \<le> x" "x \<le> 12" | "x = 14" | "x = 15"
      using xyz sum 3 cp by linarith
    then have "\<exists>rs. following_ranges (0xE0 + x) = Some rs \<and> in_ranges [utf8_byte (0x80 + y), utf8_byte (0x80 + z)] rs"
      by cases (use xyz in \<open>simp_all add: following_ranges_def in_ranges_def\<close>)
    with u xyz 3 show ?thesis by (auto intro: more)
  next
    case 4
    define x v y z where "x = cp div 262144" and "v = cp div 4096 mod 64" and "y = cp div 64 mod 64" and "z = cp mod 64"
    have "x \<le> 0x10FFFF div 262144" unfolding x_def by (rule zdiv_mono1) (use cp in simp_all)
    then have xyz: "0 \<le> x" "x < 5" "0 \<le> v" "v < 64" "0 \<le> y" "y < 64" "0 \<le> z" "z < 64"
      using cp by (simp_all add: x_def v_def y_def z_def pos_imp_zdiv_nonneg_iff)
    have sum: "cp = 262144 * x + 4096 * v + 64 * y + z" unfolding x_def v_def y_def z_def by (rule base64_digits)
    have u: "utf8 cp = utf8_byte (0xF0 + x) # [utf8_byte (0x80 + v), utf8_byte (0x80 + y), utf8_byte (0x80 + z)]"
      using 4 by (simp add: utf8_def x_def y_def z_def v_def)
    consider "x = 0" "16 \<le> v" | "1 \<le> x" "x \<le> 3" | "x = 4" "v < 16"
      using xyz sum 4 cp by linarith
    then have "\<exists>rs. following_ranges (0xF0 + x) = Some rs \<and>
        in_ranges [utf8_byte (0x80 + v), utf8_byte (0x80 + y), utf8_byte (0x80 + z)] rs"
      by cases (use xyz in \<open>simp_all add: following_ranges_def in_ranges_def\<close>)
    with u xyz 4 show ?thesis by (auto intro: more)
  qed
qed

lemma utf8_byte_ne: "0 \<le> b \<Longrightarrow> b < 256 \<Longrightarrow> b \<noteq> of_char c \<Longrightarrow> utf8_byte b \<noteq> c"
  by auto

lemma string_step_unescaped:
  assumes "scalar_value cp" "0x20 \<le> cp" "cp \<noteq> 0x22" "cp \<noteq> 0x5C"
  shows "string_step (utf8 cp) (utf8 cp)"
  using assms(1)
proof (cases rule: utf8_cases)
  case one
  with assms(2-) show ?thesis by (auto intro!: string_step_ascii simp: utf8_byte_ne)
next
  case (more b rs bs)
  then show ?thesis by (auto intro!: string_step_bytes)
qed

lemma utf8_byte_eval:
  "utf8_byte 0x22 = CHR 0x22" "utf8_byte 0x5C = CHR 0x5C" "utf8_byte 0x2F = CHR ''/''" "utf8_byte 8 = CHR 0x08"
  "utf8_byte 12 = CHR 0x0C" "utf8_byte 10 = CHR 0x0A" "utf8_byte 13 = CHR 0x0D" "utf8_byte 9 = CHR 0x09"
  by code_simp+

lemma string_step_char: "char_text cp t \<Longrightarrow> string_step t (utf8 cp)"
proof (induction rule: char_text.induct)
  case (unescaped cp)
  then show ?case by (rule string_step_unescaped)
next
  case (escape c cp)
  then have "simple_escape c = Some (utf8_byte cp)" "utf8 cp = [utf8_byte cp]" "c \<noteq> CHR ''u''"
    unfolding escapes_def by (elim insertE emptyE; simp add: simple_escape_def utf8_def utf8_byte_eval)+
  then show ?case by (simp add: string_step_escape)
next
  case (unicode h cp)
  show ?case
  proof (rule string_step_unicode)
    show "scalar_value cp"
      using hex4_value_range [OF unicode(1)] unicode(2) by (simp add: scalar_value_def)
  qed (rule scan_unicode_single [OF _ _ unicode])
next
  case (pair h hi l lo)
  have "string_step (CHR 0x5C # CHR ''u'' # (h @ CHR 0x5C # CHR ''u'' # l))
      (utf8 (0x10000 + 1024 * (hi - 0xD800) + (lo - 0xDC00)))"
  proof (rule string_step_unicode)
    show "scalar_value (0x10000 + 1024 * (hi - 0xD800) + (lo - 0xDC00))"
      using pair by (simp add: scalar_value_def surrogate_def)
  qed (rule scan_unicode_pair [OF _ _ pair(1,3,4,2,5,6)])
  then show ?case by simp
qed

lemma scan_string_loop_text:
  "string_text s t \<Longrightarrow> reads lx (t @ CHR 0x22 # r) \<Longrightarrow>
    \<exists>lx'. scan_string_loop lx = Ret (value_string, lx') \<and> reads lx' r \<and> lx_buffer lx' = lx_buffer lx @ s"
proof (induction arbitrary: lx rule: string_text.induct)
  case empty
  then have "reads lx (CHR 0x22 # r)" by simp
  from get_reads [OF this] show ?case by (simp add: scan_string_loop.simps [of lx] Let_def)
next
  case (more cp t s u)
  have "reads lx (t @ u @ CHR 0x22 # r)" using more.prems by simp
  with string_step_char [OF more.hyps(1)] obtain l where l: "scan_string_loop lx = scan_string_loop l"
    "reads l (u @ CHR 0x22 # r)" "lx_buffer l = lx_buffer lx @ utf8 cp"
    unfolding string_step_def by blast
  from more.IH [OF l(2)] l show ?case by auto
qed

end
