(* ===== verification/JsonScanNumber.thy ===== *)
theory JsonScanNumber
  imports JsonScan
begin

text \<open>
  The lexer on numerals and on the other tokens: the state machine accepts a numeral, and the conversions
  of the standard library give it the value of the grammar.
\<close>

section \<open>The conversions\<close>

lemma is_digit_int: "is_digit c \<longleftrightarrow> 48 \<le> (of_char c :: int) \<and> of_char c \<le> (57 :: int)"
proof -
  have "(of_char c :: int) = int (of_char c)" by (simp only: of_nat_of_char)
  then show ?thesis by (simp add: is_digit_def char_digit_def Let_def)
qed

lemma digits_simps [simp]:
  "digits []" "digits (c # s) \<longleftrightarrow> is_digit c \<and> digits s" "digits (s @ t) \<longleftrightarrow> digits s \<and> digits t"
  by (simp_all add: digits_def)

definition no_digit :: "string \<Rightarrow> bool" where
  "no_digit s \<longleftrightarrow> (case s of [] \<Rightarrow> True | c # _ \<Rightarrow> \<not> is_digit c)"

lemma takeWhile_digits [simp]:
  "digits ds \<Longrightarrow> no_digit s \<Longrightarrow> takeWhile is_digit (ds @ s) = ds"
  "digits ds \<Longrightarrow> no_digit s \<Longrightarrow> dropWhile is_digit (ds @ s) = s"
  by (induction ds) (auto simp: no_digit_def split: list.splits)

lemma digit_nonzero: "is_digit c \<Longrightarrow> c \<noteq> CHR ''0'' \<Longrightarrow> 49 \<le> (of_char c :: int)"
proof -
  assume "is_digit c" "c \<noteq> CHR ''0''"
  then have "(of_char c :: int) \<noteq> of_char CHR ''0''" by (simp only: of_char_eq_iff not_False_eq_True)
  with \<open>is_digit c\<close> show ?thesis by (simp add: is_digit_int)
qed

lemma takeWhile_all_digits [simp]:
  "digits ds \<Longrightarrow> takeWhile is_digit ds = ds" "digits ds \<Longrightarrow> dropWhile is_digit ds = []"
  using takeWhile_digits [of ds "[]"] by (simp_all add: no_digit_def)

lemma dec_value_simps [simp]:
  "dec_value [] = 0" "dec_value (s @ [c]) = 10 * dec_value s + int (the (char_digit c))"
  by (simp_all add: dec_value_def)

lemma dec_value_nonneg [simp]: "0 \<le> dec_value s"
  by (induction s rule: rev_induct) simp_all

lemma strtoull_digits: "digits s \<Longrightarrow> strtoull s = (min (dec_value s) (2 ^ 64 - 1), [], 2 ^ 64 \<le> dec_value s)"
  by (simp add: strtoull_def Let_def)

lemma strtoll_negative:
  "digits s \<Longrightarrow> strtoll (CHR ''-'' # s) = (max (- (2 ^ 63)) (min (- dec_value s) (2 ^ 63 - 1)), [],
     - dec_value s < - (2 ^ 63))"
proof -
  have "(0 :: int) < 2 ^ 63" by simp
  then have "\<not> 2 ^ 63 \<le> - dec_value s" using dec_value_nonneg [of s] by linarith
  then show "digits s \<Longrightarrow> ?thesis" by (simp add: strtoll_def Let_def)
qed

lemma not_digit [simp]:
  "\<not> is_digit CHR ''-''" "\<not> is_digit CHR ''.''" "\<not> is_digit CHR ''e''" "\<not> is_digit CHR ''E''" "\<not> is_digit CHR ''+''"
  "\<not> is_digit CHR ''[''" "\<not> is_digit CHR '']''" "\<not> is_digit CHR ''{''" "\<not> is_digit CHR ''}''" "\<not> is_digit CHR '':''"
  "\<not> is_digit CHR '',''" "\<not> is_digit CHR ''t''" "\<not> is_digit CHR ''f''" "\<not> is_digit CHR ''n''" "\<not> is_digit CHR 0x22"
  "\<not> is_digit CHR '' ''" "\<not> is_digit CHR 0x09" "\<not> is_digit CHR 0x0A" "\<not> is_digit CHR 0x0D" "\<not> is_digit CHR ''/''"
  by (simp_all add: is_digit_int)

definition exp_ok :: "(char \<times> string \<times> string) option \<Rightarrow> bool" where
  "exp_ok x \<longleftrightarrow> (case x of None \<Rightarrow> True | Some (e, s, ds) \<Rightarrow>
     (e = CHR ''e'' \<or> e = CHR ''E'') \<and> s \<in> {'''', ''+'', ''-''} \<and> ds \<noteq> [] \<and> digits ds)"

lemma strtod_exponent_text: "exp_ok x \<Longrightarrow> strtod_exponent (exp_text x) = (exp_value x, [])"
proof (cases x)
  case (Some p)
  obtain e s ds where p: "p = (e, s, ds)" by (cases p) auto
  assume "exp_ok x"
  then have x: "e = CHR ''e'' \<or> e = CHR ''E''" "s \<in> {'''', ''+'', ''-''}" "ds \<noteq> []" "digits ds"
    by (auto simp: exp_ok_def Some p)
  then obtain d t where ds: "ds = d # t" "is_digit d" "digits t" by (cases ds) auto
  then have d: "d \<noteq> CHR ''-''" "d \<noteq> CHR ''+''" by auto
  show ?thesis
    using x(1,2) ds d by (auto simp: strtod_exponent_def exp_text_def exp_value_def Some p Let_def)
qed (simp add: strtod_exponent_def exp_text_def exp_value_def)

lemma no_digit_exp: "exp_ok x \<Longrightarrow> no_digit (exp_text x)"
  by (auto simp: exp_ok_def exp_text_def no_digit_def split: option.splits)

lemma no_digit_frac: "exp_ok x \<Longrightarrow> no_digit (frac_text f @ exp_text x)"
  by (simp add: frac_text_def no_digit_exp) (simp add: no_digit_def)

lemma numeral_ok_exp: "numeral_ok n \<Longrightarrow> exp_ok (n_exp n)"
  by (simp add: numeral_ok_def exp_ok_def)

lemma strtod_numeral:
  assumes "numeral_ok n"
  shows "strtod (numeral_text n) = (numeral_dbl n, [])"
proof -
  have n: "n_int n \<noteq> []" "digits (n_int n)" "digits (n_frac n)" "exp_ok (n_exp n)"
    using assms numeral_ok_exp [OF assms] by (simp_all add: numeral_ok_def)
  then obtain d t where int: "n_int n = d # t" "is_digit d" "digits t" by (cases "n_int n") auto
  then have d: "d \<noteq> CHR ''-''" by auto
  let ?rest = "frac_text (n_frac n) @ exp_text (n_exp n)"
  have sign: "(case numeral_text n of c # t \<Rightarrow> if c = CHR ''-'' then (True, t) else (False, numeral_text n)
      | [] \<Rightarrow> (False, numeral_text n)) = (n_negative n, n_int n @ ?rest)"
    using int d by (simp add: numeral_text_def)
  have int_part: "takeWhile is_digit (n_int n @ ?rest) = n_int n" "dropWhile is_digit (n_int n @ ?rest) = ?rest"
    using n no_digit_frac by simp_all
  have frac: "(case ?rest of c # t \<Rightarrow> if c = CHR ''.'' then (takeWhile is_digit t, dropWhile is_digit t) else ([], ?rest)
      | [] \<Rightarrow> ([], ?rest)) = (n_frac n, exp_text (n_exp n))"
  proof (cases "n_frac n = []")
    case True
    then show ?thesis using n(4)
      by (auto simp: frac_text_def exp_text_def exp_ok_def split: option.splits list.splits)
  next
    case False
    then show ?thesis using n(3) no_digit_exp [OF n(4)] by (simp add: frac_text_def)
  qed
  show ?thesis
    unfolding strtod_def sign Let_def prod.case int_part frac strtod_exponent_text [OF n(4)]
    using n(1) by (simp add: numeral_dbl_def numeral_value_def)
qed

section \<open>The state machine\<close>

definition num_run :: "num_state \<Rightarrow> token_type \<Rightarrow> string \<Rightarrow> num_state \<Rightarrow> token_type \<Rightarrow> bool" where
  "num_run q ty t q' ty' \<longleftrightarrow> (\<forall>lx s. reads lx (t @ s) \<longrightarrow>
     (\<exists>lx'. scan_number_loop q ty lx = scan_number_loop q' ty' lx' \<and> reads lx' s \<and> lx_buffer lx' = lx_buffer lx @ t))"

lemma num_run_Nil: "num_run q ty [] q ty"
  by (auto simp: num_run_def)

lemma num_run_step:
  assumes "num_next q (Some c) = Goto q'" and "ty' = num_type q ty"
  shows "num_run q ty [c] q' ty'"
  unfolding num_run_def
proof (intro allI impI)
  fix lx s assume "reads lx ([c] @ s)"
  then have "reads lx (c # s)" by simp
  note g = get_reads [OF this]
  show "\<exists>lx'. scan_number_loop q ty lx = scan_number_loop q' ty' lx' \<and> reads lx' s \<and> lx_buffer lx' = lx_buffer lx @ [c]"
    using g assms by (intro exI [of _ "add_current (lx_get lx)"]) (simp add: scan_number_loop.simps [of q] Let_def)
qed

lemma num_run_append:
  assumes "num_run q ty t q' ty'" and "num_run q' ty' u q'' ty''"
  shows "num_run q ty (t @ u) q'' ty''"
  unfolding num_run_def
proof (intro allI impI)
  fix lx s assume "reads lx ((t @ u) @ s)"
  then have "reads lx (t @ u @ s)" by simp
  with assms(1) obtain l where l: "scan_number_loop q ty lx = scan_number_loop q' ty' l" "reads l (u @ s)"
    "lx_buffer l = lx_buffer lx @ t" unfolding num_run_def by blast
  from l(2) assms(2) obtain l' where "scan_number_loop q' ty' l = scan_number_loop q'' ty'' l'" "reads l' s"
    "lx_buffer l' = lx_buffer l @ u" unfolding num_run_def by blast
  with l show "\<exists>lx'. scan_number_loop q ty lx = scan_number_loop q'' ty'' lx' \<and> reads lx' s \<and>
      lx_buffer lx' = lx_buffer lx @ t @ u" by auto
qed

lemma num_run_Cons:
  "num_next q (Some c) = Goto q' \<Longrightarrow> num_run q' (num_type q ty) t q'' ty'' \<Longrightarrow> num_run q ty (c # t) q'' ty''"
  using num_run_append [OF num_run_step [OF _ refl]] by fastforce

lemma num_next_digit:
  assumes "is_digit c"
  shows "q \<in> {Any1, Decimal2, Any2} \<Longrightarrow> num_next q (Some c) = Goto q"
    and "num_next Decimal1 (Some c) = Goto Decimal2" and "num_next Exponent (Some c) = Goto Any2"
    and "num_next Sign (Some c) = Goto Any2"
  using assms by (auto simp: num_next_def is_digit_int)

lemma num_next_char:
  "c = CHR ''+'' \<or> c = CHR ''-'' \<Longrightarrow> num_next Exponent (Some c) = Goto Sign"
  "q \<in> {Zero, Any1} \<Longrightarrow> num_next q (Some CHR ''.'') = Goto Decimal1"
  "q \<in> {Zero, Any1, Decimal2} \<Longrightarrow> e = CHR ''e'' \<or> e = CHR ''E'' \<Longrightarrow> num_next q (Some e) = Goto Exponent"
  by (auto simp: num_next_def)

lemma num_type_simps [simp]:
  "num_type Minus ty = value_integer" "num_type Decimal1 ty = value_float" "num_type Exponent ty = value_float"
  "q \<in> {Zero, Any1, Decimal2, Sign, Any2} \<Longrightarrow> num_type q ty = ty"
  by (auto simp: num_type_def)

lemma num_run_digits: "digits ds \<Longrightarrow> q \<in> {Any1, Decimal2, Any2} \<Longrightarrow> num_run q ty ds q ty"
proof (induction ds)
  case Nil
  then show ?case by (simp add: num_run_Nil)
next
  case (Cons c ds)
  then have "num_type q ty = ty" by (auto simp: num_type_def)
  with Cons show ?case by (auto intro: num_run_Cons simp: num_next_digit)
qed

definition stops :: "string \<Rightarrow> bool" where
  "stops s \<longleftrightarrow> (case s of [] \<Rightarrow> True | c # _ \<Rightarrow> \<not> is_digit c \<and> c \<notin> {CHR ''.'', CHR ''e'', CHR ''E''})"

lemma num_done:
  assumes "reads lx s" and "stops s" and "q \<in> {Zero, Any1, Decimal2, Any2}"
  shows "\<exists>lx'. scan_number_loop q ty lx = scan_number_done ty lx' \<and> reads (lx_unread lx') s \<and> lx_buffer lx' = lx_buffer lx"
proof -
  note g = get_reads [OF assms(1)]
  have "num_next q (lx_current (lx_get lx)) = Num_done"
    using g(2) assms(2,3) by (cases s) (auto simp: num_next_def stops_def is_digit_int)
  moreover have "num_type q ty = ty" using assms(3) by (auto simp: num_type_def)
  ultimately show ?thesis
    using g unread_get_reads [OF assms(1)]
    by (intro exI [of _ "lx_get lx"]) (simp add: scan_number_loop.simps [of q] Let_def)
qed

text \<open>The state behind the integral part.\<close>

lemma num_run_int:
  assumes "digits (c # t)" and "c = CHR ''0'' \<longrightarrow> t = []"
  shows "\<exists>q \<in> {Zero, Any1}. num_run Minus ty (c # t) q value_integer \<and>
    (if c = CHR ''0'' then q = Zero \<and> t = [] else q = Any1 \<and> num_run Any1 ty t Any1 ty)"
proof (cases "c = CHR ''0''")
  case True
  then show ?thesis
    using assms(2) by (auto intro!: num_run_step simp: num_next_def num_type_def)
next
  case False
  have "num_run Minus ty (c # t) Any1 value_integer"
  proof (rule num_run_Cons)
    show "num_next Minus (Some c) = Goto Any1" using assms(1) False by (simp add: num_next_def is_digit_int)
    show "num_run Any1 (num_type Minus ty) t Any1 value_integer"
      using assms(1) num_run_digits [of t Any1] by (simp add: num_type_def)
  qed
  with False assms(1) show ?thesis by (auto intro: num_run_digits)
qed

lemma num_run_frac:
  assumes "digits f" and "f \<noteq> []" and "q \<in> {Zero, Any1}"
  shows "num_run q ty (frac_text f) Decimal2 value_float"
proof -
  obtain c t where f: "f = c # t" "is_digit c" "digits t" using assms(1,2) by (cases f) auto
  have "num_run Decimal1 ty (c # t) Decimal2 value_float"
    using f num_run_digits [of t Decimal2 value_float] by (intro num_run_Cons [OF num_next_digit(2)]) auto
  then have "num_run q ty (CHR ''.'' # c # t) Decimal2 value_float"
    using assms(3) by (intro num_run_Cons [OF num_next_char(2)]) auto
  then show ?thesis by (simp add: frac_text_def f)
qed

lemma num_run_exp:
  assumes "exp_ok x" and "x \<noteq> None" and "q \<in> {Zero, Any1, Decimal2}"
  shows "num_run q ty (exp_text x) Any2 value_float"
proof -
  obtain e s ds where x: "x = Some (e, s, ds)" using assms(2) by auto
  have ok: "e = CHR ''e'' \<or> e = CHR ''E''" "s \<in> {'''', ''+'', ''-''}" "ds \<noteq> []" "digits ds"
    using assms(1) by (auto simp: exp_ok_def x)
  then obtain c t where ds: "ds = c # t" "is_digit c" "digits t" by (cases ds) auto
  have any2: "num_run Any2 ty t Any2 ty" for ty using num_run_digits [of t Any2 ty] ds(3) by simp
  have sign: "num_run Sign value_float (c # t) Any2 value_float"
    using ds any2 by (intro num_run_Cons [OF num_next_digit(4)]) auto
  have "num_run Exponent ty (s @ c # t) Any2 value_float"
  proof (cases "s = []")
    case True
    with ds any2 show ?thesis by (auto intro: num_run_Cons [OF num_next_digit(3)])
  next
    case False
    with ok(2) obtain g where g: "s = [g]" "g = CHR ''+'' \<or> g = CHR ''-''" by blast
    show ?thesis using num_run_Cons [OF num_next_char(1) [OF g(2)], of ty "c # t"] sign g(1) by simp
  qed
  then have "num_run q ty (e # s @ c # t) Any2 value_float"
    using assms(3) ok(1) by (intro num_run_Cons [OF num_next_char(3)]) auto
  then show ?thesis by (simp add: x exp_text_def ds)
qed

text \<open>Behind the integral part: the rest of the numeral, up to a byte that does not continue it.\<close>

definition numeral_type :: "numeral \<Rightarrow> token_type" where
  "numeral_type n = (if n_frac n \<noteq> [] \<or> n_exp n \<noteq> None then value_float
     else if n_negative n then value_integer else value_unsigned)"

lemma num_run_rest:
  assumes "digits (n_frac n)" and "exp_ok (n_exp n)" and "q \<in> {Zero, Any1}"
    and "ty = (if n_negative n then value_integer else value_unsigned)"
  shows "\<exists>q' \<in> {Zero, Any1, Decimal2, Any2}. num_run q ty (frac_text (n_frac n) @ exp_text (n_exp n)) q' (numeral_type n)"
proof -
  have "\<exists>q1 \<in> {Zero, Any1, Decimal2}. num_run q ty (frac_text (n_frac n)) q1 (if n_frac n = [] then ty else value_float)"
  proof (cases "n_frac n = []")
    case True
    with assms(3) num_run_Nil [of q ty] show ?thesis by (auto simp: frac_text_def)
  next
    case False
    with num_run_frac [OF assms(1) False assms(3), of ty] show ?thesis by auto
  qed
  then obtain q1 where q1: "q1 \<in> {Zero, Any1, Decimal2}"
    "num_run q ty (frac_text (n_frac n)) q1 (if n_frac n = [] then ty else value_float)" by blast
  show ?thesis
  proof (cases "n_exp n = None")
    case True
    with q1 assms(4) show ?thesis by (auto simp: exp_text_def numeral_type_def)
  next
    case False
    from num_run_append [OF q1(2) num_run_exp [OF assms(2) False q1(1)]] False
    have "num_run q ty (frac_text (n_frac n) @ exp_text (n_exp n)) Any2 (numeral_type n)"
      by (simp add: numeral_type_def)
    then show ?thesis by blast
  qed
qed

text \<open>The token and the value the lexer holds for a JSON number.\<close>

definition holds_number :: "json \<Rightarrow> token_type \<Rightarrow> lexer \<Rightarrow> bool" where
  "holds_number j ty lx = (case j of
       JInt i \<Rightarrow> ty = value_integer \<and> lx_integer lx = i
     | JUInt i \<Rightarrow> ty = value_unsigned \<and> lx_unsigned lx = i
     | JFloat x \<Rightarrow> ty = value_float \<and> lx_float lx = x
     | _ \<Rightarrow> False)"

lemma numeral_text_integer:
  "numeral_type n \<noteq> value_float \<Longrightarrow> numeral_text n = (if n_negative n then ''-'' else []) @ n_int n"
  by (auto simp: numeral_type_def numeral_text_def frac_text_def exp_text_def split: if_splits option.splits)

lemma scan_number_done_numeral:
  assumes "numeral_ok n" and "lx_buffer lx = numeral_text n" and "reads (lx_unread lx) s"
  shows "\<exists>ty lx'. scan_number_done (numeral_type n) lx = Ret (ty, lx') \<and> holds_number (numeral_json n) ty lx' \<and> reads lx' s"
proof -
  have int: "digits (n_int n)" using assms(1) by (simp add: numeral_ok_def)
  note float = strtod_numeral [OF assms(1)]
  consider (float) "numeral_type n = value_float" | (neg) "numeral_type n = value_integer" "n_negative n"
    | (pos) "numeral_type n = value_unsigned" "\<not> n_negative n"
    by (cases "n_frac n \<noteq> [] \<or> n_exp n \<noteq> None"; cases "n_negative n") (auto simp: numeral_type_def)
  then show ?thesis
  proof cases
    case float
    then have "numeral_json n = JFloat (numeral_dbl n)"
      by (auto simp: numeral_type_def numeral_json_def Let_def split: if_splits)
    with float \<open>strtod _ = _\<close> assms(2,3) show ?thesis
      by (simp add: scan_number_done_def Let_def holds_number_def)
  next
    case neg
    then have j: "numeral_json n = (if dec_value (n_int n) \<le> 2 ^ 63 then JInt (- dec_value (n_int n)) else JFloat (numeral_dbl n))"
      by (auto simp: numeral_type_def numeral_json_def Let_def split: if_splits)
    have t: "lx_buffer lx = CHR ''-'' # n_int n" using neg numeral_text_integer [of n] assms(2) by simp
    show ?thesis
    proof (cases "dec_value (n_int n) \<le> 2 ^ 63")
      case True
      moreover have "- dec_value (n_int n) \<le> 0" by simp
      ultimately have "max (- (2 ^ 63)) (min (- dec_value (n_int n)) (2 ^ 63 - 1)) = - dec_value (n_int n)"
        by linarith
      with True neg(1) t j int assms(3) show ?thesis
        by (simp add: scan_number_done_def Let_def holds_number_def strtoll_negative)
    next
      case False
      then have "- dec_value (n_int n) < - (2 ^ 63)" by simp
      with False neg(1) t j int assms(2,3) float show ?thesis
        by (simp add: scan_number_done_def Let_def holds_number_def strtoll_negative)
    qed
  next
    case pos
    then have j: "numeral_json n = (if dec_value (n_int n) < 2 ^ 64 then JUInt (dec_value (n_int n)) else JFloat (numeral_dbl n))"
      by (auto simp: numeral_type_def numeral_json_def Let_def split: if_splits)
    have t: "lx_buffer lx = n_int n" using pos numeral_text_integer [of n] assms(2) by simp
    show ?thesis
    proof (cases "dec_value (n_int n) < 2 ^ 64")
      case True
      with pos(1) t j int assms(3) show ?thesis
        by (simp add: scan_number_done_def Let_def holds_number_def strtoull_digits min_def)
    next
      case False
      with pos(1) t j int assms(2,3) float show ?thesis
        by (simp add: scan_number_done_def Let_def holds_number_def strtoull_digits)
    qed
  qed
qed

lemma scan_number_numeral:
  assumes "numeral_ok n" and "numeral_text n = c # t" and "lx_current lx = Some c" and "reads lx (t @ s)" and "stops s"
  shows "\<exists>ty lx'. scan_number lx = Ret (ty, lx') \<and> holds_number (numeral_json n) ty lx' \<and> reads lx' s"
proof -
  have n: "n_int n \<noteq> []" "digits (n_int n)" "digits (n_frac n)" "exp_ok (n_exp n)"
    and zero: "hd (n_int n) = CHR ''0'' \<longrightarrow> n_int n = ''0''"
    using assms(1) numeral_ok_exp [OF assms(1)] by (simp_all add: numeral_ok_def)
  then obtain d ds where int: "n_int n = d # ds" "is_digit d" "digits ds" by (cases "n_int n") auto
  with zero have z: "d = CHR ''0'' \<longrightarrow> ds = []" by auto
  let ?ty = "if n_negative n then value_integer else value_unsigned"
  let ?rest = "frac_text (n_frac n) @ exp_text (n_exp n)"
  define l where "l = add_current (lx_reset lx)"
  have l: "reads l (t @ s)" "lx_buffer l = [c]" using assms(3,4) by (simp_all add: l_def)
  obtain q where q: "q \<in> {Zero, Any1}" "num_run Minus value_unsigned (n_int n) q value_integer"
    "if d = CHR ''0'' then q = Zero \<and> ds = [] else q = Any1 \<and> num_run Any1 value_unsigned ds Any1 value_unsigned"
    using num_run_int [of d ds value_unsigned] n(2) z int(1) by fastforce
  obtain q' where q': "q' \<in> {Zero, Any1, Decimal2, Any2}" "num_run q ?ty ?rest q' (numeral_type n)"
    using num_run_rest [OF n(3,4) q(1) refl] by blast
  have start: "\<exists>l'. scan_number lx = scan_number_loop q ?ty l' \<and> reads l' (?rest @ s) \<and>
      lx_buffer l' @ ?rest = numeral_text n"
  proof (cases "n_negative n")
    case True
    then have c: "c = CHR ''-''" "t = n_int n @ ?rest" using assms(2) by (auto simp: numeral_text_def)
    have "reads l (n_int n @ ?rest @ s)" using l(1) c(2) by simp
    with q(2) obtain l' where "scan_number_loop Minus value_unsigned l = scan_number_loop q value_integer l'"
      "reads l' (?rest @ s)" "lx_buffer l' = lx_buffer l @ n_int n" unfolding num_run_def by blast
    then show ?thesis
      using True c l(2) assms(3) by (auto simp: scan_number_def Let_def numeral_text_def simp flip: l_def)
  next
    case False
    then have c: "c = d" "t = ds @ ?rest" using assms(2) int(1) by (auto simp: numeral_text_def)
    have first: "scan_number lx = scan_number_loop q value_unsigned l"
      using q(3) c(1) assms(3) int(2) digit_nonzero [of d]
      by (auto simp: scan_number_def Let_def is_digit_int simp flip: l_def split: if_splits)
    have "reads l (ds @ ?rest @ s)" using l(1) c(2) by simp
    moreover have "num_run q value_unsigned ds q value_unsigned"
      using q(3) by (auto simp: num_run_Nil split: if_splits)
    ultimately obtain l' where "scan_number_loop q value_unsigned l = scan_number_loop q value_unsigned l'"
      "reads l' (?rest @ s)" "lx_buffer l' = lx_buffer l @ ds" unfolding num_run_def by blast
    then show ?thesis
      using False first c l(2) int(1) by (auto simp: numeral_text_def)
  qed
  then obtain l' where l': "scan_number lx = scan_number_loop q ?ty l'" "reads l' (?rest @ s)"
    "lx_buffer l' @ ?rest = numeral_text n" by blast
  with q'(2) obtain l2 where l2: "scan_number_loop q ?ty l' = scan_number_loop q' (numeral_type n) l2" "reads l2 s"
    "lx_buffer l2 = lx_buffer l' @ ?rest" unfolding num_run_def by blast
  obtain l3 where l3: "scan_number_loop q' (numeral_type n) l2 = scan_number_done (numeral_type n) l3"
    "reads (lx_unread l3) s" "lx_buffer l3 = lx_buffer l2"
    using num_done [OF l2(2) assms(5) q'(1)] by blast
  show ?thesis
    using scan_number_done_numeral [OF assms(1) _ l3(2)] l'(1,3) l2(1,3) l3(1,3) by simp
qed

section \<open>Tokens\<close>

lemma is_ws_iff: "is_ws c \<longleftrightarrow> c \<in> {CHR '' '', CHR 0x09, CHR 0x0A, CHR 0x0D}"
  by (auto simp: is_ws_def)

lemma ws_simps [simp]: "ws []" "ws (c # w) \<longleftrightarrow> is_ws c \<and> ws w" "ws (v @ w) \<longleftrightarrow> ws v \<and> ws w"
  by (auto simp: ws_def is_ws_iff)

lemma skip_whitespace_at:
  assumes "ws w" and "lexer_at lx (w @ s)" and "s = [] \<or> \<not> is_ws (hd s)"
  shows "reads (skip_whitespace lx) (tl s) \<and> lx_current (skip_whitespace lx) = (if s = [] then None else Some (hd s))"
  using assms
proof (induction w arbitrary: lx)
  case Nil
  then have "lexer_at lx s" by simp
  from get_at [OF this] Nil.prems(3) show ?case
    by (auto simp: skip_whitespace.simps [of lx] Let_def split: option.splits)
next
  case (Cons c w)
  then have "lexer_at lx (c # w @ s)" by simp
  note g = get_at [OF this]
  have "lexer_at (lx_get lx) (w @ s)" using g(1) by (simp add: reads_def)
  from Cons.IH [OF _ this] Cons.prems g show ?case
    by (simp add: skip_whitespace.simps [of lx] Let_def)
qed

definition scan_behind_bom :: "lexer \<Rightarrow> (token_type \<times> lexer) outcome" where
  "scan_behind_bom lx = (case skip_comments (skip_whitespace lx) of (ok, lx) \<Rightarrow>
     if ok then scan_token lx else Ret (parse_error, lx))"

lemma scan_reads: "reads lx s \<Longrightarrow> scan lx = scan_behind_bom lx"
  by (simp add: scan_def scan_behind_bom_def reads_def)

text \<open>The first token, with and without the byte order mark.\<close>

lemma scan_first:
  "s = [] \<or> hd s \<noteq> CHR 0xEF \<Longrightarrow> \<exists>lx. scan (new_lexer s False) = scan_behind_bom lx \<and> lexer_at lx s"
  "\<exists>lx. scan (new_lexer (CHR 0xEF # CHR 0xBB # CHR 0xBF # s) False) = scan_behind_bom lx \<and> lexer_at lx s"
  by (auto simp: scan_def scan_behind_bom_def new_lexer_def skip_bom_def lexer_defs lexer_at_def unread_text_def
      split: list.splits)

lemma scan_behind_bom_token:
  assumes "ws w" and "lexer_at lx (w @ c # s)" and "\<not> is_ws c" and "c \<noteq> CHR ''/''"
  shows "\<exists>lx'. scan_behind_bom lx = scan_token lx' \<and> lx_current lx' = Some c \<and> reads lx' s"
  using skip_whitespace_at [OF assms(1,2)] assms(3,4)
  by (auto simp: scan_behind_bom_def skip_comments.simps)

lemma scan_end:
  assumes "reads lx (w @ t)" and "ws w" and "tail_end t"
  shows "\<exists>lx'. scan lx = Ret (end_of_input, lx')"
proof -
  have "lexer_at lx (w @ t)" "t = [] \<or> \<not> is_ws (hd t)" using assms by (auto simp: reads_def tail_end_def is_ws_def)
  from skip_whitespace_at [OF assms(2) this] show ?thesis
    using assms(3)
    by (auto simp: scan_reads [OF assms(1)] scan_behind_bom_def skip_comments.simps scan_token_def tail_end_def)
qed

text \<open>A token text is read, with the white space before it, up to the text \<open>s\<close> behind it.\<close>

definition token_read :: "string \<Rightarrow> string \<Rightarrow> (token_type \<Rightarrow> lexer \<Rightarrow> bool) \<Rightarrow> bool" where
  "token_read t s P \<longleftrightarrow> (\<forall>lx w. ws w \<longrightarrow> lexer_at lx (w @ t @ s) \<longrightarrow>
     (\<exists>ty lx'. scan_behind_bom lx = Ret (ty, lx') \<and> reads lx' s \<and> P ty lx'))"

lemma token_readI:
  assumes "t = c # u" and "\<not> is_ws c" and "c \<noteq> CHR ''/''"
    and "\<And>lx. lx_current lx = Some c \<Longrightarrow> reads lx (u @ s) \<Longrightarrow> \<exists>ty lx'. scan_token lx = Ret (ty, lx') \<and> reads lx' s \<and> P ty lx'"
  shows "token_read t s P"
  unfolding token_read_def
proof (intro allI impI)
  fix lx w assume "ws w" "lexer_at lx (w @ t @ s)"
  then have "ws w" "lexer_at lx (w @ c # u @ s)" by (simp_all add: assms(1))
  from scan_behind_bom_token [OF this assms(2,3)] assms(4)
  show "\<exists>ty lx'. scan_behind_bom lx = Ret (ty, lx') \<and> reads lx' s \<and> P ty lx'" by fastforce
qed

lemma token_read_structural:
  assumes "(c, ty) \<in> {(CHR ''['', begin_array), (CHR '']'', end_array), (CHR ''{'', begin_object), (CHR ''}'', end_object),
    (CHR '':'', name_separator), (CHR '','', value_separator)}"
  shows "token_read [c] s (\<lambda>ty' lx. ty' = ty)"
proof (rule token_readI [OF refl])
  show "\<not> is_ws c" "c \<noteq> CHR ''/''" using assms by (auto simp: is_ws_def)
  fix lx assume lx: "lx_current lx = Some c" "reads lx ([] @ s)"
  have "scan_token lx = Ret (ty, lx)"
    using assms unfolding scan_token_def lx(1) by (elim insertE emptyE; simp)
  with lx(2) show "\<exists>ty' lx'. scan_token lx = Ret (ty', lx') \<and> reads lx' s \<and> ty' = ty" by simp
qed

lemma literal_loop_reads:
  "reads lx (cs @ s) \<Longrightarrow> \<exists>lx'. literal_loop cs lx = (True, lx') \<and> reads lx' s"
proof (induction cs arbitrary: lx)
  case (Cons c cs)
  then have "reads lx (c # cs @ s)" by simp
  note g = get_reads [OF this]
  then have "reads (lx_get lx) (cs @ s)" by simp
  from Cons.IH [OF this] g show ?case by (simp add: Let_def)
qed simp

lemma token_read_literal:
  assumes "(t, ty) \<in> {(''true'', literal_true), (''false'', literal_false), (''null'', literal_null)}"
  shows "token_read t s (\<lambda>ty' lx. ty' = ty)"
proof -
  obtain c u where t: "t = c # u" using assms by auto
  have "scan_token lx = scan_literal t ty lx" "\<not> is_ws c" "c \<noteq> CHR ''/''" if "lx_current lx = Some c" for lx
    using assms unfolding scan_token_def that by (elim insertE emptyE; simp add: t is_ws_def)+
  moreover have "\<not> is_ws c" "c \<noteq> CHR ''/''" using assms by (auto simp: is_ws_def t)
  ultimately show ?thesis
    by (intro token_readI [OF t]) (auto simp: scan_literal_def t dest!: literal_loop_reads)
qed

lemma token_read_string:
  assumes "string_text v t"
  shows "token_read (CHR 0x22 # t @ [CHR 0x22]) s (\<lambda>ty lx. ty = value_string \<and> lx_buffer lx = v)"
proof (rule token_readI [OF refl])
  fix lx assume lx: "lx_current lx = Some CHR 0x22" "reads lx ((t @ [CHR 0x22]) @ s)"
  then have "reads (lx_reset lx) (t @ CHR 0x22 # s)" by simp
  from scan_string_loop_text [OF assms this] lx
  show "\<exists>ty lx'. scan_token lx = Ret (ty, lx') \<and> reads lx' s \<and> ty = value_string \<and> lx_buffer lx' = v"
    by (auto simp: scan_token_def scan_string_def Let_def)
qed (auto simp: is_ws_def)

lemma token_read_number:
  assumes "numeral_ok n" and "stops s"
  shows "token_read (numeral_text n) s (holds_number (numeral_json n))"
proof -
  have "n_int n \<noteq> []" "digits (n_int n)" using assms(1) by (simp_all add: numeral_ok_def)
  then obtain d ds where int: "n_int n = d # ds" "is_digit d" by (cases "n_int n") auto
  obtain c t where c: "numeral_text n = c # t" "c = CHR ''-'' \<or> is_digit c"
    using int by (cases "n_negative n") (auto simp: numeral_text_def)
  have ne: "\<not> is_ws c" "c \<noteq> CHR ''/''" using c(2) by (auto simp: is_ws_def)
  show ?thesis
  proof (rule token_readI [OF c(1) ne])
    fix lx assume lx: "lx_current lx = Some c" "reads lx (t @ s)"
    have "c \<noteq> CHR ''['' \<and> c \<noteq> CHR '']'' \<and> c \<noteq> CHR ''{'' \<and> c \<noteq> CHR ''}'' \<and> c \<noteq> CHR '':'' \<and> c \<noteq> CHR '','' \<and>
        c \<noteq> CHR ''t'' \<and> c \<noteq> CHR ''f'' \<and> c \<noteq> CHR ''n'' \<and> c \<noteq> CHR 0x22"
      using c(2) by (intro conjI) auto
    then have "scan_token lx = scan_number lx" using c(2) unfolding scan_token_def lx(1) by (simp add: is_digit_int)
    with scan_number_numeral [OF assms(1) c(1) lx assms(2)]
    show "\<exists>ty lx'. scan_token lx = Ret (ty, lx') \<and> reads lx' s \<and> holds_number (numeral_json n) ty lx'" by auto
  qed
qed

end
