(* ===== verification/JsonComplete.thy ===== *)
theory JsonComplete
  imports JsonScanNumber
begin

text \<open>
  The parser returns the value of every text of the grammar.

  What is placed at the end of the pointer the handler holds is placed in the root; so the value of a
  container grows at its place with every element and member that has been read.
\<close>

section \<open>Placing values\<close>

lemma smap_put_put [simp]: "smap_put k v (smap_put k w m) = smap_put k v m"
  by (induction k w m rule: smap_put.induct) auto

lemma smap_put_emplace [simp]: "smap_put k v (smap_emplace k w m) = smap_put k v m"
  by (simp add: smap_emplace_def)

lemma map_of_smap_emplace_ne [simp]: "map_of (smap_emplace k v m) k \<noteq> None"
  by (simp add: smap_emplace_def)

lemma deref_append: "deref (p @ q) j = Option.bind (deref p j) (deref q)"
  by (induction p arbitrary: j) (auto split: step.splits json.splits option.splits)

lemma change_append: "change (p @ q) f j = change p (change q f) j"
  by (induction p arbitrary: j) (auto split: step.splits json.splits option.splits)

lemma deref_change: "deref p j = Some v \<Longrightarrow> deref p (change p f j) = Some (f v)"
  by (induction p arbitrary: j) (auto split: step.splits json.splits option.splits if_splits)

lemma change_change: "change p f (change p g j) = change p (\<lambda>v. f (g v)) j"
  by (induction p arbitrary: j)
    (auto split: step.splits json.splits option.splits simp: list_update_beyond, metis list_update_beyond not_le nth_list_update_eq)

lemma change_same: "deref p j = Some v \<Longrightarrow> f v = g v \<Longrightarrow> change p f j = change p g j"
  by (induction p arbitrary: j) (auto split: step.splits json.splits option.splits if_splits)

text \<open>Where the next value goes, and the root with a value there.\<close>

definition next_pointer :: "sax_dom \<Rightarrow> step list" where
  "next_pointer d = (case ref_stack d of
       [] \<Rightarrow> []
     | p # _ \<Rightarrow> (case deref p (dom_root d) of
           Some (JArr js) \<Rightarrow> p @ [Index (length js)]
         | _ \<Rightarrow> the (object_element d)))"

definition place :: "json \<Rightarrow> sax_dom \<Rightarrow> json" where
  "place v d = (case ref_stack d of
       [] \<Rightarrow> v
     | p # _ \<Rightarrow> (case deref p (dom_root d) of
           Some (JArr js) \<Rightarrow> change p (\<lambda>_. JArr (js @ [v])) (dom_root d)
         | _ \<Rightarrow> change (the (object_element d)) (\<lambda>_. v) (dom_root d)))"

definition ready :: "sax_dom \<Rightarrow> bool" where
  "ready d \<longleftrightarrow> (case ref_stack d of
       [] \<Rightarrow> True
     | p # _ \<Rightarrow> (\<exists>js. deref p (dom_root d) = Some (JArr js)) \<or>
         (\<exists>m k. deref p (dom_root d) = Some (JObj m) \<and> object_element d = Some (p @ [Key k]) \<and> map_of m k \<noteq> None))"

lemma handle_value_ready: "ready d \<Longrightarrow> handle_value v d = Ret (next_pointer d, d\<lparr>dom_root := place v d\<rparr>)"
  by (auto simp: handle_value_def ready_def next_pointer_def place_def split: list.splits)

lemma place_deref: "ready d \<Longrightarrow> deref (next_pointer d) (place v d) = Some v"
  by (auto simp: ready_def next_pointer_def place_def deref_append change_append deref_change split: list.splits)

lemma change_place: "ready d \<Longrightarrow> change (next_pointer d) f (place v d) = place (f v) d"
  by (auto simp: ready_def next_pointer_def place_def change_append change_change split: list.splits
      intro!: change_same)

text \<open>The handler inside a container whose value is \<open>v\<close> so far.\<close>

definition inside :: "sax_dom \<Rightarrow> json \<Rightarrow> sax_dom \<Rightarrow> bool" where
  "inside d0 v d \<longleftrightarrow> ready d0 \<and> dom_root d = place v d0 \<and> ref_stack d = next_pointer d0 # ref_stack d0"

definition placed :: "sax_dom \<Rightarrow> json \<Rightarrow> sax_dom \<Rightarrow> bool" where
  "placed d0 v d \<longleftrightarrow> dom_root d = place v d0 \<and> ref_stack d = ref_stack d0"

lemma sax_value_placed: "ready d \<Longrightarrow> \<exists>d'. sax_value v d = Ret d' \<and> placed d v d'"
  by (simp add: sax_value_def handle_value_ready placed_def)

lemma start_inside:
  assumes "ready d"
  shows "\<exists>d'. start_object d = Ret d' \<and> inside d (JObj []) d'" and "\<exists>d'. start_array d = Ret d' \<and> inside d (JArr []) d'"
  using assms by (simp_all add: start_object_def start_array_def handle_value_ready inside_def)

lemma inside_deref: "inside d0 v d \<Longrightarrow> deref (next_pointer d0) (dom_root d) = Some v"
  by (simp add: inside_def place_deref)

lemma end_inside:
  "inside d0 (JObj m) d \<Longrightarrow> \<exists>d'. sax_end_object d = Ret d' \<and> placed d0 (JObj m) d'"
  "inside d0 (JArr js) d \<Longrightarrow> \<exists>d'. sax_end_array d = Ret d' \<and> placed d0 (JArr js) d'"
  using inside_deref [of d0 _ d]
  by (simp_all add: sax_end_object_def sax_end_array_def placed_def) (simp_all add: inside_def)

lemma inside_array:
  assumes "inside d0 (JArr js) d"
  shows "ready d" and "placed d v d' \<Longrightarrow> inside d0 (JArr (js @ [v])) d'"
  using assms inside_deref [OF assms]
  by (auto simp: ready_def inside_def placed_def place_def [of v d] change_place)

lemma inside_key:
  assumes "inside d0 (JObj m) d"
  shows "\<exists>d'. sax_key k d = Ret d' \<and> ready d' \<and> (\<forall>v d''. placed d' v d'' \<longrightarrow> inside d0 (JObj (smap_put k v m)) d'')"
proof -
  let ?m = "smap_emplace k JNull m"
  define d' where "d' = d\<lparr>dom_root := place (JObj ?m) d0, object_element := Some (next_pointer d0 @ [Key k])\<rparr>"
  have d: "ready d0" "dom_root d = place (JObj m) d0" "ref_stack d = next_pointer d0 # ref_stack d0"
    using assms by (simp_all add: inside_def)
  have key: "sax_key k d = Ret d'"
    using d inside_deref [OF assms] change_place [OF d(1)] by (simp add: sax_key_def d'_def)
  have deref: "deref (next_pointer d0) (dom_root d') = Some (JObj ?m)"
    using place_deref [OF d(1)] by (simp add: d'_def)
  obtain w where w: "map_of ?m k = Some w" using map_of_smap_emplace_ne [of k JNull m] by blast
  have "ready d'" using deref d(3) w by (simp add: ready_def d'_def)
  moreover have "inside d0 (JObj (smap_put k v m)) d''" if "placed d' v d''" for v d''
  proof -
    have "place v d' = change (next_pointer d0) (change [Key k] (\<lambda>_. v)) (place (JObj ?m) d0)"
      using deref d(3) unfolding place_def [of v d'] by (simp add: d'_def change_append)
    also have "\<dots> = place (JObj (smap_put k v m)) d0"
      using d(1) w by (simp add: change_place)
    finally show ?thesis using that d by (simp add: placed_def inside_def d'_def)
  qed
  ultimately show ?thesis using key by blast
qed

section \<open>Rounds of the parser\<close>

abbreviation parser_at :: "token_type \<Rightarrow> lexer \<Rightarrow> bool list \<Rightarrow> bool \<Rightarrow> sax_dom \<Rightarrow> parser" where
  "parser_at ty lx S skip d \<equiv> \<lparr>pr_token = ty, pr_lexer = lx, pr_states = S, pr_skip = skip, pr_dom = d\<rparr>"

lemma get_token_at:
  "reads lx s \<Longrightarrow> scan_behind_bom lx = Ret (ty', lx') \<Longrightarrow>
    get_token (parser_at ty lx S skip d) = Ret (parser_at ty' lx' S skip d)"
  by (simp add: get_token_def scan_reads)

lemma sax_at: "f d = Ret d' \<Longrightarrow> sax f (parser_at ty lx S skip d) = Ret (parser_at ty lx S skip d')"
  by (simp add: sax_def)

text \<open>A complete value is followed by the round behind a value.\<close>

lemma loop_complete:
  assumes "parse_value (parser_at ty lx S False d) = Ret (True, parser_at ty' lx' S False d')"
  shows "parse_loop (parser_at ty lx S False d) = parse_loop (parser_at ty' lx' S True d')"
  using assms by (simp add: parse_loop.simps parse_round_def)

lemma loop_incomplete:
  assumes "parse_value (parser_at ty lx S False d) = Ret (False, s)"
  shows "parse_loop (parser_at ty lx S False d) = parse_loop s"
  using assms by (subst parse_loop.simps) (simp add: parse_round_def)

lemma loop_behind:
  assumes "parse_behind (parser_at ty lx S False d) = Ret (False, s)"
  shows "parse_loop (parser_at ty lx S True d) = parse_loop s"
  using assms by (subst parse_loop.simps) (simp add: parse_round_def)

lemma loop_end:
  "parse_loop (parser_at ty lx [] True d) = Ret (parser_at ty lx [] False d)"
  by (subst parse_loop.simps) (simp add: parse_round_def parse_behind_def)

text \<open>The claims: the text of a value, of elements and of members takes the loop to behind it.\<close>

definition value_parsed :: "json \<Rightarrow> string \<Rightarrow> bool" where
  "value_parsed j t \<longleftrightarrow> (\<forall>w lx r S d. ws w \<longrightarrow> lexer_at lx (w @ t @ r) \<longrightarrow> stops r \<longrightarrow> ready d \<longrightarrow>
     (\<exists>ty lx1. scan_behind_bom lx = Ret (ty, lx1) \<and> ty \<noteq> end_array \<and> ty \<noteq> end_object \<and>
        (\<exists>ty2 lx2 d2. reads lx2 r \<and> placed d j d2 \<and>
           parse_loop (parser_at ty lx1 S False d) = parse_loop (parser_at ty2 lx2 S True d2))))"

definition elements_parsed :: "json list \<Rightarrow> string \<Rightarrow> bool" where
  "elements_parsed js t \<longleftrightarrow> (\<forall>lx r S d0 d xs. lexer_at lx (t @ CHR '']'' # r) \<longrightarrow> inside d0 (JArr xs) d \<longrightarrow>
     (\<exists>ty lx1. scan_behind_bom lx = Ret (ty, lx1) \<and> ty \<noteq> end_array \<and>
        (\<exists>ty2 lx2 d2. reads lx2 r \<and> placed d0 (JArr (xs @ js)) d2 \<and>
           parse_loop (parser_at ty lx1 (True # S) False d) = parse_loop (parser_at ty2 lx2 S True d2))))"

definition members_parsed :: "(string \<times> json) list \<Rightarrow> string \<Rightarrow> bool" where
  "members_parsed m t \<longleftrightarrow> (\<forall>lx r S d0 d m0. lexer_at lx (t @ CHR ''}'' # r) \<longrightarrow> inside d0 (JObj m0) d \<longrightarrow>
     (\<exists>lx1. scan_behind_bom lx = Ret (value_string, lx1) \<and>
        (\<forall>S0. \<exists>lx2 d1 s. parse_key (parser_at value_string lx1 S0 False d) = Ret (parser_at name_separator lx2 S0 False d1) \<and>
           get_token (parser_at name_separator lx2 (False # S) False d1) = Ret s \<and>
           (\<exists>ty3 lx3 d3. reads lx3 r \<and> placed d0 (JObj (fold (\<lambda>(k, v). smap_put k v) m m0)) d3 \<and>
              parse_loop s = parse_loop (parser_at ty3 lx3 S True d3)))))"

lemma value_parsedI:
  assumes "\<And>r. stops r \<Longrightarrow> token_read t r (\<lambda>ty lx. ty \<noteq> end_array \<and> ty \<noteq> end_object \<and>
      (\<forall>S d. ready d \<longrightarrow> (\<exists>d'. placed d j d' \<and>
         parse_value (parser_at ty lx S False d) = Ret (True, parser_at ty lx S False d'))))"
  shows "value_parsed j t"
  unfolding value_parsed_def
proof (intro allI impI)
  fix w lx r S d
  assume a: "ws w" "lexer_at lx (w @ t @ r)" "stops r" "ready d"
  with assms [OF a(3)] obtain ty l1 d1 where l1: "scan_behind_bom lx = Ret (ty, l1)" "reads l1 r" "ty \<noteq> end_array"
    "ty \<noteq> end_object" "placed d j d1" "parse_value (parser_at ty l1 S False d) = Ret (True, parser_at ty l1 S False d1)"
    unfolding token_read_def by meson
  from loop_complete [OF l1(6)] l1
  show "\<exists>ty lx1. scan_behind_bom lx = Ret (ty, lx1) \<and> ty \<noteq> end_array \<and> ty \<noteq> end_object \<and>
      (\<exists>ty2 lx2 d2. reads lx2 r \<and> placed d j d2 \<and>
         parse_loop (parser_at ty lx1 S False d) = parse_loop (parser_at ty2 lx2 S True d2))" by blast
qed

lemma token_read_mono: "token_read t s P \<Longrightarrow> (\<And>ty lx. P ty lx \<Longrightarrow> Q ty lx) \<Longrightarrow> token_read t s Q"
  unfolding token_read_def by meson

text \<open>Scalar values.\<close>

lemma scalar_parsed:
  assumes "ready d" and "parse_value (parser_at ty lx S False d) =
      obind (sax (sax_value j) (parser_at ty lx S False d)) (\<lambda>s. Ret (True, s))"
  shows "\<exists>d'. placed d j d' \<and> parse_value (parser_at ty lx S False d) = Ret (True, parser_at ty lx S False d')"
proof -
  obtain d' where d': "sax_value j d = Ret d'" "placed d j d'" using sax_value_placed [OF assms(1)] by blast
  with assms(2) show ?thesis by (auto simp: sax_def)
qed

lemma literal_parsed:
  assumes "(t, ty, j) \<in> {(''true'', literal_true, JBool True), (''false'', literal_false, JBool False), (''null'', literal_null, JNull)}"
  shows "value_parsed j t"
proof (rule value_parsedI, rule token_read_mono [OF token_read_literal [of t ty]])
  show "(t, ty) \<in> {(''true'', literal_true), (''false'', literal_false), (''null'', literal_null)}" using assms by auto
  fix ty' and lx :: lexer assume "ty' = ty"
  with assms show "ty' \<noteq> end_array \<and> ty' \<noteq> end_object \<and> (\<forall>S d. ready d \<longrightarrow> (\<exists>d'. placed d j d' \<and>
      parse_value (parser_at ty' lx S False d) = Ret (True, parser_at ty' lx S False d')))"
    by (intro conjI allI impI scalar_parsed) (auto simp: parse_value_def)
qed

lemma string_parsed:
  assumes "string_text v t"
  shows "value_parsed (JStr v) (CHR 0x22 # t @ [CHR 0x22])"
proof (rule value_parsedI, rule token_read_mono [OF token_read_string [OF assms]])
  fix ty and lx :: lexer assume "ty = value_string \<and> lx_buffer lx = v"
  then show "ty \<noteq> end_array \<and> ty \<noteq> end_object \<and> (\<forall>S d. ready d \<longrightarrow> (\<exists>d'. placed d (JStr v) d' \<and>
      parse_value (parser_at ty lx S False d) = Ret (True, parser_at ty lx S False d')))"
    by (intro conjI allI impI scalar_parsed) (auto simp: parse_value_def)
qed

lemma number_parsed:
  assumes "numeral_ok n" and "is_finite (numeral_dbl n)"
  shows "value_parsed (numeral_json n) (numeral_text n)"
proof (rule value_parsedI)
  fix r assume "stops r"
  show "token_read (numeral_text n) r (\<lambda>ty lx. ty \<noteq> end_array \<and> ty \<noteq> end_object \<and>
      (\<forall>S d. ready d \<longrightarrow> (\<exists>d'. placed d (numeral_json n) d' \<and>
         parse_value (parser_at ty lx S False d) = Ret (True, parser_at ty lx S False d'))))"
  proof (rule token_read_mono [OF token_read_number [OF assms(1) \<open>stops r\<close>]])
    fix ty and lx :: lexer assume "holds_number (numeral_json n) ty lx"
    moreover have "numeral_json n = JFloat x \<Longrightarrow> is_finite x" for x
      using assms(2) by (auto simp: numeral_json_def Let_def split: if_splits)
    ultimately show "ty \<noteq> end_array \<and> ty \<noteq> end_object \<and> (\<forall>S d. ready d \<longrightarrow> (\<exists>d'. placed d (numeral_json n) d' \<and>
        parse_value (parser_at ty lx S False d) = Ret (True, parser_at ty lx S False d')))"
      by (intro conjI allI impI scalar_parsed) (auto simp: parse_value_def holds_number_def split: json.splits)
  qed
qed

text \<open>What may stand behind a value.\<close>

lemma stops_behind: "ws w \<Longrightarrow> c \<in> {CHR '','', CHR '']'', CHR ''}''} \<Longrightarrow> stops (w @ c # r)"
  by (cases w) (auto simp: stops_def is_ws_iff)

lemma stops_ws: "ws w \<Longrightarrow> tail_end t \<Longrightarrow> stops (w @ t)"
  by (cases w; cases t) (auto simp: stops_def is_ws_iff tail_end_def is_digit_int)

lemma structural_read:
  assumes "(c, ty) \<in> {(CHR ''['', begin_array), (CHR '']'', end_array), (CHR ''{'', begin_object), (CHR ''}'', end_object),
    (CHR '':'', name_separator), (CHR '','', value_separator)}" and "ws w" and "lexer_at lx (w @ c # s)"
  shows "\<exists>lx'. scan_behind_bom lx = Ret (ty, lx') \<and> reads lx' s"
  using token_read_structural [OF assms(1), of s] assms(2,3) unfolding token_read_def by fastforce

section \<open>Arrays\<close>

lemma empty_array_parsed: "ws v \<Longrightarrow> value_parsed (JArr []) (CHR ''['' # v @ '']'')"
  unfolding value_parsed_def
proof (intro allI impI)
  fix w lx r S d
  assume v: "ws v" and a: "ws w" "lexer_at lx (w @ (CHR ''['' # v @ '']'') @ r)" "ready d"
  obtain l1 where l1: "scan_behind_bom lx = Ret (begin_array, l1)" "reads l1 (v @ CHR '']'' # r)"
    using structural_read [of "CHR ''[''" begin_array w lx "v @ CHR '']'' # r"] a by auto
  obtain l2 where l2: "scan_behind_bom l1 = Ret (end_array, l2)" "reads l2 r"
    using structural_read [of "CHR '']''" end_array v l1 r] v reads_at [OF l1(2)] by auto
  obtain d1 where d1: "start_array d = Ret d1" "inside d (JArr []) d1" using start_inside(2) [OF a(3)] by blast
  obtain d2 where d2: "sax_end_array d1 = Ret d2" "placed d (JArr []) d2" using end_inside(2) [OF d1(2)] by blast
  have "parse_value (parser_at begin_array l1 S False d) = Ret (True, parser_at end_array l2 S False d2)"
    using d1(1) d2(1) get_token_at [OF l1(2) l2(1)] by (simp add: parse_value_def sax_def)
  from loop_complete [OF this] l1 l2 d2
  show "\<exists>ty lx1. scan_behind_bom lx = Ret (ty, lx1) \<and> ty \<noteq> end_array \<and> ty \<noteq> end_object \<and>
      (\<exists>ty2 lx2 d2. reads lx2 r \<and> placed d (JArr []) d2 \<and>
         parse_loop (parser_at ty lx1 S False d) = parse_loop (parser_at ty2 lx2 S True d2))" by auto
qed

lemma array_parsed: "elements_parsed js t \<Longrightarrow> value_parsed (JArr js) (CHR ''['' # t @ '']'')"
  unfolding value_parsed_def
proof (intro allI impI)
  fix w lx r S d
  assume js: "elements_parsed js t" and a: "ws w" "lexer_at lx (w @ (CHR ''['' # t @ '']'') @ r)" "ready d"
  obtain l1 where l1: "scan_behind_bom lx = Ret (begin_array, l1)" "reads l1 (t @ CHR '']'' # r)"
    using structural_read [of "CHR ''[''" begin_array w lx "t @ CHR '']'' # r"] a by auto
  obtain d1 where d1: "start_array d = Ret d1" "inside d (JArr []) d1" using start_inside(2) [OF a(3)] by blast
  from js reads_at [OF l1(2)] d1(2) obtain ty l2 ty3 l3 d3 where
    l2: "scan_behind_bom l1 = Ret (ty, l2)" "ty \<noteq> end_array" and
    l3: "reads l3 r" "placed d (JArr ([] @ js)) d3"
      "parse_loop (parser_at ty l2 (True # S) False d1) = parse_loop (parser_at ty3 l3 S True d3)"
    unfolding elements_parsed_def by meson
  have "parse_value (parser_at begin_array l1 S False d) = Ret (False, parser_at ty l2 (True # S) False d1)"
    using d1(1) l2(2) get_token_at [OF l1(2) l2(1)] by (simp add: parse_value_def sax_def)
  from loop_incomplete [OF this] l1 l3
  show "\<exists>ty lx1. scan_behind_bom lx = Ret (ty, lx1) \<and> ty \<noteq> end_array \<and> ty \<noteq> end_object \<and>
      (\<exists>ty2 lx2 d2. reads lx2 r \<and> placed d (JArr js) d2 \<and>
         parse_loop (parser_at ty lx1 S False d) = parse_loop (parser_at ty2 lx2 S True d2))" by auto
qed

text \<open>An element up to the byte \<open>c\<close> behind it.\<close>

lemma element_read:
  assumes "value_parsed j t" and "ws a" and "ws b" and "c \<in> {CHR '','', CHR '']'', CHR ''}''}" and "ready d"
    and "lexer_at lx (a @ t @ b @ c # s)"
  shows "\<exists>ty lx1 ty2 lx2 d2. scan_behind_bom lx = Ret (ty, lx1) \<and> ty \<noteq> end_array \<and> reads lx2 (b @ c # s) \<and>
    placed d j d2 \<and> parse_loop (parser_at ty lx1 S False d) = parse_loop (parser_at ty2 lx2 S True d2)"
  using assms(1,2,5,6) stops_behind [OF assms(3,4), of s] unfolding value_parsed_def by meson

lemma element_parsed:
  assumes "value_parsed j t" and "ws a" and "ws b"
  shows "elements_parsed [j] (a @ t @ b)"
  unfolding elements_parsed_def
proof (intro allI impI)
  fix lx r S d0 d xs
  assume l: "lexer_at lx ((a @ t @ b) @ CHR '']'' # r)" and d: "inside d0 (JArr xs) d"
  have "lexer_at lx (a @ t @ b @ CHR '']'' # r)" using l by simp
  from element_read [OF assms _ inside_array(1) [OF d] this, of "True # S"]
  obtain ty l1 ty2 l2 d2 where l1: "scan_behind_bom lx = Ret (ty, l1)" "ty \<noteq> end_array"
    and l2: "reads l2 (b @ CHR '']'' # r)" "placed d j d2"
      "parse_loop (parser_at ty l1 (True # S) False d) = parse_loop (parser_at ty2 l2 (True # S) True d2)" by blast
  obtain l3 where l3: "scan_behind_bom l2 = Ret (end_array, l3)" "reads l3 r"
    using structural_read [of "CHR '']''" end_array b l2 r] assms(3) reads_at [OF l2(1)] by auto
  obtain d3 where d3: "sax_end_array d2 = Ret d3" "placed d0 (JArr (xs @ [j])) d3"
    using end_inside(2) [OF inside_array(2) [OF d l2(2)]] by blast
  have "parse_behind (parser_at ty2 l2 (True # S) False d2) = Ret (False, parser_at end_array l3 S True d3)"
    using get_token_at [OF l2(1) l3(1)] d3(1) by (simp add: parse_behind_def sax_def)
  from loop_behind [OF this] l1 l2(3) l3(2) d3(2)
  show "\<exists>ty lx1. scan_behind_bom lx = Ret (ty, lx1) \<and> ty \<noteq> end_array \<and>
      (\<exists>ty2 lx2 d2. reads lx2 r \<and> placed d0 (JArr (xs @ [j])) d2 \<and>
         parse_loop (parser_at ty lx1 (True # S) False d) = parse_loop (parser_at ty2 lx2 S True d2))" by auto
qed

lemma elements_parsed_Cons:
  assumes "value_parsed j t" and "ws a" and "ws b" and "elements_parsed js u"
  shows "elements_parsed (j # js) (a @ t @ b @ CHR '','' # u)"
  unfolding elements_parsed_def
proof (intro allI impI)
  fix lx r S d0 d xs
  assume l: "lexer_at lx ((a @ t @ b @ CHR '','' # u) @ CHR '']'' # r)" and d: "inside d0 (JArr xs) d"
  have "lexer_at lx (a @ t @ b @ CHR '','' # u @ CHR '']'' # r)" using l by simp
  from element_read [OF assms(1-3) _ inside_array(1) [OF d] this, of "True # S"]
  obtain ty l1 ty2 l2 d2 where l1: "scan_behind_bom lx = Ret (ty, l1)" "ty \<noteq> end_array"
    and l2: "reads l2 (b @ CHR '','' # u @ CHR '']'' # r)" "placed d j d2"
      "parse_loop (parser_at ty l1 (True # S) False d) = parse_loop (parser_at ty2 l2 (True # S) True d2)" by blast
  obtain l3 where l3: "scan_behind_bom l2 = Ret (value_separator, l3)" "reads l3 (u @ CHR '']'' # r)"
    using structural_read [of "CHR '',''" value_separator b l2 "u @ CHR '']'' # r"] assms(3) reads_at [OF l2(1)] by auto
  from assms(4) reads_at [OF l3(2)] inside_array(2) [OF d l2(2)] obtain ty4 l4 ty5 l5 d5 where
    l4: "scan_behind_bom l3 = Ret (ty4, l4)" and
    l5: "reads l5 r" "placed d0 (JArr ((xs @ [j]) @ js)) d5"
      "parse_loop (parser_at ty4 l4 (True # S) False d2) = parse_loop (parser_at ty5 l5 S True d5)"
    unfolding elements_parsed_def by meson
  have "parse_behind (parser_at ty2 l2 (True # S) False d2) = Ret (False, parser_at ty4 l4 (True # S) False d2)"
    using get_token_at [OF l2(1) l3(1)] get_token_at [OF l3(2) l4] by (simp add: parse_behind_def)
  from loop_behind [OF this] l1 l2(3) l5
  show "\<exists>ty lx1. scan_behind_bom lx = Ret (ty, lx1) \<and> ty \<noteq> end_array \<and>
      (\<exists>ty2 lx2 d2. reads lx2 r \<and> placed d0 (JArr (xs @ j # js)) d2 \<and>
         parse_loop (parser_at ty lx1 (True # S) False d) = parse_loop (parser_at ty2 lx2 S True d2))" by auto
qed

section \<open>Objects\<close>

lemma empty_object_parsed: "ws v \<Longrightarrow> value_parsed (JObj []) (CHR ''{'' # v @ ''}'')"
  unfolding value_parsed_def
proof (intro allI impI)
  fix w lx r S d
  assume v: "ws v" and a: "ws w" "lexer_at lx (w @ (CHR ''{'' # v @ ''}'') @ r)" "ready d"
  obtain l1 where l1: "scan_behind_bom lx = Ret (begin_object, l1)" "reads l1 (v @ CHR ''}'' # r)"
    using structural_read [of "CHR ''{''" begin_object w lx "v @ CHR ''}'' # r"] a by auto
  obtain l2 where l2: "scan_behind_bom l1 = Ret (end_object, l2)" "reads l2 r"
    using structural_read [of "CHR ''}''" end_object v l1 r] v reads_at [OF l1(2)] by auto
  obtain d1 where d1: "start_object d = Ret d1" "inside d (JObj []) d1" using start_inside(1) [OF a(3)] by blast
  obtain d2 where d2: "sax_end_object d1 = Ret d2" "placed d (JObj []) d2" using end_inside(1) [OF d1(2)] by blast
  have "parse_value (parser_at begin_object l1 S False d) = Ret (True, parser_at end_object l2 S False d2)"
    using d1(1) d2(1) get_token_at [OF l1(2) l2(1)] by (simp add: parse_value_def sax_def)
  from loop_complete [OF this] l1 l2 d2
  show "\<exists>ty lx1. scan_behind_bom lx = Ret (ty, lx1) \<and> ty \<noteq> end_array \<and> ty \<noteq> end_object \<and>
      (\<exists>ty2 lx2 d2. reads lx2 r \<and> placed d (JObj []) d2 \<and>
         parse_loop (parser_at ty lx1 S False d) = parse_loop (parser_at ty2 lx2 S True d2))" by auto
qed

lemma object_parsed: "members_parsed m t \<Longrightarrow> value_parsed (JObj (members_value m)) (CHR ''{'' # t @ ''}'')"
  unfolding value_parsed_def
proof (intro allI impI)
  fix w lx r S d
  assume m: "members_parsed m t" and a: "ws w" "lexer_at lx (w @ (CHR ''{'' # t @ ''}'') @ r)" "ready d"
  obtain l1 where l1: "scan_behind_bom lx = Ret (begin_object, l1)" "reads l1 (t @ CHR ''}'' # r)"
    using structural_read [of "CHR ''{''" begin_object w lx "t @ CHR ''}'' # r"] a by auto
  obtain d1 where d1: "start_object d = Ret d1" "inside d (JObj []) d1" using start_inside(1) [OF a(3)] by blast
  from m reads_at [OF l1(2)] d1(2) obtain l2 l3 d3 s ty4 l4 d4 where
    l2: "scan_behind_bom l1 = Ret (value_string, l2)" and
    l3: "parse_key (parser_at value_string l2 S False d1) = Ret (parser_at name_separator l3 S False d3)"
      "get_token (parser_at name_separator l3 (False # S) False d3) = Ret s" and
    l4: "reads l4 r" "placed d (JObj (fold (\<lambda>(k, v). smap_put k v) m [])) d4"
      "parse_loop s = parse_loop (parser_at ty4 l4 S True d4)"
    unfolding members_parsed_def by meson
  have "parse_value (parser_at begin_object l1 S False d) = Ret (False, s)"
    using d1(1) get_token_at [OF l1(2) l2(1)] l3 by (simp add: parse_value_def sax_def)
  from loop_incomplete [OF this] l1 l4
  show "\<exists>ty lx1. scan_behind_bom lx = Ret (ty, lx1) \<and> ty \<noteq> end_array \<and> ty \<noteq> end_object \<and>
      (\<exists>ty2 lx2 d2. reads lx2 r \<and> placed d (JObj (members_value m)) d2 \<and>
         parse_loop (parser_at ty lx1 S False d) = parse_loop (parser_at ty2 lx2 S True d2))"
    by (auto simp: members_value_def)
qed

text \<open>A member up to the byte behind it.\<close>

lemma member_read:
  assumes "string_text k s" and "value_parsed j t" and "ws a" "ws b" "ws c" "ws e"
    and "x \<in> {CHR '','', CHR ''}''}" and "inside d0 (JObj m0) d"
    and "lexer_at lx (a @ CHR 0x22 # s @ CHR 0x22 # b @ CHR '':'' # c @ t @ e @ x # r)"
  shows "\<exists>lx1. scan_behind_bom lx = Ret (value_string, lx1) \<and>
    (\<forall>S0. \<exists>lx2 d1 q. parse_key (parser_at value_string lx1 S0 False d) = Ret (parser_at name_separator lx2 S0 False d1) \<and>
       get_token (parser_at name_separator lx2 (False # S) False d1) = Ret q \<and>
       (\<exists>ty3 lx3 d3. reads lx3 (e @ x # r) \<and> inside d0 (JObj (smap_put k j m0)) d3 \<and>
          parse_loop q = parse_loop (parser_at ty3 lx3 (False # S) True d3)))"
proof -
  let ?r1 = "b @ CHR '':'' # c @ t @ e @ x # r" and ?r2 = "c @ t @ e @ x # r"
  have "lexer_at lx (a @ (CHR 0x22 # s @ [CHR 0x22]) @ ?r1)" using assms(9) by simp
  with token_read_string [OF assms(1), of ?r1] assms(3) obtain l1 where
    l1: "scan_behind_bom lx = Ret (value_string, l1)" "reads l1 ?r1" "lx_buffer l1 = k"
    unfolding token_read_def by blast
  obtain l2 where l2: "scan_behind_bom l1 = Ret (name_separator, l2)" "reads l2 ?r2"
    using structural_read [of "CHR '':''" name_separator b l1 ?r2] assms(4) reads_at [OF l1(2)] by auto
  obtain d1 where d1: "sax_key k d = Ret d1" "ready d1"
    "\<And>v d''. placed d1 v d'' \<Longrightarrow> inside d0 (JObj (smap_put k v m0)) d''"
    using inside_key [OF assms(8), of k] by blast
  have x: "x \<in> {CHR '','', CHR '']'', CHR ''}''}" using assms(7) by auto
  from element_read [OF assms(2,5,6) x d1(2) reads_at [OF l2(2)], of "False # S"]
  obtain ty l3 ty4 l4 d4 where l3: "scan_behind_bom l2 = Ret (ty, l3)" and
    l4: "reads l4 (e @ x # r)" "placed d1 j d4"
      "parse_loop (parser_at ty l3 (False # S) False d1) = parse_loop (parser_at ty4 l4 (False # S) True d4)" by blast
  have "parse_key (parser_at value_string l1 S0 False d) = Ret (parser_at name_separator l2 S0 False d1)" for S0
    using l1 d1(1) get_token_at [OF l1(2) l2(1)] by (simp add: parse_key_def sax_def)
  moreover have "get_token (parser_at name_separator l2 (False # S) False d1) = Ret (parser_at ty l3 (False # S) False d1)"
    by (rule get_token_at [OF l2(2) l3])
  ultimately show ?thesis using l1(1) l4(1,3) d1(3) [OF l4(2)] by blast
qed

lemma member_parsed:
  assumes "string_text k s" and "value_parsed j t" and "ws a" "ws b" "ws c" "ws e"
  shows "members_parsed [(k, j)] (a @ CHR 0x22 # s @ CHR 0x22 # b @ CHR '':'' # c @ t @ e)"
  unfolding members_parsed_def
proof (intro allI impI)
  fix lx r S d0 d m0
  assume l: "lexer_at lx ((a @ CHR 0x22 # s @ CHR 0x22 # b @ CHR '':'' # c @ t @ e) @ CHR ''}'' # r)"
    and d: "inside d0 (JObj m0) d"
  have "lexer_at lx (a @ CHR 0x22 # s @ CHR 0x22 # b @ CHR '':'' # c @ t @ e @ CHR ''}'' # r)" using l by simp
  from member_read [OF assms _ d this, of S] obtain l1 where l1: "scan_behind_bom lx = Ret (value_string, l1)"
    "\<forall>S0. \<exists>lx2 d1 q. parse_key (parser_at value_string l1 S0 False d) = Ret (parser_at name_separator lx2 S0 False d1) \<and>
       get_token (parser_at name_separator lx2 (False # S) False d1) = Ret q \<and>
       (\<exists>ty3 lx3 d3. reads lx3 (e @ CHR ''}'' # r) \<and> inside d0 (JObj (smap_put k j m0)) d3 \<and>
          parse_loop q = parse_loop (parser_at ty3 lx3 (False # S) True d3))" by blast
  have behind: "\<exists>ty lx' d'. reads lx' r \<and> placed d0 (JObj (smap_put k j m0)) d' \<and>
      parse_loop (parser_at ty3 l3 (False # S) True d3) = parse_loop (parser_at ty lx' S True d')"
    if l3: "reads l3 (e @ CHR ''}'' # r)" and d3: "inside d0 (JObj (smap_put k j m0)) d3" for ty3 l3 d3
  proof -
    obtain l4 where l4: "scan_behind_bom l3 = Ret (end_object, l4)" "reads l4 r"
      using structural_read [of "CHR ''}''" end_object e l3 r] assms(6) reads_at [OF l3] by auto
    obtain d4 where d4: "sax_end_object d3 = Ret d4" "placed d0 (JObj (smap_put k j m0)) d4"
      using end_inside(1) [OF d3] by blast
    have "parse_behind (parser_at ty3 l3 (False # S) False d3) = Ret (False, parser_at end_object l4 S True d4)"
      using get_token_at [OF l3 l4(1)] d4(1) by (simp add: parse_behind_def sax_def)
    from loop_behind [OF this] l4(2) d4(2) show ?thesis by blast
  qed
  show "\<exists>lx1. scan_behind_bom lx = Ret (value_string, lx1) \<and>
      (\<forall>S0. \<exists>lx2 d1 q. parse_key (parser_at value_string lx1 S0 False d) = Ret (parser_at name_separator lx2 S0 False d1) \<and>
         get_token (parser_at name_separator lx2 (False # S) False d1) = Ret q \<and>
         (\<exists>ty3 lx3 d3. reads lx3 r \<and> placed d0 (JObj (fold (\<lambda>(k, v). smap_put k v) [(k, j)] m0)) d3 \<and>
            parse_loop q = parse_loop (parser_at ty3 lx3 S True d3)))"
    using l1 by simp (metis behind)
qed

lemma members_parsed_Cons:
  assumes "string_text k s" and "value_parsed j t" and "ws a" "ws b" "ws c" "ws e" and "members_parsed m u"
  shows "members_parsed ((k, j) # m) (a @ CHR 0x22 # s @ CHR 0x22 # b @ CHR '':'' # c @ t @ e @ CHR '','' # u)"
  unfolding members_parsed_def
proof (intro allI impI)
  fix lx r S d0 d m0
  let ?m = "fold (\<lambda>(k, v). smap_put k v) ((k, j) # m) m0"
  assume l: "lexer_at lx ((a @ CHR 0x22 # s @ CHR 0x22 # b @ CHR '':'' # c @ t @ e @ CHR '','' # u) @ CHR ''}'' # r)"
    and d: "inside d0 (JObj m0) d"
  have "lexer_at lx (a @ CHR 0x22 # s @ CHR 0x22 # b @ CHR '':'' # c @ t @ e @ CHR '','' # u @ CHR ''}'' # r)"
    using l by simp
  from member_read [OF assms(1-6) _ d this, of S] obtain l1 where l1: "scan_behind_bom lx = Ret (value_string, l1)"
    "\<forall>S0. \<exists>lx2 d1 q. parse_key (parser_at value_string l1 S0 False d) = Ret (parser_at name_separator lx2 S0 False d1) \<and>
       get_token (parser_at name_separator lx2 (False # S) False d1) = Ret q \<and>
       (\<exists>ty3 lx3 d3. reads lx3 (e @ CHR '','' # u @ CHR ''}'' # r) \<and> inside d0 (JObj (smap_put k j m0)) d3 \<and>
          parse_loop q = parse_loop (parser_at ty3 lx3 (False # S) True d3))" by blast
  have behind: "\<exists>ty lx' d'. reads lx' r \<and> placed d0 (JObj ?m) d' \<and>
      parse_loop (parser_at ty3 l3 (False # S) True d3) = parse_loop (parser_at ty lx' S True d')"
    if l3: "reads l3 (e @ CHR '','' # u @ CHR ''}'' # r)" and d3: "inside d0 (JObj (smap_put k j m0)) d3" for ty3 l3 d3
  proof -
    obtain l4 where l4: "scan_behind_bom l3 = Ret (value_separator, l4)" "reads l4 (u @ CHR ''}'' # r)"
      using structural_read [of "CHR '',''" value_separator e l3 "u @ CHR ''}'' # r"] assms(6) reads_at [OF l3] by auto
    from assms(7) reads_at [OF l4(2)] d3 obtain l5 l6 d6 q ty7 l7 d7 where
      l5: "scan_behind_bom l4 = Ret (value_string, l5)" and
      l6: "parse_key (parser_at value_string l5 (False # S) False d3) = Ret (parser_at name_separator l6 (False # S) False d6)"
        "get_token (parser_at name_separator l6 (False # S) False d6) = Ret q" and
      l7: "reads l7 r" "placed d0 (JObj (fold (\<lambda>(k, v). smap_put k v) m (smap_put k j m0))) d7"
        "parse_loop q = parse_loop (parser_at ty7 l7 S True d7)"
      unfolding members_parsed_def by meson
    have "parse_behind (parser_at ty3 l3 (False # S) False d3) = Ret (False, q)"
      using get_token_at [OF l3 l4(1)] get_token_at [OF l4(2) l5] l6 by (simp add: parse_behind_def)
    from loop_behind [OF this] l7 show ?thesis by auto
  qed
  show "\<exists>lx1. scan_behind_bom lx = Ret (value_string, lx1) \<and>
      (\<forall>S0. \<exists>lx2 d1 q. parse_key (parser_at value_string lx1 S0 False d) = Ret (parser_at name_separator lx2 S0 False d1) \<and>
         get_token (parser_at name_separator lx2 (False # S) False d1) = Ret q \<and>
         (\<exists>ty3 lx3 d3. reads lx3 r \<and> placed d0 (JObj ?m) d3 \<and>
            parse_loop q = parse_loop (parser_at ty3 lx3 S True d3)))"
    using l1 behind by metis
qed

section \<open>Texts\<close>

lemma texts_parsed:
  "value_text j t \<Longrightarrow> value_parsed j t"
  "elements_text js u \<Longrightarrow> elements_parsed js u"
  "members_text m v \<Longrightarrow> members_parsed m v"
proof (induction rule: value_text_elements_text_members_text.inducts)
  case t_null
  show ?case by (rule literal_parsed [of _ literal_null]) simp
next
  case t_true
  show ?case by (rule literal_parsed [of _ literal_true]) simp
next
  case t_false
  show ?case by (rule literal_parsed [of _ literal_false]) simp
qed (assumption | rule number_parsed string_parsed empty_array_parsed array_parsed empty_object_parsed object_parsed
    element_parsed elements_parsed_Cons member_parsed members_parsed_Cons)+

lemma value_text_hd:
  assumes "value_text j t"
  shows "t \<noteq> [] \<and> hd t \<noteq> CHR 0xEF"
  using assms
proof cases
  case (t_number n)
  then have "n_int n \<noteq> []" "digits (n_int n)" by (simp_all add: numeral_ok_def)
  then obtain d ds where int: "n_int n = d # ds" "is_digit d" by (cases "n_int n") auto
  then have "d \<noteq> CHR 0xEF" by (auto simp: is_digit_int)
  with int(1) t_number show ?thesis by (simp add: numeral_text_def)
qed auto

lemma document_hd: "document j text \<Longrightarrow> text = [] \<or> hd text \<noteq> CHR 0xEF"
proof -
  assume "document j text"
  then obtain a t b where a: "ws a" "value_text j t" "text = a @ t @ b" by (auto simp: document_def)
  show ?thesis
  proof (cases a)
    case Nil
    with a value_text_hd [OF a(2)] show ?thesis by (cases t) auto
  next
    case (Cons c w)
    with a show ?thesis by (auto simp: is_ws_iff)
  qed
qed

lemma parse_from:
  assumes "document j d" and "tail_end e" and "scan (new_lexer s False) = scan_behind_bom lx" and "lexer_at lx (d @ e)"
  shows "json_parse s = Ret j"
proof -
  obtain a t b where a: "ws a" "value_text j t" "ws b" "d = a @ t @ b" using assms(1) by (auto simp: document_def)
  have "ready new_dom" by (simp add: ready_def new_dom_def)
  with texts_parsed(1) [OF a(2)] a(1,4) assms(4) stops_ws [OF a(3) assms(2)]
  obtain ty l1 ty2 l2 d2 where l1: "scan_behind_bom lx = Ret (ty, l1)" and l2: "reads l2 (b @ e)" "placed new_dom j d2"
    "parse_loop (parser_at ty l1 [] False new_dom) = parse_loop (parser_at ty2 l2 [] True d2)"
    unfolding value_parsed_def by (metis append.assoc)
  obtain l3 where l3: "scan l2 = Ret (end_of_input, l3)" using scan_end [OF l2(1) a(3) assms(2)] by blast
  have "new_parser s = Ret (parser_at ty l1 [] False new_dom)"
    using assms(3) l1 by (simp add: new_parser_def get_token_def)
  moreover have "dom_root d2 = j" using l2(2) by (simp add: placed_def place_def new_dom_def)
  ultimately show ?thesis
    using l2(3) l3 by (simp add: json_parse_def loop_end get_token_def)
qed

text \<open>A text of the grammar is parsed to its value, whatever white space, escapes and notation of numbers it uses.\<close>

lemma text_parsed:
  assumes "text_of j text"
  shows "json_parse text = Ret j"
proof -
  obtain bom d e where t: "bom \<in> {[], [CHR 0xEF, CHR 0xBB, CHR 0xBF]}" "document j d" "tail_end e" "text = bom @ d @ e"
    using assms by (auto simp: text_of_def)
  have "d @ e = [] \<or> hd (d @ e) \<noteq> CHR 0xEF" using document_hd [OF t(2)] t(3) by (cases d) (auto simp: tail_end_def)
  then obtain lx where "scan (new_lexer text False) = scan_behind_bom lx" "lexer_at lx (d @ e)"
    using scan_first [of "d @ e"] t(1,4) by auto
  then show ?thesis by (rule parse_from [OF t(2,3)])
qed

lemma document_parsed: "document j text \<Longrightarrow> json_parse text = Ret j"
  by (rule text_parsed) (unfold text_of_def tail_end_def, metis append_Nil append_Nil2 insertI1)

end
