(* ===== verification/Dtoa.thy ===== *)
theory Dtoa
  imports Dbl
begin

text \<open>
  The text of a floating-point number in the JSON serializer: the namespace \<open>dtoa_impl\<close> and the
  function \<open>to_chars\<close> of \<open>json.hpp\<close>, the algorithm Grisu2.

  The unsigned 64-bit integers of the code are integers, and every operation that may wrap around does
  so in \<open>u64\<close>.  The digit buffer is the list of the digits written so far, as numbers
  (the code stores the characters), and a write beyond its end is undefined; so is an assertion that
  fails.  The binary exponents are between -1500 and 1500, which the code asserts.
\<close>

section \<open>Unsigned integers\<close>

definition u64 :: "int \<Rightarrow> int" where
  "u64 n = n mod 2 ^ 64"

section \<open>Numbers with a 64-bit significand\<close>

record diyfp =
  df :: int
  de :: int

definition diyfp_of :: "int \<Rightarrow> int \<Rightarrow> diyfp" where
  "diyfp_of f e = \<lparr>df = f, de = e\<rparr>"

definition diyfp_sub :: "diyfp \<Rightarrow> diyfp \<Rightarrow> diyfp outcome" where
  "diyfp_sub x y = asserted (de x = de y \<and> df x \<ge> df y) (Ret (diyfp_of (df x - df y) (de x)))"

text \<open>The upper half of the product of the significands, rounded.\<close>

definition diyfp_mul :: "diyfp \<Rightarrow> diyfp \<Rightarrow> diyfp" where
  "diyfp_mul x y =
     (let u_lo = df x mod 2 ^ 32; u_hi = df x div 2 ^ 32;
          v_lo = df y mod 2 ^ 32; v_hi = df y div 2 ^ 32;
          p0 = u64 (u_lo * v_lo); p1 = u64 (u_lo * v_hi); p2 = u64 (u_hi * v_lo); p3 = u64 (u_hi * v_hi);
          p0_hi = p0 div 2 ^ 32; p1_lo = p1 mod 2 ^ 32; p1_hi = p1 div 2 ^ 32;
          p2_lo = p2 mod 2 ^ 32; p2_hi = p2 div 2 ^ 32;
          Q = u64 (p0_hi + p1_lo + p2_lo);
          Q = u64 (Q + 2 ^ (64 - 32 - 1));
          h = u64 (p3 + p2_hi + p1_hi + Q div 2 ^ 32)
      in diyfp_of h (de x + de y + 64))"

function normalize_loop :: "int \<Rightarrow> int \<Rightarrow> diyfp" where
  "normalize_loop f e =
     (if 0 < f \<and> f < 2 ^ 63 then normalize_loop (2 * f) (e - 1) else diyfp_of f e)"
  by pat_completeness auto
termination
  by (relation "measure (\<lambda>(f, e). nat (2 ^ 63 - f))") auto

declare normalize_loop.simps [simp del]

definition normalize :: "diyfp \<Rightarrow> diyfp outcome" where
  "normalize x = asserted (df x \<noteq> 0) (Ret (normalize_loop (df x) (de x)))"

definition normalize_to :: "diyfp \<Rightarrow> int \<Rightarrow> diyfp outcome" where
  "normalize_to x target_exponent =
     (let delta = de x - target_exponent; shifted = u64 (df x * 2 ^ nat delta) in
      asserted (0 \<le> delta \<and> delta < 64 \<and> shifted div 2 ^ nat delta = df x)
        (Ret (diyfp_of shifted target_exponent)))"

section \<open>Boundaries\<close>

text \<open>The 64 bits of a positive number of the format: the biased exponent and the fraction.\<close>

definition kPrecision :: nat where "kPrecision = 53"
definition kBias :: int where "kBias = 1024 - 1 + (53 - 1)"
definition kMinExp :: int where "kMinExp = 1 - kBias"
definition kHiddenBit :: int where "kHiddenBit = 2 ^ (kPrecision - 1)"

definition reinterpret_bits :: "rat \<Rightarrow> int" where
  "reinterpret_bits value =
     (let m = significand value; e = ulp_exp value in
      if m < 2 ^ 52 then m else (e + 1075) * 2 ^ 52 + (m - 2 ^ 52))"

text \<open>The number and the middles between it and its two neighbours.\<close>

record boundaries =
  b_w :: diyfp
  b_minus :: diyfp
  b_plus :: diyfp

definition compute_boundaries :: "rat \<Rightarrow> boundaries outcome" where
  "compute_boundaries value = asserted (value > 0)
     (let bits = reinterpret_bits value;
          E = bits div 2 ^ (kPrecision - 1);
          F = bits mod kHiddenBit;
          v = (if E = 0 then diyfp_of F kMinExp else diyfp_of (F + kHiddenBit) (E - kBias));
          lower_boundary_is_closer = (F = 0 \<and> E > 1);
          m_plus = diyfp_of (u64 (2 * df v + 1)) (de v - 1);
          m_minus = (if lower_boundary_is_closer then diyfp_of (u64 (4 * df v - 1)) (de v - 2)
                     else diyfp_of (u64 (2 * df v - 1)) (de v - 1))
      in obind (normalize m_plus) (\<lambda>w_plus.
         obind (normalize_to m_minus (de w_plus)) (\<lambda>w_minus.
         obind (normalize v) (\<lambda>w. Ret \<lparr>b_w = w, b_minus = w_minus, b_plus = w_plus\<rparr>))))"

section \<open>Powers of ten\<close>

definition kAlpha :: int where "kAlpha = - 60"
definition kGamma :: int where "kGamma = - 32"

definition kCachedPowers :: "(int \<times> int \<times> int) list" where
  "kCachedPowers = [
    (0xAB70FE17C79AC6CA, - 1060, - 300), (0xFF77B1FCBEBCDC4F, - 1034, - 292), (0xBE5691EF416BD60C, - 1007, - 284),
    (0x8DD01FAD907FFC3C, - 980, - 276), (0xD3515C2831559A83, - 954, - 268), (0x9D71AC8FADA6C9B5, - 927, - 260),
    (0xEA9C227723EE8BCB, - 901, - 252), (0xAECC49914078536D, - 874, - 244), (0x823C12795DB6CE57, - 847, - 236),
    (0xC21094364DFB5637, - 821, - 228), (0x9096EA6F3848984F, - 794, - 220), (0xD77485CB25823AC7, - 768, - 212),
    (0xA086CFCD97BF97F4, - 741, - 204), (0xEF340A98172AACE5, - 715, - 196), (0xB23867FB2A35B28E, - 688, - 188),
    (0x84C8D4DFD2C63F3B, - 661, - 180), (0xC5DD44271AD3CDBA, - 635, - 172), (0x936B9FCEBB25C996, - 608, - 164),
    (0xDBAC6C247D62A584, - 582, - 156), (0xA3AB66580D5FDAF6, - 555, - 148), (0xF3E2F893DEC3F126, - 529, - 140),
    (0xB5B5ADA8AAFF80B8, - 502, - 132), (0x87625F056C7C4A8B, - 475, - 124), (0xC9BCFF6034C13053, - 449, - 116),
    (0x964E858C91BA2655, - 422, - 108), (0xDFF9772470297EBD, - 396, - 100), (0xA6DFBD9FB8E5B88F, - 369, - 92),
    (0xF8A95FCF88747D94, - 343, - 84), (0xB94470938FA89BCF, - 316, - 76), (0x8A08F0F8BF0F156B, - 289, - 68),
    (0xCDB02555653131B6, - 263, - 60), (0x993FE2C6D07B7FAC, - 236, - 52), (0xE45C10C42A2B3B06, - 210, - 44),
    (0xAA242499697392D3, - 183, - 36), (0xFD87B5F28300CA0E, - 157, - 28), (0xBCE5086492111AEB, - 130, - 20),
    (0x8CBCCC096F5088CC, - 103, - 12), (0xD1B71758E219652C, - 77, - 4), (0x9C40000000000000, - 50, 4),
    (0xE8D4A51000000000, - 24, 12), (0xAD78EBC5AC620000, 3, 20), (0x813F3978F8940984, 30, 28),
    (0xC097CE7BC90715B3, 56, 36), (0x8F7E32CE7BEA5C70, 83, 44), (0xD5D238A4ABE98068, 109, 52),
    (0x9F4F2726179A2245, 136, 60), (0xED63A231D4C4FB27, 162, 68), (0xB0DE65388CC8ADA8, 189, 76),
    (0x83C7088E1AAB65DB, 216, 84), (0xC45D1DF942711D9A, 242, 92), (0x924D692CA61BE758, 269, 100),
    (0xDA01EE641A708DEA, 295, 108), (0xA26DA3999AEF774A, 322, 116), (0xF209787BB47D6B85, 348, 124),
    (0xB454E4A179DD1877, 375, 132), (0x865B86925B9BC5C2, 402, 140), (0xC83553C5C8965D3D, 428, 148),
    (0x952AB45CFA97A0B3, 455, 156), (0xDE469FBD99A05FE3, 481, 164), (0xA59BC234DB398C25, 508, 172),
    (0xF6C69A72A3989F5C, 534, 180), (0xB7DCBF5354E9BECE, 561, 188), (0x88FCF317F22241E2, 588, 196),
    (0xCC20CE9BD35C78A5, 614, 204), (0x98165AF37B2153DF, 641, 212), (0xE2A0B5DC971F303A, 667, 220),
    (0xA8D9D1535CE3B396, 694, 228), (0xFB9B7CD9A4A7443C, 720, 236), (0xBB764C4CA7A44410, 747, 244),
    (0x8BAB8EEFB6409C1A, 774, 252), (0xD01FEF10A657842C, 800, 260), (0x9B10A4E5E9913129, 827, 268),
    (0xE7109BFBA19C0C9D, 853, 276), (0xAC2820D9623BF429, 880, 284), (0x80444B5E7AA7CF85, 907, 292),
    (0xBF21E44003ACDD2D, 933, 300), (0x8E679C2F5E44FF8F, 960, 308), (0xD433179D9C8CB841, 986, 316),
    (0x9E19DB92B4E31BA9, 1013, 324)]"

text \<open>A significand and a binary exponent, and the decimal exponent of the power they approximate.\<close>

definition get_cached_power_for_binary_exponent :: "int \<Rightarrow> (int \<times> int \<times> int) outcome" where
  "get_cached_power_for_binary_exponent e = asserted (- 1500 \<le> e \<and> e \<le> 1500)
     (let f = kAlpha - e - 1;
          k = (f * 78913) sdiv 2 ^ 18 + (if f > 0 then 1 else 0);
          index = (300 + k + (8 - 1)) sdiv 8
      in asserted (0 \<le> index \<and> index < int (length kCachedPowers))
        (case kCachedPowers ! nat index of (cf, ce, ck) \<Rightarrow>
           asserted (kAlpha \<le> ce + e + 64 \<and> ce + e + 64 \<le> kGamma) (Ret (cf, ce, ck))))"

text \<open>The largest power of ten up to a number, with its number of digits.\<close>

definition find_largest_pow10 :: "int \<Rightarrow> nat \<times> int" where
  "find_largest_pow10 n =
     (if n \<ge> 1000000000 then (10, 1000000000)
      else if n \<ge> 100000000 then (9, 100000000)
      else if n \<ge> 10000000 then (8, 10000000)
      else if n \<ge> 1000000 then (7, 1000000)
      else if n \<ge> 100000 then (6, 100000)
      else if n \<ge> 10000 then (5, 10000)
      else if n \<ge> 1000 then (4, 1000)
      else if n \<ge> 100 then (3, 100)
      else if n \<ge> 10 then (2, 10)
      else (1, 1))"

section \<open>Digits\<close>

text \<open>The last digit is decremented while this brings the number closer; the digit is not to be zero then.\<close>

fun round_loop :: "int \<Rightarrow> int \<Rightarrow> int \<Rightarrow> int \<Rightarrow> nat \<Rightarrow> nat outcome" where
  "round_loop dst delta rest ten_k d =
     (if rest < dst \<and> u64 (delta - rest) \<ge> ten_k \<and>
         (u64 (rest + ten_k) < dst \<or> u64 (dst - rest) > u64 (rest + ten_k - dst))
      then case d of 0 \<Rightarrow> Undef | Suc d' \<Rightarrow> round_loop dst delta (u64 (rest + ten_k)) ten_k d'
      else Ret d)"

declare round_loop.simps [simp del]

definition grisu2_round :: "nat list \<Rightarrow> int \<Rightarrow> int \<Rightarrow> int \<Rightarrow> int \<Rightarrow> nat list outcome" where
  "grisu2_round buf dst delta rest ten_k =
     asserted (buf \<noteq> [] \<and> dst \<le> delta \<and> rest \<le> delta \<and> ten_k > 0)
       (obind (round_loop dst delta rest ten_k (last buf)) (\<lambda>d. Ret (butlast buf @ [d])))"

text \<open>A digit is written behind the others, where the buffer has room.\<close>

definition put_digit :: "nat \<Rightarrow> nat list \<Rightarrow> nat \<Rightarrow> nat list outcome" where
  "put_digit room buf d = (if length buf < room then Ret (buf @ [d]) else Undef)"

text \<open>
  The digits of the integral part: the left result has reached the precision, with the number of the
  digits left out, the rest and the unit of the last digit.
\<close>

fun integral_digits ::
    "nat \<Rightarrow> nat \<Rightarrow> int \<Rightarrow> int \<Rightarrow> nat \<Rightarrow> int \<Rightarrow> int \<Rightarrow> nat list \<Rightarrow> ((nat list \<times> nat \<times> int \<times> int) + nat list) outcome" where
  "integral_digits room sh p2 delta 0 p1 pow10 buf = Ret (Inr buf)"
| "integral_digits room sh p2 delta (Suc n) p1 pow10 buf =
     (if pow10 = 0 then Undef
      else let d = p1 div pow10; r = p1 mod pow10 in
        asserted (d \<le> 9)
          (obind (put_digit room buf (nat d)) (\<lambda>buf.
           let rest = u64 (u64 (r * 2 ^ sh) + p2) in
           if rest \<le> delta then Ret (Inl (buf, n, rest, u64 (pow10 * 2 ^ sh)))
           else integral_digits room sh p2 delta n r (pow10 div 10) buf)))"

text \<open>The digits of the fractional part, with the scaled distances and the number of digits.\<close>

function fractional_digits ::
    "nat \<Rightarrow> nat \<Rightarrow> int \<Rightarrow> int \<Rightarrow> int \<Rightarrow> nat \<Rightarrow> nat list \<Rightarrow> (nat list \<times> nat \<times> int \<times> int \<times> int) outcome" where
  "fractional_digits room sh p2 delta dst m buf =
     (if length buf < room then
        asserted (p2 \<le> (2 ^ 64 - 1) div 10)
          (let p2 = u64 (p2 * 10); d = p2 div 2 ^ sh; r = p2 mod 2 ^ sh in
           asserted (d \<le> 9)
             (let buf = buf @ [nat d]; delta = u64 (delta * 10); dst = u64 (dst * 10) in
              if r \<le> delta then Ret (buf, m + 1, r, delta, dst)
              else fractional_digits room sh r delta dst (m + 1) buf))
      else Undef)"
  by pat_completeness auto
termination
  by (relation "measure (\<lambda>(room, sh, p2, delta, dst, m, buf). room - length buf)") auto

declare fractional_digits.simps [simp del]

text \<open>Digits of a number between the first and the last one, with the exponent of the last digit.\<close>

definition grisu2_digit_gen :: "nat \<Rightarrow> int \<Rightarrow> diyfp \<Rightarrow> diyfp \<Rightarrow> diyfp \<Rightarrow> (nat list \<times> int) outcome" where
  "grisu2_digit_gen room decimal_exponent M_minus w M_plus = asserted (kAlpha \<le> de M_plus \<and> de M_plus \<le> kGamma)
     (obind (diyfp_sub M_plus M_minus) (\<lambda>delta.
      obind (diyfp_sub M_plus w) (\<lambda>dst.
      let sh = nat (- de M_plus); p1 = (df M_plus div 2 ^ sh) mod 2 ^ 32; p2 = df M_plus mod 2 ^ sh in
      asserted (p1 > 0)
       (case find_largest_pow10 p1 of (k, pow10) \<Rightarrow>
        obind (integral_digits room sh p2 (df delta) k p1 pow10 []) (\<lambda>r. case r of
          Inl (buf, n, rest, ten_n) \<Rightarrow>
            obind (grisu2_round buf (df dst) (df delta) rest ten_n) (\<lambda>buf. Ret (buf, decimal_exponent + int n))
        | Inr buf \<Rightarrow>
            asserted (p2 > df delta)
             (obind (fractional_digits room sh p2 (df delta) (df dst) 0 buf) (\<lambda>(buf, m, rest, delta, dst).
              obind (grisu2_round buf dst delta rest (2 ^ sh)) (\<lambda>buf. Ret (buf, decimal_exponent - int m)))))))))"

definition grisu2_bounds :: "nat \<Rightarrow> diyfp \<Rightarrow> diyfp \<Rightarrow> diyfp \<Rightarrow> (nat list \<times> int) outcome" where
  "grisu2_bounds room m_minus v m_plus = asserted (de m_plus = de m_minus \<and> de m_plus = de v)
     (obind (get_cached_power_for_binary_exponent (de m_plus)) (\<lambda>(cf, ce, ck).
      let c_minus_k = diyfp_of cf ce;
          w = diyfp_mul v c_minus_k; w_minus = diyfp_mul m_minus c_minus_k; w_plus = diyfp_mul m_plus c_minus_k;
          M_minus = diyfp_of (u64 (df w_minus + 1)) (de w_minus);
          M_plus = diyfp_of (u64 (df w_plus - 1)) (de w_plus)
      in grisu2_digit_gen room (- ck) M_minus w M_plus))"

definition grisu2 :: "nat \<Rightarrow> rat \<Rightarrow> (nat list \<times> int) outcome" where
  "grisu2 room value = asserted (value > 0)
     (obind (compute_boundaries value) (\<lambda>w. grisu2_bounds room (b_minus w) (b_w w) (b_plus w)))"

section \<open>Text\<close>

definition append_exponent :: "int \<Rightarrow> string outcome" where
  "append_exponent e = asserted (- 1000 < e \<and> e < 1000)
     (let sign = (if e < 0 then ''-'' else ''+''); k = nat \<bar>e\<bar> in
      if k < 10 then Ret (sign @ [CHR ''0'', digit_char k])
      else if k < 100 then Ret (sign @ [digit_char (k div 10), digit_char (k mod 10)])
      else Ret (sign @ [digit_char (k div 100), digit_char (k mod 100 div 10), digit_char (k mod 100 mod 10)]))"

definition format_buffer :: "nat list \<Rightarrow> int \<Rightarrow> int \<Rightarrow> int \<Rightarrow> string outcome" where
  "format_buffer buf decimal_exponent min_exp max_exp = asserted (min_exp < 0 \<and> max_exp > 0)
     (let digits = map digit_char buf; k = int (length buf); n = int (length buf) + decimal_exponent in
      if k \<le> n \<and> n \<le> max_exp then Ret (digits @ replicate (nat (n - k)) (CHR ''0'') @ ''.0'')
      else if 0 < n \<and> n \<le> max_exp then Ret (take (nat n) digits @ ''.'' @ drop (nat n) digits)
      else if min_exp < n \<and> n \<le> 0 then Ret (''0.'' @ replicate (nat (- n)) (CHR ''0'') @ digits)
      else obind (append_exponent (n - 1)) (\<lambda>e.
        if k = 1 then Ret (digits @ ''e'' @ e)
        else Ret (take 1 digits @ ''.'' @ drop 1 digits @ ''e'' @ e)))"

text \<open>\<open>room\<close> is the size of the character buffer; not-a-number and the infinities are excluded.\<close>

definition kMinExp10 :: int where "kMinExp10 = - 4"
definition kMaxExp10 :: int where "kMaxExp10 = 15"
definition max_digits10 :: nat where "max_digits10 = 17"

definition to_chars :: "nat \<Rightarrow> dbl \<Rightarrow> string outcome" where
  "to_chars room value = asserted (is_finite value)
     (let sign = (if dneg_sign value then ''-'' else []); room = room - length sign; a = \<bar>dval value\<bar> in
      if a = 0 then Ret (sign @ ''0.0'')
      else asserted (max_digits10 \<le> room)
       (obind (grisu2 room a) (\<lambda>(buf, decimal_exponent).
        asserted (length buf \<le> max_digits10 \<and> kMaxExp10 + 2 \<le> int room \<and>
            2 + (- kMinExp10 - 1) + int max_digits10 \<le> int room \<and> max_digits10 + 6 \<le> room)
          (obind (format_buffer buf decimal_exponent kMinExp10 kMaxExp10) (\<lambda>s. Ret (sign @ s))))))"

end
