(* ===== verification/DtoaPowers.thy ===== *)
theory DtoaPowers
  imports Dtoa JsonLexer
begin

text \<open>
  The cached powers of ten of the code are the powers of ten rounded to 64 bits, and the one that is chosen
  for a binary exponent brings the product into the range the digit generation needs.

  A power is checked against an interval for its exact value with 64 more bits, which is carried from one
  entry of the table to the next.
\<close>

section \<open>Rational powers\<close>

lemma pow10_powi: "pow10 k = 10 powi k"
  by (simp add: pow10_def power_int_def inverse_eq_divide power_divide)

lemma pow10_add: "pow10 (a + b) = pow10 a * pow10 b"
  by (simp add: pow10_powi power_int_add)

lemma pow10_pos [simp]: "0 < pow10 k"
  by (simp add: pow10_powi)

lemma pow10_nat: "pow10 (int n) = of_int (10 ^ n)"
  by (simp add: pow10_def)

lemma div_floor: "0 < (c :: int) \<Longrightarrow> y div c * c \<le> y \<and> y < y div c * c + c"
  using div_mult_mod_eq [of y c] pos_mod_sign [of c y] pos_mod_bound [of c y] by linarith

section \<open>The table\<close>

text \<open>The significand a power of ten would have exactly.\<close>

definition exact_power :: "int \<Rightarrow> int \<Rightarrow> rat" where
  "exact_power e k = pow10 k * 2 powi (- e)"

fun powers_checked :: "int \<Rightarrow> int \<Rightarrow> (int \<times> int \<times> int) list \<Rightarrow> bool" where
  "powers_checked lo hi [] = True"
| "powers_checked lo hi ((f, e, k) # t) =
     ((2 * f - 1) * 2 ^ 63 \<le> lo \<and> hi \<le> (2 * f + 1) * 2 ^ 63 \<and> 2 ^ 63 \<le> f \<and> f < 2 ^ 64 \<and>
      (case t of [] \<Rightarrow> True
       | (f', e', k') # _ \<Rightarrow> k' = k + 8 \<and> e \<le> e' \<and>
           powers_checked (lo * 100000000 div 2 ^ nat (e' - e)) (hi * 100000000 div 2 ^ nat (e' - e) + 1) t))"

definition power_rounded :: "int \<times> int \<times> int \<Rightarrow> bool" where
  "power_rounded p = (case p of (f, e, k) \<Rightarrow> 2 ^ 63 \<le> f \<and> f < 2 ^ 64 \<and> \<bar>of_int f - exact_power e k\<bar> \<le> 1 / 2)"

lemma power_near:
  fixes x :: rat
  assumes "(2 * f - 1) * 2 ^ 63 \<le> lo" "hi \<le> (2 * f + 1) * 2 ^ 63" "of_int lo \<le> x * 2 ^ 64" "x * 2 ^ 64 \<le> of_int hi"
  shows "\<bar>of_int f - x\<bar> \<le> 1 / 2"
proof -
  have "(of_int ((2 * f - 1) * 2 ^ 63) :: rat) \<le> of_int lo" "(of_int hi :: rat) \<le> of_int ((2 * f + 1) * 2 ^ 63)"
    using assms(1,2) by (simp_all only: of_int_le_iff)
  with assms(3,4) have "of_int ((2 * f - 1) * 2 ^ 63) \<le> x * 2 ^ 64" "x * 2 ^ 64 \<le> of_int ((2 * f + 1) * 2 ^ 63)"
    by linarith+
  then have "of_int f - x \<le> 1 / 2" "x - of_int f \<le> 1 / 2" by simp_all
  then show ?thesis by (intro abs_leI) linarith+
qed

lemma powers_checked_rounded:
  assumes "powers_checked lo hi (p # t)" and "case p of (f, e, k) \<Rightarrow> of_int lo \<le> exact_power e k * 2 ^ 64 \<and> exact_power e k * 2 ^ 64 \<le> of_int hi"
  shows "list_all power_rounded (p # t)"
  using assms
proof (induction t arbitrary: p lo hi)
  case Nil
  then show ?case
    using power_near by (cases p) (fastforce simp: power_rounded_def)
next
  case (Cons q t)
  obtain f e k where p: "p = (f, e, k)" by (cases p) auto
  obtain f' e' k' where q: "q = (f', e', k')" by (cases q) auto
  define d where "d = nat (e' - e)"
  have c: "(2 * f - 1) * 2 ^ 63 \<le> lo" "hi \<le> (2 * f + 1) * 2 ^ 63" "2 ^ 63 \<le> f" "f < 2 ^ 64" "k' = k + 8" "e \<le> e'"
    "powers_checked (lo * 100000000 div 2 ^ d) (hi * 100000000 div 2 ^ d + 1) (q # t)"
    using Cons.prems(1) unfolding p q powers_checked.simps(2) list.case prod.case d_def by blast+
  have b: "of_int lo \<le> exact_power e k * 2 ^ 64" "exact_power e k * 2 ^ 64 \<le> of_int hi"
    using Cons.prems(2) by (simp_all add: p)
  have "(2 :: rat) powi (- e') = 2 powi (- e) / 2 ^ d"
    using c(6) by (simp add: d_def power_int_minus power_int_add [of _ e "e' - e", simplified] power_int_def [of _ "e' - e"] field_simps)
  then have step: "exact_power e' k' = exact_power e k * 100000000 / 2 ^ d"
    by (simp add: exact_power_def c(5) pow10_add) (simp add: pow10_def)
  have "of_int (lo * 100000000 div 2 ^ d) \<le> (of_int (lo * 100000000) / of_int (2 ^ d) :: rat)"
    using floor_correct [of "of_int (lo * 100000000) / of_int (2 ^ d) :: rat"] by (simp only: floor_divide_of_int_eq)
  also have "\<dots> \<le> exact_power e' k' * 2 ^ 64"
    using b(1) by (simp add: step divide_right_mono)
  finally have 1: "of_int (lo * 100000000 div 2 ^ d) \<le> exact_power e' k' * 2 ^ 64" .
  have "exact_power e' k' * 2 ^ 64 \<le> (of_int (hi * 100000000) / of_int (2 ^ d) :: rat)"
    using b(2) by (simp add: step divide_right_mono)
  also have "\<dots> \<le> of_int (hi * 100000000 div 2 ^ d + 1)"
    using floor_correct [of "of_int (hi * 100000000) / of_int (2 ^ d) :: rat"]
    unfolding floor_divide_of_int_eq by (intro less_imp_le) blast
  finally have 2: "exact_power e' k' * 2 ^ 64 \<le> of_int (hi * 100000000 div 2 ^ d + 1)" .
  have "list_all power_rounded (q # t)"
    using Cons.IH [OF c(7)] 1 2 by (simp add: q)
  moreover have "power_rounded p"
    using power_near [OF c(1,2) b] c(3,4) by (simp add: p power_rounded_def)
  ultimately show ?case by simp
qed

lemma first_power: "227884678143438210606695688214919443462 * 10 ^ 300 \<le> (2 ^ 1124 :: int) \<and> (2 ^ 1124 :: int) \<le> (227884678143438210606695688214919443462 + 1) * 10 ^ 300"
  by simp

lemma table_checked: "powers_checked 227884678143438210606695688214919443462 (227884678143438210606695688214919443462 + 1) kCachedPowers"
  unfolding kCachedPowers_def by code_simp

lemma table_rounded: "list_all power_rounded kCachedPowers"
proof -
  have e: "exact_power (- 1060) (- 300) = of_int (2 ^ 1060) / of_int (10 ^ 300)"
    by (simp add: exact_power_def pow10_def power_int_def)
  have "of_int (227884678143438210606695688214919443462 * 10 ^ 300) \<le> (of_int (2 ^ 1124) :: rat)"
    "(of_int (2 ^ 1124) :: rat) \<le> of_int ((227884678143438210606695688214919443462 + 1) * 10 ^ 300)"
    using first_power by (simp_all only: of_int_le_iff)
  then have "of_int 227884678143438210606695688214919443462 \<le> exact_power (- 1060) (- 300) * 2 ^ 64"
    "exact_power (- 1060) (- 300) * 2 ^ 64 \<le> of_int (227884678143438210606695688214919443462 + 1)"
    unfolding e by (simp_all add: field_simps)
  then show ?thesis
    using powers_checked_rounded [OF table_checked [unfolded kCachedPowers_def]] unfolding kCachedPowers_def by blast
qed

section \<open>The chosen power\<close>

text \<open>The decimal exponents \<open>D\<close> to \<open>D + 7\<close> lead to the first entry, the next eight to the second, and so on.\<close>

fun ranges_checked :: "int \<Rightarrow> (int \<times> int \<times> int) list \<Rightarrow> bool" where
  "ranges_checked D [] = True"
| "ranges_checked D ((f, e, k) # t) =
     ((D + 7) * 2 ^ 18 < (e + 64) * 78913 \<and> (e + 34) * 78913 < (D - 1) * 2 ^ 18 \<and> ranges_checked (D + 8) t)"

lemma table_ranges: "ranges_checked (- 307) kCachedPowers"
  unfolding kCachedPowers_def by code_simp

lemma length_table: "length kCachedPowers = 79"
  by (simp add: kCachedPowers_def)

lemma ranges_checked_nth:
  "ranges_checked D t \<Longrightarrow> i < length t \<Longrightarrow> t ! i = (f, e, k) \<Longrightarrow>
     (D + 8 * int i + 7) * 2 ^ 18 < (e + 64) * 78913 \<and> (e + 34) * 78913 < (D + 8 * int i - 1) * 2 ^ 18"
proof (induction t arbitrary: D i)
  case (Cons p t)
  obtain f' e' k' where p: "p = (f', e', k')" by (cases p) auto
  show ?case
  proof (cases i)
    case 0
    with Cons.prems p show ?thesis by simp
  next
    case (Suc j)
    with Cons.IH [of "D + 8" j] Cons.prems p show ?thesis by (simp add: algebra_simps)
  qed
qed simp

lemma cached_power:
  assumes "- 1137 \<le> x" and "x \<le> 960"
  shows "\<exists>f e k. get_cached_power_for_binary_exponent x = Ret (f, e, k) \<and> power_rounded (f, e, k) \<and>
    - 60 \<le> e + x + 64 \<and> e + x + 64 \<le> - 32"
proof -
  define f where "f = - 60 - x - 1"
  define kd where "kd = (f * 78913) sdiv 2 ^ 18 + (if f > 0 then 1 else 0)"
  have f: "- 1021 \<le> f" "f \<le> 1076" using assms by (simp_all add: f_def)
  have kd: "(kd - 1) * 2 ^ 18 \<le> f * 78913 \<and> f * 78913 \<le> kd * 2 ^ 18"
  proof (cases "f > 0")
    case True
    then have "kd = f * 78913 div 2 ^ 18 + 1" by (simp add: kd_def int_sdiv_nonneg)
    then show ?thesis using div_floor [of "2 ^ 18" "f * 78913"] by simp
  next
    case False
    then have "kd = - ((- f * 78913) div 2 ^ 18)"
      by (auto simp: kd_def signed_divide_int_def sgn_if)
    then show ?thesis using div_floor [of "2 ^ 18" "- f * 78913"] by simp
  qed
  have "- 307 \<le> kd" "kd \<le> 324" using f kd by simp_all
  define i where "i = (307 + kd) div 8"
  have i: "0 \<le> i" "i < 79" "8 * i - 307 \<le> kd" "kd \<le> 8 * i - 300"
    using \<open>- 307 \<le> kd\<close> \<open>kd \<le> 324\<close> unfolding i_def by presburger+
  have index: "(300 + kd + (8 - 1)) sdiv 8 = i"
    using \<open>- 307 \<le> kd\<close> by (simp add: i_def int_sdiv_nonneg add.commute)
  obtain g e k where p: "kCachedPowers ! nat i = (g, e, k)" by (cases "kCachedPowers ! nat i") auto
  have len: "nat i < length kCachedPowers" using i by (simp add: length_table)
  have r: "(8 * i - 300) * 2 ^ 18 < (e + 64) * 78913" "(e + 34) * 78913 < (8 * i - 308) * 2 ^ 18"
    using ranges_checked_nth [OF table_ranges len p] i(1) by simp_all
  have "f * 78913 < (e + 64) * 78913" "(e + 34) * 78913 < f * 78913"
    using r kd i(3,4) by simp_all
  then have b: "f < e + 64" "e + 34 < f" by simp_all
  have "power_rounded (g, e, k)" using table_rounded len p by (auto simp: list_all_length)
  moreover have "get_cached_power_for_binary_exponent x = Ret (g, e, k)"
    unfolding get_cached_power_for_binary_exponent_def Let_def kAlpha_def kGamma_def f_def [symmetric]
      kd_def [symmetric] index
    using assms i len b p by (simp add: f_def)
  ultimately show ?thesis using b by (auto simp: f_def)
qed

end
