(* ===== verification/DtoaDigits.thy ===== *)
theory DtoaDigits
  imports DtoaPowers
begin

text \<open>
  The digit generation of Grisu2: no assertion fails, at most 17 digits are written, and the number they
  denote lies between the two bounds.
\<close>

section \<open>Digit lists\<close>

definition digits_int :: "nat list \<Rightarrow> int" where
  "digits_int ds = foldl (\<lambda>n d. 10 * n + int d) 0 ds"

definition decimal_digits :: "nat list \<Rightarrow> bool" where
  "decimal_digits ds \<longleftrightarrow> list_all (\<lambda>d. d \<le> 9) ds \<and> (ds \<noteq> [] \<longrightarrow> hd ds \<noteq> 0)"

lemma digits_int_simps [simp]:
  "digits_int [] = 0" "digits_int (ds @ [d]) = 10 * digits_int ds + int d" "digits_int [d] = int d"
  by (simp_all add: digits_int_def)

lemma digits_int_nonneg [simp]: "0 \<le> digits_int ds"
  by (induction ds rule: rev_induct) simp_all

lemma decimal_digits_snoc:
  "decimal_digits (ds @ [d]) \<longleftrightarrow> decimal_digits ds \<and> d \<le> 9 \<and> (ds = [] \<longrightarrow> d \<noteq> 0)"
  by (cases ds) (auto simp: decimal_digits_def)

lemma digits_int_ge: "decimal_digits ds \<Longrightarrow> ds \<noteq> [] \<Longrightarrow> 10 ^ (length ds - 1) \<le> digits_int ds"
proof (induction ds rule: rev_induct)
  case (snoc d ds)
  show ?case
  proof (cases "ds = []")
    case True
    with snoc.prems show ?thesis by (simp add: decimal_digits_def)
  next
    case False
    with snoc have "10 ^ (length ds - 1) \<le> digits_int ds" by (simp add: decimal_digits_snoc)
    moreover have "(10 :: int) ^ length ds = 10 * 10 ^ (length ds - 1)" using False by (cases ds) simp_all
    ultimately show ?thesis by simp
  qed
qed simp

text \<open>While the rest is above the distance of the bounds, fewer than 17 digits have been written.\<close>

lemma digits_bound:
  assumes "decimal_digits ds" and "digits_int ds * U + R = M * T" and "delta * T < R" and "R < U"
    and "M < 10 ^ 16 * delta" and "0 < T" and "0 < delta"
  shows "length ds \<le> 16"
proof (rule ccontr)
  assume "\<not> length ds \<le> 16"
  then have len: "16 \<le> length ds - 1" "ds \<noteq> []" by auto
  have pos: "0 < delta * T" using assms(6,7) by simp
  have "(10 :: int) ^ 16 \<le> 10 ^ (length ds - 1)" using len(1) by (intro power_increasing) simp_all
  then have "10 ^ 16 \<le> digits_int ds" using digits_int_ge [OF assms(1) len(2)] by linarith
  then have "10 ^ 16 * U \<le> digits_int ds * U" using assms(3,4) pos by (intro mult_right_mono) simp_all
  moreover have "M * T < 10 ^ 16 * delta * T" using assms(5,6) by (simp only: mult_less_cancel_right_pos)
  moreover have "10 ^ 16 * delta * T < 10 ^ 16 * U" using assms(3,4) pos by simp
  ultimately show False using assms(2,3) pos by linarith
qed

lemma put_digit_Ret: "length buf \<le> 16 \<Longrightarrow> 17 \<le> room \<Longrightarrow> put_digit room buf d = Ret (buf @ [d])"
  by (simp add: put_digit_def)

lemma u64_id [simp]: "0 \<le> n \<Longrightarrow> n < 2 ^ 64 \<Longrightarrow> u64 n = n"
  by (simp add: u64_def)

section \<open>Rounding the last digit\<close>

lemma round_loop_Ret:
  assumes "0 \<le> rest" "rest \<le> delta" "dst \<le> delta" "delta < 2 ^ 64" "0 < ten" "delta < int d * ten + rest"
  shows "\<exists>d' rest'. round_loop dst delta rest ten d = Ret d' \<and> 0 < d' \<and> d' \<le> d \<and>
    int d' * ten + rest' = int d * ten + rest \<and> 0 \<le> rest' \<and> rest' \<le> delta"
  using assms
proof (induction d arbitrary: rest)
  case 0
  then show ?case by simp
next
  case (Suc d)
  show ?case
  proof (cases "rest < dst \<and> u64 (delta - rest) \<ge> ten \<and>
      (u64 (rest + ten) < dst \<or> u64 (dst - rest) > u64 (rest + ten - dst))")
    case True
    have "u64 (delta - rest) = delta - rest" using Suc.prems by (intro u64_id) linarith+
    with True have ten: "ten \<le> delta - rest" by simp
    then have u: "u64 (rest + ten) = rest + ten" using Suc.prems by simp
    from Suc.IH [of "rest + ten"] Suc.prems ten obtain d' rest' where
      "round_loop dst delta (rest + ten) ten d = Ret d'" "0 < d'" "d' \<le> d"
      "int d' * ten + rest' = int d * ten + (rest + ten)" "0 \<le> rest'" "rest' \<le> delta"
      by (auto simp: algebra_simps)
    with True u show ?thesis by (auto simp: round_loop.simps algebra_simps)
  next
    case False
    then have "round_loop dst delta rest ten (Suc d) = Ret (Suc d)" by (auto simp: round_loop.simps)
    with Suc.prems show ?thesis by blast
  qed
qed

lemma grisu2_round_Ret:
  assumes "0 \<le> rest" "rest \<le> delta" "dst \<le> delta" "delta < 2 ^ 64" "0 < ten" "delta < int d * ten + rest"
    and "decimal_digits (bs @ [d])"
  shows "\<exists>ds rest'. grisu2_round (bs @ [d]) dst delta rest ten = Ret ds \<and> length ds = length bs + 1 \<and> decimal_digits ds \<and>
    digits_int ds * ten + rest' = digits_int (bs @ [d]) * ten + rest \<and> 0 \<le> rest' \<and> rest' \<le> delta"
proof -
  obtain d' rest' where r: "round_loop dst delta rest ten d = Ret d'" "0 < d'" "d' \<le> d"
    "int d' * ten + rest' = int d * ten + rest" "0 \<le> rest'" "rest' \<le> delta"
    using round_loop_Ret [OF assms(1-6)] by blast
  have "decimal_digits (bs @ [d'])" using assms(7) r(2,3) by (auto simp: decimal_digits_snoc)
  moreover have "grisu2_round (bs @ [d]) dst delta rest ten = Ret (bs @ [d'])"
    using assms r(1) by (simp add: grisu2_round_def)
  moreover have "digits_int (bs @ [d']) * ten + rest' = digits_int (bs @ [d]) * ten + rest"
    using r(4) by (simp add: algebra_simps)
  ultimately show ?thesis using r(5,6) by fastforce
qed

section \<open>The integral part\<close>

text \<open>
  \<open>M\<close> is the upper bound scaled by \<open>2 ^ sh\<close>: the digits so far, the digits to come and the
  fraction \<open>p2\<close> make it up.
\<close>

lemma integral_digits_Ret:
  assumes "decimal_digits buf" and "digits_int buf * 10 ^ n * 2 ^ sh + (p1 * 2 ^ sh + p2) = M"
    and "0 \<le> p1" "p1 < 10 ^ n" "0 \<le> p2" "p2 < 2 ^ sh" and "delta < p1 * 2 ^ sh + p2"
    and "n \<noteq> 0 \<longrightarrow> pw = 10 ^ (n - 1)" and "buf = [] \<longrightarrow> n \<noteq> 0 \<and> 10 ^ (n - 1) \<le> p1"
    and "M < 2 ^ 64" "M < 10 ^ 16 * delta" "0 < delta" "17 \<le> room"
  shows "(\<exists>bs d n' rest. integral_digits room sh p2 delta n p1 pw buf = Ret (Inl (bs @ [d], n', rest, 10 ^ n' * 2 ^ sh)) \<and>
      decimal_digits (bs @ [d]) \<and> length bs \<le> 16 \<and> digits_int (bs @ [d]) * (10 ^ n' * 2 ^ sh) + rest = M \<and>
      0 \<le> rest \<and> rest \<le> delta \<and> delta < int d * (10 ^ n' * 2 ^ sh) + rest) \<or>
    (\<exists>ds. integral_digits room sh p2 delta n p1 pw buf = Ret (Inr ds) \<and> decimal_digits ds \<and> ds \<noteq> [] \<and>
      digits_int ds * 2 ^ sh + p2 = M \<and> delta < p2)"
  using assms
proof (induction n arbitrary: p1 pw buf)
  case 0
  then have "p1 = 0" by simp
  with 0 show ?case by auto
next
  case (Suc n)
  define d where "d = p1 div pw"
  define r where "r = p1 mod pw"
  define buf' where "buf' = buf @ [nat d]"
  define rest where "rest = r * 2 ^ sh + p2"
  have pow: "pw = 10 ^ n" "0 < pw" using Suc.prems(8) by simp_all
  have dr: "p1 = d * 10 ^ n + r" "0 \<le> r" "r < 10 ^ n" "0 \<le> d"
    using pow Suc.prems(3) div_mult_mod_eq [of p1 pw] by (simp_all add: d_def r_def pos_imp_zdiv_nonneg_iff)
  have d9: "d \<le> 9"
  proof -
    have "p1 < 10 * 10 ^ n" using Suc.prems(4) by simp
    then have "d * 10 ^ n < 10 * 10 ^ n" using dr(1,2) by linarith
    then show ?thesis by simp
  qed
  have R: "p1 * 2 ^ sh + p2 < 10 ^ Suc n * 2 ^ sh"
  proof -
    have "(p1 + 1) * 2 ^ sh \<le> 10 ^ Suc n * 2 ^ sh" using Suc.prems(4) by (intro mult_right_mono) simp_all
    then show ?thesis using Suc.prems(6) by (simp add: algebra_simps)
  qed
  have len: "length buf \<le> 16"
    by (rule digits_bound [OF Suc.prems(1), of "10 ^ Suc n * 2 ^ sh" "p1 * 2 ^ sh + p2" M 1 delta])
      (use Suc.prems R in \<open>simp_all add: algebra_simps\<close>)
  have M: "digits_int buf' * (10 ^ n * 2 ^ sh) + rest = M"
    using Suc.prems(2) dr(1,4) by (simp add: buf'_def rest_def algebra_simps)
  have good: "decimal_digits buf'"
  proof -
    have "d \<noteq> 0" if "buf = []"
    proof
      assume "d = 0"
      then have "p1 < 10 ^ n" using dr by simp
      with Suc.prems(9) that show False by simp
    qed
    then show ?thesis using Suc.prems(1) d9 dr(4) by (auto simp: buf'_def decimal_digits_snoc)
  qed
  have "0 \<le> digits_int buf' * (10 ^ n * 2 ^ sh)" by simp
  with M Suc.prems(10) have "rest < 2 ^ 64" by linarith
  moreover have "0 \<le> rest" using dr(2) Suc.prems(5) by (simp add: rest_def)
  ultimately have rest: "0 \<le> rest" "rest < 2 ^ 64" by blast+
  have "r * 2 ^ sh < 2 ^ 64" "0 \<le> r * 2 ^ sh" using rest Suc.prems(5) dr(2) by (simp_all add: rest_def)
  then have u: "u64 (u64 (r * 2 ^ sh) + p2) = rest" using rest by (simp add: rest_def)
  have step: "integral_digits room sh p2 delta (Suc n) p1 pw buf =
      (if rest \<le> delta then Ret (Inl (buf', n, rest, u64 (pw * 2 ^ sh)))
       else integral_digits room sh p2 delta n r (pw div 10) buf')"
    using pow(2) d9 put_digit_Ret [OF len Suc.prems(13)] u
    by (simp add: Let_def buf'_def d_def [symmetric] r_def [symmetric])
  show ?case
  proof (cases "rest \<le> delta")
    case True
    have "delta < d * (10 ^ n * 2 ^ sh) + rest"
      using Suc.prems(7) dr(1) by (simp add: rest_def algebra_simps)
    moreover have "u64 (pw * 2 ^ sh) = 10 ^ n * 2 ^ sh"
    proof -
      have "d \<noteq> 0"
      proof
        assume "d = 0"
        then show False using True Suc.prems(7) dr(1) by (simp add: rest_def)
      qed
      then have "10 ^ n \<le> d * 10 ^ n" using dr(4) by (simp add: mult_le_cancel_right1)
      then have "10 ^ n \<le> p1" using dr(1,2) by linarith
      then have "10 ^ n * 2 ^ sh \<le> p1 * 2 ^ sh" by (intro mult_right_mono) simp_all
      moreover have "0 \<le> digits_int buf * 10 ^ Suc n * 2 ^ sh" by simp
      ultimately have "10 ^ n * 2 ^ sh < (2 :: int) ^ 64" using Suc.prems(2,5,10) by linarith
      then show ?thesis by (simp add: pow)
    qed
    ultimately show ?thesis
      using True step M good rest(1) len dr(4)
      by (intro disjI1 exI [of _ buf] exI [of _ "nat d"] exI [of _ n] exI [of _ rest]) (simp add: buf'_def)
  next
    case False
    have "pw div 10 = 10 ^ (n - 1)" if "n \<noteq> 0" using that by (cases n) (simp_all add: pow(1))
    with Suc.IH [of buf' r "pw div 10"] good M dr(2,3) Suc.prems(5,6,10-13) False
    show ?thesis unfolding step by (simp add: rest_def mult.assoc buf'_def)
  qed
qed

section \<open>The fractional part\<close>

lemma fractional_digits_Ret:
  assumes "decimal_digits buf" and "buf \<noteq> []" and "digits_int buf * 2 ^ sh + p2 = M * 10 ^ m"
    and "0 \<le> p2" "p2 < 2 ^ sh" and "delta' = delta * 10 ^ m" "dst' = dst * 10 ^ m" and "delta' < p2"
    and "M < 10 ^ 16 * delta" "0 < delta" "0 \<le> dst" "dst \<le> delta" "17 \<le> room" "sh \<le> 60"
  shows "\<exists>bs d m' r. fractional_digits room sh p2 delta' dst' m buf =
      Ret (bs @ [d], m', r, delta * 10 ^ m', dst * 10 ^ m') \<and>
    decimal_digits (bs @ [d]) \<and> length bs \<le> 16 \<and> digits_int (bs @ [d]) * 2 ^ sh + r = M * 10 ^ m' \<and>
    0 \<le> r \<and> r \<le> delta * 10 ^ m' \<and> delta * 10 ^ m' < int d * 2 ^ sh + r \<and> delta * 10 ^ m' < 2 ^ 64"
  using assms
proof (induction room sh p2 delta' dst' m buf rule: fractional_digits.induct)
  case (1 room sh p2 delta' dst' m buf)
  note prems = "1.prems"
  have len: "length buf \<le> 16"
    by (rule digits_bound [OF prems(1,3), of delta]) (use prems in \<open>simp_all add: mult.commute\<close>)
  have "(2 :: int) ^ sh \<le> 2 ^ 60" using prems(14) by (intro power_increasing) simp_all
  then have small: "p2 < 2 ^ 60" "delta' < 2 ^ 60" "dst' < 2 ^ 60" "0 \<le> delta'" "0 \<le> dst'"
  proof -
    have "dst' \<le> delta'" using prems(6,7,12) by (simp add: mult_right_mono)
    then show "p2 < 2 ^ 60" "delta' < 2 ^ 60" "dst' < 2 ^ 60" using \<open>2 ^ sh \<le> 2 ^ 60\<close> prems(5,8) by linarith+
    show "0 \<le> delta'" "0 \<le> dst'" using prems(6,7,10,11) by simp_all
  qed
  define d where "d = p2 * 10 div 2 ^ sh"
  define r where "r = p2 * 10 mod 2 ^ sh"
  define buf' where "buf' = buf @ [nat d]"
  have dr: "p2 * 10 = d * 2 ^ sh + r" "0 \<le> r" "r < 2 ^ sh" "0 \<le> d"
    using prems(4) div_mult_mod_eq [of "p2 * 10" "2 ^ sh"] by (simp_all add: d_def r_def pos_imp_zdiv_nonneg_iff)
  have d9: "d \<le> 9"
  proof -
    have "d * 2 ^ sh < 10 * 2 ^ sh" using dr(1,2) prems(5) by linarith
    then show ?thesis by simp
  qed
  have u: "u64 (p2 * 10) = p2 * 10" "u64 (delta' * 10) = delta' * 10" "u64 (dst' * 10) = dst' * 10"
    using small prems(4) by simp_all
  have p2: "p2 \<le> (2 ^ 64 - 1) div 10" using small by simp
  have scaled: "delta' * 10 = delta * 10 ^ (m + 1)" "dst' * 10 = dst * 10 ^ (m + 1)"
    using prems(6,7) by simp_all
  have good: "decimal_digits buf'" using prems(1,2) d9 dr(4) by (simp add: buf'_def decimal_digits_snoc)
  have M: "digits_int buf' * 2 ^ sh + r = M * 10 ^ (m + 1)"
    using prems(3) dr(1,4) by (simp add: buf'_def algebra_simps)
  have step: "fractional_digits room sh p2 delta' dst' m buf =
      (if r \<le> delta' * 10 then Ret (buf', m + 1, r, delta' * 10, dst' * 10)
       else fractional_digits room sh r (delta' * 10) (dst' * 10) (m + 1) buf')"
    using len prems(13) p2 u d9
    by (subst fractional_digits.simps) (simp add: Let_def d_def [symmetric] r_def [symmetric] buf'_def [symmetric])
  show ?case
  proof (cases "r \<le> delta' * 10")
    case True
    have "delta * 10 ^ (m + 1) < d * 2 ^ sh + r" using prems(8) dr(1) scaled(1) by simp
    then show ?thesis
      using True step M good len dr(2,4) scaled small(2)
      by (intro exI [of _ buf] exI [of _ "nat d"] exI [of _ "m + 1"] exI [of _ r]) (simp add: buf'_def)
  next
    case False
    have "length buf < room" using len prems(13) by simp
    from "1.IH" [OF this p2 u(1) [symmetric], unfolded u, OF d_def r_def _ buf'_def refl refl False] d9 good M dr(2,3) scaled prems(9-14) False
    show ?thesis unfolding step by (simp add: buf'_def ac_simps)
  qed
qed

section \<open>The digits of a number between the bounds\<close>

lemma find_largest_pow10_Ret:
  assumes "0 < n" and "n < 2 ^ 32"
  obtains k where "find_largest_pow10 n = (Suc k, 10 ^ k)" "10 ^ k \<le> n" "n < 10 ^ Suc k"
proof -
  have "\<exists>k. find_largest_pow10 n = (Suc k, 10 ^ k) \<and> 10 ^ k \<le> n \<and> n < 10 ^ Suc k"
  proof -
    consider "10 ^ 9 \<le> n" | "10 ^ 8 \<le> n" "n < 10 ^ 9" | "10 ^ 7 \<le> n" "n < 10 ^ 8" | "10 ^ 6 \<le> n" "n < 10 ^ 7"
      | "10 ^ 5 \<le> n" "n < 10 ^ 6" | "10 ^ 4 \<le> n" "n < 10 ^ 5" | "10 ^ 3 \<le> n" "n < 10 ^ 4" | "10 ^ 2 \<le> n" "n < 10 ^ 3"
      | "10 \<le> n" "n < 10 ^ 2" | "n < 10" by linarith
    then show ?thesis
    proof cases
      case 1 then show ?thesis using assms by (intro exI [of _ 9]) (simp add: find_largest_pow10_def)
    next
      case 2 then show ?thesis by (intro exI [of _ 8]) (simp add: find_largest_pow10_def)
    next
      case 3 then show ?thesis by (intro exI [of _ 7]) (simp add: find_largest_pow10_def)
    next
      case 4 then show ?thesis by (intro exI [of _ 6]) (simp add: find_largest_pow10_def)
    next
      case 5 then show ?thesis by (intro exI [of _ 5]) (simp add: find_largest_pow10_def)
    next
      case 6 then show ?thesis by (intro exI [of _ 4]) (simp add: find_largest_pow10_def)
    next
      case 7 then show ?thesis by (intro exI [of _ 3]) (simp add: find_largest_pow10_def)
    next
      case 8 then show ?thesis by (intro exI [of _ 2]) (simp add: find_largest_pow10_def)
    next
      case 9 then show ?thesis by (intro exI [of _ 1]) (simp add: find_largest_pow10_def)
    next
      case 10 then show ?thesis using assms by (intro exI [of _ 0]) (simp add: find_largest_pow10_def)
    qed
  qed
  then show ?thesis using that by blast
qed

text \<open>The digits \<open>ds\<close> with decimal exponent \<open>e\<close> denote a number between the bounds.\<close>

definition between :: "int \<Rightarrow> int \<Rightarrow> nat \<Rightarrow> nat list \<Rightarrow> int \<Rightarrow> bool" where
  "between lo hi sh ds e \<longleftrightarrow>
     of_int lo \<le> of_int (digits_int ds) * pow10 e * 2 ^ sh \<and> of_int (digits_int ds) * pow10 e * 2 ^ sh \<le> (of_int hi :: rat)"

lemma between_integral:
  assumes "digits_int ds * (10 ^ n * 2 ^ sh) + rest = hi" and "0 \<le> rest" "rest \<le> hi - lo"
  shows "between lo hi sh ds (int n)"
proof -
  have "lo \<le> digits_int ds * (10 ^ n * 2 ^ sh)" "digits_int ds * (10 ^ n * 2 ^ sh) \<le> hi" using assms by linarith+
  then have "(of_int lo :: rat) \<le> of_int (digits_int ds * (10 ^ n * 2 ^ sh))"
    "(of_int (digits_int ds * (10 ^ n * 2 ^ sh)) :: rat) \<le> of_int hi" by (simp_all only: of_int_le_iff)
  then show ?thesis by (simp add: between_def pow10_nat mult.assoc)
qed

lemma between_fractional:
  assumes "digits_int ds * 2 ^ sh + rest = hi * 10 ^ m" and "0 \<le> rest" "rest \<le> (hi - lo) * 10 ^ m"
  shows "between lo hi sh ds (- int m)"
proof -
  have "lo * 10 ^ m \<le> digits_int ds * 2 ^ sh" "digits_int ds * 2 ^ sh \<le> hi * 10 ^ m"
    using assms by (simp_all add: left_diff_distrib)
  then have "(of_int (lo * 10 ^ m) :: rat) \<le> of_int (digits_int ds * 2 ^ sh)"
    "(of_int (digits_int ds * 2 ^ sh) :: rat) \<le> of_int (hi * 10 ^ m)" by (simp_all only: of_int_le_iff)
  then have "of_int lo * 10 ^ m * pow10 (- int m) \<le> of_int (digits_int ds) * 2 ^ sh * pow10 (- int m)"
    "of_int (digits_int ds) * 2 ^ sh * pow10 (- int m) \<le> (of_int hi :: rat) * 10 ^ m * pow10 (- int m)"
    by (intro mult_right_mono; simp add: less_imp_le)+
  moreover have "(10 :: rat) ^ m * pow10 (- int m) = 1"
    by (simp add: pow10_powi power_int_minus)
  ultimately show ?thesis by (simp add: between_def mult.assoc) (simp add: ac_simps)
qed

lemma grisu2_digit_gen_Ret:
  assumes "- 60 \<le> e" "e \<le> - 32" and "0 < lo" "lo < hi" "lo \<le> w" "w \<le> hi" "hi < 2 ^ 64" "2 ^ 60 \<le> hi"
    and "hi < 10 ^ 16 * (hi - lo)" and "17 \<le> room"
  shows "\<exists>ds x. grisu2_digit_gen room dexp (diyfp_of lo e) (diyfp_of w e) (diyfp_of hi e) = Ret (ds, dexp + x) \<and>
    decimal_digits ds \<and> ds \<noteq> [] \<and> length ds \<le> 17 \<and> between lo hi (nat (- e)) ds x"
proof -
  define sh where "sh = nat (- e)"
  have sh: "32 \<le> sh" "sh \<le> 60" using assms(1,2) by (simp_all add: sh_def)
  define p1 where "p1 = hi div 2 ^ sh"
  define p2 where "p2 = hi mod 2 ^ sh"
  have hi: "p1 * 2 ^ sh + p2 = hi" "0 \<le> p2" "p2 < 2 ^ sh" "0 \<le> p1"
    using assms(3,4) div_mult_mod_eq [of hi "2 ^ sh"] by (simp_all add: p1_def p2_def pos_imp_zdiv_nonneg_iff)
  have "(2 :: int) ^ 32 \<le> 2 ^ sh" "(2 :: int) ^ sh \<le> 2 ^ 60" using sh by (intro power_increasing; simp)+
  have p1: "p1 < 2 ^ 32" "0 < p1"
  proof -
    have "p1 * 2 ^ 32 \<le> p1 * 2 ^ sh" using \<open>2 ^ 32 \<le> 2 ^ sh\<close> hi(4) by (intro mult_left_mono)
    then have "p1 * 2 ^ 32 < 2 ^ 64" using hi(1,2) assms(7) by linarith
    then show "p1 < 2 ^ 32" by simp
    have "p1 \<noteq> 0"
    proof
      assume "p1 = 0"
      then show False using hi(1,3) \<open>2 ^ sh \<le> 2 ^ 60\<close> assms(8) by simp
    qed
    with hi(4) show "0 < p1" by simp
  qed
  have p1_mod: "hi div 2 ^ sh mod 2 ^ 32 = p1" using p1 by (simp add: p1_def [symmetric])
  obtain k where k: "find_largest_pow10 p1 = (Suc k, 10 ^ k)" "10 ^ k \<le> p1" "p1 < 10 ^ Suc k"
    using find_largest_pow10_Ret [OF p1(2,1)] by blast
  let ?delta = "hi - lo" and ?dst = "hi - w"
  have gen: "grisu2_digit_gen room dexp (diyfp_of lo e) (diyfp_of w e) (diyfp_of hi e) =
      obind (integral_digits room sh p2 ?delta (Suc k) p1 (10 ^ k) []) (\<lambda>r. case r of
          Inl (buf, n, rest, ten_n) \<Rightarrow>
            obind (grisu2_round buf ?dst ?delta rest ten_n) (\<lambda>buf. Ret (buf, dexp + int n))
        | Inr buf \<Rightarrow>
            asserted (p2 > ?delta)
             (obind (fractional_digits room sh p2 ?delta ?dst 0 buf) (\<lambda>(buf, m, rest, delta, dst).
              obind (grisu2_round buf dst delta rest (2 ^ sh)) (\<lambda>buf. Ret (buf, dexp - int m)))))"
    using assms(1-6) p1 p1_mod k(1)
    by (simp add: grisu2_digit_gen_def kAlpha_def kGamma_def diyfp_sub_def diyfp_of_def sh_def [symmetric] Let_def
        p2_def [symmetric] del: integral_digits.simps)
  have "?delta < p1 * 2 ^ sh + p2" using hi(1) assms(3) by simp
  have start: "decimal_digits []" "digits_int [] * 10 ^ Suc k * 2 ^ sh + (p1 * 2 ^ sh + p2) = hi"
    "Suc k \<noteq> 0 \<longrightarrow> 10 ^ k = 10 ^ (Suc k - 1)" "[] = [] \<longrightarrow> Suc k \<noteq> 0 \<and> 10 ^ (Suc k - 1) \<le> p1" "0 < ?delta"
    using hi(1) k(2) assms(4) by (simp_all add: decimal_digits_def)
  note digits = integral_digits_Ret [OF start(1,2) hi(4) k(3) hi(2,3) \<open>?delta < p1 * 2 ^ sh + p2\<close> start(3,4) assms(7,9) start(5) assms(10)]
  from digits consider
    (integral) bs d n rest where "integral_digits room sh p2 ?delta (Suc k) p1 (10 ^ k) [] = Ret (Inl (bs @ [d], n, rest, 10 ^ n * 2 ^ sh))"
      "decimal_digits (bs @ [d])" "length bs \<le> 16" "digits_int (bs @ [d]) * (10 ^ n * 2 ^ sh) + rest = hi"
      "0 \<le> rest" "rest \<le> ?delta" "?delta < int d * (10 ^ n * 2 ^ sh) + rest"
  | (fraction) ds where "integral_digits room sh p2 ?delta (Suc k) p1 (10 ^ k) [] = Ret (Inr ds)" "decimal_digits ds" "ds \<noteq> []"
      "digits_int ds * 2 ^ sh + p2 = hi" "?delta < p2"
    by (elim disjE exE conjE) blast+
  then show ?thesis
  proof cases
    case integral
    obtain ds rest' where r: "grisu2_round (bs @ [d]) ?dst ?delta rest (10 ^ n * 2 ^ sh) = Ret ds" "length ds = length bs + 1"
      "decimal_digits ds" "digits_int ds * (10 ^ n * 2 ^ sh) + rest' = digits_int (bs @ [d]) * (10 ^ n * 2 ^ sh) + rest"
      "0 \<le> rest'" "rest' \<le> ?delta"
      using grisu2_round_Ret [of rest ?delta ?dst "10 ^ n * 2 ^ sh" d bs] integral assms(3,5,7) by force
    have "between lo hi sh ds (int n)"
      by (rule between_integral [OF _ r(5,6)]) (use r(4) integral(4) in linarith)
    moreover have "ds \<noteq> []" using r(2) by auto
    ultimately show ?thesis
      using gen integral(1,3) r(1-3) unfolding sh_def [symmetric] by (intro exI [of _ ds] exI [of _ "int n"]) simp
  next
    case fraction
    obtain bs d m r where f: "fractional_digits room sh p2 ?delta ?dst 0 ds = Ret (bs @ [d], m, r, ?delta * 10 ^ m, ?dst * 10 ^ m)"
      "decimal_digits (bs @ [d])" "length bs \<le> 16" "digits_int (bs @ [d]) * 2 ^ sh + r = hi * 10 ^ m"
      "0 \<le> r" "r \<le> ?delta * 10 ^ m" "?delta * 10 ^ m < int d * 2 ^ sh + r" "?delta * 10 ^ m < 2 ^ 64"
      using fractional_digits_Ret [of ds sh p2 hi 0 ?delta ?delta ?dst ?dst room] fraction hi(2,3) assms(4,5,6,9,10) sh(2)
      by fastforce
    have "?dst * 10 ^ m \<le> ?delta * 10 ^ m" using assms(5) by (intro mult_right_mono) simp_all
    then obtain ds' rest' where r: "grisu2_round (bs @ [d]) (?dst * 10 ^ m) (?delta * 10 ^ m) r (2 ^ sh) = Ret ds'"
      "length ds' = length bs + 1" "decimal_digits ds'" "digits_int ds' * 2 ^ sh + rest' = digits_int (bs @ [d]) * 2 ^ sh + r"
      "0 \<le> rest'" "rest' \<le> ?delta * 10 ^ m"
      using grisu2_round_Ret [of r "?delta * 10 ^ m" "?dst * 10 ^ m" "2 ^ sh" d bs] f by force
    have "between lo hi sh ds' (- int m)"
      by (rule between_fractional [OF _ r(5,6)]) (use r(4) f(4) in linarith)
    moreover have "ds' \<noteq> []" using r(2) by auto
    ultimately show ?thesis
      using gen fraction(1,5) f(1,3) r(1-3) unfolding sh_def [symmetric]
      by (intro exI [of _ ds'] exI [of _ "- int m"]) simp
  qed
qed

end
