(* ===== verification/DtoaBounds.thy ===== *)
theory DtoaBounds
  imports DtoaDigits
begin

text \<open>
  The boundaries of a floating-point number: the middles between the number and its neighbours, which the
  code computes as 64-bit significands with a common exponent, and between which every number rounds to
  the given one.
\<close>

section \<open>Products\<close>

lemma diyfp_mul_eq:
  assumes "0 \<le> df x" "df x < 2 ^ 64" "0 \<le> df y" "df y < 2 ^ 64"
  shows "diyfp_mul x y = diyfp_of ((df x * df y + 2 ^ 63) div 2 ^ 64) (de x + de y + 64)"
proof -
  define a b c d where "a = df x div 2 ^ 32" and "b = df x mod 2 ^ 32" and "c = df y div 2 ^ 32" and "d = df y mod 2 ^ 32"
  have x: "df x = a * 2 ^ 32 + b" and y: "df y = c * 2 ^ 32 + d"
    unfolding a_def b_def c_def d_def by (simp_all only: div_mult_mod_eq)
  have r: "0 \<le> a" "a < 2 ^ 32" "0 \<le> b" "b < 2 ^ 32" "0 \<le> c" "c < 2 ^ 32" "0 \<le> d" "d < 2 ^ 32"
    using assms by (simp_all add: a_def b_def c_def d_def pos_imp_zdiv_nonneg_iff)
  have small: "0 \<le> u * v \<and> u * v \<le> (2 ^ 32 - 1) * (2 ^ 32 - 1)" if "0 \<le> u" "u < 2 ^ 32" "0 \<le> v" "v < 2 ^ 32" for u v :: int
    using that by (intro conjI mult_mono mult_nonneg_nonneg) simp_all
  define p0 p1 p2 p3 where "p0 = b * d" and "p1 = b * c" and "p2 = a * d" and "p3 = a * c"
  have p: "0 \<le> p0" "p0 \<le> (2 ^ 32 - 1) * (2 ^ 32 - 1)" "0 \<le> p1" "p1 \<le> (2 ^ 32 - 1) * (2 ^ 32 - 1)"
    "0 \<le> p2" "p2 \<le> (2 ^ 32 - 1) * (2 ^ 32 - 1)" "0 \<le> p3" "p3 \<le> (2 ^ 32 - 1) * (2 ^ 32 - 1)"
    unfolding p0_def p1_def p2_def p3_def using small r by blast+
  define Q where "Q = p0 div 2 ^ 32 + p1 mod 2 ^ 32 + p2 mod 2 ^ 32 + 2 ^ 31"
  define h where "h = p3 + p2 div 2 ^ 32 + p1 div 2 ^ 32 + Q div 2 ^ 32"
  have lo: "0 \<le> p1 mod 2 ^ 32" "p1 mod 2 ^ 32 < 2 ^ 32" "0 \<le> p2 mod 2 ^ 32" "p2 mod 2 ^ 32 < 2 ^ 32"
    "0 \<le> p0 mod 2 ^ 32" "p0 mod 2 ^ 32 < 2 ^ 32" by simp_all
  have hi: "0 \<le> p0 div 2 ^ 32" "p0 div 2 ^ 32 < 2 ^ 32" "0 \<le> p1 div 2 ^ 32" "p1 div 2 ^ 32 \<le> 2 ^ 32 - 2"
    "0 \<le> p2 div 2 ^ 32" "p2 div 2 ^ 32 \<le> 2 ^ 32 - 2"
    using p by simp_all
  have sum: "0 \<le> x + y + z \<and> x + y + z < 2 ^ 64 \<and> 0 \<le> x + y + z + 2 ^ 31 \<and> x + y + z + 2 ^ 31 < 2 ^ 34" if "0 \<le> x" "x < 2 ^ 32" "0 \<le> y" "y < 2 ^ 32" "0 \<le> z" "z < 2 ^ 32"
    for x y z :: int using that by simp
  note s0 = sum [OF hi(1,2) lo(1-4)]
  then have Q: "0 \<le> Q" "Q < 2 ^ 34" unfolding Q_def by blast+
  then have Q4: "0 \<le> Q div 2 ^ 32" "Q div 2 ^ 32 < 4" by simp_all
  have "df x * df y = p3 * 2 ^ 64 + (p1 + p2) * 2 ^ 32 + p0"
    by (simp add: x y p0_def p1_def p2_def p3_def algebra_simps)
  also have "\<dots> + 2 ^ 63 = (h - Q div 2 ^ 32) * 2 ^ 64 + (Q * 2 ^ 32 + p0 mod 2 ^ 32)"
  proof -
    have "p3 * 2 ^ 64 + ((h1 * 2 ^ 32 + l1) + (h2 * 2 ^ 32 + l2)) * 2 ^ 32 + (h0 * 2 ^ 32 + l0) + 2 ^ 63 =
      (p3 + h2 + h1) * 2 ^ 64 + ((h0 + l1 + l2 + 2 ^ 31) * 2 ^ 32 + l0)" for h0 h1 h2 l0 l1 l2 :: int by simp
    from this [of "p1 div 2 ^ 32" "p1 mod 2 ^ 32" "p2 div 2 ^ 32" "p2 mod 2 ^ 32" "p0 div 2 ^ 32" "p0 mod 2 ^ 32"]
    have "p3 * 2 ^ 64 + (p1 + p2) * 2 ^ 32 + p0 + 2 ^ 63 =
        (p3 + p2 div 2 ^ 32 + p1 div 2 ^ 32) * 2 ^ 64 + (Q * 2 ^ 32 + p0 mod 2 ^ 32)"
      unfolding Q_def by (simp only: div_mult_mod_eq)
    moreover have "h - Q div 2 ^ 32 = p3 + p2 div 2 ^ 32 + p1 div 2 ^ 32" by (simp only: h_def add_diff_cancel_right')
    ultimately show ?thesis by (simp only:)
  qed
  finally have "(df x * df y + 2 ^ 63) div 2 ^ 64 = h - Q div 2 ^ 32 + (Q * 2 ^ 32 + p0 mod 2 ^ 32) div 2 ^ 64" by simp
  moreover have "(Q * 2 ^ 32 + p0 mod 2 ^ 32) div 2 ^ 64 = Q div 2 ^ 32"
  proof -
    have "(Q * 2 ^ 32 + p0 mod 2 ^ 32) div (2 ^ 32 * 2 ^ 32) = (Q * 2 ^ 32 + p0 mod 2 ^ 32) div 2 ^ 32 div 2 ^ 32"
      by (rule zdiv_zmult2_eq) simp
    then show ?thesis by simp
  qed
  ultimately have q: "(df x * df y + 2 ^ 63) div 2 ^ 64 = h" by simp
  have "df x * df y \<le> (2 ^ 64 - 1) * (2 ^ 64 - 1)" using assms by (intro mult_mono) simp_all
  then have h: "0 \<le> h" "h < 2 ^ 64" using assms unfolding q [symmetric] by (simp_all add: pos_imp_zdiv_nonneg_iff)
  have u: "u64 p0 = p0" "u64 p1 = p1" "u64 p2 = p2" "u64 p3 = p3" "u64 h = h"
    using p h by (intro u64_id; simp)+
  have u': "u64 (p0 div 2 ^ 32 + p1 mod 2 ^ 32 + p2 mod 2 ^ 32) = p0 div 2 ^ 32 + p1 mod 2 ^ 32 + p2 mod 2 ^ 32"
    using s0 by (intro u64_id) blast+
  have uQ: "u64 Q = Q" using Q by (intro u64_id; simp)
  have width: "64 - 32 - 1 = (31 :: nat)" by simp
  have "diyfp_mul x y = diyfp_of (u64 h) (de x + de y + 64)"
    unfolding diyfp_mul_def Let_def a_def [symmetric] b_def [symmetric] c_def [symmetric] d_def [symmetric]
      p0_def [symmetric] p1_def [symmetric] p2_def [symmetric] p3_def [symmetric] u(1-4) u' width
      Q_def [symmetric] uQ h_def [symmetric] by (rule refl)
  then show ?thesis unfolding u(5) q .
qed

section \<open>Normalization\<close>

lemma normalize_loop_eq:
  "0 < f \<Longrightarrow> 2 ^ 63 \<le> f * 2 ^ t \<Longrightarrow> f * 2 ^ t < 2 ^ 64 \<Longrightarrow> normalize_loop f e = diyfp_of (f * 2 ^ t) (e - int t)"
proof (induction t arbitrary: f e)
  case 0
  then show ?case by (subst normalize_loop.simps) simp
next
  case (Suc t)
  have "f < 2 ^ 63"
  proof (rule ccontr)
    assume "\<not> f < 2 ^ 63"
    then have "2 ^ 63 * 2 ^ Suc 0 \<le> f * 2 ^ Suc t" by (intro mult_mono power_increasing) simp_all
    with Suc.prems show False by simp
  qed
  with Suc show ?case by (subst normalize_loop.simps) (simp add: ac_simps diff_diff_eq)
qed

lemma normalizing_shift:
  assumes "0 < (m :: int)" and "m < 2 ^ 53"
  obtains s where "10 \<le> s" "s \<le> 62" "2 ^ 63 \<le> m * 2 ^ (s + 1)" "m * 2 ^ (s + 1) < 2 ^ 64"
    "2 ^ 52 \<le> m \<Longrightarrow> s = 10"
proof -
  have b: "0 < blen m" "2 ^ nat (blen m - 1) \<le> m" "m < 2 ^ nat (blen m)" using blen_bounds [OF assms(1)] by simp_all
  have up: "blen m \<le> 53"
  proof (rule ccontr)
    assume "\<not> blen m \<le> 53"
    then have "(2 :: int) ^ 53 \<le> 2 ^ nat (blen m - 1)" by (intro power_increasing) simp_all
    with b assms show False by linarith
  qed
  define s where "s = nat (63 - blen m)"
  have s: "10 \<le> s" "s \<le> 62" using up b(1) by (simp_all add: s_def)
  have e: "nat (blen m - 1) + (s + 1) = 63" "nat (blen m) + (s + 1) = 64" using up b(1) by (simp_all add: s_def)
  have "2 ^ nat (blen m - 1) * 2 ^ (s + 1) \<le> m * 2 ^ (s + 1)" "m * 2 ^ (s + 1) < 2 ^ nat (blen m) * 2 ^ (s + 1)"
    using b by (intro mult_right_mono mult_strict_right_mono; simp)+
  then have "2 ^ 63 \<le> m * 2 ^ (s + 1)" "m * 2 ^ (s + 1) < 2 ^ 64" by (simp_all only: power_add [symmetric] e)
  moreover have "s = 10" if "2 ^ 52 \<le> m"
  proof (rule ccontr)
    assume "s \<noteq> 10"
    then have "(2 :: int) ^ nat (blen m) \<le> 2 ^ 52" using s by (intro power_increasing) (simp_all add: s_def)
    with b that show False by linarith
  qed
  ultimately show ?thesis using that s by blast
qed

section \<open>The numbers of the format\<close>

lemma representable_parts:
  assumes "representable a" and "0 < a"
  shows "0 < significand a" "significand a < 2 ^ 53" "a = of_int (significand a) * 2 powi ulp_exp a"
    "- 1074 \<le> ulp_exp a" "ulp_exp a \<le> 971" "significand a < 2 ^ 52 \<Longrightarrow> ulp_exp a = - 1074"
proof -
  obtain m e where me: "a = of_int m * 2 powi e" "\<bar>m\<bar> < 2 ^ 53" "- 1074 \<le> e" "e \<le> 971"
    using assms(1) by (auto simp: representable_def)
  note ex = round_pos_exact [OF assms(2) me(1-3)]
  show a: "a = of_int (significand a) * 2 powi ulp_exp a" using ex(3) by (simp add: round_pos_sig)
  show "ulp_exp a \<le> 971" "- 1074 \<le> ulp_exp a" using ex(1) me(4) by (simp_all add: ulp_exp_def)
  show "0 < significand a"
  proof (rule ccontr)
    assume "\<not> 0 < significand a"
    then have "(of_int (significand a) :: rat) * 2 powi ulp_exp a \<le> 0" by (simp add: mult_nonpos_nonneg)
    with a assms(2) show False by simp
  qed
  have "a < 2 powi (flog2 a + 1)" by (rule flog2_bounds) (rule assms(2))
  also have "\<dots> \<le> 2 powi (53 + ulp_exp a)" by (rule powi_mono) (simp add: ulp_exp_def)
  also have "\<dots> = of_int (2 ^ 53) * 2 powi ulp_exp a" by (simp add: power_int_add)
  finally have "of_int (significand a) * 2 powi ulp_exp a < (of_int (2 ^ 53) * 2 powi ulp_exp a :: rat)" using a by linarith
  then have "(of_int (significand a) :: rat) < of_int (2 ^ 53)" by (simp only: mult_less_cancel_right_pos powi_pos)
  then show "significand a < 2 ^ 53" by (simp only: of_int_less_iff)
  show "ulp_exp a = - 1074" if "significand a < 2 ^ 52"
    using significand_bounds(3) [OF assms(2)] that \<open>- 1074 \<le> ulp_exp a\<close> by force
qed

text \<open>The distance to the middle below, in units of a quarter of the last place.\<close>

definition closer :: "rat \<Rightarrow> bool" where
  "closer a \<longleftrightarrow> significand a = 2 ^ 52 \<and> - 1074 < ulp_exp a"

definition below :: "rat \<Rightarrow> rat" where
  "below a = of_int (4 * significand a - (if closer a then 1 else 2)) * 2 powi (ulp_exp a - 2)"

definition above :: "rat \<Rightarrow> rat" where
  "above a = of_int (2 * significand a + 1) * 2 powi (ulp_exp a - 1)"

lemma rne_unique: "\<bar>y - of_int n\<bar> < 1 / 2 \<Longrightarrow> rne y = n"
proof -
  assume "\<bar>y - of_int n\<bar> < 1 / 2"
  then have "\<bar>of_int (rne y) - of_int n\<bar> < (1 :: rat)" using rne_near [of y] by linarith
  then have "\<bar>of_int (rne y - n)\<bar> < (1 :: rat)" by simp
  then have "\<bar>rne y - n\<bar> < 1" by linarith
  then show ?thesis by simp
qed

lemma round_pos_near:
  assumes "0 < D" and "a / 2 powi ulp_exp D = of_int n" and "\<bar>D - a\<bar> < 2 powi (ulp_exp D - 1)"
  shows "round_pos D = a"
proof -
  let ?u = "(2 :: rat) powi ulp_exp D"
  have half: "2 powi (ulp_exp D - 1) = ?u / 2" by (simp add: power_int_diff)
  have "D / ?u - of_int n = (D - a) / ?u" by (simp only: assms(2) [symmetric] diff_divide_distrib)
  then have "\<bar>D / ?u - of_int n\<bar> = \<bar>D - a\<bar> / ?u" by simp
  also have "\<dots> < 1 / 2" using assms(3) by (simp add: half divide_less_eq)
  finally have "rne (D / ?u) = n" by (rule rne_unique)
  then show ?thesis using assms(2) by (simp add: round_pos_eq field_simps)
qed

lemma flog2_between:
  assumes "2 powi e \<le> x" "x < 2 powi f" "f = e + 1"
  shows "flog2 x = e"
proof -
  have "0 < x" using assms(1) powi_pos [of e] by linarith
  then show ?thesis using assms by (intro flog2_unique) simp_all
qed

text \<open>A number between the middles rounds to the given one.\<close>

lemma between_rounds:
  assumes "representable a" "0 < a" and "below a < D" "D < above a"
  shows "0 < D" "round_pos D = a"
proof -
  define m e where "m = significand a" and "e = ulp_exp a"
  note part = representable_parts [OF assms(1,2), folded m_def e_def]
  define u where "u = (2 :: rat) powi (e - 2)"
  have u: "0 < u" "2 powi e = 4 * u" "2 powi (e - 1) = 2 * u" by (simp_all add: u_def power_int_diff)
  have a: "a = of_int (4 * m) * u" using part(3) u(2) by simp
  have closer: "closer a \<longleftrightarrow> m = 2 ^ 52 \<and> - 1074 < e" by (simp add: closer_def m_def e_def)
  have below_m: "below a = of_int (4 * m - (if closer a then 1 else 2)) * u" by (simp add: below_def u_def m_def e_def)
  have below: "below a = a - of_int (if closer a then 1 else 2) * u" unfolding below_m a [symmetric] of_int_diff left_diff_distrib by (rule refl)
  have above: "above a = a + 2 * u" 
  proof -
    have "above a = of_int (2 * m + 1) * (2 * u)" unfolding above_def m_def [symmetric] e_def [symmetric] u(3) by (rule refl)
    also have "\<dots> = of_int (4 * m) * u + 2 * u" by (simp add: algebra_simps)
    finally show ?thesis by (simp only: a [symmetric])
  qed
  have low: "2 * u \<le> below a"
  proof -
    have "of_int 2 \<le> (of_int (4 * m - (if closer a then 1 else 2)) :: rat)"
      using part(1) by (simp only: of_int_le_iff split: if_split) simp
    then have "of_int 2 * u \<le> of_int (4 * m - (if closer a then 1 else 2)) * u" using u(1) by (simp only: mult_le_cancel_right_pos)
    then show ?thesis by (simp add: below_m)
  qed
  then show "0 < D" using assms(3) u(1) by linarith
  have top: "a + 4 * u \<le> 2 powi (e + 53)"
  proof -
    have "(of_int (m + 1) :: rat) \<le> of_int (2 ^ 53)" using part(2) by (simp only: of_int_le_iff)
    then have "of_int (m + 1) * (4 * u) \<le> of_int (2 ^ 53) * (4 * u)" using u(1) by (intro mult_right_mono) simp_all
    then show ?thesis by (simp add: power_int_add u(2) a algebra_simps)
  qed
  have D_low: "D < 2 powi (e + 53)" using assms(4) above top u(1) by linarith
  show "round_pos D = a"
  proof (cases "closer a \<and> D < a")
    case True
    then have m: "m = 2 ^ 52" "- 1074 < e" by (simp_all add: closer)
    have "a = 2 powi (e + 52)" using part(3) by (simp add: m(1) power_int_add)
    moreover have "2 powi (e + 51) = a - 4 * 2 ^ 51 * u" by (simp add: power_int_add u(2) a m(1))
    ultimately have "flog2 D = e + 51"
      using True assms(3) below u(1) by (intro flog2_between [of _ _ "e + 52"]) simp_all
    then have ue: "ulp_exp D = e - 1" using m(2) by (simp add: ulp_exp_def)
    show ?thesis
      by (rule round_pos_near [OF \<open>0 < D\<close>, of _ "2 * m"])
        (use True assms(3) below u a in \<open>simp_all add: ue u_def [symmetric] abs_less_iff\<close>)
  next
    case False
    have ue: "ulp_exp D = e"
    proof (cases "e = - 1074")
      case True
      have "2 powi flog2 D < (2 :: rat) powi (e + 53)" using flog2_bounds(1) [OF \<open>0 < D\<close>] D_low by linarith
      then show ?thesis using True powi_lessD by (fastforce simp: ulp_exp_def)
    next
      case ne: False
      then have m: "2 ^ 52 \<le> m" using part(6) by fastforce
      have step: "2 powi (e + 52) = of_int (2 ^ 52) * (4 * u)" by (simp add: power_int_add u(2))
      have "2 powi (e + 52) \<le> D"
      proof (cases "D < a")
        case True
        then have "2 ^ 52 + 1 \<le> m" using False ne m part(4) by (auto simp: closer)
        then have "(of_int (2 ^ 52 + 1) :: rat) \<le> of_int m" by (simp only: of_int_le_iff)
        then have "of_int (2 ^ 52 + 1) * (4 * u) \<le> of_int m * (4 * u)" using u(1) by (intro mult_right_mono) simp_all
        then have "2 powi (e + 52) + 4 * u \<le> a" by (simp only: step a of_int_mult of_int_add) (simp add: distrib_right)
        moreover have "a - 2 * u < D" using True False assms(3) below by simp
        ultimately show ?thesis using u(1) by linarith
      next
        case ge: False
        have "(of_int (2 ^ 52) :: rat) \<le> of_int m" using m by (simp only: of_int_le_iff)
        then have "of_int (2 ^ 52) * (4 * u) \<le> of_int m * (4 * u)" using u(1) by (intro mult_right_mono) simp_all
        then have "2 powi (e + 52) \<le> a" by (simp only: step a of_int_mult)
        then show ?thesis using ge by simp
      qed
      then have "flog2 D = e + 52" using D_low by (rule flog2_between) simp
      then show ?thesis using part(4) by (simp add: ulp_exp_def)
    qed
    show ?thesis
      by (rule round_pos_near [OF \<open>0 < D\<close>, of _ m])
        (use False assms(3,4) below above u a in \<open>auto simp: ue u abs_less_iff split: if_splits\<close>)
  qed
qed

end
