(* ===== verification/DtoaCorrect.thy ===== *)
theory DtoaCorrect
  imports DtoaBounds
begin

text \<open>
  Grisu2 as a whole: for every positive number of the format the code returns at most 17 digits, no
  assertion fails and nothing overflows, and the decimal number rounds to the given one.
\<close>

section \<open>The boundaries in the code\<close>

lemma reinterpret_parts:
  assumes "representable a" and "0 < a"
  defines "E \<equiv> reinterpret_bits a div 2 ^ (kPrecision - 1)" and "F \<equiv> reinterpret_bits a mod kHiddenBit"
  shows "(if E = 0 then diyfp_of F kMinExp else diyfp_of (F + kHiddenBit) (E - kBias)) =
      diyfp_of (significand a) (ulp_exp a)"
    and "(F = 0 \<and> E > 1) = closer a"
proof -
  define m e where "m = significand a" and "e = ulp_exp a"
  note part = representable_parts [OF assms(1,2), folded m_def e_def]
  have EF: "E = (if m < 2 ^ 52 then 0 else e + 1075)" "F = (if m < 2 ^ 52 then m else m - 2 ^ 52)"
  proof -
    have b: "reinterpret_bits a = (if m < 2 ^ 52 then m else (e + 1075) * 2 ^ 52 + (m - 2 ^ 52))"
      by (simp only: reinterpret_bits_def Let_def m_def e_def)
    have qr: "(q * 2 ^ 52 + r) div 2 ^ 52 = q" "(q * 2 ^ 52 + r) mod 2 ^ 52 = r" if "0 \<le> r" "r < 2 ^ 52" for q r :: int
      using that by simp_all
    have small: "m div 2 ^ 52 = 0" "m mod 2 ^ 52 = m" if "m < 2 ^ 52" using that part(1) by simp_all
    have large: "((e + 1075) * 2 ^ 52 + (m - 2 ^ 52)) div 2 ^ 52 = e + 1075" "((e + 1075) * 2 ^ 52 + (m - 2 ^ 52)) mod 2 ^ 52 = m - 2 ^ 52"
      if "\<not> m < 2 ^ 52" by (rule qr; use that part(2) in simp)+
    have prec: "kPrecision - 1 = 52" by (simp add: kPrecision_def)
    show "E = (if m < 2 ^ 52 then 0 else e + 1075)" "F = (if m < 2 ^ 52 then m else m - 2 ^ 52)"
      unfolding E_def F_def b kHiddenBit_def prec using small large by (simp_all only: split: if_split) blast+
  qed
  show "(if E = 0 then diyfp_of F kMinExp else diyfp_of (F + kHiddenBit) (E - kBias)) = diyfp_of (significand a) (ulp_exp a)"
    using part(4,6) by (simp add: EF kMinExp_def kBias_def kHiddenBit_def kPrecision_def flip: m_def e_def)
  show "(F = 0 \<and> E > 1) = closer a"
    using part(1,4,6) by (auto simp: EF closer_def simp flip: m_def e_def)
qed

lemma diyfp_of_sel [simp]: "df (diyfp_of f e) = f" "de (diyfp_of f e) = e"
  by (simp_all add: diyfp_of_def)

lemma normalize_Ret:
  "0 < f \<Longrightarrow> 2 ^ 63 \<le> f * 2 ^ t \<Longrightarrow> f * 2 ^ t < 2 ^ 64 \<Longrightarrow>
    normalize (diyfp_of f e) = Ret (diyfp_of (f * 2 ^ t) (e - int t))"
  by (simp add: normalize_def diyfp_of_def [of f] normalize_loop_eq)

lemma normalize_to_Ret:
  "0 \<le> f \<Longrightarrow> f * 2 ^ t < 2 ^ 64 \<Longrightarrow> t < 64 \<Longrightarrow> e = k + int t \<Longrightarrow>
    normalize_to (diyfp_of f e) k = Ret (diyfp_of (f * 2 ^ t) k)"
  by (simp add: normalize_to_def diyfp_of_def)

lemma compute_boundaries_Ret:
  assumes "representable a" and "0 < a"
  obtains f fm fp k where
    "compute_boundaries a = Ret \<lparr>b_w = diyfp_of f k, b_minus = diyfp_of fm k, b_plus = diyfp_of fp k\<rparr>"
    "- 1137 \<le> k" "k \<le> 960" "of_int fm * 2 powi k = below a" "of_int fp * 2 powi k = above a"
    "2 ^ 63 \<le> fp" "fp < 2 ^ 64" "0 \<le> fm" "fm + 512 \<le> f" "f + 1024 \<le> fp" "fp \<le> 2 ^ 53 * (fp - fm)"
proof -
  define m e where "m = significand a" and "e = ulp_exp a"
  note part = representable_parts [OF assms, folded m_def e_def]
  obtain s where s: "10 \<le> s" "s \<le> 62" "2 ^ 63 \<le> m * 2 ^ (s + 1)" "m * 2 ^ (s + 1) < 2 ^ 64" "2 ^ 52 \<le> m \<Longrightarrow> s = 10"
    using normalizing_shift [OF part(1,2)] by blast
  define k where "k = e - 1 - int s"
  define f fp fm where "f = m * 2 ^ (s + 1)" and "fp = (2 * m + 1) * 2 ^ s"
    and "fm = (if closer a then (4 * m - 1) * 2 ^ (s - 1) else (2 * m - 1) * 2 ^ s)"
  have ss: "(2 :: int) ^ s = 2 * 2 ^ (s - 1)" using s(1) by (cases s) simp_all
  have pos2: "(0 :: int) < 2 ^ s" by simp
  have big: "(512 :: int) \<le> 2 ^ (s - 1)" using power_increasing [of 9 "s - 1" "2 :: int"] s(1) by simp
  have closer: "closer a \<longleftrightarrow> m = 2 ^ 52 \<and> - 1074 < e" by (simp add: closer_def m_def e_def)
  have diff: "fp = f + 2 * 2 ^ (s - 1)" "fm = f - (if closer a then 2 ^ (s - 1) else 2 * 2 ^ (s - 1))"
    by (simp_all add: f_def fp_def fm_def ss left_diff_distrib distrib_right)
  have fp: "2 ^ 63 \<le> fp" "fp < 2 ^ 64"
  proof -
    show "2 ^ 63 \<le> fp" using s(3) diff(1) big by (simp add: f_def)
    have "m * 2 ^ (s + 1) < 2 ^ (63 - s) * 2 ^ (s + 1)" using s(2,4) by (simp only: power_add [symmetric]) simp
    then have "m < 2 ^ (63 - s)" by (simp only: mult_less_cancel_right_pos zero_less_power zero_less_numeral)
    then have "(m + 1) * 2 ^ (s + 1) \<le> 2 ^ (63 - s) * 2 ^ (s + 1)" by (intro mult_right_mono) simp_all
    then have "(m + 1) * 2 ^ (s + 1) \<le> 2 ^ 64" using s(2) by (simp only: power_add [symmetric]) simp
    then show "fp < 2 ^ 64" by (simp add: fp_def algebra_simps) (use pos2 in linarith)
  qed
  have fm: "0 \<le> fm" "fm < 2 ^ 64" "fm + 512 \<le> f"
    subgoal using part(1) by (simp add: fm_def)
    using diff(2) big fp(2) diff(1) by (simp_all split: if_splits)
  have plus: "normalize (diyfp_of (u64 (2 * m + 1)) (e - 1)) = Ret (diyfp_of fp k)"
    using normalize_Ret [of "2 * m + 1" s "e - 1"] part(1,2) fp by (simp add: fp_def k_def)
  have val: "normalize (diyfp_of m e) = Ret (diyfp_of f k)"
    using normalize_Ret [OF part(1) s(3,4), of e] by (simp add: f_def k_def algebra_simps)
  have minus: "normalize_to (if closer a then diyfp_of (u64 (4 * m - 1)) (e - 2) else diyfp_of (u64 (2 * m - 1)) (e - 1)) k =
      Ret (diyfp_of fm k)"
  proof (cases "closer a")
    case True
    then show ?thesis
      using normalize_to_Ret [of "4 * m - 1" "s - 1" "e - 2" k] part(1,2) fm s by (simp add: fm_def k_def)
  next
    case False
    then show ?thesis
      using normalize_to_Ret [of "2 * m - 1" s "e - 1" k] part(1,2) fm s by (simp add: fm_def k_def)
  qed
  have "compute_boundaries a = Ret \<lparr>b_w = diyfp_of f k, b_minus = diyfp_of fm k, b_plus = diyfp_of fp k\<rparr>"
    unfolding compute_boundaries_def Let_def reinterpret_parts [OF assms] m_def [symmetric] e_def [symmetric]
    using assms(2) plus val minus by (cases "closer a") simp_all
  moreover have "- 1137 \<le> k" "k \<le> 960" using part(4-6) s(1,2,5) by (auto simp: k_def)
  moreover have "of_int fm * 2 powi k = below a" "of_int fp * 2 powi k = above a"
  proof -
    have shifted: "of_int (x * 2 ^ t) * 2 powi (y - int t) = (of_int x * 2 powi y :: rat)" for x y t
      by (simp add: power_int_diff)
    have "fm = (4 * m - (if closer a then 1 else 2)) * 2 ^ (s - 1)" by (simp add: fm_def ss)
    moreover have "k = e - 2 - int (s - 1)" using s(1) by (simp add: k_def)
    ultimately show "of_int fm * 2 powi k = below a" by (simp only: shifted below_def m_def e_def)
    show "of_int fp * 2 powi k = above a" by (simp only: fp_def k_def shifted above_def m_def e_def)
  qed
  moreover have "fp \<le> 2 ^ 53 * (fp - fm)"
  proof -
    define P :: int where "P = 2 ^ (s - 1)"
    have P: "0 < P" by (simp add: P_def)
    have fpP: "fp = (2 * m + 1) * 2 * P" by (simp add: fp_def ss P_def)
    show ?thesis
    proof (cases "closer a")
      case True
      then have "fp - fm = 3 * P" using diff by (simp add: P_def)
      moreover have "m = 2 ^ 52" using True closer by simp
      ultimately show ?thesis using P fpP by simp
    next
      case False
      then have "fp - fm = 4 * P" using diff by (simp add: P_def)
      moreover have "(2 * m + 1) * 2 * P \<le> 2 ^ 55 * P" using part(2) P by (intro mult_right_mono) simp_all
      ultimately show ?thesis using fpP by simp
    qed
  qed
  ultimately show ?thesis using that fp fm diff(1) big by simp
qed

section \<open>Scaling\<close>

text \<open>A product with a cached power is less than one unit away from the exact one.\<close>

lemma scaled_near:
  assumes "power_rounded (cf, ce, ck)" and "0 \<le> f" "f < 2 ^ 64"
  defines "W \<equiv> (f * cf + 2 ^ 63) div 2 ^ 64" and "R \<equiv> of_int f * exact_power ce ck / 2 ^ 64"
  shows "of_int W < R + 1" "R < of_int W + 1"
proof -
  have c: "\<bar>of_int cf - exact_power ce ck\<bar> \<le> 1 / 2" using assms(1) by (simp add: power_rounded_def)
  have "W * 2 ^ 64 \<le> f * cf + 2 ^ 63" "f * cf + 2 ^ 63 < W * 2 ^ 64 + 2 ^ 64"
    using div_floor [of "2 ^ 64" "f * cf + 2 ^ 63"] by (simp_all add: W_def)
  then have "(of_int (W * 2 ^ 64) :: rat) \<le> of_int (f * cf + 2 ^ 63)" "(of_int (f * cf + 2 ^ 63) :: rat) < of_int (W * 2 ^ 64 + 2 ^ 64)"
    by (simp_all only: of_int_le_iff of_int_less_iff)
  then have w: "of_int W * 2 ^ 64 \<le> of_int f * of_int cf + (2 ^ 63 :: rat)" "of_int f * of_int cf + (2 ^ 63 :: rat) < of_int W * 2 ^ 64 + 2 ^ 64"
    by simp_all
  have "\<bar>of_int f * (of_int cf - exact_power ce ck)\<bar> \<le> of_int f * (1 / 2)"
    unfolding abs_mult using c assms(2) by (intro mult_mono) simp_all
  also have "(of_int f :: rat) * (1 / 2) < 2 ^ 63"
  proof -
    have "(of_int f :: rat) < of_int (2 ^ 64)" using assms(3) by (simp only: of_int_less_iff)
    then show ?thesis by simp
  qed
  finally have "of_int f * of_int cf - of_int f * exact_power ce ck < 2 ^ 63" "of_int f * exact_power ce ck - of_int f * of_int cf < 2 ^ 63"
    by (simp_all add: right_diff_distrib abs_less_iff)
  with w have "of_int W * 2 ^ 64 < of_int f * exact_power ce ck + 2 ^ 64" "of_int f * exact_power ce ck < of_int W * 2 ^ 64 + 2 ^ 64"
    by simp_all
  then show "of_int W < R + 1" "R < of_int W + 1" by (simp_all add: R_def field_simps)
qed

text \<open>The scaled boundaries with one unit taken off on both sides meet what the digit generation needs.\<close>

lemma scaled_bounds:
  fixes r F Fm Fp W Wm Wp :: rat
  assumes r: "49 / 100 \<le> r"
    and W: "W < F * r + 1" "F * r < W + 1" and Wm: "Wm < Fm * r + 1" "Fm * r < Wm + 1" and Wp: "Wp < Fp * r + 1" "Fp * r < Wp + 1"
    and F: "2 ^ 63 \<le> Fp" "Fm + 512 \<le> F" "F + 1024 \<le> Fp" "Fp \<le> 2 ^ 53 * (Fp - Fm)"
  shows "Wm + 1 < Wp - 1" "Wm + 1 \<le> W" "W \<le> Wp - 1" "2 ^ 60 \<le> Wp - 1" "Wp - 1 < 10 ^ 16 * ((Wp - 1) - (Wm + 1))"
    and "Fm * r < Wm + 1" "Wp - 1 < Fp * r"
proof -
  have mult: "c * (49 / 100) \<le> d * r" if "0 \<le> c" "c \<le> d" for c d using that r by (intro mult_mono) simp_all
  from mult [of 512 "F - Fm"] F have 1: "Fm * r + 250 \<le> F * r" by (simp add: left_diff_distrib)
  from mult [of 1024 "Fp - F"] F have 2: "F * r + 500 \<le> Fp * r" by (simp add: left_diff_distrib)
  from mult [of "2 ^ 63" Fp] F have 3: "2 ^ 61 \<le> Fp * r" by simp
  have "Fp * r \<le> 2 ^ 53 * (Fp - Fm) * r" using F r by (intro mult_right_mono) simp_all
  then have 4: "Fp * r \<le> 2 ^ 53 * (Fp * r - Fm * r)" by (simp add: algebra_simps)
  show "Wm + 1 < Wp - 1" "Wm + 1 \<le> W" "W \<le> Wp - 1" "2 ^ 60 \<le> Wp - 1" "Fm * r < Wm + 1" "Wp - 1 < Fp * r"
    using 1 2 3 W Wm Wp by simp_all
  show "Wp - 1 < 10 ^ 16 * ((Wp - 1) - (Wm + 1))"
    using 1 2 4 Wm Wp by simp
qed

section \<open>Digits of a number\<close>

lemma between_middles:
  assumes "between lo hi sh ds x" and "of_int Fm * (exact_power ce ck / 2 ^ 64) < of_int lo"
    and "of_int hi < of_int Fp * (exact_power ce ck / 2 ^ 64)" and "ce + k + 64 = - int sh"
  shows "of_int Fm * 2 powi k < of_int (digits_int ds) * pow10 (x - ck)" "of_int (digits_int ds) * pow10 (x - ck) < of_int Fp * 2 powi k"
proof -
  define r where "r = exact_power ce ck / 2 ^ 64"
  define N where "N = (of_int (digits_int ds) :: rat)"
  have b: "of_int Fm * r < N * pow10 x * 2 ^ sh" "N * pow10 x * 2 ^ sh < of_int Fp * r"
    using assms(1-3) by (simp_all add: between_def r_def N_def)
  have "2 powi (- ce) / 2 ^ 64 = (2 :: rat) powi (- ce - 64)" by (simp add: power_int_diff)
  also have "- ce - 64 = k + int sh" using assms(4) by simp
  also have "(2 :: rat) powi (k + int sh) = 2 powi k * 2 ^ sh" by (simp add: power_int_add)
  finally have r: "r = 2 powi k * (pow10 ck * 2 ^ sh)"
    by (simp add: r_def exact_power_def)
  have N: "N * pow10 x * 2 ^ sh = N * pow10 (x - ck) * (pow10 ck * 2 ^ sh)"
    using pow10_add [of "x - ck" ck] by simp
  have e: "of_int F * r = of_int F * 2 powi k * (pow10 ck * 2 ^ sh)" for F by (simp only: r mult.assoc)
  have c: "0 < pow10 ck * 2 ^ sh" by simp
  have "of_int Fm * 2 powi k * (pow10 ck * 2 ^ sh) < N * pow10 (x - ck) * (pow10 ck * 2 ^ sh)"
    "N * pow10 (x - ck) * (pow10 ck * 2 ^ sh) < of_int Fp * 2 powi k * (pow10 ck * 2 ^ sh)"
    using b unfolding e N .
  then show "of_int Fm * 2 powi k < of_int (digits_int ds) * pow10 (x - ck)"
    "of_int (digits_int ds) * pow10 (x - ck) < of_int Fp * 2 powi k"
    unfolding N_def [symmetric] mult_less_cancel_right_pos [OF c] .
qed

lemma grisu2_Ret:
  assumes "representable a" "0 < a" "17 \<le> room"
  obtains ds x where "grisu2 room a = Ret (ds, x)" "decimal_digits ds" "ds \<noteq> []" "length ds \<le> 17"
    "below a < of_int (digits_int ds) * pow10 x" "of_int (digits_int ds) * pow10 x < above a"
proof -
  obtain f fm fp k where b: "compute_boundaries a = Ret \<lparr>b_w = diyfp_of f k, b_minus = diyfp_of fm k, b_plus = diyfp_of fp k\<rparr>"
    "- 1137 \<le> k" "k \<le> 960" "of_int fm * 2 powi k = below a" "of_int fp * 2 powi k = above a"
    "2 ^ 63 \<le> fp" "fp < 2 ^ 64" "0 \<le> fm" "fm + 512 \<le> f" "f + 1024 \<le> fp" "fp \<le> 2 ^ 53 * (fp - fm)"
    by (rule compute_boundaries_Ret [OF assms(1,2)])
  obtain cf ce ck where c: "get_cached_power_for_binary_exponent k = Ret (cf, ce, ck)" "power_rounded (cf, ce, ck)"
    "- 60 \<le> ce + k + 64" "ce + k + 64 \<le> - 32"
    using cached_power [OF b(2,3)] by blast
  have cf: "2 ^ 63 \<le> cf" "cf < 2 ^ 64" "\<bar>of_int cf - exact_power ce ck\<bar> \<le> 1 / 2" using c(2) by (simp_all add: power_rounded_def)
  define W where "W g = (g * cf + 2 ^ 63) div 2 ^ 64" for g
  define r where "r = exact_power ce ck / 2 ^ 64"
  have f: "0 \<le> f" "f < 2 ^ 64" "fm < 2 ^ 64" "0 \<le> fp" using b(6-10) by simp_all
  have near: "of_int (W g) < of_int g * r + 1" "of_int g * r < of_int (W g) + 1" if "0 \<le> g" "g < 2 ^ 64" for g
    using scaled_near [OF c(2) that] by (simp_all add: W_def r_def)
  have r: "49 / 100 \<le> r"
  proof -
    have "(of_int (2 ^ 63) :: rat) \<le> of_int cf" using cf(1) by (simp only: of_int_le_iff)
    moreover have "of_int cf - exact_power ce ck \<le> 1 / 2" using cf(3) abs_ge_self order_trans by blast
    ultimately have "of_int (2 ^ 63) - 1 / 2 \<le> exact_power ce ck" by linarith
    then show ?thesis by (simp add: r_def)
  qed
  have F: "2 ^ 63 \<le> (of_int fp :: rat)" "of_int fm + 512 \<le> (of_int f :: rat)" "of_int f + 1024 \<le> (of_int fp :: rat)"
    "of_int fp \<le> 2 ^ 53 * (of_int fp - of_int fm :: rat)"
  proof -
    have "(of_int (2 ^ 63) :: rat) \<le> of_int fp" "(of_int (fm + 512) :: rat) \<le> of_int f" "(of_int (f + 1024) :: rat) \<le> of_int fp"
      "(of_int fp :: rat) \<le> of_int (2 ^ 53 * (fp - fm))" using b(6,9-11) by (simp_all only: of_int_le_iff)
    then show "2 ^ 63 \<le> (of_int fp :: rat)" "of_int fm + 512 \<le> (of_int f :: rat)" "of_int f + 1024 \<le> (of_int fp :: rat)"
      "of_int fp \<le> 2 ^ 53 * (of_int fp - of_int fm :: rat)" by simp_all
  qed
  note sb = scaled_bounds [OF r near [OF f(1,2)] near [OF b(8) f(3)] near [OF f(4) b(7)] F]
  have Wint: "W fm + 1 < W fp - 1" "W fm + 1 \<le> W f" "W f \<le> W fp - 1" "2 ^ 60 \<le> W fp - 1" "W fp - 1 < 10 ^ 16 * ((W fp - 1) - (W fm + 1))"
  proof -
    have "(of_int (W fm + 1) :: rat) < of_int (W fp - 1)" "(of_int (W fm + 1) :: rat) \<le> of_int (W f)" "(of_int (W f) :: rat) \<le> of_int (W fp - 1)"
      "(of_int (2 ^ 60) :: rat) \<le> of_int (W fp - 1)" "(of_int (W fp - 1) :: rat) < of_int (10 ^ 16 * ((W fp - 1) - (W fm + 1)))"
      using sb(1-5) by simp_all
    then show "W fm + 1 < W fp - 1" "W fm + 1 \<le> W f" "W f \<le> W fp - 1" "2 ^ 60 \<le> W fp - 1" "W fp - 1 < 10 ^ 16 * ((W fp - 1) - (W fm + 1))"
      by (simp_all only: of_int_le_iff of_int_less_iff)
  qed
  have Wb: "0 \<le> W fm" "W fp < 2 ^ 64"
  proof -
    show "0 \<le> W fm" using b(8) cf(1) by (simp add: W_def pos_imp_zdiv_nonneg_iff)
    have "fp * cf \<le> (2 ^ 64 - 1) * (2 ^ 64 - 1)" using b(7) cf f(4) by (intro mult_mono) simp_all
    then show "W fp < 2 ^ 64" by (simp add: W_def)
  qed
  have mul: "diyfp_mul (diyfp_of g k) (diyfp_of cf ce) = diyfp_of (W g) (ce + k + 64)" if "0 \<le> g" "g < 2 ^ 64" for g
    using diyfp_mul_eq [of "diyfp_of g k" "diyfp_of cf ce"] that cf(1,2) by (simp add: W_def add.commute)
  have u: "u64 (W fm + 1) = W fm + 1" "u64 (W fp - 1) = W fp - 1" using Wb Wint by simp_all
  have "0 < W fm + 1" "W fp - 1 < 2 ^ 64" using Wb by simp_all
  then obtain ds x where gen: "grisu2_digit_gen room (- ck) (diyfp_of (W fm + 1) (ce + k + 64)) (diyfp_of (W f) (ce + k + 64))
      (diyfp_of (W fp - 1) (ce + k + 64)) = Ret (ds, - ck + x)" "decimal_digits ds" "ds \<noteq> []" "length ds \<le> 17"
      "between (W fm + 1) (W fp - 1) (nat (- (ce + k + 64))) ds x"
    using grisu2_digit_gen_Ret [OF c(3,4) _ Wint(1-3) _ Wint(4,5) assms(3), of "- ck"] by blast
  have "grisu2 room a = Ret (ds, x - ck)"
    unfolding grisu2_def grisu2_bounds_def Let_def using assms(2) gen(1)
    by (simp add: b(1) c(1) mul [OF f(1,2)] mul [OF b(8) f(3)] mul [OF f(4) b(7)] u)
  moreover have "of_int fm * 2 powi k < of_int (digits_int ds) * pow10 (x - ck)" "of_int (digits_int ds) * pow10 (x - ck) < of_int fp * 2 powi k"
    using between_middles [OF gen(5), of fm ce ck fp k] sb(6,7) c(4) by (simp_all add: r_def)
  ultimately show ?thesis using that gen(2-4) b(4,5) by simp
qed

text \<open>The digits round to the number.\<close>

lemma grisu2_rounds:
  assumes "representable a" "0 < a" "17 \<le> room"
  obtains ds x where "grisu2 room a = Ret (ds, x)" "decimal_digits ds" "ds \<noteq> []" "length ds \<le> 17"
    "rnd False (of_int (digits_int ds) * pow10 x) = Fin a" "rnd True (- (of_int (digits_int ds) * pow10 x)) = Fin (- a)"
    "of_int (digits_int ds) * pow10 x < 2 ^ 1025" "2 powi (- 1076) < of_int (digits_int ds) * pow10 x"
proof -
  obtain ds x where g: "grisu2 room a = Ret (ds, x)" "decimal_digits ds" "ds \<noteq> []" "length ds \<le> 17"
    and b: "below a < of_int (digits_int ds) * pow10 x" "of_int (digits_int ds) * pow10 x < above a"
    by (rule grisu2_Ret [OF assms])
  define D where "D = of_int (digits_int ds) * pow10 x"
  note r = between_rounds [OF assms(1,2) b, folded D_def]
  have exact: "rnd False a = Fin a" using rnd_False_exact [OF assms(1)] .
  then have no: "\<not> overflows a" using assms(2) by (auto simp: rnd_def split: if_splits)
  have ex: "round_pos a = a" using exact no assms(2) by (auto simp: rnd_def)
  have noD: "\<not> overflows D" using no overflows_iff [OF r(1)] overflows_iff [OF assms(2)] r(2) ex by simp
  have "significand D \<noteq> 0" using r(2) assms(2) by (auto simp: round_pos_sig)
  then have "rnd False D = Fin a" "rnd True (- D) = Fin (- a)" using r noD by (simp_all add: rnd_def)
  moreover have "D < 2 ^ 1025" "2 powi (- 1076) < D"
  proof -
    note part = representable_parts [OF assms(1,2)]
    have "(of_int (2 * significand a + 1) :: rat) \<le> of_int (2 ^ 54)" using part(2) by (simp only: of_int_le_iff) simp
    then have "above a \<le> of_int (2 ^ 54) * 2 powi 971"
      unfolding above_def using part(1,5) by (intro mult_mono powi_mono) simp_all
    also have "\<dots> = (2 :: rat) ^ 1025" by (simp add: power_int_def)
    finally show "D < 2 ^ 1025" using b(2) by (simp add: D_def)
    have "(of_int 2 :: rat) \<le> of_int (4 * significand a - (if closer a then 1 else 2))" using part(1) by (simp only: of_int_le_iff split: if_split) simp
    then have "of_int 2 * 2 powi (- 1076) \<le> below a"
      unfolding below_def using part(1,4) by (intro mult_mono powi_mono) simp_all
    moreover have "2 powi (- 1076) < (2 :: rat) * 2 powi (- 1076)" using powi_pos [of "- 1076"] by linarith
    ultimately show "2 powi (- 1076) < D" using b(1) by (simp add: D_def)
  qed
  ultimately show ?thesis using that g by (simp add: D_def)
qed

end
