(* ===== verification/JsonSerializer.thy ===== *)
theory JsonSerializer
  imports Dtoa Json
begin

text \<open>
  The serializer of the JSON library, \<open>class serializer\<close> of \<open>json.hpp\<close>, writing to a
  string, and \<open>basic_json::dump\<close>.

  The output of a function is the text it appends.  The buffer of an escaped string is the list of the
  bytes written to it since it has been flushed; a write beyond its 512 bytes is undefined.  The members
  of the serializer that a later call depends on are the indentation string, which is passed along.
  Binary and discarded values do not exist in the model of values.
\<close>

unbundle bit_operations_syntax

section \<open>Decoding UTF-8\<close>

text \<open>The class of every byte, and behind them the next state for a state and a class.\<close>

definition utf8d :: "nat list" where
  "utf8d = [
    0, 0, 0, 0, 0, 0, 0, 0, 0, 0, 0, 0, 0, 0, 0, 0, 0, 0, 0, 0, 0, 0, 0, 0, 0, 0, 0, 0, 0, 0, 0, 0,
    0, 0, 0, 0, 0, 0, 0, 0, 0, 0, 0, 0, 0, 0, 0, 0, 0, 0, 0, 0, 0, 0, 0, 0, 0, 0, 0, 0, 0, 0, 0, 0,
    0, 0, 0, 0, 0, 0, 0, 0, 0, 0, 0, 0, 0, 0, 0, 0, 0, 0, 0, 0, 0, 0, 0, 0, 0, 0, 0, 0, 0, 0, 0, 0,
    0, 0, 0, 0, 0, 0, 0, 0, 0, 0, 0, 0, 0, 0, 0, 0, 0, 0, 0, 0, 0, 0, 0, 0, 0, 0, 0, 0, 0, 0, 0, 0,
    1, 1, 1, 1, 1, 1, 1, 1, 1, 1, 1, 1, 1, 1, 1, 1, 9, 9, 9, 9, 9, 9, 9, 9, 9, 9, 9, 9, 9, 9, 9, 9,
    7, 7, 7, 7, 7, 7, 7, 7, 7, 7, 7, 7, 7, 7, 7, 7, 7, 7, 7, 7, 7, 7, 7, 7, 7, 7, 7, 7, 7, 7, 7, 7,
    8, 8, 2, 2, 2, 2, 2, 2, 2, 2, 2, 2, 2, 2, 2, 2, 2, 2, 2, 2, 2, 2, 2, 2, 2, 2, 2, 2, 2, 2, 2, 2,
    0xA, 0x3, 0x3, 0x3, 0x3, 0x3, 0x3, 0x3, 0x3, 0x3, 0x3, 0x3, 0x3, 0x4, 0x3, 0x3,
    0xB, 0x6, 0x6, 0x6, 0x5, 0x8, 0x8, 0x8, 0x8, 0x8, 0x8, 0x8, 0x8, 0x8, 0x8, 0x8,
    0x0, 0x1, 0x2, 0x3, 0x5, 0x8, 0x7, 0x1, 0x1, 0x1, 0x4, 0x6, 0x1, 0x1, 0x1, 0x1,
    1, 1, 1, 1, 1, 1, 1, 1, 1, 1, 1, 1, 1, 1, 1, 1, 1, 0, 1, 1, 1, 1, 1, 0, 1, 0, 1, 1, 1, 1, 1, 1,
    1, 2, 1, 1, 1, 1, 1, 2, 1, 2, 1, 1, 1, 1, 1, 1, 1, 1, 1, 1, 1, 1, 1, 2, 1, 1, 1, 1, 1, 1, 1, 1,
    1, 2, 1, 1, 1, 1, 1, 1, 1, 2, 1, 1, 1, 1, 1, 1, 1, 1, 1, 1, 1, 1, 1, 3, 1, 3, 1, 1, 1, 1, 1, 1,
    1, 3, 1, 1, 1, 1, 1, 3, 1, 3, 1, 1, 1, 1, 1, 1, 1, 3, 1, 1, 1, 1, 1, 1, 1, 1, 1, 1, 1, 1, 1, 1]"

definition UTF8_ACCEPT :: nat where "UTF8_ACCEPT = 0"
definition UTF8_REJECT :: nat where "UTF8_REJECT = 1"

text \<open>The state and the code point so far, a 32-bit number, after a byte.\<close>

definition decode :: "nat \<Rightarrow> int \<Rightarrow> nat \<Rightarrow> (nat \<times> int) outcome" where
  "decode state codep byte = asserted (byte < length utf8d)
     (let type = utf8d ! byte;
          codep = (if state \<noteq> UTF8_ACCEPT then (int byte AND 0x3F) OR (push_bit 6 codep mod 2 ^ 32)
                   else drop_bit type 0xFF AND int byte);
          index = 256 + state * 16 + type
      in asserted (index < 400) (Ret (utf8d ! index, codep)))"

section \<open>Escaping strings\<close>

datatype error_handler = Strict | Replace | Ignore

definition string_buffer_size :: nat where "string_buffer_size = 512"

definition put_char :: "char \<Rightarrow> string \<Rightarrow> string outcome" where
  "put_char c buf = (if length buf < string_buffer_size then Ret (buf @ [c]) else Undef)"

text \<open>Printing to the buffer writes the terminating byte as well.\<close>

definition put_printed :: "string \<Rightarrow> string \<Rightarrow> string outcome" where
  "put_printed t buf = (if length buf + length t + 1 \<le> string_buffer_size then Ret (buf @ t) else Undef)"

definition hex_digit_char :: "int \<Rightarrow> char" where
  "hex_digit_char d = (if d < 10 then char_of (nat (d + 0x30)) else char_of (nat (d + 0x57)))"

text \<open>\<open>%04x\<close> of a 16-bit number\<close>

definition hex4 :: "int \<Rightarrow> string" where
  "hex4 n = [hex_digit_char (n div 4096), hex_digit_char (n div 256 mod 16), hex_digit_char (n div 16 mod 16), hex_digit_char (n mod 16)]"

definition put_escape :: "char \<Rightarrow> string \<Rightarrow> string outcome" where
  "put_escape c buf = obind (put_char CHR 0x5C buf) (put_char c)"

text \<open>A complete code point, whose last byte has been read.\<close>

definition put_codepoint :: "bool \<Rightarrow> int \<Rightarrow> char \<Rightarrow> string \<Rightarrow> string outcome" where
  "put_codepoint ensure_ascii codepoint byte buf =
     (if codepoint = 0x08 then put_escape CHR ''b'' buf
      else if codepoint = 0x09 then put_escape CHR ''t'' buf
      else if codepoint = 0x0A then put_escape CHR ''n'' buf
      else if codepoint = 0x0C then put_escape CHR ''f'' buf
      else if codepoint = 0x0D then put_escape CHR ''r'' buf
      else if codepoint = 0x22 then put_escape CHR 0x22 buf
      else if codepoint = 0x5C then put_escape CHR 0x5C buf
      else if codepoint \<le> 0x1F \<or> ensure_ascii \<and> 0x7F \<le> codepoint then
        (if codepoint \<le> 0xFFFF then put_printed (CHR 0x5C # ''u'' @ hex4 codepoint) buf
         else put_printed (CHR 0x5C # ''u'' @ hex4 ((0xD7C0 + drop_bit 10 codepoint) mod 2 ^ 16) @
           CHR 0x5C # ''u'' @ hex4 ((0xDC00 + (codepoint AND 0x3FF)) mod 2 ^ 16)) buf)
      else put_char byte buf)"

record escaper =
  es_state :: nat
  es_codepoint :: int
  es_buffer :: string
  es_accepted :: nat
  es_undumped :: nat
  es_output :: string

definition new_escaper :: escaper where
  "new_escaper = \<lparr>es_state = UTF8_ACCEPT, es_codepoint = 0, es_buffer = [], es_accepted = 0, es_undumped = 0,
     es_output = []\<rparr>"

text \<open>The buffer is written when less than 13 bytes are left; then its length is remembered.\<close>

definition flush_and_mark :: "escaper \<Rightarrow> escaper" where
  "flush_and_mark es =
     (let es = (if string_buffer_size - length (es_buffer es) < 13
                then es\<lparr>es_output := es_output es @ es_buffer es, es_buffer := []\<rparr> else es)
      in es\<lparr>es_accepted := length (es_buffer es)\<rparr>)"

definition replacement :: "bool \<Rightarrow> string" where
  "replacement ensure_ascii = (if ensure_ascii then CHR 0x5C # ''ufffd'' else [CHR 0xEF, CHR 0xBF, CHR 0xBD])"

fun put_chars :: "string \<Rightarrow> string \<Rightarrow> string outcome" where
  "put_chars [] buf = Ret buf"
| "put_chars (c # cs) buf = obind (put_char c buf) (put_chars cs)"

text \<open>A byte that does not continue the sequence.\<close>

definition escape_rejected :: "bool \<Rightarrow> error_handler \<Rightarrow> escaper \<Rightarrow> escaper outcome" where
  "escape_rejected ensure_ascii handler es =
     (let es = es\<lparr>es_buffer := take (es_accepted es) (es_buffer es)\<rparr> in
      obind (case handler of
          Strict \<Rightarrow> Throw (Json_exception 316)
        | Ignore \<Rightarrow> Ret es
        | Replace \<Rightarrow> obind (put_chars (replacement ensure_ascii) (es_buffer es)) (\<lambda>buf.
            Ret (flush_and_mark (es\<lparr>es_buffer := buf\<rparr>))))
        (\<lambda>es. Ret (es\<lparr>es_undumped := 0, es_state := UTF8_ACCEPT\<rparr>)))"

text \<open>A rejected byte inside a sequence is read a second time.\<close>

function escape_loop :: "bool \<Rightarrow> error_handler \<Rightarrow> string \<Rightarrow> escaper \<Rightarrow> escaper outcome" where
  "escape_loop ensure_ascii handler [] es = Ret es"
| "escape_loop ensure_ascii handler (c # cs) es =
     obind (decode (es_state es) (es_codepoint es) (of_char c)) (\<lambda>(state, codepoint).
       let es' = es\<lparr>es_state := state, es_codepoint := codepoint\<rparr> in
       if state = UTF8_ACCEPT then
         obind (put_codepoint ensure_ascii codepoint c (es_buffer es')) (\<lambda>buf.
           escape_loop ensure_ascii handler cs ((flush_and_mark (es'\<lparr>es_buffer := buf\<rparr>))\<lparr>es_undumped := 0\<rparr>))
       else if state = UTF8_REJECT then
         obind (escape_rejected ensure_ascii handler es') (\<lambda>es''.
           if es_undumped es > 0 then escape_loop ensure_ascii handler (c # cs) (es''\<lparr>es_undumped := 0\<rparr>)
           else escape_loop ensure_ascii handler cs es'')
       else
         obind (if ensure_ascii then Ret (es_buffer es') else put_char c (es_buffer es')) (\<lambda>buf.
           escape_loop ensure_ascii handler cs (es'\<lparr>es_buffer := buf, es_undumped := es_undumped es' + 1\<rparr>)))"
  by pat_completeness auto
termination
  by (relation "measure (\<lambda>(a, h, s, es). 2 * length s + (if es_undumped es > 0 then 1 else 0))") auto

declare escape_loop.simps [simp del]

definition dump_escaped :: "bool \<Rightarrow> error_handler \<Rightarrow> string \<Rightarrow> string outcome" where
  "dump_escaped ensure_ascii handler s = obind (escape_loop ensure_ascii handler s new_escaper) (\<lambda>es.
     if es_state es = UTF8_ACCEPT then Ret (es_output es @ es_buffer es)
     else case handler of
         Strict \<Rightarrow> Throw (Json_exception 316)
       | Ignore \<Rightarrow> Ret (es_output es @ take (es_accepted es) (es_buffer es))
       | Replace \<Rightarrow> Ret (es_output es @ take (es_accepted es) (es_buffer es) @ replacement ensure_ascii))"

section \<open>Numbers\<close>

definition number_buffer_size :: nat where "number_buffer_size = 64"

function count_digits_from :: "nat \<Rightarrow> int \<Rightarrow> nat" where
  "count_digits_from n_digits x =
     (if x < 10 then n_digits
      else if x < 100 then n_digits + 1
      else if x < 1000 then n_digits + 2
      else if x < 10000 then n_digits + 3
      else count_digits_from (n_digits + 4) (x div 10000))"
  by pat_completeness auto
termination
  by (relation "measure (\<lambda>(n, x). nat x)") auto

declare count_digits_from.simps [simp del]

definition count_digits :: "int \<Rightarrow> nat" where
  "count_digits x = count_digits_from 1 x"

definition digits_to_99 :: "int \<Rightarrow> char \<times> char" where
  "digits_to_99 i = (digit_char (nat (i div 10)), digit_char (nat (i mod 10)))"

text \<open>\<open>*(--buffer_ptr) = c\<close>\<close>

definition put_before :: "char \<Rightarrow> nat \<times> string \<Rightarrow> (nat \<times> string) outcome" where
  "put_before c b = (case b of (p, buf) \<Rightarrow> (case p of
       0 \<Rightarrow> Undef
     | Suc p' \<Rightarrow> if p' < length buf then Ret (p', buf[p' := c]) else Undef))"

definition put_pair :: "int \<Rightarrow> nat \<times> string \<Rightarrow> (nat \<times> string) outcome" where
  "put_pair i b = (case digits_to_99 i of (c0, c1) \<Rightarrow> obind (put_before c1 b) (put_before c0))"

function put_digits :: "int \<Rightarrow> nat \<times> string \<Rightarrow> (nat \<times> string) outcome" where
  "put_digits abs_value b =
     (if 100 \<le> abs_value then
        obind (put_pair (abs_value mod 100) b) (\<lambda>b. put_digits (abs_value div 100) b)
      else if 10 \<le> abs_value then put_pair abs_value b
      else put_before (char_of (nat (0x30 + abs_value))) b)"
  by pat_completeness auto
termination
  by (relation "measure (\<lambda>(x, b). nat x)") auto

declare put_digits.simps [simp del]

definition remove_sign :: "int \<Rightarrow> int outcome" where
  "remove_sign x = asserted (x < 0 \<and> x < 2 ^ 63 - 1) (Ret (u64 (u64 (- (x + 1)) + 1)))"

text \<open>The first argument is the number buffer, with what an earlier number has left in it.\<close>

definition dump_integer :: "string \<Rightarrow> int \<Rightarrow> string outcome" where
  "dump_integer number_buffer x =
     (if x = 0 then Ret ''0''
      else obind (if x < 0
          then obind (remove_sign x) (\<lambda>a. Ret (number_buffer[0 := CHR ''-''], a, 1 + count_digits a))
          else Ret (number_buffer, x, count_digits x))
        (\<lambda>(buf, abs_value, n_chars). asserted (n_chars < length number_buffer - 1)
          (obind (put_digits abs_value (n_chars, buf)) (\<lambda>(p, buf). Ret (take n_chars buf)))))"

definition dump_float :: "dbl \<Rightarrow> string outcome" where
  "dump_float x = (if is_finite x then to_chars number_buffer_size x else Ret ''null'')"

section \<open>Values\<close>

text \<open>The indentation string is doubled once when it is too short; it ends with a null byte.\<close>

definition grow_indent :: "string \<Rightarrow> int \<Rightarrow> string" where
  "grow_indent indent_string new_indent =
     (if int (length indent_string) < new_indent then indent_string @ replicate (length indent_string) (CHR '' '')
      else indent_string)"

definition write_indent :: "string \<Rightarrow> int \<Rightarrow> string outcome" where
  "write_indent indent_string n =
     (if n \<le> int (length indent_string) + 1 then Ret (take (nat n) (indent_string @ [CHR 0x00])) else Undef)"

fun sr_dump :: "bool \<Rightarrow> bool \<Rightarrow> error_handler \<Rightarrow> int \<Rightarrow> int \<Rightarrow> string \<Rightarrow> json \<Rightarrow> (string \<times> string) outcome"
  and sr_members :: "bool \<Rightarrow> bool \<Rightarrow> error_handler \<Rightarrow> int \<Rightarrow> int \<Rightarrow> string \<Rightarrow> (string \<times> json) list \<Rightarrow> (string \<times> string) outcome"
  and sr_elements :: "bool \<Rightarrow> bool \<Rightarrow> error_handler \<Rightarrow> int \<Rightarrow> int \<Rightarrow> string \<Rightarrow> json list \<Rightarrow> (string \<times> string) outcome"
where
  "sr_dump pretty ascii handler step current ind (JObj m) =
     (if m = [] then Ret (''{}'', ind)
      else if pretty then
        (let new_indent = (current + step) mod 2 ^ 32 in
         obind (sr_members True ascii handler step new_indent (grow_indent ind new_indent) m) (\<lambda>(t, ind).
         obind (write_indent ind current) (\<lambda>w.
           Ret (''{'' @ CHR 0x0A # t @ CHR 0x0A # w @ ''}'', ind))))
      else obind (sr_members False ascii handler step current ind m) (\<lambda>(t, ind). Ret (''{'' @ t @ ''}'', ind)))"
| "sr_dump pretty ascii handler step current ind (JArr js) =
     (if js = [] then Ret (''[]'', ind)
      else if pretty then
        (let new_indent = (current + step) mod 2 ^ 32 in
         obind (sr_elements True ascii handler step new_indent (grow_indent ind new_indent) js) (\<lambda>(t, ind).
         obind (write_indent ind current) (\<lambda>w.
           Ret (''['' @ CHR 0x0A # t @ CHR 0x0A # w @ '']'', ind))))
      else obind (sr_elements False ascii handler step current ind js) (\<lambda>(t, ind). Ret (''['' @ t @ '']'', ind)))"
| "sr_dump pretty ascii handler step current ind (JStr s) =
     obind (dump_escaped ascii handler s) (\<lambda>t. Ret (CHR 0x22 # t @ [CHR 0x22], ind))"
| "sr_dump pretty ascii handler step current ind (JBool b) = Ret (if b then ''true'' else ''false'', ind)"
| "sr_dump pretty ascii handler step current ind (JInt n) =
     obind (dump_integer (replicate number_buffer_size CHR 0x00) n) (\<lambda>t. Ret (t, ind))"
| "sr_dump pretty ascii handler step current ind (JUInt n) =
     obind (dump_integer (replicate number_buffer_size CHR 0x00) n) (\<lambda>t. Ret (t, ind))"
| "sr_dump pretty ascii handler step current ind (JFloat x) = obind (dump_float x) (\<lambda>t. Ret (t, ind))"
| "sr_dump pretty ascii handler step current ind JNull = Ret (''null'', ind)"
| "sr_members pretty ascii handler step current ind [] = Undef"
| "sr_members pretty ascii handler step current ind ((k, v) # m) =
     obind (if pretty then write_indent ind current else Ret []) (\<lambda>w.
     obind (dump_escaped ascii handler k) (\<lambda>e.
     obind (sr_dump pretty ascii handler step current ind v) (\<lambda>(t, ind).
       let text = w @ CHR 0x22 # e @ CHR 0x22 # (if pretty then '': '' else '':'') @ t in
       if m = [] then Ret (text, ind)
       else obind (sr_members pretty ascii handler step current ind m) (\<lambda>(r, ind).
         Ret (text @ (if pretty then CHR '','' # [CHR 0x0A] else '','') @ r, ind)))))"
| "sr_elements pretty ascii handler step current ind [] = Undef"
| "sr_elements pretty ascii handler step current ind (j # js) =
     obind (if pretty then write_indent ind current else Ret []) (\<lambda>w.
     obind (sr_dump pretty ascii handler step current ind j) (\<lambda>(t, ind).
       if js = [] then Ret (w @ t, ind)
       else obind (sr_elements pretty ascii handler step current ind js) (\<lambda>(r, ind).
         Ret (w @ t @ (if pretty then CHR '','' # [CHR 0x0A] else '','') @ r, ind))))"

text \<open>\<open>dump(indent, indent_char, ensure_ascii, error_handler)\<close>\<close>

definition json_dump_with :: "int \<Rightarrow> char \<Rightarrow> bool \<Rightarrow> error_handler \<Rightarrow> json \<Rightarrow> string outcome" where
  "json_dump_with indent indent_char ensure_ascii handler j =
     (let ind = replicate 512 indent_char in
      obind (if 0 \<le> indent then sr_dump True ensure_ascii handler indent 0 ind j
             else sr_dump False ensure_ascii handler 0 0 ind j)
        (\<lambda>(t, ind). Ret t))"

text \<open>\<open>dump()\<close>, as the sources call it.\<close>

definition json_dump :: "json \<Rightarrow> string outcome" where
  "json_dump = json_dump_with (- 1) CHR '' '' False Strict"

end
