(* ===== verification/JsonDump.thy ===== *)
theory JsonDump
  imports JsonSerializer JsonScan
begin

text \<open>
  What the serializer writes: the compact text of a value is a text of the grammar, for the value as it
  will be read again.
\<close>

section \<open>The decoder\<close>

lemma utf8d_blocks:
  "utf8d = replicate 128 0 @ replicate 16 1 @ replicate 16 9 @ replicate 32 7 @ [8, 8] @ replicate 30 2 @
     [10] @ replicate 12 3 @ [4, 3, 3] @ [11, 6, 6, 6, 5] @ replicate 11 8 @
     [0, 1, 2, 3, 5, 8, 7, 1, 1, 1, 4, 6, 1, 1, 1, 1] @ replicate 16 1 @
     [1, 0, 1, 1, 1, 1, 1, 0, 1, 0, 1, 1, 1, 1, 1, 1] @ [1, 2, 1, 1, 1, 1, 1, 2, 1, 2, 1, 1, 1, 1, 1, 1] @
     [1, 1, 1, 1, 1, 1, 1, 2, 1, 1, 1, 1, 1, 1, 1, 1] @ [1, 2, 1, 1, 1, 1, 1, 1, 1, 2, 1, 1, 1, 1, 1, 1] @
     [1, 1, 1, 1, 1, 1, 1, 3, 1, 3, 1, 1, 1, 1, 1, 1] @ [1, 3, 1, 1, 1, 1, 1, 3, 1, 3, 1, 1, 1, 1, 1, 1] @
     [1, 3, 1, 1, 1, 1, 1, 1, 1, 1, 1, 1, 1, 1, 1, 1]"
  by (simp add: utf8d_def numeral_nat replicate_append_same)

lemma utf8d_class:
  "b < 0x80 \<Longrightarrow> utf8d ! b = 0" "0x80 \<le> b \<Longrightarrow> b < 0x90 \<Longrightarrow> utf8d ! b = 1" "0x90 \<le> b \<Longrightarrow> b < 0xA0 \<Longrightarrow> utf8d ! b = 9"
  "0xA0 \<le> b \<Longrightarrow> b < 0xC0 \<Longrightarrow> utf8d ! b = 7" "0xC2 \<le> b \<Longrightarrow> b < 0xE0 \<Longrightarrow> utf8d ! b = 2"
  "utf8d ! 0xE0 = 10" "0xE1 \<le> b \<Longrightarrow> b < 0xED \<Longrightarrow> utf8d ! b = 3" "utf8d ! 0xED = 4" "utf8d ! 0xEE = 3" "utf8d ! 0xEF = 3"
  "utf8d ! 0xF0 = 11" "0xF1 \<le> b \<Longrightarrow> b < 0xF4 \<Longrightarrow> utf8d ! b = 6" "utf8d ! 0xF4 = 5"
  by (auto simp: utf8d_blocks nth_append nth_Cons')

text \<open>The next state for a state and a class, on the paths of well-formed sequences.\<close>

lemma utf8d_state:
  "utf8d ! 256 = 0" "utf8d ! 258 = 2" "utf8d ! 259 = 3" "utf8d ! 260 = 5" "utf8d ! 261 = 8" "utf8d ! 262 = 7"
  "utf8d ! 266 = 4" "utf8d ! 267 = 6"
  "utf8d ! 289 = 0" "utf8d ! 295 = 0" "utf8d ! 297 = 0" "utf8d ! 305 = 2" "utf8d ! 311 = 2" "utf8d ! 313 = 2"
  "utf8d ! 327 = 2" "utf8d ! 337 = 2" "utf8d ! 345 = 2" "utf8d ! 359 = 3" "utf8d ! 361 = 3"
  "utf8d ! 369 = 3" "utf8d ! 375 = 3" "utf8d ! 377 = 3" "utf8d ! 385 = 3"
  by (simp_all add: utf8d_blocks nth_append)

lemma length_utf8d [simp]: "length utf8d = 400"
  by (simp add: utf8d_blocks)

lemma utf8d_le: "b < 256 \<Longrightarrow> utf8d ! b \<le> 11"
proof -
  have "list_all (\<lambda>x. x \<le> 11) utf8d" by (simp add: utf8d_blocks list_all_iff)
  then show "b < 256 \<Longrightarrow> utf8d ! b \<le> 11" by (simp add: list_all_length)
qed

lemma continuation_class: "0 \<le> y \<Longrightarrow> y < 64 \<Longrightarrow> utf8d ! nat (0x80 + y) = (if y < 16 then 1 else if y < 32 then 9 else 7)"
  by (auto simp: utf8d_class)

text \<open>A continuation byte adds six bits to the code point.\<close>

lemma decode_continuation:
  assumes "0 \<le> y" "y < 64" "0 \<le> codep" "codep < 2 ^ 15" "2 \<le> state" "state \<le> 8"
  shows "decode state codep (nat (0x80 + y)) =
    Ret (utf8d ! (256 + state * 16 + (if y < 16 then 1 else if y < 32 then 9 else 7)), 64 * codep + y)"
proof -
  have "(0x80 + y) mod 64 = y" using assms(1,2) by (simp add: mod_add_eq [symmetric])
  then have low: "int (nat (0x80 + y)) AND 0x3F = y" using assms(1) by (simp add: and_63)
  have "push_bit 6 codep mod 2 ^ 32 = push_bit 6 codep"
    using assms(3,4) by (simp add: push_bit_eq_mult)
  then have "y OR (push_bit 6 codep mod 2 ^ 32) = 64 * codep + y"
    using or_low [of y 6 codep] assms(1,2) by (simp add: or.commute push_bit_eq_mult)
  then show ?thesis
    using assms low continuation_class [OF assms(1,2)] by (simp add: decode_def UTF8_ACCEPT_def Let_def)
qed

lemma decode_ascii:
  assumes "0 \<le> b" "b < 0x80"
  shows "decode 0 codep (nat b) = Ret (0, b)"
proof -
  have "(0xFF :: int) AND b = b"
    using assms take_bit_eq_mask [of 8 b] by (simp add: mask_eq_exp_minus_1 take_bit_eq_mod and.commute)
  then show ?thesis
    using assms utf8d_class(1) [of "nat b"] utf8d_state(1) by (simp add: decode_def UTF8_ACCEPT_def Let_def)
qed

lemma and_low: "(mask n :: int) AND x = x mod 2 ^ n"
  by (simp add: take_bit_eq_mask [symmetric] and.commute take_bit_eq_mod)

lemma decode_lead2:
  assumes "2 \<le> x" "x < 32"
  shows "decode 0 codep (nat (0xC0 + x)) = Ret (2, x)"
proof -
  have "(0xC0 + x) mod 64 = x" using mod_mult_self1 [of x 3 64] assms by (simp add: add.commute)
  then have "(0x3F :: int) AND (0xC0 + x) = x"
    using and_low [of 6 "0xC0 + x"] by (simp add: mask_eq_exp_minus_1)
  then show ?thesis
    using assms utf8d_class(5) [of "nat (0xC0 + x)"] utf8d_state by (simp add: decode_def UTF8_ACCEPT_def Let_def drop_bit_eq_div)
qed

lemma decode_lead3:
  assumes "0 \<le> x" "x < 16"
  shows "decode 0 codep (nat (0xE0 + x)) = Ret (if x = 0 then 4 else if x = 13 then 5 else 3, x)"
proof -
  consider "x = 0" | "x = 13" | "x = 14" | "x = 15" | "1 \<le> x" "x < 13" using assms by linarith
  then show ?thesis
  proof cases
    case 5
    have "(0xE0 + x) mod 32 = x" using mod_mult_self1 [of x 7 32] assms by (simp add: add.commute)
    then have "(0x1F :: int) AND (0xE0 + x) = x"
      using and_low [of 5 "0xE0 + x"] by (simp add: mask_eq_exp_minus_1)
    then show ?thesis
      using 5 utf8d_class(7) [of "nat (0xE0 + x)"] utf8d_state by (simp add: decode_def UTF8_ACCEPT_def Let_def drop_bit_eq_div)
  qed (simp_all add: decode_def UTF8_ACCEPT_def Let_def utf8d_class utf8d_state drop_bit_eq_div)
qed

lemma decode_lead4:
  assumes "0 \<le> x" "x < 5"
  shows "decode 0 codep (nat (0xF0 + x)) = Ret (if x = 0 then 6 else if x = 4 then 8 else 7, x)"
proof -
  consider "x = 0" | "x = 1" | "x = 2" | "x = 3" | "x = 4" using assms by linarith
  then show ?thesis
    by cases (simp_all add: decode_def UTF8_ACCEPT_def Let_def utf8d_class utf8d_state drop_bit_eq_div)
qed

section \<open>Escaping\<close>

text \<open>The text of a code point.\<close>

definition escaped :: "bool \<Rightarrow> int \<Rightarrow> string" where
  "escaped ensure_ascii cp =
     (if cp = 0x08 then [CHR 0x5C, CHR ''b''] else if cp = 0x09 then [CHR 0x5C, CHR ''t'']
      else if cp = 0x0A then [CHR 0x5C, CHR ''n''] else if cp = 0x0C then [CHR 0x5C, CHR ''f'']
      else if cp = 0x0D then [CHR 0x5C, CHR ''r''] else if cp = 0x22 then [CHR 0x5C, CHR 0x22]
      else if cp = 0x5C then [CHR 0x5C, CHR 0x5C]
      else if cp \<le> 0x1F \<or> ensure_ascii \<and> 0x7F \<le> cp then
        (if cp \<le> 0xFFFF then CHR 0x5C # ''u'' @ hex4 cp
         else CHR 0x5C # ''u'' @ hex4 (0xD7C0 + cp div 1024) @ CHR 0x5C # ''u'' @ hex4 (0xDC00 + cp mod 1024))
      else utf8 cp)"

lemma hex4_length [simp]: "length (hex4 n) = 4"
  by (simp add: hex4_def)

lemma escaped_length: "length (escaped a cp) \<le> 12"
  by (simp add: escaped_def utf8_def)

text \<open>What the buffer holds before the last byte of a sequence is there already, unless it is escaped.\<close>

lemma put_codepoint_escaped:
  assumes "scalar_value cp" and "utf8 cp = bs @ [c]" and "length buf \<le> 499"
  shows "put_codepoint a cp c (if a then buf else buf @ bs) = Ret (buf @ escaped a cp)"
proof -
  have cp: "0 \<le> cp" "cp \<le> 0x10FFFF" using assms(1) by (simp_all add: scalar_value_def)
  have low: "cp AND 0x3FF = cp mod 1024"
    using and_low [of 10 cp] by (simp add: mask_eq_exp_minus_1 and.commute)
  have len: "length bs \<le> 3" using arg_cong [OF assms(2), of length] by (simp add: utf8_def split: if_splits)
  have ascii: "cp < 0x80 \<Longrightarrow> bs = [] \<and> c = utf8_byte cp" using assms(2) by (simp add: utf8_def)
  have "cp div 1024 < 1088" "0 \<le> cp div 1024" using cp by linarith+
  then have "(0xD7C0 + cp div 1024) mod 2 ^ 16 = 0xD7C0 + cp div 1024" "(0xDC00 + cp mod 1024) mod 2 ^ 16 = 0xDC00 + cp mod 1024"
    using pos_mod_bound [of 1024 cp] pos_mod_sign [of 1024 cp] by simp_all
  then show ?thesis
    using assms(2,3) len ascii cp low
    by (auto simp: put_codepoint_def escaped_def put_escape_def put_char_def put_printed_def string_buffer_size_def
        drop_bit_eq_div)
qed

definition escaper_ok :: "escaper \<Rightarrow> bool" where
  "escaper_ok es \<longleftrightarrow> es_state es = 0 \<and> length (es_buffer es) \<le> 499"

definition written :: "escaper \<Rightarrow> string" where
  "written es = es_output es @ es_buffer es"

lemma flush_and_mark_ok:
  assumes "es_state es = 0" and "length (es_buffer es) \<le> 511"
  shows "escaper_ok ((flush_and_mark es)\<lparr>es_undumped := 0\<rparr>)"
    and "written ((flush_and_mark es)\<lparr>es_undumped := 0\<rparr>) = written es"
  using assms by (auto simp: flush_and_mark_def escaper_ok_def written_def string_buffer_size_def Let_def)

lemma escape_loop_more:
  assumes "decode (es_state es) (es_codepoint es) (of_char c) = Ret (st, cp)" and "st \<ge> 2"
    and "length (es_buffer es) \<le> 511" and "(if a then es_buffer es else es_buffer es @ [c]) = buf"
  shows "escape_loop a h (c # s) es = escape_loop a h s (es\<lparr>es_state := st, es_codepoint := cp, es_buffer := buf,
    es_undumped := es_undumped es + 1\<rparr>)"
  using assms
  by (cases es; cases a)
    (auto simp: escape_loop.simps UTF8_ACCEPT_def UTF8_REJECT_def Let_def put_char_def string_buffer_size_def)

lemma escape_loop_accept:
  assumes "decode (es_state es) (es_codepoint es) (of_char c) = Ret (0, cp)"
    and "put_codepoint a cp c (es_buffer es) = Ret buf" and "length buf \<le> 511"
  shows "\<exists>es'. escape_loop a h (c # s) es = escape_loop a h s es' \<and> escaper_ok es' \<and> written es' = es_output es @ buf"
  using assms flush_and_mark_ok [of "es\<lparr>es_state := 0, es_codepoint := cp, es_buffer := buf\<rparr>"]
  by (intro exI conjI, subst escape_loop.simps) (simp_all add: UTF8_ACCEPT_def Let_def, simp_all add: written_def)

text \<open>The bytes of a scalar value are decoded to it.\<close>

lemma escape_scalar_value:
  assumes "scalar_value cp" and "escaper_ok es"
  shows "\<exists>es'. escape_loop a h (utf8 cp @ s) es = escape_loop a h s es' \<and> escaper_ok es' \<and>
    written es' = written es @ escaped a cp"
proof -
  have cp: "0 \<le> cp" "cp \<le> 0x10FFFF" "\<not> (0xD800 \<le> cp \<and> cp \<le> 0xDFFF)"
    using assms(1) by (simp_all add: scalar_value_def surrogate_def)
  have es: "es_state es = 0" "length (es_buffer es) \<le> 499" using assms(2) by (simp_all add: escaper_ok_def)
  have len: "length (es_buffer es @ escaped a cp) \<le> 511" using es(2) escaped_length [of a cp] by simp
  define buf where "buf = (\<lambda>bs. if a then es_buffer es else es_buffer es @ bs)"
  have buf: "buf [] = es_buffer es" "\<And>bs. length (buf bs) \<le> 499 + length bs"
    "\<And>bs c. (if a then buf bs else buf bs @ [c]) = buf (bs @ [c])"
    using es(2) by (auto simp: buf_def)
  have last: "\<exists>es'. escape_loop a h (c # s) e = escape_loop a h s es' \<and> escaper_ok es' \<and>
      written es' = written es @ escaped a cp"
    if "utf8 cp = bs @ [c]" "decode (es_state e) (es_codepoint e) (of_char c) = Ret (0, cp)" "es_buffer e = buf bs"
      "es_output e = es_output es" for bs c e
  proof -
    have "put_codepoint a cp c (es_buffer e) = Ret (es_buffer es @ escaped a cp)"
      using put_codepoint_escaped [OF assms(1) that(1) es(2), of a] that(3) by (simp add: buf_def)
    from escape_loop_accept [OF that(2) this len, of h s] that(4) show ?thesis by (simp add: written_def)
  qed
  consider "cp < 0x80" | "0x80 \<le> cp" "cp < 0x800" | "0x800 \<le> cp" "cp < 0x10000" | "0x10000 \<le> cp" by linarith
  then show ?thesis
  proof cases
    case 1
    then have u: "utf8 cp = [] @ [utf8_byte cp]" by (simp add: utf8_def)
    then show ?thesis
      using last [OF u, of es] decode_ascii [of cp "es_codepoint es"] 1 cp(1) es(1) buf(1) by simp
  next
    case 2
    define x y where "x = cp div 64" and "y = cp mod 64"
    have "2 \<le> x" "x < 32" using 2 unfolding x_def by linarith+
    then have xy: "2 \<le> x" "x < 32" "0 \<le> y" "y < 64" "cp = 64 * x + y" by (simp_all add: x_def y_def)
    have u: "utf8 cp = [utf8_byte (0xC0 + x)] @ [utf8_byte (0x80 + y)]" using 2 by (simp add: utf8_def x_def y_def)
    let ?e = "es\<lparr>es_state := 2, es_codepoint := x, es_buffer := buf [utf8_byte (0xC0 + x)], es_undumped := es_undumped es + 1\<rparr>"
    have "escape_loop a h (utf8 cp @ s) es = escape_loop a h (utf8_byte (0x80 + y) # s) ?e"
      unfolding u append.simps
      by (rule escape_loop_more) (use decode_lead2 [OF xy(1,2)] xy es in \<open>simp_all add: buf_def\<close>)
    moreover have "decode (es_state ?e) (es_codepoint ?e) (of_char (utf8_byte (0x80 + y))) = Ret (0, cp)"
      using decode_continuation [of y x 2] xy utf8d_state by simp
    ultimately show ?thesis using last [OF u, of ?e] by simp
  next
    case 3
    define x y z where "x = cp div 4096" and "y = cp div 64 mod 64" and "z = cp mod 64"
    have "x \<le> 0xFFFF div 4096" unfolding x_def by (rule zdiv_mono1) (use 3 in simp_all)
    then have xyz: "0 \<le> x" "x < 16" "0 \<le> y" "y < 64" "0 \<le> z" "z < 64"
      using cp by (simp_all add: x_def y_def z_def pos_imp_zdiv_nonneg_iff)
    have sum: "cp = 4096 * x + 64 * y + z" unfolding x_def y_def z_def by (rule base64_digits)
    let ?b1 = "utf8_byte (0xE0 + x)" and ?b2 = "utf8_byte (0x80 + y)" and ?b3 = "utf8_byte (0x80 + z)"
    have u: "utf8 cp = [?b1, ?b2] @ [?b3]" using 3 by (simp add: utf8_def x_def y_def z_def)
    let ?s1 = "if x = 0 then 4 else if x = 13 then 5 else 3 :: nat"
    let ?e1 = "es\<lparr>es_state := ?s1, es_codepoint := x, es_buffer := buf [?b1], es_undumped := es_undumped es + 1\<rparr>"
    let ?e2 = "?e1\<lparr>es_state := 2, es_codepoint := 64 * x + y, es_buffer := buf [?b1, ?b2], es_undumped := es_undumped ?e1 + 1\<rparr>"
    have 1: "escape_loop a h (utf8 cp @ s) es = escape_loop a h (?b2 # ?b3 # s) ?e1"
      unfolding u append.simps
      by (rule escape_loop_more) (use decode_lead3 [OF xyz(1,2)] xyz es in \<open>simp_all add: buf_def\<close>)
    have d2: "decode ?s1 x (nat (0x80 + y)) = Ret (2, 64 * x + y)"
      using decode_continuation [of y x ?s1] xyz sum 3 cp(3) utf8d_state by auto
    have 2: "escape_loop a h (?b2 # ?b3 # s) ?e1 = escape_loop a h (?b3 # s) ?e2"
      by (rule escape_loop_more) (use d2 xyz es in \<open>simp_all add: buf_def\<close>)
    have "decode (es_state ?e2) (es_codepoint ?e2) (of_char ?b3) = Ret (0, cp)"
      using decode_continuation [of z "64 * x + y" 2] xyz sum utf8d_state by simp
    then show ?thesis using last [OF u, of ?e2] 1 2 by simp
  next
    case 4
    define x v y z where "x = cp div 262144" and "v = cp div 4096 mod 64" and "y = cp div 64 mod 64" and "z = cp mod 64"
    have "x \<le> 0x10FFFF div 262144" unfolding x_def by (rule zdiv_mono1) (use cp in simp_all)
    then have xyz: "0 \<le> x" "x < 5" "0 \<le> v" "v < 64" "0 \<le> y" "y < 64" "0 \<le> z" "z < 64"
      using cp by (simp_all add: x_def v_def y_def z_def pos_imp_zdiv_nonneg_iff)
    have sum: "cp = 262144 * x + 4096 * v + 64 * y + z" unfolding x_def v_def y_def z_def by (rule base64_digits)
    let ?b1 = "utf8_byte (0xF0 + x)" and ?b2 = "utf8_byte (0x80 + v)" and ?b3 = "utf8_byte (0x80 + y)" and ?b4 = "utf8_byte (0x80 + z)"
    have u: "utf8 cp = [?b1, ?b2, ?b3] @ [?b4]" using 4 by (simp add: utf8_def x_def y_def z_def v_def)
    let ?s1 = "if x = 0 then 6 else if x = 4 then 8 else 7 :: nat"
    let ?e1 = "es\<lparr>es_state := ?s1, es_codepoint := x, es_buffer := buf [?b1], es_undumped := es_undumped es + 1\<rparr>"
    let ?e2 = "?e1\<lparr>es_state := 3, es_codepoint := 64 * x + v, es_buffer := buf [?b1, ?b2], es_undumped := es_undumped ?e1 + 1\<rparr>"
    let ?e3 = "?e2\<lparr>es_state := 2, es_codepoint := 64 * (64 * x + v) + y, es_buffer := buf [?b1, ?b2, ?b3],
      es_undumped := es_undumped ?e2 + 1\<rparr>"
    have 1: "escape_loop a h (utf8 cp @ s) es = escape_loop a h (?b2 # ?b3 # ?b4 # s) ?e1"
      unfolding u append.simps
      by (rule escape_loop_more) (use decode_lead4 [OF xyz(1,2)] xyz es in \<open>simp_all add: buf_def\<close>)
    have d2: "decode ?s1 x (nat (0x80 + v)) = Ret (3, 64 * x + v)"
      using decode_continuation [of v x ?s1] xyz sum 4 cp(2) utf8d_state by auto
    have 2: "escape_loop a h (?b2 # ?b3 # ?b4 # s) ?e1 = escape_loop a h (?b3 # ?b4 # s) ?e2"
      by (rule escape_loop_more) (use d2 xyz es in \<open>simp_all add: buf_def\<close>)
    have d3: "decode 3 (64 * x + v) (nat (0x80 + y)) = Ret (2, 64 * (64 * x + v) + y)"
      using decode_continuation [of y "64 * x + v" 3] xyz utf8d_state by auto
    have 3: "escape_loop a h (?b3 # ?b4 # s) ?e2 = escape_loop a h (?b4 # s) ?e3"
      by (rule escape_loop_more) (use d3 xyz es in \<open>simp_all add: buf_def\<close>)
    have "decode (es_state ?e3) (es_codepoint ?e3) (of_char ?b4) = Ret (0, cp)"
      using decode_continuation [of z "64 * (64 * x + v) + y" 2] xyz sum utf8d_state by simp
    then show ?thesis using last [OF u, of ?e3] 1 2 3 by simp
  qed
qed

lemma escape_text:
  "list_all scalar_value cps \<Longrightarrow> escaper_ok es \<Longrightarrow>
    \<exists>es'. escape_loop a h (concat (map utf8 cps)) es = Ret es' \<and> escaper_ok es' \<and>
      written es' = written es @ concat (map (escaped a) cps)"
proof (induction cps arbitrary: es)
  case Nil
  then show ?case by (simp add: escape_loop.simps)
next
  case (Cons cp cps)
  from escape_scalar_value [of cp es a h "concat (map utf8 cps)"] Cons.prems
  obtain e where e: "escape_loop a h (utf8 cp @ concat (map utf8 cps)) es = escape_loop a h (concat (map utf8 cps)) e"
    "escaper_ok e" "written e = written es @ escaped a cp" by auto
  from Cons.IH [OF _ e(2)] Cons.prems(1) e(1,3) show ?case by auto
qed

lemma dump_escaped_text:
  assumes "list_all scalar_value cps"
  shows "dump_escaped a h (concat (map utf8 cps)) = Ret (concat (map (escaped a) cps))"
proof -
  have "escaper_ok new_escaper" "written new_escaper = []"
    by (simp_all add: escaper_ok_def new_escaper_def written_def UTF8_ACCEPT_def)
  with escape_text [OF assms, of new_escaper a h] show ?thesis
    by (auto simp: dump_escaped_def escaper_ok_def written_def UTF8_ACCEPT_def)
qed

text \<open>The escaped text denotes the string.\<close>

lemma hex_digit_value_char: "0 \<le> d \<Longrightarrow> d < 16 \<Longrightarrow> hex_digit_value (hex_digit_char d) = Some d"
proof -
  assume "0 \<le> d" "d < 16"
  then have "hex_digit_char d = utf8_byte (if d < 10 then d + 48 else d + 87)"
    by (simp add: hex_digit_char_def utf8_byte_def)
  with \<open>0 \<le> d\<close> \<open>d < 16\<close> show ?thesis by (simp add: hex_digit_value_def Let_def)
qed

lemma hex4_value_hex4: "0 \<le> n \<Longrightarrow> n \<le> 0xFFFF \<Longrightarrow> hex4_value (hex4 n) n"
proof -
  assume n: "0 \<le> n" "n \<le> 0xFFFF"
  have "n div 4096 \<le> 0xFFFF div 4096" by (rule zdiv_mono1) (use n in simp_all)
  then have "0 \<le> n div 4096" "n div 4096 < 16" using n by (simp_all add: pos_imp_zdiv_nonneg_iff)
  moreover have "n div 4096 = n div 256 div 16" "n div 256 = n div 16 div 16"
    using zdiv_zmult2_eq [of 16 n 256] zdiv_zmult2_eq [of 16 n 16] by simp_all
  then have "n = 4096 * (n div 4096) + 256 * (n div 256 mod 16) + 16 * (n div 16 mod 16) + n mod 16"
    using mult_div_mod_eq [of 16 n] mult_div_mod_eq [of 16 "n div 16"] mult_div_mod_eq [of 16 "n div 256"] by linarith
  moreover have "hex_digit_value (hex_digit_char (k mod 16)) = Some (k mod 16)" for k
    by (rule hex_digit_value_char) simp_all
  moreover have "hex4_value [a, b, c, d] (4096 * i + 256 * j + 16 * k + l)"
    if "hex_digit_value a = Some i" "hex_digit_value b = Some j" "hex_digit_value c = Some k" "hex_digit_value d = Some l" for a b c d i j k l
    using that by (simp add: hex4_value_def)
  ultimately show ?thesis
    unfolding hex4_def by (metis hex_digit_value_char)
qed

lemma char_text_escaped: "scalar_value cp \<Longrightarrow> char_text cp (escaped a cp)"
proof -
  assume s: "scalar_value cp"
  then have cp: "0 \<le> cp" "cp \<le> 0x10FFFF" "\<not> surrogate cp" by (simp_all add: scalar_value_def)
  consider (esc) c where "(c, cp) \<in> escapes" "escaped a cp = [CHR 0x5C, c]"
    | (u) "cp \<le> 0xFFFF" "escaped a cp = CHR 0x5C # ''u'' @ hex4 cp"
    | (pair) "0xFFFF < cp"
        "escaped a cp = CHR 0x5C # ''u'' @ hex4 (0xD7C0 + cp div 1024) @ CHR 0x5C # ''u'' @ hex4 (0xDC00 + cp mod 1024)"
    | (plain) "0x20 \<le> cp" "cp \<noteq> 0x22" "cp \<noteq> 0x5C" "escaped a cp = utf8 cp"
  proof (cases "cp \<in> {8, 9, 10, 12, 13, 0x22, 0x5C}")
    case True
    then have "\<exists>c. (c, cp) \<in> escapes \<and> escaped a cp = [CHR 0x5C, c]"
      by (elim insertE emptyE; simp add: escaped_def escapes_def)
    then show ?thesis using esc by blast
  next
    case False
    then have e: "escaped a cp = (if cp \<le> 0x1F \<or> a \<and> 0x7F \<le> cp then
        (if cp \<le> 0xFFFF then CHR 0x5C # ''u'' @ hex4 cp
         else CHR 0x5C # ''u'' @ hex4 (0xD7C0 + cp div 1024) @ CHR 0x5C # ''u'' @ hex4 (0xDC00 + cp mod 1024))
        else utf8 cp)"
      by (simp add: escaped_def)
    show ?thesis
    proof (cases "cp \<le> 0x1F \<or> a \<and> 0x7F \<le> cp")
      case True
      show ?thesis
      proof (cases "cp \<le> 0xFFFF")
        case True
        with e \<open>cp \<le> 0x1F \<or> _\<close> show ?thesis by (intro u) simp_all
      next
        case False
        with e \<open>cp \<le> 0x1F \<or> _\<close> show ?thesis by (intro pair) simp_all
      qed
    next
      case False
      with e \<open>cp \<notin> _\<close> show ?thesis by (intro plain) simp_all
    qed
  qed
  then show ?thesis
  proof cases
    case esc
    then show ?thesis by (simp add: char_text.escape)
  next
    case u
    then show ?thesis using char_text.unicode [OF hex4_value_hex4 [of cp] cp(3)] cp by simp
  next
    case pair
    define hi lo where "hi = 0xD7C0 + cp div 1024" and "lo = 0xDC00 + cp mod 1024"
    have "0xFFFF div 1024 < cp div 1024" using pair(1) by simp
    moreover have "cp div 1024 \<le> 0x10FFFF div 1024" by (rule zdiv_mono1) (use cp in simp_all)
    ultimately have hi: "0xD800 \<le> hi" "hi \<le> 0xDBFF" by (simp_all add: hi_def)
    have lo: "0xDC00 \<le> lo" "lo \<le> 0xDFFF" by (simp_all add: lo_def)
    have "0x10000 + 1024 * (hi - 0xD800) + (lo - 0xDC00) = cp"
      using mult_div_mod_eq [of 1024 cp] by (simp add: hi_def lo_def)
    with char_text.pair [OF hex4_value_hex4 [of hi] hex4_value_hex4 [of lo] hi lo] hi lo pair(2)
    show ?thesis by (simp add: hi_def lo_def)
  next
    case plain
    then show ?thesis using char_text.unescaped [OF s] by simp
  qed
qed

lemma string_text_escaped:
  "list_all scalar_value cps \<Longrightarrow> string_text (concat (map utf8 cps)) (concat (map (escaped a) cps))"
  by (induction cps) (auto intro: string_text.intros char_text_escaped)

lemma dump_escaped_string_text:
  assumes "utf8_text s"
  shows "\<exists>t. dump_escaped a h s = Ret t \<and> string_text s t"
  using assms dump_escaped_text string_text_escaped unfolding utf8_text_def by blast

end
