(* ===== verification/JsonDumpNumber.thy ===== *)
theory JsonDumpNumber
  imports JsonDump JsonScanNumber
begin

text \<open>
  The numbers the serializer writes: the decimal notation of an integer, from the two-digit table.
\<close>

section \<open>Counting digits\<close>

lemma nat_to_string_step: "10 \<le> n \<Longrightarrow> nat_to_string n = nat_to_string (n div 10) @ [digit_char (n mod 10)]"
  by (subst nat_to_string.simps) simp

lemma nat_to_string_digit [simp]: "n < 10 \<Longrightarrow> nat_to_string n = [digit_char n]"
  by (subst nat_to_string.simps) simp

lemma nat_to_string_pair:
  assumes "10 \<le> n"
  shows "nat_to_string n = (if n < 100 then [] else nat_to_string (n div 100)) @ [digit_char (n div 10 mod 10), digit_char (n mod 10)]"
proof (cases "n < 100")
  case True
  with assms show ?thesis by (simp add: nat_to_string_step)
next
  case False
  then have "10 \<le> n div 10" "n div 10 div 10 = n div 100" by (simp_all flip: div_mult2_eq)
  with assms False show ?thesis by (simp add: nat_to_string_step [of n] nat_to_string_step [of "n div 10"])
qed

lemma nat_to_string_length_pair: "100 \<le> n \<Longrightarrow> length (nat_to_string n) = length (nat_to_string (n div 100)) + 2"
  by (subst nat_to_string_pair) simp_all

lemma count_digits_from_length: "0 \<le> x \<Longrightarrow> count_digits_from n x + 1 = n + length (nat_to_string (nat x))"
proof (induction n x rule: count_digits_from.induct)
  case (1 n x)
  consider "x < 10" | "10 \<le> x" "x < 100" | "100 \<le> x" "x < 1000" | "1000 \<le> x" "x < 10000" | "10000 \<le> x" by linarith
  then show ?case
  proof cases
    case 5
    have "nat (x div 10000) = nat x div 100 div 100"
      using 5 by (simp add: nat_div_distrib flip: div_mult2_eq)
    moreover have "100 \<le> nat x" "100 \<le> nat x div 100" using 5 by (simp_all add: less_eq_div_iff_mult_less_eq)
    ultimately have "length (nat_to_string (nat x)) = length (nat_to_string (nat (x div 10000))) + 4"
      by (simp add: nat_to_string_length_pair)
    with "1.IH" 5 "1.prems" show ?thesis by (simp add: count_digits_from.simps [of n x])
  qed (use "1.prems" in \<open>auto simp: count_digits_from.simps [of n x] nat_to_string_step\<close>)
qed

lemma count_digits_length: "0 \<le> x \<Longrightarrow> count_digits x = length (nat_to_string (nat x))"
  using count_digits_from_length [of x 1] by (simp add: count_digits_def)

lemma nat_to_string_length_le: "n < 10 ^ k \<Longrightarrow> 0 < k \<Longrightarrow> length (nat_to_string n) \<le> k"
proof (induction k arbitrary: n)
  case (Suc k)
  show ?case
  proof (cases "n < 10")
    case False
    then have "0 < k" using Suc.prems by (cases k) auto
    moreover have "n div 10 < 10 ^ k" using Suc.prems(1) by (simp add: div_less_iff_less_mult mult.commute)
    ultimately show ?thesis using Suc.IH [of "n div 10"] False by (simp add: nat_to_string_step)
  qed simp
qed simp

section \<open>Writing digits backwards\<close>

lemma put_before_Suc:
  "Suc p \<le> length buf \<Longrightarrow> put_before c (Suc p, buf) = Ret (p, take p buf @ c # drop (Suc p) buf)"
  by (simp add: put_before_def upd_conv_take_nth_drop)

lemma put_pair_at:
  assumes "p + 2 \<le> length buf" and "0 \<le> i" "i < 100"
  shows "put_pair i (p + 2, buf) =
    Ret (p, take p buf @ [digit_char (nat i div 10), digit_char (nat i mod 10)] @ drop (p + 2) buf)"
  using assms put_before_Suc [of "Suc p" buf]
  by (simp add: put_pair_def digits_to_99_def put_before_Suc nat_div_distrib nat_mod_distrib)

lemma put_digits_at:
  assumes "0 \<le> a" and "p + length (nat_to_string (nat a)) = q" and "q \<le> length buf"
  shows "put_digits a (q, buf) = Ret (p, take p buf @ nat_to_string (nat a) @ drop q buf)"
  using assms
proof (induction a "(q, buf)" arbitrary: q buf rule: put_digits.induct)
  case (1 a q buf)
  define n where "n = nat a"
  have a: "a = int n" using "1.prems"(1) by (simp add: n_def)
  consider "n < 10" | "10 \<le> n" "n < 100" | "100 \<le> n" by linarith
  then show ?case
  proof cases
    case 1
    then have "char_of (nat (0x30 + a)) = digit_char n" by (simp add: a digit_char_def nat_add_distrib)
    with 1 "1.prems" put_before_Suc [of p buf] show ?thesis
      by (simp add: put_digits.simps [of "int n"] a)
  next
    case 2
    with nat_to_string_pair [of n] "1.prems" put_pair_at [of p buf a] show ?thesis
      by (auto simp: put_digits.simps [of "int n"] a)
  next
    case 3
    have pair: "nat_to_string n = nat_to_string (n div 100) @ [digit_char (n div 10 mod 10), digit_char (n mod 10)]"
      using nat_to_string_pair [of n] 3 by simp
    define q' where "q' = p + length (nat_to_string (n div 100))"
    then have q: "q = q' + 2" "q' + 2 \<le> length buf" using "1.prems" pair by (simp_all add: a)
    define buf' where "buf' = take q' buf @ [digit_char (n div 10 mod 10), digit_char (n mod 10)] @ drop (q' + 2) buf"
    have "n mod 100 = 10 * (n div 10 mod 10) + n mod 10" using mod_mult2_eq [of n 10 10] by simp
    then have "n mod 100 div 10 = n div 10 mod 10" "n mod 100 mod 10 = n mod 10" by simp_all
    then have first: "put_pair (a mod 100) (q, buf) = Ret (q', buf')"
      using put_pair_at [of q' buf "a mod 100"] q by (simp add: a buf'_def nat_mod_distrib)
    have "put_digits (a div 100) (q', buf') = Ret (p, take p buf' @ nat_to_string (nat (a div 100)) @ drop q' buf')"
      by (rule "1.hyps" [OF _ first]) (use 3 q in \<open>simp_all add: a buf'_def q'_def nat_div_distrib\<close>)
    moreover have "nat (a div 100) = n div 100" by (simp add: a nat_div_distrib)
    ultimately show ?thesis
      using first 3 q pair by (simp add: put_digits.simps [of "int n"] a buf'_def q'_def)
  qed
qed

lemma put_digits_text:
  assumes "0 \<le> a" and "length s + count_digits a \<le> length buf" and "take (length s) buf = s"
  shows "obind (put_digits a (length s + count_digits a, buf)) (\<lambda>(p, buf). Ret (take (length s + count_digits a) buf)) =
    Ret (s @ nat_to_string (nat a))"
  using put_digits_at [of a "length s" "length s + count_digits a" buf] assms by (simp add: count_digits_length)

section \<open>Integers\<close>

lemma dump_integer_text:
  assumes "- (2 ^ 63) \<le> x" and "x < 2 ^ 64" and "length buf = 64"
  shows "dump_integer buf x = Ret (int_to_string x)"
proof -
  have digits20: "count_digits a \<le> 20" if "0 \<le> a" "a < 2 ^ 64" for a
  proof -
    have "nat a < 10 ^ 20" using that by simp
    then show ?thesis using nat_to_string_length_le [of "nat a" 20] that(1) by (simp add: count_digits_length)
  qed
  consider "x = 0" | "0 < x" | "x < 0" by linarith
  then show ?thesis
  proof cases
    case 1
    then show ?thesis by (simp add: dump_integer_def int_to_string_def)
  next
    case 2
    with assms digits20 [of x] put_digits_text [of x "[]" buf] show ?thesis
      by (simp add: dump_integer_def int_to_string_def)
  next
    case 3
    have sign: "remove_sign x = Ret (- x)"
      using 3 assms(1) by (simp add: remove_sign_def u64_def)
    have "take 1 (buf[0 := CHR ''-'']) = ''-''" using assms(3) by (cases buf) simp_all
    with put_digits_text [of "- x" "''-''" "buf[0 := CHR ''-'']"] digits20 [of "- x"] assms 3 sign show ?thesis
      by (simp add: dump_integer_def int_to_string_def)
  qed
qed

text \<open>An integer as a numeral of the grammar.\<close>

definition integer_numeral :: "int \<Rightarrow> numeral" where
  "integer_numeral x = \<lparr>n_negative = x < 0, n_int = nat_to_string (nat \<bar>x\<bar>), n_frac = [], n_exp = None\<rparr>"

lemma digits_nat_to_string [simp]: "digits (nat_to_string n)"
  using nat_to_string_digits [of n] by (simp add: digits_def list_all_iff is_digit_def)

lemma hd_nat_to_string: "hd (nat_to_string n) = CHR ''0'' \<Longrightarrow> n = 0"
proof (induction n rule: nat_to_string.induct)
  case (1 n)
  show ?case
  proof (cases "n < 10")
    case True
    with "1.prems" have "char_digit (digit_char n) = char_digit (digit_char 0)" by simp
    with True show ?thesis by (simp del: digit_char_eval)
  next
    case False
    with "1.prems" have "hd (nat_to_string (n div 10)) = CHR ''0''" by (simp add: nat_to_string_step)
    with "1.IH" False show ?thesis by simp
  qed
qed

lemma dec_value_nat_to_string [simp]: "dec_value (nat_to_string n) = int n"
proof (induction n rule: nat_to_string.induct)
  case (1 n)
  have "10 * int (n div 10) + int (n mod 10) = int n" by presburger
  with 1 show ?case by (cases "n < 10") (simp_all add: nat_to_string_step dec_value_def)
qed

lemma integer_numeral_ok: "numeral_ok (integer_numeral x)"
proof -
  have "hd (nat_to_string n) = CHR ''0'' \<longrightarrow> nat_to_string n = ''0''" for n
    using hd_nat_to_string [of n] nat_to_string_digit [of 0] by auto
  then show ?thesis unfolding numeral_ok_def integer_numeral_def numeral.simps by simp
qed

lemma integer_numeral_text: "numeral_text (integer_numeral x) = int_to_string x"
  by (simp add: numeral_text_def integer_numeral_def frac_text_def exp_text_def int_to_string_def)

lemma integer_numeral_json:
  "0 \<le> x \<Longrightarrow> x < 2 ^ 64 \<Longrightarrow> numeral_json (integer_numeral x) = JUInt x"
  "x < 0 \<Longrightarrow> - (2 ^ 63) \<le> x \<Longrightarrow> numeral_json (integer_numeral x) = JInt x"
  by (simp_all add: numeral_json_def integer_numeral_def Let_def)

end
