(* ===== verification/DtoaText.thy ===== *)
theory DtoaText
  imports DtoaCorrect JsonDumpNumber
begin

text \<open>
  The text of a floating-point number: the digits of Grisu2 in one of the four layouts of the code are a
  numeral of the grammar with a fraction or an exponent, and the numeral denotes the number.
\<close>

section \<open>Values of digit texts\<close>

lemma is_digit_digit_char [simp]: "d \<le> 9 \<Longrightarrow> is_digit (digit_char d)"
  by (simp add: is_digit_def del: digit_char_eval)

lemma digits_append [simp]: "digits (s @ t) \<longleftrightarrow> digits s \<and> digits t"
  by (simp add: digits_def)

lemma digits_take [simp]: "digits s \<Longrightarrow> digits (take n s)" and digits_drop [simp]: "digits s \<Longrightarrow> digits (drop n s)"
  by (auto simp: digits_def list_all_iff dest: in_set_takeD in_set_dropD)

lemma digits_zeros [simp]: "digits (replicate n (CHR ''0''))"
  by (simp add: digits_def list_all_iff is_digit_def char_digit_def)

lemma digits_digit_chars: "decimal_digits ds \<Longrightarrow> digits (map digit_char ds)"
  by (auto simp: decimal_digits_def digits_def list_all_iff)

lemma dec_value_digit_chars: "decimal_digits ds \<Longrightarrow> dec_value (map digit_char ds) = digits_int ds"
proof (induction ds rule: rev_induct)
  case (snoc d ds)
  then show ?case by (simp add: decimal_digits_snoc del: digit_char_eval)
qed simp

lemma char_digit_0 [simp]: "char_digit (CHR ''0'') = Some 0"
  by (simp add: char_digit_def)

lemma dec_value_append: "dec_value (s @ t) = dec_value s * 10 ^ length t + dec_value t"
  by (induction t rule: rev_induct) (simp_all flip: append_assoc add: algebra_simps)

lemma dec_value_zeros [simp]: "dec_value (replicate n (CHR ''0'')) = 0"
  by (induction n) (simp_all add: dec_value_append [of "[_]", simplified] dec_value_def)

lemma hd_digit_chars: "decimal_digits ds \<Longrightarrow> ds \<noteq> [] \<Longrightarrow> hd (map digit_char ds) \<noteq> CHR ''0''"
proof
  assume ds: "decimal_digits ds" "ds \<noteq> []" and "hd (map digit_char ds) = CHR ''0''"
  then have "char_digit (digit_char (hd ds)) = char_digit (CHR ''0'')" by (simp add: hd_map del: digit_char_eval)
  moreover have "hd ds < 10" "hd ds \<noteq> 0" using ds by (cases ds; auto simp: decimal_digits_def)+
  ultimately show False by (simp del: digit_char_eval)
qed

section \<open>The exponent\<close>

lemma append_exponent_Ret:
  assumes "- 1000 < e" "e < 1000"
  obtains s t where "append_exponent e = Ret (s @ t)" "s = ''+'' \<or> s = ''-''" "t \<noteq> []" "digits t"
    "(if s = ''-'' then - dec_value t else dec_value t) = e"
proof -
  define k where "k = nat \<bar>e\<bar>"
  define s where "s = (if e < 0 then ''-'' else ''+'')"
  have k: "k < 1000" using assms by (simp add: k_def)
  define t where "t = (if k < 10 then [CHR ''0'', digit_char k] else if k < 100 then [digit_char (k div 10), digit_char (k mod 10)]
    else [digit_char (k div 100), digit_char (k mod 100 div 10), digit_char (k mod 100 mod 10)])"
  have "append_exponent e = Ret (s @ t)"
    using assms by (simp add: append_exponent_def Let_def k_def [symmetric] s_def [symmetric] t_def)
  moreover have "t \<noteq> []" by (simp add: t_def)
  moreover have d: "k div 100 \<le> 9" "k mod 100 div 10 \<le> 9" "k mod 100 mod 10 \<le> 9" "k < 100 \<Longrightarrow> k div 10 \<le> 9" "k mod 10 \<le> 9"
    using k less_mult_imp_div_less [of k 10 100] less_mult_imp_div_less [of k 10 10]
      less_mult_imp_div_less [of "k mod 100" 10 10] mod_less_divisor [of 10 k] mod_less_divisor [of 100 k]
      mod_less_divisor [of 10 "k mod 100"] by simp_all
  then have "digits t" by (auto simp: t_def digits_def is_digit_def)
  moreover have "dec_value t = int k"
  proof -
    have "k div 100 * 100 + (k mod 100 div 10 * 10 + k mod 100 mod 10) = k" "k div 10 * 10 + k mod 10 = k"
      by (simp_all only: div_mult_mod_eq)
    then have "int (k div 100 * 100 + (k mod 100 div 10 * 10 + k mod 100 mod 10)) = int k" "int (k div 10 * 10 + k mod 10) = int k"
      by (simp_all only:)
    then have "int (k div 100) * 100 + int (k mod 100 div 10) * 10 + int (k mod 100 mod 10) = int k"
      "int (k div 10) * 10 + int (k mod 10) = int k" by (simp_all only: of_nat_add of_nat_mult of_nat_numeral add.assoc)
    then show ?thesis
      using d by (simp add: t_def dec_value_def less_Suc_eq_le [symmetric] ac_simps del: digit_char_eval div_mult_mod_eq)
  qed
  then have "(if s = ''-'' then - dec_value t else dec_value t) = e" by (simp add: s_def k_def)
  moreover have "s = ''+'' \<or> s = ''-''" by (simp add: s_def)
  ultimately show ?thesis using that by blast
qed

section \<open>The layouts\<close>

text \<open>A numeral without sign for a text and its value, with a fraction or an exponent.\<close>

definition writes :: "numeral \<Rightarrow> string \<Rightarrow> rat \<Rightarrow> bool" where
  "writes n t v \<longleftrightarrow> numeral_ok n \<and> \<not> n_negative n \<and> numeral_text n = t \<and> numeral_value n = v \<and> (n_frac n \<noteq> [] \<or> n_exp n \<noteq> None)"

lemma writes_point:
  assumes "ip \<noteq> []" "fp \<noteq> []" "digits ip" "digits fp" "hd ip = CHR ''0'' \<longrightarrow> ip = ''0''"
  shows "writes \<lparr>n_negative = False, n_int = ip, n_frac = fp, n_exp = None\<rparr> (ip @ ''.'' @ fp)
    (of_int (dec_value (ip @ fp)) * pow10 (- int (length fp)))"
  using assms by (simp add: writes_def numeral_ok_def numeral_text_def frac_text_def exp_text_def numeral_value_def exp_value_def)

lemma writes_exponent:
  assumes "ip \<noteq> []" "digits ip" "digits fp" "hd ip \<noteq> CHR ''0''" "s = ''+'' \<or> s = ''-''" "t \<noteq> []" "digits t"
  shows "writes \<lparr>n_negative = False, n_int = ip, n_frac = fp, n_exp = Some (CHR ''e'', s, t)\<rparr>
    (ip @ frac_text fp @ ''e'' @ s @ t)
    (of_int (dec_value (ip @ fp)) * pow10 ((if s = ''-'' then - dec_value t else dec_value t) - int (length fp)))"
  using assms by (auto simp: writes_def numeral_ok_def numeral_text_def exp_text_def numeral_value_def exp_value_def)

lemma format_buffer_writes:
  assumes ds: "decimal_digits ds" "ds \<noteq> []" and e: "- 1000 < int (length ds) + x - 1" "int (length ds) + x - 1 < 1000"
  shows "\<exists>n t. format_buffer ds x (- 4) 15 = Ret t \<and> writes n t (of_int (digits_int ds) * pow10 x)"
proof -
  define k where "k = length ds"
  define n where "n = int k + x"
  define dg where "dg = map digit_char ds"
  have dg: "digits dg" "dg \<noteq> []" "hd dg \<noteq> CHR ''0''" "length dg = k" "dec_value dg = digits_int ds" "0 < k"
    using ds by (simp_all add: dg_def digits_digit_chars hd_digit_chars k_def dec_value_digit_chars)
  let ?v = "of_int (digits_int ds) * pow10 x"
  have format: "format_buffer ds x (- 4) 15 =
      (if int k \<le> n \<and> n \<le> 15 then Ret (dg @ replicate (nat (n - int k)) (CHR ''0'') @ ''.0'')
       else if 0 < n \<and> n \<le> 15 then Ret (take (nat n) dg @ ''.'' @ drop (nat n) dg)
       else if - 4 < n \<and> n \<le> 0 then Ret (''0.'' @ replicate (nat (- n)) (CHR ''0'') @ dg)
       else obind (append_exponent (n - 1)) (\<lambda>e.
         if int k = 1 then Ret (dg @ ''e'' @ e) else Ret (take 1 dg @ ''.'' @ drop 1 dg @ ''e'' @ e)))"
    unfolding format_buffer_def Let_def dg_def [symmetric] k_def [symmetric] n_def [symmetric] by simp
  consider (integer) "int k \<le> n" "n \<le> 15" | (inside) "0 < n" "n < int k" "n \<le> 15" | (zeros) "- 4 < n" "n \<le> 0"
    | (exponent) "\<not> (int k \<le> n \<and> n \<le> 15)" "\<not> (0 < n \<and> n \<le> 15)" "\<not> (- 4 < n \<and> n \<le> 0)" by linarith
  then show ?thesis
  proof cases
    case integer
    let ?ip = "dg @ replicate (nat (n - int k)) (CHR ''0'')"
    have v: "dec_value (?ip @ ''0'') = digits_int ds * 10 ^ (nat x + 1)"
      using integer(1) by (simp add: dec_value_append dg(5) n_def dec_value_def [of "[_]"])
    have "of_int (dec_value (?ip @ ''0'')) * pow10 (- int (length ''0'')) = ?v"
      unfolding v using integer(1) by (simp add: pow10_def n_def)
    moreover have "hd ?ip \<noteq> CHR ''0''" using dg(2,3) by simp
    ultimately have "writes \<lparr>n_negative = False, n_int = ?ip, n_frac = ''0'', n_exp = None\<rparr> (?ip @ ''.'' @ ''0'') ?v"
      using writes_point [of ?ip "''0''"] dg(1,2) digits_zeros [of 1] by simp
    then show ?thesis using integer by (simp add: format del: replicate.simps) blast
  next
    case inside
    let ?ip = "take (nat n) dg" and ?fp = "drop (nat n) dg"
    have "hd ?ip \<noteq> CHR ''0''" "?ip \<noteq> []" "?fp \<noteq> []" using inside dg(2-4) by (auto simp: hd_take)
    moreover have "- int (length ?fp) = x" using inside dg(4) by (simp add: n_def)
    ultimately have "writes \<lparr>n_negative = False, n_int = ?ip, n_frac = ?fp, n_exp = None\<rparr> (?ip @ ''.'' @ ?fp) ?v"
      using writes_point [of ?ip ?fp] dg(1,5) by simp
    then show ?thesis using inside by (simp add: format) blast
  next
    case zeros
    let ?fp = "replicate (nat (- n)) (CHR ''0'') @ dg"
    have "dec_value (''0'' @ ?fp) = digits_int ds"
      by (simp add: dec_value_append [of "''0''", simplified] dec_value_append dec_value_def [of "[_]"] dg(5))
    moreover have "- int (length ?fp) = x" using zeros dg(4) by (simp add: n_def)
    ultimately have "writes \<lparr>n_negative = False, n_int = ''0'', n_frac = ?fp, n_exp = None\<rparr> (''0'' @ ''.'' @ ?fp) ?v"
      using writes_point [of "''0''" ?fp] dg(1,2) digits_zeros [of 1] by simp
    then show ?thesis using zeros dg(6) by (simp add: format) blast
  next
    case exponent
    obtain s t where a: "append_exponent (n - 1) = Ret (s @ t)" "s = ''+'' \<or> s = ''-''" "t \<noteq> []" "digits t"
      "(if s = ''-'' then - dec_value t else dec_value t) = n - 1"
      using append_exponent_Ret [of "n - 1"] e unfolding n_def k_def by blast
    let ?ip = "take 1 dg" and ?fp = "drop 1 dg"
    have ip: "hd ?ip \<noteq> CHR ''0''" "?ip \<noteq> []" using dg(2,3) by (auto simp: hd_take)
    have len: "n - 1 - int (length ?fp) = x" using dg(4,6) by (simp add: n_def)
    have "writes \<lparr>n_negative = False, n_int = ?ip, n_frac = ?fp, n_exp = Some (CHR ''e'', s, t)\<rparr>
        (?ip @ frac_text ?fp @ ''e'' @ s @ t) ?v"
      using writes_exponent [OF ip(2) _ _ ip(1) a(2-4), of ?fp] dg(1,5) unfolding a(5) len by simp
    moreover have "?ip @ frac_text ?fp @ ''e'' @ s @ t =
        (if int k = 1 then dg @ ''e'' @ s @ t else ?ip @ ''.'' @ ?fp @ ''e'' @ s @ t)"
      using dg(4,6) by (cases dg) (auto simp: frac_text_def)
    ultimately show ?thesis using exponent a(1) by (auto simp: format)
  qed
qed

text \<open>The text fits into the buffer of the code.\<close>

lemma append_exponent_length: "append_exponent e = Ret s \<Longrightarrow> length s \<le> 4"
  by (auto simp: append_exponent_def asserted_eq_Ret Let_def split: if_splits)

lemma format_buffer_length: "format_buffer ds x (- 4) 15 = Ret t \<Longrightarrow> length ds \<le> 17 \<Longrightarrow> length t \<le> 23"
  unfolding format_buffer_def asserted_eq_Ret Let_def
  by (auto simp: obind_eq_Ret split: if_splits dest!: append_exponent_length)

section \<open>The number as text\<close>

lemma digits_int_less: "decimal_digits ds \<Longrightarrow> digits_int ds < 10 ^ length ds"
  by (induction ds rule: rev_induct) (auto simp: decimal_digits_snoc)

lemma decimal_point_bounds:
  assumes "decimal_digits ds" "ds \<noteq> []" and "of_int (digits_int ds) * pow10 x < 2 ^ 1025" "2 powi (- 1076) < of_int (digits_int ds) * pow10 x"
  shows "- 1000 < int (length ds) + x - 1" "int (length ds) + x - 1 < 1000"
proof -
  let ?k = "length ds" and ?N = "of_int (digits_int ds) :: rat"
  have mono: "pow10 a \<le> pow10 b" if "a \<le> b" for a b
    using that by (simp add: pow10_powi power_int_increasing)
  have "of_int (10 ^ (?k - 1)) \<le> ?N" using digits_int_ge [OF assms(1,2)] by (simp only: of_int_le_iff)
  then have "pow10 (int (?k - 1)) * pow10 x \<le> ?N * pow10 x" by (simp add: pow10_nat less_imp_le)
  then have low: "pow10 (int ?k + x - 1) \<le> ?N * pow10 x"
    using assms(2) by (simp add: pow10_add [symmetric] of_nat_diff Suc_leI algebra_simps)
  have "?N < of_int (10 ^ ?k)" using digits_int_less [OF assms(1)] by (simp only: of_int_less_iff)
  then have up: "?N * pow10 x < pow10 (int ?k + x)" by (simp add: pow10_add pow10_nat)
  have two: "(2 :: rat) ^ k < 10 ^ m" if "k \<le> 3 * m" "0 < m" for k m
  proof -
    have "(2 :: rat) ^ k \<le> (2 ^ 3) ^ m" unfolding power_mult [symmetric] using that(1) by (intro power_increasing) simp_all
    also have "\<dots> < 10 ^ m" using that(2) by (intro power_strict_mono) simp_all
    finally show ?thesis .
  qed
  have "(2 :: rat) ^ 1025 < 10 ^ 1000" by (rule two; simp only: numeral_le_iff arith_simps rel_simps)
  then have big: "(2 :: rat) ^ 1025 < pow10 1000" using pow10_nat [of 1000] by (simp only: of_nat_numeral of_int_power of_int_numeral)
  have "(2 :: rat) ^ 1076 < 10 ^ 998" by (rule two; simp only: numeral_le_iff arith_simps rel_simps)
  then have "inverse (10 ^ 998) < inverse ((2 :: rat) ^ 1076)" by (intro less_imp_inverse_less) (simp_all only: zero_less_power zero_less_numeral)
  moreover have "pow10 (- 998) = inverse (10 ^ 998)" "(2 :: rat) powi (- 1076) = inverse (2 ^ 1076)"
    by (simp_all only: pow10_powi power_int_minus power_int_numeral)
  ultimately have small: "pow10 (- 998) < (2 :: rat) powi (- 1076)" by (simp only:)
  show "int ?k + x - 1 < 1000"
  proof (rule ccontr)
    assume "\<not> ?thesis"
    then have "pow10 1000 \<le> pow10 (int ?k + x - 1)" by (intro mono) simp
    with low big assms(3) show False by linarith
  qed
  show "- 1000 < int ?k + x - 1"
  proof (rule ccontr)
    assume "\<not> ?thesis"
    then have "pow10 (int ?k + x) \<le> pow10 (- 998)" by (intro mono) simp
    with up small assms(4) show False by linarith
  qed
qed

text \<open>A sign is put before a numeral.\<close>

definition signed :: "bool \<Rightarrow> numeral \<Rightarrow> numeral" where
  "signed s n = n\<lparr>n_negative := s\<rparr>"

lemma signed_writes:
  assumes "writes n t v"
  shows "numeral_ok (signed s n)" "numeral_text (signed s n) = (if s then ''-'' else []) @ t"
    "n_frac (signed s n) \<noteq> [] \<or> n_exp (signed s n) \<noteq> None" "numeral_dbl (signed s n) = rnd s (if s then - v else v)"
  using assms by (auto simp: writes_def signed_def numeral_ok_def numeral_text_def numeral_dbl_def numeral_value_def)

lemma to_chars_text:
  assumes "is_finite x" "dbl_ok x"
  obtains n t where "to_chars 64 x = Ret t" "length t \<le> 24" "numeral_ok n" "numeral_text n = t" "n_frac n \<noteq> [] \<or> n_exp n \<noteq> None"
    "numeral_dbl n = x"
proof -
  define s where "s = dneg_sign x"
  define a where "a = \<bar>dval x\<bar>"
  let ?sign = "if s then ''-'' else []"
  have "\<exists>n t. to_chars 64 x = Ret (?sign @ t) \<and> length t \<le> 23 \<and> (\<exists>v. writes n t v \<and> rnd s (if s then - v else v) = x)"
  proof (cases "a = 0")
    case True
    have "writes \<lparr>n_negative = False, n_int = ''0'', n_frac = ''0'', n_exp = None\<rparr> ''0.0'' 0"
      using writes_point [of "''0''" "''0''"] digits_zeros [of 1] by (simp add: dec_value_def)
    moreover have "rnd s (if s then - 0 else 0) = x"
      using True assms by (cases x) (simp_all add: s_def a_def rnd_def)
    moreover have "to_chars 64 x = Ret (?sign @ ''0.0'')"
      using True assms(1) by (simp add: to_chars_def Let_def s_def a_def)
    ultimately show ?thesis by fastforce
  next
    case False
    then obtain r where x: "x = Fin r" "r \<noteq> 0" using assms(1) by (cases x) (simp_all add: a_def)
    have a: "a = \<bar>r\<bar>" "0 < a" "representable a" and s: "s \<longleftrightarrow> r < 0"
      using x assms(2) by (simp_all add: a_def s_def abs_if)
    have "17 \<le> 64 - length ?sign" by simp
    then obtain ds k where g: "grisu2 (64 - length ?sign) a = Ret (ds, k)" "decimal_digits ds" "ds \<noteq> []" "length ds \<le> 17"
      "rnd False (of_int (digits_int ds) * pow10 k) = Fin a" "rnd True (- (of_int (digits_int ds) * pow10 k)) = Fin (- a)"
      "of_int (digits_int ds) * pow10 k < 2 ^ 1025" "2 powi (- 1076) < of_int (digits_int ds) * pow10 k"
      using grisu2_rounds [OF a(3,2)] by metis
    obtain n t where f: "format_buffer ds k (- 4) 15 = Ret t" "writes n t (of_int (digits_int ds) * pow10 k)"
      using format_buffer_writes [OF g(2,3) decimal_point_bounds [OF g(2,3,7,8)]] by blast
    have "to_chars 64 x = Ret (?sign @ t)"
      using assms(1) a(2) g(1,4) f(1)
      by (simp add: to_chars_def Let_def s_def [symmetric] a_def [symmetric] kMinExp10_def kMaxExp10_def max_digits10_def)
    moreover have "rnd s (if s then - (of_int (digits_int ds) * pow10 k) else of_int (digits_int ds) * pow10 k) = x"
      using g(5,6) a(1) s x(1) by (cases s) simp_all
    ultimately show ?thesis using f(2) format_buffer_length [OF f(1) g(4)] by blast
  qed
  then obtain n t v where r: "to_chars 64 x = Ret (?sign @ t)" "length t \<le> 23" "writes n t v" "rnd s (if s then - v else v) = x" by blast
  have "length (?sign @ t) \<le> 24" using r(2) by simp
  then show ?thesis using that [of "?sign @ t" "signed s n"] r signed_writes [OF r(3), of s] by auto
qed

end
