(* ===== verification/JsonRoundTrip.thy ===== *)
theory JsonRoundTrip
  imports JsonComplete DtoaText
begin

text \<open>
  What is dumped can be read back: the serializer writes a text of the grammar for every value whose
  integers fit into 64 bits and whose strings are in UTF-8, whatever the arguments of \<open>dump\<close>, and
  the parser reads this text as the value again.  Only two kinds of values come back changed: a
  signed integer that is not negative as an unsigned one, and a floating-point number that is not finite
  as null.
\<close>

section \<open>Values that can be written\<close>

text \<open>The members of an object are in the order of their keys.\<close>

fun writable :: "json \<Rightarrow> bool" where
  "writable (JInt n) \<longleftrightarrow> - (2 ^ 63) \<le> n \<and> n < 2 ^ 63"
| "writable (JUInt n) \<longleftrightarrow> 0 \<le> n \<and> n < 2 ^ 64"
| "writable (JFloat x) \<longleftrightarrow> dbl_ok x"
| "writable (JStr s) \<longleftrightarrow> utf8_text s"
| "writable (JArr js) \<longleftrightarrow> list_all writable js"
| "writable (JObj m) \<longleftrightarrow> smap_ok m \<and> list_all (\<lambda>e. utf8_text (fst e) \<and> writable (snd e)) m"
| "writable _ \<longleftrightarrow> True"

text \<open>The value that is read back.\<close>

fun reread :: "json \<Rightarrow> json" where
  "reread (JInt n) = (if n < 0 then JInt n else JUInt n)"
| "reread (JFloat x) = (if is_finite x then JFloat x else JNull)"
| "reread (JArr js) = JArr (map reread js)"
| "reread (JObj m) = JObj (map (\<lambda>e. (fst e, reread (snd e))) m)"
| "reread j = j"

text \<open>The levels of arrays and objects.\<close>

fun depth :: "json \<Rightarrow> nat" where
  "depth (JArr js) = Suc (fold max (map depth js) 0)"
| "depth (JObj m) = Suc (fold max (map (\<lambda>e. depth (snd e)) m) 0)"
| "depth _ = 0"

lemma fold_max: "fold max ns (n :: nat) \<le> d \<longleftrightarrow> n \<le> d \<and> list_all (\<lambda>k. k \<le> d) ns"
  by (induction ns arbitrary: n) auto

section \<open>White space around a text\<close>

lemma is_ws_chars [simp]: "is_ws (CHR '' '')" "is_ws (CHR 0x0A)"
  by (simp_all add: is_ws_def)

lemma ws_take [simp]: "ws s \<Longrightarrow> ws (take n s)"
  by (auto simp: ws_def dest: in_set_takeD)

lemma elements_text_ws_before:
  assumes "elements_text js t" "ws w"
  shows "elements_text js (w @ t)"
  using assms(1)
proof cases
  case (t_element a j u b)
  then show ?thesis using value_text_elements_text_members_text.t_element [of "w @ a" j u b] assms(2) by simp
next
  case (t_elements a j u b js' v)
  then show ?thesis using value_text_elements_text_members_text.t_elements [of "w @ a" j u b js' v] assms(2) by simp
qed

lemma members_text_ws_before:
  assumes "members_text m t" "ws w"
  shows "members_text m (w @ t)"
  using assms(1)
proof cases
  case (t_member a k s b c j u d)
  then show ?thesis using value_text_elements_text_members_text.t_member [of "w @ a" k s b c j u d] assms(2) by simp
next
  case (t_members a k s b c j u d m' v)
  then show ?thesis using value_text_elements_text_members_text.t_members [of "w @ a" k s b c j u d m' v] assms(2) by simp
qed

lemma texts_ws_behind:
  "value_text j t \<Longrightarrow> True"
  "elements_text js t \<Longrightarrow> ws w \<Longrightarrow> elements_text js (t @ w)"
  "members_text m t \<Longrightarrow> ws w \<Longrightarrow> members_text m (t @ w)"
proof (induction rule: value_text_elements_text_members_text.inducts)
  case (t_element a j t b)
  then show ?case using value_text_elements_text_members_text.t_element [of a j t "b @ w"] by simp
next
  case (t_elements a j t b js u)
  then show ?case using value_text_elements_text_members_text.t_elements [of a j t b js "u @ w"] by simp
next
  case (t_member a k s b c j t d)
  then show ?case using value_text_elements_text_members_text.t_member [of a k s b c j t "d @ w"] by simp
next
  case (t_members a k s b c j t d m u)
  then show ?case using value_text_elements_text_members_text.t_members [of a k s b c j t d m "u @ w"] by simp
qed simp_all

section \<open>Members in order\<close>

lemma smap_put_last: "(\<And>x. x \<in> fst ` set m \<Longrightarrow> x < k) \<Longrightarrow> smap_put k v m = m @ [(k, v)]"
  by (induction k v m rule: smap_put.induct) force+

lemma members_value_ok: "smap_ok m \<Longrightarrow> members_value m = m"
proof (induction m rule: rev_induct)
  case (snoc e m)
  obtain k v where e: "e = (k, v)" by fastforce
  have "smap_ok m" "\<And>x. x \<in> fst ` set m \<Longrightarrow> x < k"
    using snoc.prems by (auto simp: smap_ok_def e sorted_wrt_append)
  then show ?case using snoc.IH smap_put_last [of m k v] by (simp add: members_value_def e)
qed (simp add: members_value_def)

section \<open>The indentation\<close>

text \<open>
  The indentation string is long enough for the current indentation, and doubled once it is long enough for
  the next level: the width of a level is at most twice the length the string starts with.
\<close>

definition indentation :: "bool \<Rightarrow> int \<Rightarrow> int \<Rightarrow> string \<Rightarrow> bool" where
  "indentation pretty step current ind \<longleftrightarrow> (pretty \<longrightarrow> 0 \<le> step \<and> step \<le> 1024 \<and> 0 \<le> current \<and> current \<le> int (length ind) \<and>
     512 \<le> length ind \<and> (0 < current \<longrightarrow> step \<le> int (length ind)) \<and> ws ind)"

lemma indentation_longer:
  "indentation p s c ind \<Longrightarrow> indentation p s d ind' \<Longrightarrow> length ind \<le> length ind' \<Longrightarrow> indentation p s c ind'"
  by (auto simp: indentation_def)

lemma indentation_grow:
  "indentation True step current ind \<Longrightarrow> indentation True step (current + step) (grow_indent ind (current + step))"
  by (auto simp: indentation_def grow_indent_def ws_def)

lemma grow_indent_length: "length ind \<le> length (grow_indent ind n)"
  by (simp add: grow_indent_def)

lemma write_indent_ws:
  "indentation True step current ind \<Longrightarrow> write_indent ind current = Ret (take (nat current) ind) \<and> ws (take (nat current) ind)"
  by (simp add: write_indent_def indentation_def nat_le_iff)

section \<open>The text of a value\<close>

definition dumped :: "bool \<Rightarrow> bool \<Rightarrow> error_handler \<Rightarrow> int \<Rightarrow> int \<Rightarrow> string \<Rightarrow> json \<Rightarrow> bool" where
  "dumped p a h s c ind j \<longleftrightarrow> (\<exists>t ind'. sr_dump p a h s c ind j = Ret (t, ind') \<and> value_text (reread j) t \<and>
     indentation p s c ind' \<and> length ind \<le> length ind')"

text \<open>What is written before an element.\<close>

lemma indent_written:
  assumes "indentation p s c ind"
  obtains w where "(if p then write_indent ind c else Ret []) = Ret w" "ws w"
  using assms write_indent_ws [of s c ind] by (cases p) auto

lemma elements_dumped:
  assumes "\<And>j ind. j \<in> set js \<Longrightarrow> indentation p s c ind \<Longrightarrow> dumped p a h s c ind j"
    and "js \<noteq> []" and "indentation p s c ind"
  shows "\<exists>t ind'. sr_elements p a h s c ind js = Ret (t, ind') \<and> elements_text (map reread js) t \<and>
    indentation p s c ind' \<and> length ind \<le> length ind'"
  using assms
proof (induction js arbitrary: ind)
  case (Cons j js)
  obtain w where w: "(if p then write_indent ind c else Ret []) = Ret w" "ws w" by (rule indent_written [OF Cons.prems(3)])
  obtain t ind1 where t: "sr_dump p a h s c ind j = Ret (t, ind1)" "value_text (reread j) t" "indentation p s c ind1"
    "length ind \<le> length ind1"
    using Cons.prems(1) [of j ind] Cons.prems(3) by (auto simp: dumped_def)
  show ?case
  proof (cases "js = []")
    case True
    have "elements_text [reread j] (w @ t @ [])" by (rule value_text_elements_text_members_text.t_element) (use w t in simp_all)
    then show ?thesis using True w t by simp
  next
    case False
    then obtain r ind2 where r: "sr_elements p a h s c ind1 js = Ret (r, ind2)" "elements_text (map reread js) r"
      "indentation p s c ind2" "length ind1 \<le> length ind2"
      using Cons.IH [of ind1] Cons.prems(1) t(3) by auto
    have "elements_text (map reread js) ((if p then [CHR 0x0A] else []) @ r)"
      by (rule elements_text_ws_before [OF r(2)]) simp
    then have "elements_text (reread j # map reread js) (w @ t @ [] @ CHR '','' # (if p then [CHR 0x0A] else []) @ r)"
      by (intro value_text_elements_text_members_text.t_elements) (use w t in simp_all)
    then show ?thesis using False w t r by (cases p) simp_all
  qed
qed simp

lemma members_dumped:
  assumes "\<And>e ind. e \<in> set m \<Longrightarrow> indentation p s c ind \<Longrightarrow> dumped p a h s c ind (snd e)"
    and "m \<noteq> []" and "indentation p s c ind" and "list_all (\<lambda>e. utf8_text (fst e)) m"
  shows "\<exists>t ind'. sr_members p a h s c ind m = Ret (t, ind') \<and> members_text (map (\<lambda>e. (fst e, reread (snd e))) m) t \<and>
    indentation p s c ind' \<and> length ind \<le> length ind'"
  using assms
proof (induction m arbitrary: ind)
  case (Cons e m)
  obtain k v where e: "e = (k, v)" by fastforce
  obtain w where w: "(if p then write_indent ind c else Ret []) = Ret w" "ws w" by (rule indent_written [OF Cons.prems(3)])
  obtain x where x: "dump_escaped a h k = Ret x" "string_text k x"
    using dump_escaped_string_text [of k] Cons.prems(4) by (auto simp: e)
  obtain t ind1 where t: "sr_dump p a h s c ind v = Ret (t, ind1)" "value_text (reread v) t" "indentation p s c ind1"
    "length ind \<le> length ind1"
    using Cons.prems(1) [of e ind] Cons.prems(3) by (auto simp: dumped_def e)
  define sp where "sp = (if p then '' '' else [])"
  have sp: "ws sp" "(if p then '': '' else '':'') = CHR '':'' # sp" by (simp_all add: sp_def)
  show ?case
  proof (cases "m = []")
    case True
    have "members_text [(k, reread v)] (w @ CHR 0x22 # x @ CHR 0x22 # [] @ CHR '':'' # sp @ t @ [])"
      by (rule value_text_elements_text_members_text.t_member) (use w x t sp in simp_all)
    then show ?thesis using True w x t sp(2) by (simp add: e)
  next
    case False
    then obtain r ind2 where r: "sr_members p a h s c ind1 m = Ret (r, ind2)" "members_text (map (\<lambda>e. (fst e, reread (snd e))) m) r"
      "indentation p s c ind2" "length ind1 \<le> length ind2"
      using Cons.IH [of ind1] Cons.prems(1,4) t(3) by auto
    have "members_text (map (\<lambda>e. (fst e, reread (snd e))) m) ((if p then [CHR 0x0A] else []) @ r)"
      by (rule members_text_ws_before [OF r(2)]) simp
    then have "members_text ((k, reread v) # map (\<lambda>e. (fst e, reread (snd e))) m)
        (w @ CHR 0x22 # x @ CHR 0x22 # [] @ CHR '':'' # sp @ t @ [] @ CHR '','' # (if p then [CHR 0x0A] else []) @ r)"
      by (intro value_text_elements_text_members_text.t_members) (use w x t sp in simp_all)
    then show ?thesis using False w x t r sp(2) by (cases p) (simp_all add: e)
  qed
qed simp

lemma integer_dumped:
  assumes "- (2 ^ 63) \<le> n" "n < 2 ^ 64"
  shows "\<exists>t. dump_integer (replicate number_buffer_size CHR 0x00) n = Ret t \<and>
    value_text (if n < 0 then JInt n else JUInt n) t"
proof -
  have "numeral_value (integer_numeral n) = of_int \<bar>n\<bar>"
    by (simp add: numeral_value_def integer_numeral_def exp_value_def pow10_def)
  moreover have "(of_int \<bar>n\<bar> :: rat) \<le> of_int (2 ^ 64)" using assms by (simp only: of_int_le_iff) (simp add: abs_le_iff)
  ultimately have "is_finite (numeral_dbl (integer_numeral n))" unfolding numeral_dbl_def by (intro rnd_finite) simp
  then have "value_text (numeral_json (integer_numeral n)) (numeral_text (integer_numeral n))"
    by (intro t_number integer_numeral_ok)
  then show ?thesis
    using dump_integer_text [OF assms, of "replicate number_buffer_size CHR 0x00"] integer_numeral_json [of n] assms
    by (auto simp: number_buffer_size_def integer_numeral_text)
qed

lemma float_dumped:
  assumes "is_finite x" "dbl_ok x"
  shows "\<exists>t. dump_float x = Ret t \<and> value_text (JFloat x) t"
proof -
  obtain n t where n: "to_chars 64 x = Ret t" "numeral_ok n" "numeral_text n = t" "n_frac n \<noteq> [] \<or> n_exp n \<noteq> None" "numeral_dbl n = x"
    by (rule to_chars_text [OF assms])
  have "value_text (numeral_json n) (numeral_text n)" by (rule t_number) (use n assms in simp_all)
  moreover have "numeral_json n = JFloat x" using n(4,5) by (simp add: numeral_json_def)
  ultimately show ?thesis using n assms(1) by (simp add: dump_float_def number_buffer_size_def)
qed

text \<open>The indentation of the elements of an array or object with \<open>n\<close> more levels in it.\<close>

lemma nested_indentation:
  assumes "indentation p s c ind" and "p \<Longrightarrow> c + s * int (Suc n) < 2 ^ 32"
  obtains d ind0 where "indentation p s d ind0" "length ind \<le> length ind0"
    "p \<Longrightarrow> (c + s) mod 2 ^ 32 = d \<and> grow_indent ind d = ind0" "\<not> p \<Longrightarrow> c = d \<and> ind = ind0"
    "\<And>k. k \<le> n \<Longrightarrow> p \<Longrightarrow> d + s * int k < 2 ^ 32"
proof (cases p)
  case True
  have s: "0 \<le> s" "0 \<le> c" using assms(1) True by (simp_all add: indentation_def)
  have k: "c + s + s * int k < 2 ^ 32" if "k \<le> n" for k
  proof -
    have "s * int k \<le> s * int n" using that s(1) by (intro mult_left_mono) simp_all
    then show ?thesis using assms(2) [OF True] by (simp add: algebra_simps)
  qed
  from k [of 0] s have "(c + s) mod 2 ^ 32 = c + s" by (intro mod_pos_pos_trivial) simp_all
  then show ?thesis using that [of "c + s" "grow_indent ind (c + s)"] indentation_grow [of s c ind] assms(1) True k grow_indent_length
    by simp
next
  case False
  then show ?thesis using that [of c ind] assms by simp
qed

text \<open>The line before and the indentation behind the elements.\<close>

lemma closing_written:
  assumes "indentation p s c ind" "indentation p s d ind1" "length ind \<le> length ind1"
  obtains v w where "p \<Longrightarrow> write_indent ind1 c = Ret w \<and> v = CHR 0x0A # w" "\<not> p \<Longrightarrow> v = []" "ws v" "indentation p s c ind1"
proof -
  have i: "indentation p s c ind1" by (rule indentation_longer [OF assms])
  show ?thesis
    using that [of "take (nat c) ind1" "if p then CHR 0x0A # take (nat c) ind1 else []"] write_indent_ws [of s c ind1] i by (cases p) auto
qed

lemma value_dumped:
  assumes "writable j" and "indentation p s c ind" and "p \<Longrightarrow> c + s * int (depth j) < 2 ^ 32"
  shows "dumped p a h s c ind j"
  using assms
proof (induction j arbitrary: c ind)
  case (JInt n)
  then obtain t where "dump_integer (replicate number_buffer_size CHR 0x00) n = Ret t" "value_text (if n < 0 then JInt n else JUInt n) t"
    using integer_dumped [of n] by auto
  then show ?case using JInt.prems(2) by (simp add: dumped_def)
next
  case (JUInt n)
  then obtain t where "dump_integer (replicate number_buffer_size CHR 0x00) n = Ret t" "value_text (if n < 0 then JInt n else JUInt n) t"
    using integer_dumped [of n] by auto
  then show ?case using JUInt.prems by (simp add: dumped_def)
next
  case (JFloat x)
  then show ?case
    using float_dumped [of x] value_text_elements_text_members_text.t_null
    by (cases "is_finite x") (auto simp: dumped_def dump_float_def)
next
  case (JStr s)
  then obtain t where "dump_escaped a h s = Ret t" "string_text s t" using dump_escaped_string_text [of s a h] by auto
  then show ?case using JStr.prems(2) value_text_elements_text_members_text.t_string [of s t] by (simp add: dumped_def)
next
  case (JArr js)
  show ?case
  proof (cases "js = []")
    case True
    then show ?thesis using JArr.prems(2) value_text_elements_text_members_text.t_empty_array [of "[]"] by (simp add: dumped_def)
  next
    case False
    have lim: "p \<Longrightarrow> c + s * int (Suc (fold max (map depth js) 0)) < 2 ^ 32" using JArr.prems(3) by simp
    obtain d ind0 where n: "indentation p s d ind0" "length ind \<le> length ind0"
      "p \<Longrightarrow> (c + s) mod 2 ^ 32 = d \<and> grow_indent ind d = ind0" "\<not> p \<Longrightarrow> c = d \<and> ind = ind0"
      "\<And>k. k \<le> fold max (map depth js) 0 \<Longrightarrow> p \<Longrightarrow> d + s * int k < 2 ^ 32"
      using nested_indentation [OF JArr.prems(2) lim] by metis
    have "depth j \<le> fold max (map depth js) 0" if "j \<in> set js" for j
      using fold_max [of "map depth js" 0 "fold max (map depth js) 0"] that by (simp add: list_all_iff)
    then have "dumped p a h s d i j" if "j \<in> set js" "indentation p s d i" for i j
      using JArr.IH [of j d i] JArr.prems(1) that n(5) by (simp add: list_all_iff)
    then obtain t ind1 where t: "sr_elements p a h s d ind0 js = Ret (t, ind1)" "elements_text (map reread js) t"
      "indentation p s d ind1" "length ind0 \<le> length ind1"
      using elements_dumped [OF _ False n(1)] by blast
    have len: "length ind \<le> length ind1" using n(2) t(4) by simp
    obtain v w where w: "p \<Longrightarrow> write_indent ind1 c = Ret w \<and> v = CHR 0x0A # w" "\<not> p \<Longrightarrow> v = []" "ws v" "indentation p s c ind1"
      using closing_written [OF JArr.prems(2) t(3) len] by metis
    have "elements_text (map reread js) ((if p then [CHR 0x0A] else []) @ t @ v)"
      by (intro elements_text_ws_before texts_ws_behind(2) t(2) w(3)) simp
    then have "value_text (reread (JArr js)) (CHR ''['' # ((if p then [CHR 0x0A] else []) @ t @ v) @ '']'')"
      unfolding reread.simps by (rule value_text_elements_text_members_text.t_array)
    then show ?thesis using False n(3,4) t(1) w len by (cases p) (simp_all add: dumped_def Let_def)
  qed
next
  case (JObj m)
  show ?case
  proof (cases "m = []")
    case True
    then show ?thesis using JObj.prems(2) value_text_elements_text_members_text.t_empty_object [of "[]"] by (simp add: dumped_def)
  next
    case False
    let ?m = "map (\<lambda>e. (fst e, reread (snd e))) m" and ?n = "fold max (map (\<lambda>e. depth (snd e)) m) 0"
    have lim: "p \<Longrightarrow> c + s * int (Suc ?n) < 2 ^ 32" using JObj.prems(3) by simp
    obtain d ind0 where n: "indentation p s d ind0" "length ind \<le> length ind0"
      "p \<Longrightarrow> (c + s) mod 2 ^ 32 = d \<and> grow_indent ind d = ind0" "\<not> p \<Longrightarrow> c = d \<and> ind = ind0"
      "\<And>k. k \<le> ?n \<Longrightarrow> p \<Longrightarrow> d + s * int k < 2 ^ 32"
      using nested_indentation [OF JObj.prems(2) lim] by metis
    have dep: "depth (snd e) \<le> ?n" if "e \<in> set m" for e
      using fold_max [of "map (\<lambda>e. depth (snd e)) m" 0 ?n] that by (simp add: list_all_iff)
    have ih: "dumped p a h s d i (snd e)" if "e \<in> set m" "indentation p s d i" for i e
      using JObj.IH [of e "snd e" d i] JObj.prems(1) that n(5) [OF dep [OF that(1)]] by (cases e) (auto simp: list_all_iff)
    have keys: "list_all (\<lambda>e. utf8_text (fst e)) m" "smap_ok m" using JObj.prems(1) by (simp_all add: list_all_iff)
    obtain t ind1 where t: "sr_members p a h s d ind0 m = Ret (t, ind1)" "members_text ?m t"
      "indentation p s d ind1" "length ind0 \<le> length ind1"
      using members_dumped [OF ih False n(1) keys(1)] by blast
    have len: "length ind \<le> length ind1" using n(2) t(4) by simp
    obtain v w where w: "p \<Longrightarrow> write_indent ind1 c = Ret w \<and> v = CHR 0x0A # w" "\<not> p \<Longrightarrow> v = []" "ws v" "indentation p s c ind1"
      using closing_written [OF JObj.prems(2) t(3) len] by metis
    have "members_text ?m ((if p then [CHR 0x0A] else []) @ t @ v)"
      by (intro members_text_ws_before texts_ws_behind(3) t(2) w(3)) simp
    then have "value_text (JObj (members_value ?m)) (CHR ''{'' # ((if p then [CHR 0x0A] else []) @ t @ v) @ ''}'')"
      by (rule value_text_elements_text_members_text.t_object)
    moreover have "smap_ok ?m" using keys(2) by (simp add: smap_ok_def comp_def)
    ultimately have "value_text (reread (JObj m)) (CHR ''{'' # ((if p then [CHR 0x0A] else []) @ t @ v) @ ''}'')"
      by (simp add: members_value_ok)
    then show ?thesis using False n(3,4) t(1) w len by (cases p) (simp_all add: dumped_def Let_def)
  qed
qed (auto simp: dumped_def intro: value_text_elements_text_members_text.intros)

section \<open>Writing and reading\<close>

text \<open>
  The arguments of \<open>dump\<close>: a compact text, or levels of white space whose width stays in the unsigned 32-bit
  integers of the code.
\<close>

definition indent_ok :: "int \<Rightarrow> char \<Rightarrow> json \<Rightarrow> bool" where
  "indent_ok indent c j \<longleftrightarrow> (0 \<le> indent \<longrightarrow> is_ws c \<and> indent * int (depth j) < 2 ^ 32)"

text \<open>Values without lines: no container with elements.\<close>

definition flat :: "json \<Rightarrow> bool" where
  "flat j \<longleftrightarrow> depth j = 0 \<or> j = JArr [] \<or> j = JObj []"

lemma dump_value_text:
  assumes "writable j" "indent_ok indent c j" "indent \<le> 1024"
  shows "\<exists>t. json_dump_with indent c ensure_ascii handler j = Ret t \<and> value_text (reread j) t"
proof (cases "0 \<le> indent")
  case True
  have "ws (replicate n c)" for n using assms(2) True by (induction n) (simp_all add: indent_ok_def)
  then have "indentation True indent 0 (replicate 512 c)" using assms(2,3) True by (simp add: indentation_def)
  then have "dumped True ensure_ascii handler indent 0 (replicate 512 c) j"
    using assms True by (intro value_dumped) (simp_all add: indent_ok_def)
  then show ?thesis using True by (auto simp: dumped_def json_dump_with_def)
next
  case False
  have "dumped False ensure_ascii handler 0 0 (replicate 512 c) j"
    using assms by (intro value_dumped) (simp_all add: indentation_def)
  then show ?thesis using False by (auto simp: dumped_def json_dump_with_def)
qed

text \<open>The value that is read back has the same text.\<close>

lemma elements_reread:
  assumes "\<And>j c i. j \<in> set js \<Longrightarrow> sr_dump p a h s c i (reread j) = sr_dump p a h s c i j"
  shows "sr_elements p a h s c i (map reread js) = sr_elements p a h s c i js"
  using assms
proof (induction js arbitrary: i)
  case (Cons j js)
  have "(map reread js = []) = (js = [])" by simp
  moreover have "sr_elements p a h s c i' (map reread js) = sr_elements p a h s c i' js" for i' using Cons by simp
  ultimately show ?case using Cons.prems [of j] by (simp only: list.map sr_elements.simps list.set_intros)
qed simp

lemma members_reread:
  assumes "\<And>e c i. e \<in> set m \<Longrightarrow> sr_dump p a h s c i (reread (snd e)) = sr_dump p a h s c i (snd e)"
  shows "sr_members p a h s c i (map (\<lambda>e. (fst e, reread (snd e))) m) = sr_members p a h s c i m"
  using assms
proof (induction m arbitrary: i)
  case (Cons e m)
  obtain k v where e: "e = (k, v)" by fastforce
  have "(map (\<lambda>e. (fst e, reread (snd e))) m = []) = (m = [])" by simp
  moreover have "sr_members p a h s c i' (map (\<lambda>e. (fst e, reread (snd e))) m) = sr_members p a h s c i' m" for i' using Cons by simp
  ultimately show ?case using Cons.prems [of e] by (simp only: e list.map sr_members.simps list.set_intros fst_conv snd_conv)
qed simp

lemma dump_reread: "sr_dump p a h s c i (reread j) = sr_dump p a h s c i j"
proof (induction j arbitrary: c i)
  case (JArr js)
  have "sr_elements p a h s c' i' (map reread js) = sr_elements p a h s c' i' js" for c' i'
    by (rule elements_reread) (rule JArr.IH)
  then show ?case by (cases p) (simp_all add: Let_def)
next
  case (JObj m)
  have "sr_members p a h s c' i' (map (\<lambda>e. (fst e, reread (snd e))) m) = sr_members p a h s c' i' m" for c' i'
    by (rule members_reread) (metis JObj.IH surjective_pairing snds.intros prod_set_simps(2) singletonI snd_conv)
  then show ?case by (cases p) (simp_all add: Let_def)
qed (simp_all add: dump_float_def)

lemma flat_dump:
  "flat j \<Longrightarrow> json_dump_with indent c ensure_ascii handler j = json_dump_with (- 1) c ensure_ascii handler j"
  by (cases j) (simp_all add: flat_def json_dump_with_def Let_def)

text \<open>An indentation the doubled string of blanks does not hold is read behind its end.\<close>

lemma wide_indentation_overruns:
  assumes "\<not> flat j" and "1025 < indent" "indent * int (depth j) < 2 ^ 32"
  shows "json_dump_with indent c ensure_ascii handler j = Undef"
proof -
  have "0 < depth j" using assms(1) by (simp add: flat_def)
  then have "indent * 1 \<le> indent * int (depth j)" using assms(2) by (intro mult_left_mono) simp_all
  then have "indent < 2 ^ 32" using assms(3) by linarith
  then have w: "indent mod 2 ^ 32 = indent" using assms(2) by (intro mod_pos_pos_trivial) simp_all
  have grown: "write_indent (grow_indent (replicate 512 c) indent) indent = Undef"
    using assms(2) by (simp add: write_indent_def grow_indent_def)
  show ?thesis
  proof (cases j)
    case (JArr js)
    then show ?thesis using assms(1,2) w grown
      by (cases js) (simp_all add: flat_def json_dump_with_def Let_def)
  next
    case (JObj m)
    then show ?thesis using assms(1,2) w grown
      by (cases m) (auto simp add: flat_def json_dump_with_def Let_def)
  qed (use assms(1) in \<open>simp_all add: flat_def\<close>)
qed

lemma dump_parsed:
  assumes "writable j" "indent_ok indent c j" "indent \<le> 1024 \<or> flat j"
  obtains t where "json_dump_with indent c ensure_ascii handler j = Ret t" "json_parse t = Ret (reread j)"
    "json_dump_with indent c ensure_ascii handler (reread j) = Ret t"
proof -
  obtain t where t: "json_dump_with indent c ensure_ascii handler j = Ret t" "value_text (reread j) t"
  proof (cases "indent \<le> 1024")
    case True
    with that dump_value_text [OF assms(1,2)] show ?thesis by blast
  next
    case False
    then have "flat j" using assms(3) by simp
    moreover have "indent_ok (- 1) c j" by (simp add: indent_ok_def)
    from dump_value_text [OF assms(1) this, of ensure_ascii handler] obtain t
      where "json_dump_with (- 1) c ensure_ascii handler j = Ret t" "value_text (reread j) t" by auto
    ultimately show ?thesis using that flat_dump by metis
  qed
  have "document (reread j) t" unfolding document_def by (rule exI [of _ "[]"], rule exI [of _ t], rule exI [of _ "[]"]) (simp add: t)
  note parsed = document_parsed [OF this]
  have "json_dump_with indent c ensure_ascii handler (reread j) = json_dump_with indent c ensure_ascii handler j"
    by (simp only: json_dump_with_def dump_reread)
  then show ?thesis using that [OF t(1) parsed] t(1) by simp
qed

text \<open>C4: a value whose integers fit into 64 bits and whose strings are in UTF-8 is written without an error, compactly or
  with levels of up to 1024 white space characters and whatever the other arguments of \<open>dump\<close>; the parser reads
  the text as the same value (a signed integer that is not negative as an unsigned one, a number that is not finite as null),
  and dumping this value gives the same text again.  Wider levels, except for one of 1025 characters, read behind the end of the
  indentation string as soon as there is a line to indent.\<close>

theorem json_round_trip:
  assumes "writable j" "indent_ok indent c j"
  shows "if indent \<le> 1024 \<or> flat j
    then \<exists>t. json_dump_with indent c ensure_ascii handler j = Ret t \<and> json_parse t = Ret (reread j) \<and>
      json_dump_with indent c ensure_ascii handler (reread j) = Ret t
    else indent = 1025 \<or> json_dump_with indent c ensure_ascii handler j = Undef"
proof (cases "indent \<le> 1024 \<or> flat j")
  case True
  then show ?thesis using dump_parsed [OF assms True, of ensure_ascii handler] by auto
next
  case False
  then have "indent \<noteq> 1025 \<Longrightarrow> json_dump_with indent c ensure_ascii handler j = Undef"
    using assms(2) by (intro wide_indentation_overruns) (simp_all add: indent_ok_def)
  with False show ?thesis by auto
qed

lemma json_round_trip_witness:
  "(\<exists>t. json_dump_with 2 (CHR '' '') True Replace (JArr [JInt 5, JStr ''a'', JFloat (Fin (1 / 2)), JFloat PInf]) = Ret t \<and>
    json_parse t = Ret (JArr [JUInt 5, JStr ''a'', JFloat (Fin (1 / 2)), JNull])) \<and>
   json_dump_with 2000 (CHR '' '') True Replace (JArr [JInt 5, JStr ''a'', JFloat (Fin (1 / 2)), JFloat PInf]) = Undef"
proof -
  let ?j = "JArr [JInt 5, JStr ''a'', JFloat (Fin (1 / 2)), JFloat PInf]"
  have "utf8_text ''a''" unfolding utf8_text_def
    by (rule exI [of _ "[97]"]) code_simp
  moreover have "representable (1 / 2)" unfolding representable_def by (rule exI [of _ 1], rule exI [of _ "- 1"]) simp
  ultimately have "writable ?j" by simp
  moreover have "indent_ok 2 (CHR '' '') ?j" "indent_ok 2000 (CHR '' '') ?j" by (simp_all add: indent_ok_def)
  ultimately show ?thesis
    using json_round_trip [of ?j 2 "CHR '' ''" True Replace] json_round_trip [of ?j 2000 "CHR '' ''" True Replace]
    by (auto simp: flat_def)
qed

end
