(* ===== verification/JsonScanSound.thy ===== *)
theory JsonScanSound
  imports JsonScanNumber
begin

text \<open>
  Every token the lexer accepts is a token of the grammar: on any bytes it returns an error, the end of
  the input, or a token whose text it has read and whose value it holds.  It never reaches one of its
  assertions.
\<close>

section \<open>Strings\<close>

text \<open>Four bytes that are not hexadecimal digits are an error.\<close>

lemma codepoint_loop_cases:
  assumes "reads lx s"
  shows "fst (codepoint_loop fs n lx) = - 1 \<or>
    (\<exists>h r. s = h @ r \<and> length h = length fs \<and> list_all (\<lambda>c. hex_digit_value c \<noteq> None) h)"
  using assms
proof (induction fs arbitrary: s n lx)
  case (Cons f fs)
  note g = get_reads [OF Cons.prems]
  show ?case
  proof (cases s)
    case Nil
    with g(2) show ?thesis by (simp add: Let_def)
  next
    case (Cons c s')
    with g have l: "reads (lx_get lx) s'" "lx_current (lx_get lx) = Some c" by simp_all
    show ?thesis
    proof (cases "hex_digit_value c")
      case None
      with l(2) show ?thesis by (auto simp: Let_def hex_digit_value_def split: if_splits)
    next
      case (Some i)
      then have "\<exists>m. codepoint_loop (f # fs) n lx = codepoint_loop fs m (lx_get lx)"
        using l(2) by (auto simp: Let_def hex_digit_value_def split: if_splits)
      then obtain m where m: "codepoint_loop (f # fs) n lx = codepoint_loop fs m (lx_get lx)" by blast
      have "\<exists>h r. s = h @ r \<and> length h = length (f # fs) \<and> list_all (\<lambda>c. hex_digit_value c \<noteq> None) h"
        if "s' = h @ r" "length h = length fs" "list_all (\<lambda>c. hex_digit_value c \<noteq> None) h" for h r
        using that Some by (intro exI [of _ "c # h"] exI [of _ r]) (simp add: \<open>s = c # s'\<close>)
      with Cons.IH [OF l(1), of m] show ?thesis unfolding m by blast
    qed
  qed
qed simp

lemma hex4_exists:
  assumes "length h = 4" and "list_all (\<lambda>c. hex_digit_value c \<noteq> None) h"
  shows "\<exists>n. hex4_value h n"
proof -
  obtain a b c d where h: "h = [a, b, c, d]"
    using assms(1) by (auto simp: eval_nat_numeral length_Suc_conv)
  with assms(2) show ?thesis by (auto simp: hex4_value_def)
qed

lemma get_codepoint_cases:
  assumes "reads lx s" and "lx_current lx = Some CHR ''u''"
  obtains (error) lx' where "get_codepoint lx = Ret (- 1, lx')"
  | (hex) h r n lx' where "s = h @ r" "hex4_value h n" "get_codepoint lx = Ret (n, lx')" "reads lx' r"
proof (cases "fst (codepoint_loop [12, 8, 4, 0] 0 lx) = - 1")
  case True
  then have "get_codepoint lx = Ret (- 1, snd (codepoint_loop [12, 8, 4, 0] 0 lx))"
    using assms(2) by (simp add: get_codepoint_def case_prod_unfold del: codepoint_loop.simps)
  then show ?thesis by (rule error)
next
  case False
  with codepoint_loop_cases [OF assms(1), of "[12, 8, 4, 0]" 0] obtain h r where
    h: "s = h @ r" "length h = 4" "list_all (\<lambda>c. hex_digit_value c \<noteq> None) h" by auto
  then obtain n where n: "hex4_value h n" using hex4_exists by blast
  have "reads lx (h @ r)" using assms(1) h(1) by simp
  from get_codepoint_hex4 [OF this n assms(2)] show ?thesis using hex [OF h(1) n] by blast
qed

lemma scan_unicode_cases:
  assumes "reads lx s" and "lx_current lx = Some CHR ''u''"
  obtains (error) lx' where "scan_unicode lx = Ret (None, lx')"
  | (char) cp t r where "s = t @ r" "char_text cp (CHR 0x5C # CHR ''u'' # t)"
  using assms
proof (cases rule: get_codepoint_cases)
  case (error lx')
  then show ?thesis by (intro that(1)) (simp add: scan_unicode_def)
next
  case (hex h r n lx')
  note range = hex4_value_range [OF hex(2)]
  show ?thesis
  proof (cases "surrogate n")
    case False
    then show ?thesis using that(2) [OF hex(1) char_text.unicode [OF hex(2)]] by blast
  next
    case True
    show ?thesis
    proof (cases "n \<le> 0xDBFF")
      case False
      with True hex(3) range show ?thesis by (intro that(1)) (simp add: scan_unicode_def surrogate_def)
    next
      case hi: True
      note g1 = get_reads [OF hex(4)] note g2 = get_reads [OF g1(1)]
      show ?thesis
      proof (cases "\<exists>r'. r = CHR 0x5C # CHR ''u'' # r'")
        case False
        have "scan_unicode lx = Ret (None, if lx_current (lx_get lx') = Some CHR 0x5C then lx_get (lx_get lx') else lx_get lx')"
          using False True hi hex(3) range g1(2) g2(2)
          by (cases r; cases "tl r") (auto simp: scan_unicode_def surrogate_def Let_def)
        then show ?thesis by (rule that(1))
      next
        case pair: True
        then obtain r' where r: "r = CHR 0x5C # CHR ''u'' # r'" by blast
        have u: "reads (lx_get (lx_get lx')) r'" "lx_current (lx_get (lx_get lx')) = Some CHR ''u''"
          and b: "lx_current (lx_get lx') = Some CHR 0x5C"
          using g1 g2 r by simp_all
        from u show ?thesis
        proof (cases rule: get_codepoint_cases)
          case (error l)
          with True hi hex(3) range u(2) b show ?thesis
            by (intro that(1) [of l]) (simp add: scan_unicode_def surrogate_def Let_def)
        next
          case low: (hex h2 r2 m l)
          show ?thesis
          proof (cases "0xDC00 \<le> m \<and> m \<le> 0xDFFF")
            case False
            with True hi hex(3) low(3) hex4_value_range [OF low(2)] u(2) b show ?thesis
              by (intro that(1) [of l]) (auto simp: scan_unicode_def surrogate_def Let_def)
          next
            case m: True
            have "s = (h @ CHR 0x5C # CHR ''u'' # h2) @ r2" using hex(1) r low(1) by simp
            moreover have "char_text (0x10000 + 1024 * (n - 0xD800) + (m - 0xDC00)) (CHR 0x5C # CHR ''u'' # h @ CHR 0x5C # CHR ''u'' # h2)"
              using True hi m by (intro char_text.pair hex(2) low(2)) (simp_all add: surrogate_def)
            ultimately show ?thesis by (rule that(2))
          qed
        qed
      qed
    qed
  qed
qed

text \<open>The sequences of bytes the loop accepts are the scalar values.\<close>

lemma char_of_byte: "utf8_byte (of_char c) = c"
proof -
  have "(of_char c :: int) = int (of_char c)" by (simp only: of_nat_of_char)
  then show ?thesis by (simp add: utf8_byte_def)
qed

lemma base64_parts:
  fixes y :: int
  assumes "0 \<le> y" "y < 64"
  shows "(64 * x + y) div 64 = x" "(64 * x + y) mod 64 = y"
  using assms by (simp_all add: div_mult_self4 mod_mult_self4)

lemma utf8_two:
  assumes "2 \<le> x" "x < 0x20" "0 \<le> y" "y < (0x40 :: int)"
  shows "\<exists>cp. scalar_value cp \<and> 0x80 \<le> cp \<and> utf8 cp = [utf8_byte (0xC0 + x), utf8_byte (0x80 + y)]"
  using assms base64_parts [OF assms(3,4), of x]
  by (intro exI [of _ "64 * x + y"]) (simp add: scalar_value_def surrogate_def utf8_def)

lemma utf8_three:
  assumes "0 \<le> x" "x \<le> 0xF" "0 \<le> y" "y < 0x40" "0 \<le> z" "z < (0x40 :: int)"
    and "x = 0 \<longrightarrow> 0x20 \<le> y" "x = 0xD \<longrightarrow> y < 0x20"
  shows "\<exists>cp. scalar_value cp \<and> 0x80 \<le> cp \<and> utf8 cp = [utf8_byte (0xE0 + x), utf8_byte (0x80 + y), utf8_byte (0x80 + z)]"
proof -
  define cp where "cp = 64 * (64 * x + y) + z"
  have d: "cp div 64 = 64 * x + y" "cp mod 64 = z" unfolding cp_def by (rule base64_parts [OF assms(5,6)])+
  then have "cp div 4096 = x" "cp div 64 mod 64 = y"
    using base64_parts [OF assms(3,4), of x] zdiv_zmult2_eq [of 64 cp 64] by simp_all
  moreover have "0x800 \<le> cp" using assms(1-7) unfolding cp_def by (cases "x = 0") auto
  moreover have "cp < 0x10000" using assms(1-6) unfolding cp_def by simp
  moreover have "\<not> surrogate cp"
  proof
    assume "surrogate cp"
    then have c: "0xD800 \<le> 4096 * x + 64 * y + z" "4096 * x + 64 * y + z \<le> 0xDFFF" by (simp_all add: cp_def surrogate_def)
    have "12 < x" "x < 14" using c assms(1-6) by linarith+
    then have "x = 0xD" by simp
    with assms(5,6,8) c show False by simp
  qed
  ultimately show ?thesis
    using d by (intro exI [of _ cp]) (simp add: scalar_value_def utf8_def)
qed

lemma utf8_four:
  assumes "0 \<le> x" "x \<le> 4" "0 \<le> v" "v < 0x40" "0 \<le> y" "y < 0x40" "0 \<le> z" "z < (0x40 :: int)"
    and "x = 0 \<longrightarrow> 0x10 \<le> v" "x = 4 \<longrightarrow> v < 0x10"
  shows "\<exists>cp. scalar_value cp \<and> 0x80 \<le> cp \<and>
    utf8 cp = [utf8_byte (0xF0 + x), utf8_byte (0x80 + v), utf8_byte (0x80 + y), utf8_byte (0x80 + z)]"
proof -
  define cp where "cp = 64 * (64 * (64 * x + v) + y) + z"
  have d: "cp div 64 = 64 * (64 * x + v) + y" "cp mod 64 = z" unfolding cp_def by (rule base64_parts [OF assms(7,8)])+
  then have e: "cp div 4096 = 64 * x + v" "cp div 64 mod 64 = y"
    using base64_parts [OF assms(5,6), of "64 * x + v"] zdiv_zmult2_eq [of 64 cp 64] by simp_all
  then have "cp div 262144 = x" "cp div 4096 mod 64 = v"
    using base64_parts [OF assms(3,4), of x] zdiv_zmult2_eq [of 64 cp 4096] by simp_all
  moreover have "0x10000 \<le> cp"
  proof (cases "x = 0")
    case False
    then have "1 \<le> x" using assms(1) by linarith
    then show ?thesis using assms(3,5,7) unfolding cp_def by simp
  qed (use assms(5,7,9) in \<open>simp add: cp_def\<close>)
  moreover have "cp \<le> 0x10FFFF"
  proof (cases "x = 4")
    case False
    then have "x \<le> 3" using assms(2) by linarith
    then show ?thesis using assms(4,6,8) unfolding cp_def by simp
  qed (use assms(6,8,10) in \<open>simp add: cp_def\<close>)
  ultimately show ?thesis
    using d e by (intro exI [of _ cp]) (simp add: scalar_value_def surrogate_def utf8_def)
qed

lemma byte_offset: "utf8_byte (k + (of_char c - k)) = c"
  by (simp add: char_of_byte)

lemma in_ranges_utf8:
  assumes "following_ranges (of_char c) = Some rs" and "in_ranges bs rs"
  shows "\<exists>cp. scalar_value cp \<and> 0x80 \<le> cp \<and> utf8 cp = c # bs"
proof -
  let ?b = "of_char c :: int"
  note ranges = assms(1) [unfolded following_ranges_def]
  consider (two) "0xC2 \<le> ?b" "?b \<le> 0xDF" "rs = [(0x80, 0xBF)]"
    | (three) l u where "0xE0 \<le> ?b" "?b \<le> 0xEF" "rs = [(l, u), (0x80, 0xBF)]" "0x80 \<le> l" "u \<le> 0xBF"
        "?b = 0xE0 \<longrightarrow> l = 0xA0" "?b = 0xED \<longrightarrow> u = 0x9F"
    | (four) l u where "0xF0 \<le> ?b" "?b \<le> 0xF4" "rs = [(l, u), (0x80, 0xBF), (0x80, 0xBF)]" "0x80 \<le> l" "u \<le> 0xBF"
        "?b = 0xF0 \<longrightarrow> l = 0x90" "?b = 0xF4 \<longrightarrow> u = 0x8F"
    using ranges by (force split: if_splits)
  then show ?thesis
  proof cases
    case two
    with assms(2) obtain y where "bs = [y]" "0x80 \<le> (of_char y :: int)" "of_char y \<le> (0xBF :: int)"
      by (auto simp: in_ranges_def list_all2_Cons2)
    with two utf8_two [of "?b - 0xC0" "of_char y - 0x80"] show ?thesis by (simp add: char_of_byte)
  next
    case three
    with assms(2) obtain y z where bs: "bs = [y, z]" "l \<le> (of_char y :: int)" "of_char y \<le> u"
      "0x80 \<le> (of_char z :: int)" "of_char z \<le> (0xBF :: int)"
      by (auto simp: in_ranges_def list_all2_Cons2)
    have "\<exists>cp. scalar_value cp \<and> 0x80 \<le> cp \<and> utf8 cp = [utf8_byte (0xE0 + (?b - 0xE0)),
        utf8_byte (0x80 + (of_char y - 0x80)), utf8_byte (0x80 + (of_char z - 0x80))]"
      by (rule utf8_three) (use three bs in linarith)+
    then show ?thesis by (simp only: byte_offset bs(1))
  next
    case four
    with assms(2) obtain v y z where bs: "bs = [v, y, z]" "l \<le> (of_char v :: int)" "of_char v \<le> u"
      "0x80 \<le> (of_char y :: int)" "of_char y \<le> (0xBF :: int)" "0x80 \<le> (of_char z :: int)" "of_char z \<le> (0xBF :: int)"
      by (auto simp: in_ranges_def list_all2_Cons2)
    have "\<exists>cp. scalar_value cp \<and> 0x80 \<le> cp \<and> utf8 cp = [utf8_byte (0xF0 + (?b - 0xF0)),
        utf8_byte (0x80 + (of_char v - 0x80)), utf8_byte (0x80 + (of_char y - 0x80)), utf8_byte (0x80 + (of_char z - 0x80))]"
      by (rule utf8_four) (use four bs in linarith)+
    then show ?thesis by (simp only: byte_offset bs(1))
  qed
qed

lemma range_loop_cases:
  assumes "reads lx s" and "list_all (\<lambda>x. 0 \<le> fst x) rs"
  shows "(\<exists>lx'. range_loop rs lx = (False, lx')) \<or> (\<exists>bs r. s = bs @ r \<and> in_ranges bs rs)"
  using assms
proof (induction rs arbitrary: s lx)
  case Nil
  then show ?case by (auto simp: in_ranges_def)
next
  case (Cons x rs)
  note g = get_reads [OF Cons.prems(1)]
  show ?case
  proof (cases "lx_current (lx_get lx)")
    case None
    with Cons.prems(2) show ?thesis by (simp add: Let_def)
  next
    case (Some c)
    then obtain s' where s: "s = c # s'" using g(2) by (cases s) auto
    show ?thesis
    proof (cases "fst x \<le> of_char c \<and> of_char c \<le> snd x")
      case False
      with Some show ?thesis by auto
    next
      case True
      have "reads (add_current (lx_get lx)) s'" "list_all (\<lambda>x. 0 \<le> fst x) rs" using g(1) s Cons.prems(2) by simp_all
      from Cons.IH [OF this] show ?thesis
      proof
        assume "\<exists>bs r. s' = bs @ r \<and> in_ranges bs rs"
        then obtain bs r where "s' = bs @ r" "in_ranges bs rs" by blast
        with True have "s = (c # bs) @ r \<and> in_ranges (c # bs) (x # rs)" by (simp add: s in_ranges_def)
        then show ?thesis by blast
      qed (use Some True in \<open>auto simp: Let_def\<close>)
    qed
  qed
qed

lemma following_ranges_props:
  assumes "following_ranges b = Some rs"
  shows "0x80 \<le> b" "list_all (\<lambda>x. 0 \<le> fst x) rs" "length rs = 1 \<or> length rs = 2 \<or> length rs = 3"
  using assms by (auto simp: following_ranges_def split: if_splits)

text \<open>At the beginning of a character: the closing quotation mark, a character of the grammar, or an error.\<close>

lemma escape_cases:
  assumes "simple_escape c = Some e"
  shows "\<exists>cp. char_text cp [CHR 0x5C, c]"
proof -
  have "\<exists>cp. (c, cp) \<in> escapes"
    using assms unfolding simple_escape_def escapes_def by (auto split: if_splits)
  then show ?thesis by (auto intro: char_text.escape)
qed

lemma scan_escape_cases:
  assumes "reads lx s"
  shows "(\<exists>lx'. scan_escape lx = Ret (False, lx')) \<or> (\<exists>cp t r. s = t @ r \<and> char_text cp (CHR 0x5C # t))"
proof (cases s)
  case Nil
  with get_reads(2) [OF assms] show ?thesis by (simp add: scan_escape_def Let_def)
next
  case (Cons c s')
  with get_reads [OF assms] have g: "reads (lx_get lx) s'" "lx_current (lx_get lx) = Some c" by simp_all
  show ?thesis
  proof (cases "c = CHR ''u''")
    case True
    with g(2) have "lx_current (lx_get lx) = Some CHR ''u''" by simp
    with g(1) show ?thesis
    proof (cases rule: scan_unicode_cases)
      case (error lx')
      with g(2) True show ?thesis by (simp add: scan_escape_def Let_def)
    next
      case (char cp t r)
      then have "s = (CHR ''u'' # t) @ r \<and> char_text cp (CHR 0x5C # CHR ''u'' # t)" by (simp add: Cons True)
      then show ?thesis by blast
    qed
  next
    case False
    show ?thesis
    proof (cases "simple_escape c")
      case None
      with False g(2) show ?thesis by (simp add: scan_escape_def Let_def)
    next
      case (Some e)
      then obtain cp where "char_text cp [CHR 0x5C, c]" using escape_cases by blast
      moreover have "s = [c] @ s'" by (simp add: Cons)
      ultimately show ?thesis by blast
    qed
  qed
qed

lemma string_head_cases:
  assumes "reads lx s"
  obtains (error) lx' where "scan_string_loop lx = Ret (parse_error, lx')"
  | (quote) r where "s = CHR 0x22 # r"
  | (char) cp t r where "s = t @ r" "t \<noteq> []" "char_text cp t"
proof (cases s)
  case Nil
  with get_reads(2) [OF assms] show ?thesis by (intro error) (simp add: scan_string_loop.simps [of lx] Let_def)
next
  case (Cons c s')
  with get_reads [OF assms] have g: "reads (lx_get lx) s'" "lx_current (lx_get lx) = Some c" by simp_all
  note loop = scan_string_loop.simps [of lx] g(2) Let_def
  consider (q) "c = CHR 0x22" | (esc) "c = CHR 0x5C"
    | (plain) "c \<noteq> CHR 0x22" "c \<noteq> CHR 0x5C" by blast
  then show ?thesis
  proof cases
    case q
    with Cons show ?thesis by (intro quote) simp
  next
    case esc
    from scan_escape_cases [OF g(1)] show ?thesis
    proof (elim disjE exE conjE)
      fix l assume "scan_escape (lx_get lx) = Ret (False, l)"
      with esc show ?thesis by (intro error [of l]) (simp add: loop)
    next
      fix cp t r assume "s' = t @ r" "char_text cp (CHR 0x5C # t)"
      with esc Cons show ?thesis by (intro char [of "CHR 0x5C # t" r cp]) simp_all
    qed
  next
    case plain
    consider (control) "of_char c \<le> (0x1F :: int)" | (ascii) "(0x20 :: int) \<le> of_char c" "of_char c \<le> (0x7F :: int)"
      | (multi) "(0x80 :: int) \<le> of_char c" by linarith
    then show ?thesis
    proof cases
      case control
      with plain show ?thesis by (intro error) (simp add: loop)
    next
      case ascii
      have ne: "of_char c \<noteq> (0x22 :: int)" "of_char c \<noteq> (0x5C :: int)"
        using plain of_char_eq_iff [of c "CHR 0x22", where 'a = int] of_char_eq_iff [of c "CHR 0x5C", where 'a = int]
        by simp_all
      have "char_text (of_char c) (utf8 (of_char c))"
        using ascii ne by (intro char_text.unescaped) (simp_all add: scalar_value_def surrogate_def)
      then have "char_text (of_char c) [c]" using ascii(2) by (simp add: utf8_def char_of_byte)
      then show ?thesis using Cons by (intro char [of "[c]" s']) simp_all
    next
      case multi
      show ?thesis
      proof (cases "following_ranges (of_char c)")
        case None
        with plain multi show ?thesis by (intro error) (simp add: loop)
      next
        case (Some rs)
        note rs = following_ranges_props [OF Some]
        have "reads (add_current (lx_get lx)) s'" using g(1) by simp
        from range_loop_cases [OF this rs(2)] show ?thesis
        proof (elim disjE exE conjE)
          fix l assume "range_loop rs (add_current (lx_get lx)) = (False, l)"
          with plain multi Some rs(3) show ?thesis by (intro error [of l]) (simp add: loop next_byte_in_range_def)
        next
          fix bs r assume bs: "s' = bs @ r" "in_ranges bs rs"
          obtain cp where cp: "scalar_value cp" "0x80 \<le> cp" "utf8 cp = c # bs"
            using in_ranges_utf8 [OF Some bs(2)] by blast
          then have "char_text cp (c # bs)" using char_text.unescaped [OF cp(1)] by simp
          then show ?thesis using Cons bs(1) by (intro char [of "c # bs" r]) simp_all
        qed
      qed
    qed
  qed
qed

lemma scan_string_loop_cases:
  assumes "reads lx s"
  shows "\<exists>ty lx'. scan_string_loop lx = Ret (ty, lx') \<and> (ty = parse_error \<or> ty = value_string \<and>
    (\<exists>u t r. s = t @ CHR 0x22 # r \<and> string_text u t \<and> lx_buffer lx' = lx_buffer lx @ u \<and> reads lx' r))"
  using assms
proof (induction "length s" arbitrary: s lx rule: less_induct)
  case less
  from less.prems show ?case
  proof (cases rule: string_head_cases)
    case (quote r)
    with less.prems scan_string_loop_text [OF string_text.empty, of lx r] obtain l where
      "scan_string_loop lx = Ret (value_string, l)" "reads l r" "lx_buffer l = lx_buffer lx" by auto
    moreover have "s = [] @ CHR 0x22 # r" using quote by simp
    ultimately show ?thesis using string_text.empty by (metis append_Nil2)
  next
    case (char cp t r)
    with string_step_char [OF char(3)] less.prems obtain l where l: "scan_string_loop lx = scan_string_loop l" "reads l r"
      "lx_buffer l = lx_buffer lx @ utf8 cp" unfolding string_step_def by blast
    have "length r < length s" using char(1,2) by (cases t) simp_all
    from less.hyps [OF this l(2)] obtain ty lx' where
      r: "scan_string_loop l = Ret (ty, lx')" "ty = parse_error \<or> ty = value_string \<and>
        (\<exists>u v r'. r = v @ CHR 0x22 # r' \<and> string_text u v \<and> lx_buffer lx' = lx_buffer l @ u \<and> reads lx' r')" by blast
    have "\<exists>u t r. s = t @ CHR 0x22 # r \<and> string_text u t \<and> lx_buffer lx' = lx_buffer lx @ u \<and> reads lx' r"
      if "r = v @ CHR 0x22 # r'" "string_text u v" "lx_buffer lx' = lx_buffer l @ u" "reads lx' r'" for u v r'
      using that char l(3) string_text.more [OF char(3) that(2)]
      by (intro exI [of _ "utf8 cp @ u"] exI [of _ "t @ v"] exI [of _ r']) simp
    with r l(1) show ?thesis by auto
  qed auto
qed

section \<open>Numbers\<close>

text \<open>What has been read when the state machine is in a state.\<close>

definition bare :: "numeral \<Rightarrow> bool" where
  "bare n \<longleftrightarrow> numeral_ok n \<and> n_frac n = [] \<and> n_exp n = None"

definition mantissa :: "numeral \<Rightarrow> bool" where
  "mantissa n \<longleftrightarrow> numeral_ok n \<and> n_exp n = None"

definition num_prefix :: "num_state \<Rightarrow> token_type \<Rightarrow> string \<Rightarrow> bool" where
  "num_prefix q ty b = (case q of
       Minus \<Rightarrow> b = ''-''
     | Zero \<Rightarrow> (\<exists>n. bare n \<and> n_int n = ''0'' \<and> b = numeral_text n \<and> ty = numeral_type n)
     | Any1 \<Rightarrow> (\<exists>n. bare n \<and> n_int n \<noteq> ''0'' \<and> b = numeral_text n \<and> ty = numeral_type n)
     | Decimal1 \<Rightarrow> (\<exists>n. bare n \<and> b = numeral_text n @ ''.'')
     | Decimal2 \<Rightarrow> (\<exists>n. mantissa n \<and> n_frac n \<noteq> [] \<and> b = numeral_text n \<and> ty = value_float)
     | Exponent \<Rightarrow> (\<exists>n e. mantissa n \<and> (e = CHR ''e'' \<or> e = CHR ''E'') \<and> b = numeral_text n @ [e])
     | Sign \<Rightarrow> (\<exists>n e s. mantissa n \<and> (e = CHR ''e'' \<or> e = CHR ''E'') \<and> (s = CHR ''+'' \<or> s = CHR ''-'') \<and>
         b = numeral_text n @ [e, s] \<and> ty = value_float)
     | Any2 \<Rightarrow> (\<exists>n. numeral_ok n \<and> n_exp n \<noteq> None \<and> b = numeral_text n \<and> ty = value_float))"

lemma bare_int:
  "is_digit c \<Longrightarrow> bare \<lparr>n_negative = g, n_int = [c], n_frac = [], n_exp = None\<rparr>"
  by (simp add: bare_def numeral_ok_def)

lemma bare_more:
  assumes "bare n" "n_int n \<noteq> ''0''" "is_digit c"
  shows "bare (n\<lparr>n_int := n_int n @ [c]\<rparr>)" "n_int n @ [c] \<noteq> ''0''"
    "numeral_text (n\<lparr>n_int := n_int n @ [c]\<rparr>) = numeral_text n @ [c]"
    "numeral_type (n\<lparr>n_int := n_int n @ [c]\<rparr>) = numeral_type n"
  using assms
  by (auto simp: bare_def numeral_ok_def numeral_text_def numeral_type_def frac_text_def exp_text_def)

lemma mantissa_frac:
  assumes "mantissa n" "is_digit c"
  shows "mantissa (n\<lparr>n_frac := n_frac n @ [c]\<rparr>)"
    "numeral_text (n\<lparr>n_frac := n_frac n @ [c]\<rparr>) = numeral_text n @ (if n_frac n = [] then [CHR ''.'', c] else [c])"
  using assms by (auto simp: mantissa_def numeral_ok_def numeral_text_def frac_text_def exp_text_def)

lemma mantissa_exp:
  assumes "mantissa n" "e = CHR ''e'' \<or> e = CHR ''E''" "s \<in> {'''', ''+'', ''-''}" "is_digit c"
  shows "numeral_ok (n\<lparr>n_exp := Some (e, s, [c])\<rparr>)"
    "numeral_text (n\<lparr>n_exp := Some (e, s, [c])\<rparr>) = numeral_text n @ e # s @ [c]"
  using assms by (auto simp: mantissa_def numeral_ok_def numeral_text_def exp_text_def)

lemma exp_more:
  assumes "numeral_ok n" "n_exp n \<noteq> None" "is_digit c"
  shows "\<exists>m. numeral_ok m \<and> n_exp m \<noteq> None \<and> numeral_text m = numeral_text n @ [c]"
proof -
  obtain e s ds where x: "n_exp n = Some (e, s, ds)" using assms(2) by auto
  show ?thesis
    using assms x
    by (intro exI [of _ "n\<lparr>n_exp := Some (e, s, ds @ [c])\<rparr>"]) (auto simp: numeral_ok_def numeral_text_def exp_text_def)
qed

lemma num_step:
  assumes "num_prefix q ty b" and "num_next q (Some c) = Goto q'"
  shows "num_prefix q' (num_type q ty) (b @ [c])"
proof (cases q)
  case Minus
  then have q': "is_digit c" "q' = (if c = CHR ''0'' then Zero else Any1)" and b: "b = ''-''"
    using assms by (auto simp: num_next_def num_prefix_def is_digit_int split: if_splits)
  then show ?thesis
    using bare_int [OF q'(1), of True]
    by (auto simp: num_prefix_def Minus numeral_text_def frac_text_def exp_text_def numeral_type_def
        intro!: exI [of _ "\<lparr>n_negative = True, n_int = [c], n_frac = [], n_exp = None\<rparr>"])
next
  case Zero
  then obtain n where n: "bare n" "b = numeral_text n" using assms(1) by (auto simp: num_prefix_def)
  then have "mantissa n" by (simp add: bare_def mantissa_def)
  with n show ?thesis using assms(2) by (auto simp: num_next_def num_prefix_def Zero split: if_splits)
next
  case Any1
  then obtain n where n: "bare n" "n_int n \<noteq> ''0''" "b = numeral_text n" "ty = numeral_type n"
    using assms(1) by (auto simp: num_prefix_def)
  then have "mantissa n" by (simp add: bare_def mantissa_def)
  moreover have "num_prefix Any1 ty (b @ [c])" if "is_digit c"
    using bare_more [OF n(1,2) that] n(3,4) unfolding num_prefix_def
    by (auto intro!: exI [of _ "n\<lparr>n_int := n_int n @ [c]\<rparr>"])
  ultimately show ?thesis
    using n assms(2) by (auto simp: num_next_def Any1 is_digit_int split: if_splits) (auto simp: num_prefix_def)
next
  case Decimal1
  then obtain n where n: "bare n" "b = numeral_text n @ ''.''" using assms(1) by (auto simp: num_prefix_def)
  then have m: "mantissa n" "n_frac n = []" by (simp_all add: bare_def mantissa_def)
  have c: "is_digit c" "q' = Decimal2" using assms(2) by (auto simp: num_next_def Decimal1 is_digit_int split: if_splits)
  from mantissa_frac [OF m(1) c(1)] m(2) n(2) c(2) show ?thesis
    by (auto simp: num_prefix_def Decimal1 intro!: exI [of _ "n\<lparr>n_frac := [c]\<rparr>"])
next
  case Decimal2
  then obtain n where n: "mantissa n" "n_frac n \<noteq> []" "b = numeral_text n" "ty = value_float"
    using assms(1) by (auto simp: num_prefix_def)
  moreover have "num_prefix Decimal2 ty (b @ [c])" if "is_digit c"
    using mantissa_frac [OF n(1) that] n unfolding num_prefix_def
    by (auto intro!: exI [of _ "n\<lparr>n_frac := n_frac n @ [c]\<rparr>"])
  ultimately show ?thesis
    using assms(2) by (auto simp: num_next_def Decimal2 is_digit_int split: if_splits) (auto simp: num_prefix_def)
next
  case Exponent
  then obtain n e where n: "mantissa n" "e = CHR ''e'' \<or> e = CHR ''E''" "b = numeral_text n @ [e]"
    using assms(1) by (auto simp: num_prefix_def)
  moreover have "num_prefix Any2 value_float (b @ [c])" if "is_digit c"
    using mantissa_exp [OF n(1,2) _ that, of "[]"] n(3) unfolding num_prefix_def
    by (auto intro!: exI [of _ "n\<lparr>n_exp := Some (e, [], [c])\<rparr>"])
  ultimately show ?thesis
    using assms(2) by (auto simp: num_next_def Exponent is_digit_int split: if_splits) (auto simp: num_prefix_def)
next
  case Sign
  then obtain n e s where n: "mantissa n" "e = CHR ''e'' \<or> e = CHR ''E''" "s = CHR ''+'' \<or> s = CHR ''-''"
    "b = numeral_text n @ [e, s]" "ty = value_float"
    using assms(1) by (auto simp: num_prefix_def)
  have c: "is_digit c" "q' = Any2" using assms(2) by (auto simp: num_next_def Sign is_digit_int split: if_splits)
  have "[s] \<in> {'''', ''+'', ''-''}" using n(3) by auto
  from mantissa_exp [OF n(1,2) this c(1)] n(4,5) c(2) show ?thesis
    by (auto simp: num_prefix_def Sign intro!: exI [of _ "n\<lparr>n_exp := Some (e, [s], [c])\<rparr>"])
next
  case Any2
  then obtain n where n: "numeral_ok n" "n_exp n \<noteq> None" "b = numeral_text n" "ty = value_float"
    using assms(1) by (auto simp: num_prefix_def)
  have c: "is_digit c" "q' = Any2" using assms(2) by (auto simp: num_next_def Any2 is_digit_int split: if_splits)
  from exp_more [OF n(1,2) c(1)] n(3,4) c(2) show ?thesis by (auto simp: num_prefix_def Any2)
qed

lemma num_stop:
  assumes "num_prefix q ty b" and "num_next q c = Num_done"
  shows "\<exists>n. numeral_ok n \<and> b = numeral_text n \<and> num_type q ty = numeral_type n"
proof -
  have "q \<in> {Zero, Any1, Decimal2, Any2}" using assms(2) by (cases q) (auto simp: num_next_def split: if_splits)
  moreover then have "num_type q ty = ty" by (auto simp: num_type_def)
  moreover have "n_frac n \<noteq> [] \<or> n_exp n \<noteq> None \<Longrightarrow> numeral_type n = value_float" for n
    by (simp add: numeral_type_def)
  ultimately show ?thesis
    using assms(1) by (elim insertE emptyE) (fastforce simp only: num_prefix_def bare_def mantissa_def num_state.case)+
qed

lemma scan_number_loop_cases:
  assumes "reads lx s" and "num_prefix q ty (lx_buffer lx)"
  shows "\<exists>ty' lx'. scan_number_loop q ty lx = Ret (ty', lx') \<and> (ty' = parse_error \<or>
    (\<exists>n t r. numeral_ok n \<and> s = t @ r \<and> lx_buffer lx @ t = numeral_text n \<and> holds_number (numeral_json n) ty' lx' \<and> reads lx' r))"
  using assms
proof (induction "length s" arbitrary: s lx q ty rule: less_induct)
  case less
  note g = get_reads [OF less.prems(1)]
  note loop = scan_number_loop.simps [of q ty lx] Let_def
  show ?case
  proof (cases "num_next q (lx_current (lx_get lx))")
    case Num_error
    then show ?thesis by (simp add: loop)
  next
    case Num_done
    obtain n where n: "numeral_ok n" "lx_buffer lx = numeral_text n" "num_type q ty = numeral_type n"
      using num_stop [OF less.prems(2) Num_done] by blast
    have "lx_buffer (lx_get lx) = numeral_text n" using g(3) n(2) by simp
    from scan_number_done_numeral [OF n(1) this unread_get_reads [OF less.prems(1)]] obtain ty' l where
      "scan_number_done (numeral_type n) (lx_get lx) = Ret (ty', l)" "holds_number (numeral_json n) ty' l" "reads l s" by blast
    moreover have "s = [] @ s" "lx_buffer lx @ [] = numeral_text n" using n(2) by simp_all
    ultimately show ?thesis using Num_done n(1,3) by (simp add: loop) blast
  next
    case (Goto q')
    then obtain c where c: "lx_current (lx_get lx) = Some c" using num_next_Goto by blast
    then have s: "s = c # tl s" using g(2) by (cases s) auto
    let ?l = "add_current (lx_get lx)"
    have l: "reads ?l (tl s)" "lx_buffer ?l = lx_buffer lx @ [c]" using g(1,3) by (simp_all add: c)
    have pre: "num_prefix q' (num_type q ty) (lx_buffer ?l)"
      unfolding l(2) using num_step [OF less.prems(2)] Goto c by simp
    have "length (tl s) < length s" by (subst (2) s) simp
    from less.hyps [OF this l(1) pre] obtain ty' lx' where
      r: "scan_number_loop q' (num_type q ty) ?l = Ret (ty', lx')" "ty' = parse_error \<or>
      (\<exists>n t r. numeral_ok n \<and> tl s = t @ r \<and> lx_buffer ?l @ t = numeral_text n \<and> holds_number (numeral_json n) ty' lx' \<and> reads lx' r)"
      by blast
    have "\<exists>n t r. numeral_ok n \<and> s = t @ r \<and> lx_buffer lx @ t = numeral_text n \<and> holds_number (numeral_json n) ty' lx' \<and> reads lx' r"
      if "numeral_ok n" "tl s = t @ r" "lx_buffer ?l @ t = numeral_text n" "holds_number (numeral_json n) ty' lx'" "reads lx' r" for n t r
    proof (intro exI conjI)
      show "s = (c # t) @ r" using s that(2) by simp
      show "lx_buffer lx @ c # t = numeral_text n" using that(3) l(2) by simp
    qed (rule that)+
    with r Goto show ?thesis by (simp add: loop) blast
  qed
qed

lemma scan_number_cases:
  assumes "lx_current lx = Some c" and "reads lx s" and "c = CHR ''-'' \<or> is_digit c"
  shows "\<exists>ty lx'. scan_number lx = Ret (ty, lx') \<and> (ty = parse_error \<or>
    (\<exists>n r. numeral_ok n \<and> c # s = numeral_text n @ r \<and> holds_number (numeral_json n) ty lx' \<and> reads lx' r))"
proof -
  define q where "q = (if c = CHR ''-'' then Minus else if c = CHR ''0'' then Zero else Any1)"
  define l where "l = add_current (lx_reset lx)"
  have l: "reads l s" "lx_buffer l = [c]" using assms(1,2) by (simp_all add: l_def)
  have "scan_number lx = scan_number_loop q value_unsigned l"
    using assms(1,3) digit_nonzero [of c] by (auto simp: scan_number_def Let_def q_def l_def is_digit_int)
  moreover have "num_prefix q value_unsigned (lx_buffer l)"
  proof (cases "c = CHR ''-''")
    case False
    with assms(3) have "is_digit c" by simp
    from bare_int [OF this, of False] False l(2) show ?thesis
      by (auto simp: num_prefix_def q_def numeral_text_def frac_text_def exp_text_def numeral_type_def
          intro!: exI [of _ "\<lparr>n_negative = False, n_int = [c], n_frac = [], n_exp = None\<rparr>"])
  qed (simp add: num_prefix_def q_def l(2))
  ultimately have "\<exists>ty lx'. scan_number lx = Ret (ty, lx') \<and> (ty = parse_error \<or>
    (\<exists>n t r. numeral_ok n \<and> s = t @ r \<and> lx_buffer l @ t = numeral_text n \<and> holds_number (numeral_json n) ty lx' \<and> reads lx' r))"
    using scan_number_loop_cases [OF l(1), of q value_unsigned] by (simp only:)
  moreover have "c # s = numeral_text n @ r" if "s = t @ r" "lx_buffer l @ t = numeral_text n" for n t r
    using that l(2) by (metis append_Cons append_Nil)
  ultimately show ?thesis by blast
qed


section \<open>Tokens\<close>

text \<open>The text of a token the lexer holds.\<close>

definition token_text :: "token_type \<Rightarrow> lexer \<Rightarrow> string \<Rightarrow> bool" where
  "token_text ty lx t \<longleftrightarrow>
     (ty, t) \<in> {(begin_array, ''[''), (end_array, '']''), (begin_object, ''{''), (end_object, ''}''),
       (name_separator, '':''), (value_separator, '',''), (literal_true, ''true''), (literal_false, ''false''),
       (literal_null, ''null'')} \<or>
     ty = value_string \<and> (\<exists>u. string_text (lx_buffer lx) u \<and> t = CHR 0x22 # u @ [CHR 0x22]) \<or>
     (\<exists>n. numeral_ok n \<and> t = numeral_text n \<and> holds_number (numeral_json n) ty lx)"

text \<open>What is found at the beginning of a text: an error, its end, or a token with the rest behind it.\<close>

definition text_end :: "string \<Rightarrow> bool" where
  "text_end s \<longleftrightarrow> (\<exists>w r. ws w \<and> (s = w \<or> s = w @ CHR 0x00 # r))"

definition token_found :: "token_type \<Rightarrow> lexer \<Rightarrow> string \<Rightarrow> bool" where
  "token_found ty lx s \<longleftrightarrow> ty = parse_error \<or> ty = end_of_input \<and> text_end s \<or>
     (\<exists>w t r. ws w \<and> s = w @ t @ r \<and> reads lx r \<and> token_text ty lx t)"

lemma literal_loop_cases:
  assumes "reads lx s" and "list_all (\<lambda>c. c \<noteq> CHR 0xFF) cs"
  shows "(\<exists>lx'. literal_loop cs lx = (False, lx')) \<or> (\<exists>r lx'. s = cs @ r \<and> literal_loop cs lx = (True, lx') \<and> reads lx' r)"
  using assms
proof (induction cs arbitrary: s lx)
  case (Cons c cs)
  note g = get_reads [OF Cons.prems(1)]
  show ?case
  proof (cases "s \<noteq> [] \<and> hd s = c")
    case True
    then have s: "s = c # tl s" by (cases s) auto
    have "list_all (\<lambda>c. c \<noteq> CHR 0xFF) cs" using Cons.prems(2) by simp
    from Cons.IH [OF g(1) this] g(2) True show ?thesis by (subst (1) s) (auto simp: Let_def)
  next
    case False
    have "to_char_type (lx_current (lx_get lx)) \<noteq> c"
      using False g(2) Cons.prems(2) by (cases s) (auto simp: to_char_type_def)
    then show ?thesis by (simp add: Let_def)
  qed
qed simp

lemma scan_literal_cases:
  assumes "lx_current lx = Some c" and "reads lx s" and "list_all (\<lambda>c. c \<noteq> CHR 0xFF) cs"
  shows "\<exists>ty' lx'. scan_literal (c # cs) ty lx = Ret (ty', lx') \<and> (ty' = parse_error \<or> ty' = ty \<and>
    (\<exists>r. c # s = (c # cs) @ r \<and> reads lx' r))"
  using literal_loop_cases [OF assms(2,3)] assms(1) by (auto simp: scan_literal_def)

text \<open>An error, or a token at the beginning of the text.\<close>

definition token_result :: "string \<Rightarrow> (token_type \<times> lexer) outcome \<Rightarrow> bool" where
  "token_result s x \<longleftrightarrow> (\<exists>ty lx. x = Ret (ty, lx) \<and>
     (ty = parse_error \<or> (\<exists>t r. s = t @ r \<and> reads lx r \<and> token_text ty lx t)))"

lemma token_result_error: "token_result s (Ret (parse_error, lx))"
  by (simp add: token_result_def)

lemma token_result_text: "token_text ty lx t \<Longrightarrow> reads lx r \<Longrightarrow> token_result (t @ r) (Ret (ty, lx))"
  by (auto simp: token_result_def)

lemma token_result_string:
  assumes "lx_current lx = Some CHR 0x22" and "reads lx s"
  shows "token_result (CHR 0x22 # s) (scan_string lx)"
proof -
  have "reads (lx_reset lx) s" using assms(2) by simp
  from scan_string_loop_cases [OF this] obtain ty l where l: "scan_string lx = Ret (ty, l)" "ty = parse_error \<or> ty = value_string \<and>
    (\<exists>u t r. s = t @ CHR 0x22 # r \<and> string_text u t \<and> lx_buffer l = lx_buffer (lx_reset lx) @ u \<and> reads l r)"
    using assms(1) by (auto simp: scan_string_def Let_def)
  from l(2) show ?thesis
  proof (elim disjE conjE exE)
    fix u t r assume t: "ty = value_string" "s = t @ CHR 0x22 # r" "string_text u t"
      "lx_buffer l = lx_buffer (lx_reset lx) @ u" "reads l r"
    then have "token_text ty l (CHR 0x22 # t @ [CHR 0x22])" by (auto simp: token_text_def)
    from token_result_text [OF this t(5)] show ?thesis by (simp add: l(1) t(2))
  qed (simp add: l(1) token_result_error)
qed

lemma token_result_number:
  assumes "lx_current lx = Some c" and "reads lx s" and "c = CHR ''-'' \<or> is_digit c"
  shows "token_result (c # s) (scan_number lx)"
proof -
  obtain ty l where l: "scan_number lx = Ret (ty, l)" "ty = parse_error \<or>
    (\<exists>n r. numeral_ok n \<and> c # s = numeral_text n @ r \<and> holds_number (numeral_json n) ty l \<and> reads l r)"
    using scan_number_cases [OF assms] by (elim exE conjE)
  from l(2) show ?thesis
  proof (elim disjE conjE exE)
    fix n r assume n: "numeral_ok n" "c # s = numeral_text n @ r" "holds_number (numeral_json n) ty l" "reads l r"
    have "token_text ty l (numeral_text n)" unfolding token_text_def using n(1,3) by blast
    from token_result_text [OF this n(4)] show ?thesis by (simp only: l(1) n(2))
  qed (simp add: l(1) token_result_error)
qed

lemma token_result_literal:
  assumes "lx_current lx = Some c" and "reads lx s"
    and "(c, t, ty) \<in> {(CHR ''t'', ''rue'', literal_true), (CHR ''f'', ''alse'', literal_false), (CHR ''n'', ''ull'', literal_null)}"
  shows "token_result (c # s) (scan_literal (c # t) ty lx)"
proof -
  have t: "list_all (\<lambda>c. c \<noteq> CHR 0xFF) t" "token_text ty l (c # t)" for l
    using assms(3) unfolding token_text_def by (elim insertE emptyE; simp)+
  obtain ty' l where l: "scan_literal (c # t) ty lx = Ret (ty', l)" "ty' = parse_error \<or> ty' = ty \<and>
    (\<exists>r. c # s = (c # t) @ r \<and> reads l r)"
    using scan_literal_cases [OF assms(1,2) t(1), of ty] by (elim exE conjE)
  from l(2) show ?thesis
  proof (elim disjE conjE exE)
    fix r assume r: "ty' = ty" "c # s = (c # t) @ r" "reads l r"
    from token_result_text [OF t(2) r(3)] show ?thesis by (simp only: l(1) r(1,2))
  qed (simp add: l(1) token_result_error)
qed

lemma scan_token_cases:
  assumes "lx_current lx = Some c" and "reads lx s"
  shows "token_result (c # s) (scan_token lx) \<or> c = CHR 0x00 \<and> scan_token lx = Ret (end_of_input, lx)"
proof -
  consider (structural) "c \<in> {CHR ''['', CHR '']'', CHR ''{'', CHR ''}'', CHR '':'', CHR '',''}"
    | (literal) "c \<in> {CHR ''t'', CHR ''f'', CHR ''n''}"
    | (quote) "c = CHR 0x22" | (number) "c = CHR ''-'' \<or> is_digit c" | (null) "c = CHR 0x00"
    | (other) "c \<notin> {CHR ''['', CHR '']'', CHR ''{'', CHR ''}'', CHR '':'', CHR '',''}" "c \<notin> {CHR ''t'', CHR ''f'', CHR ''n''}"
        "c \<noteq> CHR 0x22" "\<not> (c = CHR ''-'' \<or> is_digit c)" "c \<noteq> CHR 0x00"
    by atomize_elim argo
  then show ?thesis
  proof cases
    case structural
    then have "\<exists>ty. scan_token lx = Ret (ty, lx) \<and> token_text ty lx [c]"
      unfolding scan_token_def token_text_def assms(1) by (elim insertE emptyE; simp)
    with token_result_text [OF _ assms(2)] show ?thesis by fastforce
  next
    case literal
    then have "\<exists>t ty. (c, t, ty) \<in> {(CHR ''t'', ''rue'', literal_true), (CHR ''f'', ''alse'', literal_false),
      (CHR ''n'', ''ull'', literal_null)} \<and> scan_token lx = scan_literal (c # t) ty lx"
      unfolding scan_token_def assms(1) by (elim insertE emptyE; simp)
    with token_result_literal [OF assms] show ?thesis by (elim exE conjE) simp
  next
    case quote
    with assms token_result_string [of lx s] show ?thesis by (simp add: scan_token_def)
  next
    case number
    then have "c \<noteq> CHR ''['' \<and> c \<noteq> CHR '']'' \<and> c \<noteq> CHR ''{'' \<and> c \<noteq> CHR ''}'' \<and> c \<noteq> CHR '':'' \<and> c \<noteq> CHR '','' \<and>
        c \<noteq> CHR ''t'' \<and> c \<noteq> CHR ''f'' \<and> c \<noteq> CHR ''n'' \<and> c \<noteq> CHR 0x22"
      by (intro conjI) auto
    then have "scan_token lx = scan_number lx" using number assms(1) by (simp add: scan_token_def is_digit_int)
    with token_result_number [OF assms number] show ?thesis by simp
  next
    case null
    then show ?thesis using assms(1) by (simp add: scan_token_def)
  next
    case other
    then have "scan_token lx = Ret (parse_error, lx)" using assms(1) by (auto simp: scan_token_def is_digit_int)
    then show ?thesis by (simp add: token_result_error)
  qed
qed

lemma scan_found:
  assumes "lexer_at lx s"
  shows "\<exists>ty lx'. scan_behind_bom lx = Ret (ty, lx') \<and> token_found ty lx' s"
proof -
  define w r where "w = takeWhile is_ws s" and "r = dropWhile is_ws s"
  have s: "s = w @ r" "ws w" "r = [] \<or> \<not> is_ws (hd r)"
    using hd_dropWhile [of is_ws s] by (auto simp: w_def r_def ws_def is_ws_iff dest: set_takeWhileD)
  have l: "reads (skip_whitespace lx) (tl r)" "lx_current (skip_whitespace lx) = (if r = [] then None else Some (hd r))"
    using skip_whitespace_at [OF s(2) _ s(3)] assms s(1) by auto
  have "scan_behind_bom lx = scan_token (skip_whitespace lx)"
    using l(1) by (simp add: scan_behind_bom_def skip_comments.simps reads_def lexer_at_def)
  moreover have "\<exists>ty lx'. scan_token (skip_whitespace lx) = Ret (ty, lx') \<and> token_found ty lx' s"
  proof (cases r)
    case Nil
    with l(2) s show ?thesis by (auto simp: scan_token_def token_found_def text_end_def)
  next
    case (Cons c r')
    with l have "reads (skip_whitespace lx) r'" "lx_current (skip_whitespace lx) = Some c" by simp_all
    from scan_token_cases [OF this(2,1)] show ?thesis
    proof (elim disjE conjE)
      assume "token_result (c # r') (scan_token (skip_whitespace lx))"
      with s(1,2) show ?thesis unfolding token_result_def token_found_def Cons by blast
    next
      assume "c = CHR 0x00" "scan_token (skip_whitespace lx) = Ret (end_of_input, skip_whitespace lx)"
      with s(1,2) show ?thesis unfolding token_found_def text_end_def Cons by blast
    qed
  qed
  ultimately show ?thesis by simp
qed


end
