(* ===== verification/JsonSound.thy ===== *)
theory JsonSound
  imports JsonComplete JsonScanSound
begin

text \<open>
  The parser accepts nothing but the grammar: on any bytes it returns the value of a document, or it throws
  \<open>parse_error\<close> 101 or \<open>out_of_range\<close> 406.  It never reads behind a container, never follows a
  pointer that does not lead to one, and never fails an assertion.
\<close>

section \<open>Tokens of the parser\<close>

definition fails :: "'a outcome \<Rightarrow> bool" where
  "fails x \<longleftrightarrow> x = Throw (Json_exception 101) \<or> x = Throw (Json_exception 406)"

lemma fails_simps [simp]: "fails (Throw syntax_error)" "fails (Throw (Json_exception 406))" "\<not> fails (Ret a)"
  by (simp_all add: fails_def syntax_error_def)

lemma fails_obind [simp]: "fails x \<Longrightarrow> fails (obind x f)"
  by (auto simp: fails_def)

lemma get_token_found:
  assumes "reads lx s"
  obtains ty' lx' where "\<And>ty S skip d. get_token (parser_at ty lx S skip d) = Ret (parser_at ty' lx' S skip d)"
    "token_found ty' lx' s"
  using scan_found [OF reads_at [OF assms]] get_token_at [OF assms] by blast

lemma holds_number_type: "holds_number j ty lx \<Longrightarrow> ty \<in> {value_integer, value_unsigned, value_float}"
  by (auto simp: holds_number_def split: json.splits)

lemma holds_number_iff:
  "holds_number j value_integer lx \<longleftrightarrow> j = JInt (lx_integer lx)"
  "holds_number j value_unsigned lx \<longleftrightarrow> j = JUInt (lx_unsigned lx)"
  "holds_number j value_float lx \<longleftrightarrow> j = JFloat (lx_float lx)"
  by (cases j; auto simp: holds_number_def)+

lemma token_text_type:
  assumes "token_text ty lx t"
  shows "(c, ty) \<in> {(CHR ''['', begin_array), (CHR '']'', end_array), (CHR ''{'', begin_object), (CHR ''}'', end_object),
      (CHR '':'', name_separator), (CHR '','', value_separator)} \<Longrightarrow> t = [c]"
    and "(u, ty) \<in> {(''true'', literal_true), (''false'', literal_false), (''null'', literal_null)} \<Longrightarrow> t = u"
    and "ty = value_string \<Longrightarrow> \<exists>u. string_text (lx_buffer lx) u \<and> t = CHR 0x22 # u @ [CHR 0x22]"
    and "ty \<in> {value_integer, value_unsigned, value_float} \<Longrightarrow>
      \<exists>n. numeral_ok n \<and> t = numeral_text n \<and> holds_number (numeral_json n) ty lx"
  using assms unfolding token_text_def by (auto dest: holds_number_type)

lemma token_found_text:
  assumes "token_found ty lx s" and "ty \<noteq> parse_error" and "ty \<noteq> end_of_input"
  obtains w t r where "ws w" "s = w @ t @ r" "reads lx r" "token_text ty lx t"
  using assms unfolding token_found_def by blast

lemma token_found_structural:
  assumes "token_found ty lx s"
    and "(c, ty) \<in> {(CHR ''['', begin_array), (CHR '']'', end_array), (CHR ''{'', begin_object), (CHR ''}'', end_object),
      (CHR '':'', name_separator), (CHR '','', value_separator)}"
  obtains w r where "ws w" "s = w @ c # r" "reads lx r"
proof -
  have "ty \<noteq> parse_error" "ty \<noteq> end_of_input" using assms(2) by auto
  with assms(1) obtain w t r where "ws w" "s = w @ t @ r" "reads lx r" and t: "token_text ty lx t" by (rule token_found_text)
  moreover have "t = [c]" by (rule token_text_type(1) [OF t assms(2)])
  ultimately show ?thesis using that [of w r] by simp
qed

section \<open>Values\<close>

text \<open>The loop goes on behind a value.\<close>

definition reaches :: "parser outcome \<Rightarrow> sax_dom \<Rightarrow> json \<Rightarrow> bool list \<Rightarrow> string \<Rightarrow> bool" where
  "reaches p d j S r \<longleftrightarrow> (\<exists>ty lx d'. reads lx r \<and> placed d j d' \<and> p = parse_loop (parser_at ty lx S True d'))"

lemma reachesI: "p = parse_loop (parser_at ty lx S True d') \<Longrightarrow> reads lx r \<Longrightarrow> placed d j d' \<Longrightarrow> reaches p d j S r"
  by (auto simp: reaches_def)

definition value_sound :: "string \<Rightarrow> bool" where
  "value_sound s \<longleftrightarrow> (\<forall>ty lx S d. token_found ty lx s \<longrightarrow> ready d \<longrightarrow>
     (let p = parse_loop (parser_at ty lx S False d) in
      fails p \<or> (\<exists>w j u r. ws w \<and> s = w @ u @ r \<and> value_text j u \<and> reaches p d j S r)))"

definition elements_sound :: "string \<Rightarrow> bool" where
  "elements_sound s \<longleftrightarrow> (\<forall>ty lx S d0 d xs. token_found ty lx s \<longrightarrow> inside d0 (JArr xs) d \<longrightarrow>
     (let p = parse_loop (parser_at ty lx (True # S) False d) in
      fails p \<or> (\<exists>js u r. s = u @ CHR '']'' # r \<and> elements_text js u \<and> reaches p d0 (JArr (xs @ js)) S r)))"

definition members_from :: "parser \<Rightarrow> bool list \<Rightarrow> parser outcome" where
  "members_from p S = obind (parse_key p) (\<lambda>q. obind (get_token (q\<lparr>pr_states := False # S\<rparr>)) parse_loop)"

definition members_sound :: "string \<Rightarrow> bool" where
  "members_sound s \<longleftrightarrow> (\<forall>ty lx S0 S d0 d m0. token_found ty lx s \<longrightarrow> inside d0 (JObj m0) d \<longrightarrow>
     (let p = members_from (parser_at ty lx S0 False d) S in
      fails p \<or> (\<exists>m u r. s = u @ CHR ''}'' # r \<and> members_text m u \<and>
        reaches p d0 (JObj (fold (\<lambda>(k, v). smap_put k v) m m0)) S r)))"

lemma loop_value:
  "parse_loop (parser_at ty lx S False d) = obind (parse_value (parser_at ty lx S False d)) (\<lambda>(complete, q).
     if complete then obind (parse_behind q) (\<lambda>(finished, q'). if finished then Ret q' else parse_loop q') else parse_loop q)"
  by (subst parse_loop.simps)
    (cases "parse_value (parser_at ty lx S False d)"; auto simp: parse_round_def split: prod.splits)

lemma loop_skip:
  "parse_loop (parser_at ty lx S True d) = obind (parse_behind (parser_at ty lx S False d))
     (\<lambda>(finished, q). if finished then Ret q else parse_loop q)"
  by (subst parse_loop.simps) (simp add: parse_round_def)

text \<open>Scalar values.\<close>

lemma scalar_sound:
  assumes "ready d" and "reads lx r" and "parse_value (parser_at ty lx S False d) =
      obind (sax (sax_value j) (parser_at ty lx S False d)) (\<lambda>s. Ret (True, s))"
  shows "reaches (parse_loop (parser_at ty lx S False d)) d j S r"
proof -
  obtain d' where d': "placed d j d'" "parse_value (parser_at ty lx S False d) = Ret (True, parser_at ty lx S False d')"
    using scalar_parsed [OF assms(1,3)] by blast
  from reachesI [OF loop_complete [OF d'(2)] assms(2) d'(1)] show ?thesis .
qed

lemma numeral_finite:
  assumes "numeral_json n \<noteq> JFloat (numeral_dbl n)"
  shows "is_finite (numeral_dbl n)"
proof -
  have n: "n_frac n = []" "n_exp n = None" and i: "dec_value (n_int n) \<le> 2 ^ 64"
    using assms by (cases "n_exp n"; auto simp: numeral_json_def Let_def split: if_splits)+
  have "numeral_value n = of_int (dec_value (n_int n))"
    using n by (simp add: numeral_value_def exp_value_def pow10_def)
  moreover have "(of_int (dec_value (n_int n)) :: rat) \<le> of_int (2 ^ 64)" using i by (simp only: of_int_le_iff)
  ultimately show ?thesis
    by (simp add: numeral_dbl_def rnd_finite)
qed

lemma numeral_value_text:
  assumes "numeral_ok n" and "holds_number (numeral_json n) ty lx" and "ty = value_float \<longrightarrow> is_finite (lx_float lx)"
  shows "value_text (numeral_json n) (numeral_text n)"
proof (cases "numeral_json n = JFloat (numeral_dbl n)")
  case True
  with assms show ?thesis by (intro t_number) (simp_all add: holds_number_def)
next
  case False
  then show ?thesis by (intro t_number assms(1) numeral_finite)
qed

section \<open>Elements and members\<close>

lemma value_soundD:
  assumes "value_sound s" "token_found ty lx s" "ready d"
  obtains (failed) "fails (parse_loop (parser_at ty lx S False d))"
  | (parsed) w j u r ty' lx' d' where "ws w" "s = w @ u @ r" "value_text j u" "reads lx' r" "placed d j d'"
      "parse_loop (parser_at ty lx S False d) = parse_loop (parser_at ty' lx' S True d')"
  using assms unfolding value_sound_def reaches_def Let_def by meson

lemma elements_from_values:
  assumes "\<And>s. length s \<le> n \<Longrightarrow> value_sound s"
  shows "length s \<le> n \<Longrightarrow> elements_sound s"
proof (induction "length s" arbitrary: s rule: less_induct)
  case less
  show ?case
    unfolding elements_sound_def Let_def
  proof (intro allI impI)
    fix ty lx S d0 d xs
    assume tok: "token_found ty lx s" and d: "inside d0 (JArr xs) d"
    let ?p = "parse_loop (parser_at ty lx (True # S) False d)"
    let ?goal = "fails ?p \<or> (\<exists>js u r. s = u @ CHR '']'' # r \<and> elements_text js u \<and> reaches ?p d0 (JArr (xs @ js)) S r)"
    show ?goal
      using assms [OF less.prems] tok inside_array(1) [OF d]
    proof (cases rule: value_soundD [where S = "True # S"])
      case (parsed w j u r ty1 lx1 d1)
      have d1: "inside d0 (JArr (xs @ [j])) d1" by (rule inside_array(2) [OF d parsed(5)])
      obtain ty2 lx2 where 2: "\<And>ty S skip d. get_token (parser_at ty lx1 S skip d) = Ret (parser_at ty2 lx2 S skip d)"
        "token_found ty2 lx2 r" using get_token_found [OF parsed(4)] by blast
      note loop = parsed(6) loop_skip parse_behind_def 2(1)
      consider (more) "ty2 = value_separator" | (close) "ty2 = end_array" | (error) "ty2 \<noteq> value_separator" "ty2 \<noteq> end_array" by blast
      then show ?thesis
      proof cases
        case more
        then obtain w2 r2 where r2: "ws w2" "r = w2 @ CHR '','' # r2" "reads lx2 r2"
          using token_found_structural [OF 2(2), of "CHR '',''"] by auto
        obtain ty3 lx3 where 3: "\<And>ty S skip d. get_token (parser_at ty lx2 S skip d) = Ret (parser_at ty3 lx3 S skip d)"
          "token_found ty3 lx3 r2" using get_token_found [OF r2(3)] by blast
        have p: "?p = parse_loop (parser_at ty3 lx3 (True # S) False d1)"
          using more by (simp add: loop 3(1))
        have "length r2 < length s" using parsed(2) r2(2) by simp
        then have "elements_sound r2" using less.hyps [of r2] less.prems by simp
        with 3(2) d1 have "fails ?p \<or> (\<exists>js u r. r2 = u @ CHR '']'' # r \<and> elements_text js u \<and>
            reaches ?p d0 (JArr ((xs @ [j]) @ js)) S r)"
          unfolding p elements_sound_def Let_def by blast
        then show ?thesis
        proof (elim disjE exE conjE)
          fix js v r' assume e: "r2 = v @ CHR '']'' # r'" "elements_text js v" "reaches ?p d0 (JArr ((xs @ [j]) @ js)) S r'"
          have "elements_text (j # js) (w @ u @ w2 @ CHR '','' # v)" by (rule t_elements [OF parsed(1,3) r2(1) e(2)])
          moreover have "s = (w @ u @ w2 @ CHR '','' # v) @ CHR '']'' # r'" using parsed(2) r2(2) e(1) by simp
          moreover have "reaches ?p d0 (JArr (xs @ j # js)) S r'" using e(3) by simp
          ultimately show ?thesis by blast
        qed simp
      next
        case close
        then obtain w2 r2 where r2: "ws w2" "r = w2 @ CHR '']'' # r2" "reads lx2 r2"
          using token_found_structural [OF 2(2), of "CHR '']''"] by auto
        obtain d2 where d2: "sax_end_array d1 = Ret d2" "placed d0 (JArr (xs @ [j])) d2" using end_inside(2) [OF d1] by blast
        have "?p = parse_loop (parser_at ty2 lx2 S True d2)" using close d2(1) by (simp add: loop sax_def)
        from reachesI [OF this r2(3) d2(2)] have "reaches ?p d0 (JArr (xs @ [j])) S r2" .
        moreover have "elements_text [j] (w @ u @ w2)" by (rule t_element [OF parsed(1,3) r2(1)])
        moreover have "s = (w @ u @ w2) @ CHR '']'' # r2" using parsed(2) r2(2) by simp
        ultimately show ?thesis by blast
      next
        case error
        then show ?thesis by (simp add: loop)
      qed
    qed simp
  qed
qed

text \<open>The key of a member and the separator behind it.\<close>

lemma parse_key_sound:
  assumes "token_found ty lx s" and "inside d0 (JObj m0) d"
  obtains (failed) "\<And>S. fails (parse_key (parser_at ty lx S False d))"
  | (key) w k t b r lx' d' where "ws w" "string_text k t" "ws b" "s = w @ CHR 0x22 # t @ CHR 0x22 # b @ CHR '':'' # r" "reads lx' r"
      "\<And>S. parse_key (parser_at ty lx S False d) = Ret (parser_at name_separator lx' S False d')"
      "ready d'" "\<And>v d''. placed d' v d'' \<Longrightarrow> inside d0 (JObj (smap_put k v m0)) d''"
proof (cases "ty = value_string")
  case False
  then show ?thesis by (intro failed) (simp add: parse_key_def)
next
  case True
  then have "ty \<noteq> parse_error" "ty \<noteq> end_of_input" by simp_all
  with assms(1) obtain w t r where t: "ws w" "s = w @ t @ r" "reads lx r" "token_text ty lx t" by (rule token_found_text)
  obtain u where u: "string_text (lx_buffer lx) u" "t = CHR 0x22 # u @ [CHR 0x22]" using token_text_type(3) [OF t(4) True] by blast
  obtain d1 where d1: "sax_key (lx_buffer lx) d = Ret d1" "ready d1"
    "\<And>v d''. placed d1 v d'' \<Longrightarrow> inside d0 (JObj (smap_put (lx_buffer lx) v m0)) d''"
    using inside_key [OF assms(2), of "lx_buffer lx"] by blast
  obtain ty2 lx2 where 2: "\<And>ty S skip d. get_token (parser_at ty lx S skip d) = Ret (parser_at ty2 lx2 S skip d)"
    "token_found ty2 lx2 r" using get_token_found [OF t(3)] by blast
  show ?thesis
  proof (cases "ty2 = name_separator")
    case False
    with True d1(1) 2(1) show ?thesis by (intro failed) (simp add: parse_key_def sax_def)
  next
    case sep: True
    then obtain b r2 where b: "ws b" "r = b @ CHR '':'' # r2" "reads lx2 r2"
      using token_found_structural [OF 2(2), of "CHR '':''"] by auto
    have "parse_key (parser_at ty lx S False d) = Ret (parser_at name_separator lx2 S False d1)" for S
      using True sep d1(1) 2(1) by (simp add: parse_key_def sax_def)
    moreover have "s = w @ CHR 0x22 # u @ CHR 0x22 # b @ CHR '':'' # r2" using t(2) u(2) b(2) by simp
    ultimately show ?thesis using key [OF t(1) u(1) b(1) _ b(3) _ d1(2,3)] by blast
  qed
qed


lemma parse_key_states: "parse_key p = Ret q \<Longrightarrow> pr_states q = pr_states p"
  by (auto simp: parse_key_def obind_eq_Ret dest!: get_token_Ret sax_Ret split: if_splits)

lemma loop_members:
  "obind (obind (parse_key p) (\<lambda>q. obind (get_token (q\<lparr>pr_states := False # pr_states q\<rparr>)) (\<lambda>q. Ret (False, q))))
     (\<lambda>(c, q). if c then f q else parse_loop q) = members_from p (pr_states p)"
  by (simp add: members_from_def obind_assoc) (rule obind_cong; simp add: parse_key_states)

lemma behind_members:
  assumes "pr_states p = False # S"
  shows "obind (obind (parse_key p) (\<lambda>q. obind (get_token q) (\<lambda>q. Ret (False, q))))
     (\<lambda>(c, q). if c then f q else parse_loop q) = members_from p S"
proof -
  have "q\<lparr>pr_states := False # S\<rparr> = q" if "parse_key p = Ret q" for q
    using parse_key_states [OF that] assms by (cases q) simp
  then show ?thesis by (auto simp: members_from_def obind_assoc intro: obind_cong)
qed

lemma members_from_values:
  assumes "\<And>s. length s \<le> n \<Longrightarrow> value_sound s"
  shows "length s \<le> n \<Longrightarrow> members_sound s"
proof (induction "length s" arbitrary: s rule: less_induct)
  case less
  show ?case
    unfolding members_sound_def Let_def
  proof (intro allI impI)
    fix ty lx S0 S d0 d m0
    assume tok: "token_found ty lx s" and d: "inside d0 (JObj m0) d"
    let ?put = "fold (\<lambda>(k, v). smap_put k v)"
    let ?p = "members_from (parser_at ty lx S0 False d) S"
    let ?goal = "fails ?p \<or> (\<exists>m u r. s = u @ CHR ''}'' # r \<and> members_text m u \<and> reaches ?p d0 (JObj (?put m m0)) S r)"
    from tok d show ?goal
    proof (cases rule: parse_key_sound)
      case failed
      then show ?thesis by (simp add: members_from_def)
    next
      case (key w k t b r lx1 d1)
      obtain ty2 lx2 where 2: "\<And>ty S skip d. get_token (parser_at ty lx1 S skip d) = Ret (parser_at ty2 lx2 S skip d)"
        "token_found ty2 lx2 r" using get_token_found [OF key(5)] by blast
      have p: "?p = parse_loop (parser_at ty2 lx2 (False # S) False d1)" by (simp add: members_from_def key(6) 2(1))
      have len: "length r \<le> n" "length r < length s" using less.prems key(4) by simp_all
      from assms [OF len(1)] 2(2) key(7) show ?thesis
      proof (cases rule: value_soundD [where S = "False # S"])
        case (parsed c j u r1 ty3 lx3 d3)
        note d3 = key(8) [OF parsed(5)]
        obtain ty4 lx4 where 4: "\<And>ty S skip d. get_token (parser_at ty lx3 S skip d) = Ret (parser_at ty4 lx4 S skip d)"
          "token_found ty4 lx4 r1" using get_token_found [OF parsed(4)] by blast
        note loop = p parsed(6) loop_skip parse_behind_def 4(1)
        have s: "s = (w @ CHR 0x22 # t @ CHR 0x22 # b @ CHR '':'' # c @ u) @ r1" using key(4) parsed(2) by simp
        consider (more) "ty4 = value_separator" | (close) "ty4 = end_object" | (error) "ty4 \<noteq> value_separator" "ty4 \<noteq> end_object" by blast
        then show ?thesis
        proof cases
          case more
          then obtain w2 r2 where r2: "ws w2" "r1 = w2 @ CHR '','' # r2" "reads lx4 r2"
            using token_found_structural [OF 4(2), of "CHR '',''"] by auto
          obtain ty5 lx5 where 5: "\<And>ty S skip d. get_token (parser_at ty lx4 S skip d) = Ret (parser_at ty5 lx5 S skip d)"
            "token_found ty5 lx5 r2" using get_token_found [OF r2(3)] by blast
          have p': "?p = members_from (parser_at ty5 lx5 (False # S) False d3) S"
            using more by (simp add: loop 5(1) behind_members)
          have "length r2 < length s" using s r2(2) by simp
          then have "members_sound r2" using less.hyps [of r2] less.prems by simp
          with 5(2) d3 have "fails ?p \<or> (\<exists>m u r. r2 = u @ CHR ''}'' # r \<and> members_text m u \<and>
              reaches ?p d0 (JObj (?put m (smap_put k j m0))) S r)"
            unfolding p' members_sound_def Let_def by blast
          then show ?thesis
          proof (elim disjE exE conjE)
            fix m v r' assume e: "r2 = v @ CHR ''}'' # r'" "members_text m v" "reaches ?p d0 (JObj (?put m (smap_put k j m0))) S r'"
            have "members_text ((k, j) # m) (w @ CHR 0x22 # t @ CHR 0x22 # b @ CHR '':'' # c @ u @ w2 @ CHR '','' # v)"
              by (rule t_members [OF key(1-3) parsed(1,3) r2(1) e(2)])
            moreover have "s = (w @ CHR 0x22 # t @ CHR 0x22 # b @ CHR '':'' # c @ u @ w2 @ CHR '','' # v) @ CHR ''}'' # r'"
              using s r2(2) e(1) by simp
            moreover have "reaches ?p d0 (JObj (?put ((k, j) # m) m0)) S r'" using e(3) by simp
            ultimately show ?thesis by blast
          qed simp
        next
          case close
          then obtain w2 r2 where r2: "ws w2" "r1 = w2 @ CHR ''}'' # r2" "reads lx4 r2"
            using token_found_structural [OF 4(2), of "CHR ''}''"] by auto
          obtain d4 where d4: "sax_end_object d3 = Ret d4" "placed d0 (JObj (smap_put k j m0)) d4" using end_inside(1) [OF d3] by blast
          have "?p = parse_loop (parser_at ty4 lx4 S True d4)" using close d4(1) by (simp add: loop sax_def)
          from reachesI [OF this r2(3) d4(2)] have "reaches ?p d0 (JObj (?put [(k, j)] m0)) S r2" by simp
          moreover have "members_text [(k, j)] (w @ CHR 0x22 # t @ CHR 0x22 # b @ CHR '':'' # c @ u @ w2)"
            by (rule t_member [OF key(1-3) parsed(1,3) r2(1)])
          moreover have "s = (w @ CHR 0x22 # t @ CHR 0x22 # b @ CHR '':'' # c @ u @ w2) @ CHR ''}'' # r2" using s r2(2) by simp
          ultimately show ?thesis by blast
        next
          case error
          then show ?thesis by (simp add: loop)
        qed
      qed (simp add: p)
    qed
  qed
qed

section \<open>The value of a text\<close>

lemma array_sound:
  assumes "\<And>s'. length s' < length s \<Longrightarrow> elements_sound s'"
    and "token_found ty lx s" and "ready d" and "ty = begin_array"
  shows "fails (parse_loop (parser_at ty lx S False d)) \<or>
    (\<exists>w j u r. ws w \<and> s = w @ u @ r \<and> value_text j u \<and> reaches (parse_loop (parser_at ty lx S False d)) d j S r)"
proof -
  let ?p = "parse_loop (parser_at ty lx S False d)"
  note ty = assms(4)
  then obtain w r where r: "ws w" "s = w @ CHR ''['' # r" "reads lx r"
    using token_found_structural [OF assms(2), of "CHR ''[''"] by auto
  obtain d1 where d1: "start_array d = Ret d1" "inside d (JArr []) d1" using start_inside(2) [OF assms(3)] by blast
  obtain ty2 lx2 where 2: "\<And>ty S skip d. get_token (parser_at ty lx S skip d) = Ret (parser_at ty2 lx2 S skip d)"
    "token_found ty2 lx2 r" using get_token_found [OF r(3)] by blast
  show ?thesis
  proof (cases "ty2 = end_array")
    case True
    then obtain w2 r2 where r2: "ws w2" "r = w2 @ CHR '']'' # r2" "reads lx2 r2"
      using token_found_structural [OF 2(2), of "CHR '']''"] by auto
    obtain d2 where d2: "sax_end_array d1 = Ret d2" "placed d (JArr []) d2" using end_inside(2) [OF d1(2)] by blast
    have "?p = parse_loop (parser_at ty2 lx2 S True d2)"
      using True d2(1) d1(1) by (simp add: loop_value loop_skip parse_value_def ty sax_def 2(1))
    from reachesI [OF this r2(3) d2(2)] have "reaches ?p d (JArr []) S r2" .
    moreover have "value_text (JArr []) (CHR ''['' # w2 @ '']'')" by (rule t_empty_array [OF r2(1)])
    moreover have "s = w @ (CHR ''['' # w2 @ '']'') @ r2" using r(2) r2(2) by simp
    ultimately show ?thesis using r(1) by blast
  next
    case False
    then have p: "?p = parse_loop (parser_at ty2 lx2 (True # S) False d1)"
      unfolding loop_value [of ty] using d1(1) by (simp add: parse_value_def ty sax_def 2(1))
    have "elements_sound r" using assms(1) r(2) by simp
    with 2(2) d1(2) have "fails ?p \<or> (\<exists>js u r'. r = u @ CHR '']'' # r' \<and> elements_text js u \<and> reaches ?p d (JArr ([] @ js)) S r')"
      unfolding p elements_sound_def Let_def by blast
    then show ?thesis
    proof (elim disjE exE conjE)
      fix js u r' assume e: "r = u @ CHR '']'' # r'" "elements_text js u" "reaches ?p d (JArr ([] @ js)) S r'"
      have "value_text (JArr js) (CHR ''['' # u @ '']'')" by (rule t_array [OF e(2)])
      moreover have "s = w @ (CHR ''['' # u @ '']'') @ r'" using r(2) e(1) by simp
      moreover have "reaches ?p d (JArr js) S r'" using e(3) by simp
      ultimately show ?thesis using r(1) by blast
    qed simp
  qed
qed

lemma object_sound:
  assumes "\<And>s'. length s' < length s \<Longrightarrow> members_sound s'"
    and "token_found ty lx s" and "ready d" and "ty = begin_object"
  shows "fails (parse_loop (parser_at ty lx S False d)) \<or>
    (\<exists>w j u r. ws w \<and> s = w @ u @ r \<and> value_text j u \<and> reaches (parse_loop (parser_at ty lx S False d)) d j S r)"
proof -
  let ?p = "parse_loop (parser_at ty lx S False d)"
  note ty = assms(4)
  then obtain w r where r: "ws w" "s = w @ CHR ''{'' # r" "reads lx r"
    using token_found_structural [OF assms(2), of "CHR ''{''"] by auto
  obtain d1 where d1: "start_object d = Ret d1" "inside d (JObj []) d1" using start_inside(1) [OF assms(3)] by blast
  obtain ty2 lx2 where 2: "\<And>ty S skip d. get_token (parser_at ty lx S skip d) = Ret (parser_at ty2 lx2 S skip d)"
    "token_found ty2 lx2 r" using get_token_found [OF r(3)] by blast
  show ?thesis
  proof (cases "ty2 = end_object")
    case True
    then obtain w2 r2 where r2: "ws w2" "r = w2 @ CHR ''}'' # r2" "reads lx2 r2"
      using token_found_structural [OF 2(2), of "CHR ''}''"] by auto
    obtain d2 where d2: "sax_end_object d1 = Ret d2" "placed d (JObj []) d2" using end_inside(1) [OF d1(2)] by blast
    have "?p = parse_loop (parser_at ty2 lx2 S True d2)"
      using True d2(1) d1(1) by (simp add: loop_value loop_skip parse_value_def ty sax_def 2(1))
    from reachesI [OF this r2(3) d2(2)] have "reaches ?p d (JObj []) S r2" .
    moreover have "value_text (JObj []) (CHR ''{'' # w2 @ ''}'')" by (rule t_empty_object [OF r2(1)])
    moreover have "s = w @ (CHR ''{'' # w2 @ ''}'') @ r2" using r(2) r2(2) by simp
    ultimately show ?thesis using r(1) by blast
  next
    case False
    then have p: "?p = members_from (parser_at ty2 lx2 S False d1) S"
      unfolding loop_value [of ty] using d1(1) by (simp add: parse_value_def ty sax_def 2(1) loop_members)
    have "members_sound r" using assms(1) r(2) by simp
    with 2(2) d1(2) have "fails ?p \<or> (\<exists>m u r'. r = u @ CHR ''}'' # r' \<and> members_text m u \<and>
        reaches ?p d (JObj (fold (\<lambda>(k, v). smap_put k v) m [])) S r')"
      unfolding p members_sound_def Let_def by blast
    then show ?thesis
    proof (elim disjE exE conjE)
      fix m u r' assume e: "r = u @ CHR ''}'' # r'" "members_text m u" "reaches ?p d (JObj (fold (\<lambda>(k, v). smap_put k v) m [])) S r'"
      have "value_text (JObj (members_value m)) (CHR ''{'' # u @ ''}'')" by (rule t_object [OF e(2)])
      moreover have "s = w @ (CHR ''{'' # u @ ''}'') @ r'" using r(2) e(1) by simp
      moreover have "reaches ?p d (JObj (members_value m)) S r'" using e(3) by (simp add: members_value_def)
      ultimately show ?thesis using r(1) by blast
    qed simp
  qed
qed


lemma scalar_value_sound:
  assumes "token_found ty lx s" and "ready d" and "ty \<noteq> begin_array" and "ty \<noteq> begin_object"
  shows "fails (parse_loop (parser_at ty lx S False d)) \<or>
    (\<exists>w j u r. ws w \<and> s = w @ u @ r \<and> value_text j u \<and> reaches (parse_loop (parser_at ty lx S False d)) d j S r)"
proof -
  let ?q = "parser_at ty lx S False d"
  let ?scalar = "\<lambda>j. parse_value ?q = obind (sax (sax_value j) ?q) (\<lambda>s. Ret (True, s))"
  have one: ?thesis if "ws w" "s = w @ t @ r" "reads lx r" "value_text j t" "?scalar j" for w t r j
    using scalar_sound [OF assms(2) that(3,5)] that(1,2,4) by blast
  consider (literal) t j where "(t, ty) \<in> {(''true'', literal_true), (''false'', literal_false), (''null'', literal_null)}"
      "value_text j t" "?scalar j"
    | (str) "ty = value_string" "?scalar (JStr (lx_buffer lx))"
    | (number) "ty \<in> {value_integer, value_unsigned, value_float}" "ty = value_float \<longrightarrow> is_finite (lx_float lx)"
        "\<And>j. holds_number j ty lx \<Longrightarrow> ?scalar j"
    | (infinite) "fails (parse_value ?q)"
    using assms(3,4) t_null t_true t_false
    by (cases "is_finite (lx_float lx)"; cases ty) (auto simp: parse_value_def holds_number_iff)
  then show ?thesis
  proof cases
    case literal
    then have "ty \<noteq> parse_error" "ty \<noteq> end_of_input" by auto
    with assms(1) obtain w t' r where t: "ws w" "s = w @ t' @ r" "reads lx r" "token_text ty lx t'" by (rule token_found_text)
    with token_text_type(2) [OF t(4) literal(1)] literal one show ?thesis by simp
  next
    case str
    then have "ty \<noteq> parse_error" "ty \<noteq> end_of_input" by auto
    with assms(1) obtain w t r where t: "ws w" "s = w @ t @ r" "reads lx r" "token_text ty lx t" by (rule token_found_text)
    obtain u where "string_text (lx_buffer lx) u" "t = CHR 0x22 # u @ [CHR 0x22]" using token_text_type(3) [OF t(4) str(1)] by blast
    then have "value_text (JStr (lx_buffer lx)) t" using t_string by simp
    with t(1-3) str(2) one show ?thesis by blast
  next
    case number
    then have "ty \<noteq> parse_error" "ty \<noteq> end_of_input" by auto
    with assms(1) obtain w t r where t: "ws w" "s = w @ t @ r" "reads lx r" "token_text ty lx t" by (rule token_found_text)
    obtain n where n: "numeral_ok n" "t = numeral_text n" "holds_number (numeral_json n) ty lx"
      using token_text_type(4) [OF t(4) number(1)] by blast
    have "value_text (numeral_json n) t" unfolding n(2) by (rule numeral_value_text [OF n(1,3) number(2)])
    with t(1-3) number(3) [OF n(3)] one show ?thesis by blast
  next
    case infinite
    then show ?thesis by (simp add: loop_value)
  qed
qed

lemma value_sound: "value_sound s"
proof (induction "length s" arbitrary: s rule: less_induct)
  case less
  have "elements_sound s'" "members_sound s'" if "length s' < length s" for s'
  proof -
    have "value_sound s''" if "length s'' \<le> length s'" for s''
      using less that \<open>length s' < length s\<close> by simp
    then show "elements_sound s'" "members_sound s'"
      using elements_from_values [of "length s'" s'] members_from_values [of "length s'" s'] by blast+
  qed
  then show ?case
    unfolding value_sound_def Let_def
    by (metis array_sound object_sound scalar_value_sound)
qed

section \<open>Texts\<close>

lemma loop_fails: "fails (parse_loop (parser_at parse_error lx [] False d))"
  by (simp add: loop_value parse_value_def)

lemma text_end_split: "text_end s \<longleftrightarrow> (\<exists>w t. ws w \<and> tail_end t \<and> s = w @ t)"
  unfolding text_end_def tail_end_def by (metis append_Nil2 list.exhaust_sel list.sel(1))

definition in_text :: "json \<Rightarrow> string \<Rightarrow> bool" where
  "in_text j s \<longleftrightarrow> (\<exists>d t. document j d \<and> tail_end t \<and> s = d @ t)"

lemma parsed_from:
  assumes "lexer_at lx s"
  shows "\<exists>ty l. scan_behind_bom lx = Ret (ty, l) \<and> (let x = obind (parse_loop (parser_at ty l [] False new_dom))
      (\<lambda>s. obind (get_token s) (\<lambda>s. if pr_token s \<noteq> end_of_input then Throw syntax_error else Ret (dom_root (pr_dom s))))
    in fails x \<or> (\<exists>j. x = Ret j \<and> in_text j s))"
proof -
  obtain ty l where l: "scan_behind_bom lx = Ret (ty, l)" "token_found ty l s" using scan_found [OF assms] by blast
  have ready: "ready new_dom" by (simp add: ready_def new_dom_def)
  show ?thesis
  proof (intro exI conjI, rule l(1), unfold Let_def, rule value_soundD [OF value_sound l(2) ready, of "[]"])
    fix w j u r ty2 l2 d2
    assume v: "ws w" "s = w @ u @ r" "value_text j u" "reads l2 r" "placed new_dom j d2"
      and p: "parse_loop (parser_at ty l [] False new_dom) = parse_loop (parser_at ty2 l2 [] True d2)"
    obtain ty3 l3 where 3: "\<And>ty S skip d. get_token (parser_at ty l2 S skip d) = Ret (parser_at ty3 l3 S skip d)"
      "token_found ty3 l3 r" using get_token_found [OF v(4)] by blast
    have root: "dom_root d2 = j" using v(5) by (simp add: placed_def place_def new_dom_def)
    let ?x = "obind (parse_loop (parser_at ty l [] False new_dom))
      (\<lambda>s. obind (get_token s) (\<lambda>s. if pr_token s \<noteq> end_of_input then Throw syntax_error else Ret (dom_root (pr_dom s))))"
    have x: "?x = (if ty3 \<noteq> end_of_input then Throw syntax_error else Ret j)" by (simp add: p loop_end 3(1) root)
    show "fails ?x \<or> (\<exists>j. ?x = Ret j \<and> in_text j s)"
    proof (cases "ty3 = end_of_input")
      case True
      then have "text_end r" using 3(2) by (auto simp: token_found_def token_text_def dest: holds_number_type)
      then obtain w2 t where t: "ws w2" "tail_end t" "r = w2 @ t" by (auto simp: text_end_split)
      have "document j (w @ u @ w2)" using v(1,3) t(1) by (auto simp: document_def)
      moreover have "s = (w @ u @ w2) @ t" using v(2) t(3) by simp
      ultimately show ?thesis using t(2) x True by (auto simp: in_text_def)
    qed (simp add: x)
  qed simp
qed

text \<open>The first token: behind the byte order mark, or an error when the mark is incomplete.\<close>

lemma scan_bom_error:
  assumes "s = CHR 0xEF # u" and "\<nexists>v. u = CHR 0xBB # CHR 0xBF # v"
  shows "\<exists>l. scan (new_lexer s False) = Ret (parse_error, l)"
  using assms(2)
  by (cases u; cases "tl u") (auto simp: assms(1) scan_def new_lexer_def skip_bom_def lexer_defs)

lemma json_parse_cases:
  "fails (json_parse text) \<or> (\<exists>j. json_parse text = Ret j \<and> text_of j text)"
proof -
  let ?rest = "\<lambda>s. obind (get_token s) (\<lambda>s. if pr_token s \<noteq> end_of_input then Throw syntax_error else Ret (dom_root (pr_dom s)))"
  have new: "json_parse text = obind (parse_loop (parser_at ty l [] False new_dom)) ?rest"
    if "scan (new_lexer text False) = Ret (ty, l)" for ty l
    using that by (simp add: json_parse_def new_parser_def get_token_def)
  have found: ?thesis if bom: "text = bom @ s" "bom \<in> {[], [CHR 0xEF, CHR 0xBB, CHR 0xBF]}"
    and lx: "scan (new_lexer text False) = scan_behind_bom lx" "lexer_at lx s" for bom s lx
  proof -
    from parsed_from [OF lx(2)] obtain ty l where l: "scan_behind_bom lx = Ret (ty, l)"
      "fails (obind (parse_loop (parser_at ty l [] False new_dom)) ?rest) \<or>
        (\<exists>j. obind (parse_loop (parser_at ty l [] False new_dom)) ?rest = Ret j \<and> in_text j s)" unfolding Let_def by blast
    have "json_parse text = obind (parse_loop (parser_at ty l [] False new_dom)) ?rest" using new lx(1) l(1) by simp
    moreover have "in_text j s \<Longrightarrow> text_of j text" for j using bom unfolding in_text_def text_of_def by blast
    ultimately show ?thesis using l(2) by auto
  qed
  consider (plain) "text = [] \<or> hd text \<noteq> CHR 0xEF" | (bom) v where "text = CHR 0xEF # CHR 0xBB # CHR 0xBF # v"
    | (error) u where "text = CHR 0xEF # u" "\<nexists>v. u = CHR 0xBB # CHR 0xBF # v"
    by (cases "text") auto
  then show ?thesis
  proof cases
    case plain
    then obtain lx where "scan (new_lexer text False) = scan_behind_bom lx" "lexer_at lx text" using scan_first(1) by blast
    with found [of "[]" "text" lx] show ?thesis by simp
  next
    case bom
    then obtain lx where "scan (new_lexer text False) = scan_behind_bom lx" "lexer_at lx v" using scan_first(2) [of v] by auto
    with found [of "[CHR 0xEF, CHR 0xBB, CHR 0xBF]" v lx] bom show ?thesis by simp
  next
    case error
    then obtain l where "scan (new_lexer text False) = Ret (parse_error, l)" using scan_bom_error by blast
    then show ?thesis using new [of parse_error l] loop_fails by simp
  qed
qed

text \<open>C2: the parser returns a value exactly for the texts of the grammar of RFC 8259 that denote it: a value with white space
  around it, the strings in UTF-8 with valid escapes, the numbers in range, ended by the last byte or by a null byte,
  with or without a byte order mark.\<close>

theorem json_parse_exact: "json_parse text = Ret j \<longleftrightarrow> text_of j text"
  using json_parse_cases [of "text"] text_parsed by (auto simp: fails_def)

text \<open>C14: whatever the bytes, the parser ends with a value or throws \<open>parse_error\<close> 101 or \<open>out_of_range\<close> 406; no
  assertion fails, no token is taken for another and no pointer leads outside the value.\<close>

theorem json_parse_total:
  "(\<exists>j. json_parse text = Ret j) \<or> json_parse text = Throw (Json_exception 101) \<or> json_parse text = Throw (Json_exception 406)"
  using json_parse_cases [of "text"] by (auto simp: fails_def)


end
