(* ===== verification/JsonText.thy ===== *)
theory JsonText
  imports JsonRoundTrip JsonSound
begin

text \<open>
  The parser and the serializer together: every value the parser returns can be written, and the text is
  read as the same value again.
\<close>

lemma char_text_scalar: "char_text cp t \<Longrightarrow> scalar_value cp"
proof (induction rule: char_text.induct)
  case (escape c cp)
  then show ?case by (auto simp: escapes_def scalar_value_def surrogate_def)
next
  case (unicode h cp)
  with hex4_value_range [OF unicode(1)] show ?case by (simp add: scalar_value_def)
qed (simp_all add: scalar_value_def surrogate_def)

lemma string_text_utf8: "string_text s t \<Longrightarrow> utf8_text s"
proof (induction rule: string_text.induct)
  case empty
  show ?case unfolding utf8_text_def by (rule exI [of _ "[]"]) simp
next
  case (more cp t s u)
  then obtain cps where "list_all scalar_value cps" "s = concat (map utf8 cps)" by (auto simp: utf8_text_def)
  with char_text_scalar [OF more(1)] show ?case unfolding utf8_text_def by (intro exI [of _ "cp # cps"]) simp
qed

lemma numeral_writable: "writable (numeral_json n)"
proof -
  have "- dec_value (n_int n) < 2 ^ 63" using dec_value_nonneg [of "n_int n"] by (simp del: dec_value_nonneg)
  then show ?thesis by (auto simp: numeral_json_def numeral_dbl_def Let_def)
qed

lemma members_writable:
  assumes "list_all (\<lambda>e. utf8_text (fst e) \<and> writable (snd e)) m" and "writable (JObj m0)"
  shows "writable (JObj (fold (\<lambda>(k, v). smap_put k v) m m0))"
  using assms
proof (induction m arbitrary: m0)
  case (Cons e m)
  obtain k v where e: "e = (k, v)" by fastforce
  have "writable (JObj (smap_put k v m0))"
    using Cons.prems set_smap_put [of k v m0] by (auto simp: e smap_ok_put list_all_iff)
  with Cons show ?case by (simp add: e del: writable.simps)
qed simp

lemma texts_writable:
  "value_text j t \<Longrightarrow> writable j"
  "elements_text js u \<Longrightarrow> list_all writable js"
  "members_text m v \<Longrightarrow> list_all (\<lambda>e. utf8_text (fst e) \<and> writable (snd e)) m"
proof (induction rule: value_text_elements_text_members_text.inducts)
  case (t_number n)
  show ?case by (rule numeral_writable)
next
  case (t_object m t)
  then show ?case unfolding members_value_def by (intro members_writable) (simp_all add: smap_ok_def)
qed (simp_all add: string_text_utf8 smap_ok_def)

lemma parse_writable: "json_parse text = Ret j \<Longrightarrow> writable j"
  using json_parse_cases [of "text"] texts_writable(1) by (auto simp: text_of_def document_def)

lemma writable_ok: "writable j \<Longrightarrow> json_ok j"
  by (induction j rule: json_ok.induct) (auto simp: list_all_iff)

lemma compact_ok [simp]: "indent_ok (- 1) c j"
  by (simp add: indent_ok_def)

lemma dump_compact:
  assumes "writable j"
  obtains t where "json_dump j = Ret t" "json_parse t = Ret (reread j)"
  using dump_parsed [OF assms compact_ok, of "CHR '' ''" False Strict] that by (auto simp: json_dump_def)

text \<open>What has been parsed can be written and parsed again: the text written is read as the same value, with \<open>-0\<close> as 0,
  and dumping the value that was read gives the same text.\<close>

lemma json_parse_dump:
  assumes "json_parse text = Ret j"
  shows "\<exists>t. json_dump j = Ret t \<and> json_parse t = Ret (reread j) \<and> json_dump (reread j) = Ret t"
  using dump_parsed [OF parse_writable [OF assms] compact_ok, of "CHR '' ''" False Strict, simplified]
  unfolding json_dump_def by blast

text \<open>C13: every finite number is written in at most 24 bytes, without an assertion of the code failing or a 64-bit product
  going wrong, and \<open>strtod\<close> reads exactly the number back.\<close>

theorem to_chars_strtod:
  assumes "is_finite x" "dbl_ok x"
  shows "\<exists>t. to_chars 64 x = Ret t \<and> length t \<le> 24 \<and> strtod t = (x, [])"
  using to_chars_text [OF assms] strtod_numeral by metis

lemma to_chars_strtod_witness: "\<exists>t. to_chars 64 (Fin (1 / 2)) = Ret t \<and> length t \<le> 24 \<and> strtod t = (Fin (1 / 2), [])"
proof (rule to_chars_strtod)
  show "dbl_ok (Fin (1 / 2))"
    unfolding dbl_ok.simps representable_def by (rule exI [of _ 1], rule exI [of _ "- 1"]) simp
qed simp

section \<open>The interface of the library\<close>

lemma ascii_char:
  assumes "of_char c < (0x80 :: int)"
  shows "scalar_value (of_char c)" "utf8 (of_char c) = [c]"
proof -
  have "(of_char c :: int) = int (of_char c)" by (simp only: of_nat_of_char)
  then have "0 \<le> (of_char c :: int)" by linarith
  with assms show "scalar_value (of_char c)" by (simp add: scalar_value_def surrogate_def)
  show "utf8 (of_char c) = [c]" using assms by (simp add: utf8_def char_of_byte)
qed

lemma utf8_ascii: "list_all (\<lambda>c. of_char c < (0x80 :: int)) s \<Longrightarrow> utf8_text s"
proof -
  assume "list_all (\<lambda>c. of_char c < (0x80 :: int)) s"
  then have "list_all scalar_value (map of_char s)" "concat (map utf8 (map of_char s)) = s"
    by (induction s) (simp_all add: ascii_char)
  then show ?thesis unfolding utf8_text_def by metis
qed

interpretation library: json_laws json_parse json_dump writable utf8_text reread
proof
  show "json_parse s \<noteq> Undef" for s using json_parse_cases [of s] by (auto simp: fails_def)
  show "\<exists>t. json_dump j = Ret t \<and> json_parse t = Ret (reread j)" if "writable j" for j
    using dump_compact [OF that] by blast
qed (auto simp: parse_writable writable_ok utf8_ascii)

end
