(* ===== verification/RpcText.thy ===== *)
theory RpcText
  imports RpcHttp RpcWs JsonText
begin

text \<open>
  The JSON-RPC clients with the JSON library they are built on: what is sent and received, from value to
  value, through the serializer, the connection and the parser.

  The lemmas are proved for any library with the laws of \<open>json_laws\<close>, and used for the model of
  \<open>json.hpp\<close>.
\<close>

section \<open>Messages\<close>

definition json_text_of :: "(string \<Rightarrow> json outcome) \<Rightarrow> (json \<Rightarrow> string outcome) \<Rightarrow> json_text" where
  "json_text_of parse dump = \<lparr>jt_parse = parse, jt_dump = dump\<rparr>"

lemma json_text_of_simps [simp]:
  "jt_parse (json_text_of parse dump) = parse" "jt_dump (json_text_of parse dump) = dump"
  by (simp_all add: json_text_of_def)

text \<open>The messages of the peer: a notification, and the reply to a call.\<close>

definition rpc_notification :: "string \<Rightarrow> json \<Rightarrow> json" where
  "rpc_notification method params = jobject
     [(''jsonrpc'', JStr ''2.0''), (''method'', JStr method), (''params'', params)]"

definition rpc_result :: "string \<Rightarrow> json \<Rightarrow> json" where
  "rpc_result n r = jobject [(''jsonrpc'', JStr ''2.0''), (''id'', JStr n), (''result'', r)]"

lemma messages_eq:
  "rpc_request n method params = JObj [(''id'', JStr (nat_to_string (unat n))), (''jsonrpc'', JStr ''2.0''),
     (''method'', JStr method), (''params'', params)]"
  "rpc_notification method params = JObj [(''jsonrpc'', JStr ''2.0''), (''method'', JStr method), (''params'', params)]"
  "rpc_result i r = JObj [(''id'', JStr i), (''jsonrpc'', JStr ''2.0''), (''result'', r)]"
  by (simp_all add: rpc_request_def rpc_notification_def rpc_result_def jobject_def smap_emplace_def)

lemma nat_to_string_ascii: "list_all (\<lambda>c. of_char c < (0x80 :: int)) (nat_to_string n)"
proof -
  have "of_char c < (0x80 :: int)" if "c \<in> set (nat_to_string n)" for c
    using nat_to_string_digits [of n] that is_digit_int [of c] by (auto simp: is_digit_def)
  then show ?thesis by (simp add: list_all_iff)
qed

text \<open>What a notification does.\<close>

definition notify ::
    "('cb \<Rightarrow> json \<Rightarrow> 'cb notification_server \<Rightarrow> 'cb notification_server) \<Rightarrow> string \<Rightarrow> json \<Rightarrow>
      'cb notification_server \<Rightarrow> 'cb notification_server" where
  "notify f method params ns = (case map_of (ns_subscribers ns) method of
       Some cb \<Rightarrow> f cb params ns
     | None \<Rightarrow> ns)"

text \<open>What a body carries: a notification written with the library, or something that is not JSON.\<close>

definition carries ::
    "(string \<Rightarrow> json outcome) \<Rightarrow> (json \<Rightarrow> string outcome) \<Rightarrow> (string \<Rightarrow> bool) \<Rightarrow> (json \<Rightarrow> bool) \<Rightarrow>
      (string \<times> json) option \<Rightarrow> string \<Rightarrow> bool" where
  "carries parse dump text_ok ok x body = (case x of
       Some (method, params) \<Rightarrow> text_ok method \<and> ok params \<and> dump (rpc_notification method params) = Ret body
     | None \<Rightarrow> \<forall>j. parse body \<noteq> Ret j)"

definition notify_all ::
    "('cb \<Rightarrow> json \<Rightarrow> 'cb notification_server \<Rightarrow> 'cb notification_server) \<Rightarrow> (json \<Rightarrow> json) \<Rightarrow>
      (string \<times> json) option list \<Rightarrow> 'cb notification_server \<Rightarrow> 'cb notification_server" where
  "notify_all f again = fold (\<lambda>x ns. case x of Some (method, params) \<Rightarrow> notify f method (again params) ns | None \<Rightarrow> ns)"

definition deliveries :: "(json \<Rightarrow> json) \<Rightarrow> (string \<times> nat option) list \<Rightarrow> (string \<times> json) option \<Rightarrow> (nat \<times> json) list" where
  "deliveries again table x = (case x of
       Some (method, params) \<Rightarrow> (case lookup_cb table method of Some cb \<Rightarrow> [(cb, again params)] | None \<Rightarrow> [])
     | None \<Rightarrow> [])"

text \<open>The outcome of a call is a value or an exception of the interface.\<close>

definition rpc_outcome :: "json outcome \<Rightarrow> bool" where
  "rpc_outcome r \<longleftrightarrow> (\<exists>j. r = Ret j) \<or> (\<exists>code msg. r = Throw (JsonRPCException code msg))"

text \<open>
  Which outcome a response has: by its code, then by whether the body is JSON, holds an error, and holds a
  result.  The message of an error carries the error as a text that is parsed to it.
\<close>

definition entry :: "json \<Rightarrow> string \<Rightarrow> json option" where
  "entry j k = (case j of JObj m \<Rightarrow> map_of m k | _ \<Rightarrow> None)"

definition decided ::
    "(string \<Rightarrow> json outcome) \<Rightarrow> (json \<Rightarrow> json) \<Rightarrow> string \<Rightarrow> string \<Rightarrow> nat \<Rightarrow> string \<Rightarrow> json outcome \<Rightarrow> bool" where
  "decided parse again method content code body r \<longleftrightarrow>
     (if code \<noteq> 200 then r = Throw (JsonRPCException NETWORK_EXCEPTION (''JSON-RPC HTTP request failed: '' @ content))
      else case parse body of
          Ret j \<Rightarrow> (case (entry j ''error'', entry j ''result'') of
              (Some e, _) \<Rightarrow> \<exists>t. r = Throw (JsonRPCException JSONRPC_ERROR (method @ '' error: '' @ t)) \<and> parse t = Ret (again e)
            | (None, Some v) \<Rightarrow> r = Ret v
            | (None, None) \<Rightarrow> r = Throw (JsonRPCException BAD_RESPONSE (method @ '' invalid response: '' @ body)))
        | _ \<Rightarrow> r = Throw (JsonRPCException BAD_RESPONSE (method @ '' invalid json: '' @ body)))"

lemma decided_rpc: "decided parse again method content code body r \<Longrightarrow> rpc_outcome r"
  by (auto simp: decided_def rpc_outcome_def split: if_splits outcome.splits option.splits prod.splits)

section \<open>Any library with the laws\<close>

context json_laws
begin

lemma messages_ok:
  assumes "text_ok method"
  shows "ok params \<Longrightarrow> ok (rpc_request n method params)" "ok params \<Longrightarrow> ok (rpc_notification method params)"
    "text_ok i \<Longrightarrow> ok r \<Longrightarrow> ok (rpc_result i r)"
  using assms ascii_ok nat_to_string_ascii
  by (auto simp: messages_eq ok_object ok_string smap_ok_def)

lemma messages_again:
  "again (rpc_request n method params) = rpc_request n method (again params)"
  "again (rpc_notification method params) = rpc_notification method (again params)"
  "again (rpc_result i r) = rpc_result i (again r)"
  by (simp_all add: messages_eq again_object again_string)

lemma request_dumped:
  assumes "text_ok method" "ok params"
  obtains content where "dump (rpc_request n method params) = Ret content"
    "parse content = Ret (rpc_request n method (again params))"
  using dump_parse [OF messages_ok(1) [OF assms]] that by (auto simp: messages_again)

lemma notification_parsed:
  assumes "text_ok method" "ok params" and "dump (rpc_notification method params) = Ret body"
  shows "parse body = Ret (rpc_notification method (again params))"
  using dump_parse [OF messages_ok(2) [OF assms(1,2)]] assms(3) by (auto simp: messages_again)

lemma deliver_carries:
  assumes "carries parse dump text_ok ok x body"
  shows "deliver (json_text_of parse dump) f body ns =
    (case x of Some (method, params) \<Rightarrow> notify f method (again params) ns | None \<Rightarrow> ns)"
proof (cases x)
  case None
  with assms show ?thesis by (cases "parse body") (simp_all add: carries_def deliver_def)
next
  case (Some y)
  then obtain mth par where x: "x = Some (mth, par)" by fastforce
  with assms have "parse body = Ret (rpc_notification mth (again par))"
    by (intro notification_parsed) (simp_all add: carries_def)
  then show ?thesis by (simp add: x deliver_def messages_eq notify_def split: option.split)
qed

lemma deliver_all:
  "list_all2 (carries parse dump text_ok ok) sent bodies \<Longrightarrow>
    fold (deliver (json_text_of parse dump) f) bodies ns = notify_all f again sent ns"
  by (induction sent bodies arbitrary: ns rule: list_all2_induct) (simp_all add: notify_all_def deliver_carries)

text \<open>Whatever bytes arrive, the thread of the notifications goes on.\<close>

lemma clientHandler_any:
  assumes "concat (incoming w) = concat (map (print_notification pth hs) bodies)"
    and "notification_headers_ok hs" and "CHR 0x0A \<notin> set pth" and "\<forall>body \<in> set bodies. length body < 2 ^ 31"
    and "\<not> ns_stop ns" and "\<And>cb p ns. ns_stop (f cb p ns) = ns_stop ns"
  shows "\<exists>w'. clientHandler peer_server_net (json_text_of parse dump) (\<lambda>cb p. updn (f cb p)) (retp ()) d (ns, w) =
      Some (Ret (), (fold (deliver (json_text_of parse dump) f) bodies ns, w')) \<and>
    outgoing w' = outgoing w @ concat (replicate (length bodies) notification_ok)"
  using assms parse_defined parse_json_ok by (intro clientHandler_runs) auto

text \<open>The same for the messages on a WebSocket.\<close>

lemma carries_quiet:
  assumes "carries parse dump text_ok ok x body"
  shows "quiet (json_text_of parse dump) (Message True body)"
    and "delivery (json_text_of parse dump) table (Message True body) = deliveries again table x"
proof -
  have "quiet (json_text_of parse dump) (Message True body) \<and>
    delivery (json_text_of parse dump) table (Message True body) = deliveries again table x"
  proof (cases x)
    case None
    with assms show ?thesis
      using parse_defined [of body] by (cases "parse body") (simp_all add: carries_def quiet_def delivery_def deliveries_def)
  next
    case (Some y)
    then obtain mth par where x: "x = Some (mth, par)" by fastforce
    with assms have ok: "text_ok mth" "ok par" and "parse body = Ret (rpc_notification mth (again par))"
      by (auto simp: carries_def intro: notification_parsed)
    then show ?thesis
      by (simp add: x quiet_def delivery_def deliveries_def messages_eq smap_ok_def split: option.split)
  qed
  then show "quiet (json_text_of parse dump) (Message True body)"
    and "delivery (json_text_of parse dump) table (Message True body) = deliveries again table x" by simp_all
qed

lemma all_quiet:
  "list_all2 (carries parse dump text_ok ok) sent bodies \<Longrightarrow>
    (\<forall>e \<in> set (map (Message True) bodies). quiet (json_text_of parse dump) e) \<and>
    concat (map (delivery (json_text_of parse dump) table) (map (Message True) bodies)) = concat (map (deliveries again table) sent)"
  by (induction sent bodies rule: list_all2_induct) (simp_all add: carries_quiet)

text \<open>The reply to a call: a value or an exception, whatever the bytes.\<close>

lemma http_reply_decided: "decided parse again method content 200 body (http_reply (json_text_of parse dump) method body)"
proof (cases "parse body")
  case (Ret j)
  show ?thesis
  proof (cases "\<exists>m e. j = JObj m \<and> map_of m ''error'' = Some e")
    case True
    then obtain m e where m: "parse body = Ret (JObj m)" "map_of m ''error'' = Some e" using Ret by blast
    obtain t where "dump e = Ret t" "parse t = Ret (again e)"
      using dump_parse [OF member_ok [OF parse_ok [OF m(1)] m(2)]] by blast
    with m show ?thesis
      by (simp add: http_reply_def decided_def entry_def jcontains_def jidx_def jtouch_def jat_def smap_emplace_def)
  next
    case False
    with Ret show ?thesis
      by (cases j) (auto simp: http_reply_def decided_def entry_def jcontains_def jidx_def jtouch_def jat_def
        smap_emplace_def split: option.split)
  qed
qed (simp_all add: http_reply_def decided_def parse_defined)

lemma http_call_replied:
  assumes "slot_open d (rh_http h)"
    and "concat (incoming w) = print_response code reason hs fr body @ rest"
    and "\<forall>h \<in> set hs. header_ok h \<and> fst h \<notin> set reserved" and "framing_ok fr body rest"
    and "code < 2 ^ 31" and "CHR 0x00 \<notin> set reason" and "CHR 0x0A \<notin> set reason"
    and "text_ok method" and "ok params"
  shows "\<exists>content outcome h' w'. http_call peer_server_net (json_text_of parse dump) method params (h, Some server, w) =
      Some (outcome, (h', Some server, w')) \<and>
    outcome = (if code \<noteq> 200
      then Throw (JsonRPCException NETWORK_EXCEPTION (''JSON-RPC HTTP request failed: '' @ content))
      else http_reply (json_text_of parse dump) method body) \<and>
    rh_msgId h' = rh_msgId h + 1 \<and>
    outgoing w' = outgoing w @ request_data (rh_http h) (empty_request\<lparr>rq_method := ''POST'',
      rq_path := mPath (rh_http h), rq_headers := rpc_headers, rq_content := content\<rparr>) \<and>
    parse content = Ret (rpc_request (rh_msgId h) method (again params))"
proof -
  obtain content where content: "dump (rpc_request (rh_msgId h) method params) = Ret content"
    "parse content = Ret (rpc_request (rh_msgId h) method (again params))"
    using assms(8,9) by (rule request_dumped)
  then have "jt_dump (json_text_of parse dump) (rpc_request (rh_msgId h) method params) = Ret content" by simp
  from http_call_reply [OF assms(1-7) this] content(2) show ?thesis by blast
qed

end

section \<open>The library of the program\<close>

definition json_library :: json_text where
  "json_library = json_text_of json_parse json_dump"

text \<open>C7: from value to value: the notifications a peer writes with the library reach the callbacks that are subscribed
  to them, in order and with their parameters, through the serializer, the connection, the HTTP reader and
  the parser; bodies that are not JSON are ignored, and all are acknowledged.\<close>

theorem notifications_library:
  assumes "concat (incoming w) = concat (map (print_notification pth hs) bodies)"
    and "notification_headers_ok hs" and "CHR 0x0A \<notin> set pth" and "\<forall>body \<in> set bodies. length body < 2 ^ 31"
    and "list_all2 (carries json_parse json_dump utf8_text writable) sent bodies"
    and "\<not> ns_stop ns" and "\<And>cb p ns. ns_stop (f cb p ns) = ns_stop ns"
  shows "\<exists>w'. clientHandler peer_server_net json_library (\<lambda>cb p. updn (f cb p)) (retp ()) d (ns, w) =
      Some (Ret (), (notify_all f reread sent ns, w')) \<and>
    outgoing w' = outgoing w @ concat (replicate (length sent) notification_ok)"
  using library.clientHandler_any [where f = f and d = d, OF assms(1-4,6,7)] library.deliver_all [OF assms(5), of f ns]
    list_all2_lengthD [OF assms(5)]
  by (simp add: json_library_def)

definition sample_body :: string where
  "sample_body = (case json_dump (rpc_notification ''State0'' (JInt 5)) of Ret t \<Rightarrow> t | _ \<Rightarrow> [])"

lemma sample_body_dumped:
  "json_dump (rpc_notification ''State0'' (JInt 5)) = Ret sample_body" "length sample_body < 100"
proof -
  have "case json_dump (rpc_notification ''State0'' (JInt 5)) of Ret t \<Rightarrow> length t < 100 | _ \<Rightarrow> False" by code_simp
  then show "json_dump (rpc_notification ''State0'' (JInt 5)) = Ret sample_body" "length sample_body < 100"
    by (auto simp: sample_body_def split: outcome.splits)
qed

lemma sample_no_json: "json_parse ''{'' = Throw (Json_exception 101)"
  by code_simp

lemma notifications_library_witness:
  "\<exists>w'. clientHandler peer_server_net json_library
      (\<lambda>cb p. updn (\<lambda>ns. ns\<lparr>ns_handlers := ns_handlers ns @ [cb]\<rparr>)) (retp ()) 9
      (sample_server, sample_peer [concat (map (print_notification ''/'' []) [sample_body, ''{'', sample_body])] []) =
      Some (Ret (), (sample_server\<lparr>ns_handlers := [3, 3]\<rparr>, w')) \<and>
    outgoing w' = concat (replicate 3 notification_ok)"
proof -
  let ?w = "sample_peer [concat (map (print_notification ''/'' []) [sample_body, ''{'', sample_body])] []"
  let ?f = "\<lambda>(cb :: nat) (p :: json) ns. ns\<lparr>ns_handlers := ns_handlers ns @ [cb]\<rparr>"
  let ?sent = "[Some (''State0'', JInt 5), None, Some (''State0'', JInt 5)]"
  note dump = sample_body_dumped
  have "utf8_text ''State0''" by (rule utf8_ascii) simp
  then have sent: "list_all2 (carries json_parse json_dump utf8_text writable) ?sent [sample_body, ''{'', sample_body]"
    using dump(1) sample_no_json by (simp add: carries_def)
  have "\<exists>w'. clientHandler peer_server_net json_library (\<lambda>cb p. updn (?f cb p)) (retp ()) 9 (sample_server, ?w) =
      Some (Ret (), (notify_all ?f reread ?sent sample_server, w')) \<and>
    outgoing w' = outgoing ?w @ concat (replicate (length ?sent) notification_ok)"
    by (rule notifications_library [of _ "''/''" "[]" "[sample_body, ''{'', sample_body]"])
      (use sent dump(2) in \<open>auto simp: sample_peer_def sample_server_def notification_headers_ok_def\<close>)
  then show ?thesis
    by (simp add: notify_all_def notify_def sample_server_def sample_peer_def eval_nat_numeral)
qed

text \<open>C11: from value to value: a call posts a text that is parsed to the request, with the next id, the method and the
  parameters, and returns the result the server has written with the library.\<close>

theorem http_call_value:
  assumes "slot_open d (rh_http h)"
    and "concat (incoming w) = print_response 200 reason hs fr body @ rest"
    and "\<forall>h \<in> set hs. header_ok h \<and> fst h \<notin> set reserved" and "framing_ok fr body rest"
    and "CHR 0x00 \<notin> set reason" and "CHR 0x0A \<notin> set reason"
    and "utf8_text method" and "writable params"
    and "utf8_text i" and "writable r" and "json_dump (rpc_result i r) = Ret body"
  shows "\<exists>content h' w'. http_call peer_server_net json_library method params (h, Some server, w) =
      Some (Ret (reread r), (h', Some server, w')) \<and> rh_msgId h' = rh_msgId h + 1 \<and>
    outgoing w' = outgoing w @ request_data (rh_http h) (empty_request\<lparr>rq_method := ''POST'',
      rq_path := mPath (rh_http h), rq_headers := rpc_headers, rq_content := content\<rparr>) \<and>
    json_parse content = Ret (rpc_request (rh_msgId h) method (reread params))"
proof -
  have "json_parse body = Ret (rpc_result i (reread r))"
    using library.dump_parse [OF library.messages_ok(3) [OF assms(7,9,10)]] assms(11) by (simp add: library.messages_again)
  then have "http_reply json_library method body = Ret (reread r)"
    by (simp add: http_reply_def json_library_def messages_eq jcontains_def jidx_def jtouch_def jat_def smap_emplace_def)
  with library.http_call_replied [OF assms(1-4) _ assms(5-8), of server] show ?thesis
    by (auto simp: json_library_def)
qed

definition sample_result :: string where
  "sample_result = (case json_dump (rpc_result ''0'' (JArr [JBool True, JFloat (Fin (1 / 2))])) of Ret t \<Rightarrow> t | _ \<Rightarrow> [])"

lemma sample_result_dumped:
  "json_dump (rpc_result ''0'' (JArr [JBool True, JFloat (Fin (1 / 2))])) = Ret sample_result" "length sample_result < 100"
proof -
  have "case json_dump (rpc_result ''0'' (JArr [JBool True, JFloat (Fin (1 / 2))])) of
      Ret t \<Rightarrow> length t < 100 | _ \<Rightarrow> False" by code_simp
  then show "json_dump (rpc_result ''0'' (JArr [JBool True, JFloat (Fin (1 / 2))])) = Ret sample_result"
    "length sample_result < 100" by (auto simp: sample_result_def split: outcome.splits)
qed

lemma sample_half: "representable (1 / 2)"
  unfolding representable_def by (rule exI [of _ 1], rule exI [of _ "- 1"]) simp

lemma http_call_value_witness:
  "\<exists>h' w'. http_call peer_server_net json_library ''GetState'' (JArr [])
      (\<lparr>rh_http = sample_client, rh_msgId = 0xFFFFFFFF\<rparr>, Some sample_server,
       sample_peer [print_response 200 ''OK'' [] By_length sample_result] []) =
      Some (Ret (JArr [JBool True, JFloat (Fin (1 / 2))]), (h', Some sample_server, w')) \<and> rh_msgId h' = 0"
proof -
  note dump = sample_result_dumped
  have "utf8_text ''GetState''" "utf8_text ''0''" by (rule utf8_ascii; simp)+
  then show ?thesis
    using sample_half http_call_value [of 3 "\<lparr>rh_http = sample_client, rh_msgId = 0xFFFFFFFF\<rparr>"
      "sample_peer [print_response 200 ''OK'' [] By_length sample_result] []" "''OK''" "[]" By_length sample_result "[]"
      "''GetState''" "JArr []" "''0''" "JArr [JBool True, JFloat (Fin (1 / 2))]" sample_server] dump
    by (auto simp: slot_open_def sample_client_def sample_peer_def framing_ok_def)
qed

text \<open>C25: for every well-formed HTTP response, whatever its code, headers, framing and body, a call on an open
  connection returns the result in the body or throws the exception of the interface that belongs to it: the network exception
  for a code other than 200, the error of the server as a text that is parsed to it, and a bad response otherwise.  No exception
  of the JSON library escapes, and nothing is undefined.\<close>

theorem http_call_total:
  assumes "slot_open d (rh_http h)"
    and "concat (incoming w) = print_response code reason hs fr body @ rest"
    and "\<forall>h \<in> set hs. header_ok h \<and> fst h \<notin> set reserved" and "framing_ok fr body rest"
    and "code < 2 ^ 31" and "CHR 0x00 \<notin> set reason" and "CHR 0x0A \<notin> set reason"
    and "utf8_text method" and "writable params"
  shows "\<exists>content outcome h' w'. http_call peer_server_net json_library method params (h, Some server, w) =
      Some (outcome, (h', Some server, w')) \<and> rpc_outcome outcome \<and> rh_msgId h' = rh_msgId h + 1 \<and>
    json_parse content = Ret (rpc_request (rh_msgId h) method (reread params)) \<and>
    decided json_parse reread method content code body outcome"
proof -
  obtain content outcome h' w' where call: "http_call peer_server_net json_library method params (h, Some server, w) =
      Some (outcome, (h', Some server, w'))" "rh_msgId h' = rh_msgId h + 1"
    "outcome = (if code \<noteq> 200
      then Throw (JsonRPCException NETWORK_EXCEPTION (''JSON-RPC HTTP request failed: '' @ content))
      else http_reply json_library method body)"
    "json_parse content = Ret (rpc_request (rh_msgId h) method (reread params))"
    using library.http_call_replied [OF assms, of server] unfolding json_library_def by blast
  have "decided json_parse reread method content code body outcome"
    using library.http_reply_decided [of "method" "content" "body", folded json_library_def] call(3)
    by (cases "code = 200") (simp_all add: decided_def)
  with call(1,2,4) decided_rpc show ?thesis by blast
qed

lemma sample_broken: "json_parse ''{nonsense'' = Throw (Json_exception 101)"
  by code_simp

lemma http_call_total_witness:
  "\<exists>h' w'. http_call peer_server_net json_library ''GetState'' (JArr [])
      (\<lparr>rh_http = sample_client, rh_msgId = 0\<rparr>, Some sample_server,
       sample_peer [print_response 200 ''OK'' [] By_length ''{nonsense'' ] []) =
      Some (Throw (JsonRPCException BAD_RESPONSE ''GetState invalid json: {nonsense''), (h', Some sample_server, w'))"
proof -
  have "utf8_text ''GetState''" by (rule utf8_ascii) simp
  then show ?thesis
    using http_call_total [of 3 "\<lparr>rh_http = sample_client, rh_msgId = 0\<rparr>"
      "sample_peer [print_response 200 ''OK'' [] By_length ''{nonsense''] []" 200 "''OK''" "[]" By_length "''{nonsense''" "[]"
      "''GetState''" "JArr []" sample_server]
    by (auto simp: slot_open_def sample_client_def sample_peer_def framing_ok_def decided_def sample_broken)
qed

text \<open>C12: from value to value on a WebSocket: a call sends a text that is parsed to the request and returns the result
  the server has written; the notifications before it reach their callbacks, in order and with their
  parameters, and messages that are not JSON are ignored.\<close>

theorem ws_call_value:
  assumes "m_connected c" and "\<not> m_event c" and "smap_ok (m_callbacks c)" and "ws_script.between w = []" and "ws_usable w"
    and "upcoming w = map (Message True) bodies @ Message True reply # rest"
    and "list_all2 (carries json_parse json_dump utf8_text writable) sent bodies"
    and "utf8_text method" and "writable params"
    and "utf8_text i" and "writable r" and "json_dump (rpc_result i r) = Ret reply"
  shows "\<exists>content c'. ws_call script_net json_library record_callback method params (c, w) =
      Some (Ret (reread r), (c', w\<lparr>upcoming := rest, ws_sent := ws_sent w @ [content],
        delivered := delivered w @ concat (map (deliveries reread (m_callbacks c)) sent)\<rparr>)) \<and>
    m_msgId c' = m_msgId c + 1 \<and> json_parse content = Ret (rpc_request (m_msgId c) method (reread params))"
proof -
  obtain content where content: "json_dump (rpc_request (m_msgId c) method params) = Ret content"
    "json_parse content = Ret (rpc_request (m_msgId c) method (reread params))"
    using assms(8,9) by (rule library.request_dumped)
  obtain m where m: "json_parse reply = Ret (JObj m)" "JObj m = rpc_result i (reread r)"
    using library.dump_parse [OF library.messages_ok(3) [OF assms(8,10,11)]] assms(12)
    by (simp add: library.messages_again messages_eq)
  note quiet = library.all_quiet [OF assms(7), of "m_callbacks c", folded json_library_def]
  have T: "jt_parse json_library reply = Ret (JObj m)" "map_of m ''id'' \<noteq> None"
    "jt_dump json_library (rpc_request (m_msgId c) method params) = Ret content"
    using m content by (simp_all add: json_library_def messages_eq)
  have "ws_reply json_library method (JObj m) = Ret (reread r)"
    using m(2) by (simp add: ws_reply_def messages_eq jcontains_def jidx_def jtouch_def jat_def smap_emplace_def)
  with ws_call_returns [OF assms(1-6) _ T] quiet content(2) show ?thesis by auto
qed

lemma ws_call_value_witness:
  "\<exists>c' w'. ws_call script_net json_library record_callback ''GetState'' (JArr [])
      (sample_ws, sample_script [Message True sample_body, Message True ''{'', Message True sample_result]) =
      Some (Ret (JArr [JBool True, JFloat (Fin (1 / 2))]), (c', w')) \<and> delivered w' = [(3, JUInt 5)]"
proof -
  let ?w = "sample_script [Message True sample_body, Message True ''{'', Message True sample_result]"
  let ?sent = "[Some (''State0'', JInt 5), None]"
  have "list_all2 (carries json_parse json_dump utf8_text writable) ?sent [sample_body, ''{'']"
    using sample_body_dumped(1) sample_no_json utf8_ascii [of "''State0''"] by (simp add: carries_def)
  moreover have "utf8_text ''GetState''" "utf8_text ''0''" by (rule utf8_ascii; simp)+
  ultimately show ?thesis
    using ws_call_value [of sample_ws ?w "[sample_body, ''{'']" sample_result "[]" ?sent "''GetState''" "JArr []" "''0''"
        "JArr [JBool True, JFloat (Fin (1 / 2))]"] sample_result_dumped(1) sample_half
    by (auto simp: sample_ws_def sample_script_def smap_ok_def deliveries_def lookup_cb_def)
qed

end
