(* ===== verification/JsonDumpStrict.thy ===== *)
theory JsonDumpStrict
  imports JsonText
begin

text \<open>
  Strings that are not in UTF-8: the automaton of the serializer accepts exactly the sequences of scalar
  values, and with the strict handler everything else makes \<open>dump\<close> throw \<open>type_error\<close> 316.
\<close>

section \<open>The automaton\<close>

lemma utf8d_class_invalid: "0xC0 \<le> b \<Longrightarrow> b < 0xC2 \<Longrightarrow> utf8d ! b = 8" "0xF5 \<le> b \<Longrightarrow> b < 256 \<Longrightarrow> utf8d ! b = 8"
  by (auto simp: utf8d_blocks nth_append nth_Cons')

lemma byte_cases:
  assumes "b < 256"
  obtains (ascii) "b < 0x80" "utf8d ! b = 0"
  | (c1) "0x80 \<le> b" "b < 0x90" "utf8d ! b = 1"
  | (c9) "0x90 \<le> b" "b < 0xA0" "utf8d ! b = 9"
  | (c7) "0xA0 \<le> b" "b < 0xC0" "utf8d ! b = 7"
  | (two) "0xC2 \<le> b" "b < 0xE0" "utf8d ! b = 2"
  | (three) "b = 0xE0 \<and> utf8d ! b = 10 \<or> 0xE1 \<le> b \<and> b < 0xED \<and> utf8d ! b = 3 \<or> b = 0xED \<and> utf8d ! b = 4 \<or>
      (b = 0xEE \<or> b = 0xEF) \<and> utf8d ! b = 3"
  | (four) "b = 0xF0 \<and> utf8d ! b = 11 \<or> 0xF1 \<le> b \<and> b < 0xF4 \<and> utf8d ! b = 6 \<or> b = 0xF4 \<and> utf8d ! b = 5"
  | (invalid) "0xC0 \<le> b \<and> b < 0xC2 \<or> 0xF5 \<le> b" "utf8d ! b = 8"
proof -
  consider (low) "b < 0xC0" | (second) "0xC0 \<le> b" "b < 0xE0" | (third) "0xE0 \<le> b" "b < 0xF0" | (fourth) "0xF0 \<le> b" by linarith
  then show ?thesis
  proof cases
    case low
    then consider "b < 0x80" | "0x80 \<le> b" "b < 0x90" | "0x90 \<le> b" "b < 0xA0" | "0xA0 \<le> b" by linarith
    then show ?thesis
    proof cases
      case 1
      then show ?thesis using low assms by (intro ascii) (simp_all add: utf8d_class(1))
    next
      case 2
      then show ?thesis using low assms by (intro c1) (simp_all add: utf8d_class(2))
    next
      case 3
      then show ?thesis using low assms by (intro c9) (simp_all add: utf8d_class(3))
    next
      case 4
      then show ?thesis using low assms by (intro c7) (simp_all add: utf8d_class(4))
    qed
  next
    case second
    then consider "b < 0xC2" | "0xC2 \<le> b" by linarith
    then show ?thesis
    proof cases
      case 1
      then show ?thesis using second assms by (intro invalid) (simp_all add: utf8d_class_invalid(1))
    next
      case 2
      then show ?thesis using second assms by (intro two) (simp_all add: utf8d_class(5))
    qed
  next
    case third
    then consider "b = 0xE0" | "0xE1 \<le> b" "b < 0xED" | "b = 0xED" | "b = 0xEE" | "b = 0xEF" by linarith
    then show ?thesis
    proof cases
      case 1
      then show ?thesis using third assms by (intro three) (simp_all add: utf8d_class(6))
    next
      case 2
      then show ?thesis using third assms by (intro three) (simp_all add: utf8d_class(7))
    next
      case 3
      then show ?thesis using third assms by (intro three) (simp_all add: utf8d_class(8))
    next
      case 4
      then show ?thesis using third assms by (intro three) (simp_all add: utf8d_class(9))
    next
      case 5
      then show ?thesis using third assms by (intro three) (simp_all add: utf8d_class(10))
    qed
  next
    case fourth
    then consider "b = 0xF0" | "0xF1 \<le> b" "b < 0xF4" | "b = 0xF4" | "0xF5 \<le> b" by linarith
    then show ?thesis
    proof cases
      case 1
      then show ?thesis using fourth assms by (intro four) (simp_all add: utf8d_class(11))
    next
      case 2
      then show ?thesis using fourth assms by (intro four) (simp_all add: utf8d_class(12))
    next
      case 3
      then show ?thesis using fourth assms by (intro four) (simp_all add: utf8d_class(13))
    next
      case 4
      then show ?thesis using fourth assms by (intro invalid) (simp_all add: utf8d_class_invalid(2))
    qed
  qed
qed

text \<open>The rows of the table: the next state for every class.\<close>

definition row :: "nat \<Rightarrow> nat list" where
  "row st = map (\<lambda>k. utf8d ! (256 + st * 16 + k)) [0..<12]"

lemma rows:
  "row 0 = [0, 1, 2, 3, 5, 8, 7, 1, 1, 1, 4, 6]"
  "row 2 = [1, 0, 1, 1, 1, 1, 1, 0, 1, 0, 1, 1]"
  "row 3 = [1, 2, 1, 1, 1, 1, 1, 2, 1, 2, 1, 1]"
  "row 4 = [1, 1, 1, 1, 1, 1, 1, 2, 1, 1, 1, 1]"
  "row 5 = [1, 2, 1, 1, 1, 1, 1, 1, 1, 2, 1, 1]"
  "row 6 = [1, 1, 1, 1, 1, 1, 1, 3, 1, 3, 1, 1]"
  "row 7 = [1, 3, 1, 1, 1, 1, 1, 3, 1, 3, 1, 1]"
  "row 8 = [1, 3, 1, 1, 1, 1, 1, 1, 1, 1, 1, 1]"
  by code_simp+

lemma decode_row:
  assumes "st \<le> 8"
  shows "\<exists>cp. decode st codep (of_char c) = Ret (row st ! (utf8d ! of_char c), cp)"
proof -
  have b: "(of_char c :: nat) < 256" by simp
  have k: "utf8d ! (of_char c) \<le> 11" by (rule utf8d_le [OF b])
  then have "256 + st * 16 + utf8d ! (of_char c) < 400" using assms by linarith
  moreover have "row st ! (utf8d ! of_char c) = utf8d ! (256 + st * 16 + utf8d ! of_char c)"
    using k by (simp add: row_def)
  moreover have "(of_char c :: nat) < 400" using b by linarith
  ultimately show ?thesis by (cases "st = UTF8_ACCEPT") (auto simp: decode_def Let_def)
qed

text \<open>The bytes a state waits for.\<close>

definition awaited :: "nat \<Rightarrow> (int \<times> int) list" where
  "awaited st =
     (if st = 2 then [(0x80, 0xBF)]
      else if st = 3 then [(0x80, 0xBF), (0x80, 0xBF)]
      else if st = 4 then [(0xA0, 0xBF), (0x80, 0xBF)]
      else if st = 5 then [(0x80, 0x9F), (0x80, 0xBF)]
      else if st = 6 then [(0x90, 0xBF), (0x80, 0xBF), (0x80, 0xBF)]
      else if st = 7 then [(0x80, 0xBF), (0x80, 0xBF), (0x80, 0xBF)]
      else [(0x80, 0x8F), (0x80, 0xBF), (0x80, 0xBF)])"

lemma of_char_int: "(of_char c :: int) = int (of_char c)"
  by (simp only: of_nat_of_char)

lemma row_first:
  obtains (ascii) "row 0 ! (utf8d ! of_char c) = 0" "(of_char c :: int) < 0x80"
  | (invalid) "row 0 ! (utf8d ! of_char c) = 1" "0x80 \<le> (of_char c :: int)" "following_ranges (of_char c) = None"
  | (lead) st where "row 0 ! (utf8d ! of_char c) = st" "2 \<le> st" "st \<le> 8" "following_ranges (of_char c) = Some (awaited st)"
proof -
  define b :: nat where "b = of_char c"
  define n where "n = row 0 ! (utf8d ! b)"
  have b: "b < 256" by (simp add: b_def)
  from b have "n = 0 \<and> int b < 0x80 \<or> n = 1 \<and> 0x80 \<le> int b \<and> following_ranges (int b) = None \<or>
      2 \<le> n \<and> n \<le> 8 \<and> following_ranges (int b) = Some (awaited n)"
  proof (cases rule: byte_cases)
    case three
    then show ?thesis by (elim disjE conjE) (simp_all add: n_def rows following_ranges_def awaited_def)
  next
    case four
    then show ?thesis by (elim disjE conjE) (simp_all add: n_def rows following_ranges_def awaited_def)
  next
    case invalid
    then show ?thesis by (elim disjE conjE) (simp_all add: n_def rows following_ranges_def)
  qed (simp_all add: n_def rows following_ranges_def awaited_def)
  then show ?thesis
    using ascii invalid lead unfolding of_char_int [of c] b_def [symmetric] n_def by blast
qed

lemma row_next:
  assumes "2 \<le> st" "st \<le> 8"
  shows "(if fst (hd (awaited st)) \<le> of_char c \<and> of_char c \<le> snd (hd (awaited st))
     then (if tl (awaited st) = [] then row st ! (utf8d ! of_char c) = 0
           else \<exists>st'. row st ! (utf8d ! of_char c) = st' \<and> 2 \<le> st' \<and> st' \<le> 8 \<and> awaited st' = tl (awaited st))
     else row st ! (utf8d ! of_char c) = 1)"
proof -
  define b :: nat where "b = of_char c"
  have b: "b < 256" by (simp add: b_def)
  define k where "k = utf8d ! b"
  have k: "b < 0x80 \<and> k = 0 \<or> 0x80 \<le> b \<and> b < 0x90 \<and> k = 1 \<or> 0x90 \<le> b \<and> b < 0xA0 \<and> k = 9 \<or> 0xA0 \<le> b \<and> b < 0xC0 \<and> k = 7 \<or>
      0xC0 \<le> b \<and> k \<in> {2, 3, 4, 5, 6, 8, 10, 11}"
    using b by (cases rule: byte_cases) (auto simp: k_def)
  have "st = 2 \<or> st = 3 \<or> st = 4 \<or> st = 5 \<or> st = 6 \<or> st = 7 \<or> st = 8" using assms by linarith
  then show ?thesis
    unfolding of_char_int [of c] b_def [symmetric] k_def [symmetric]
    using k by (elim disjE conjE) (auto simp: rows awaited_def)
qed

section \<open>Strings\<close>

text \<open>The text ends inside a sequence, or has a byte that does not belong there.\<close>

definition escape_fails :: "escaper outcome \<Rightarrow> bool" where
  "escape_fails x \<longleftrightarrow> x = Throw (Json_exception 316) \<or> (\<exists>es. x = Ret es \<and> es_state es \<noteq> UTF8_ACCEPT)"

lemma escape_reject:
  assumes "decode (es_state es) (es_codepoint es) (of_char c) = Ret (1, cp)"
  shows "escape_loop a Strict (c # s) es = Throw (Json_exception 316)"
  using assms by (subst escape_loop.simps) (simp add: UTF8_ACCEPT_def UTF8_REJECT_def escape_rejected_def Let_def)

lemma escape_inside:
  assumes "2 \<le> es_state es" "es_state es \<le> 8" "length (es_buffer es) + length (awaited (es_state es)) \<le> 511"
    and "\<nexists>bs r. s = bs @ r \<and> in_ranges bs (awaited (es_state es))"
  shows "escape_fails (escape_loop a Strict s es)"
  using assms
proof (induction s arbitrary: es)
  case Nil
  then show ?case by (simp add: escape_loop.simps escape_fails_def UTF8_ACCEPT_def)
next
  case (Cons c s)
  let ?st = "es_state es"
  obtain cp where cp: "decode ?st (es_codepoint es) (of_char c) = Ret (row ?st ! (utf8d ! of_char c), cp)"
    using decode_row [OF Cons.prems(2)] by blast
  have "awaited ?st \<noteq> []" by (simp add: awaited_def)
  then obtain x rs where rs: "awaited ?st = x # rs" by (cases "awaited ?st") auto
  note row = row_next [OF Cons.prems(1,2), of c, unfolded rs list.sel]
  show ?case
  proof (cases "fst x \<le> of_char c \<and> of_char c \<le> snd x")
    case False
    with row cp have "escape_loop a Strict (c # s) es = Throw (Json_exception 316)"
      by (intro escape_reject [of es c cp]) simp
    then show ?thesis by (simp add: escape_fails_def)
  next
    case True
    have none: "\<nexists>bs r. s = bs @ r \<and> in_ranges bs rs"
    proof
      assume "\<exists>bs r. s = bs @ r \<and> in_ranges bs rs"
      then obtain bs r where "s = bs @ r" "in_ranges bs rs" by blast
      with True have "c # s = (c # bs) @ r \<and> in_ranges (c # bs) (awaited ?st)" by (simp add: in_ranges_def rs)
      with Cons.prems(4) show False by blast
    qed
    then have "rs \<noteq> []" by (auto simp: in_ranges_def)
    with row True obtain st' where st': "row ?st ! (utf8d ! of_char c) = st'" "2 \<le> st'" "st' \<le> 8" "awaited st' = rs" by auto
    define buf where "buf = (if a then es_buffer es else es_buffer es @ [c])"
    let ?e = "es\<lparr>es_state := st', es_codepoint := cp, es_buffer := buf, es_undumped := es_undumped es + 1\<rparr>"
    have len: "length (es_buffer es) \<le> 511" "length buf + length rs \<le> 511"
      using Cons.prems(3) by (simp_all add: rs buf_def)
    have "escape_loop a Strict (c # s) es = escape_loop a Strict s ?e"
      by (rule escape_loop_more [OF _ st'(2) len(1)]) (simp_all add: cp st'(1) buf_def)
    moreover have "escape_fails (escape_loop a Strict s ?e)"
      using st' len(2) none by (intro Cons.IH) simp_all
    ultimately show ?thesis by simp
  qed
qed

text \<open>At the beginning of a sequence.\<close>

lemma escape_head:
  assumes "escaper_ok es" and "\<nexists>cp r. scalar_value cp \<and> c # s = utf8 cp @ r"
  shows "escape_fails (escape_loop a Strict (c # s) es)"
proof -
  have es: "es_state es = 0" "length (es_buffer es) \<le> 499" using assms(1) by (simp_all add: escaper_ok_def)
  obtain cp where cp: "decode (es_state es) (es_codepoint es) (of_char c) = Ret (row 0 ! (utf8d ! of_char c), cp)"
    using decode_row [of 0] es(1) by auto
  show ?thesis
  proof (cases rule: row_first [of c])
    case ascii
    then show ?thesis using assms(2) ascii_char [of c] by (metis append_Cons append_Nil)
  next
    case invalid
    then show ?thesis using escape_reject [of es c cp] cp by (simp add: escape_fails_def)
  next
    case (lead st)
    define buf where "buf = (if a then es_buffer es else es_buffer es @ [c])"
    let ?e = "es\<lparr>es_state := st, es_codepoint := cp, es_buffer := buf, es_undumped := es_undumped es + 1\<rparr>"
    have "length (awaited st) \<le> 3" by (simp add: awaited_def)
    then have len: "length (es_buffer es) \<le> 511" "length buf + length (awaited st) \<le> 511"
      using es(2) by (simp_all add: buf_def)
    have "\<nexists>bs r. s = bs @ r \<and> in_ranges bs (awaited st)"
    proof
      assume "\<exists>bs r. s = bs @ r \<and> in_ranges bs (awaited st)"
      then obtain bs r where bs: "s = bs @ r" "in_ranges bs (awaited st)" by blast
      obtain p where "scalar_value p" "utf8 p = c # bs" using in_ranges_utf8 [OF lead(4) bs(2)] by blast
      with assms(2) bs(1) show False by (metis append_Cons)
    qed
    then have "escape_fails (escape_loop a Strict s ?e)"
      using lead(2,3) len(2) by (intro escape_inside) simp_all
    moreover have "escape_loop a Strict (c # s) es = escape_loop a Strict s ?e"
      by (rule escape_loop_more [OF _ lead(2) len(1)]) (simp_all add: cp lead(1) buf_def)
    ultimately show ?thesis by simp
  qed
qed

lemma utf8_text_simps: "utf8_text []" "scalar_value cp \<Longrightarrow> utf8_text s \<Longrightarrow> utf8_text (utf8 cp @ s)"
proof -
  show "utf8_text []" unfolding utf8_text_def by (rule exI [of _ "[]"]) simp
  assume "scalar_value cp" "utf8_text s"
  then obtain cps where "list_all scalar_value (cp # cps)" "utf8 cp @ s = concat (map utf8 (cp # cps))"
    by (auto simp: utf8_text_def)
  then show "utf8_text (utf8 cp @ s)" unfolding utf8_text_def by blast
qed

lemma escape_invalid:
  assumes "escaper_ok es" "\<not> utf8_text s"
  shows "escape_fails (escape_loop a Strict s es)"
  using assms
proof (induction "length s" arbitrary: s es rule: less_induct)
  case less
  then obtain c u where s: "s = c # u" using utf8_text_simps(1) by (cases s) auto
  show ?case
  proof (cases "\<exists>cp r. scalar_value cp \<and> s = utf8 cp @ r")
    case False
    with escape_head [OF less.prems(1), of c u] show ?thesis by (simp add: s)
  next
    case True
    then obtain cp r where r: "scalar_value cp" "s = utf8 cp @ r" by blast
    then have "length r < length s" by (simp add: utf8_def)
    moreover have "\<not> utf8_text r" using less.prems(2) r utf8_text_simps(2) by blast
    moreover obtain e where "escape_loop a Strict s es = escape_loop a Strict r e" "escaper_ok e"
      using escape_scalar_value [OF r(1) less.prems(1)] r(2) by blast
    ultimately show ?thesis using less.hyps by simp
  qed
qed

lemma dump_escaped_strict:
  "dump_escaped a Strict s = (if utf8_text s then dump_escaped a Strict s else Throw (Json_exception 316))"
proof -
  have "escaper_ok new_escaper" by (simp add: escaper_ok_def new_escaper_def UTF8_ACCEPT_def)
  from escape_invalid [OF this, of s a] show ?thesis by (auto simp: dump_escaped_def escape_fails_def)
qed


section \<open>Values\<close>

text \<open>A value as the types of C++ hold it: any bytes as strings.\<close>

fun dumpable :: "json \<Rightarrow> bool" where
  "dumpable (JInt n) \<longleftrightarrow> - (2 ^ 63) \<le> n \<and> n < 2 ^ 63"
| "dumpable (JUInt n) \<longleftrightarrow> 0 \<le> n \<and> n < 2 ^ 64"
| "dumpable (JFloat x) \<longleftrightarrow> dbl_ok x"
| "dumpable (JArr js) \<longleftrightarrow> list_all dumpable js"
| "dumpable (JObj m) \<longleftrightarrow> smap_ok m \<and> list_all (\<lambda>e. dumpable (snd e)) m"
| "dumpable _ \<longleftrightarrow> True"

lemma writable_dumps:
  assumes "writable j"
  obtains t i' where "sr_dump False a h s c i j = Ret (t, i')"
proof -
  have "dumped False a h s c i j" by (rule value_dumped [OF assms]) (simp_all add: indentation_def)
  then show ?thesis using that by (auto simp: dumped_def)
qed

lemma elements_throw:
  assumes "\<And>j i. j \<in> set js \<Longrightarrow> \<not> writable j \<Longrightarrow> sr_dump False a Strict s c i j = Throw (Json_exception 316)"
    and "\<not> list_all writable js"
  shows "sr_elements False a Strict s c i js = Throw (Json_exception 316)"
  using assms
proof (induction js arbitrary: i)
  case (Cons j js)
  show ?case
  proof (cases "writable j")
    case True
    then obtain t i' where t: "sr_dump False a Strict s c i j = Ret (t, i')" by (rule writable_dumps)
    have "js \<noteq> []" "sr_elements False a Strict s c i' js = Throw (Json_exception 316)"
      using Cons True by auto
    with t show ?thesis by simp
  qed (use Cons.prems(1) in simp)
qed simp

lemma members_throw:
  assumes "\<And>e i. e \<in> set m \<Longrightarrow> \<not> writable (snd e) \<Longrightarrow> sr_dump False a Strict s c i (snd e) = Throw (Json_exception 316)"
    and "\<not> list_all (\<lambda>e. utf8_text (fst e) \<and> writable (snd e)) m"
  shows "sr_members False a Strict s c i m = Throw (Json_exception 316)"
  using assms
proof (induction m arbitrary: i)
  case (Cons e m)
  obtain k v where e: "e = (k, v)" by fastforce
  show ?case
  proof (cases "utf8_text k")
    case True
    then obtain w where w: "dump_escaped a Strict k = Ret w" using dump_escaped_string_text by blast
    show ?thesis
    proof (cases "writable v")
      case True
      then obtain t i' where t: "sr_dump False a Strict s c i v = Ret (t, i')" by (rule writable_dumps)
      have "m \<noteq> []" "sr_members False a Strict s c i' m = Throw (Json_exception 316)"
        using Cons e True \<open>utf8_text k\<close> by auto
      with t w show ?thesis by (simp add: e)
    qed (use Cons.prems(1) [of e i] w e in simp)
  next
    case False
    then show ?thesis using dump_escaped_strict [of a k] by (simp add: e)
  qed
qed simp

lemma strict_throws:
  "dumpable j \<Longrightarrow> \<not> writable j \<Longrightarrow> sr_dump False a Strict s c i j = Throw (Json_exception 316)"
proof (induction j arbitrary: i)
  case (JStr t)
  then show ?case using dump_escaped_strict [of a t] by simp
next
  case (JArr js)
  then have "sr_elements False a Strict s c i js = Throw (Json_exception 316)"
    by (intro elements_throw) (auto simp: list_all_iff)
  moreover have "js \<noteq> []" using JArr.prems by auto
  ultimately show ?case by simp
next
  case (JObj m)
  have "sr_dump False a Strict s c i (snd e) = Throw (Json_exception 316)" if "e \<in> set m" "\<not> writable (snd e)" for e i
    using JObj.IH [of e "snd e" i] JObj.prems(1) that by (cases e) (auto simp: list_all_iff)
  then have "sr_members False a Strict s c i m = Throw (Json_exception 316)"
    using JObj.prems by (intro members_throw) (auto simp: list_all_iff)
  moreover have "m \<noteq> []" using JObj.prems by auto
  ultimately show ?case by simp
qed simp_all

text \<open>C15: \<open>dump\<close> writes a value exactly if all its strings and names are in UTF-8, and the text is read back; otherwise it
  throws \<open>type_error\<close> 316 and nothing else goes wrong.\<close>

theorem json_dump_strict:
  assumes "dumpable j"
  shows "if writable j then \<exists>t. json_dump j = Ret t \<and> json_parse t = Ret (reread j)
    else json_dump j = Throw (Json_exception 316)"
  using library.dump_parse [of j] strict_throws [OF assms] by (simp add: json_dump_def json_dump_with_def Let_def)

lemma json_dump_strict_witness: "json_dump (JArr [JStr [CHR 0xC3]]) = Throw (Json_exception 316)"
proof -
  have "dump_escaped False Strict [CHR 0xC3] = Throw (Json_exception 316)" by code_simp
  then have "\<not> utf8_text [CHR 0xC3]" using dump_escaped_string_text [of "[CHR 0xC3]" False Strict] by auto
  then show ?thesis using json_dump_strict [of "JArr [JStr [CHR 0xC3]]"] by simp
qed


end
