(* ===== verification/Spec2Isabelle.thy ===== *)
theory Spec2Isabelle
  imports DriverRuns DriverSelect HttpEnds RpcText JsonDumpStrict
begin

text \<open>
  The peakAnalyser driver: an EPICS areaDetector driver for electron analysers of Scienta Omicron that
  are controlled by the servers of the PEAK software.  The sources are the files of
  \<open>src/peakAnalyserApp/src\<close>.

  \<^bold>\<open>The program.\<close>  The driver (\<open>peakAnalyser.cpp\<close>) is one object with a table of parameters, a lock,
  two threads and the callbacks it registers.  It talks to the servers through the clients of
  \<open>peakApi.cpp\<close>, which call remote procedures over one of two transports: HTTP requests with a small
  HTTP server for the notifications (\<open>HTTPClient.cpp\<close>, \<open>JsonRPCClientHTTP.cpp\<close>) or a WebSocket
  (\<open>JsonRPCClientWS.cpp\<close>).  Spectra arrive as JSON descriptions with their samples inline in base64
  (\<open>base64.cpp\<close>), in a file, or behind a URL.  Every message is a JSON text, read and written by the
  library \<open>json.hpp\<close>, one header among the sources.

  \<^bold>\<open>How it is modelled.\<close>  A program is a function from a state to an outcome and the state it leaves.
  An outcome is a value, an exception of C++, or undefined behaviour; a program that may wait for ever
  has the value \<open>None\<close> when it does.  A loop that may not end is a \<open>partial_function\<close>, so no bound or
  fuel is chosen anywhere: that a loop ends is a property of its own.  A state is kept where the code
  keeps it, and the state of one layer is a part of the state of the layer above.

  \<^item> \<open>Prelude\<close>: outcomes, programs and their rules (\<open>keeps\<close> for invariants, \<open>ends\<close> for termination),
    machine integers, \<open>std::string\<close> and \<open>std::map\<close>.
  \<^item> \<open>Base64\<close>: \<open>base64_decode\<close>, on a buffer with checked writes.
  \<^item> \<open>Dbl\<close>: \<open>double\<close> and \<open>float\<close>, with exact arithmetic and rounding to 53 bits.
  \<^item> \<open>Json\<close>: the values of \<open>json.hpp\<close>, the accessors the driver uses, and the interface \<open>json_laws\<close>
    between a parser and a serializer.
  \<^item> \<open>JsonLexer\<close>, \<open>JsonParser\<close>: the classes \<open>lexer\<close>, \<open>parser\<close> and \<open>json_sax_dom_parser\<close> of
    \<open>json.hpp\<close>, up to \<open>basic_json::parse\<close> (\<open>json_parse\<close>).
  \<^item> \<open>Dtoa\<close>, \<open>JsonSerializer\<close>: the namespace \<open>dtoa_impl\<close>, which prints floating-point numbers, and the
    class \<open>serializer\<close>, up to \<open>basic_json::dump\<close> (\<open>json_dump\<close>).
  \<^item> \<open>JsonGrammar\<close>: the specification of both, the values of JSON texts by RFC 8259 (\<open>text_of\<close>).
  \<^item> \<open>JsonScan\<close>, \<open>JsonScanNumber\<close>, \<open>JsonComplete\<close>: every text of the grammar is parsed to its value;
    \<open>JsonScanSound\<close>, \<open>JsonSound\<close>: nothing else is, and the parser never goes wrong.
  \<^item> \<open>DtoaPowers\<close>, \<open>DtoaDigits\<close>, \<open>DtoaBounds\<close>, \<open>DtoaCorrect\<close>, \<open>DtoaText\<close>: the table of powers, the
    digits and the boundaries of Grisu2, and the text of a number.
  \<^item> \<open>JsonDump\<close>, \<open>JsonDumpNumber\<close>, \<open>JsonRoundTrip\<close>, \<open>JsonDumpStrict\<close>, \<open>JsonText\<close>: the serializer writes
    texts of the grammar that are read back, it refuses what is not UTF-8, and parser and serializer
    together interpret \<open>json_laws\<close>.
  \<^item> \<open>HttpCommon\<close>, \<open>HttpClient\<close>: \<open>HTTPCommon.cpp\<close> and \<open>HTTPClient.cpp\<close>, from the parsing of a URL to
    the pool of sockets, the retry and the body of a reply; \<open>HttpEnds\<close>: when requests end.
  \<^item> \<open>RpcHttp\<close>, \<open>RpcWs\<close>: the two transports behind \<open>JsonRPCClientI.h\<close>, with the notification server and
    the event handlers of the WebSocket; \<open>RpcText\<close>: the two over the library, from value to value.
  \<^item> \<open>PeakSpectrum\<close>, \<open>PeakApi\<close>: \<open>PeakSpectrum\<close>, \<open>PeakAPI\<close> and the classes derived from it.
  \<^item> \<open>DriverState\<close>: the members of \<open>class peakAnalyser\<close>, its parameters, and the surroundings.
  \<^item> \<open>DriverSpectrum\<close>, \<open>DriverRegion\<close>: \<open>setROI\<close> to \<open>setupSpectrumDefinition\<close>, what is sent to the
    server, and what is shown of its answer.
  \<^item> \<open>DriverWrite\<close>: \<open>readEnum\<close>, \<open>writeInt32\<close>, \<open>writeFloat64\<close>, \<open>writeOctet\<close> and \<open>report\<close>;
    \<open>DriverInvariant\<close>: what the steps keep of the members; \<open>DriverSelect\<close>: the selection of the modes
    that every write keeps valid.
  \<^item> \<open>DriverConnect\<close>: \<open>connectAnalyser\<close>, the constructor and the command of the shell.
  \<^item> \<open>DriverTask\<close>, \<open>DriverAcquire\<close>: \<open>acquisitionTask\<close>, \<open>spectrumTask\<close> and the two callbacks, and the
    refinement of an abstract counter of images by the acquisition thread.
  \<^item> \<open>DriverSteps\<close>, \<open>DriverSafe\<close>, \<open>DriverRuns\<close>: what every operation of the driver keeps, and the
    driver as a state machine whose steps are its operations.
\<close>

text \<open>
  \<^bold>\<open>Parameters.\<close>  What is not under \<open>src\<close> is a parameter: the sockets (\<open>net\<close>), the WebSocket library
  (\<open>ws_net\<close>), the file system (\<open>files\<close>), and for the driver
  the record \<open>env\<close> with the parameter library, the lock, the events, the pool of arrays, the threads and
  the functions of the base classes.  The parser and the serializer are passed to the transports as a
  record (\<open>json_text\<close>); the model of \<open>json.hpp\<close> is its instance \<open>json_library\<close>.  What the code relies on is stated as a locale or a named
  hypothesis, with an instance that meets it:

  \<^item> \<open>stream_socket\<close> and \<open>http_channel\<close>: bytes arrive in order, in pieces of any size, then the peer
    closes; the interpretation is a peer with any segmentation.
  \<^item> \<open>json_laws\<close>: what is dumped is parsed to the same value, up to \<open>reread\<close>; \<open>json_parse\<close> and
    \<open>json_dump\<close> interpret it.
  \<^item> \<open>finite_net\<close>: the calls return, and a peer sends a finite number of bytes before it closes; the peer of
    the scripts meets it.  A peer that falls silent does not, and a request to it may never return.
  \<^item> \<open>selecting\<close>: the calls and the base class leave the selection of the modes alone.
  \<^item> \<open>json_rpc\<close>: what the clients rely on in a transport; both transports of the code interpret it.
  \<^item> \<open>asyn_params\<close>: a set function stores the value of a parameter of its type and nothing else.
  \<^item> \<open>acquisition\<close> with \<open>undisturbed_env\<close>: the analyser is ready and no other thread changes the
    parameters of the acquisition.  The callbacks of the code are shown to meet this.
  \<^item> \<open>param_safe\<close>, \<open>driver_predicate\<close>, \<open>world_safe\<close>, \<open>member_ops\<close>: a predicate that some stores, the
    operations of the surroundings and the assignments to the members keep.

  The other threads of the driver are present in the surroundings: the lock, the waits and the calls
  may change the members and the parameters, which stands for what runs meanwhile.

  \<^bold>\<open>What is shown.\<close>
  \<^item> Acquisition: a pass of the thread refines the abstract counter; an acquisition of several images
    ends after exactly that many passes; an exception ends it with the error status and its message,
    and never the thread; the callbacks change nothing the acquisition depends on.
  \<^item> Definition and region: the definition sent to the server, entry by entry; the region, the counts
    and the number of steps shown of the answer; axes, energies and the clock text.
  \<^item> Writes: the effect and the refusals of lens modes, modes, centers and fixed axes; every write leaves a
    valid selection.
  \<^item> Connection: the release and the host decide on the proxy; the lens modes read; what a failure
    leaves behind.
  \<^item> All operations: they store a value only in a parameter of its type, and in every reachable state
    the members fit the clients that exist.
  \<^item> JSON text: the parser returns a value exactly for the texts of the grammar that denote it, and on any
    other bytes throws one of two exceptions; what is dumped, compactly or with levels of up to 1024
    white space characters, is read back; a number is written in at most 24 bytes that are read as the
    same number; a string that is not in UTF-8 makes \<open>dump\<close> throw and does nothing else.
  \<^item> Transports: a POST sends exactly the request and returns the body for every framing and
    segmentation, after one retry if the server has closed; a call ends if the peers do, and for a
    well-formed response with the value or the exception of the interface that belongs to it;
    notifications are delivered in order with their parameters and acknowledged; a WebSocket call returns the first message with an id.  With the library, a call sends
    a text that is the request and returns the value the server has written.
  \<^item> Data: base64, chunked bodies, URLs and inline spectra as round trips, the integral of an image,
    the points of an axis and their order.
  \<^item> Some properties state a defect as the code has it: decoded samples that overrun their buffer, indices
    without a lower bound, a region of negative size, a progress that falls back, a clock that is wrong
    from 3500 seconds on.  Others are lemmas beside them: text buffers that are overrun, a left-over
    signal, an unlocked pool of sockets, a lock that is not released, members that are read before they
    are set, an indentation that overruns its string.
\<close>

text \<open>
  \<^bold>\<open>Not modelled.\<close>
  \<^item> The libraries below \<open>extern\<close> (asio, websocketpp): third-party code; the driver sees their events and
    calls, which are parameters.
  \<^item> Of \<open>json.hpp\<close>: line, column and text of an error, binary and discarded values, the parser's
    callback and its mode without exceptions, and what the program never calls (iterators, pointers,
    patches, binary formats, streams as input).  The locale is \<open>C\<close> and \<open>double\<close> is the format of IEEE with
    53 bits.
  \<^item> Log output (\<open>asynPrint\<close>, the macro \<open>ERR\<close>), and the registration of the commands with
    the shell.
  \<^item> Destructors, except that of the HTTP client, and the end of the process.
  \<^item> The interleaving inside a step without a lock: reads and writes of a member without a lock are
    single steps.  The main program, the databases and the displays hold no logic of the driver.
  \<^item> A limit on the size of strings and containers, and memory that runs out.
\<close>

end
